(* ===== verification/Prelude.thy ===== *)
theory Prelude
  imports Complex_Main "HOL-Library.Word"
begin

text \<open>
  The vocabulary every component shares.

  JavaScript strings are modelled as \<^typ>\<open>string\<close>: one \<^typ>\<open>char\<close> per UTF-16 code unit,
  restricted to the code units below 256. Everything the modelled code tests in a string
  (prefixes, hexadecimal digits, letter case, substrings) concerns ASCII characters only.
  Byte buffers are lists of \<^typ>\<open>8 word\<close>.

  A JavaScript \<open>Map\<close> (and an object used as a dictionary) remembers the order in which its keys
  were first inserted, and the code relies on that order when it lists or evicts entries. It is
  an association list here: \<open>jm_set\<close> overwrites in place and appends a new key at the end.
\<close>

named_theorems sdk_simps "equations that evaluate the modelled operations"

type_synonym byte = "8 word"

section \<open>Results\<close>

text \<open>A fallible operation returns \<open>Inl\<close> of what it throws, or \<open>Inr\<close> of its value.\<close>

definition bind_result :: "'e + 'a \<Rightarrow> ('a \<Rightarrow> 'e + 'b) \<Rightarrow> 'e + 'b" where
  "bind_result r f = (case r of Inl e \<Rightarrow> Inl e | Inr x \<Rightarrow> f x)"

lemma bind_result_simps [simp]:
  "bind_result (Inl e) f = Inl e"
  "bind_result (Inr x) f = f x"
  by (simp_all add: bind_result_def)

lemma bind_result_Inr_iff:
  "bind_result r f = Inr y \<longleftrightarrow> (\<exists>x. r = Inr x \<and> f x = Inr y)"
  by (cases r) auto

text \<open>\<open>array.map(f)\<close> for a callback that may throw: the first throw ends the map.\<close>

fun map_result :: "('a \<Rightarrow> 'e + 'b) \<Rightarrow> 'a list \<Rightarrow> 'e + 'b list" where
  "map_result f [] = Inr []"
| "map_result f (x # xs) =
     (case f x of Inl e \<Rightarrow> Inl e
      | Inr y \<Rightarrow> (case map_result f xs of Inl e \<Rightarrow> Inl e | Inr ys \<Rightarrow> Inr (y # ys)))"

lemma map_result_Inr_iff:
  "map_result f xs = Inr ys \<longleftrightarrow> list_all2 (\<lambda>x y. f x = Inr y) xs ys"
proof (induction xs arbitrary: ys)
  case Nil
  then show ?case by auto
next
  case (Cons x xs)
  show ?case
  proof (cases "f x")
    case (Inl e)
    then show ?thesis by (cases ys) auto
  next
    case (Inr y)
    then show ?thesis
      using Cons.IH by (cases ys; cases "map_result f xs") auto
  qed
qed

lemma map_result_length: "map_result f xs = Inr ys \<Longrightarrow> length ys = length xs"
  by (auto simp: map_result_Inr_iff dest: list_all2_lengthD)

lemma map_result_nth:
  "map_result f xs = Inr ys \<Longrightarrow> i < length xs \<Longrightarrow> f (xs ! i) = Inr (ys ! i)"
  by (auto simp: map_result_Inr_iff dest: list_all2_nthD)

lemma map_result_total: "(\<And>x. x \<in> set xs \<Longrightarrow> f x = Inr (g x)) \<Longrightarrow> map_result f xs = Inr (map g xs)"
  by (induction xs) auto

section \<open>Insertion-ordered maps\<close>

type_synonym ('k, 'v) jsmap = "('k \<times> 'v) list"

definition jm_get :: "('k, 'v) jsmap \<Rightarrow> 'k \<Rightarrow> 'v option" where
  "jm_get m k = map_of m k"

definition jm_has :: "('k, 'v) jsmap \<Rightarrow> 'k \<Rightarrow> bool" where
  "jm_has m k = (jm_get m k \<noteq> None)"

fun jm_set :: "'k \<Rightarrow> 'v \<Rightarrow> ('k, 'v) jsmap \<Rightarrow> ('k, 'v) jsmap" where
  "jm_set k v [] = [(k, v)]"
| "jm_set k v ((k', v') # m) = (if k' = k then (k, v) # m else (k', v') # jm_set k v m)"

definition jm_delete :: "'k \<Rightarrow> ('k, 'v) jsmap \<Rightarrow> ('k, 'v) jsmap" where
  "jm_delete k m = filter (\<lambda>e. fst e \<noteq> k) m"

definition jm_keys :: "('k, 'v) jsmap \<Rightarrow> 'k list" where
  "jm_keys m = map fst m"

definition jm_values :: "('k, 'v) jsmap \<Rightarrow> 'v list" where
  "jm_values m = map snd m"

definition jm_wf :: "('k, 'v) jsmap \<Rightarrow> bool" where
  "jm_wf m = distinct (map fst m)"

lemma jm_get_empty [simp]: "jm_get [] k = None"
  by (simp add: jm_get_def)

lemma jm_get_Cons [simp]: "jm_get ((k', v) # m) k = (if k' = k then Some v else jm_get m k)"
  by (simp add: jm_get_def)

lemma jm_get_set [simp]: "jm_get (jm_set k v m) k' = (if k' = k then Some v else jm_get m k')"
  by (induction k v m rule: jm_set.induct) (auto simp: jm_get_def)

lemma jm_get_delete [simp]: "jm_get (jm_delete k m) k' = (if k' = k then None else jm_get m k')"
  by (induction m) (auto simp: jm_get_def jm_delete_def)

lemma jm_has_iff: "jm_has m k \<longleftrightarrow> k \<in> set (jm_keys m)"
  by (induction m) (auto simp: jm_has_def jm_keys_def jm_get_def)

lemma jm_keys_set: "jm_keys (jm_set k v m) = (if jm_has m k then jm_keys m else jm_keys m @ [k])"
  by (induction k v m rule: jm_set.induct) (auto simp: jm_keys_def jm_has_def)

lemma jm_keys_delete: "jm_keys (jm_delete k m) = filter (\<lambda>k'. k' \<noteq> k) (jm_keys m)"
  by (simp add: jm_keys_def jm_delete_def filter_map o_def)

lemma jm_wf_empty [simp]: "jm_wf []"
  by (simp add: jm_wf_def)

lemma jm_wf_keys: "jm_wf m \<longleftrightarrow> distinct (jm_keys m)"
  by (simp add: jm_wf_def jm_keys_def)

lemma jm_wf_set [simp]: "jm_wf m \<Longrightarrow> jm_wf (jm_set k v m)"
  by (auto simp: jm_wf_keys jm_keys_set jm_has_iff)

lemma jm_wf_delete [simp]: "jm_wf m \<Longrightarrow> jm_wf (jm_delete k m)"
  by (simp add: jm_wf_keys jm_keys_delete)

lemma jm_get_in: "jm_get m k = Some v \<Longrightarrow> (k, v) \<in> set m"
  by (simp add: jm_get_def map_of_SomeD)

lemma jm_in_get: "jm_wf m \<Longrightarrow> (k, v) \<in> set m \<Longrightarrow> jm_get m k = Some v"
  by (simp add: jm_get_def jm_wf_def)

lemma jm_values_iff: "jm_wf m \<Longrightarrow> v \<in> set (jm_values m) \<longleftrightarrow> (\<exists>k. jm_get m k = Some v)"
  by (force simp: jm_values_def dest: jm_get_in jm_in_get)

lemma jm_delete_absent: "jm_get m k = None \<Longrightarrow> jm_delete k m = m"
  by (induction m) (auto simp: jm_get_def jm_delete_def split: if_splits)

lemma jm_get_filter:
  "jm_wf m \<Longrightarrow> jm_get (filter p m) k = (case jm_get m k of Some v \<Rightarrow> if p (k, v) then Some v else None | None \<Rightarrow> None)"
proof (induction m)
  case (Cons a m)
  show ?case
    using Cons by (auto simp: jm_wf_keys jm_keys_def jm_get_def split: option.splits if_splits
        dest: map_of_SomeD intro: weak_map_of_SomeI) (metis fst_conv image_eqI)
qed (simp add: jm_get_def)

lemma jm_wf_filter: "jm_wf m \<Longrightarrow> jm_wf (filter p m)"
  by (induction m) (auto simp: jm_wf_keys jm_keys_def)

lemma length_jm_set: "length (jm_set k v m) = (if jm_has m k then length m else Suc (length m))"
  by (induction k v m rule: jm_set.induct) (auto simp: jm_has_def)

section \<open>Strings\<close>

definition char_code :: "char \<Rightarrow> nat" where
  "char_code c = of_char c"

definition lower_char :: "char \<Rightarrow> char" where
  "lower_char c = (let n = char_code c in if 65 \<le> n \<and> n \<le> 90 then char_of (n + 32) else c)"

definition upper_char :: "char \<Rightarrow> char" where
  "upper_char c = (let n = char_code c in if 97 \<le> n \<and> n \<le> 122 then char_of (n - 32) else c)"

definition to_lower :: "string \<Rightarrow> string" where
  "to_lower s = map lower_char s"

definition to_upper :: "string \<Rightarrow> string" where
  "to_upper s = map upper_char s"

lemma char_code_eq: "c = d \<longleftrightarrow> char_code c = char_code d"
  by (simp add: char_code_def)

lemma char_code_lower:
  "char_code (lower_char c) =
     (if 65 \<le> char_code c \<and> char_code c \<le> 90 then char_code c + 32 else char_code c)"
  by (auto simp: lower_char_def char_code_def Let_def)

lemma to_lower_append [simp]: "to_lower (s @ t) = to_lower s @ to_lower t"
  by (simp add: to_lower_def)

fun starts_with :: "string \<Rightarrow> string \<Rightarrow> bool" where
  "starts_with s [] = True"
| "starts_with [] (p # ps) = False"
| "starts_with (c # s) (p # ps) = (c = p \<and> starts_with s ps)"

fun str_includes :: "string \<Rightarrow> string \<Rightarrow> bool" where
  "str_includes [] p = (p = [])"
| "str_includes (c # s) p = (starts_with (c # s) p \<or> str_includes s p)"

lemma starts_with_iff: "starts_with s p \<longleftrightarrow> (\<exists>t. s = p @ t)"
  by (induction s p rule: starts_with.induct) auto

lemma str_includes_iff: "str_includes s p \<longleftrightarrow> (\<exists>a b. s = a @ p @ b)"
proof (induction s)
  case Nil
  then show ?case by auto
next
  case (Cons c s)
  have "(\<exists>a b. c # s = a @ p @ b) \<longleftrightarrow> (\<exists>b. c # s = p @ b) \<or> (\<exists>a b. s = a @ p @ b)"
    by (metis append_Cons append_Nil neq_Nil_conv list.inject)
  then show ?case by (simp add: Cons.IH starts_with_iff)
qed

text \<open>Decimal digits of a natural number, as \<open>String(n)\<close> prints an integer.\<close>

fun nat_to_string :: "nat \<Rightarrow> string" where
  "nat_to_string n =
     (if n < 10 then [char_of (48 + n)] else nat_to_string (n div 10) @ [char_of (48 + n mod 10)])"

declare nat_to_string.simps [simp del]

definition int_to_string :: "int \<Rightarrow> string" where
  "int_to_string i = (if i < 0 then CHR ''-'' # nat_to_string (nat (- i)) else nat_to_string (nat i))"

section \<open>Hexadecimal\<close>

definition hex_digit :: "nat \<Rightarrow> char" where
  "hex_digit n = (if n < 10 then char_of (48 + n) else char_of (87 + n))"

definition hex_val :: "char \<Rightarrow> nat option" where
  "hex_val c = (let n = char_code c in
     if 48 \<le> n \<and> n \<le> 57 then Some (n - 48)
     else if 97 \<le> n \<and> n \<le> 102 then Some (n - 87)
     else if 65 \<le> n \<and> n \<le> 70 then Some (n - 55)
     else None)"

definition is_hex :: "char \<Rightarrow> bool" where
  "is_hex c = (hex_val c \<noteq> None)"

text \<open>\<open>buffer.toString("hex")\<close>\<close>

definition to_hex :: "byte list \<Rightarrow> string" where
  "to_hex bs = concat (map (\<lambda>b. [hex_digit (unat b div 16), hex_digit (unat b mod 16)]) bs)"

text \<open>
  \<open>Buffer.from(s, "hex")\<close>: Node decodes pair by pair and stops, without an error, at the first
  pair that is not two hexadecimal digits; a trailing single character is dropped.
\<close>

fun from_hex :: "string \<Rightarrow> byte list" where
  "from_hex (a # b # s) =
     (case hex_val a of None \<Rightarrow> [] | Some x \<Rightarrow>
       (case hex_val b of None \<Rightarrow> [] | Some y \<Rightarrow> word_of_nat (16 * x + y) # from_hex s))"
| "from_hex _ = []"


lemma hex_val_hex_digit [simp]: "n < 16 \<Longrightarrow> hex_val (hex_digit n) = Some n"
  by (auto simp: hex_val_def hex_digit_def char_code_def Let_def)

lemma hex_val_bound: "hex_val c = Some n \<Longrightarrow> n < 16"
  by (auto simp: hex_val_def Let_def split: if_splits)

lemma is_hex_hex_digit [simp]: "n < 16 \<Longrightarrow> is_hex (hex_digit n)"
  by (simp add: is_hex_def)

lemma byte_div_16 [simp]: "unat (b :: byte) div 16 < 16"
  using unsigned_less [of b, where ?'a = nat] by simp

lemma to_hex_Nil [simp]: "to_hex [] = []"
  and to_hex_Cons [simp]:
    "to_hex (b # bs) = hex_digit (unat b div 16) # hex_digit (unat b mod 16) # to_hex bs"
  and to_hex_append [simp]: "to_hex (xs @ ys) = to_hex xs @ to_hex ys"
  by (simp_all add: to_hex_def)

lemma length_to_hex [simp]: "length (to_hex bs) = 2 * length bs"
  by (induction bs) auto

lemma to_hex_all_hex [simp]: "list_all is_hex (to_hex bs)"
  by (induction bs) auto

theorem from_hex_to_hex [simp]: "from_hex (to_hex bs) = bs"
  by (induction bs) (simp_all add: mult.commute)

lemma to_hex_inject [simp]: "to_hex xs = to_hex ys \<longleftrightarrow> xs = ys"
  by (metis from_hex_to_hex)

text \<open>Lower-casing a hexadecimal string does not change the bytes it denotes.\<close>

lemma hex_val_lower [simp]: "hex_val (lower_char c) = hex_val c"
proof -
  have "char_code c < 256" by (simp add: char_code_def)
  then show ?thesis
    by (auto simp: hex_val_def lower_char_def char_code_def Let_def)
qed

lemma is_hex_lower [simp]: "is_hex (lower_char c) = is_hex c"
  by (simp add: is_hex_def)

lemma lower_hex_digit [simp]: "n < 16 \<Longrightarrow> lower_char (hex_digit n) = hex_digit n"
  by (auto simp: lower_char_def hex_digit_def char_code_def Let_def)

lemma lower_to_hex [simp]: "to_lower (to_hex bs) = to_hex bs"
  by (induction bs) (auto simp: to_lower_def)

lemma length_to_lower [simp]: "length (to_lower s) = length s"
  by (simp add: to_lower_def)

lemma to_lower_all_hex [simp]: "list_all is_hex (to_lower s) = list_all is_hex s"
  by (induction s) (auto simp: to_lower_def)

lemma lower_char_idem [simp]: "lower_char (lower_char c) = lower_char c"
  by (auto simp: lower_char_def char_code_def Let_def)

lemma to_lower_idem [simp]: "to_lower (to_lower s) = to_lower s"
  by (simp add: to_lower_def)

lemma from_hex_lower [simp]: "from_hex (to_lower s) = from_hex s"
  by (induction s rule: from_hex.induct) (auto simp: to_lower_def split: option.splits)

text \<open>A lower-case hexadecimal string of even length is exactly the encoding of its bytes.\<close>

lemma hex_digit_hex_val: "hex_val c = Some n \<Longrightarrow> hex_digit n = lower_char c"
  by (auto simp: hex_val_def hex_digit_def lower_char_def char_code_def Let_def split: if_splits)

lemma to_hex_from_hex:
  "list_all is_hex s \<Longrightarrow> even (length s) \<Longrightarrow> to_hex (from_hex s) = to_lower s"
proof (induction s rule: from_hex.induct)
  case (1 a b s)
  then obtain x y where xy: "hex_val a = Some x" "hex_val b = Some y"
    by (auto simp: is_hex_def)
  then have lt: "x < 16" "y < 16" by (auto dest: hex_val_bound)
  have "unat (word_of_nat (16 * x + y) :: byte) = 16 * x + y"
    using lt by (simp add: unsigned_of_nat take_bit_nat_eq_self del: of_nat_add of_nat_mult)
  with 1 xy lt show ?case
    by (simp add: to_lower_def hex_digit_hex_val)
qed (auto simp: to_lower_def)

lemma length_from_hex:
  "list_all is_hex s \<Longrightarrow> length (from_hex s) = length s div 2"
  by (induction s rule: from_hex.induct) (auto simp: is_hex_def)


text \<open>\<open>/^[0-9a-fA-F]{n}$/\<close>\<close>

definition hex_of_length :: "nat \<Rightarrow> string \<Rightarrow> bool" where
  "hex_of_length n s = (length s = n \<and> list_all is_hex s)"

lemma hex_of_length_lower [simp]: "hex_of_length n (to_lower s) = hex_of_length n s"
  by (simp add: hex_of_length_def)

lemma hex_of_length_to_hex [simp]: "hex_of_length n (to_hex bs) \<longleftrightarrow> n = 2 * length bs"
  by (auto simp: hex_of_length_def)

end
