(* ===== verification/Regex.thy ===== *)
theory Regex
  imports Prelude
begin

text \<open>
  The fragment of JavaScript regular expressions the modelled code uses: character classes,
  alternation, sequence and repetition, tested anywhere in a string (\<open>re.test(s)\<close>) or against the
  whole of it (\<open>/^...$/\<close>). The matcher works by residuals and is proved to decide the language
  \<open>rx_lang\<close> of the expression, so \<open>rx_test\<close> is the JavaScript \<open>test\<close> whatever order a
  backtracking engine would try the alternatives in.
\<close>

datatype rx =
    RFail
  | REmpty
  | RClass "char \<Rightarrow> bool"
  | ROr rx rx
  | RThen rx rx
  | RMany rx

inductive_set many :: "string set \<Rightarrow> string set" for L where
  many_none: "[] \<in> many L"
| many_more: "u \<in> L \<Longrightarrow> v \<in> many L \<Longrightarrow> u @ v \<in> many L"

fun rx_lang :: "rx \<Rightarrow> string set" where
  "rx_lang RFail = {}"
| "rx_lang REmpty = {[]}"
| "rx_lang (RClass p) = {[c] | c. p c}"
| "rx_lang (ROr r q) = rx_lang r \<union> rx_lang q"
| "rx_lang (RThen r q) = {u @ v | u v. u \<in> rx_lang r \<and> v \<in> rx_lang q}"
| "rx_lang (RMany r) = many (rx_lang r)"

section \<open>The matcher\<close>

fun can_stop :: "rx \<Rightarrow> bool" where
  "can_stop RFail = False"
| "can_stop REmpty = True"
| "can_stop (RClass p) = False"
| "can_stop (ROr r q) = (can_stop r \<or> can_stop q)"
| "can_stop (RThen r q) = (can_stop r \<and> can_stop q)"
| "can_stop (RMany r) = True"

text \<open>Constructors that drop dead alternatives, so that residuals stay small.\<close>

definition mk_or :: "rx \<Rightarrow> rx \<Rightarrow> rx" where
  "mk_or r q = (case r of RFail \<Rightarrow> q | _ \<Rightarrow> (case q of RFail \<Rightarrow> r | _ \<Rightarrow> ROr r q))"

definition mk_then :: "rx \<Rightarrow> rx \<Rightarrow> rx" where
  "mk_then r q = (case r of RFail \<Rightarrow> RFail | REmpty \<Rightarrow> q | _ \<Rightarrow> RThen r q)"

fun residual :: "char \<Rightarrow> rx \<Rightarrow> rx" where
  "residual c RFail = RFail"
| "residual c REmpty = RFail"
| "residual c (RClass p) = (if p c then REmpty else RFail)"
| "residual c (ROr r q) = mk_or (residual c r) (residual c q)"
| "residual c (RThen r q) =
     (if can_stop r then mk_or (mk_then (residual c r) q) (residual c q)
      else mk_then (residual c r) q)"
| "residual c (RMany r) = mk_then (residual c r) (RMany r)"

fun rx_full :: "rx \<Rightarrow> string \<Rightarrow> bool" where
  "rx_full r [] = can_stop r"
| "rx_full r (c # s) = rx_full (residual c r) s"

fun rx_prefix :: "rx \<Rightarrow> string \<Rightarrow> bool" where
  "rx_prefix r [] = can_stop r"
| "rx_prefix r (c # s) = (can_stop r \<or> rx_prefix (residual c r) s)"

fun rx_test :: "rx \<Rightarrow> string \<Rightarrow> bool" where
  "rx_test r [] = rx_prefix r []"
| "rx_test r (c # s) = (rx_prefix r (c # s) \<or> rx_test r s)"

section \<open>The matcher decides the language\<close>

lemma mk_or_lang [simp]: "rx_lang (mk_or r q) = rx_lang r \<union> rx_lang q"
  by (auto simp: mk_or_def split: rx.splits)

lemma mk_then_lang [simp]: "rx_lang (mk_then r q) = rx_lang (RThen r q)"
  by (auto simp: mk_then_def split: rx.splits)

lemma can_stop_iff: "can_stop r \<longleftrightarrow> [] \<in> rx_lang r"
  by (induction r) (auto intro: many_none)

lemma many_ConsD: "w \<in> many L \<Longrightarrow> w = c # s \<Longrightarrow> \<exists>u v. s = u @ v \<and> c # u \<in> L \<and> v \<in> many L"
proof (induction arbitrary: s rule: many.induct)
  case many_none
  then show ?case by simp
next
  case (many_more u v)
  then show ?case by (cases u) auto
qed

lemma residual_lang: "s \<in> rx_lang (residual c r) \<longleftrightarrow> c # s \<in> rx_lang r"
proof (induction r arbitrary: s)
  case (RThen r q)
  have "c # s \<in> rx_lang (RThen r q) \<longleftrightarrow>
      (\<exists>u v. s = u @ v \<and> c # u \<in> rx_lang r \<and> v \<in> rx_lang q) \<or>
      ([] \<in> rx_lang r \<and> c # s \<in> rx_lang q)"
    by (auto simp: Cons_eq_append_conv)
  then show ?case using RThen by (auto simp: can_stop_iff)
next
  case (RMany r)
  have "c # s \<in> many (rx_lang r) \<longleftrightarrow> (\<exists>u v. s = u @ v \<and> c # u \<in> rx_lang r \<and> v \<in> many (rx_lang r))"
    by (auto dest: many_ConsD) (metis append_Cons many_more)
  then show ?case using RMany by auto
qed auto

lemma rx_full_iff: "rx_full r s \<longleftrightarrow> s \<in> rx_lang r"
  by (induction s arbitrary: r) (simp_all add: can_stop_iff residual_lang)

lemma rx_prefix_iff: "rx_prefix r s \<longleftrightarrow> (\<exists>u v. s = u @ v \<and> u \<in> rx_lang r)"
proof (induction s arbitrary: r)
  case Nil
  then show ?case by (simp add: can_stop_iff)
next
  case (Cons c s)
  have "(\<exists>u v. c # s = u @ v \<and> u \<in> rx_lang r) \<longleftrightarrow>
      [] \<in> rx_lang r \<or> (\<exists>u v. s = u @ v \<and> c # u \<in> rx_lang r)"
    by (auto simp: Cons_eq_append_conv)
  then show ?case by (simp only: rx_prefix.simps Cons.IH can_stop_iff residual_lang)
qed

theorem rx_test_iff: "rx_test r s \<longleftrightarrow> (\<exists>a u b. s = a @ u @ b \<and> u \<in> rx_lang r)"
proof (induction s)
  case Nil
  then show ?case by (simp add: can_stop_iff)
next
  case (Cons c s)
  have "(\<exists>a u b. c # s = a @ u @ b \<and> u \<in> rx_lang r) \<longleftrightarrow>
      (\<exists>u b. c # s = u @ b \<and> u \<in> rx_lang r) \<or> (\<exists>a u b. s = a @ u @ b \<and> u \<in> rx_lang r)"
  proof
    assume "\<exists>a u b. c # s = a @ u @ b \<and> u \<in> rx_lang r"
    then obtain a u b where eq: "c # s = a @ u @ b" and u: "u \<in> rx_lang r" by blast
    show "(\<exists>u b. c # s = u @ b \<and> u \<in> rx_lang r) \<or> (\<exists>a u b. s = a @ u @ b \<and> u \<in> rx_lang r)"
    proof (cases a)
      case Nil
      with eq u show ?thesis by auto
    next
      case (Cons d a')
      with eq have "s = a' @ u @ b" by simp
      with u show ?thesis by blast
    qed
  next
    assume "(\<exists>u b. c # s = u @ b \<and> u \<in> rx_lang r) \<or> (\<exists>a u b. s = a @ u @ b \<and> u \<in> rx_lang r)"
    then show "\<exists>a u b. c # s = a @ u @ b \<and> u \<in> rx_lang r"
      by (metis append_Cons append_Nil)
  qed
  moreover have "rx_test r (c # s) \<longleftrightarrow> rx_prefix r (c # s) \<or> rx_test r s"
    by simp
  ultimately show ?case by (simp only: Cons.IH rx_prefix_iff)
qed

section \<open>The expressions the code writes\<close>

definition ch :: "char \<Rightarrow> rx" where
  "ch c = RClass (\<lambda>d. d = c)"

fun lit :: "string \<Rightarrow> rx" where
  "lit [] = REmpty"
| "lit (c # s) = RThen (ch c) (lit s)"

fun alts :: "rx list \<Rightarrow> rx" where
  "alts [] = RFail"
| "alts [r] = r"
| "alts (r # q # rs) = ROr r (alts (q # rs))"

fun seqs :: "rx list \<Rightarrow> rx" where
  "seqs [] = REmpty"
| "seqs [r] = r"
| "seqs (r # q # rs) = RThen r (seqs (q # rs))"

definition opt :: "rx \<Rightarrow> rx" where
  "opt r = ROr r REmpty"

definition some_of :: "rx \<Rightarrow> rx" where
  "some_of r = RThen r (RMany r)"

definition is_digit :: "char \<Rightarrow> bool" where
  "is_digit c = (48 \<le> char_code c \<and> char_code c \<le> 57)"

text \<open>\<open>\s\<close> below code unit 256: tab to carriage return, space, and the no-break space.\<close>

definition is_space :: "char \<Rightarrow> bool" where
  "is_space c = (let n = char_code c in (9 \<le> n \<and> n \<le> 13) \<or> n = 32 \<or> n = 160)"

text \<open>\<open>.*\<close>: any run of characters other than line terminators.\<close>

definition dots :: rx where
  "dots = RMany (RClass (\<lambda>c. char_code c \<noteq> 10 \<and> char_code c \<noteq> 13))"

definition spaces :: rx where
  "spaces = RMany (RClass is_space)"

lemma lit_lang [simp]: "rx_lang (lit p) = {p}"
  by (induction p) (auto simp: ch_def)

lemma alts_lang [simp]: "rx_lang (alts rs) = (\<Union>r \<in> set rs. rx_lang r)"
  by (induction rs rule: alts.induct) auto

text \<open>A literal pattern is the substring test, an alternation of literals a disjunction of them.\<close>

lemma rx_test_lit: "rx_test (lit p) s \<longleftrightarrow> str_includes s p"
  by (simp add: rx_test_iff str_includes_iff)

lemma rx_test_alts: "rx_test (alts rs) s \<longleftrightarrow> (\<exists>r \<in> set rs. rx_test r s)"
  by (auto simp: rx_test_iff)

lemma many_class_iff: "s \<in> many {[c] | c. p c} \<longleftrightarrow> list_all p s"
proof
  show "s \<in> many {[c] | c. p c} \<Longrightarrow> list_all p s"
    by (induction rule: many.induct) auto
  show "list_all p s \<Longrightarrow> s \<in> many {[c] | c. p c}"
  proof (induction s)
    case Nil
    then show ?case by (simp add: many_none)
  next
    case (Cons c s)
    then have "[c] @ s \<in> many {[c] | c. p c}"
      by (intro many_more) auto
    then show ?case by simp
  qed
qed

end
