(* ===== verification/SdkErrors.thy ===== *)
theory SdkErrors
  imports Regex
begin

text \<open>
  Models \<open>sdk/src/errors.ts\<close> and \<open>sdk/src/error-codes.ts\<close>: the values the SDK throws, the
  constructor of \<open>SorobanIdentityError\<close>, the parsers that turn an RPC message into a typed error,
  and the classification and wrapping of arbitrary thrown values.

  A JavaScript program can throw any value. \<open>thrown\<close> lists the kinds the code distinguishes:
  its own error classes, any other \<open>Error\<close> (by name and message), a thrown number (which the
  constructor below reads as a contract code) and a thrown string. Messages written with a
  dash outside ASCII in the source carry a hyphen here.
\<close>

section \<open>Error values\<close>

datatype SorobanErrorCode =
    NOT_FOUND | UNAUTHORIZED | NOT_AN_ISSUER | NOT_A_REPORTER | ALREADY_EXISTS
  | ALREADY_INITIALIZED | INVALID_INPUT | INVALID_ADDRESS | INVALID_PROOF | INVALID_ARGUMENT
  | NETWORK_ERROR | NETWORK_TIMEOUT | RPC_ERROR | CONTRACT_ERROR | CONTRACT_PANIC
  | INSUFFICIENT_FEE | LEDGER_CLOSED | RATE_LIMITED | TIMEOUT | VALIDATION_ERROR
  | BATCH_TOO_LARGE | CLIENT_NOT_READY | CLIENT_DISPOSED | UNKNOWN

datatype thrown =
    SdkThrown sdk_error
  | ContractThrown string nat
  | DisposedThrown
  | RateLimitThrown rat
  | ClaimsThrown string "(string \<times> string) list"
  | ErrorThrown string string
  | NumberThrown nat
  | StringThrown string
and sdk_error = SorobanIdentityError
    (message: string) (code: SorobanErrorCode) (details: "(string \<times> detail) list option")
    (contractCode: "nat option") (originalError: "thrown option") (txHash: "string option")
and detail = DNum nat | DStr string | DThrown thrown | DUndefined

text \<open>\<open>SorobanIdentityErrorInit\<close>, every field optional.\<close>

record SorobanIdentityErrorInit =
  init_code :: "SorobanErrorCode option"
  init_details :: "(string \<times> detail) list option"
  init_originalError :: "thrown option"
  init_txHash :: "string option"

definition empty_init :: SorobanIdentityErrorInit where
  "empty_init = \<lparr>init_code = None, init_details = None, init_originalError = None, init_txHash = None\<rparr>"

text \<open>The two signatures of the constructor: a code string, or an init object.\<close>

definition numeric_detail :: "(string \<times> detail) list option \<Rightarrow> nat option" where
  "numeric_detail d = (case d of None \<Rightarrow> None
     | Some m \<Rightarrow> (case jm_get m ''contractCode'' of Some (DNum n) \<Rightarrow> Some n | _ \<Rightarrow> None))"

definition sdk_error_init :: "string \<Rightarrow> SorobanIdentityErrorInit \<Rightarrow> thrown option \<Rightarrow> sdk_error" where
  "sdk_error_init msg i orig = SorobanIdentityError msg
     (case init_code i of None \<Rightarrow> UNKNOWN | Some c \<Rightarrow> c)
     (init_details i)
     (numeric_detail (init_details i))
     (case init_originalError i of None \<Rightarrow> orig | Some e \<Rightarrow> Some e)
     (init_txHash i)"

definition sdk_error_code :: "string \<Rightarrow> SorobanErrorCode \<Rightarrow> thrown option \<Rightarrow> sdk_error" where
  "sdk_error_code msg c orig = SorobanIdentityError msg c None
     (case orig of Some (NumberThrown n) \<Rightarrow> Some n | _ \<Rightarrow> None) orig None"

text \<open>\<open>throw new SorobanIdentityError(msg, code)\<close>\<close>

definition sdk_throw :: "string \<Rightarrow> SorobanErrorCode \<Rightarrow> thrown" where
  "sdk_throw msg c = SdkThrown (sdk_error_code msg c None)"

record envelope =
  env_code :: SorobanErrorCode
  env_message :: string
  env_details :: "(string \<times> detail) list option"
  env_txHash :: "string option"

text \<open>The spread \<open>this.txHash ? ... : {}\<close> drops an empty hash too.\<close>

definition toEnvelope :: "sdk_error \<Rightarrow> envelope" where
  "toEnvelope e = \<lparr>env_code = code e, env_message = message e, env_details = details e,
     env_txHash = (case txHash e of Some h \<Rightarrow> (if h = [] then None else Some h) | None \<Rightarrow> None)\<rparr>"

section \<open>Reading a thrown value\<close>

text \<open>The message of a \<open>RateLimitError\<close>; a fractional number of milliseconds prints rounded down here.\<close>

definition rate_limit_message :: "rat \<Rightarrow> string" where
  "rate_limit_message ms =
     ''Rate limited - retry after '' @ nat_to_string (nat \<lfloor>ms\<rfloor>) @ ''ms''"

text \<open>\<open>err instanceof Error ? err.message : String(err)\<close>\<close>

fun err_message :: "thrown \<Rightarrow> string" where
  "err_message (SdkThrown e) = message e"
| "err_message (ContractThrown m n) = m"
| "err_message DisposedThrown = ''Client has been disposed''"
| "err_message (RateLimitThrown ms) = rate_limit_message ms"
| "err_message (ClaimsThrown m fs) = m"
| "err_message (ErrorThrown n m) = m"
| "err_message (NumberThrown n) = nat_to_string n"
| "err_message (StringThrown s) = s"

fun is_error :: "thrown \<Rightarrow> bool" where
  "is_error (NumberThrown n) = False"
| "is_error (StringThrown s) = False"
| "is_error _ = True"

fun err_name :: "thrown \<Rightarrow> string" where
  "err_name (SdkThrown e) = ''SorobanIdentityError''"
| "err_name (ContractThrown m n) = ''ContractError''"
| "err_name DisposedThrown = ''ClientDisposedError''"
| "err_name (RateLimitThrown ms) = ''RateLimitError''"
| "err_name (ClaimsThrown m fs) = ''ClaimsValidationError''"
| "err_name (ErrorThrown n m) = n"
| "err_name _ = []"

text \<open>\<open>err.toString()\<close>: \<open>name: message\<close> for an error object.\<close>

definition err_string :: "thrown \<Rightarrow> string" where
  "err_string e =
     (if \<not> is_error e then err_message e
      else if err_name e = [] then err_message e
      else if err_message e = [] then err_name e
      else err_name e @ '': '' @ err_message e)"

section \<open>Contract error codes\<close>

type_synonym error_table = "nat \<Rightarrow> (SorobanErrorCode \<times> string) option"

definition IDENTITY_ERRORS :: error_table where
  "IDENTITY_ERRORS = map_of [
     (1, (ALREADY_EXISTS, ''Registry is already initialized'')),
     (2, (ALREADY_EXISTS, ''DID already exists for this address'')),
     (3, (NOT_FOUND, ''DID not found'')),
     (4, (UNAUTHORIZED, ''Unauthorized operation''))]"

definition CREDENTIAL_ERRORS :: error_table where
  "CREDENTIAL_ERRORS = map_of [
     (1, (ALREADY_EXISTS, ''Credential manager is already initialized'')),
     (2, (ALREADY_EXISTS, ''Not initialized'')),
     (3, (NOT_FOUND, ''Credential not found'')),
     (4, (UNAUTHORIZED, ''Only the issuer can perform this action'')),
     (5, (NOT_AN_ISSUER, ''Not a registered issuer''))]"

definition REPUTATION_PARSE_ERRORS :: error_table where
  "REPUTATION_PARSE_ERRORS = map_of [
     (1, (ALREADY_EXISTS, ''Reputation contract is already initialized'')),
     (2, (ALREADY_EXISTS, ''Not initialized'')),
     (3, (NOT_A_REPORTER, ''Not a registered reporter''))]"

definition IDENTITY_REGISTRY_ERRORS :: "nat \<Rightarrow> string option" where
  "IDENTITY_REGISTRY_ERRORS = map_of [
     (1, ''DID not found''),
     (2, ''DID is deactivated''),
     (3, ''Metadata key or value exceeds maximum length''),
     (4, ''Contract already initialized''),
     (5, ''Empty metadata not allowed''),
     (6, ''Unauthorized: caller is not the admin/controller''),
     (7, ''DID already exists for this address'')]"

definition CREDENTIAL_MANAGER_ERRORS :: "nat \<Rightarrow> string option" where
  "CREDENTIAL_MANAGER_ERRORS = map_of [
     (1, ''Contract already initialized''),
     (2, ''Unauthorized issuer''),
     (3, ''Credential not found''),
     (4, ''Credential already revoked''),
     (5, ''Credential already exists''),
     (6, ''Contract not initialized''),
     (7, ''Unauthorized: caller is not the admin''),
     (8, ''Maximum number of issuers reached''),
     (9, ''Credential is expired''),
     (15, ''Batch size exceeds maximum of 50''),
     (21, ''Activation time must be strictly in the future''),
     (22, ''Credential has not reached its activation time yet''),
     (23, ''Activation is already effective or credential was never time-locked''),
     (24, ''Activation has already been cancelled'')]"

definition REPUTATION_ERRORS :: "nat \<Rightarrow> string option" where
  "REPUTATION_ERRORS = map_of [
     (1, ''Contract already initialized''),
     (2, ''Reporter not registered''),
     (3, ''Rate limit exceeded for this reporter''),
     (4, ''Reason text exceeds maximum length''),
     (5, ''Contract not initialized''),
     (6, ''Unauthorized: caller is not the admin'')]"

section \<open>Parsing a contract error out of a message\<close>

text \<open>\<open>parseInt(digits, 10)\<close>\<close>

definition digit_val :: "char \<Rightarrow> nat" where
  "digit_val c = char_code c - 48"

definition parse_digits :: "string \<Rightarrow> nat" where
  "parse_digits ds = foldl (\<lambda>n c. 10 * n + digit_val c) 0 ds"

text \<open>\<open>/#(\d+)/\<close>: the first \<open>#\<close> that a digit follows, and the run of digits after it.\<close>

fun match_hash_code :: "string \<Rightarrow> nat option" where
  "match_hash_code [] = None"
| "match_hash_code (c # s) =
     (if c = CHR ''#'' \<and> takeWhile is_digit s \<noteq> [] then Some (parse_digits (takeWhile is_digit s))
      else match_hash_code s)"

text \<open>
  \<open>/Error\(Contract,\s*#?(\d+)\)/i\<close> and \<open>/contract error #?(\d+)/i\<close>, tried at one position
  (\<open>at_...\<close>) and then at every position from the left.
\<close>

definition at_error_contract :: "string \<Rightarrow> nat option" where
  "at_error_contract s =
     (if starts_with (to_lower s) ''error(contract,'' then
        let s1 = dropWhile is_space (drop 15 s);
            s2 = (case s1 of c # t \<Rightarrow> (if c = CHR ''#'' then t else s1) | [] \<Rightarrow> []);
            ds = takeWhile is_digit s2
        in if ds \<noteq> [] \<and> starts_with (dropWhile is_digit s2) '')'' then Some (parse_digits ds) else None
      else None)"

definition at_contract_error :: "string \<Rightarrow> nat option" where
  "at_contract_error s =
     (if starts_with (to_lower s) ''contract error '' then
        let s1 = drop 15 s;
            s2 = (case s1 of c # t \<Rightarrow> (if c = CHR ''#'' then t else s1) | [] \<Rightarrow> []);
            ds = takeWhile is_digit s2
        in if ds \<noteq> [] then Some (parse_digits ds) else None
      else None)"

fun match_at :: "(string \<Rightarrow> nat option) \<Rightarrow> string \<Rightarrow> nat option" where
  "match_at p [] = p []"
| "match_at p (c # s) = (case p (c # s) of Some n \<Rightarrow> Some n | None \<Rightarrow> match_at p s)"

datatype contractType = Identity | Credential | Reputation

definition contract_table :: "contractType \<Rightarrow> error_table" where
  "contract_table t = (case t of Identity \<Rightarrow> IDENTITY_ERRORS | Credential \<Rightarrow> CREDENTIAL_ERRORS
     | Reputation \<Rightarrow> REPUTATION_PARSE_ERRORS)"

definition match_contract_code :: "string \<Rightarrow> nat option" where
  "match_contract_code s = (case match_at at_error_contract s of
     Some n \<Rightarrow> Some n | None \<Rightarrow> match_at at_contract_error s)"

definition code_details :: "nat \<Rightarrow> (string \<times> detail) list option" where
  "code_details n = Some [(''contractCode'', DNum n)]"

definition parseContractError :: "thrown \<Rightarrow> contractType \<Rightarrow> sdk_error" where
  "parseContractError err t = (case err of
     SdkThrown e \<Rightarrow> e
   | _ \<Rightarrow> (case match_contract_code (err_message err) of
       Some n \<Rightarrow> (case contract_table t n of
           Some (c, m) \<Rightarrow> sdk_error_init m (empty_init\<lparr>init_code := Some c, init_details := code_details n\<rparr>) None
         | None \<Rightarrow> sdk_error_init (''Contract error #'' @ nat_to_string n)
             (empty_init\<lparr>init_code := Some CONTRACT_ERROR, init_details := code_details n\<rparr>) None)
     | None \<Rightarrow> sdk_error_code (err_message err) UNKNOWN None))"

text \<open>\<open>ContractError.extract\<close>, and the constructor's message.\<close>

definition contract_error :: "nat \<Rightarrow> (nat \<Rightarrow> string option) \<Rightarrow> thrown" where
  "contract_error n tab = ContractThrown
     (case tab n of Some m \<Rightarrow> m | None \<Rightarrow> ''Contract error code '' @ nat_to_string n) n"

definition extract_code :: "string \<Rightarrow> (nat \<Rightarrow> string option) \<Rightarrow> thrown option" where
  "extract_code errMsg tab = (case match_hash_code errMsg of
     None \<Rightarrow> None | Some n \<Rightarrow> Some (contract_error n tab))"


section \<open>Classification of messages\<close>

text \<open>
  \<open>classifyError\<close> lower-cases the message and returns the code of the first expression that
  matches. The expressions are listed in the order of the source.
\<close>

definition network_rx :: rx where
  "network_rx = alts [lit ''econnrefused'', lit ''enotfound'', lit ''econnreset'', lit ''network'',
     lit ''fetch failed'', seqs [lit ''socket'', dots, lit ''hang'']]"

definition classify_rules :: "(rx \<times> SorobanErrorCode) list" where
  "classify_rules = [
     (seqs [lit ''already'', some_of (RClass is_space),
        alts [lit ''registered'', lit ''exists'', lit ''active'', lit ''issued'']], ALREADY_EXISTS),
     (alts [seqs [lit ''not'', some_of (RClass is_space),
        alts [lit ''found'', lit ''registered'', lit ''active'']], lit ''no such''], NOT_FOUND),
     (alts [seqs [lit ''unauthori'', alts [lit ''s'', lit ''z''], lit ''ed''], lit ''forbidden'',
        lit ''permission denied''], UNAUTHORIZED),
     (alts [lit ''rate limit'', lit ''too many requests''], RATE_LIMITED),
     (alts [seqs [lit ''insufficient'', dots, alts [lit ''fee'', lit ''balance'']],
        seqs [lit ''fee'', dots, lit ''too'', dots, lit ''low'']], INSUFFICIENT_FEE),
     (alts [seqs [lit ''ledger'', dots, lit ''closed''],
        seqs [lit ''seq'', dots, lit ''too'', dots, lit ''old'']], LEDGER_CLOSED),
     (alts [lit ''panic'', lit ''host environment''], CONTRACT_PANIC),
     (alts [seqs [lit ''invalid'', dots, lit ''address''],
        seqs [lit ''not'', dots, lit ''valid'', dots, lit ''stellar'']], INVALID_ADDRESS),
     (alts [seqs [lit ''invalid'', dots, lit ''argument''],
        seqs [lit ''required'', dots, lit ''argument'']], INVALID_ARGUMENT),
     (alts [lit ''invalid'', lit ''malformed'', lit ''bad request'', lit ''missing''], INVALID_INPUT),
     (alts [seqs [lit ''network'', dots, lit ''time'', opt (lit ''d''), spaces, lit ''out''],
        seqs [lit ''connection'', dots, lit ''time'', opt (lit ''d''), spaces, lit ''out'']],
        NETWORK_TIMEOUT),
     (alts [seqs [lit ''time'', opt (lit ''d''), spaces, lit ''out''], lit ''timeout''], TIMEOUT),
     (network_rx, NETWORK_ERROR),
     (alts [seqs [lit ''rpc'', dots, lit ''error''], seqs [lit ''rpc'', dots, lit ''fail'']], RPC_ERROR),
     (seqs [lit ''#'', some_of (RClass is_digit)], CONTRACT_ERROR)]"

fun first_rule :: "(rx \<times> SorobanErrorCode) list \<Rightarrow> string \<Rightarrow> SorobanErrorCode" where
  "first_rule [] m = UNKNOWN"
| "first_rule ((r, c) # rs) m = (if rx_test r m then c else first_rule rs m)"

definition classifyError :: "string \<Rightarrow> SorobanErrorCode" where
  "classifyError msg = first_rule classify_rules (to_lower msg)"

section \<open>Wrapping\<close>

text \<open>\<open>isNetworkError\<close> of \<open>errors.ts\<close>\<close>

definition isNetworkError :: "thrown \<Rightarrow> bool" where
  "isNetworkError err =
     (let msg = to_lower (err_message err) in
      rx_test (alts [lit ''econnrefused'', lit ''enotfound'', lit ''econnreset'', lit ''etimedout'',
         lit ''network'', seqs [lit ''fetch'', dots, lit ''fail''],
         seqs [lit ''socket'', dots, lit ''hang'']]) msg
      \<or> (is_error err \<and> err_name err = ''FetchError'')
      \<or> (is_error err \<and> err_name err = ''TypeError'' \<and> str_includes msg ''fetch''))"

text \<open>\<open>wrapNetworkError\<close> always throws; the model returns what it throws.\<close>

definition as_error :: "thrown \<Rightarrow> thrown" where
  "as_error err = (if is_error err then err else ErrorThrown ''Error'' (err_message err))"

definition wrapNetworkError :: "thrown \<Rightarrow> string \<Rightarrow> string option \<Rightarrow> thrown" where
  "wrapNetworkError err rpcUrl ctx = (case err of
     SdkThrown e \<Rightarrow> err
   | _ \<Rightarrow> (if isNetworkError err then
         SdkThrown (sdk_error_init
           (''Network error'' @ (case ctx of Some c \<Rightarrow> (if c = [] then [] else '' during '' @ c) | None \<Rightarrow> [])
             @ '': unable to reach Soroban RPC at '' @ rpcUrl @ '' - '' @ err_message (as_error err))
           \<lparr>init_code = Some NETWORK_ERROR,
            init_details = Some [(''cause'', DThrown (as_error err)), (''rpcUrl'', DStr rpcUrl),
              (''context'', (case ctx of Some c \<Rightarrow> DStr c | None \<Rightarrow> DUndefined))],
            init_originalError = Some err, init_txHash = None\<rparr> None)
       else err))"

definition wrapError :: "thrown \<Rightarrow> string \<Rightarrow> sdk_error" where
  "wrapError err fallback = (case err of
     SdkThrown e \<Rightarrow> e
   | _ \<Rightarrow> (let m = (if is_error err then err_message err
                   else case err of StringThrown s \<Rightarrow> s | _ \<Rightarrow> fallback)
           in sdk_error_init m (empty_init\<lparr>init_code := Some (classifyError m),
                init_originalError := Some err\<rparr>) None))"

definition default_fallback :: string where
  "default_fallback = ''unexpected SDK error''"

section \<open>Lemmas\<close>

lemma sdk_error_init_sel [simp]:
  "message (sdk_error_init m i orig) = m"
  "code (sdk_error_init m i orig) = (case init_code i of None \<Rightarrow> UNKNOWN | Some c \<Rightarrow> c)"
  "details (sdk_error_init m i orig) = init_details i"
  "contractCode (sdk_error_init m i orig) = numeric_detail (init_details i)"
  "originalError (sdk_error_init m i orig) =
     (case init_originalError i of None \<Rightarrow> orig | Some e \<Rightarrow> Some e)"
  "txHash (sdk_error_init m i orig) = init_txHash i"
  by (simp_all add: sdk_error_init_def)

lemma sdk_error_code_sel [simp]:
  "message (sdk_error_code m c orig) = m"
  "code (sdk_error_code m c orig) = c"
  "txHash (sdk_error_code m c orig) = None"
  by (simp_all add: sdk_error_code_def)

lemma empty_init_sel [simp]:
  "init_code empty_init = None" "init_details empty_init = None"
  "init_originalError empty_init = None" "init_txHash empty_init = None"
  by (simp_all add: empty_init_def)

lemma numeric_detail_code [simp]: "numeric_detail (code_details n) = Some n"
  by (simp add: numeric_detail_def code_details_def)

text \<open>Printing and reading back a contract code.\<close>

lemma is_digit_char [simp]: "(n :: nat) < 10 \<Longrightarrow> is_digit (char_of (48 + n))"
  by (simp add: is_digit_def char_code_def)

lemma digit_val_char [simp]: "(n :: nat) < 10 \<Longrightarrow> digit_val (char_of (48 + n)) = n"
  by (simp add: digit_val_def char_code_def)

lemma nat_to_string_digits: "list_all is_digit (nat_to_string n)"
proof (induction n rule: nat_to_string.induct)
  case (1 n)
  then show ?case by (subst nat_to_string.simps) simp
qed

lemma nat_to_string_nonempty: "nat_to_string n \<noteq> []"
  by (subst nat_to_string.simps) simp

lemma parse_digits_print [simp]: "parse_digits (nat_to_string n) = n"
proof (induction n rule: nat_to_string.induct)
  case (1 n)
  show ?case
  proof (cases "n < 10")
    case True
    then show ?thesis by (subst nat_to_string.simps) (simp add: parse_digits_def)
  next
    case False
    then have "parse_digits (nat_to_string n) = 10 * parse_digits (nat_to_string (n div 10)) + n mod 10"
      by (subst nat_to_string.simps) (simp add: parse_digits_def)
    with False 1 show ?thesis by simp
  qed
qed

lemma takeWhile_all_then: "list_all p u \<Longrightarrow> takeWhile p (u @ v) = u @ takeWhile p v"
  by (induction u) auto

lemma dropWhile_all_then: "list_all p u \<Longrightarrow> dropWhile p (u @ v) = dropWhile p v"
  by (induction u) auto

lemma nat_to_string_no_hash: "match_hash_code (nat_to_string n @ s) = match_hash_code s"
proof -
  have "\<And>u. list_all is_digit u \<Longrightarrow> match_hash_code (u @ s) = match_hash_code s"
    subgoal for u by (induction u) (auto simp: is_digit_def char_code_def)
    done
  then show ?thesis by (simp add: nat_to_string_digits)
qed


text \<open>A code printed by the host between \<open>Error(Contract, #\<close> and \<open>)\<close> is read back.\<close>

lemma at_error_contract_reads:
  "at_error_contract (''Error(Contract, #'' @ nat_to_string n @ CHR '')'' # post) = Some n"
proof -
  have tw: "takeWhile is_digit (nat_to_string n @ CHR '')'' # post) = nat_to_string n"
    and dw: "dropWhile is_digit (nat_to_string n @ CHR '')'' # post) = CHR '')'' # post"
    by (simp_all add: takeWhile_all_then dropWhile_all_then nat_to_string_digits is_digit_def char_code_def)
  have lower: "to_lower ''Error(Contract,'' = ''error(contract,''" by code_simp
  have split: "''Error(Contract, #'' @ s = ''Error(Contract,'' @ CHR '' '' # CHR ''#'' # s" for s
    by simp
  have space: "is_space (CHR '' '')" "\<not> is_space (CHR ''#'')" by code_simp+
  show ?thesis
    unfolding at_error_contract_def split to_lower_append lower
    by (simp add: starts_with_iff space Let_def tw dw nat_to_string_nonempty)
qed

lemma at_error_contract_needs_paren:
  assumes "length s > 5" and "s ! 5 \<noteq> CHR ''(''"
  shows "at_error_contract s = None"
proof -
  have "lower_char (s ! 5) \<noteq> CHR ''(''"
    using assms(2) unfolding char_code_eq char_code_lower by (auto simp: char_code_def)
  then have "\<not> starts_with (to_lower s) ''error(contract,''"
    using assms(1) by (auto simp: starts_with_iff to_lower_def nth_append dest!: arg_cong [where f = "\<lambda>x. x ! 5"])
  then show ?thesis by (simp add: at_error_contract_def)
qed

lemma match_at_skips:
  assumes "\<And>u v. pre = u @ v \<Longrightarrow> v \<noteq> [] \<Longrightarrow> p (v @ s) = None" and "p s = Some n"
  shows "match_at p (pre @ s) = Some n"
  using assms(1)
proof (induction pre)
  case Nil
  then show ?case using assms(2) by (cases s) auto
next
  case (Cons c pre)
  have "p ((c # pre) @ s) = None" using Cons.prems [of "[]"] by simp
  moreover have "match_at p (pre @ s) = Some n"
    by (rule Cons.IH) (metis Cons.prems append_Cons)
  ultimately show ?case by simp
qed

lemma match_contract_code_reads:
  assumes "CHR ''('' \<notin> set pre"
  shows "match_contract_code (pre @ ''Error(Contract, #'' @ nat_to_string n @ CHR '')'' # post) = Some n"
proof -
  let ?s = "''Error(Contract, #'' @ nat_to_string n @ CHR '')'' # post"
  have "match_at at_error_contract (pre @ ?s) = Some n"
  proof (rule match_at_skips)
    fix u v assume uv: "pre = u @ v" "v \<noteq> []"
    have "(v @ ?s) ! 5 \<noteq> CHR ''(''"
    proof (cases "5 < length v")
      case True
      then have "v ! 5 \<in> set v" by simp
      moreover have "CHR ''('' \<notin> set v" using assms uv by simp
      ultimately have "v ! 5 \<noteq> CHR ''(''" by metis
      then show ?thesis using True by (simp add: nth_append)
    next
      case False
      then have "5 - length v \<in> {0, 1, 2, 3, 4}" using uv(2) by (cases v) auto
      then show ?thesis using False by (auto simp: nth_append)
    qed
    then show "at_error_contract (v @ ?s) = None"
      by (intro at_error_contract_needs_paren) auto
  qed (rule at_error_contract_reads)
  then show ?thesis by (simp add: match_contract_code_def)
qed

lemma match_hash_code_reads:
  assumes "CHR ''#'' \<notin> set pre" and "post = [] \<or> \<not> is_digit (hd post)"
  shows "match_hash_code (pre @ CHR ''#'' # nat_to_string n @ post) = Some n"
  using assms(1)
proof (induction pre)
  case Nil
  have "takeWhile is_digit (nat_to_string n @ post) = nat_to_string n"
    using assms(2) nat_to_string_digits [of n]
    by (cases post) (auto simp: takeWhile_all_then list_all_iff)
  then show ?case by (simp add: nat_to_string_nonempty)
qed auto

text \<open>
  A contract error code printed in an RPC message is recovered exactly: the typed error
  carries the number, and its discriminator is the one the contract's table gives, or
  \<open>CONTRACT_ERROR\<close> when the table does not list it.
\<close>

theorem parseContractError_recovers_code:
  assumes "CHR ''('' \<notin> set pre"
  shows "let e = parseContractError
      (ErrorThrown nm (pre @ ''Error(Contract, #'' @ nat_to_string n @ CHR '')'' # post)) t
    in contractCode e = Some n \<and>
       code e = (case contract_table t n of Some (c, m) \<Rightarrow> c | None \<Rightarrow> CONTRACT_ERROR)"
  using match_contract_code_reads [OF assms, of n post]
  by (auto simp: parseContractError_def Let_def split: option.splits)

theorem parseContractError_recovers_code_witness:
  "CHR ''('' \<notin> set ''HostError: '' \<and>
   contractCode (parseContractError
      (ErrorThrown ''Error'' (''HostError: '' @ ''Error(Contract, #'' @ nat_to_string 4 @ CHR '')'' # [])) Credential)
     = Some 4"
  using parseContractError_recovers_code [of "''HostError: ''" "''Error''" 4 "[]" Credential]
  by (simp add: Let_def)

end
