(* ===== verification/Merkle.thy ===== *)
theory Merkle
  imports SdkErrors
begin

text \<open>
  Models \<open>sdk/src/merkle.ts\<close>: batch Merkle trees over credential identifiers, inclusion proofs and
  their verification. The hash (\<open>hash\<close> of the Stellar SDK, SHA-256) is not code of the repository
  and is an argument \<open>h\<close> of every definition that uses it. The theorems rely on two documented
  facts about it, as hypotheses: a digest has 32 bytes, and, for soundness, no two of the byte
  strings that were actually hashed collide.

  The levels are built by \<open>next_level\<close>, one pass of the inner \<open>for\<close> loop, and \<open>build_levels\<close>, the
  \<open>while\<close> loop. Results: every proof the generator returns is accepted against the root of its
  batch, a proof is at most as long as the tree is high and the tree is logarithmically high, and a
  proof that hashes its own credential identifier is accepted only for a member of the batch.
\<close>

datatype side = Left | Right

record MerkleProofStep =
  step_hash :: string
  position :: "side option"
  siblingOnLeft :: "bool option"
  step_index :: "nat option"

record MerkleTree =
  tree_root :: string
  leaves :: "string list"
  levels :: "string list list"

text \<open>
  A proof as the verifier may receive it: any field may be missing. The generator fills all of them.
\<close>

record MerkleProof =
  leaf :: "string option"
  credentialId :: "string option"
  siblings :: "MerkleProofStep list option"
  path :: "MerkleProofStep list option"
  proof_root :: "string option"
  proof_index :: nat
  leafIndex :: nat
  leafCount :: nat

section \<open>Operations\<close>

definition normalizeCredentialIdHex :: "string \<Rightarrow> thrown + string" where
  "normalizeCredentialIdHex credId =
     (let hex = (if starts_with credId ''0x'' then drop 2 credId else credId) in
      if \<not> hex_of_length 64 hex then
        Inl (sdk_throw ''InvalidCredentialId: credential ID must be a 64-character hex string (32 bytes)''
          VALIDATION_ERROR)
      else Inr (to_lower hex))"

definition hashLeaf :: "(byte list \<Rightarrow> byte list) \<Rightarrow> string \<Rightarrow> thrown + string" where
  "hashLeaf h credId = (case normalizeCredentialIdHex credId of
     Inl e \<Rightarrow> Inl e | Inr hex \<Rightarrow> Inr (to_hex (h (0 # from_hex hex))))"

definition hashNodes :: "(byte list \<Rightarrow> byte list) \<Rightarrow> string \<Rightarrow> string \<Rightarrow> string" where
  "hashNodes h l r = to_hex (h (1 # from_hex l @ from_hex r))"

fun next_level :: "(byte list \<Rightarrow> byte list) \<Rightarrow> string list \<Rightarrow> string list" where
  "next_level h (x # y # rest) = hashNodes h x y # next_level h rest"
| "next_level h [x] = [x]"
| "next_level h [] = []"

lemma length_next_level: "length (next_level h xs) = (length xs + 1) div 2"
  by (induction h xs rule: next_level.induct) auto

function build_levels :: "(byte list \<Rightarrow> byte list) \<Rightarrow> string list \<Rightarrow> string list list" where
  "build_levels h current =
     (if length current > 1 then current # build_levels h (next_level h current) else [current])"
  by pat_completeness auto
termination
  by (relation "measure (\<lambda>(h, xs). length xs)") (auto simp: length_next_level)

declare build_levels.simps [simp del]

definition buildMerkleTree :: "(byte list \<Rightarrow> byte list) \<Rightarrow> string list \<Rightarrow> thrown + MerkleTree" where
  "buildMerkleTree h credentialIds =
     (if credentialIds = [] then
        Inl (sdk_throw ''InvalidBatch: at least one credential ID is required to build a merkle tree''
          VALIDATION_ERROR)
      else case map_result (hashLeaf h) credentialIds of
        Inl e \<Rightarrow> Inl e
      | Inr ls \<Rightarrow> (let lv = build_levels h ls in
          Inr \<lparr>tree_root = hd (last lv), leaves = ls, levels = lv\<rparr>))"

definition updateMerkleTree ::
    "(byte list \<Rightarrow> byte list) \<Rightarrow> MerkleTree \<Rightarrow> int \<Rightarrow> string \<Rightarrow> thrown + MerkleTree" where
  "updateMerkleTree h tree index newLeaf =
     (if index < 0 \<or> index \<ge> int (length (leaves tree)) then
        Inl (sdk_throw (''InvalidIndex: index '' @ int_to_string index
          @ '' out of bounds for leaf count '' @ nat_to_string (length (leaves tree))) VALIDATION_ERROR)
      else case hashLeaf h newLeaf of
        Inl e \<Rightarrow> Inl e
      | Inr l \<Rightarrow> buildMerkleTree h ((leaves tree)[nat index := l]))"

text \<open>\<open>array.indexOf\<close>, with \<open>None\<close> for \<open>-1\<close>.\<close>

fun index_of :: "'a \<Rightarrow> 'a list \<Rightarrow> nat option" where
  "index_of x [] = None"
| "index_of x (y # ys) = (if y = x then Some 0 else map_option Suc (index_of x ys))"

text \<open>The loop over all levels but the last that collects the siblings of node \<open>idx\<close>.\<close>

fun collect_siblings :: "string list list \<Rightarrow> nat \<Rightarrow> MerkleProofStep list" where
  "collect_siblings (nodes # nodes2 # rest) idx =
     (let isRightNode = odd idx;
          siblingIdx = (if isRightNode then idx - 1 else idx + 1)
      in (if siblingIdx < length nodes
          then [\<lparr>step_hash = nodes ! siblingIdx, position = Some (if isRightNode then Left else Right),
                 siblingOnLeft = Some isRightNode, step_index = Some siblingIdx\<rparr>]
          else [])
         @ collect_siblings (nodes2 # rest) (idx div 2))"
| "collect_siblings _ idx = []"

definition generateMerkleProof ::
    "(byte list \<Rightarrow> byte list) \<Rightarrow> string list \<Rightarrow> string \<Rightarrow> thrown + MerkleProof" where
  "generateMerkleProof h credentialIds credId = (case normalizeCredentialIdHex credId of
     Inl e \<Rightarrow> Inl e
   | Inr target \<Rightarrow> (case map_result normalizeCredentialIdHex credentialIds of
       Inl e \<Rightarrow> Inl e
     | Inr normalized \<Rightarrow> (case index_of target normalized of
         None \<Rightarrow> Inl (sdk_throw (''InvalidProof: credential '' @ credId
                   @ '' is not part of the batch'') VALIDATION_ERROR)
       | Some index \<Rightarrow> (case buildMerkleTree h normalized of
           Inl e \<Rightarrow> Inl e
         | Inr tree \<Rightarrow> (case hashLeaf h target of
             Inl e \<Rightarrow> Inl e
           | Inr lf \<Rightarrow> (let sibs = collect_siblings (levels tree) index in
               Inr \<lparr>leaf = Some lf, credentialId = Some target, siblings = Some sibs, path = Some sibs,
                 proof_root = Some (tree_root tree), proof_index = index, leafIndex = index,
                 leafCount = length normalized\<rparr>))))))"

text \<open>\<open>node.siblingOnLeft ?? node.position === "left"\<close>\<close>

definition sibling_is_left :: "MerkleProofStep \<Rightarrow> bool" where
  "sibling_is_left node = (case siblingOnLeft node of Some b \<Rightarrow> b | None \<Rightarrow> position node = Some Left)"

text \<open>The verifier's loop; \<open>None\<close> is its early \<open>return false\<close> on a malformed sibling hash.\<close>

fun run_path :: "(byte list \<Rightarrow> byte list) \<Rightarrow> MerkleProofStep list \<Rightarrow> string \<Rightarrow> string option" where
  "run_path h [] current = Some current"
| "run_path h (node # rest) current =
     (if \<not> hex_of_length 64 (step_hash node) then None
      else let sibling = to_lower (step_hash node) in
        run_path h rest (if sibling_is_left node then hashNodes h sibling current
                         else hashNodes h current sibling))"

text \<open>
  The value the path starts from: \<open>proof.leaf || (proof.credentialId ? hashLeaf(...) : "")\<close>,
  \<open>None\<close> when hashing throws or the value is empty.
\<close>

definition start_leaf :: "(byte list \<Rightarrow> byte list) \<Rightarrow> MerkleProof \<Rightarrow> string option" where
  "start_leaf h p =
     (case leaf p of Some l \<Rightarrow> if l \<noteq> [] then Some l else None | None \<Rightarrow> None)"

definition proof_start :: "(byte list \<Rightarrow> byte list) \<Rightarrow> MerkleProof \<Rightarrow> string option" where
  "proof_start h p = (case start_leaf h p of
     Some l \<Rightarrow> Some l
   | None \<Rightarrow> (case credentialId p of
       None \<Rightarrow> None
     | Some c \<Rightarrow> if c = [] then None else
         (case hashLeaf h c of Inl e \<Rightarrow> None | Inr l \<Rightarrow> if l = [] then None else Some l)))"

text \<open>A proof without a root, verified without one, throws a \<open>TypeError\<close> on \<open>.toLowerCase()\<close>.\<close>

definition verifyMerkleProof ::
    "(byte list \<Rightarrow> byte list) \<Rightarrow> MerkleProof option \<Rightarrow> string option \<Rightarrow> thrown + bool" where
  "verifyMerkleProof h prf rt = (case prf of
     None \<Rightarrow> Inr False
   | Some p \<Rightarrow> (case (case siblings p of Some s \<Rightarrow> Some s | None \<Rightarrow> path p) of
       None \<Rightarrow> Inr False
     | Some steps \<Rightarrow> (case proof_start h p of
         None \<Rightarrow> Inr False
       | Some start \<Rightarrow> (case run_path h steps start of
           None \<Rightarrow> Inr False
         | Some current \<Rightarrow> (case (case rt of Some r \<Rightarrow> Some r | None \<Rightarrow> proof_root p) of
             None \<Rightarrow> Inl (ErrorThrown ''TypeError'' ''Cannot read properties of undefined'')
           | Some expected \<Rightarrow> Inr (current = to_lower expected))))))"


section \<open>Hashes and levels\<close>

text \<open>A digest as the tree stores it: 64 lower-case hexadecimal characters.\<close>

definition digest :: "string \<Rightarrow> bool" where
  "digest s = (hex_of_length 64 s \<and> to_lower s = s)"

lemma digest_to_hex [simp]: "length bs = 32 \<Longrightarrow> digest (to_hex bs)"
  by (simp add: digest_def)

lemma digest_bytes_inject:
  assumes "digest s" "digest t" "from_hex s = from_hex t"
  shows "s = t"
proof -
  have "to_hex (from_hex u) = u" if "digest u" for u
    using that to_hex_from_hex [of u] by (simp add: digest_def hex_of_length_def)
  with assms show ?thesis by metis
qed

lemma digest_bytes_length: "digest s \<Longrightarrow> length (from_hex s) = 32"
  by (simp add: digest_def hex_of_length_def length_from_hex)

lemma normalize_Inr_digest: "normalizeCredentialIdHex c = Inr hx \<Longrightarrow> digest hx"
  by (auto simp: normalizeCredentialIdHex_def digest_def Let_def split: if_splits)

lemma normalize_digest [simp]: "digest d \<Longrightarrow> normalizeCredentialIdHex d = Inr d"
proof -
  assume d: "digest d"
  have "\<not> starts_with d ''0x''"
  proof
    assume "starts_with d ''0x''"
    then have "\<not> list_all is_hex d"
      by (auto simp: starts_with_iff is_hex_def hex_val_def char_code_def Let_def)
    with d show False by (simp add: digest_def hex_of_length_def)
  qed
  with d show ?thesis by (simp add: normalizeCredentialIdHex_def digest_def Let_def)
qed

lemma hashLeaf_Inr_iff:
  "hashLeaf h c = Inr l \<longleftrightarrow> (\<exists>hx. normalizeCredentialIdHex c = Inr hx \<and> l = to_hex (h (0 # from_hex hx)))"
  by (auto simp: hashLeaf_def split: sum.splits)

lemma hashLeaf_digest: "digest d \<Longrightarrow> hashLeaf h d = Inr (to_hex (h (0 # from_hex d)))"
  by (simp add: hashLeaf_def)

lemma next_level_Nil_iff [simp]: "next_level h xs = [] \<longleftrightarrow> xs = []"
  by (cases "(h, xs)" rule: next_level.cases) auto

lemma next_level_nth:
  "j < length (next_level h xs) \<Longrightarrow> next_level h xs ! j =
     (if 2 * j + 1 < length xs then hashNodes h (xs ! (2 * j)) (xs ! (2 * j + 1)) else xs ! (2 * j))"
proof (induction h xs arbitrary: j rule: next_level.induct)
  case (1 h x y rest)
  then show ?case by (cases j) auto
qed auto

lemma build_levels_single: "length xs \<le> 1 \<Longrightarrow> build_levels h xs = [xs]"
  by (simp add: build_levels.simps [of h xs])

lemma build_levels_more: "length xs > 1 \<Longrightarrow> build_levels h xs = xs # build_levels h (next_level h xs)"
  by (simp add: build_levels.simps [of h xs])

lemma build_levels_nonempty [simp]: "build_levels h xs \<noteq> []"
  by (simp add: build_levels.simps [of h xs])

lemma build_levels_hd [simp]: "hd (build_levels h xs) = xs"
  by (simp add: build_levels.simps [of h xs])

lemma build_levels_Cons: "\<exists>rest. build_levels h xs = xs # rest"
  by (simp add: build_levels.simps [of h xs])

lemma build_levels_last: "xs \<noteq> [] \<Longrightarrow> length (last (build_levels h xs)) = 1"
proof (induction h xs rule: build_levels.induct)
  case (1 h xs)
  show ?case
  proof (cases "length xs > 1")
    case True
    then show ?thesis using 1 by (simp add: build_levels_more)
  next
    case False
    then show ?thesis using "1.prems" by (cases xs) (auto simp: build_levels_single)
  qed
qed

text \<open>The tree is logarithmically high.\<close>

lemma build_levels_height: "xs \<noteq> [] \<Longrightarrow> 2 ^ (length (build_levels h xs) - 1) < 2 * length xs"
proof (induction h xs rule: build_levels.induct)
  case (1 h xs)
  show ?case
  proof (cases "length xs > 1")
    case True
    obtain k where k: "length (build_levels h (next_level h xs)) = Suc k"
      using build_levels_nonempty [of h "next_level h xs"]
      by (cases "length (build_levels h (next_level h xs))") auto
    have up: "2 ^ k < 2 * ((length xs + 1) div 2)"
      using 1 True k by (simp add: length_next_level)
    have "2 ^ k < length xs"
    proof (cases "even (length xs)")
      case True
      with up show ?thesis by simp
    next
      case False
      with up have "2 ^ k \<le> length xs" by simp
      moreover have "2 ^ k \<noteq> length xs"
        using False True by (cases k) (simp, metis dvd_triv_left power_Suc)
      ultimately show ?thesis by simp
    qed
    then show ?thesis using True k by (simp add: build_levels_more)
  next
    case False
    then show ?thesis using "1.prems" by (cases xs) (auto simp: build_levels_single)
  qed
qed

lemma collect_siblings_length: "length (collect_siblings lv i) \<le> length lv - 1"
proof (induction lv i rule: collect_siblings.induct)
  case (1 nodes nodes2 rest i)
  then have "length (collect_siblings (nodes2 # rest) (i div 2)) \<le> length rest" by simp
  then show ?case by (simp add: Let_def)
qed simp_all

section \<open>Proofs that the generator returns are accepted\<close>

lemma run_path_append:
  "run_path h (p @ q) c = (case run_path h p c of None \<Rightarrow> None | Some d \<Rightarrow> run_path h q d)"
  by (induction p arbitrary: c) (auto simp: Let_def)

lemma next_level_digests:
  "(\<And>x. length (h x) = 32) \<Longrightarrow> list_all digest xs \<Longrightarrow> list_all digest (next_level h xs)"
  by (induction h xs rule: next_level.induct) (auto simp: hashNodes_def)

text \<open>One level of the path leads from a node to its parent.\<close>

lemma run_path_one_level:
  assumes "\<And>x. length (h x) = 32" "list_all digest nodes" "i < length nodes"
    and "length nodes > 1"
  shows "run_path h (collect_siblings [nodes, any] i) (nodes ! i) = Some (next_level h nodes ! (i div 2))"
proof -
  have dg: "digest (nodes ! j)" if "j < length nodes" for j
    using assms(2) that by (simp add: list_all_length)
  have lt: "i div 2 < length (next_level h nodes)"
    using assms(3) by (simp add: length_next_level)
  show ?thesis
  proof (cases "odd i")
    case True
    then obtain k where k: "i = 2 * k + 1" by (auto elim: oddE)
    with dg [of "i - 1"] assms(3) show ?thesis
      using next_level_nth [OF lt] by (simp add: digest_def sibling_is_left_def Let_def)
  next
    case False
    then obtain k where k: "i = 2 * k" by (auto elim: evenE)
    show ?thesis
    proof (cases "i + 1 < length nodes")
      case True
      with k dg [of "i + 1"] show ?thesis
        using next_level_nth [OF lt] by (simp add: digest_def sibling_is_left_def Let_def)
    next
      case False
      with k show ?thesis using next_level_nth [OF lt] by (simp add: Let_def)
    qed
  qed
qed

lemma collect_siblings_step:
  "collect_siblings (nodes # nodes2 # rest) i =
     collect_siblings [nodes, any] i @ collect_siblings (nodes2 # rest) (i div 2)"
  by (simp add: Let_def)

lemma run_path_reaches_root:
  "(\<And>x. length (h x) = 32) \<Longrightarrow> list_all digest xs \<Longrightarrow> i < length xs \<Longrightarrow>
    run_path h (collect_siblings (build_levels h xs) i) (xs ! i) = Some (hd (last (build_levels h xs)))"
proof (induction h xs arbitrary: i rule: build_levels.induct)
  case (1 h xs)
  show ?case
  proof (cases "length xs > 1")
    case True
    let ?up = "next_level h xs"
    obtain rest where rest: "build_levels h ?up = ?up # rest"
      using build_levels_Cons by blast
    have lt: "i div 2 < length ?up" using "1.prems"(3) by (simp add: length_next_level)
    have "run_path h (collect_siblings (xs # ?up # rest) i) (xs ! i) =
        run_path h (collect_siblings (build_levels h ?up) (i div 2)) (?up ! (i div 2))"
      using run_path_one_level [where any = ?up, OF "1.prems" True]
      by (simp only: collect_siblings_step [of xs ?up rest i ?up] run_path_append rest option.case)
    also have "\<dots> = Some (hd (last (build_levels h ?up)))"
      by (rule "1.IH" [OF True "1.prems"(1) next_level_digests [OF "1.prems"(1,2)] lt])
    finally show ?thesis using True rest by (simp add: build_levels_more)
  next
    case False
    then have "xs = [xs ! i]" "i = 0" using "1.prems" by (cases xs; auto)+
    then show ?thesis using False by (simp add: build_levels_single) (metis list.sel(1))
  qed
qed

lemma index_of_nth: "index_of x xs = Some i \<Longrightarrow> i < length xs \<and> xs ! i = x"
  by (induction xs arbitrary: i) (auto split: if_splits)

lemma index_of_None: "index_of x xs = None \<longleftrightarrow> x \<notin> set xs"
  by (induction xs) auto

lemma map_result_normalize_digests:
  "map_result normalizeCredentialIdHex ids = Inr ns \<Longrightarrow> list_all digest ns"
  by (auto simp: map_result_Inr_iff list_all_length list_all2_conv_all_nth
      intro: normalize_Inr_digest)

definition leaf_hash :: "(byte list \<Rightarrow> byte list) \<Rightarrow> string \<Rightarrow> string" where
  "leaf_hash h d = to_hex (h (0 # from_hex d))"

lemma map_result_hashLeaf_digests:
  "list_all digest ds \<Longrightarrow> map_result (hashLeaf h) ds = Inr (map (leaf_hash h) ds)"
  by (intro map_result_total) (auto simp: hashLeaf_digest leaf_hash_def list_all_iff)

lemma map_result_hashLeaf:
  "map_result normalizeCredentialIdHex ids = Inr ns \<Longrightarrow>
    map_result (hashLeaf h) ids = Inr (map (leaf_hash h) ns)"
proof (induction ids arbitrary: ns)
  case (Cons c ids)
  then show ?case
    by (auto simp: hashLeaf_def leaf_hash_def split: sum.splits)
qed simp

lemma map_result_hashLeaf_conv:
  "map_result (hashLeaf h) ids = Inr ls \<Longrightarrow>
    \<exists>ns. map_result normalizeCredentialIdHex ids = Inr ns \<and> ls = map (leaf_hash h) ns"
proof (induction ids arbitrary: ls)
  case (Cons c ids)
  then show ?case
    by (auto simp: hashLeaf_def leaf_hash_def split: sum.splits)
qed simp

lemma leaf_hash_digests: "(\<And>x. length (h x) = 32) \<Longrightarrow> list_all digest (map (leaf_hash h) ds)"
  by (simp add: list_all_iff leaf_hash_def)

text \<open>The tree of a batch, whichever spelling its identifiers had.\<close>

definition tree_of :: "(byte list \<Rightarrow> byte list) \<Rightarrow> string list \<Rightarrow> MerkleTree" where
  "tree_of h ds = (let ls = map (leaf_hash h) ds in
     \<lparr>tree_root = hd (last (build_levels h ls)), leaves = ls, levels = build_levels h ls\<rparr>)"

lemma buildMerkleTree_Inr_iff:
  "buildMerkleTree h ids = Inr t \<longleftrightarrow>
    ids \<noteq> [] \<and> (\<exists>ns. map_result normalizeCredentialIdHex ids = Inr ns \<and> t = tree_of h ns)"
  using map_result_hashLeaf [of ids _ h] map_result_hashLeaf_conv [of h ids]
  by (auto simp: buildMerkleTree_def tree_of_def Let_def split: sum.splits)

lemma buildMerkleTree_digests:
  "list_all digest ds \<Longrightarrow> ds \<noteq> [] \<Longrightarrow> buildMerkleTree h ds = Inr (tree_of h ds)"
  by (simp add: buildMerkleTree_def map_result_hashLeaf_digests tree_of_def Let_def)

lemma generateMerkleProof_Inr:
  assumes "generateMerkleProof h ids c = Inr p"
  obtains d ns i where "normalizeCredentialIdHex c = Inr d"
    "map_result normalizeCredentialIdHex ids = Inr ns" "i < length ns" "ns ! i = d"
    "buildMerkleTree h ns = Inr (tree_of h ns)" "leaf p = Some (leaf_hash h d)"
    "credentialId p = Some d"
    "siblings p = Some (collect_siblings (levels (tree_of h ns)) i)"
    "path p = siblings p" "proof_root p = Some (tree_root (tree_of h ns))"
    "leafIndex p = i" "leafCount p = length ns"
proof -
  obtain d ns i where dni: "normalizeCredentialIdHex c = Inr d"
      "map_result normalizeCredentialIdHex ids = Inr ns" "index_of d ns = Some i"
    using assms by (auto simp: generateMerkleProof_def split: sum.splits option.splits)
  have i: "i < length ns" "ns ! i = d" using index_of_nth [OF dni(3)] by auto
  have ds: "list_all digest ns" "digest d"
    using dni map_result_normalize_digests normalize_Inr_digest by auto
  then have b: "buildMerkleTree h ns = Inr (tree_of h ns)"
    using i by (intro buildMerkleTree_digests) auto
  show thesis
    using assms dni i b ds
    by (intro that [of d ns i])
      (auto simp: generateMerkleProof_def hashLeaf_digest leaf_hash_def Let_def)
qed

section \<open>Only members of the batch have accepted proofs\<close>

text \<open>The byte strings hashed while a tree is built, and while a proof is checked.\<close>

definition node_input :: "string \<Rightarrow> string \<Rightarrow> byte list" where
  "node_input l r = 1 # from_hex l @ from_hex r"

fun level_inputs :: "string list \<Rightarrow> byte list list" where
  "level_inputs (x # y # rest) = node_input x y # level_inputs rest"
| "level_inputs _ = []"

definition tree_inputs :: "(byte list \<Rightarrow> byte list) \<Rightarrow> string list \<Rightarrow> byte list list" where
  "tree_inputs h ds = map (\<lambda>d. 0 # from_hex d) ds
     @ concat (map level_inputs (build_levels h (map (leaf_hash h) ds)))"

fun path_inputs :: "(byte list \<Rightarrow> byte list) \<Rightarrow> MerkleProofStep list \<Rightarrow> string \<Rightarrow> byte list list" where
  "path_inputs h [] current = []"
| "path_inputs h (node # rest) current =
     (let sibling = to_lower (step_hash node);
          inp = (if sibling_is_left node then node_input sibling current else node_input current sibling)
      in inp # path_inputs h rest (to_hex (h inp)))"

lemma hashNodes_input: "hashNodes h l r = to_hex (h (node_input l r))"
  by (simp add: hashNodes_def node_input_def)

lemma path_inputs_append:
  "run_path h p c = Some d \<Longrightarrow> path_inputs h (p @ q) c = path_inputs h p c @ path_inputs h q d"
  by (induction p arbitrary: c) (auto simp: Let_def hashNodes_input split: if_splits)

lemma next_level_members:
  "n \<in> set (next_level h xs) \<Longrightarrow> n \<in> set xs \<or>
    (\<exists>a b. a \<in> set xs \<and> b \<in> set xs \<and> n = hashNodes h a b \<and> node_input a b \<in> set (level_inputs xs))"
  by (induction h xs rule: next_level.induct) auto

lemma tree_node_origin:
  "n \<in> set (concat (build_levels h xs)) \<Longrightarrow> n \<in> set xs \<or>
    (\<exists>a b. a \<in> set (concat (build_levels h xs)) \<and> b \<in> set (concat (build_levels h xs)) \<and>
      n = hashNodes h a b \<and> node_input a b \<in> set (concat (map level_inputs (build_levels h xs))))"
proof (induction h xs rule: build_levels.induct)
  case (1 h xs)
  show ?case
  proof (cases "length xs > 1")
    case True
    have lv: "build_levels h xs = xs # build_levels h (next_level h xs)"
      using True by (rule build_levels_more)
    show ?thesis
    proof (cases "n \<in> set xs")
      case False
      then have "n \<in> set (concat (build_levels h (next_level h xs)))"
        using "1.prems" lv by simp
      from "1.IH" [OF True this] show ?thesis
        using next_level_members [of n h xs] unfolding lv by auto
    qed simp
  next
    case False
    then show ?thesis using "1.prems" by (simp add: build_levels_single)
  qed
qed

lemma tree_nodes_digests:
  "(\<And>x. length (h x) = 32) \<Longrightarrow> list_all digest xs \<Longrightarrow>
    n \<in> set (concat (build_levels h xs)) \<Longrightarrow> digest n"
proof (induction h xs rule: build_levels.induct)
  case (1 h xs)
  show ?case
  proof (cases "length xs > 1")
    case True
    have "n \<in> set xs \<or> n \<in> set (concat (build_levels h (next_level h xs)))"
      using "1.prems"(3) True by (simp add: build_levels_more)
    then show ?thesis
      using "1.IH" [OF True "1.prems"(1) next_level_digests [OF "1.prems"(1,2)]] "1.prems"(2)
      by (auto simp: list_all_iff)
  next
    case False
    then show ?thesis using "1.prems" by (auto simp: build_levels_single list_all_iff)
  qed
qed

lemma run_path_digest:
  "(\<And>x. length (h x) = 32) \<Longrightarrow> digest c \<Longrightarrow> run_path h steps c = Some d \<Longrightarrow> digest d"
proof (induction steps arbitrary: c)
  case (Cons st steps)
  have "digest (hashNodes h a b)" for a b using Cons.prems(1) by (simp add: hashNodes_def)
  then show ?case using Cons.IH [OF Cons.prems(1)] Cons.prems(3) by (auto simp: Let_def split: if_splits)
qed simp

text \<open>
  Read backwards from a node of the tree, an accepted path stays on nodes of the tree, so that the
  leaf it starts from was hashed from a member of the batch.
\<close>

lemma path_from_leaf:
  assumes len: "\<And>x. length (h x) = 32" and ds: "list_all digest ds" and c: "digest c"
    and run: "run_path h steps (leaf_hash h c) = Some n"
    and node: "n \<in> set (concat (build_levels h (map (leaf_hash h) ds)))"
    and inj: "inj_on h (set (tree_inputs h ds) \<union> set ((0 # from_hex c) # path_inputs h steps (leaf_hash h c)))"
  shows "c \<in> set ds"
  using run node inj
proof (induction steps arbitrary: n rule: rev_induct)
  case Nil
  let ?T = "set (concat (build_levels h (map (leaf_hash h) ds)))"
  have n: "n = to_hex (h (0 # from_hex c))" using Nil.prems(1) by (simp add: leaf_hash_def)
  have eqI: "x = 0 # from_hex c" if "n = to_hex (h x)" "x \<in> set (tree_inputs h ds)" for x
    using that n Nil.prems(3) by (auto dest: inj_onD)
  from tree_node_origin [OF Nil.prems(2)] show ?case
  proof
    assume "n \<in> set (map (leaf_hash h) ds)"
    then obtain d where d: "d \<in> set ds" "n = to_hex (h (0 # from_hex d))"
      by (auto simp: leaf_hash_def)
    then have "from_hex d = from_hex c"
      using eqI [of "0 # from_hex d"] by (auto simp: tree_inputs_def)
    then show ?thesis
      using d ds c digest_bytes_inject by (metis list_all_iff)
  next
    assume "\<exists>a b. a \<in> ?T \<and> b \<in> ?T \<and> n = hashNodes h a b \<and>
      node_input a b \<in> set (concat (map level_inputs (build_levels h (map (leaf_hash h) ds))))"
    then obtain a b where "n = to_hex (h (node_input a b))" "node_input a b \<in> set (tree_inputs h ds)"
      by (auto simp: hashNodes_input tree_inputs_def)
    then show ?thesis using eqI [of "node_input a b"] by (simp add: node_input_def)
  qed
next
  case (snoc st steps)
  let ?T = "set (concat (build_levels h (map (leaf_hash h) ds)))"
  obtain m where m: "run_path h steps (leaf_hash h c) = Some m"
      and hx: "hex_of_length 64 (step_hash st)"
      and n: "n = (if sibling_is_left st then hashNodes h (to_lower (step_hash st)) m
                   else hashNodes h m (to_lower (step_hash st)))"
    using snoc.prems(1) by (auto simp: run_path_append Let_def split: option.splits if_splits)
  have dm: "digest m"
    using run_path_digest [OF len _ m] len by (simp add: leaf_hash_def)
  have dsib: "digest (to_lower (step_hash st))" using hx by (simp add: digest_def)
  obtain l r where lr: "n = to_hex (h (node_input l r))" "digest l" "digest r" "m = l \<or> m = r"
      "path_inputs h [st] m = [node_input l r]"
    using n dm dsib by (auto simp: hashNodes_input Let_def split: if_splits)
  have pin: "path_inputs h (steps @ [st]) (leaf_hash h c)
      = path_inputs h steps (leaf_hash h c) @ [node_input l r]"
    using path_inputs_append [OF m, of "[st]"] lr(5) by simp
  have eqI: "x = node_input l r" if "n = to_hex (h x)" "x \<in> set (tree_inputs h ds)" for x
    using that lr(1) snoc.prems(3) pin by (auto dest: inj_onD)
  have "m \<in> ?T"
    using tree_node_origin [OF snoc.prems(2)]
  proof
    assume "n \<in> set (map (leaf_hash h) ds)"
    then obtain d where "d \<in> set ds" "n = to_hex (h (0 # from_hex d))"
      by (auto simp: leaf_hash_def)
    then show ?thesis
      using eqI [of "0 # from_hex d"] by (auto simp: tree_inputs_def node_input_def)
  next
    assume "\<exists>a b. a \<in> ?T \<and> b \<in> ?T \<and> n = hashNodes h a b \<and>
      node_input a b \<in> set (concat (map level_inputs (build_levels h (map (leaf_hash h) ds))))"
    then obtain a b where ab: "a \<in> ?T" "b \<in> ?T" "n = to_hex (h (node_input a b))"
        "node_input a b \<in> set (tree_inputs h ds)"
      unfolding hashNodes_input tree_inputs_def by auto
    then have inp: "node_input a b = node_input l r" by (intro eqI)
    have "digest a" "digest b"
      using ab tree_nodes_digests [OF len leaf_hash_digests [OF len]] by auto
    then have "a = l \<and> b = r"
      using inp lr(2,3) digest_bytes_inject digest_bytes_length
      by (auto simp: node_input_def)
    then show ?thesis using ab lr(4) by auto
  qed
  moreover have "inj_on h (set (tree_inputs h ds) \<union> set ((0 # from_hex c) # path_inputs h steps (leaf_hash h c)))"
    using snoc.prems(3) by (rule inj_on_subset) (auto simp: pin)
  ultimately show ?case using snoc.IH [OF m] by blast
qed

lemma tree_root_node: "ds \<noteq> [] \<Longrightarrow> tree_root (tree_of h ds) \<in> set (concat (build_levels h (map (leaf_hash h) ds)))"
proof -
  assume "ds \<noteq> []"
  then have "length (last (build_levels h (map (leaf_hash h) ds))) = 1" by (simp add: build_levels_last)
  then show ?thesis
    by (auto simp: tree_of_def Let_def length_Suc_conv intro!: bexI [OF _ last_in_set])
qed

section \<open>Properties\<close>

lemma verify_generated:
  assumes len: "\<And>x. length (h x) = 32" and gen: "generateMerkleProof h ids c = Inr p"
    and ns: "map_result normalizeCredentialIdHex ids = Inr ns"
  shows "run_path h (collect_siblings (levels (tree_of h ns)) (leafIndex p)) (the (leaf p))
      = Some (tree_root (tree_of h ns))"
    and "digest (tree_root (tree_of h ns))" and "ns \<noteq> []"
    and "siblings p = Some (collect_siblings (levels (tree_of h ns)) (leafIndex p))"
    and "\<exists>l. leaf p = Some l \<and> digest l"
    and "proof_root p = Some (tree_root (tree_of h ns))"
proof -
  obtain d ns' i where d: "map_result normalizeCredentialIdHex ids = Inr ns'" "i < length ns'"
      "ns' ! i = d" "leaf p = Some (leaf_hash h d)" "leafIndex p = i"
      "siblings p = Some (collect_siblings (levels (tree_of h ns')) i)"
      "proof_root p = Some (tree_root (tree_of h ns'))"
    by (rule generateMerkleProof_Inr [OF gen])
  have ns': "ns' = ns" using d(1) ns by simp
  note d = d(2-) [unfolded ns']
  show ne: "ns \<noteq> []" using d(1) by auto
  show "run_path h (collect_siblings (levels (tree_of h ns)) (leafIndex p)) (the (leaf p))
      = Some (tree_root (tree_of h ns))"
    using run_path_reaches_root [where h = h and i = i, OF len leaf_hash_digests [where h = h and ds = ns, OF len]] d
    by (simp add: tree_of_def Let_def)
  show "digest (tree_root (tree_of h ns))"
    using tree_nodes_digests [OF len leaf_hash_digests [OF len] tree_root_node [OF ne]] .
  show "\<exists>l. leaf p = Some l \<and> digest l"
    using d(3) len by (simp add: leaf_hash_def)
  show "siblings p = Some (collect_siblings (levels (tree_of h ns)) (leafIndex p))"
    using d by simp
  show "proof_root p = Some (tree_root (tree_of h ns))"
    using d by simp
qed

lemma digest_not_Nil: "digest l \<Longrightarrow> l \<noteq> []"
  by (auto simp: digest_def hex_of_length_def)

lemma generate_member:
  assumes "map_result normalizeCredentialIdHex ids = Inr ns" "normalizeCredentialIdHex c = Inr d"
    "d \<in> set ns"
  shows "\<exists>p. generateMerkleProof h ids c = Inr p"
proof -
  obtain i where i: "index_of d ns = Some i"
    using assms(3) index_of_None [of d ns] by (cases "index_of d ns") auto
  have "list_all digest ns" "ns \<noteq> []" "digest d"
    using assms map_result_normalize_digests normalize_Inr_digest by auto
  then show ?thesis
    using assms i by (simp add: generateMerkleProof_def buildMerkleTree_digests hashLeaf_digest Let_def)
qed

text \<open>
  C3. Every member of a batch has a proof, and the proof is accepted, both against the root of the
  tree built over the batch and against the root it carries; no proof is returned for a credential
  that is not in the batch.
\<close>

theorem merkle_proof_accepted:
  assumes "\<And>x. length (h x) = 32"
    and "map_result normalizeCredentialIdHex ids = Inr ns" and "normalizeCredentialIdHex c = Inr d"
  shows "if d \<in> set ns
    then \<exists>p t. generateMerkleProof h ids c = Inr p \<and> buildMerkleTree h ids = Inr t \<and>
      credentialId p = Some d \<and>
      verifyMerkleProof h (Some p) (Some (tree_root t)) = Inr True \<and>
      verifyMerkleProof h (Some p) None = Inr True
    else generateMerkleProof h ids c = Inl (sdk_throw
      (''InvalidProof: credential '' @ c @ '' is not part of the batch'') VALIDATION_ERROR)"
proof (cases "d \<in> set ns")
  case True
  obtain p where p: "generateMerkleProof h ids c = Inr p"
    using generate_member [OF assms(2,3) True] by blast
  note v = verify_generated [OF assms(1) p assms(2)]
  have "ids \<noteq> []" using v(3) assms(2) by auto
  then have t: "buildMerkleTree h ids = Inr (tree_of h ns)"
    using assms(2) by (auto simp: buildMerkleTree_Inr_iff)
  have cid: "credentialId p = Some d"
    by (rule generateMerkleProof_Inr [OF p]) (use assms(3) in simp)
  have "verifyMerkleProof h (Some p) r = Inr True" if "r = None \<or> r = Some (tree_root (tree_of h ns))" for r
    using that v digest_not_Nil
    by (auto simp: verifyMerkleProof_def proof_start_def start_leaf_def digest_def)
  then show ?thesis using True p t cid by auto
next
  case False
  then show ?thesis
    using assms(2,3) index_of_None [of d ns] by (simp add: generateMerkleProof_def)
qed

text \<open>A stand-in for the hash with digests of 32 bytes, for the witnesses.\<close>

definition pad32 :: "byte list \<Rightarrow> byte list" where
  "pad32 bs = take 32 (bs @ replicate 32 0)"

definition id_of :: "nat \<Rightarrow> string" where
  "id_of k = to_hex (replicate 32 (word_of_nat k))"

lemma pad32_length: "length (pad32 bs) = 32"
  by (simp add: pad32_def)

lemma pad32_Cons: "pad32 (b # bs) = b # take 31 (bs @ replicate 32 0)"
  by (simp add: pad32_def)

lemma digest_id_of [simp]: "digest (id_of k)"
  by (simp add: id_of_def)

lemma from_hex_id_of [simp]: "from_hex (id_of k) = replicate 32 (word_of_nat k)"
  by (simp add: id_of_def)

lemma normalize_0x: "digest d \<Longrightarrow> normalizeCredentialIdHex (''0x'' @ d) = Inr d"
  by (simp add: normalizeCredentialIdHex_def digest_def)

lemma id_of_normalized:
  "map_result normalizeCredentialIdHex [id_of 1, ''0x'' @ id_of 2, id_of 3] = Inr [id_of 1, id_of 2, id_of 3]"
  "normalizeCredentialIdHex (id_of 2) = Inr (id_of 2)"
  using normalize_0x [of "id_of 2"] by simp_all

lemma merkle_proof_accepted_witness:
  "\<exists>p t. generateMerkleProof pad32 [id_of 1, ''0x'' @ id_of 2, id_of 3] (id_of 2) = Inr p \<and>
     buildMerkleTree pad32 [id_of 1, ''0x'' @ id_of 2, id_of 3] = Inr t \<and>
     credentialId p = Some (id_of 2) \<and>
     verifyMerkleProof pad32 (Some p) (Some (tree_root t)) = Inr True \<and>
     verifyMerkleProof pad32 (Some p) None = Inr True"
  using merkle_proof_accepted [of pad32, OF pad32_length id_of_normalized] by simp

text \<open>
  The inclusion path of a credential in a batch of n has at most as many steps as the tree has
  levels above the leaves, and 2 to that number is below 2 n: paths are logarithmic in the batch.
\<close>

theorem merkle_path_logarithmic:
  assumes "generateMerkleProof h ids c = Inr p" and "buildMerkleTree h ids = Inr t"
  shows "\<exists>steps. siblings p = Some steps \<and> length steps \<le> length (levels t) - 1 \<and>
    2 ^ (length (levels t) - 1) < 2 * length ids \<and> leafCount p = length ids \<and> leafIndex p < length ids"
proof -
  obtain ns i where ns: "map_result normalizeCredentialIdHex ids = Inr ns" "i < length ns"
      "siblings p = Some (collect_siblings (levels (tree_of h ns)) i)" "leafIndex p = i"
      "leafCount p = length ns"
    by (rule generateMerkleProof_Inr [OF assms(1)])
  have t: "t = tree_of h ns" using assms(2) ns(1) by (auto simp: buildMerkleTree_Inr_iff)
  have "ns \<noteq> []" using ns(2) by auto
  then have "2 ^ (length (levels t) - 1) < 2 * length (map (leaf_hash h) ns)"
    unfolding t using build_levels_height [of "map (leaf_hash h) ns" h]
    by (auto simp: tree_of_def Let_def)
  then show ?thesis
    using ns collect_siblings_length [of "levels t" i] map_result_length [OF ns(1)] t by auto
qed

lemma merkle_path_logarithmic_witness:
  "\<exists>p t. generateMerkleProof pad32 [id_of 1, ''0x'' @ id_of 2, id_of 3] (id_of 2) = Inr p \<and>
    buildMerkleTree pad32 [id_of 1, ''0x'' @ id_of 2, id_of 3] = Inr t \<and>
    2 ^ (length (levels t) - 1) < (2 * 3 :: nat)"
proof -
  let ?ids = "[id_of 1, ''0x'' @ id_of 2, id_of 3]"
  obtain p where p: "generateMerkleProof pad32 ?ids (id_of 2) = Inr p"
    using generate_member [OF id_of_normalized, of pad32] by auto
  obtain t where t: "buildMerkleTree pad32 ?ids = Inr t"
    using buildMerkleTree_Inr_iff [of pad32 ?ids] id_of_normalized(1) by blast
  show ?thesis using merkle_path_logarithmic [OF p t] p t by auto
qed

text \<open>
  Soundness of \<open>verifyMerkleProof\<close>: a proof that states a credential identifier and no leaf hash
  is accepted against the root of a batch only if the credential is in the batch, whatever siblings
  it carries, as long as no two of the byte strings hashed by the builder and the verifier collide.
\<close>

theorem merkle_proof_sound:
  assumes "\<And>x. length (h x) = 32"
    and "map_result normalizeCredentialIdHex ids = Inr ns"
    and "buildMerkleTree h ids = Inr t"
    and "leaf p = None" and "credentialId p = Some c" and "siblings p = Some steps"
    and "verifyMerkleProof h (Some p) (Some (tree_root t)) = Inr True"
    and "\<And>d. normalizeCredentialIdHex c = Inr d \<Longrightarrow> inj_on h (set (tree_inputs h ns)
      \<union> set ((0 # from_hex d) # path_inputs h steps (to_hex (h (0 # from_hex d)))))"
  shows "\<exists>d \<in> set ns. normalizeCredentialIdHex c = Inr d"
proof -
  have t: "t = tree_of h ns" and ne: "ns \<noteq> []"
    using assms(2,3) by (cases ids; auto simp: buildMerkleTree_Inr_iff split: sum.splits)+
  obtain d where d: "normalizeCredentialIdHex c = Inr d"
      and run: "run_path h steps (leaf_hash h d) = Some (to_lower (tree_root t))"
    using assms(4-7) by (auto simp: verifyMerkleProof_def proof_start_def start_leaf_def hashLeaf_def
        leaf_hash_def split: sum.splits option.splits if_splits)
  have dg: "list_all digest ns" "digest d"
    using assms(2) d map_result_normalize_digests normalize_Inr_digest by auto
  have node: "tree_root t \<in> set (concat (build_levels h (map (leaf_hash h) ns)))"
    using tree_root_node [OF ne] t by simp
  have "digest (tree_root t)"
    using tree_nodes_digests [OF assms(1) leaf_hash_digests [OF assms(1)] node] .
  then have "to_lower (tree_root t) = tree_root t" by (simp add: digest_def)
  then show ?thesis
    using path_from_leaf [where h = h and steps = steps and n = "tree_root t", OF assms(1) dg]
      run node assms(8) [OF d] d by (simp add: leaf_hash_def)
qed

definition bare_proof :: "string \<Rightarrow> MerkleProofStep list \<Rightarrow> MerkleProof" where
  "bare_proof c steps = \<lparr>leaf = None, credentialId = Some c, siblings = Some steps, path = None,
     proof_root = None, proof_index = 0, leafIndex = 0, leafCount = 0\<rparr>"

definition left_step :: "string \<Rightarrow> MerkleProofStep" where
  "left_step s = \<lparr>step_hash = s, position = Some Left, siblingOnLeft = None, step_index = None\<rparr>"

definition sound_steps :: "MerkleProofStep list" where
  "sound_steps = [left_step (leaf_hash pad32 (id_of 1))]"

lemma sound_inputs:
  "inj_on pad32 (set (tree_inputs pad32 [id_of 1, id_of 2])
    \<union> set ((0 # from_hex (id_of 2)) # path_inputs pad32 sound_steps (to_hex (pad32 (0 # from_hex (id_of 2))))))"
proof -
  let ?n = "node_input (leaf_hash pad32 (id_of 1)) (leaf_hash pad32 (id_of 2))"
  have "set (tree_inputs pad32 [id_of 1, id_of 2]) \<union>
      set ((0 # from_hex (id_of 2)) # path_inputs pad32 sound_steps (to_hex (pad32 (0 # from_hex (id_of 2)))))
    = {0 # from_hex (id_of 1), 0 # from_hex (id_of 2), ?n}"
    by (auto simp: tree_inputs_def sound_steps_def left_step_def sibling_is_left_def leaf_hash_def
        build_levels.simps Let_def)
  moreover have "inj_on pad32 {0 # from_hex (id_of 1), 0 # from_hex (id_of 2), ?n}"
    by (simp add: pad32_Cons node_input_def numeral_eq_Suc)
  ultimately show ?thesis by simp
qed

lemma sound_accepted:
  "verifyMerkleProof pad32 (Some (bare_proof (id_of 2) sound_steps))
     (Some (tree_root (tree_of pad32 [id_of 1, id_of 2]))) = Inr True"
proof -
  have "to_hex (pad32 bs) \<noteq> []" "hex_of_length 64 (to_hex (pad32 bs))" for bs
    using digest_not_Nil [of "to_hex (pad32 bs)"] by (simp_all add: pad32_length)
  then show ?thesis
    by (simp add: verifyMerkleProof_def proof_start_def start_leaf_def bare_proof_def hashLeaf_digest
        sound_steps_def left_step_def sibling_is_left_def tree_of_def Let_def build_levels.simps leaf_hash_def
        hashNodes_def digest_not_Nil)
qed

lemma merkle_proof_sound_witness:
  "\<exists>d \<in> set [id_of 1, id_of 2]. normalizeCredentialIdHex (id_of 2) = Inr d"
proof (rule merkle_proof_sound [where h = pad32 and steps = sound_steps and
      ids = "[id_of 1, id_of 2]" and t = "tree_of pad32 [id_of 1, id_of 2]"
      and p = "bare_proof (id_of 2) sound_steps"])
  show "map_result normalizeCredentialIdHex [id_of 1, id_of 2] = Inr [id_of 1, id_of 2]" by simp
  then show "buildMerkleTree pad32 [id_of 1, id_of 2] = Inr (tree_of pad32 [id_of 1, id_of 2])"
    by (simp only: buildMerkleTree_Inr_iff) auto
  show "inj_on pad32 (set (tree_inputs pad32 [id_of 1, id_of 2])
      \<union> set ((0 # from_hex d) # path_inputs pad32 sound_steps (to_hex (pad32 (0 # from_hex d)))))"
    if "normalizeCredentialIdHex (id_of 2) = Inr d" for d
    using that sound_inputs by (simp add: Un_commute)
qed (simp_all only: pad32_length sound_accepted, simp_all add: bare_proof_def)

text \<open>
  A proof that carries a leaf hash is checked for that leaf only: relabelled with any other
  credential identifier it is still accepted, so an acceptance by \<open>merkle.ts\<close> says nothing about the
  \<open>credentialId\<close> of a proof as the generator returns it.
\<close>

theorem merkle_relabelled_proof_accepted:
  assumes "\<And>x. length (h x) = 32"
    and "generateMerkleProof h ids c = Inr p" and "buildMerkleTree h ids = Inr t"
  shows "verifyMerkleProof h (Some (p\<lparr>credentialId := c'\<rparr>)) (Some (tree_root t)) = Inr True"
proof -
  obtain ns where ns: "map_result normalizeCredentialIdHex ids = Inr ns" "t = tree_of h ns"
    using assms(3) by (auto simp: buildMerkleTree_Inr_iff)
  note v = verify_generated [OF assms(1,2) ns(1)]
  show ?thesis
    using v ns(2) digest_not_Nil
    by (auto simp: verifyMerkleProof_def proof_start_def start_leaf_def digest_def)
qed

lemma merkle_relabelled_proof_accepted_witness:
  "\<exists>p t. generateMerkleProof pad32 [id_of 1, ''0x'' @ id_of 2, id_of 3] (id_of 2) = Inr p \<and>
    buildMerkleTree pad32 [id_of 1, ''0x'' @ id_of 2, id_of 3] = Inr t \<and>
    verifyMerkleProof pad32 (Some (p\<lparr>credentialId := Some (id_of 9)\<rparr>)) (Some (tree_root t)) = Inr True"
proof -
  let ?ids = "[id_of 1, ''0x'' @ id_of 2, id_of 3]"
  obtain p where p: "generateMerkleProof pad32 ?ids (id_of 2) = Inr p"
    using generate_member [OF id_of_normalized, of pad32] by auto
  obtain t where t: "buildMerkleTree pad32 ?ids = Inr t"
    using buildMerkleTree_Inr_iff [of pad32 ?ids] id_of_normalized(1) by blast
  show ?thesis
    using merkle_relabelled_proof_accepted [where h = pad32, OF pad32_length p t] p t by auto
qed

text \<open>
  \<open>updateMerkleTree\<close> on the tree of a batch: out-of-range indexes and malformed identifiers are
  rejected, and otherwise the stored leaf hashes, with the new one at its index, are hashed a second
  time as if they were identifiers. The result is the tree of the leaf hashes and not the tree of
  the updated batch.
\<close>

theorem updateMerkleTree_rehashes:
  assumes "\<And>x. length (h x) = 32" and "buildMerkleTree h ids = Inr t"
    and "map_result normalizeCredentialIdHex ids = Inr ns"
  shows "updateMerkleTree h t i c =
    (if i < 0 \<or> i \<ge> int (length ids) then
       Inl (sdk_throw (''InvalidIndex: index '' @ int_to_string i
         @ '' out of bounds for leaf count '' @ nat_to_string (length ids)) VALIDATION_ERROR)
     else case normalizeCredentialIdHex c of
       Inl e \<Rightarrow> Inl e
     | Inr d \<Rightarrow> Inr (tree_of h (map (leaf_hash h) (ns[nat i := d]))))"
proof -
  have t: "t = tree_of h ns" using assms(2,3) by (auto simp: buildMerkleTree_Inr_iff)
  have len: "length (leaves t) = length ids"
    using map_result_length [OF assms(3)] t by (simp add: tree_of_def Let_def)
  have "buildMerkleTree h ((leaves t)[k := leaf_hash h d]) = Inr (tree_of h (map (leaf_hash h) (ns[k := d])))"
    if "k < length ids" for k d
  proof -
    have "(leaves t)[k := leaf_hash h d] = map (leaf_hash h) (ns[k := d])"
      by (simp add: t tree_of_def Let_def map_update)
    moreover have "ns[k := d] \<noteq> []" using that map_result_length [OF assms(3)] by auto
    ultimately show ?thesis
      using buildMerkleTree_digests [OF leaf_hash_digests [where h = h, OF assms(1)]] by simp
  qed
  then show ?thesis
    using len by (auto simp: updateMerkleTree_def hashLeaf_def leaf_hash_def split: sum.splits)
qed

lemma updateMerkleTree_rehashes_witness:
  "updateMerkleTree pad32 (tree_of pad32 [id_of 1, id_of 2, id_of 3]) 1 (id_of 2)
     = Inr (tree_of pad32 (map (leaf_hash pad32) [id_of 1, id_of 2, id_of 3]))"
  using updateMerkleTree_rehashes [where h = pad32 and ids = "[id_of 1, ''0x'' @ id_of 2, id_of 3]"
      and t = "tree_of pad32 [id_of 1, id_of 2, id_of 3]" and i = 1 and c = "id_of 2", OF pad32_length _ id_of_normalized(1)]
    buildMerkleTree_Inr_iff [of pad32 "[id_of 1, ''0x'' @ id_of 2, id_of 3]"] id_of_normalized
  by simp

end
