(* ===== verification/MerkleCred.thy ===== *)
theory MerkleCred
  imports Merkle
begin

text \<open>
  Models the second Merkle implementation of the SDK, the functions of
  \<open>sdk/src/credentials.ts\<close> that \<open>CredentialClient\<close> uses. Its proofs have no leaf hash: the verifier
  always hashes the credential identifier of the proof. The theorems show that it builds the trees
  of \<open>merkle.ts\<close>, that its proofs are accepted, and that it accepts members of the batch only.
\<close>

record CredProofNode =
  node_hash :: string
  node_position :: side

record CredMerkleProof =
  cp_credentialId :: string
  cp_path :: "CredProofNode list"
  cp_root :: string
  cp_index :: nat
  cp_leafCount :: nat

section \<open>Operations\<close>

definition cred_normalizeCredentialIdHex :: "string \<Rightarrow> thrown + string" where
  "cred_normalizeCredentialIdHex credId =
     (let hex = (if starts_with credId ''0x'' then drop 2 credId else credId) in
      if \<not> hex_of_length 64 hex then
        Inl (sdk_throw ''InvalidCredentialId: credential ID must be a 64-character hex string (32 bytes)''
          VALIDATION_ERROR)
      else Inr (to_lower hex))"

definition hashMerkleLeaf :: "(byte list \<Rightarrow> byte list) \<Rightarrow> string \<Rightarrow> thrown + string" where
  "hashMerkleLeaf h credId = (case cred_normalizeCredentialIdHex credId of
     Inl e \<Rightarrow> Inl e | Inr hex \<Rightarrow> Inr (to_hex (h ([0] @ from_hex hex))))"

definition hashMerkleNode :: "(byte list \<Rightarrow> byte list) \<Rightarrow> string \<Rightarrow> string \<Rightarrow> string" where
  "hashMerkleNode h l r = to_hex (h ([1] @ from_hex l @ from_hex r))"

fun cred_next_level :: "(byte list \<Rightarrow> byte list) \<Rightarrow> string list \<Rightarrow> string list" where
  "cred_next_level h (x # y # rest) = hashMerkleNode h x y # cred_next_level h rest"
| "cred_next_level h [x] = [x]"
| "cred_next_level h [] = []"

lemma length_cred_next_level: "length (cred_next_level h xs) = (length xs + 1) div 2"
  by (induction h xs rule: cred_next_level.induct) auto

function cred_levels :: "(byte list \<Rightarrow> byte list) \<Rightarrow> string list \<Rightarrow> string list list" where
  "cred_levels h current =
     (if length current > 1 then current # cred_levels h (cred_next_level h current) else [current])"
  by pat_completeness auto
termination
  by (relation "measure (\<lambda>(h, xs). length xs)") (auto simp: length_cred_next_level)

declare cred_levels.simps [simp del]

definition cred_buildMerkleTree :: "(byte list \<Rightarrow> byte list) \<Rightarrow> string list \<Rightarrow> thrown + MerkleTree" where
  "cred_buildMerkleTree h credentialIds =
     (if credentialIds = [] then
        Inl (sdk_throw ''InvalidBatch: at least one credential ID is required to build a merkle tree''
          VALIDATION_ERROR)
      else case map_result (hashMerkleLeaf h) credentialIds of
        Inl e \<Rightarrow> Inl e
      | Inr ls \<Rightarrow> (let lv = cred_levels h ls in
          Inr \<lparr>tree_root = hd (last lv), leaves = ls, levels = lv\<rparr>))"

fun cred_path :: "string list list \<Rightarrow> nat \<Rightarrow> CredProofNode list" where
  "cred_path (nodes # nodes2 # rest) idx =
     (let isRightNode = odd idx;
          siblingIdx = (if isRightNode then idx - 1 else idx + 1)
      in (if siblingIdx < length nodes
          then [\<lparr>node_hash = nodes ! siblingIdx, node_position = (if isRightNode then Left else Right)\<rparr>]
          else [])
         @ cred_path (nodes2 # rest) (idx div 2))"
| "cred_path _ idx = []"

definition cred_generateMerkleProof ::
    "(byte list \<Rightarrow> byte list) \<Rightarrow> string list \<Rightarrow> string \<Rightarrow> thrown + CredMerkleProof" where
  "cred_generateMerkleProof h credentialIds credId = (case cred_normalizeCredentialIdHex credId of
     Inl e \<Rightarrow> Inl e
   | Inr target \<Rightarrow> (case map_result cred_normalizeCredentialIdHex credentialIds of
       Inl e \<Rightarrow> Inl e
     | Inr normalized \<Rightarrow> (case index_of target normalized of
         None \<Rightarrow> Inl (sdk_throw (''InvalidProof: credential '' @ credId
                   @ '' is not part of the batch'') VALIDATION_ERROR)
       | Some index \<Rightarrow> (case cred_buildMerkleTree h normalized of
           Inl e \<Rightarrow> Inl e
         | Inr tree \<Rightarrow> Inr \<lparr>cp_credentialId = target, cp_path = cred_path (levels tree) index,
             cp_root = tree_root tree, cp_index = index, cp_leafCount = length normalized\<rparr>))))"

fun cred_run_path :: "(byte list \<Rightarrow> byte list) \<Rightarrow> CredProofNode list \<Rightarrow> string \<Rightarrow> string option" where
  "cred_run_path h [] current = Some current"
| "cred_run_path h (node # rest) current =
     (if \<not> hex_of_length 64 (node_hash node) then None
      else let sibling = to_lower (node_hash node) in
        cred_run_path h rest (if node_position node = Left then hashMerkleNode h sibling current
                              else hashMerkleNode h current sibling))"

definition cred_verifyMerkleProof ::
    "(byte list \<Rightarrow> byte list) \<Rightarrow> CredMerkleProof option \<Rightarrow> string option \<Rightarrow> bool" where
  "cred_verifyMerkleProof h prf rt = (case prf of
     None \<Rightarrow> False
   | Some p \<Rightarrow> (case hashMerkleLeaf h (cp_credentialId p) of
       Inl e \<Rightarrow> False
     | Inr start \<Rightarrow> (case cred_run_path h (cp_path p) start of
         None \<Rightarrow> False
       | Some current \<Rightarrow> current = to_lower (case rt of Some r \<Rightarrow> r | None \<Rightarrow> cp_root p))))"

section \<open>Agreement with \<open>merkle.ts\<close>\<close>

lemma cred_normalize_eq: "cred_normalizeCredentialIdHex = normalizeCredentialIdHex"
  by (auto simp: fun_eq_iff cred_normalizeCredentialIdHex_def normalizeCredentialIdHex_def)

lemma hashMerkleLeaf_eq: "hashMerkleLeaf = hashLeaf"
  by (simp add: fun_eq_iff hashMerkleLeaf_def hashLeaf_def cred_normalize_eq split: sum.split)

lemma hashMerkleNode_eq: "hashMerkleNode = hashNodes"
  by (simp add: fun_eq_iff hashMerkleNode_def hashNodes_def)

lemma cred_next_level_eq: "cred_next_level h xs = next_level h xs"
  by (induction h xs rule: next_level.induct) (simp_all add: hashMerkleNode_eq)

lemma cred_levels_eq: "cred_levels h xs = build_levels h xs"
proof (induction h xs rule: build_levels.induct)
  case (1 h xs)
  then show ?case
    by (simp add: cred_levels.simps [of h xs] build_levels.simps [of h xs] cred_next_level_eq)
qed

lemma cred_build_eq: "cred_buildMerkleTree h ids = buildMerkleTree h ids"
  by (simp add: cred_buildMerkleTree_def buildMerkleTree_def hashMerkleLeaf_eq cred_levels_eq
      split: sum.split)

text \<open>The step of \<open>merkle.ts\<close> that a node of a path here stands for.\<close>

definition as_step :: "CredProofNode \<Rightarrow> MerkleProofStep" where
  "as_step n = \<lparr>step_hash = node_hash n, position = Some (node_position n),
     siblingOnLeft = None, step_index = None\<rparr>"

definition as_proof :: "CredMerkleProof \<Rightarrow> MerkleProof" where
  "as_proof p = \<lparr>leaf = None, credentialId = Some (cp_credentialId p), siblings = Some (map as_step (cp_path p)),
     path = None, proof_root = Some (cp_root p), proof_index = cp_index p, leafIndex = cp_index p,
     leafCount = cp_leafCount p\<rparr>"

lemma cred_run_path_eq: "cred_run_path h steps c = run_path h (map as_step steps) c"
  by (induction steps arbitrary: c)
    (auto simp: as_step_def sibling_is_left_def hashMerkleNode_eq Let_def)

lemma cred_path_run: "cred_run_path h (cred_path lv i) c = run_path h (collect_siblings lv i) c"
  by (induction lv i arbitrary: c rule: collect_siblings.induct)
    (auto simp: sibling_is_left_def hashMerkleNode_eq Let_def)

lemma hashLeaf_nonempty: "(\<And>x. length (h x) = 32) \<Longrightarrow> hashLeaf h c = Inr l \<Longrightarrow> l \<noteq> []"
  by (auto simp: hashLeaf_Inr_iff dest!: arg_cong [of "to_hex _" "[]" length])

text \<open>An empty identifier is malformed, so testing it for emptiness first changes nothing.\<close>

lemma hashLeaf_Nil: "hashLeaf h [] = Inl (sdk_throw
    ''InvalidCredentialId: credential ID must be a 64-character hex string (32 bytes)'' VALIDATION_ERROR)"
  by (simp add: hashLeaf_def normalizeCredentialIdHex_def hex_of_length_def)

section \<open>Properties\<close>

lemma cred_verify_eq:
  assumes len: "\<And>x. length (h x) = 32"
  shows "verifyMerkleProof h (Some (as_proof p)) r = Inr (cred_verifyMerkleProof h (Some p) r)"
proof -
  have "cp_credentialId p \<noteq> [] \<and> l \<noteq> []" if "hashLeaf h (cp_credentialId p) = Inr l" for l
    using hashLeaf_nonempty [OF len that] that by (auto simp: hashLeaf_Nil)
  then show ?thesis
    by (auto simp: verifyMerkleProof_def cred_verifyMerkleProof_def as_proof_def proof_start_def
        start_leaf_def hashMerkleLeaf_eq cred_run_path_eq hashLeaf_Nil split: sum.splits option.splits)
qed

lemma cred_generate_eq:
  "cred_generateMerkleProof h ids c =
    (case generateMerkleProof h ids c of Inl e \<Rightarrow> Inl e
     | Inr p \<Rightarrow> (case cred_generateMerkleProof h ids c of Inl e \<Rightarrow> Inl e | Inr q \<Rightarrow> Inr q))"
proof -
  have "hashLeaf h d = Inr (leaf_hash h d)" if "normalizeCredentialIdHex c = Inr d" for d
    using normalize_Inr_digest [OF that] by (simp add: hashLeaf_digest leaf_hash_def)
  then show ?thesis
    by (auto simp: cred_generateMerkleProof_def generateMerkleProof_def cred_normalize_eq cred_build_eq
        Let_def split: sum.splits option.splits)
qed

lemma cred_generate_Inr:
  assumes "generateMerkleProof h ids c = Inr p"
  shows "\<exists>q d. cred_generateMerkleProof h ids c = Inr q \<and> leaf p = Some (leaf_hash h d) \<and> digest d \<and>
    credentialId p = Some (cp_credentialId q) \<and> cp_credentialId q = d \<and> proof_root p = Some (cp_root q) \<and>
    leafIndex p = cp_index q \<and> leafCount p = cp_leafCount q \<and>
    (\<exists>steps. siblings p = Some steps \<and> (\<forall>x. cred_run_path h (cp_path q) x = run_path h steps x))"
proof -
  obtain d ns i where f: "normalizeCredentialIdHex c = Inr d"
    "map_result normalizeCredentialIdHex ids = Inr ns" "index_of d ns = Some i"
    "buildMerkleTree h ns = Inr (tree_of h ns)"
    "leaf p = Some (leaf_hash h d)" "credentialId p = Some d"
    "siblings p = Some (collect_siblings (levels (tree_of h ns)) i)"
    "proof_root p = Some (tree_root (tree_of h ns))" "leafIndex p = i" "leafCount p = length ns"
  proof -
    obtain d ns i where g: "normalizeCredentialIdHex c = Inr d"
        "map_result normalizeCredentialIdHex ids = Inr ns" "index_of d ns = Some i"
      using assms by (auto simp: generateMerkleProof_def split: sum.splits option.splits)
    moreover have "digest d" "list_all digest ns"
      using g map_result_normalize_digests normalize_Inr_digest by auto
    moreover have "ns \<noteq> []" using g(3) by auto
    ultimately show thesis
      using assms by (intro that [of d ns i])
        (auto simp: generateMerkleProof_def buildMerkleTree_digests hashLeaf_digest leaf_hash_def Let_def)
  qed
  then show ?thesis
    using normalize_Inr_digest [OF f(1)]
    by (simp add: cred_generateMerkleProof_def cred_normalize_eq cred_build_eq cred_path_run)
qed

text \<open>
  C5. The Merkle functions of \<open>credentials.ts\<close> and of \<open>merkle.ts\<close> agree: the same trees and the same
  errors are built, proof generation fails with the same error or returns the same credential, index,
  root and a path that hashes to the same values, and verifying a proof of \<open>credentials.ts\<close> is
  verifying it with \<open>merkle.ts\<close> when it carries no leaf hash.
\<close>

theorem merkle_implementations_agree:
  assumes "\<And>x. length (h x) = 32"
  shows "cred_buildMerkleTree h ids = buildMerkleTree h ids \<and>
    (case generateMerkleProof h ids c of
       Inl e \<Rightarrow> cred_generateMerkleProof h ids c = Inl e
     | Inr p \<Rightarrow> (\<exists>q. cred_generateMerkleProof h ids c = Inr q \<and> credentialId p = Some (cp_credentialId q) \<and>
         proof_root p = Some (cp_root q) \<and> leafIndex p = cp_index q \<and> leafCount p = cp_leafCount q \<and>
         (\<forall>r. verifyMerkleProof h (Some p) r = Inr (cred_verifyMerkleProof h (Some q) r)))) \<and>
    verifyMerkleProof h (Some (as_proof pr)) r = Inr (cred_verifyMerkleProof h (Some pr) r)"
proof (intro conjI)
  show "case generateMerkleProof h ids c of
       Inl e \<Rightarrow> cred_generateMerkleProof h ids c = Inl e
     | Inr p \<Rightarrow> (\<exists>q. cred_generateMerkleProof h ids c = Inr q \<and> credentialId p = Some (cp_credentialId q) \<and>
         proof_root p = Some (cp_root q) \<and> leafIndex p = cp_index q \<and> leafCount p = cp_leafCount q \<and>
         (\<forall>r. verifyMerkleProof h (Some p) r = Inr (cred_verifyMerkleProof h (Some q) r)))"
  proof (cases "generateMerkleProof h ids c")
    case (Inl e)
    then show ?thesis using cred_generate_eq [of h ids c] by simp
  next
    case (Inr p)
    obtain q steps where q: "cred_generateMerkleProof h ids c = Inr q"
        "leaf p = Some (leaf_hash h (cp_credentialId q))" "digest (cp_credentialId q)"
        "credentialId p = Some (cp_credentialId q)" "proof_root p = Some (cp_root q)"
        "leafIndex p = cp_index q" "leafCount p = cp_leafCount q" "siblings p = Some steps"
        "\<And>x. cred_run_path h (cp_path q) x = run_path h steps x"
      using cred_generate_Inr [OF Inr] by blast
    have "leaf_hash h (cp_credentialId q) \<noteq> []"
      using digest_not_Nil assms by (simp add: leaf_hash_def digest_not_Nil)
    then have "verifyMerkleProof h (Some p) r = Inr (cred_verifyMerkleProof h (Some q) r)" for r
      using q by (auto simp: verifyMerkleProof_def cred_verifyMerkleProof_def proof_start_def start_leaf_def
          hashMerkleLeaf_eq hashLeaf_digest leaf_hash_def split: option.splits)
    then show ?thesis using Inr q by auto
  qed
  show "verifyMerkleProof h (Some (as_proof pr)) r = Inr (cred_verifyMerkleProof h (Some pr) r)"
    by (rule cred_verify_eq [OF assms])
qed (rule cred_build_eq)

definition cred_example :: CredMerkleProof where
  "cred_example = \<lparr>cp_credentialId = id_of 2,
     cp_path = [\<lparr>node_hash = leaf_hash pad32 (id_of 1), node_position = Left\<rparr>],
     cp_root = [], cp_index = 0, cp_leafCount = 0\<rparr>"

lemma verify_given_root:
  "verifyMerkleProof h (Some (p\<lparr>proof_root := x\<rparr>)) (Some r) = verifyMerkleProof h (Some p) (Some r)"
  by (simp add: verifyMerkleProof_def proof_start_def start_leaf_def cong: option.case_cong)

lemma merkle_implementations_agree_witness:
  "\<exists>q. cred_generateMerkleProof pad32 [id_of 1, ''0x'' @ id_of 2, id_of 3] (id_of 2) = Inr q \<and>
    cp_index q = 1 \<and> cp_leafCount q = 3"
proof -
  obtain p where p: "generateMerkleProof pad32 [id_of 1, ''0x'' @ id_of 2, id_of 3] (id_of 2) = Inr p"
    using generate_member [OF id_of_normalized, of pad32] by auto
  have ids: "index_of (id_of 2) [id_of 1, id_of 2, id_of 3] = Some 1"
    by (simp add: id_of_def)
  have "leafIndex p = 1" "leafCount p = 3"
    using p id_of_normalized ids
    by (auto simp: generateMerkleProof_def buildMerkleTree_digests hashLeaf_digest Let_def)
  then show ?thesis
    using merkle_implementations_agree [where h = pad32 and c = "id_of 2" and
        ids = "[id_of 1, ''0x'' @ id_of 2, id_of 3]" and pr = cred_example and r = None, OF pad32_length] p
    by auto
qed

text \<open>
  C4. \<open>verifyMerkleProof\<close> of \<open>credentials.ts\<close> accepts a proof against the root of a batch only if the
  credential it names is in the batch, for every index, path and root field it may carry, as long as
  the byte strings hashed by the builder and the verifier do not collide.
\<close>

theorem cred_merkle_sound:
  assumes "\<And>x. length (h x) = 32"
    and "map_result cred_normalizeCredentialIdHex ids = Inr ns"
    and "cred_buildMerkleTree h ids = Inr t"
    and "cred_verifyMerkleProof h (Some p) (Some (tree_root t))"
    and "\<And>d. cred_normalizeCredentialIdHex (cp_credentialId p) = Inr d \<Longrightarrow> inj_on h (set (tree_inputs h ns)
      \<union> set ((0 # from_hex d) # path_inputs h (map as_step (cp_path p)) (to_hex (h (0 # from_hex d)))))"
  shows "\<exists>d \<in> set ns. cred_normalizeCredentialIdHex (cp_credentialId p) = Inr d"
proof -
  have t: "t = tree_of h ns" and ne: "ns \<noteq> []"
    using assms(2,3) by (cases ids; auto simp: cred_build_eq cred_normalize_eq buildMerkleTree_Inr_iff split: sum.splits)+
  obtain d where d: "normalizeCredentialIdHex (cp_credentialId p) = Inr d"
      and run: "run_path h (map as_step (cp_path p)) (leaf_hash h d) = Some (to_lower (tree_root t))"
    using assms(4) by (auto simp: cred_verifyMerkleProof_def hashMerkleLeaf_eq hashLeaf_def leaf_hash_def
        cred_run_path_eq split: sum.splits option.splits)
  have dg: "list_all digest ns" "digest d"
    using assms(2) d map_result_normalize_digests normalize_Inr_digest by (auto simp: cred_normalize_eq)
  have node: "tree_root t \<in> set (concat (build_levels h (map (leaf_hash h) ns)))"
    using tree_root_node [OF ne] t by simp
  have "digest (tree_root t)"
    using tree_nodes_digests [where h = h, OF assms(1) leaf_hash_digests [where h = h, OF assms(1)] node] .
  then show ?thesis
    using path_from_leaf [where h = h and n = "tree_root t", OF assms(1) dg, of "map as_step (cp_path p)"]
      run node assms(5) d by (simp add: leaf_hash_def digest_def cred_normalize_eq)
qed

lemma cred_merkle_sound_witness:
  "\<exists>d \<in> set [id_of 1, id_of 2]. cred_normalizeCredentialIdHex (cp_credentialId cred_example) = Inr d"
proof (rule cred_merkle_sound [where h = pad32 and ids = "[id_of 1, id_of 2]"
      and t = "tree_of pad32 [id_of 1, id_of 2]" and p = cred_example])
  have steps: "map as_step (cp_path cred_example) = sound_steps" and c: "cp_credentialId cred_example = id_of 2"
    by (simp_all add: cred_example_def as_step_def sound_steps_def left_step_def)
  show m: "map_result cred_normalizeCredentialIdHex [id_of 1, id_of 2] = Inr [id_of 1, id_of 2]"
    by (simp add: cred_normalize_eq)
  then show "cred_buildMerkleTree pad32 [id_of 1, id_of 2] = Inr (tree_of pad32 [id_of 1, id_of 2])"
    by (simp only: cred_build_eq buildMerkleTree_Inr_iff cred_normalize_eq) auto
  have "as_proof cred_example = (bare_proof (id_of 2) sound_steps)\<lparr>proof_root := Some []\<rparr>"
    using steps c by (simp add: as_proof_def bare_proof_def cred_example_def)
  then show "cred_verifyMerkleProof pad32 (Some cred_example) (Some (tree_root (tree_of pad32 [id_of 1, id_of 2])))"
    using cred_verify_eq [where h = pad32 and p = cred_example, OF pad32_length,
        of "Some (tree_root (tree_of pad32 [id_of 1, id_of 2]))"] sound_accepted
    by (simp only: verify_given_root sum.inject)
  show "inj_on pad32 (set (tree_inputs pad32 [id_of 1, id_of 2]) \<union> set ((0 # from_hex d) #
      path_inputs pad32 (map as_step (cp_path cred_example)) (to_hex (pad32 (0 # from_hex d)))))"
    if "cred_normalizeCredentialIdHex (cp_credentialId cred_example) = Inr d" for d
    using that sound_inputs by (simp add: steps c cred_normalize_eq Un_commute)
qed (rule pad32_length)

end
