(* ===== verification/JsNumber.thy ===== *)
theory JsNumber
  imports Prelude
begin

text \<open>
  \<open>Number(s)\<close> for a string \<open>s\<close>: surrounding white space is ignored, the empty string is 0, and the rest
  must be a decimal literal with optional sign, fraction and exponent. \<open>None\<close> is \<open>NaN\<close>. The spellings
  \<open>Infinity\<close> and the hexadecimal, octal and binary literals are not modelled; no value the modelled
  code converts is written in them.
\<close>

definition js_digit :: "char \<Rightarrow> bool" where
  "js_digit c = (48 \<le> char_code c \<and> char_code c \<le> 57)"

definition js_space :: "char \<Rightarrow> bool" where
  "js_space c = (char_code c = 32 \<or> (9 \<le> char_code c \<and> char_code c \<le> 13) \<or> char_code c = 160)"

definition digits_value :: "string \<Rightarrow> nat" where
  "digits_value ds = foldl (\<lambda>n c. 10 * n + (char_code c - 48)) 0 ds"

definition js_trim :: "string \<Rightarrow> string" where
  "js_trim s = rev (dropWhile js_space (rev (dropWhile js_space s)))"

fun split_sign :: "string \<Rightarrow> rat \<times> string" where
  "split_sign (c # s) = (if c = CHR ''-'' then (-1, s) else if c = CHR ''+'' then (1, s) else (1, c # s))"
| "split_sign [] = (1, [])"

text \<open>The exponent part: nothing, or \<open>e\<close>, an optional sign and at least one digit.\<close>

definition parse_exponent :: "string \<Rightarrow> rat option" where
  "parse_exponent s = (case s of
     [] \<Rightarrow> Some 1
   | c # r \<Rightarrow> if c \<noteq> CHR ''e'' \<and> c \<noteq> CHR ''E'' then None else
       (case split_sign r of (sg, ds) \<Rightarrow>
          if ds = [] \<or> \<not> list_all js_digit ds then None
          else Some (if sg = 1 then 10 ^ digits_value ds else 1 / 10 ^ digits_value ds)))"

definition parse_unsigned :: "string \<Rightarrow> rat option" where
  "parse_unsigned s =
     (let ip = takeWhile js_digit s; r = dropWhile js_digit s in
      case (case r of c # r' \<Rightarrow> if c = CHR ''.'' then (takeWhile js_digit r', dropWhile js_digit r') else ([], r)
                | [] \<Rightarrow> ([], [])) of
        (fp, r2) \<Rightarrow> if ip = [] \<and> fp = [] then None else
          map_option (\<lambda>e. (of_nat (digits_value ip) + of_nat (digits_value fp) / 10 ^ length fp) * e)
            (parse_exponent r2))"

definition js_number :: "string \<Rightarrow> rat option" where
  "js_number s = (case js_trim s of
     [] \<Rightarrow> Some 0
   | t \<Rightarrow> (case split_sign t of (sg, u) \<Rightarrow> map_option (\<lambda>x. sg * x) (parse_unsigned u)))"

lemma js_number_examples:
  "js_number ''30'' = Some 30"
  "js_number '' 1.5 '' = Some (3/2)"
  "js_number ''-2e3'' = Some (-2000)"
  "js_number ''Wed, 21 Oct'' = None"
  "js_number [] = Some 0"
  by code_simp+

end
