(* ===== verification/JsValue.thy ===== *)
theory JsValue
  imports SdkErrors JsNumber
begin

text \<open>
  JavaScript values that cross the boundary of the modelled code: what \<open>scValToNative\<close> returns, what
  \<open>nativeToScVal\<close> is given, parsed JSON, claims. Numbers are rationals (no code modelled here depends
  on rounding) beside \<open>NaN\<close>; a big integer is an integer. Objects list their properties in insertion
  order.
\<close>

datatype jv =
    JUndef | JNull | JNaN
  | JBool bool | JNum rat | JBig int | JStr string | JBytes "byte list"
  | JArr "jv list" | JObj "(string \<times> jv) list"

fun js_truthy :: "jv \<Rightarrow> bool" where
  "js_truthy JUndef = False"
| "js_truthy JNull = False"
| "js_truthy JNaN = False"
| "js_truthy (JBool b) = b"
| "js_truthy (JNum q) = (q \<noteq> 0)"
| "js_truthy (JBig i) = (i \<noteq> 0)"
| "js_truthy (JStr s) = (s \<noteq> [])"
| "js_truthy _ = True"

text \<open>\<open>x ?? y\<close>\<close>

definition nullish :: "jv \<Rightarrow> bool" where
  "nullish v = (v = JUndef \<or> v = JNull)"

definition js_coalesce :: "jv \<Rightarrow> jv \<Rightarrow> jv" where
  "js_coalesce a b = (if nullish a then b else a)"

text \<open>The errors of reading a property of \<open>undefined\<close> and of calling what is not a function.\<close>

definition type_error :: "string \<Rightarrow> thrown" where
  "type_error m = ErrorThrown ''TypeError'' m"

text \<open>\<open>v.name\<close>: a missing property is \<open>undefined\<close>, a property of \<open>undefined\<close> or \<open>null\<close> throws.\<close>

fun js_prop :: "jv \<Rightarrow> string \<Rightarrow> thrown + jv" where
  "js_prop JUndef k = Inl (type_error ''Cannot read properties of undefined'')"
| "js_prop JNull k = Inl (type_error ''Cannot read properties of null'')"
| "js_prop (JObj m) k = Inr (case jm_get m k of Some v \<Rightarrow> v | None \<Rightarrow> JUndef)"
| "js_prop _ k = Inr JUndef"

text \<open>\<open>v.map(f)\<close> where \<open>v\<close> need not be an array: any other value has no \<open>map\<close>.\<close>

fun js_map :: "(jv \<Rightarrow> thrown + 'b) \<Rightarrow> jv \<Rightarrow> thrown + 'b list" where
  "js_map f (JArr vs) = map_result f vs"
| "js_map f JUndef = Inl (type_error ''Cannot read properties of undefined (reading 'map')'')"
| "js_map f JNull = Inl (type_error ''Cannot read properties of null (reading 'map')'')"
| "js_map f _ = Inl (type_error ''map is not a function'')"

text \<open>\<open>String(n)\<close> for the numbers that occur: integers; a fraction prints its decimals.\<close>

fun frac_digits :: "nat \<Rightarrow> rat \<Rightarrow> string" where
  "frac_digits 0 q = []"
| "frac_digits (Suc n) q = (if q = 0 then [] else
     hex_digit (nat \<lfloor>10 * q\<rfloor>) # frac_digits n (10 * q - of_int \<lfloor>10 * q\<rfloor>))"

definition num_to_string :: "rat \<Rightarrow> string" where
  "num_to_string q = (let a = \<bar>q\<bar>; i = \<lfloor>a\<rfloor>; f = frac_digits 15 (a - of_int i) in
     (if q < 0 then ''-'' else []) @ nat_to_string (nat i) @ (if f = [] then [] else CHR ''.'' # f))"

definition join :: "string \<Rightarrow> string list \<Rightarrow> string" where
  "join sep xs = (case xs of [] \<Rightarrow> [] | x # rest \<Rightarrow> x @ concat (map (\<lambda>y. sep @ y) rest))"

text \<open>\<open>String(v)\<close>; the elements of an array are joined with commas, \<open>null\<close> and \<open>undefined\<close> as nothing.\<close>

fun js_string :: "jv \<Rightarrow> string" where
  "js_string JUndef = ''undefined''"
| "js_string JNull = ''null''"
| "js_string JNaN = ''NaN''"
| "js_string (JBool b) = (if b then ''true'' else ''false'')"
| "js_string (JNum q) = num_to_string q"
| "js_string (JBig i) = int_to_string i"
| "js_string (JStr s) = s"
| "js_string (JBytes bs) = map (\<lambda>b. char_of (unat b)) bs"
| "js_string (JArr vs) = join '','' (map (\<lambda>v. if v = JUndef \<or> v = JNull then [] else js_string v) vs)"
| "js_string (JObj m) = ''[object Object]''"

definition is_object :: "jv \<Rightarrow> bool" where
  "is_object v = (case v of JObj m \<Rightarrow> True | JArr vs \<Rightarrow> True | JBytes bs \<Rightarrow> True | JNull \<Rightarrow> True | _ \<Rightarrow> False)"

text \<open>\<open>Number.isInteger\<close>\<close>

definition js_is_integer :: "rat \<Rightarrow> bool" where
  "js_is_integer q = (of_int \<lfloor>q\<rfloor> = q)"

text \<open>\<open>parseInt(s, 10)\<close>: white space, a sign, then as many digits as follow; \<open>None\<close> is \<open>NaN\<close>.\<close>

definition parse_int :: "string \<Rightarrow> int option" where
  "parse_int s = (case split_sign (dropWhile js_space s) of (sg, t) \<Rightarrow>
     (let ds = takeWhile js_digit t in
      if ds = [] then None else Some ((if sg = 1 then 1 else -1) * int (digits_value ds))))"

text \<open>\<open>(stroops / 10_000_000).toFixed(7)\<close> for an integral number of stroops.\<close>

definition pad_left :: "nat \<Rightarrow> string \<Rightarrow> string" where
  "pad_left n s = replicate (n - length s) (CHR ''0'') @ s"

definition stroops_to_xlm :: "int option \<Rightarrow> string" where
  "stroops_to_xlm fee = (case fee of None \<Rightarrow> ''NaN''
     | Some n \<Rightarrow> (let a = \<bar>n\<bar> in (if n < 0 then ''-'' else [])
         @ nat_to_string (nat (a div 10000000)) @ ''.'' @ pad_left 7 (nat_to_string (nat (a mod 10000000)))))"



lemma js_value_examples:
  "parse_int ''100px'' = Some 100"
  "js_string (JArr [JNum 1, JNull, JStr ''a'']) = ''1,,a''"
  "num_to_string (-5/2) = ''-2.5''"
  by code_simp+

end
