(* ===== verification/Rpc.thy ===== *)
theory Rpc
  imports JsValue
begin

text \<open>
  The world the SDK clients act on: the Soroban RPC nodes, the timers, and the parts of the Stellar SDK
  that are not code of this repository. An asynchronous method is a computation \<open>'a io\<close>: it runs in a
  \<open>world\<close>, whose log lists every request it sent and every delay it waited for, and ends with a value
  or with what it throws. What an RPC node answers may depend on everything that happened before, so
  the environment's answers are functions of the log.

  \<open>emits P m\<close> says that everything \<open>m\<close> adds to the log satisfies \<open>P\<close>; its rules, collected in
  \<open>emits\<close>, prove what a method can and cannot send by running over its definition.
\<close>

section \<open>Data of the Stellar SDK\<close>

text \<open>
  A contract value as the code builds it: the argument of \<open>nativeToScVal\<close> with its type hint, or one of
  the \<open>xdr.ScVal\<close> constructors the code calls itself.
\<close>

datatype scval =
    Native jv string
  | ScvVec "scval list"
  | ScvSymbol string
  | ScvVoid

text \<open>The value a simulation returns: normally a contract value, in some mocks a plain object.\<close>

datatype retval = RScVal scval | RPlain jv

record account =
  acc_id :: string
  acc_seq :: string

record operation =
  op_contract :: string
  op_method :: string
  op_args :: "scval list"

record tx =
  tx_account :: account
  tx_fee :: string
  tx_network :: string
  tx_ops :: "operation list"
  tx_timeout :: nat

text \<open>A prepared transaction: the transaction it was assembled from, its fee and its signers.\<close>

record ptx =
  p_tx :: tx
  p_fee :: string
  p_signers :: "string list"

record send_result =
  send_status :: string
  send_hash :: string

datatype tx_status =
    TxSuccess "retval option"
  | TxFailed "string option"
  | TxOther string

datatype sim_result = SimError "string option" | SimOk "retval option"

section \<open>Effects and the environment\<close>

text \<open>The number of each request is the index of the RPC node it goes to.\<close>

datatype effect =
    GetAccount nat string
  | Prepare nat tx
  | Send nat ptx
  | GetTransaction nat string
  | Simulate nat tx
  | GetHealth nat
  | GetLatestLedger nat
  | Sleep rat

record env =
  e_getAccount :: "effect list \<Rightarrow> string \<Rightarrow> thrown + account"
  e_prepare :: "effect list \<Rightarrow> tx \<Rightarrow> thrown + ptx"
  e_send :: "effect list \<Rightarrow> ptx \<Rightarrow> thrown + send_result"
  e_getTransaction :: "effect list \<Rightarrow> string \<Rightarrow> thrown + tx_status"
  e_simulate :: "effect list \<Rightarrow> tx \<Rightarrow> thrown + sim_result"
  e_getHealth :: "effect list \<Rightarrow> thrown + unit"
  e_getLatestLedger :: "effect list \<Rightarrow> thrown + nat"
  e_random :: "effect list \<Rightarrow> rat"
  e_isValidKey :: "string \<Rightarrow> bool"
  e_isValidContract :: "string \<Rightarrow> bool"
  e_newAccount :: "string \<Rightarrow> thrown option"
  e_nativeToScVal :: "jv \<Rightarrow> string \<Rightarrow> thrown option"
  e_scValToNative :: "retval \<Rightarrow> thrown + jv"

record world =
  w_log :: "effect list"
  w_index :: nat
  w_disposed :: bool

type_synonym 'a io = "world \<Rightarrow> (thrown + 'a) \<times> world"

section \<open>Combinators\<close>

definition io_return :: "'a \<Rightarrow> 'a io" where
  "io_return x = (\<lambda>w. (Inr x, w))"

definition io_throw :: "thrown \<Rightarrow> 'a io" where
  "io_throw e = (\<lambda>w. (Inl e, w))"

definition io_lift :: "thrown + 'a \<Rightarrow> 'a io" where
  "io_lift r = (\<lambda>w. (r, w))"

definition andThen :: "'a io \<Rightarrow> ('a \<Rightarrow> 'b io) \<Rightarrow> 'b io" where
  "andThen m f = (\<lambda>w. case m w of (Inl e, w') \<Rightarrow> (Inl e, w') | (Inr x, w') \<Rightarrow> f x w')"

text \<open>\<open>try { m } catch (e) { f(e) }\<close>\<close>

definition io_catch :: "'a io \<Rightarrow> (thrown \<Rightarrow> 'a io) \<Rightarrow> 'a io" where
  "io_catch m f = (\<lambda>w. case m w of (Inl e, w') \<Rightarrow> f e w' | (Inr x, w') \<Rightarrow> (Inr x, w'))"

definition emit :: "effect \<Rightarrow> unit io" where
  "emit e = (\<lambda>w. (Inr (), w\<lparr>w_log := w_log w @ [e]\<rparr>))"

text \<open>A request: it is logged, and answered from the log before it.\<close>

definition request :: "effect \<Rightarrow> (effect list \<Rightarrow> thrown + 'a) \<Rightarrow> 'a io" where
  "request e answer = (\<lambda>w. (answer (w_log w), w\<lparr>w_log := w_log w @ [e]\<rparr>))"

definition sleep :: "rat \<Rightarrow> unit io" where
  "sleep ms = emit (Sleep ms)"

text \<open>\<open>Math.random()\<close>\<close>

definition math_random :: "env \<Rightarrow> rat io" where
  "math_random env = (\<lambda>w. (Inr (e_random env (w_log w)), w))"

fun io_map :: "('a \<Rightarrow> 'b io) \<Rightarrow> 'a list \<Rightarrow> 'b list io" where
  "io_map f [] = io_return []"
| "io_map f (x # xs) = andThen (f x) (\<lambda>y. andThen (io_map f xs) (\<lambda>ys. io_return (y # ys)))"

section \<open>What a computation can do\<close>

named_theorems emits "rules for what a computation adds to the log"

definition emits :: "(effect \<Rightarrow> bool) \<Rightarrow> 'a io \<Rightarrow> bool" where
  "emits P m = (\<forall>w. \<exists>es. w_log (snd (m w)) = w_log w @ es \<and> list_all P es)"

lemma emitsI: "(\<And>w. \<exists>es. w_log (snd (m w)) = w_log w @ es \<and> list_all P es) \<Longrightarrow> emits P m"
  by (simp add: emits_def)

lemma emitsD: "emits P m \<Longrightarrow> \<exists>es. w_log (snd (m w)) = w_log w @ es \<and> list_all P es"
  by (simp add: emits_def)

lemma emits_return [emits]: "emits P (io_return x)"
  and emits_throw [emits]: "emits P (io_throw e)"
  and emits_lift [emits]: "emits P (io_lift r)"
  and emits_random [emits]: "emits P (math_random env)"
  by (simp_all add: emits_def io_return_def io_throw_def io_lift_def math_random_def)

lemma emits_emit [emits]: "P e \<Longrightarrow> emits P (emit e)"
  by (simp add: emits_def emit_def)

lemma emits_request [emits]: "P e \<Longrightarrow> emits P (request e a)"
  by (simp add: emits_def request_def)

lemma emits_sleep [emits]: "P (Sleep ms) \<Longrightarrow> emits P (sleep ms)"
  by (simp add: sleep_def emits)

lemma emits_andThen [emits]:
  assumes "emits P m" "\<And>x. emits P (f x)"
  shows "emits P (andThen m f)"
proof (rule emitsI)
  fix w
  obtain r w' where m: "m w = (r, w')" by (cases "m w")
  obtain es where es: "w_log w' = w_log w @ es" "list_all P es"
    using emitsD [OF assms(1), of w] m by auto
  show "\<exists>es. w_log (snd (andThen m f w)) = w_log w @ es \<and> list_all P es"
  proof (cases r)
    case (Inr x)
    obtain es' where "w_log (snd (f x w')) = w_log w' @ es'" "list_all P es'"
      using emitsD [OF assms(2), of x w'] by auto
    then show ?thesis using m es Inr by (intro exI [of _ "es @ es'"]) (simp add: andThen_def)
  qed (use m es in \<open>simp add: andThen_def\<close>)
qed

lemma emits_catch [emits]:
  assumes "emits P m" "\<And>e. emits P (f e)"
  shows "emits P (io_catch m f)"
proof (rule emitsI)
  fix w
  obtain r w' where m: "m w = (r, w')" by (cases "m w")
  obtain es where es: "w_log w' = w_log w @ es" "list_all P es"
    using emitsD [OF assms(1), of w] m by auto
  show "\<exists>es. w_log (snd (io_catch m f w)) = w_log w @ es \<and> list_all P es"
  proof (cases r)
    case (Inl e)
    obtain es' where "w_log (snd (f e w')) = w_log w' @ es'" "list_all P es'"
      using emitsD [OF assms(2), of e w'] by auto
    then show ?thesis using m es Inl by (intro exI [of _ "es @ es'"]) (simp add: io_catch_def)
  qed (use m es in \<open>simp add: io_catch_def\<close>)
qed

lemma emits_if [emits]: "(b \<Longrightarrow> emits P m) \<Longrightarrow> (\<not> b \<Longrightarrow> emits P n) \<Longrightarrow> emits P (if b then m else n)"
  by simp

lemma emits_case_option [emits]:
  "emits P m \<Longrightarrow> (\<And>x. emits P (f x)) \<Longrightarrow> emits P (case v of None \<Rightarrow> m | Some x \<Rightarrow> f x)"
  by (cases v) simp_all

lemma emits_case_sum [emits]:
  "(\<And>x. emits P (f x)) \<Longrightarrow> (\<And>x. emits P (g x)) \<Longrightarrow> emits P (case v of Inl x \<Rightarrow> f x | Inr x \<Rightarrow> g x)"
  by (cases v) simp_all

lemma emits_case_prod [emits]: "(\<And>x y. emits P (f x y)) \<Longrightarrow> emits P (case v of (x, y) \<Rightarrow> f x y)"
  by (cases v) simp

lemma emits_case_sim [emits]:
  "(\<And>x. emits P (f x)) \<Longrightarrow> (\<And>x. emits P (g x)) \<Longrightarrow>
    emits P (case v of SimError x \<Rightarrow> f x | SimOk x \<Rightarrow> g x)"
  by (cases v) simp_all

lemma emits_case_status [emits]:
  "(\<And>x. emits P (f x)) \<Longrightarrow> (\<And>x. emits P (g x)) \<Longrightarrow> (\<And>x. emits P (h x)) \<Longrightarrow>
    emits P (case v of TxSuccess x \<Rightarrow> f x | TxFailed x \<Rightarrow> g x | TxOther x \<Rightarrow> h x)"
  by (cases v) simp_all

lemma emits_io_map: "(\<And>x. emits P (f x)) \<Longrightarrow> emits P (io_map f xs)"
  by (induction xs) (auto intro!: emits)

lemma emits_mono: "emits P m \<Longrightarrow> (\<And>e. P e \<Longrightarrow> Q e) \<Longrightarrow> emits Q m"
  unfolding emits_def by (metis list_all_iff)

text \<open>Evaluation of a computation step by step.\<close>

named_theorems io_run "running the primitive computations in a world"

lemma andThen_Inl: "m w = (Inl e, w') \<Longrightarrow> andThen m f w = (Inl e, w')"
  and andThen_Inr: "m w = (Inr x, w') \<Longrightarrow> andThen m f w = f x w'"
  and io_catch_Inl: "m w = (Inl e, w') \<Longrightarrow> io_catch m g w = g e w'"
  and io_catch_Inr: "m w = (Inr x, w') \<Longrightarrow> io_catch m g w = (Inr x, w')"
  by (simp_all add: andThen_def io_catch_def)

lemma andThen_Inr_iff:
  "andThen m f w = (Inr y, w'') \<longleftrightarrow> (\<exists>x w'. m w = (Inr x, w') \<and> f x w' = (Inr y, w''))"
  by (auto simp: andThen_def split: prod.splits sum.splits)

lemma io_return_run [io_run]: "io_return x w = (Inr x, w)"
  and io_throw_run [io_run]: "io_throw e w = (Inl e, w)"
  and io_lift_run [io_run]: "io_lift r w = (r, w)"
  and emit_run [io_run]: "emit ef w = (Inr (), w\<lparr>w_log := w_log w @ [ef]\<rparr>)"
  and request_run [io_run]: "request ef a w = (a (w_log w), w\<lparr>w_log := w_log w @ [ef]\<rparr>)"
  and sleep_run [io_run]: "sleep ms w = (Inr (), w\<lparr>w_log := w_log w @ [Sleep ms]\<rparr>)"
  by (simp_all add: io_return_def io_throw_def io_lift_def emit_def request_def sleep_def)

end
