(* ===== verification/Machine.thy ===== *)
theory Machine
  imports Prelude
begin

text \<open>
  Event-driven components. JavaScript runs one handler at a time to completion, so a component is a
  state and a relation \<open>step s e s'\<close>: handling the event \<open>e\<close> in state \<open>s\<close> leaves state \<open>s'\<close>. An
  execution is a list of events, one handler after the other, in any order the environment likes.

  The locales state the contracts the components of the development instantiate: an invariant every
  handler keeps, and a measure that the handlers of the events of a kind decrease, with a state
  reached in which none of them is left.
\<close>

inductive exec :: "('s \<Rightarrow> 'e \<Rightarrow> 's \<Rightarrow> bool) \<Rightarrow> 's \<Rightarrow> 'e list \<Rightarrow> 's \<Rightarrow> bool"
  for step where
  exec_Nil: "exec step s [] s"
| exec_Cons: "step s e s' \<Longrightarrow> exec step s' es s'' \<Longrightarrow> exec step s (e # es) s''"

inductive_simps exec_Nil_iff [simp]: "exec step s [] s'"
inductive_simps exec_Cons_iff [simp]: "exec step s (e # es) s''"

lemma exec_append:
  "exec step s (es @ fs) s'' \<longleftrightarrow> (\<exists>s'. exec step s es s' \<and> exec step s' fs s'')"
  by (induction es arbitrary: s) auto

locale machine =
  fixes initial :: "'s \<Rightarrow> bool"
    and step :: "'s \<Rightarrow> 'e \<Rightarrow> 's \<Rightarrow> bool"
    and inv :: "'s \<Rightarrow> bool"
  assumes initial_inv: "initial s \<Longrightarrow> inv s"
    and step_inv: "inv s \<Longrightarrow> step s e s' \<Longrightarrow> inv s'"
begin

lemma exec_inv: "exec step s es s' \<Longrightarrow> inv s \<Longrightarrow> inv s'"
  by (induction rule: exec.induct) (auto intro: step_inv)

lemma reachable_inv: "initial s \<Longrightarrow> exec step s es s' \<Longrightarrow> inv s'"
  by (blast intro: exec_inv initial_inv)

end

text \<open>Properties that, once true, no handler ends.\<close>

locale stable_machine =
  fixes step :: "'s \<Rightarrow> 'e \<Rightarrow> 's \<Rightarrow> bool" and stable :: "'s \<Rightarrow> bool"
  assumes stable_step: "stable s \<Longrightarrow> step s e s' \<Longrightarrow> stable s'"
begin

lemma exec_stable: "exec step s es s' \<Longrightarrow> stable s \<Longrightarrow> stable s'"
  by (induction rule: exec.induct) (auto intro: stable_step)

end

text \<open>Machines whose own events (as opposed to new requests) bring them to rest.\<close>

locale draining_machine = machine initial step inv
  for initial :: "'s \<Rightarrow> bool" and step :: "'s \<Rightarrow> 'e \<Rightarrow> 's \<Rightarrow> bool" and inv :: "'s \<Rightarrow> bool" +
  fixes drains :: "'e \<Rightarrow> bool" and rank :: "'s \<Rightarrow> nat" and rest :: "'s \<Rightarrow> bool"
  assumes drain_decreases: "inv s \<Longrightarrow> drains e \<Longrightarrow> step s e s' \<Longrightarrow> rank s' < rank s"
    and drain_progress: "inv s \<Longrightarrow> \<not> rest s \<Longrightarrow> \<exists>e s'. drains e \<and> step s e s'"
begin

lemma drain_bound:
  "exec step s es s' \<Longrightarrow> inv s \<Longrightarrow> list_all drains es \<Longrightarrow> length es + rank s' \<le> rank s"
proof (induction rule: exec.induct)
  case (exec_Cons s e s' es s'')
  then show ?case
    using drain_decreases [of s e s'] step_inv [of s e s'] by fastforce
qed simp

lemma drains_to_rest: "inv s \<Longrightarrow> \<exists>es s'. exec step s es s' \<and> list_all drains es \<and> rest s'"
proof (induction "rank s" arbitrary: s rule: less_induct)
  case less
  show ?case
  proof (cases "rest s")
    case True
    then show ?thesis by (intro exI [of _ "[]"] exI [of _ s]) (auto intro: exec.intros)
  next
    case False
    then obtain e s' where e: "drains e" "step s e s'"
      using drain_progress less.prems by blast
    with less.prems obtain es s'' where "exec step s' es s''" "list_all drains es" "rest s''"
      using less.hyps [of s'] drain_decreases step_inv by meson
    with e show ?thesis
      by (intro exI [of _ "e # es"] exI [of _ s'']) (auto intro: exec.intros)
  qed
qed

end

end
