(* ===== verification/Utils.thy ===== *)
theory Utils
  imports Rpc Machine
begin

text \<open>
  Models \<open>sdk/src/utils.ts\<close>: retries with exponential backoff, polling for the outcome of a
  transaction, address validation, the connection probe, credential identifiers and the worker pool
  \<open>runConcurrent\<close>. The two loops are characterised completely: which attempt ends them, with what
  result, and the exact sequence of requests and delays they add to the log.
\<close>

section \<open>Retries\<close>

definition isTransientError :: "thrown \<Rightarrow> bool" where
  "isTransientError err = (case err of
     SdkThrown e \<Rightarrow> False
   | _ \<Rightarrow> if \<not> is_error err then False else
      (let msg = to_lower (err_message err) in
       str_includes msg ''503'' \<or> str_includes msg ''timeout'' \<or> str_includes msg ''network'' \<or>
       str_includes msg ''econnreset'' \<or> str_includes msg ''econnrefused'' \<or>
       str_includes msg ''fetch failed''))"

fun retry_loop :: "'a io \<Rightarrow> nat \<Rightarrow> rat \<Rightarrow> nat \<Rightarrow> 'a io" where
  "retry_loop fn attempt baseDelayMs 0 = io_catch fn io_throw"
| "retry_loop fn attempt baseDelayMs (Suc left) = io_catch fn (\<lambda>err.
     if \<not> isTransientError err then io_throw err
     else andThen (sleep (baseDelayMs * 2 ^ attempt))
            (\<lambda>_. retry_loop fn (attempt + 1) baseDelayMs left))"

definition retryWithBackoff :: "'a io \<Rightarrow> nat \<Rightarrow> rat \<Rightarrow> 'a io" where
  "retryWithBackoff fn maxRetries baseDelayMs = retry_loop fn 0 baseDelayMs maxRetries"

text \<open>The call with the default budget, as every client makes it.\<close>

definition retry_default :: "'a io \<Rightarrow> 'a io" where
  "retry_default fn = retryWithBackoff fn 3 500"

lemma emits_retry_loop: "emits P fn \<Longrightarrow> (\<And>ms. P (Sleep ms)) \<Longrightarrow> emits P (retry_loop fn i b n)"
  by (induction fn i b n rule: retry_loop.induct) (auto intro!: emits)

lemma emits_retry [emits]: "emits P fn \<Longrightarrow> (\<And>ms. P (Sleep ms)) \<Longrightarrow> emits P (retryWithBackoff fn n b)"
  and emits_retry_default [emits]: "emits P fn \<Longrightarrow> (\<And>ms. P (Sleep ms)) \<Longrightarrow> emits P (retry_default fn)"
  by (auto simp: retryWithBackoff_def retry_default_def intro!: emits_retry_loop)

text \<open>The world in which attempt \<open>k\<close> runs when all attempts before it failed transiently.\<close>

fun retry_world :: "'a io \<Rightarrow> rat \<Rightarrow> world \<Rightarrow> nat \<Rightarrow> world" where
  "retry_world fn b w 0 = w"
| "retry_world fn b w (Suc k) = (let w' = snd (fn (retry_world fn b w k))
     in w'\<lparr>w_log := w_log w' @ [Sleep (b * 2 ^ k)]\<rparr>)"

definition fails_transiently :: "(thrown + 'a) \<Rightarrow> bool" where
  "fails_transiently r = (case r of Inl e \<Rightarrow> isTransientError e | Inr x \<Rightarrow> False)"

lemma retry_loop_run:
  "\<exists>k \<le> n. (\<forall>j < k. fails_transiently (fst (fn (retry_world fn b w (i + j))))) \<and>
    retry_loop fn i b n (retry_world fn b w i) = fn (retry_world fn b w (i + k)) \<and>
    (k < n \<longrightarrow> \<not> fails_transiently (fst (fn (retry_world fn b w (i + k)))))"
proof (induction n arbitrary: i)
  case 0
  show ?case by (auto simp: io_catch_def io_throw_def split: prod.split sum.split)
next
  case (Suc n)
  let ?w = "retry_world fn b w i"
  obtain r w' where r: "fn ?w = (r, w')" by (cases "fn ?w")
  show ?case
  proof (cases "fails_transiently r")
    case False
    then have "retry_loop fn i b (Suc n) ?w = fn ?w"
      using r by (auto simp: io_run io_catch_def fails_transiently_def split: sum.splits)
    then show ?thesis using False r by (intro exI [of _ 0]) simp
  next
    case True
    then have "retry_loop fn i b (Suc n) ?w = retry_loop fn (Suc i) b n (retry_world fn b w (Suc i))"
      using r by (auto simp: io_run io_catch_def fails_transiently_def andThen_def Let_def split: sum.splits)
    moreover obtain k where k: "k \<le> n" "\<forall>j < k. fails_transiently (fst (fn (retry_world fn b w (Suc i + j))))"
        "retry_loop fn (Suc i) b n (retry_world fn b w (Suc i)) = fn (retry_world fn b w (Suc i + k))"
        "k < n \<longrightarrow> \<not> fails_transiently (fst (fn (retry_world fn b w (Suc i + k))))"
      using Suc.IH [of "Suc i"] by blast
    moreover have "fails_transiently (fst (fn (retry_world fn b w (i + j))))" if "j < Suc k" for j
      using that k(2) True r by (cases j) auto
    ultimately show ?thesis by (intro exI [of _ "Suc k"]) simp
  qed
qed

section \<open>Polling for the outcome of a transaction\<close>

record poll_options =
  po_maxRetries :: "nat option"
  po_retryIntervalMs :: "rat option"
  po_maxAttempts :: "nat option"
  po_intervalMs :: "rat option"
  po_exponentialBackoff :: "bool option"

text \<open>\<open>a ?? b\<close> on optional fields.\<close>

fun orElse :: "'a option \<Rightarrow> 'a option \<Rightarrow> 'a option" where
  "orElse (Some x) y = Some x"
| "orElse None y = y"

definition opt_or :: "'a option \<Rightarrow> 'a \<Rightarrow> 'a" where
  "opt_or x d = (case x of Some v \<Rightarrow> v | None \<Rightarrow> d)"

lemma opt_or_simps [simp]: "opt_or (Some v) d = v" "opt_or None d = d"
  by (simp_all add: opt_or_def)

definition timeout_error :: "nat \<Rightarrow> thrown" where
  "timeout_error n = sdk_throw (''Transaction confirmation timed out after ''
     @ nat_to_string n @ '' retries'') TIMEOUT"

definition failed_error :: "string option \<Rightarrow> thrown" where
  "failed_error xdr = sdk_throw (''Transaction failed on-chain: ''
     @ (case xdr of Some x \<Rightarrow> if x = [] then ''unknown error'' else x | None \<Rightarrow> ''unknown error''))
     CONTRACT_ERROR"

text \<open>
  The loop, with \<open>left\<close> attempts to go. \<open>getTx\<close> is \<open>server.getTransaction(hash)\<close>.
\<close>

fun poll_loop :: "tx_status io \<Rightarrow> bool \<Rightarrow> rat \<Rightarrow> nat \<Rightarrow> nat \<Rightarrow> unit io" where
  "poll_loop getTx expo intervalMs maxRetries 0 = io_throw (timeout_error maxRetries)"
| "poll_loop getTx expo intervalMs maxRetries (Suc left) = andThen getTx (\<lambda>status. case status of
     TxSuccess rv \<Rightarrow> io_return ()
   | TxFailed xdr \<Rightarrow> io_throw (failed_error xdr)
   | TxOther s \<Rightarrow>
       if left > 0 then
         andThen (sleep intervalMs) (\<lambda>_.
           poll_loop getTx expo (if expo then intervalMs * 2 else intervalMs) maxRetries left)
       else poll_loop getTx expo intervalMs maxRetries left)"

definition pollTransactionStatus :: "tx_status io \<Rightarrow> poll_options option \<Rightarrow> unit io" where
  "pollTransactionStatus getTx options =
     (let o1 = (case options of None \<Rightarrow> None | Some po \<Rightarrow> orElse (po_maxRetries po) (po_maxAttempts po));
          o2 = (case options of None \<Rightarrow> None | Some po \<Rightarrow> po_exponentialBackoff po);
          o3 = (case options of None \<Rightarrow> None | Some po \<Rightarrow> orElse (po_retryIntervalMs po) (po_intervalMs po))
      in poll_loop getTx (opt_or o2 False) (opt_or o3 2000) (opt_or o1 15) (opt_or o1 15))"

lemma emits_poll_loop: "emits P g \<Longrightarrow> (\<And>ms. P (Sleep ms)) \<Longrightarrow> emits P (poll_loop g x i m n)"
  by (induction g x i m n rule: poll_loop.induct) (auto intro!: emits)

lemma emits_poll [emits]: "emits P g \<Longrightarrow> (\<And>ms. P (Sleep ms)) \<Longrightarrow> emits P (pollTransactionStatus g po)"
  by (simp add: pollTransactionStatus_def Let_def emits_poll_loop)

declare poll_loop.simps [simp del]

text \<open>The delays before attempts 1, 2, ...: constant or doubling.\<close>

definition poll_delay :: "bool \<Rightarrow> rat \<Rightarrow> nat \<Rightarrow> rat" where
  "poll_delay expo i k = (if expo then i * 2 ^ k else i)"

text \<open>What \<open>k\<close> inconclusive attempts and the delays after them add to the log.\<close>

fun poll_trace :: "effect \<Rightarrow> bool \<Rightarrow> rat \<Rightarrow> nat \<Rightarrow> effect list" where
  "poll_trace e expo i 0 = []"
| "poll_trace e expo i (Suc k) = poll_trace e expo i k @ [e, Sleep (poll_delay expo i k)]"

definition add_log :: "world \<Rightarrow> effect list \<Rightarrow> world" where
  "add_log w es = w\<lparr>w_log := w_log w @ es\<rparr>"

lemma add_log_simps [simp]:
  "add_log w [] = w" "add_log (add_log w es) fs = add_log w (es @ fs)"
  "w_log (add_log w es) = w_log w @ es"
  by (simp_all add: add_log_def)

definition inconclusive :: "thrown + tx_status \<Rightarrow> bool" where
  "inconclusive r = (case r of Inr (TxOther s) \<Rightarrow> True | _ \<Rightarrow> False)"

text \<open>The outcome a conclusive answer means.\<close>

definition poll_outcome :: "thrown + tx_status \<Rightarrow> thrown + unit" where
  "poll_outcome r = (case r of
     Inl e \<Rightarrow> Inl e
   | Inr (TxSuccess rv) \<Rightarrow> Inr ()
   | Inr (TxFailed xdr) \<Rightarrow> Inl (failed_error xdr)
   | Inr (TxOther s) \<Rightarrow> Inr ())"

lemma poll_trace_Cons:
  "[e, Sleep (poll_delay x i 0)] @ poll_trace e x (poll_delay x i 1) k = poll_trace e x i (Suc k)"
proof (induction k)
  case 0
  show ?case by simp
next
  case (Suc k)
  have "poll_delay x (poll_delay x i 1) k = poll_delay x i (Suc k)"
    by (simp add: poll_delay_def)
  with Suc show ?case by simp
qed

text \<open>The answer to attempt \<open>k\<close> when all attempts before it were inconclusive.\<close>

definition poll_answer ::
    "(effect list \<Rightarrow> thrown + tx_status) \<Rightarrow> effect \<Rightarrow> bool \<Rightarrow> rat \<Rightarrow> world \<Rightarrow> nat \<Rightarrow> thrown + tx_status" where
  "poll_answer answer e expo i w k = answer (w_log w @ poll_trace e expo i k)"

lemma poll_loop_conclusive:
  "\<not> inconclusive (poll_answer answer e x i w 0) \<Longrightarrow> poll_loop (request e answer) x i m (Suc n) w
    = (poll_outcome (poll_answer answer e x i w 0), add_log w [e])"
  by (auto simp: poll_loop.simps io_run poll_answer_def inconclusive_def poll_outcome_def andThen_def add_log_def
      split: sum.splits tx_status.splits)

lemma poll_loop_inconclusive:
  "inconclusive (poll_answer answer e x i w 0) \<Longrightarrow> poll_loop (request e answer) x i m (Suc (Suc n)) w
    = poll_loop (request e answer) x (poll_delay x i 1) m (Suc n) (add_log w [e, Sleep i])"
  by (auto simp: poll_loop.simps io_run poll_answer_def inconclusive_def andThen_def add_log_def poll_delay_def
      split: sum.splits tx_status.splits)

lemma poll_loop_last:
  "inconclusive (poll_answer answer e x i w 0) \<Longrightarrow> poll_loop (request e answer) x i m (Suc 0) w
    = (Inl (timeout_error m), add_log w [e])"
  by (auto simp: poll_loop.simps io_run poll_answer_def inconclusive_def andThen_def add_log_def
      split: sum.splits tx_status.splits)

lemma poll_loop_run:
  "(\<forall>k \<le> n. inconclusive (poll_answer answer e x i w k)) \<and>
      poll_loop (request e answer) x i m (Suc n) w
        = (Inl (timeout_error m), add_log w (poll_trace e x i n @ [e])) \<or>
    (\<exists>k \<le> n. (\<forall>j < k. inconclusive (poll_answer answer e x i w j)) \<and> \<not> inconclusive (poll_answer answer e x i w k) \<and>
      poll_loop (request e answer) x i m (Suc n) w
        = (poll_outcome (poll_answer answer e x i w k), add_log w (poll_trace e x i k @ [e])))"
proof (induction n arbitrary: i w)
  case 0
  show ?case
    using poll_loop_last [of answer e x i w m] poll_loop_conclusive [of answer e x i w m 0]
    by simp blast
next
  case (Suc n)
  show ?case
  proof (cases "inconclusive (poll_answer answer e x i w 0)")
    case False
    then show ?thesis
      using poll_loop_conclusive [OF False, of m "Suc n"] by (intro disjI2 exI [of _ 0]) simp
  next
    case True
    let ?i = "poll_delay x i 1" and ?w = "add_log w [e, Sleep i]"
    have step: "poll_loop (request e answer) x i m (Suc (Suc n)) w
        = poll_loop (request e answer) x ?i m (Suc n) ?w"
      by (rule poll_loop_inconclusive [OF True])
    have tr: "[e, Sleep i] @ poll_trace e x ?i k = poll_trace e x i (Suc k)" for k
      using poll_trace_Cons [of e x i k] by (cases x) (simp_all add: poll_delay_def)
    have ans: "poll_answer answer e x ?i ?w k = poll_answer answer e x i w (Suc k)" for k
      unfolding poll_answer_def using tr [of k] by simp
    have log: "add_log ?w (poll_trace e x ?i k @ [e]) = add_log w (poll_trace e x i (Suc k) @ [e])" for k
      unfolding tr [of k, symmetric] by simp
    from Suc.IH [of ?i ?w] show ?thesis
    proof
      assume a: "(\<forall>k\<le>n. inconclusive (poll_answer answer e x ?i ?w k)) \<and>
        poll_loop (request e answer) x ?i m (Suc n) ?w
          = (Inl (timeout_error m), add_log ?w (poll_trace e x ?i n @ [e]))"
      have "inconclusive (poll_answer answer e x i w k)" if "k \<le> Suc n" for k
        using that a True ans by (cases k) auto
      then show ?thesis using a step log by simp
    next
      assume "\<exists>k\<le>n. (\<forall>j<k. inconclusive (poll_answer answer e x ?i ?w j)) \<and> \<not> inconclusive (poll_answer answer e x ?i ?w k) \<and>
        poll_loop (request e answer) x ?i m (Suc n) ?w
          = (poll_outcome (poll_answer answer e x ?i ?w k), add_log ?w (poll_trace e x ?i k @ [e]))"
      then obtain k where k: "k \<le> n" "\<forall>j<k. inconclusive (poll_answer answer e x ?i ?w j)" "\<not> inconclusive (poll_answer answer e x ?i ?w k)"
        "poll_loop (request e answer) x ?i m (Suc n) ?w
          = (poll_outcome (poll_answer answer e x ?i ?w k), add_log ?w (poll_trace e x ?i k @ [e]))" by blast
      have "inconclusive (poll_answer answer e x i w j)" if "j < Suc k" for j
        using that k(2) True ans by (cases j) auto
      then show ?thesis
        using k ans step log by (intro disjI2 exI [of _ "Suc k"]) simp
    qed
  qed
qed

section \<open>Addresses, probes and identifiers\<close>

definition validateStellarAddress :: "env \<Rightarrow> string \<Rightarrow> thrown + unit" where
  "validateStellarAddress env address =
     (if e_isValidKey env address then Inr ()
      else Inl (sdk_throw (''InvalidAddress: \"'' @ address @ ''\" is not a valid Stellar address'')
        INVALID_ADDRESS))"

definition checkConnection :: "unit io \<Rightarrow> bool io" where
  "checkConnection getLatestLedger =
     io_catch (andThen getLatestLedger (\<lambda>_. io_return True)) (\<lambda>_. io_return False)"

datatype CredentialType = Kyc | ReputationType | Achievement | Custom

definition type_tag :: "CredentialType \<Rightarrow> byte" where
  "type_tag t = (case t of Kyc \<Rightarrow> 0 | ReputationType \<Rightarrow> 1 | Achievement \<Rightarrow> 2 | Custom \<Rightarrow> 3)"

text \<open>
  \<open>xdr\<close> is the XDR encoding of an address and \<open>h\<close> the hash, both of the Stellar SDK.
\<close>

definition computeCredentialId ::
    "(string \<Rightarrow> byte list) \<Rightarrow> (byte list \<Rightarrow> byte list) \<Rightarrow> string \<Rightarrow> string \<Rightarrow> CredentialType \<Rightarrow> string" where
  "computeCredentialId xdr h issuer subject credentialType =
     to_hex (h (xdr issuer @ xdr subject @ [type_tag credentialType]))"

section \<open>The worker pool\<close>

text \<open>
  \<open>runConcurrent\<close> as a machine. A worker is waiting for the call of one item, or has ended (it found no
  item left, or its call was rejected). \<open>Promise.all\<close> settles when all workers have ended, or at the
  first rejection; the other workers then go on.
\<close>

datatype worker = Busy nat | Ended

record 'b pool =
  pl_next :: nat
  pl_results :: "'b option list"
  pl_workers :: "worker list"
  pl_outcome :: "(thrown + 'b option list) option"
  pl_calls :: "nat list"

text \<open>A worker runs its loop up to the next \<open>await\<close>: it takes an item, or ends.\<close>

definition worker_step :: "nat \<Rightarrow> nat \<Rightarrow> 'b pool \<Rightarrow> 'b pool" where
  "worker_step n k p =
     (if pl_next p < n
      then p\<lparr>pl_next := pl_next p + 1, pl_workers := (pl_workers p)[k := Busy (pl_next p)],
             pl_calls := pl_calls p @ [pl_next p]\<rparr>
      else p\<lparr>pl_workers := (pl_workers p)[k := Ended]\<rparr>)"

text \<open>\<open>await Promise.all(workers); return results\<close>\<close>

definition pool_settle :: "'b pool \<Rightarrow> 'b pool" where
  "pool_settle p = (if pl_outcome p = None \<and> list_all (\<lambda>w. w = Ended) (pl_workers p)
     then p\<lparr>pl_outcome := Some (Inr (pl_results p))\<rparr> else p)"

definition runConcurrent :: "nat \<Rightarrow> nat \<Rightarrow> 'b pool" where
  "runConcurrent n concurrency =
     (let m = min concurrency n;
          p = \<lparr>pl_next = 0, pl_results = replicate n None, pl_workers = replicate m Ended,
               pl_outcome = None, pl_calls = []\<rparr>
      in pool_settle (fold (worker_step n) [0..<m] p))"

text \<open>The call of the item worker \<open>k\<close> waits for is settled.\<close>

definition pool_settles :: "nat \<Rightarrow> nat \<Rightarrow> thrown + 'b \<Rightarrow> 'b pool \<Rightarrow> 'b pool" where
  "pool_settles n k r p = (case pl_workers p ! k of
     Ended \<Rightarrow> p
   | Busy i \<Rightarrow> (case r of
       Inl e \<Rightarrow> p\<lparr>pl_workers := (pl_workers p)[k := Ended],
                 pl_outcome := (if pl_outcome p = None then Some (Inl e) else pl_outcome p)\<rparr>
     | Inr v \<Rightarrow> pool_settle (worker_step n k (p\<lparr>pl_results := (pl_results p)[i := Some v]\<rparr>))))"

text \<open>The calls of the mapper are answered by \<open>f\<close>; only the order in which they settle varies.\<close>

inductive pool_step :: "nat \<Rightarrow> (nat \<Rightarrow> thrown + 'b) \<Rightarrow> 'b pool \<Rightarrow> nat \<Rightarrow> 'b pool \<Rightarrow> bool"
  for n f where
  "k < length (pl_workers p) \<Longrightarrow> pl_workers p ! k = Busy i \<Longrightarrow>
    pool_step n f p k (pool_settles n k (f i) p)"

inductive_cases pool_stepE: "pool_step n f p k p'"

text \<open>All of the invariant but that an unsettled pool still has a call to wait for.\<close>

definition pool_core :: "nat \<Rightarrow> nat \<Rightarrow> (nat \<Rightarrow> thrown + 'b) \<Rightarrow> 'b pool \<Rightarrow> bool" where
  "pool_core n c f p =
     (pl_calls p = [0..<pl_next p] \<and> pl_next p \<le> n \<and>
      length (pl_workers p) = min c n \<and> length (pl_results p) = n \<and>
      (\<forall>i. Busy i \<in> set (pl_workers p) \<longrightarrow> i < pl_next p) \<and>
      (\<forall>i < n. \<forall>v. pl_results p ! i = Some v \<longrightarrow> f i = Inr v) \<and>
      (\<forall>i < pl_next p. Busy i \<in> set (pl_workers p) \<or> pl_results p ! i \<noteq> None \<or> pl_outcome p \<noteq> None) \<and>
      (pl_outcome p = None \<and> Ended \<in> set (pl_workers p) \<longrightarrow> pl_next p = n) \<and>
      (\<forall>e. pl_outcome p = Some (Inl e) \<longrightarrow> (\<exists>i < n. f i = Inl e)) \<and>
      (\<forall>rs. pl_outcome p = Some (Inr rs) \<longrightarrow> set (pl_workers p) \<subseteq> {Ended} \<and> pl_next p = n \<and>
         length rs = n \<and> (\<forall>i < n. \<exists>v. f i = Inr v \<and> rs ! i = Some v)))"

definition pool_inv :: "nat \<Rightarrow> nat \<Rightarrow> (nat \<Rightarrow> thrown + 'b) \<Rightarrow> 'b pool \<Rightarrow> bool" where
  "pool_inv n c f p = (pool_core n c f p \<and> (pl_outcome p = None \<longrightarrow> (\<exists>i. Busy i \<in> set (pl_workers p))))"

lemma all_ended_iff: "list_all (\<lambda>w. w = Ended) ws \<longleftrightarrow> \<not> (\<exists>i. Busy i \<in> set ws)"
proof -
  have "w = Ended \<longleftrightarrow> \<not> (\<exists>i. w = Busy i)" for w by (cases w) auto
  then show ?thesis unfolding list_all_iff by blast
qed

lemma pool_settle_inv:
  assumes core: "pool_core n c f p" and "0 < c"
  shows "pool_inv n c f (pool_settle p)"
proof (cases "pl_outcome p = None \<and> list_all (\<lambda>w. w = Ended) (pl_workers p)")
  case False
  then show ?thesis using core by (auto simp: pool_settle_def pool_inv_def all_ended_iff)
next
  case True
  then have none: "\<not> (\<exists>i. Busy i \<in> set (pl_workers p))" by (simp add: all_ended_iff)
  have ended: "set (pl_workers p) \<subseteq> {Ended}" using True by (auto simp: list_all_iff)
  have nx: "pl_next p = n"
  proof (cases "n = 0")
    case False
    moreover have "length (pl_workers p) = min c n" using core by (simp add: pool_core_def)
    ultimately have "pl_workers p \<noteq> []" using assms(2) by auto
    then have "Ended \<in> set (pl_workers p)" using ended by (cases "pl_workers p") auto
    then show ?thesis using core True by (simp add: pool_core_def)
  qed (use core in \<open>simp add: pool_core_def\<close>)
  have "\<exists>v. f i = Inr v \<and> pl_results p ! i = Some v" if "i < n" for i
    using that core True none nx unfolding pool_core_def by auto
  then show ?thesis
    using core True ended nx unfolding pool_inv_def pool_core_def pool_settle_def by simp
qed

lemma pool_coreD:
  assumes "pool_core n c f p"
  shows "pl_calls p = [0..<pl_next p]" "pl_next p \<le> n" "length (pl_workers p) = min c n"
    "length (pl_results p) = n" "Busy i \<in> set (pl_workers p) \<Longrightarrow> i < pl_next p"
    "i < n \<Longrightarrow> pl_results p ! i = Some v \<Longrightarrow> f i = Inr v"
    "i < pl_next p \<Longrightarrow> Busy i \<in> set (pl_workers p) \<or> pl_results p ! i \<noteq> None \<or> pl_outcome p \<noteq> None"
    "pl_outcome p = None \<Longrightarrow> Ended \<in> set (pl_workers p) \<Longrightarrow> pl_next p = n"
    "pl_outcome p = Some (Inl e) \<Longrightarrow> \<exists>i < n. f i = Inl e"
    "pl_outcome p = Some (Inr rs) \<Longrightarrow> set (pl_workers p) \<subseteq> {Ended}"
    "pl_outcome p = Some (Inr rs) \<Longrightarrow> pl_next p = n \<and> length rs = n \<and>
       (\<forall>i < n. \<exists>v. f i = Inr v \<and> rs ! i = Some v)"
  using assms unfolding pool_core_def by blast+

lemma pool_busy_unresolved:
  "pool_core n c f p \<Longrightarrow> Busy i \<in> set (pl_workers p) \<Longrightarrow> pl_outcome p \<noteq> Some (Inr rs)"
  using pool_coreD(10) [of n c f p rs] by auto

lemma worker_step_core:
  assumes core: "pool_core n c f p" and k: "k < length (pl_workers p)" "pl_workers p ! k = Busy i"
    and v: "f i = Inr v"
  shows "pool_core n c f (worker_step n k (p\<lparr>pl_results := (pl_results p)[i := Some v]\<rparr>))"
proof -
  note D = pool_coreD [OF core]
  have busy: "Busy i \<in> set (pl_workers p)" using k nth_mem [OF k(1)] by simp
  then have i: "i < pl_next p" by (rule D(5))
  have keep: "Busy j \<in> set ((pl_workers p)[k := x])" if j: "Busy j \<in> set (pl_workers p)" "j \<noteq> i" for j x
  proof -
    obtain l where l: "l < length (pl_workers p)" "pl_workers p ! l = Busy j"
      using j(1) by (auto simp: in_set_conv_nth)
    then have "l \<noteq> k" using k j(2) by auto
    then have "(pl_workers p)[k := x] ! l = Busy j" using l by simp
    then show ?thesis using l(1) nth_mem [of l "(pl_workers p)[k := x]"] by simp
  qed
  have upd: "w = x \<or> w \<in> set (pl_workers p)" if "w \<in> set ((pl_workers p)[k := x])" for w x
    using that set_update_subset_insert [of "pl_workers p" k x] by blast
  have out: "pl_outcome p \<noteq> Some (Inr rs)" for rs by (rule pool_busy_unresolved [OF core busy])
  have res: "f j = Inr v'" if "j < n" "(pl_results p)[i := Some v] ! j = Some v'" for j v'
    using that v D(4) D(6) [of j v'] by (cases "j = i") simp_all
  have cov: "Busy j \<in> set ((pl_workers p)[k := x]) \<or> (pl_results p)[i := Some v] ! j \<noteq> None \<or> pl_outcome p \<noteq> None"
    if "j < pl_next p" for j x
    using that keep [of j x] D(2,4) D(7) [of j] by (cases "j = i") auto
  show ?thesis
  proof (cases "pl_next p < n")
    case True
    let ?ws = "(pl_workers p)[k := Busy (pl_next p)]"
    have new: "Busy (pl_next p) \<in> set ?ws" using k by (simp add: set_update_memI)
    have "j < pl_next p + 1" if "Busy j \<in> set ?ws" for j
      using upd [OF that] D(5) [of j] by auto
    moreover have "Busy j \<in> set ?ws \<or> (pl_results p)[i := Some v] ! j \<noteq> None \<or> pl_outcome p \<noteq> None"
      if "j < pl_next p + 1" for j
      using that cov [of j] new by (cases "j = pl_next p") auto
    moreover have "pl_outcome p = None \<and> Ended \<in> set ?ws \<longrightarrow> pl_next p + 1 = n"
      using upd [of Ended] D(8) True by auto
    ultimately show ?thesis
      using True D(1-4) D(9) res out unfolding pool_core_def worker_step_def by simp
  next
    case False
    then have n: "pl_next p = n" using D(2) by simp
    have "j < pl_next p" if "Busy j \<in> set ((pl_workers p)[k := Ended])" for j
      using upd [OF that] D(5) [of j] by auto
    then show ?thesis
      using n D(1-4) D(9) res cov out unfolding pool_core_def worker_step_def by simp
  qed
qed

lemma pool_step_inv:
  assumes inv: "pool_inv n c f p" and "0 < c" and "pool_step n f p k p'"
  shows "pool_inv n c f p'"
proof -
  obtain i where k: "p' = pool_settles n k (f i) p" "k < length (pl_workers p)" "pl_workers p ! k = Busy i"
    using assms(3) by (auto elim: pool_stepE)
  have core: "pool_core n c f p" using inv by (simp add: pool_inv_def)
  show ?thesis
  proof (cases "f i")
    case (Inr v)
    then show ?thesis
      using k pool_settle_inv [OF worker_step_core [OF core k(2,3) Inr] assms(2)]
      by (simp add: pool_settles_def)
  next
    case (Inl e)
    let ?q = "p\<lparr>pl_workers := (pl_workers p)[k := Ended],
      pl_outcome := (if pl_outcome p = None then Some (Inl e) else pl_outcome p)\<rparr>"
    have busy: "Busy i \<in> set (pl_workers p)" using k nth_mem by metis
    note D = pool_coreD [OF core]
    have i: "i < n" using D(2) D(5) [OF busy] by simp
    have out: "pl_outcome p \<noteq> Some (Inr rs)" for rs by (rule pool_busy_unresolved [OF core busy])
    have q: "Busy j \<in> set ((pl_workers p)[k := Ended]) \<Longrightarrow> j < pl_next p" for j
      using set_update_subset_insert [of "pl_workers p" k Ended] D(5) [of j] by auto
    have r: "\<exists>i < n. f i = Inl e'" if "pl_outcome ?q = Some (Inl e')" for e'
      using that i Inl D(9) [of e'] by (cases "pl_outcome p") auto
    have "pl_outcome ?q \<noteq> None" "pl_outcome ?q \<noteq> Some (Inr rs)" for rs
      using out [of rs] by (cases "pl_outcome p"; simp)+
    then have "pool_core n c f ?q"
      using D(1-4) D(6) q r unfolding pool_core_def by (cases "pl_outcome p") simp_all
    then show ?thesis using k Inl by (auto simp: pool_settles_def pool_inv_def)
  qed
qed

lemma pool_start:
  "j \<le> m \<Longrightarrow> m \<le> n \<Longrightarrow>
    fold (worker_step n) [0..<j] \<lparr>pl_next = 0, pl_results = rs, pl_workers = replicate m Ended,
      pl_outcome = None, pl_calls = []\<rparr>
    = \<lparr>pl_next = j, pl_results = rs, pl_workers = map Busy [0..<j] @ replicate (m - j) Ended,
       pl_outcome = None, pl_calls = [0..<j]\<rparr>"
proof (induction j)
  case (Suc j)
  have "(map Busy [0..<j] @ replicate (m - j) Ended)[j := Busy j]
      = map Busy [0..<Suc j] @ replicate (m - Suc j) Ended"
    using Suc.prems by (simp add: list_update_append Suc_diff_Suc [symmetric] del: upt_Suc)
      (simp add: list_update_append)
  with Suc show ?case by (simp add: worker_step_def)
qed simp

lemma runConcurrent_start:
  "runConcurrent n c = pool_settle \<lparr>pl_next = min c n, pl_results = replicate n None,
     pl_workers = map Busy [0..<min c n], pl_outcome = None, pl_calls = [0..<min c n]\<rparr>"
  by (simp add: runConcurrent_def Let_def pool_start)

lemma runConcurrent_inv: "0 < c \<Longrightarrow> pool_inv n c f (runConcurrent n c)"
  unfolding runConcurrent_start
  by (rule pool_settle_inv) (auto simp: pool_core_def)

text \<open>Calls to wait for, and items left.\<close>

definition pool_rank :: "nat \<Rightarrow> 'b pool \<Rightarrow> nat" where
  "pool_rank n p = 2 * (n - pl_next p) + length (filter (\<lambda>w. w \<noteq> Ended) (pl_workers p))"

definition pool_rest :: "'b pool \<Rightarrow> bool" where
  "pool_rest p = (\<forall>w \<in> set (pl_workers p). w = Ended)"

lemma filter_update_Ended:
  "k < length ws \<Longrightarrow> ws ! k = Busy i \<Longrightarrow>
    Suc (length (filter (\<lambda>w. w \<noteq> Ended) (ws[k := Ended]))) = length (filter (\<lambda>w. w \<noteq> Ended) ws)"
proof (induction ws arbitrary: k)
  case (Cons w ws)
  then show ?case by (cases k) auto
qed simp

lemma filter_update_Busy:
  "k < length ws \<Longrightarrow> ws ! k = Busy i \<Longrightarrow>
    length (filter (\<lambda>w. w \<noteq> Ended) (ws[k := Busy j])) = length (filter (\<lambda>w. w \<noteq> Ended) ws)"
proof (induction ws arbitrary: k)
  case (Cons w ws)
  then show ?case by (cases k) auto
qed simp

lemma pool_rank_outcome [simp]:
  "pool_rank n (p\<lparr>pl_outcome := x\<rparr>) = pool_rank n p" "pool_rank n (pool_settle p) = pool_rank n p"
  by (simp_all add: pool_rank_def pool_settle_def)

lemma pool_step_rank: "pool_step n f p k p' \<Longrightarrow> pool_rank n p' < pool_rank n p"
proof (erule pool_stepE)
  fix i
  assume a: "p' = pool_settles n k (f i) p" "k < length (pl_workers p)" "pl_workers p ! k = Busy i"
  show "pool_rank n p' < pool_rank n p"
    using a filter_update_Ended [OF a(2,3)] filter_update_Busy [OF a(2,3)]
    by (auto simp: pool_settles_def worker_step_def pool_rank_def pool_settle_def split: sum.split)
qed

interpretation pool: draining_machine "\<lambda>p. 0 < c \<and> p = runConcurrent n c" "pool_step n f"
    "\<lambda>p. 0 < c \<and> pool_inv n c f p" "\<lambda>k. True" "pool_rank n" pool_rest
  for n c :: nat and f :: "nat \<Rightarrow> thrown + 'b"
proof unfold_locales
  fix p p' :: "'b pool" and k
  show "0 < c \<and> p = runConcurrent n c \<Longrightarrow> 0 < c \<and> pool_inv n c f p"
    by (simp add: runConcurrent_inv)
  show "0 < c \<and> pool_inv n c f p \<Longrightarrow> pool_step n f p k p' \<Longrightarrow> 0 < c \<and> pool_inv n c f p'"
    using pool_step_inv by blast
  show "pool_step n f p k p' \<Longrightarrow> pool_rank n p' < pool_rank n p"
    by (rule pool_step_rank)
  show "\<not> pool_rest p \<Longrightarrow> \<exists>k p'. True \<and> pool_step n f p k p'"
  proof -
    assume "\<not> pool_rest p"
    then obtain k i where "k < length (pl_workers p)" "pl_workers p ! k = Busy i"
      unfolding pool_rest_def by (metis in_set_conv_nth worker.exhaust)
    then show ?thesis by (blast intro: pool_step.intros)
  qed
qed

section \<open>Properties\<close>

text \<open>
  \<open>retryWithBackoff\<close> runs the function at most \<open>maxRetries + 1\<close> times: attempt k starts after
  the failures of the k attempts before it, all transient, and after delays of
  \<open>baseDelayMs * 2 ^ j\<close>; the result is that of the first attempt that succeeds or fails for another
  reason, or of the last one.
\<close>

theorem retry_first_conclusive_attempt:
  "\<exists>k \<le> n. retryWithBackoff fn n b w = fn (retry_world fn b w k) \<and>
    (\<forall>j < k. \<exists>e. fst (fn (retry_world fn b w j)) = Inl e \<and> isTransientError e) \<and>
    (k < n \<longrightarrow> (\<forall>e. fst (fn (retry_world fn b w k)) = Inl e \<longrightarrow> \<not> isTransientError e))"
proof -
  have ft: "fails_transiently r \<longleftrightarrow> (\<exists>e. r = Inl e \<and> isTransientError e)" for r :: "thrown + 'a"
    by (auto simp: fails_transiently_def split: sum.split)
  obtain k where "k \<le> n" "\<forall>j < k. fails_transiently (fst (fn (retry_world fn b w (0 + j))))"
      "retry_loop fn 0 b n (retry_world fn b w 0) = fn (retry_world fn b w (0 + k))"
      "k < n \<longrightarrow> \<not> fails_transiently (fst (fn (retry_world fn b w (0 + k))))"
    using retry_loop_run [of n fn b w 0] by blast
  then show ?thesis by (intro exI [of _ k]) (auto simp: retryWithBackoff_def ft)
qed

definition flaky_call :: "unit io" where
  "flaky_call = request (GetHealth 0) (\<lambda>l. if length l < 3
     then Inl (ErrorThrown ''Error'' ''503'') else Inr ())"

definition fresh_world :: world where
  "fresh_world = \<lparr>w_log = [], w_index = 0, w_disposed = False\<rparr>"

lemma retry_first_conclusive_attempt_witness:
  "\<exists>k \<le> (3 :: nat). flaky_call (retry_world flaky_call 500 fresh_world k) = (Inr (),
     \<lparr>w_log = [GetHealth 0, Sleep 500, GetHealth 0, Sleep 1000, GetHealth 0], w_index = 0, w_disposed = False\<rparr>)"
proof -
  have w: "retryWithBackoff flaky_call 3 500 fresh_world = (Inr (),
      \<lparr>w_log = [GetHealth 0, Sleep 500, GetHealth 0, Sleep 1000, GetHealth 0], w_index = 0, w_disposed = False\<rparr>)"
    by code_simp
  from retry_first_conclusive_attempt [of 3 flaky_call 500 fresh_world]
  obtain k where "k \<le> 3" "retryWithBackoff flaky_call 3 500 fresh_world
      = flaky_call (retry_world flaky_call 500 fresh_world k)" by blast
  then show ?thesis using w by metis
qed

text \<open>
  \<open>pollTransactionStatus\<close> asks for the status at most \<open>maxRetries\<close> times with the delays of the
  options between the requests, and stops at the first conclusive answer: it returns on success,
  throws \<open>CONTRACT_ERROR\<close> on failure, rethrows an error of the request, and throws \<open>TIMEOUT\<close> when all
  answers were inconclusive. The log records exactly these requests and delays.
\<close>

theorem poll_outcome_first_conclusive:
  fixes answer :: "effect list \<Rightarrow> thrown + tx_status" and po :: poll_options
  defines "n \<equiv> opt_or (orElse (po_maxRetries po) (po_maxAttempts po)) 15"
    and "i \<equiv> opt_or (orElse (po_retryIntervalMs po) (po_intervalMs po)) 2000"
    and "x \<equiv> opt_or (po_exponentialBackoff po) False"
  shows "pollTransactionStatus (request e answer) (Some po) w =
      (if \<forall>k < n. inconclusive (poll_answer answer e x i w k) then
         (Inl (timeout_error n),
          if n = 0 then w else add_log w (poll_trace e x i (n - 1) @ [e]))
       else let k = (LEAST k. \<not> inconclusive (poll_answer answer e x i w k)) in
         (poll_outcome (poll_answer answer e x i w k), add_log w (poll_trace e x i k @ [e])))"
proof (cases n)
  case 0
  then show ?thesis
    by (simp add: pollTransactionStatus_def Let_def n_def [symmetric] i_def [symmetric]
        x_def [symmetric] poll_loop.simps io_run)
next
  case (Suc m)
  have run: "pollTransactionStatus (request e answer) (Some po) = poll_loop (request e answer) x i n (Suc m)"
    by (simp add: pollTransactionStatus_def Let_def n_def [symmetric] i_def [symmetric]
        x_def [symmetric] Suc)
  have len: "(\<forall>k < n. inconclusive (poll_answer answer e x i w k)) \<longleftrightarrow>
      (\<forall>k \<le> m. inconclusive (poll_answer answer e x i w k))"
    using Suc by (simp add: less_Suc_eq_le)
  from poll_loop_run [of m answer e x i w n] show ?thesis
  proof
    assume "(\<forall>k \<le> m. inconclusive (poll_answer answer e x i w k)) \<and>
      poll_loop (request e answer) x i n (Suc m) w = (Inl (timeout_error n), add_log w (poll_trace e x i m @ [e]))"
    then show ?thesis using run len Suc by simp
  next
    assume "\<exists>k \<le> m. (\<forall>j < k. inconclusive (poll_answer answer e x i w j)) \<and>
      \<not> inconclusive (poll_answer answer e x i w k) \<and>
      poll_loop (request e answer) x i n (Suc m) w
        = (poll_outcome (poll_answer answer e x i w k), add_log w (poll_trace e x i k @ [e]))"
    then obtain k where k: "k \<le> m" "\<forall>j < k. inconclusive (poll_answer answer e x i w j)"
      "\<not> inconclusive (poll_answer answer e x i w k)"
      "poll_loop (request e answer) x i n (Suc m) w
        = (poll_outcome (poll_answer answer e x i w k), add_log w (poll_trace e x i k @ [e]))" by blast
    then have "(LEAST k. \<not> inconclusive (poll_answer answer e x i w k)) = k"
      by (intro Least_equality) (auto simp: not_le [symmetric])
    then show ?thesis using k run len by (auto simp: Let_def)
  qed
qed

lemma poll_outcome_first_conclusive_witness:
  "pollTransactionStatus (request (GetTransaction 0 ''h'') (\<lambda>l. Inr (TxOther ''NOT_FOUND'')))
      (Some \<lparr>po_maxRetries = Some 2, po_retryIntervalMs = Some 10, po_maxAttempts = None,
         po_intervalMs = None, po_exponentialBackoff = None\<rparr>) fresh_world
    = (Inl (timeout_error 2), \<lparr>w_log = [GetTransaction 0 ''h'', Sleep 10, GetTransaction 0 ''h''],
         w_index = 0, w_disposed = False\<rparr>)"
  using poll_outcome_first_conclusive [of "GetTransaction 0 ''h''" "\<lambda>l. Inr (TxOther ''NOT_FOUND'')"
      "\<lparr>po_maxRetries = Some 2, po_retryIntervalMs = Some 10, po_maxAttempts = None,
         po_intervalMs = None, po_exponentialBackoff = None\<rparr>" fresh_world]
  by (simp add: poll_answer_def inconclusive_def poll_delay_def fresh_world_def add_log_def)

text \<open>
  C7. \<open>runConcurrent\<close> with at least one worker: it calls the mapper once for each item, in order, never
  more than \<open>concurrency\<close> at a time; whatever the order in which the calls settle, a fulfilled result
  lists the result of every item in input order, and a rejection is the error of some item. After
  finitely many settlements no call is left, and the promise is settled.
\<close>

theorem runConcurrent_correct:
  fixes f :: "nat \<Rightarrow> thrown + 'b"
  assumes "0 < c" and "exec (pool_step n f) (runConcurrent n c) es p"
  shows "pl_calls p = [0..<pl_next p] \<and> pl_next p \<le> n \<and> length (pl_workers p) \<le> c \<and>
    length es + pool_rank n p \<le> pool_rank n (runConcurrent n c :: 'b pool) \<and>
    (case pl_outcome p of
       None \<Rightarrow> \<exists>k p'. pool_step n f p k p'
     | Some (Inl e) \<Rightarrow> \<exists>i < n. f i = Inl e
     | Some (Inr rs) \<Rightarrow> length rs = n \<and> (\<forall>i < n. \<exists>v. f i = Inr v \<and> rs ! i = Some v))"
proof -
  have inv0: "0 < c \<and> pool_inv n c f (runConcurrent n c)" using assms(1) runConcurrent_inv by blast
  have inv: "pool_inv n c f p" using pool.exec_inv [OF assms(2) inv0] by simp
  then have core: "pool_core n c f p" by (simp add: pool_inv_def)
  note D = pool_coreD [OF core]
  have rank: "length es + pool_rank n p \<le> pool_rank n (runConcurrent n c :: 'b pool)"
    using pool.drain_bound [OF assms(2) inv0] by (auto simp: list_all_iff)
  have "case pl_outcome p of
       None \<Rightarrow> \<exists>k p'. pool_step n f p k p'
     | Some (Inl e) \<Rightarrow> \<exists>i < n. f i = Inl e
     | Some (Inr rs) \<Rightarrow> length rs = n \<and> (\<forall>i < n. \<exists>v. f i = Inr v \<and> rs ! i = Some v)"
  proof (cases "pl_outcome p")
    case None
    then obtain i where "Busy i \<in> set (pl_workers p)" using inv by (auto simp: pool_inv_def)
    then obtain k where "k < length (pl_workers p)" "pl_workers p ! k = Busy i"
      by (auto simp: in_set_conv_nth)
    then show ?thesis using None by (auto intro: pool_step.intros)
  next
    case (Some r)
    then show ?thesis using D(9) D(11) by (cases r) auto
  qed
  then show ?thesis using D(1-3) rank by simp
qed

lemma runConcurrent_correct_witness:
  "\<exists>p. exec (pool_step 3 (\<lambda>i. Inr (10 * i))) (runConcurrent 3 2) [1, 0, 1] p \<and>
    pl_outcome p = Some (Inr [Some 0, Some 10, Some (20 :: nat)]) \<and> pl_calls p = [0..<3]"
proof -
  let ?f = "\<lambda>i. Inr (10 * i) :: thrown + nat"
  let ?p1 = "pool_settles 3 1 (?f 1) (runConcurrent 3 2)"
  let ?p2 = "pool_settles 3 0 (?f 0) ?p1" and ?p3 = "pool_settles 3 1 (?f 2) (pool_settles 3 0 (?f 0) ?p1)"
  have step: "pool_step 3 ?f p k (pool_settles 3 k (?f i) p)"
    if "k < length (pl_workers p)" "pl_workers p ! k = Busy i" for p :: "nat pool" and k i
    using that by (rule pool_step.intros)
  have "pool_step 3 ?f (runConcurrent 3 2) 1 ?p1" by (rule step) code_simp+
  moreover have "pool_step 3 ?f ?p1 0 ?p2" by (rule step) code_simp+
  moreover have "pool_step 3 ?f ?p2 1 ?p3" by (rule step) code_simp+
  ultimately have run: "exec (pool_step 3 ?f) (runConcurrent 3 2) [1, 0, 1] ?p3"
    by (blast intro: exec_Cons exec_Nil)
  have "pl_outcome ?p3 = Some (Inr [Some 0, Some 10, Some 20])" "pl_next ?p3 = 3" by code_simp+
  then show ?thesis using runConcurrent_correct [OF _ run] run by auto
qed

text \<open>
  With a concurrency of 0 \<open>runConcurrent\<close> starts no worker: it resolves at once with an array of
  holes, without calling the mapper for any item.
\<close>

theorem runConcurrent_zero_skips_everything:
  "runConcurrent n 0 = \<lparr>pl_next = 0, pl_results = replicate n None, pl_workers = [],
     pl_outcome = Some (Inr (replicate n None)), pl_calls = []\<rparr>"
  by (simp add: runConcurrent_start pool_settle_def)

end
