(* ===== verification/ContractArgs.thy ===== *)
theory ContractArgs
  imports Utils
begin

text \<open>
  Models the encoders of \<open>sdk/src/codec.ts\<close>, the revocation reasons of \<open>sdk/src/types.ts\<close> and the argument
  builders of \<open>sdk/src/contract-args.ts\<close>: one definition per contract call, which lists the contract values in the
  order the contract takes them. \<open>nativeToScVal\<close> is code of the Stellar SDK: the environment says
  when it throws, and the value it returns is represented by its argument and type hint. A
  parameter some call site does not provide is a JavaScript value, \<open>undefined\<close> there.
\<close>

section \<open>Encoders\<close>

definition nativeToScVal :: "env \<Rightarrow> jv \<Rightarrow> string \<Rightarrow> thrown + scval" where
  "nativeToScVal env v hint = (case e_nativeToScVal env v hint of
     Some e \<Rightarrow> Inl e | None \<Rightarrow> Inr (Native v hint))"

text \<open>An array literal of such calls: evaluated from left to right.\<close>

definition scvals :: "(thrown + scval) list \<Rightarrow> thrown + scval list" where
  "scvals rs = map_result (\<lambda>r. r) rs"

definition error_class :: "string \<Rightarrow> thrown" where
  "error_class m = ErrorThrown ''Error'' m"

definition encodeAddress :: "env \<Rightarrow> string \<Rightarrow> thrown + scval" where
  "encodeAddress env address =
     (if address = [] then Inl (error_class ''encodeAddress: address must be non-empty'')
      else nativeToScVal env (JStr address) ''address'')"

definition encodeMap :: "env \<Rightarrow> jv \<Rightarrow> thrown + scval" where
  "encodeMap env m =
     (if nullish m \<or> \<not> is_object m then Inl (error_class ''encodeMap: expected a non-null object'')
      else nativeToScVal env m ''map'')"

definition encodeBytes :: "env \<Rightarrow> jv \<Rightarrow> thrown + scval" where
  "encodeBytes env v = (case v of JBytes bs \<Rightarrow> nativeToScVal env v ''bytes''
     | _ \<Rightarrow> Inl (error_class ''encodeBytes: expected a Buffer''))"

definition encodeSymbol :: "env \<Rightarrow> string \<Rightarrow> thrown + scval" where
  "encodeSymbol env value =
     (if value = [] then Inl (error_class ''encodeSymbol: value must be non-empty'')
      else nativeToScVal env (JStr value) ''symbol'')"

definition encodeU32 :: "env \<Rightarrow> jv \<Rightarrow> thrown + scval" where
  "encodeU32 env value = (case value of
     JNum q \<Rightarrow> if js_is_integer q \<and> 0 \<le> q then nativeToScVal env value ''u32''
               else Inl (error_class ''encodeU32: expected a non-negative integer'')
   | _ \<Rightarrow> Inl (error_class ''encodeU32: expected a non-negative integer''))"

definition encodeU64 :: "env \<Rightarrow> jv \<Rightarrow> thrown + scval" where
  "encodeU64 env value = (case value of
     JBig i \<Rightarrow> if i < 0 then Inl (error_class ''encodeU64: expected a non-negative integer'')
               else nativeToScVal env value ''u64''
   | JNum q \<Rightarrow> if js_is_integer q \<and> 0 \<le> q then nativeToScVal env value ''u64''
               else Inl (error_class ''encodeU64: expected a non-negative integer'')
   | _ \<Rightarrow> Inl (error_class ''encodeU64: expected a non-negative integer''))"

definition encodeI64 :: "env \<Rightarrow> jv \<Rightarrow> thrown + scval" where
  "encodeI64 env value = (case value of
     JNum q \<Rightarrow> if js_is_integer q then nativeToScVal env value ''i64''
               else Inl (error_class ''encodeI64: expected an integer'')
   | JNaN \<Rightarrow> Inl (error_class ''encodeI64: expected an integer'')
   | _ \<Rightarrow> nativeToScVal env value ''i64'')"

definition encodeString :: "env \<Rightarrow> jv \<Rightarrow> thrown + scval" where
  "encodeString env value = (case value of JStr s \<Rightarrow> nativeToScVal env value ''string''
     | _ \<Rightarrow> Inl (error_class ''encodeString: expected a string''))"

section \<open>Decoders\<close>

definition decodeDidDocument :: "env \<Rightarrow> retval \<Rightarrow> thrown + jv" where
  "decodeDidDocument env val = bind_result (e_scValToNative env val) (\<lambda>r.
     if nullish r \<or> \<not> is_object r then Inl (error_class ''decodeDidDocument: malformed ScVal'') else Inr r)"

definition decodeReputationRecord :: "env \<Rightarrow> retval \<Rightarrow> thrown + jv" where
  "decodeReputationRecord env val = bind_result (e_scValToNative env val) (\<lambda>r.
     if nullish r \<or> \<not> is_object r then Inl (error_class ''decodeReputationRecord: malformed ScVal'') else Inr r)"

definition decodeScoreHistory :: "env \<Rightarrow> retval \<Rightarrow> thrown + jv" where
  "decodeScoreHistory env val = bind_result (e_scValToNative env val) (\<lambda>r.
     case r of JArr vs \<Rightarrow> Inr r | _ \<Rightarrow> Inl (error_class ''decodeScoreHistory: expected an array''))"

definition decodeString :: "env \<Rightarrow> retval \<Rightarrow> thrown + string" where
  "decodeString env val = bind_result (e_scValToNative env val) (\<lambda>r.
     case r of JStr s \<Rightarrow> Inr s | _ \<Rightarrow> Inl (error_class ''decodeString: expected a string''))"

definition decodeBoolean :: "env \<Rightarrow> retval \<Rightarrow> thrown + bool" where
  "decodeBoolean env val = bind_result (e_scValToNative env val) (\<lambda>r.
     case r of JBool b \<Rightarrow> Inr b | _ \<Rightarrow> Inl (error_class ''decodeBoolean: expected a boolean''))"

definition decodeCredentialId :: "env \<Rightarrow> retval \<Rightarrow> thrown + byte list" where
  "decodeCredentialId env val = bind_result (e_scValToNative env val) (\<lambda>r.
     case r of JBytes bs \<Rightarrow> Inr bs | _ \<Rightarrow> Inl (error_class ''decodeCredentialId: expected Uint8Array''))"

definition decodeCredentialIdList :: "env \<Rightarrow> retval \<Rightarrow> thrown + jv" where
  "decodeCredentialIdList env val = bind_result (e_scValToNative env val) (\<lambda>r.
     case r of JArr vs \<Rightarrow> Inr r | _ \<Rightarrow> Inl (error_class ''decodeCredentialIdList: expected an array''))"

text \<open>\<open>Number.MAX_SAFE_INTEGER\<close> and the timestamp conversion of \<open>decodeCredential\<close>.\<close>

definition max_safe_integer :: int where
  "max_safe_integer = 2 ^ 53 - 1"

text \<open>\<open>Number(v)\<close> of what is neither a number nor a big integer; an array or object is taken for \<open>NaN\<close>.\<close>

definition js_to_number :: "jv \<Rightarrow> jv" where
  "js_to_number v = (case v of
     JNum q \<Rightarrow> v | JBig i \<Rightarrow> JNum (of_int i) | JNull \<Rightarrow> JNum 0
   | JBool b \<Rightarrow> JNum (if b then 1 else 0)
   | JStr s \<Rightarrow> (case js_number s of Some q \<Rightarrow> JNum q | None \<Rightarrow> JNaN)
   | _ \<Rightarrow> JNaN)"

definition toSafeTimestamp :: "jv \<Rightarrow> jv" where
  "toSafeTimestamp v = (case v of
     JBig i \<Rightarrow> if i \<le> 0 then JNum 0
               else if i > max_safe_integer then JNum (of_int max_safe_integer) else JNum (of_int i)
   | JNum q \<Rightarrow> if q < 0 then JNum (q + 4294967296) else v
   | JNaN \<Rightarrow> v
   | _ \<Rightarrow> js_to_number (js_coalesce v (JNum 0)))"

definition VALID_CREDENTIAL_TYPES :: "string list" where
  "VALID_CREDENTIAL_TYPES = [''Kyc'', ''Reputation'', ''Achievement'', ''Custom'']"

definition assertCredentialType :: "jv \<Rightarrow> thrown + jv" where
  "assertCredentialType value =
     (if (case value of JStr s \<Rightarrow> s \<in> set VALID_CREDENTIAL_TYPES | _ \<Rightarrow> False) then Inr value
      else Inl (ErrorThrown ''UnknownCredentialTypeError''
        (''UnknownCredentialTypeError: unexpected credential type \"'' @ js_string value @ ''\"'')))"

text \<open>\<open>{...credential, k: v, ...}\<close>\<close>

definition spread :: "(string \<times> jv) list \<Rightarrow> (string \<times> jv) list \<Rightarrow> jv" where
  "spread m upd = JObj (foldl (\<lambda>m (k, v). jm_set k v m) m upd)"

definition decodeCredential :: "env \<Rightarrow> retval \<Rightarrow> thrown + jv" where
  "decodeCredential env val = bind_result (e_scValToNative env val) (\<lambda>r.
     case r of
       JObj m \<Rightarrow> (let fld = (\<lambda>k. case jm_get m k of Some v \<Rightarrow> v | None \<Rightarrow> JUndef);
                     ts = (\<lambda>a b. toSafeTimestamp (js_coalesce (fld a) (fld b)))
         in bind_result (assertCredentialType (js_coalesce (fld ''credentialType'') (fld ''credential_type'')))
              (\<lambda>ct. Inr (spread m [
                (''issuedAt'', ts ''issuedAt'' ''issued_at''),
                (''expiresAt'', ts ''expiresAt'' ''expires_at''),
                (''activationTime'', ts ''activationTime'' ''activation_time''),
                (''lastModifiedAt'', ts ''lastModifiedAt'' ''last_modified_at''),
                (''credentialType'', ct)])))
     | _ \<Rightarrow> Inl (error_class ''decodeCredential: malformed ScVal''))"

section \<open>Revocation reasons\<close>

definition REVOCATION_REASONS :: "string list" where
  "REVOCATION_REASONS = [''Compromised'', ''Expired'', ''Superseded'', ''Lost'', ''AdminRevoked'']"

definition isRevocationReason :: "jv \<Rightarrow> bool" where
  "isRevocationReason value = (case value of JStr s \<Rightarrow> s \<in> set REVOCATION_REASONS | _ \<Rightarrow> False)"

text \<open>\<open>s.replace(/[\s_-]+/g, "")\<close>\<close>

definition compact :: "string \<Rightarrow> string" where
  "compact s = filter (\<lambda>c. \<not> (js_space c \<or> c = CHR ''_'' \<or> c = CHR ''-'')) s"

definition normalizeRevocationReason :: "jv \<Rightarrow> string option" where
  "normalizeRevocationReason value = (case value of
     JStr s \<Rightarrow> if isRevocationReason value then Some s
       else (let k = compact (to_lower (js_trim s)) in
         if k = [] then None
         else find (\<lambda>reason. compact (to_lower reason) = k) REVOCATION_REASONS)
   | _ \<Rightarrow> None)"

definition encodeRevocationReason :: "jv \<Rightarrow> thrown + scval" where
  "encodeRevocationReason reason =
     (if \<not> isRevocationReason reason then
        Inl (sdk_throw (''Unknown revocation reason '' @ js_string reason @ '' - expected one of ''
          @ join '', '' REVOCATION_REASONS) INVALID_ARGUMENT)
      else Inr (ScvVec [ScvSymbol (js_string reason)]))"

text \<open>A list parameter mapped to a contract vector.\<close>

definition scv_list :: "env \<Rightarrow> string \<Rightarrow> jv list \<Rightarrow> thrown + scval" where
  "scv_list env hint vs = bind_result (map_result (\<lambda>v. nativeToScVal env v hint) vs) (\<lambda>xs. Inr (ScvVec xs))"

text \<open>The same for a parameter that need not be an array: \<open>params.xs.map(...)\<close>.\<close>

definition scv_vec :: "env \<Rightarrow> string \<Rightarrow> jv \<Rightarrow> thrown + scval" where
  "scv_vec env hint v = bind_result (js_map (\<lambda>x. nativeToScVal env x hint) v) (\<lambda>xs. Inr (ScvVec xs))"

text \<open>A string-to-string object parameter.\<close>

definition str_map :: "(string \<times> string) list \<Rightarrow> jv" where
  "str_map m = JObj (map (\<lambda>(k, v). (k, JStr v)) m)"

section \<open>Argument builders\<close>

definition buildCreateDidArgs :: "env \<Rightarrow> string \<Rightarrow> ((string \<times> string) list) \<Rightarrow> thrown + scval list" where
  "buildCreateDidArgs env controller metadata = scvals [
     nativeToScVal env (JStr controller) ''address'',
     nativeToScVal env (str_map metadata) ''map'']"

definition buildUpdateDidArgs :: "env \<Rightarrow> string \<Rightarrow> ((string \<times> string) list) \<Rightarrow> thrown + scval list" where
  "buildUpdateDidArgs env controller metadata = scvals [
     nativeToScVal env (JStr controller) ''address'',
     nativeToScVal env (str_map metadata) ''map'']"

definition buildResolveDidArgs :: "env \<Rightarrow> string \<Rightarrow> thrown + scval list" where
  "buildResolveDidArgs env controller = scvals [
     nativeToScVal env (JStr controller) ''address'']"

definition buildHasActiveDidArgs :: "env \<Rightarrow> string \<Rightarrow> thrown + scval list" where
  "buildHasActiveDidArgs env controller = scvals [
     nativeToScVal env (JStr controller) ''address'']"

definition buildDeactivateDidArgs :: "env \<Rightarrow> string \<Rightarrow> thrown + scval list" where
  "buildDeactivateDidArgs env controller = scvals [
     nativeToScVal env (JStr controller) ''address'']"

definition buildDidExistsArgs :: "env \<Rightarrow> string \<Rightarrow> thrown + scval list" where
  "buildDidExistsArgs env controller = scvals [
     nativeToScVal env (JStr controller) ''address'']"

definition buildRevokeCredentialArgs :: "env \<Rightarrow> string \<Rightarrow> (byte list) \<Rightarrow> jv \<Rightarrow> thrown + scval list" where
  "buildRevokeCredentialArgs env issuer credentialId reason = scvals [
     nativeToScVal env (JStr issuer) ''address'',
     nativeToScVal env (JBytes credentialId) ''bytes'',
     encodeRevocationReason reason]"

definition buildGetRevocationRecordArgs :: "env \<Rightarrow> (byte list) \<Rightarrow> thrown + scval list" where
  "buildGetRevocationRecordArgs env credentialId = scvals [
     nativeToScVal env (JBytes credentialId) ''bytes'']"

definition buildRevokeBatchArgs :: "env \<Rightarrow> string \<Rightarrow> (byte list list) \<Rightarrow> jv \<Rightarrow> thrown + scval list" where
  "buildRevokeBatchArgs env issuer credentialIds reason = scvals [
     nativeToScVal env (JStr issuer) ''address'',
     scv_list env ''bytes'' (map JBytes credentialIds),
     encodeRevocationReason reason]"

definition buildRenewCredentialArgs :: "env \<Rightarrow> string \<Rightarrow> (byte list) \<Rightarrow> jv \<Rightarrow> thrown + scval list" where
  "buildRenewCredentialArgs env issuer credentialId newExpiresAt = scvals [
     nativeToScVal env (JStr issuer) ''address'',
     nativeToScVal env (JBytes credentialId) ''bytes'',
     encodeU64 env newExpiresAt]"

definition buildVerifyCredentialArgs :: "env \<Rightarrow> (byte list) \<Rightarrow> thrown + scval list" where
  "buildVerifyCredentialArgs env credentialId = scvals [
     nativeToScVal env (JBytes credentialId) ''bytes'']"

definition buildGetCredentialArgs :: "env \<Rightarrow> (byte list) \<Rightarrow> thrown + scval list" where
  "buildGetCredentialArgs env credentialId = scvals [
     nativeToScVal env (JBytes credentialId) ''bytes'']"

definition buildGetSubjectCredentialsArgs :: "env \<Rightarrow> string \<Rightarrow> thrown + scval list" where
  "buildGetSubjectCredentialsArgs env subject = scvals [
     nativeToScVal env (JStr subject) ''address'']"

definition buildIsIssuerArgs :: "env \<Rightarrow> string \<Rightarrow> thrown + scval list" where
  "buildIsIssuerArgs env address = scvals [
     nativeToScVal env (JStr address) ''address'']"

definition buildGetCredentialCountArgs :: "env \<Rightarrow> string \<Rightarrow> thrown + scval list" where
  "buildGetCredentialCountArgs env subject = scvals [
     nativeToScVal env (JStr subject) ''address'']"

definition buildListSubjectCredentialsArgs :: "env \<Rightarrow> string \<Rightarrow> scval \<Rightarrow> jv \<Rightarrow> scval \<Rightarrow> thrown + scval list" where
  "buildListSubjectCredentialsArgs env subject cursor limit filt = scvals [
     nativeToScVal env (JStr subject) ''address'',
     Inr cursor,
     nativeToScVal env limit ''u32'',
     Inr filt]"

definition buildListIssuersArgs :: "env \<Rightarrow> scval \<Rightarrow> jv \<Rightarrow> thrown + scval list" where
  "buildListIssuersArgs env cursor limit = scvals [
     Inr cursor,
     nativeToScVal env limit ''u32'']"

definition buildGetIssuerCredentialsArgs :: "env \<Rightarrow> string \<Rightarrow> thrown + scval list" where
  "buildGetIssuerCredentialsArgs env issuer = scvals [
     nativeToScVal env (JStr issuer) ''address'']"

definition buildListIssuerCredentialsArgs :: "env \<Rightarrow> string \<Rightarrow> scval \<Rightarrow> jv \<Rightarrow> thrown + scval list" where
  "buildListIssuerCredentialsArgs env issuer cursor limit = scvals [
     nativeToScVal env (JStr issuer) ''address'',
     Inr cursor,
     nativeToScVal env limit ''u32'']"

definition buildGetRevocationsArgs :: "env \<Rightarrow> string \<Rightarrow> string \<Rightarrow> thrown + scval list" where
  "buildGetRevocationsArgs env issuer subject = scvals [
     nativeToScVal env (JStr issuer) ''address'',
     nativeToScVal env (JStr subject) ''address'']"

definition buildCancelActivationArgs :: "env \<Rightarrow> string \<Rightarrow> (byte list) \<Rightarrow> thrown + scval list" where
  "buildCancelActivationArgs env issuer credentialId = scvals [
     nativeToScVal env (JStr issuer) ''address'',
     nativeToScVal env (JBytes credentialId) ''bytes'']"

definition buildGetPendingActivationsArgs :: "env \<Rightarrow> string \<Rightarrow> thrown + scval list" where
  "buildGetPendingActivationsArgs env subject = scvals [
     nativeToScVal env (JStr subject) ''address'']"

definition buildRegisterOracleArgs :: "env \<Rightarrow> jv \<Rightarrow> jv \<Rightarrow> jv \<Rightarrow> jv \<Rightarrow> thrown + scval list" where
  "buildRegisterOracleArgs env oracle feedId decimals description = scvals [
     nativeToScVal env oracle ''address'',
     nativeToScVal env feedId ''symbol'',
     nativeToScVal env decimals ''u32'',
     nativeToScVal env description ''string'']"

definition buildSetFeedSchemaArgs :: "env \<Rightarrow> jv \<Rightarrow> jv \<Rightarrow> jv \<Rightarrow> thrown + scval list" where
  "buildSetFeedSchemaArgs env feedId schemaHash fieldNames = scvals [
     nativeToScVal env feedId ''symbol'',
     nativeToScVal env schemaHash ''bytes'',
     scv_vec env ''string'' fieldNames]"

definition buildSetOracleFeeArgs :: "env \<Rightarrow> jv \<Rightarrow> jv \<Rightarrow> jv \<Rightarrow> thrown + scval list" where
  "buildSetOracleFeeArgs env feedId fee asset = scvals [
     nativeToScVal env feedId ''symbol'',
     encodeI64 env fee,
     nativeToScVal env asset ''address'']"

definition buildSetFallbackOraclesArgs :: "env \<Rightarrow> jv \<Rightarrow> jv \<Rightarrow> thrown + scval list" where
  "buildSetFallbackOraclesArgs env feedId oracles = scvals [
     nativeToScVal env feedId ''symbol'',
     scv_vec env ''address'' oracles]"

definition buildRequestOffchainDataArgs :: "env \<Rightarrow> jv \<Rightarrow> jv \<Rightarrow> jv \<Rightarrow> jv \<Rightarrow> thrown + scval list" where
  "buildRequestOffchainDataArgs env requester feedId requestParams maxStaleness = scvals [
     nativeToScVal env requester ''address'',
     nativeToScVal env feedId ''symbol'',
     nativeToScVal env requestParams ''map'',
     encodeU64 env maxStaleness]"

definition buildOracleCallbackArgs :: "env \<Rightarrow> jv \<Rightarrow> jv \<Rightarrow> jv \<Rightarrow> jv \<Rightarrow> jv \<Rightarrow> thrown + scval list" where
  "buildOracleCallbackArgs env requestId oracle value timestamp signature = scvals [
     nativeToScVal env requestId ''bytes'',
     nativeToScVal env oracle ''address'',
     nativeToScVal env value ''bytes'',
     encodeU64 env timestamp,
     nativeToScVal env signature ''bytes'']"

definition buildRegisterTemplateArgs :: "env \<Rightarrow> jv \<Rightarrow> jv \<Rightarrow> jv \<Rightarrow> jv \<Rightarrow> thrown + scval list" where
  "buildRegisterTemplateArgs env issuer templateId schemaHash rules = scvals [
     nativeToScVal env issuer ''address'',
     nativeToScVal env templateId ''symbol'',
     nativeToScVal env schemaHash ''bytes'',
     nativeToScVal env rules ''map'']"

definition buildPublishTemplateVersionArgs :: "env \<Rightarrow> jv \<Rightarrow> jv \<Rightarrow> jv \<Rightarrow> jv \<Rightarrow> thrown + scval list" where
  "buildPublishTemplateVersionArgs env issuer templateId version schemaHash = scvals [
     nativeToScVal env issuer ''address'',
     nativeToScVal env templateId ''symbol'',
     nativeToScVal env version ''u32'',
     nativeToScVal env schemaHash ''bytes'']"

definition buildValidateAgainstTemplateArgs :: "env \<Rightarrow> jv \<Rightarrow> jv \<Rightarrow> jv \<Rightarrow> thrown + scval list" where
  "buildValidateAgainstTemplateArgs env templateId version claims = scvals [
     nativeToScVal env templateId ''symbol'',
     nativeToScVal env version ''u32'',
     nativeToScVal env claims ''map'']"

definition buildListTemplateForSaleArgs :: "env \<Rightarrow> jv \<Rightarrow> jv \<Rightarrow> jv \<Rightarrow> jv \<Rightarrow> thrown + scval list" where
  "buildListTemplateForSaleArgs env issuer templateId price asset = scvals [
     nativeToScVal env issuer ''address'',
     nativeToScVal env templateId ''symbol'',
     encodeI64 env price,
     nativeToScVal env asset ''address'']"

definition buildBuyTemplateArgs :: "env \<Rightarrow> jv \<Rightarrow> jv \<Rightarrow> thrown + scval list" where
  "buildBuyTemplateArgs env buyer templateId = scvals [
     nativeToScVal env buyer ''address'',
     nativeToScVal env templateId ''symbol'']"

definition buildSetSignersArgs :: "env \<Rightarrow> jv \<Rightarrow> jv \<Rightarrow> jv \<Rightarrow> thrown + scval list" where
  "buildSetSignersArgs env account signers threshold = scvals [
     nativeToScVal env account ''address'',
     scv_vec env ''address'' signers,
     nativeToScVal env threshold ''u32'']"

definition buildUpdateSignersArgs :: "env \<Rightarrow> jv \<Rightarrow> jv \<Rightarrow> jv \<Rightarrow> jv \<Rightarrow> thrown + scval list" where
  "buildUpdateSignersArgs env account signers weights threshold = scvals [
     nativeToScVal env account ''address'',
     scv_vec env ''address'' signers,
     scv_vec env ''u32'' weights,
     nativeToScVal env threshold ''u32'']"

definition buildValidateThresholdArgs :: "env \<Rightarrow> jv \<Rightarrow> jv \<Rightarrow> jv \<Rightarrow> thrown + scval list" where
  "buildValidateThresholdArgs env account operationHash signatures = scvals [
     nativeToScVal env account ''address'',
     nativeToScVal env operationHash ''bytes'',
     scv_vec env ''bytes'' signatures]"

definition buildAggregateSignaturesArgs :: "env \<Rightarrow> jv \<Rightarrow> jv \<Rightarrow> jv \<Rightarrow> thrown + scval list" where
  "buildAggregateSignaturesArgs env account operationHash signatures = scvals [
     nativeToScVal env account ''address'',
     nativeToScVal env operationHash ''bytes'',
     scv_vec env ''bytes'' signatures]"

definition buildInitiateSignerRotationArgs :: "env \<Rightarrow> jv \<Rightarrow> jv \<Rightarrow> jv \<Rightarrow> thrown + scval list" where
  "buildInitiateSignerRotationArgs env account newSigners newThreshold = scvals [
     nativeToScVal env account ''address'',
     scv_vec env ''address'' newSigners,
     nativeToScVal env newThreshold ''u32'']"

definition buildApproveSignerRotationArgs :: "env \<Rightarrow> jv \<Rightarrow> jv \<Rightarrow> thrown + scval list" where
  "buildApproveSignerRotationArgs env account signer = scvals [
     nativeToScVal env account ''address'',
     nativeToScVal env signer ''address'']"

definition buildCompleteSignerRotationArgs :: "env \<Rightarrow> jv \<Rightarrow> thrown + scval list" where
  "buildCompleteSignerRotationArgs env account = scvals [
     nativeToScVal env account ''address'']"

definition buildRegisterDidMethodArgs :: "env \<Rightarrow> jv \<Rightarrow> jv \<Rightarrow> jv \<Rightarrow> thrown + scval list" where
  "buildRegisterDidMethodArgs env method resolver description = scvals [
     nativeToScVal env method ''symbol'',
     nativeToScVal env resolver ''address'',
     nativeToScVal env description ''string'']"

definition buildResolveDidStringArgs :: "env \<Rightarrow> jv \<Rightarrow> thrown + scval list" where
  "buildResolveDidStringArgs env did = scvals [
     nativeToScVal env did ''string'']"

definition buildGetReputationArgs :: "env \<Rightarrow> string \<Rightarrow> thrown + scval list" where
  "buildGetReputationArgs env subject = scvals [
     nativeToScVal env (JStr subject) ''address'']"

definition buildPassesSybilCheckDefaultArgs :: "env \<Rightarrow> string \<Rightarrow> thrown + scval list" where
  "buildPassesSybilCheckDefaultArgs env subject = scvals [
     nativeToScVal env (JStr subject) ''address'']"

definition buildPassesSybilCheckArgs :: "env \<Rightarrow> string \<Rightarrow> jv \<Rightarrow> jv \<Rightarrow> thrown + scval list" where
  "buildPassesSybilCheckArgs env subject minScore minReporters = scvals [
     nativeToScVal env (JStr subject) ''address'',
     encodeI64 env minScore,
     nativeToScVal env minReporters ''u32'']"

definition buildSubmitScoreArgs :: "env \<Rightarrow> string \<Rightarrow> string \<Rightarrow> jv \<Rightarrow> string \<Rightarrow> thrown + scval list" where
  "buildSubmitScoreArgs env reporter subject delta reason = scvals [
     nativeToScVal env (JStr reporter) ''address'',
     nativeToScVal env (JStr subject) ''address'',
     encodeI64 env delta,
     nativeToScVal env (JStr reason) ''string'']"

definition buildListReportersArgs :: "env \<Rightarrow> scval \<Rightarrow> jv \<Rightarrow> thrown + scval list" where
  "buildListReportersArgs env cursor limit = scvals [
     Inr cursor,
     nativeToScVal env limit ''u32'']"

definition buildListHistoryArgs :: "env \<Rightarrow> string \<Rightarrow> string \<Rightarrow> scval \<Rightarrow> jv \<Rightarrow> thrown + scval list" where
  "buildListHistoryArgs env subject reporter cursor limit = scvals [
     nativeToScVal env (JStr subject) ''address'',
     nativeToScVal env (JStr reporter) ''address'',
     Inr cursor,
     nativeToScVal env limit ''u32'']"

text \<open>Builders with a case distinction, or that evaluate something before the array.\<close>

definition buildIssueCredentialArgs :: "env \<Rightarrow> string \<Rightarrow> string \<Rightarrow> string \<Rightarrow> (string \<times> string) list \<Rightarrow>
    byte list \<Rightarrow> byte list \<Rightarrow> jv \<Rightarrow> byte list option \<Rightarrow> jv option \<Rightarrow> thrown + scval list" where
  "buildIssueCredentialArgs env issuer subject credentialType claims claimsHash signature expiresAt schemaHash
      activationTime =
     bind_result (encodeU64 env expiresAt) (\<lambda>ea.
     bind_result (encodeU64 env (opt_or activationTime (JBig 0))) (\<lambda>act.
     bind_result (case schemaHash of
         Some bs \<Rightarrow> nativeToScVal env (JBytes bs) ''bytes'' | None \<Rightarrow> Inr ScvVoid) (\<lambda>sh.
     scvals [
       nativeToScVal env (JStr issuer) ''address'',
       nativeToScVal env (JStr subject) ''address'',
       nativeToScVal env (JStr credentialType) ''symbol'',
       nativeToScVal env (str_map claims) ''map'',
       nativeToScVal env (JBytes claimsHash) ''bytes'',
       nativeToScVal env (JBytes signature) ''bytes'',
       Inr ea, Inr sh, Inr act])))"

definition reason_value :: "env \<Rightarrow> jv \<Rightarrow> thrown + scval" where
  "reason_value env reason = (case reason of
     JNum q \<Rightarrow> nativeToScVal env reason ''u32''
   | JNaN \<Rightarrow> nativeToScVal env reason ''u32''
   | _ \<Rightarrow> encodeRevocationReason reason)"

definition buildRevokeCredentialWithReasonArgs :: "env \<Rightarrow> string \<Rightarrow> byte list \<Rightarrow> jv \<Rightarrow> thrown + scval list" where
  "buildRevokeCredentialWithReasonArgs env issuer credentialId reason =
     bind_result (reason_value env reason) (\<lambda>rv. scvals [
       nativeToScVal env (JStr issuer) ''address'',
       nativeToScVal env (JBytes credentialId) ''bytes'',
       Inr rv])"

definition buildGetRevokedByReasonArgs :: "env \<Rightarrow> jv \<Rightarrow> thrown + scval list" where
  "buildGetRevokedByReasonArgs env reason = bind_result (reason_value env reason) (\<lambda>rv. Inr [rv])"

text \<open>An optional \<open>u64\<close>: \<open>{ Some: v }\<close> or \<open>null\<close>.\<close>

definition option_u64 :: "env \<Rightarrow> jv option \<Rightarrow> thrown + scval" where
  "option_u64 env v = (case v of
     Some x \<Rightarrow> nativeToScVal env (JObj [(''Some'', x)]) ''Some:u64''
   | None \<Rightarrow> nativeToScVal env JNull ''option'')"

definition buildGetHistoryArgs :: "env \<Rightarrow> string \<Rightarrow> string \<Rightarrow> jv \<Rightarrow> jv \<Rightarrow> jv option \<Rightarrow> jv option \<Rightarrow>
    thrown + scval list" where
  "buildGetHistoryArgs env subject reporter offset limit fromTimestamp toTimestamp = scvals [
     nativeToScVal env (JStr subject) ''address'',
     nativeToScVal env (JStr reporter) ''address'',
     nativeToScVal env offset ''u32'',
     nativeToScVal env limit ''u32'',
     option_u64 env fromTimestamp,
     option_u64 env toTimestamp]"

definition strip_0x :: "string \<Rightarrow> string" where
  "strip_0x s = (if starts_with s ''0x'' then drop 2 s else s)"

definition buildGetMerkleRootArgs :: "env \<Rightarrow> string \<Rightarrow> thrown + scval list" where
  "buildGetMerkleRootArgs env batchId = scvals [
     nativeToScVal env (JBytes (from_hex (strip_0x batchId))) ''bytes'']"

definition buildUpdateMerkleRootArgs :: "env \<Rightarrow> string \<Rightarrow> string \<Rightarrow> byte list \<Rightarrow> jv \<Rightarrow> thrown + scval list" where
  "buildUpdateMerkleRootArgs env issuer batchId newRoot proof' = scvals [
     nativeToScVal env (JStr issuer) ''address'',
     nativeToScVal env (JBytes (from_hex (strip_0x batchId))) ''bytes'',
     nativeToScVal env (JBytes newRoot) ''bytes'']"

definition buildVerifyMerkleProofArgs :: "env \<Rightarrow> string \<Rightarrow> jv \<Rightarrow> thrown + scval list" where
  "buildVerifyMerkleProofArgs env batchId proof' = scvals [
     nativeToScVal env (JBytes (from_hex (strip_0x batchId))) ''bytes'']"

section \<open>Properties\<close>

lemma js_space_lower [simp]: "js_space (lower_char c) \<longleftrightarrow> js_space c"
  by (auto simp: js_space_def char_code_lower)

lemma compact_dropWhile: "compact (to_lower (dropWhile js_space s)) = compact (to_lower s)"
  by (induction s) (auto simp: compact_def to_lower_def)

lemma compact_rev: "compact (to_lower (rev s)) = rev (compact (to_lower s))"
  by (simp add: compact_def to_lower_def rev_map [symmetric] rev_filter)

lemma compact_trim: "compact (to_lower (js_trim s)) = compact (to_lower s)"
  unfolding js_trim_def by (metis compact_dropWhile compact_rev rev_rev_ident)

lemma reasons_compact:
  "map (\<lambda>r. compact (to_lower r)) REVOCATION_REASONS = [''compromised'', ''expired'', ''superseded'', ''lost'', ''adminrevoked'']"
  by code_simp

lemma reasons_inj: "inj_on (\<lambda>r. compact (to_lower r)) (set REVOCATION_REASONS)"
proof -
  have "distinct (map (\<lambda>r. compact (to_lower r)) REVOCATION_REASONS)" unfolding reasons_compact by simp
  then show ?thesis by (simp add: distinct_map)
qed

lemma reason_compact_nonempty: "r \<in> set REVOCATION_REASONS \<Longrightarrow> compact (to_lower r) \<noteq> []"
proof -
  assume "r \<in> set REVOCATION_REASONS"
  then have "compact (to_lower r) \<in> set (map (\<lambda>r. compact (to_lower r)) REVOCATION_REASONS)" by simp
  then show ?thesis unfolding reasons_compact by auto
qed

lemma find_unique:
  "inj_on f (set xs) \<Longrightarrow> find (\<lambda>x. f x = k) xs = Some y \<longleftrightarrow> y \<in> set xs \<and> f y = k"
  by (induction xs) (auto simp: inj_on_def)

text \<open>
  \<open>normalizeRevocationReason\<close> maps a string to a reason exactly when both are spelled alike up to
  letter case, white space, underscores and dashes, and \<open>encodeRevocationReason\<close> accepts every reason
  it returns and nothing but the reasons.
\<close>

theorem normalizeRevocationReason_spec:
  "(normalizeRevocationReason (JStr s) = Some r \<longleftrightarrow>
      r \<in> set REVOCATION_REASONS \<and> compact (to_lower s) = compact (to_lower r)) \<and>
   ((\<exists>v. encodeRevocationReason (JStr r) = Inr v) \<longleftrightarrow> r \<in> set REVOCATION_REASONS)"
proof -
  have "normalizeRevocationReason (JStr s) = Some r \<longleftrightarrow>
      r \<in> set REVOCATION_REASONS \<and> compact (to_lower s) = compact (to_lower r)"
  proof (cases "s \<in> set REVOCATION_REASONS")
    case True
    then show ?thesis
      using reasons_inj by (auto simp: normalizeRevocationReason_def isRevocationReason_def inj_on_def)
  next
    case False
    then show ?thesis
      using reason_compact_nonempty [of r] find_unique [OF reasons_inj, of "compact (to_lower s)" r]
      by (auto simp: normalizeRevocationReason_def isRevocationReason_def compact_trim Let_def)
  qed
  then show ?thesis by (auto simp: encodeRevocationReason_def isRevocationReason_def)
qed

text \<open>
  The timestamps of a decoded credential: a big integer becomes a number between 0 and
  \<open>Number.MAX_SAFE_INTEGER\<close>, itself when it is in that range, and the conversion keeps the order.
\<close>

theorem toSafeTimestamp_bounds:
  "\<exists>x y. toSafeTimestamp (JBig a) = JNum (of_int x) \<and> toSafeTimestamp (JBig b) = JNum (of_int y) \<and>
    0 \<le> x \<and> x \<le> max_safe_integer \<and> (0 \<le> a \<and> a \<le> max_safe_integer \<longrightarrow> x = a) \<and> (a \<le> b \<longrightarrow> x \<le> y)"
proof -
  have t: "toSafeTimestamp (JBig i) = JNum (of_int (max 0 (min i max_safe_integer)))" for i
    by (auto simp: toSafeTimestamp_def max_def min_def max_safe_integer_def)
  show ?thesis unfolding t
    by (intro exI [of _ "max 0 (min a max_safe_integer)"] exI [of _ "max 0 (min b max_safe_integer)"])
      (auto simp: max_safe_integer_def)
qed

lemma toSafeTimestamp_bounds_witness:
  "toSafeTimestamp (JBig (-3)) = JNum 0 \<and> toSafeTimestamp (JBig 1700000000) = JNum 1700000000 \<and>
   (\<exists>y. toSafeTimestamp (JBig (2 ^ 63)) = JNum (of_int y) \<and> 1700000000 \<le> y)"
proof -
  have "toSafeTimestamp (JBig (-3)) = JNum 0" "toSafeTimestamp (JBig 1700000000) = JNum 1700000000"
    by (simp_all add: toSafeTimestamp_def max_safe_integer_def)
  then show ?thesis
    using toSafeTimestamp_bounds [of 1700000000 "2 ^ 63"] by (auto simp: max_safe_integer_def)
qed

end
