(* ===== verification/RequestQueue.thy ===== *)
theory RequestQueue
  imports SdkErrors Machine JsNumber "HOL-Library.Multiset"
begin

text \<open>
  Models \<open>sdk/src/request-queue.ts\<close>: a queue that starts at most \<open>maxConcurrent\<close> requests at a time and
  retries the ones that fail with a rate limit or a transient error.

  A request is a promise-returning function of the caller. What it returns and when is up to the
  environment, so the queue is a machine whose events are the calls of \<open>enqueue\<close> and \<open>dispose\<close>, the
  settling of a running request, the \<open>finally\<close> callback that runs some time after it, and the expiry
  of a retry timer. Two logs that the code does not keep, of the settled promises and of the calls
  of \<open>fn\<close>, state what a caller observes.
\<close>

section \<open>Errors\<close>

text \<open>The headers of an HTTP response: a fetch \<open>Headers\<close> object, or a plain object.\<close>

datatype headers = FetchHeaders "(string, string) jsmap" | PlainHeaders "(string, string) jsmap"

record rq_error =
  rq_thrown :: thrown
  response_headers :: "headers option"
  own_headers :: "headers option"

definition extractRetryAfterHeader :: "rq_error \<Rightarrow> string option" where
  "extractRetryAfterHeader error =
     (case (case response_headers error of Some h \<Rightarrow> Some h | None \<Rightarrow> own_headers error) of
        None \<Rightarrow> None
      | Some (FetchHeaders m) \<Rightarrow> jm_get m ''retry-after''
      | Some (PlainHeaders m) \<Rightarrow> (case jm_get m ''retry-after'' of
            Some v \<Rightarrow> Some v | None \<Rightarrow> jm_get m ''Retry-After''))"

definition is429 :: "rq_error \<Rightarrow> bool" where
  "is429 error = (let errorStr = err_string (rq_thrown error) in
     str_includes errorStr ''429'' \<or> str_includes errorStr ''Too Many Requests'')"

section \<open>State\<close>

record queued_request =
  req_id :: nat
  retries :: nat
  maxRetries :: nat

datatype 'v settlement = Resolved 'v | Rejected thrown

record 'v rq =
  queue :: "queued_request list"
  activeRequests :: int
  maxConcurrent :: int
  retryDelay :: rat
  processing :: bool
  rq_disposed :: bool
  running :: "queued_request list"
  finishing :: "nat list"
  timers :: "(queued_request \<times> rat) list"
  settled :: "(queued_request \<times> 'v settlement) list"
  started :: "nat list"
  next_id :: nat

definition new_rq :: "int \<Rightarrow> rat \<Rightarrow> 'v rq" where
  "new_rq maxConc delay = \<lparr>queue = [], activeRequests = 0, maxConcurrent = maxConc, retryDelay = delay,
     processing = False, rq_disposed = False, running = [], finishing = [], timers = [], settled = [],
     started = [], next_id = 0\<rparr>"

definition shouldRetry :: "rq_error \<Rightarrow> queued_request \<Rightarrow> bool" where
  "shouldRetry error request =
     (if retries request \<ge> maxRetries request then False
      else let errorStr = err_string (rq_thrown error) in
        str_includes errorStr ''429'' \<or> str_includes errorStr ''Too Many Requests'' \<or>
        str_includes errorStr ''ECONNRESET'' \<or> str_includes errorStr ''ETIMEDOUT'' \<or>
        str_includes errorStr ''503'')"

definition getRetryDelay :: "'v rq \<Rightarrow> rq_error \<Rightarrow> nat \<Rightarrow> rat" where
  "getRetryDelay s error n =
     (case (case extractRetryAfterHeader error of None \<Rightarrow> None | Some h \<Rightarrow> js_number h) of
        Some seconds \<Rightarrow> seconds * 1000
      | None \<Rightarrow> retryDelay s * 2 ^ min 3 n)"

section \<open>Handlers\<close>

text \<open>The \<open>while\<close> loop of \<open>processQueue\<close>, which calls \<open>executeRequest\<close> up to its first \<open>await\<close>.\<close>

function rq_loop :: "'v rq \<Rightarrow> 'v rq" where
  "rq_loop s = (case queue s of
     [] \<Rightarrow> s
   | request # rest \<Rightarrow>
       if activeRequests s < maxConcurrent s then
         rq_loop (s\<lparr>queue := rest, activeRequests := activeRequests s + 1,
           running := running s @ [request], started := started s @ [req_id request]\<rparr>)
       else s)"
  by pat_completeness auto
termination
  by (relation "measure (\<lambda>s. length (queue s))") auto

declare rq_loop.simps [simp del]

definition processQueue :: "'v rq \<Rightarrow> 'v rq" where
  "processQueue s =
     (if processing s \<or> activeRequests s \<ge> maxConcurrent s \<or> queue s = [] then s
      else (rq_loop (s\<lparr>processing := True\<rparr>))\<lparr>processing := False\<rparr>)"

definition enqueue :: "nat \<Rightarrow> 'v rq \<Rightarrow> 'v rq" where
  "enqueue mr s =
     (let request = \<lparr>req_id = next_id s, retries = 0, maxRetries = mr\<rparr>;
          s = s\<lparr>next_id := next_id s + 1\<rparr>
      in if rq_disposed s then s\<lparr>settled := settled s @ [(request, Rejected DisposedThrown)]\<rparr>
         else processQueue (s\<lparr>queue := queue s @ [request]\<rparr>))"

definition rq_dispose :: "'v rq \<Rightarrow> 'v rq" where
  "rq_dispose s =
     (if rq_disposed s then s
      else s\<lparr>rq_disposed := True, queue := [],
             settled := settled s @ map (\<lambda>r. (r, Rejected DisposedThrown)) (queue s)\<rparr>)"

text \<open>\<open>executeRequest\<close> once \<open>request.fn()\<close> has settled.\<close>

definition executeRequest :: "queued_request \<Rightarrow> rq_error + 'v \<Rightarrow> 'v rq \<Rightarrow> 'v rq" where
  "executeRequest request res s =
     (let s = s\<lparr>running := remove1 request (running s), finishing := finishing s @ [req_id request]\<rparr>
      in case res of
        Inr result \<Rightarrow> s\<lparr>settled := settled s @ [(request, Resolved result)]\<rparr>
      | Inl error \<Rightarrow>
          if shouldRetry error request then
            s\<lparr>timers := timers s @ [(request\<lparr>retries := retries request + 1\<rparr>,
                                    getRetryDelay s error (retries request))]\<rparr>
          else if is429 error then
            s\<lparr>settled := settled s @ [(request,
                Rejected (RateLimitThrown (getRetryDelay s error (retries request))))]\<rparr>
          else s\<lparr>settled := settled s @ [(request, Rejected (rq_thrown error))]\<rparr>)"

text \<open>The callback of \<open>finally\<close>.\<close>

definition rq_finally :: "nat \<Rightarrow> 'v rq \<Rightarrow> 'v rq" where
  "rq_finally i s = processQueue (s\<lparr>finishing := remove1 i (finishing s),
     activeRequests := activeRequests s - 1\<rparr>)"

text \<open>The callback of the retry timer.\<close>

definition rq_timer :: "queued_request \<times> rat \<Rightarrow> 'v rq \<Rightarrow> 'v rq" where
  "rq_timer t s = processQueue (s\<lparr>timers := remove1 t (timers s), queue := fst t # queue s\<rparr>)"

datatype 'v rq_event =
    Enqueue nat
  | Settles queued_request "rq_error + 'v"
  | Finally nat
  | Timer "queued_request \<times> rat"
  | Dispose

inductive rq_step :: "'v rq \<Rightarrow> 'v rq_event \<Rightarrow> 'v rq \<Rightarrow> bool" where
  step_enqueue: "rq_step s (Enqueue mr) (enqueue mr s)"
| step_settles: "r \<in> set (running s) \<Longrightarrow> rq_step s (Settles r res) (executeRequest r res s)"
| step_finally: "i \<in> set (finishing s) \<Longrightarrow> rq_step s (Finally i) (rq_finally i s)"
| step_timer: "t \<in> set (timers s) \<Longrightarrow> rq_step s (Timer t) (rq_timer t s)"
| step_dispose: "rq_step s Dispose (rq_dispose s)"

inductive_cases rq_stepE: "rq_step s e s'"

section \<open>Invariant\<close>

text \<open>Every request ever made, wherever it is now.\<close>

definition tracked :: "'v rq \<Rightarrow> queued_request list" where
  "tracked s = queue s @ running s @ map fst (timers s) @ map fst (settled s)"

definition attempts :: "'v rq \<Rightarrow> queued_request \<Rightarrow> nat" where
  "attempts s r = count_list (started s) (req_id r)"

definition rq_ids :: "'v rq \<Rightarrow> bool" where
  "rq_ids s = (mset (map req_id (tracked s)) = mset [0..<next_id s] \<and> (\<forall>j \<in> set (started s). j < next_id s))"

definition rq_active :: "'v rq \<Rightarrow> bool" where
  "rq_active s = (activeRequests s = int (length (running s) + length (finishing s)) \<and>
     (activeRequests s \<le> maxConcurrent s \<or> activeRequests s = 0))"

definition rq_budget :: "'v rq \<Rightarrow> bool" where
  "rq_budget s =
     ((\<forall>r \<in> set (tracked s). retries r \<le> maxRetries r) \<and>
      (\<forall>r \<in> set (queue s) \<union> fst ` set (timers s). attempts s r = retries r) \<and>
      (\<forall>r \<in> set (running s). attempts s r = retries r + 1) \<and>
      (\<forall>r \<in> fst ` set (timers s). 0 < retries r) \<and>
      (\<forall>(r, x) \<in> set (settled s). attempts s r \<le> retries r + 1 \<and>
         (attempts s r = 0 \<longrightarrow> x = Rejected DisposedThrown)))"

definition rq_order :: "'v rq \<Rightarrow> bool" where
  "rq_order s = (sorted_wrt (<) (map req_id (filter (\<lambda>r. retries r = 0) (queue s))) \<and>
     (\<forall>r \<in> set (queue s). retries r = 0 \<longrightarrow> (\<forall>j \<in> set (started s). j < req_id r)))"

definition rq_core :: "'v rq \<Rightarrow> bool" where
  "rq_core s = (rq_ids s \<and> rq_active s \<and> rq_budget s \<and> rq_order s)"

definition rq_inv :: "'v rq \<Rightarrow> bool" where
  "rq_inv s = (rq_core s \<and> \<not> processing s \<and> (queue s \<noteq> [] \<longrightarrow> maxConcurrent s \<le> activeRequests s))"

lemma rq_ids_distinct: "rq_ids s \<Longrightarrow> distinct (map req_id (tracked s))"
  unfolding rq_ids_def by (metis distinct_upt mset_eq_imp_distinct_iff)

lemma rq_ids_set: "rq_ids s \<Longrightarrow> set (map req_id (tracked s)) = {..<next_id s}"
  unfolding rq_ids_def by (metis atLeast_upt set_mset_mset)

lemma rq_ids_less: "rq_ids s \<Longrightarrow> r \<in> set (tracked s) \<Longrightarrow> req_id r < next_id s"
proof -
  assume "rq_ids s" and r: "r \<in> set (tracked s)"
  then have "set (map req_id (tracked s)) = set [0..<next_id s]"
    unfolding rq_ids_def by (metis set_mset_mset)
  with r show ?thesis by (metis atLeastLessThan_iff image_eqI list.set_map set_upt)
qed

lemma budget_settled:
  assumes "rq_budget s" "(r, x) \<in> set (settled s)"
  shows "attempts s r \<le> retries r + 1" "attempts s r = 0 \<Longrightarrow> x = Rejected DisposedThrown"
proof -
  have "case (r, x) of (r, x) \<Rightarrow> attempts s r \<le> retries r + 1 \<and>
      (attempts s r = 0 \<longrightarrow> x = Rejected DisposedThrown)"
    using assms unfolding rq_budget_def by blast
  then show "attempts s r \<le> retries r + 1" "attempts s r = 0 \<Longrightarrow> x = Rejected DisposedThrown" by simp_all
qed

lemma budget_unstarted:
  assumes "rq_budget s"
  shows "r \<in> set (queue s) \<Longrightarrow> attempts s r = retries r"
    and "r \<in> set (running s) \<Longrightarrow> attempts s r = retries r + 1"
    and "r \<in> fst ` set (timers s) \<Longrightarrow> attempts s r = retries r \<and> 0 < retries r"
  using assms unfolding rq_budget_def by blast+

lemma budget_attempts:
  assumes "rq_budget s" "r \<in> set (tracked s)"
  shows "attempts s r \<le> retries r + 1" "retries r \<le> maxRetries r"
proof -
  consider "r \<in> set (queue s)" | "r \<in> set (running s)" | "r \<in> fst ` set (timers s)"
    | x where "(r, x) \<in> set (settled s)"
    using assms(2) by (auto simp: tracked_def)
  then show "attempts s r \<le> retries r + 1"
    using budget_unstarted [OF assms(1), of r] budget_settled [OF assms(1)] by cases auto
  show "retries r \<le> maxRetries r" using assms unfolding rq_budget_def by blast
qed

text \<open>Starting the request at the head of the queue.\<close>

definition start_head :: "'v rq \<Rightarrow> 'v rq" where
  "start_head s = s\<lparr>queue := tl (queue s), activeRequests := activeRequests s + 1,
     running := running s @ [hd (queue s)], started := started s @ [req_id (hd (queue s))]\<rparr>"

lemma rq_loop_start:
  "queue s \<noteq> [] \<Longrightarrow> activeRequests s < maxConcurrent s \<Longrightarrow> rq_loop s = rq_loop (start_head s)"
  by (subst rq_loop.simps) (auto simp: start_head_def split: list.split)

lemma rq_loop_stop:
  "queue s = [] \<or> \<not> activeRequests s < maxConcurrent s \<Longrightarrow> rq_loop s = s"
  by (subst rq_loop.simps) (auto split: list.split)

lemma start_head_core:
  assumes "rq_core s" "queue s \<noteq> []" "activeRequests s < maxConcurrent s"
  shows "rq_core (start_head s)"
proof -
  obtain r q where q: "queue s = r # q" using assms(2) by (cases "queue s") auto
  note core = assms(1) [unfolded rq_core_def]
  have rid: "req_id r < next_id s" using rq_ids_less [of s r] core q by (simp add: tracked_def)
  have other: "req_id x \<noteq> req_id r" if "x \<in> set q \<union> set (running s) \<union> fst ` set (timers s) \<union> fst ` set (settled s)" for x
  proof -
    have "distinct (map req_id (tracked s))" using rq_ids_distinct core by blast
    then have "req_id r \<notin> req_id ` (set q \<union> set (running s) \<union> fst ` set (timers s) \<union> fst ` set (settled s))"
      by (simp add: tracked_def q image_Un image_image)
    with that show ?thesis by (metis imageI)
  qed
  have "rq_ids (start_head s)"
    using core q rid by (auto simp: rq_ids_def tracked_def start_head_def)
  moreover have "rq_active (start_head s)"
    using core assms(3) by (auto simp: rq_active_def start_head_def)
  moreover have "rq_budget (start_head s)"
  proof -
    have b: "rq_budget s" using core by simp
    have ar: "attempts (start_head s) r = attempts s r + 1"
      by (simp add: attempts_def start_head_def q)
    have ao: "attempts (start_head s) x = attempts s x" if "req_id x \<noteq> req_id r" for x
      using that by (simp add: attempts_def start_head_def q)
    have st: "settled (start_head s) = settled s" "timers (start_head s) = timers s"
        "queue (start_head s) = q" "running (start_head s) = running s @ [r]"
      by (simp_all add: start_head_def q)
    have "set (tracked (start_head s)) = set (tracked s)"
      by (auto simp: tracked_def st q)
    moreover have "attempts (start_head s) x = attempts s x"
      if "x \<in> set q \<union> set (running s) \<union> fst ` set (timers s) \<union> fst ` set (settled s)" for x
      using that other ao by blast
    moreover have "attempts s r = retries r" using b q by (simp add: rq_budget_def)
    ultimately show ?thesis
      using b ar q unfolding rq_budget_def st by (simp add: ball_Un split_beta)
  qed
  moreover have "rq_order (start_head s)"
  proof -
    have "attempts s r = retries r" "\<And>x. x \<in> set q \<Longrightarrow> attempts s x = retries x"
      using core q by (auto simp: rq_budget_def)
    then have "req_id r \<in> set (started s)" if "retries r \<noteq> 0"
      using that by (metis attempts_def count_notin)
    then show ?thesis
      using core q by (auto simp: rq_order_def start_head_def split: if_splits)
  qed
  ultimately show ?thesis by (simp add: rq_core_def)
qed

lemma rq_loop_core: "rq_core s \<Longrightarrow> rq_core (rq_loop s)"
proof (induction s rule: measure_induct_rule [of "\<lambda>s. length (queue s)"])
  case (less s)
  show ?case
  proof (cases "queue s \<noteq> [] \<and> activeRequests s < maxConcurrent s")
    case True
    then have "length (queue (start_head s)) < length (queue s)"
      by (simp add: start_head_def)
    with True less show ?thesis by (simp add: rq_loop_start start_head_core)
  next
    case False
    then show ?thesis using less.prems by (subst rq_loop_stop) auto
  qed
qed

lemma rq_loop_full: "queue (rq_loop s) \<noteq> [] \<Longrightarrow> maxConcurrent (rq_loop s) \<le> activeRequests (rq_loop s)"
proof (induction s rule: measure_induct_rule [of "\<lambda>s. length (queue s)"])
  case (less s)
  show ?case
  proof (cases "queue s \<noteq> [] \<and> activeRequests s < maxConcurrent s")
    case True
    then have "length (queue (start_head s)) < length (queue s)"
      by (simp add: start_head_def)
    with True less show ?thesis by (simp add: rq_loop_start)
  next
    case False
    then have "rq_loop s = s" by (intro rq_loop_stop) auto
    with less.prems False show ?thesis by auto
  qed
qed

lemma rq_core_processing [simp]: "rq_core (s\<lparr>processing := b\<rparr>) = rq_core s"
  by (simp add: rq_core_def rq_ids_def rq_active_def rq_budget_def rq_order_def tracked_def attempts_def)

lemma processQueue_inv: "rq_core s \<Longrightarrow> \<not> processing s \<Longrightarrow> rq_inv (processQueue s)"
  using rq_loop_full [of "s\<lparr>processing := True\<rparr>"]
  by (auto simp: processQueue_def rq_inv_def rq_loop_core)

lemma rq_inv_core: "rq_inv s \<Longrightarrow> rq_core s" and rq_inv_idle: "rq_inv s \<Longrightarrow> \<not> processing s"
  by (simp_all add: rq_inv_def)

lemma attempts_fresh: "rq_core s \<Longrightarrow> req_id r = next_id s \<Longrightarrow> attempts s r = 0"
  by (auto simp: rq_core_def rq_ids_def attempts_def intro!: count_notin)

lemma new_rq_inv: "0 \<le> m \<Longrightarrow> rq_inv (new_rq m d)"
  by (simp add: rq_inv_def new_rq_def rq_core_def rq_ids_def rq_active_def rq_budget_def rq_order_def
      tracked_def)

lemma enqueue_inv:
  assumes "rq_inv s"
  shows "rq_inv (enqueue mr s)"
proof -
  let ?r = "\<lparr>req_id = next_id s, retries = 0, maxRetries = mr\<rparr>"
  note c = rq_inv_core [OF assms]
  have fresh: "attempts s ?r = 0" using attempts_fresh [OF c] by simp
  have lt: "req_id x < next_id s" if "x \<in> set (tracked s)" for x
    using rq_ids_less c that by (auto simp: rq_core_def)
  show ?thesis
  proof (cases "rq_disposed s")
    case True
    then show ?thesis
      using assms fresh
      by (auto simp: enqueue_def Let_def rq_inv_def rq_core_def rq_ids_def rq_active_def rq_budget_def
          rq_order_def tracked_def attempts_def)
  next
    case False
    let ?s = "s\<lparr>next_id := next_id s + 1, queue := queue s @ [?r]\<rparr>"
    have "rq_core ?s"
      using c fresh lt
      by (auto simp: rq_core_def rq_ids_def rq_active_def rq_budget_def
          rq_order_def tracked_def attempts_def sorted_wrt_append)
    then show ?thesis
      using False rq_inv_idle [OF assms] processQueue_inv [of ?s] by (simp add: enqueue_def Let_def)
  qed
qed

lemma dispose_inv:
  assumes "rq_inv s"
  shows "rq_inv (rq_dispose s)"
proof (cases "rq_disposed s")
  case False
  note c = rq_inv_core [OF assms, unfolded rq_core_def]
  let ?s = "rq_dispose s"
  have att: "attempts ?s x = attempts s x" for x
    using False by (simp add: attempts_def rq_dispose_def)
  have "rq_ids ?s" using c False by (simp add: rq_ids_def tracked_def rq_dispose_def o_def ac_simps)
  moreover have "rq_active ?s" using c False by (auto simp: rq_active_def rq_dispose_def)
  moreover have "rq_order ?s" using False by (simp add: rq_order_def rq_dispose_def)
  moreover have "rq_budget ?s"
    using c False unfolding rq_budget_def att
    by (simp add: tracked_def rq_dispose_def ball_Un split_beta)
  moreover have "\<not> processing ?s" "queue ?s = []"
    using rq_inv_idle [OF assms] False by (simp_all add: rq_dispose_def)
  ultimately show ?thesis by (simp add: rq_inv_def rq_core_def)
qed (simp add: rq_dispose_def assms)

text \<open>A running request moves to the log of settled requests, or to a timer.\<close>

lemma running_split:
  assumes "r \<in> set xs"
  obtains a b where "xs = a @ r # b" "remove1 r xs = a @ b"
  using split_list_first [OF assms] by (auto simp: remove1_append)

lemma settle_core:
  assumes "rq_core s" "r \<in> set (running s)"
  shows "rq_core (s\<lparr>running := remove1 r (running s), finishing := finishing s @ [req_id r],
    settled := settled s @ [(r, x)]\<rparr>)" (is "rq_core ?s")
proof -
  note c = assms(1) [unfolded rq_core_def]
  obtain a b where ab: "running s = a @ r # b" "remove1 r (running s) = a @ b"
    using running_split [OF assms(2)] .
  have att: "attempts ?s x = attempts s x" for x by (simp add: attempts_def)
  have "rq_ids ?s" using c ab by (simp add: rq_ids_def tracked_def)
  moreover have "rq_active ?s" using c ab by (auto simp: rq_active_def)
  moreover have "rq_order ?s" using c by (simp add: rq_order_def)
  moreover have "rq_budget ?s"
    using c ab unfolding rq_budget_def att by (simp add: tracked_def ball_Un split_beta)
  ultimately show ?thesis by (simp add: rq_core_def)
qed

lemma delay_core:
  assumes "rq_core s" "r \<in> set (running s)" "retries r < maxRetries r"
  shows "rq_core (s\<lparr>running := remove1 r (running s), finishing := finishing s @ [req_id r],
    timers := timers s @ [(r\<lparr>retries := retries r + 1\<rparr>, d)]\<rparr>)" (is "rq_core ?s")
proof -
  note c = assms(1) [unfolded rq_core_def]
  obtain a b where ab: "running s = a @ r # b" "remove1 r (running s) = a @ b"
    using running_split [OF assms(2)] .
  have att: "attempts ?s x = attempts s x" "attempts s (x\<lparr>retries := n\<rparr>) = attempts s x" for x n
    by (simp_all add: attempts_def)
  have "rq_ids ?s" using c ab by (simp add: rq_ids_def tracked_def)
  moreover have "rq_active ?s" using c ab by (auto simp: rq_active_def)
  moreover have "rq_order ?s" using c by (simp add: rq_order_def)
  moreover have "rq_budget ?s"
    using c ab assms(3) unfolding rq_budget_def att
    by (simp add: tracked_def ball_Un split_beta att)
  ultimately show ?thesis by (simp add: rq_core_def)
qed

lemma executeRequest_inv:
  assumes "rq_inv s" "r \<in> set (running s)"
  shows "rq_inv (executeRequest r res s)"
proof -
  let ?s = "executeRequest r res s"
  have "rq_core ?s"
    using settle_core [OF rq_inv_core [OF assms(1)] assms(2)]
      delay_core [OF rq_inv_core [OF assms(1)] assms(2)]
    by (auto simp: executeRequest_def Let_def shouldRetry_def split: sum.split)
  moreover have "processing ?s = processing s" "queue ?s = queue s"
      "maxConcurrent ?s = maxConcurrent s" "activeRequests ?s = activeRequests s"
    by (simp_all add: executeRequest_def Let_def split: sum.split)
  ultimately show ?thesis using assms(1) by (simp add: rq_inv_def)
qed

lemma finally_inv:
  assumes "rq_inv s" "i \<in> set (finishing s)"
  shows "rq_inv (rq_finally i s)"
proof -
  let ?s = "s\<lparr>finishing := remove1 i (finishing s), activeRequests := activeRequests s - 1\<rparr>"
  have "length (finishing s) = Suc (length (remove1 i (finishing s)))"
    using assms(2) by (metis One_nat_def Suc_pred length_pos_if_in_set length_remove1)
  then have "rq_core ?s"
    using rq_inv_core [OF assms(1)]
    by (auto simp: rq_core_def rq_ids_def rq_active_def rq_budget_def rq_order_def tracked_def attempts_def)
  then show ?thesis
    using rq_inv_idle [OF assms(1)] processQueue_inv [of ?s] by (simp add: rq_finally_def)
qed

lemma timer_inv:
  assumes "rq_inv s" "t \<in> set (timers s)"
  shows "rq_inv (rq_timer t s)"
proof -
  let ?s = "s\<lparr>timers := remove1 t (timers s), queue := fst t # queue s\<rparr>"
  note c = rq_inv_core [OF assms(1), unfolded rq_core_def]
  obtain a b where ab: "timers s = a @ t # b" "remove1 t (timers s) = a @ b"
    using split_list_first [OF assms(2)] by (auto simp: remove1_append)
  have att: "attempts ?s x = attempts s x" for x by (simp add: attempts_def)
  have pos: "0 < retries (fst t)" using c ab by (simp add: rq_budget_def)
  have "rq_ids ?s" using c ab by (simp add: rq_ids_def tracked_def)
  moreover have "rq_active ?s" using c ab by (auto simp: rq_active_def)
  moreover have "rq_order ?s" using c pos by (simp add: rq_order_def)
  moreover have "rq_budget ?s"
    using c ab unfolding rq_budget_def att by (simp add: tracked_def ball_Un split_beta)
  ultimately have "rq_core ?s" by (simp add: rq_core_def)
  then show ?thesis
    using rq_inv_idle [OF assms(1)] processQueue_inv [of ?s] by (simp add: rq_timer_def)
qed

lemma rq_step_inv: "rq_inv s \<Longrightarrow> rq_step s e s' \<Longrightarrow> rq_inv s'"
  by (auto elim!: rq_stepE intro: enqueue_inv dispose_inv executeRequest_inv finally_inv timer_inv)

section \<open>Work left\<close>

text \<open>
  A request still has at most as many attempts as its retry budget; every handler other than
  \<open>enqueue\<close> and \<open>dispose\<close> uses some of what is left up.
\<close>

definition budget_left :: "queued_request \<Rightarrow> nat" where
  "budget_left r = 5 * (maxRetries r - retries r)"

definition rq_rank :: "'v rq \<Rightarrow> nat" where
  "rq_rank s = (\<Sum>r\<leftarrow>queue s. budget_left r + 3) + (\<Sum>r\<leftarrow>running s. budget_left r + 2)
     + (\<Sum>t\<leftarrow>timers s. budget_left (fst t) + 4) + length (finishing s)"

fun rq_drains :: "'v rq_event \<Rightarrow> bool" where
  "rq_drains (Enqueue mr) = False"
| "rq_drains Dispose = False"
| "rq_drains _ = True"

definition rq_rest :: "'v rq \<Rightarrow> bool" where
  "rq_rest s = (queue s = [] \<and> running s = [] \<and> timers s = [] \<and> finishing s = [])"

lemma start_head_rank: "queue s \<noteq> [] \<Longrightarrow> rq_rank (start_head s) < rq_rank s"
  by (cases "queue s") (simp_all add: rq_rank_def start_head_def)

lemma rq_loop_rank: "rq_rank (rq_loop s) \<le> rq_rank s"
proof (induction s rule: measure_induct_rule [of "\<lambda>s. length (queue s)"])
  case (less s)
  show ?case
  proof (cases "queue s \<noteq> [] \<and> activeRequests s < maxConcurrent s")
    case True
    then have "length (queue (start_head s)) < length (queue s)"
      by (simp add: start_head_def)
    with True less [of "start_head s"] start_head_rank [of s] show ?thesis by (simp add: rq_loop_start)
  next
    case False
    then show ?thesis by (subst rq_loop_stop) auto
  qed
qed

lemma rq_rank_processing [simp]: "rq_rank (s\<lparr>processing := b\<rparr>) = rq_rank s"
  by (simp add: rq_rank_def)

lemma processQueue_rank: "rq_rank (processQueue s) \<le> rq_rank s"
  using rq_loop_rank [of "s\<lparr>processing := True\<rparr>"] by (simp add: processQueue_def)

lemma executeRequest_rank:
  assumes "r \<in> set (running s)"
  shows "rq_rank (executeRequest r res s) < rq_rank s"
proof -
  obtain a b where ab: "running s = a @ r # b" "remove1 r (running s) = a @ b"
    using running_split [OF assms] .
  have "budget_left (r\<lparr>retries := retries r + 1\<rparr>) + 5 \<le> budget_left r" if "retries r < maxRetries r"
    using that by (simp add: budget_left_def)
  then show ?thesis
    using ab by (auto simp: executeRequest_def Let_def rq_rank_def shouldRetry_def split: sum.split)
qed

lemma finally_rank:
  assumes "i \<in> set (finishing s)"
  shows "rq_rank (rq_finally i s) < rq_rank s"
proof -
  have "length (finishing s) = Suc (length (remove1 i (finishing s)))"
    using assms by (metis One_nat_def Suc_pred length_pos_if_in_set length_remove1)
  then have "rq_rank (s\<lparr>finishing := remove1 i (finishing s), activeRequests := activeRequests s - 1\<rparr>) < rq_rank s"
    by (simp add: rq_rank_def)
  then show ?thesis
    unfolding rq_finally_def using processQueue_rank order.strict_trans1 by blast
qed

lemma timer_rank:
  assumes "t \<in> set (timers s)"
  shows "rq_rank (rq_timer t s) < rq_rank s"
proof -
  obtain a b where ab: "timers s = a @ t # b" "remove1 t (timers s) = a @ b"
    using split_list_first [OF assms] by (auto simp: remove1_append)
  have "rq_rank (s\<lparr>timers := remove1 t (timers s), queue := fst t # queue s\<rparr>) < rq_rank s"
    using ab(2) by (simp add: rq_rank_def ab(1))
  then show ?thesis
    unfolding rq_timer_def using processQueue_rank order.strict_trans1 by blast
qed

lemma rq_drain_decreases: "rq_drains e \<Longrightarrow> rq_step s e s' \<Longrightarrow> rq_rank s' < rq_rank s"
  by (auto elim!: rq_stepE intro: executeRequest_rank finally_rank timer_rank)

lemma rq_progress:
  assumes "rq_inv s" "0 < maxConcurrent s" "\<not> rq_rest s"
  shows "\<exists>e s'. rq_drains e \<and> rq_step s e s'"
proof -
  have "running s \<noteq> [] \<or> finishing s \<noteq> [] \<or> timers s \<noteq> []"
    using assms by (auto simp: rq_inv_def rq_core_def rq_active_def rq_rest_def)
  then consider r where "r \<in> set (running s)" | i where "i \<in> set (finishing s)" | t where "t \<in> set (timers s)"
    by (meson list.set_sel(1))
  then show ?thesis
  proof cases
    case 1
    then have "rq_step s (Settles r res) (executeRequest r res s)" for res by (rule step_settles)
    then show ?thesis by (metis rq_drains.simps(3))
  next
    case 2
    then have "rq_step s (Finally i) (rq_finally i s)" by (rule step_finally)
    then show ?thesis by (metis rq_drains.simps(4))
  next
    case 3
    then have "rq_step s (Timer t) (rq_timer t s)" by (rule step_timer)
    then show ?thesis by (metis rq_drains.simps(5))
  qed
qed

definition rq_initial :: "'v rq \<Rightarrow> bool" where
  "rq_initial s = (\<exists>m d. 0 \<le> m \<and> s = new_rq m d)"

interpretation rqm: machine rq_initial rq_step rq_inv
  by unfold_locales (auto simp: rq_initial_def intro: new_rq_inv rq_step_inv)

lemma rq_loop_fields:
  "maxConcurrent (rq_loop s) = maxConcurrent s \<and> rq_disposed (rq_loop s) = rq_disposed s \<and>
    settled (rq_loop s) = settled s"
proof (induction s rule: measure_induct_rule [of "\<lambda>s. length (queue s)"])
  case (less s)
  show ?case
  proof (cases "queue s \<noteq> [] \<and> activeRequests s < maxConcurrent s")
    case True
    then have "length (queue (start_head s)) < length (queue s)" by (simp add: start_head_def)
    with True less [of "start_head s"] show ?thesis by (simp add: rq_loop_start) (simp add: start_head_def)
  next
    case False
    then have "rq_loop s = s" by (intro rq_loop_stop) auto
    then show ?thesis by simp
  qed
qed

lemma processQueue_fields [simp]:
  "maxConcurrent (processQueue s) = maxConcurrent s"
  "rq_disposed (processQueue s) = rq_disposed s"
  "settled (processQueue s) = settled s"
  using rq_loop_fields [of "s\<lparr>processing := True\<rparr>"] by (simp_all add: processQueue_def)

lemma rq_step_maxConcurrent: "rq_step s e s' \<Longrightarrow> maxConcurrent s' = maxConcurrent s"
  by (auto elim!: rq_stepE simp: enqueue_def Let_def rq_dispose_def executeRequest_def rq_finally_def
      rq_timer_def split: sum.split)

text \<open>A queue that may run at least one request at a time.\<close>

definition rq_live_inv :: "'v rq \<Rightarrow> bool" where
  "rq_live_inv s = (rq_inv s \<and> 0 < maxConcurrent s)"

interpretation rqd: draining_machine "\<lambda>s. rq_initial s \<and> 0 < maxConcurrent s" rq_step rq_live_inv
    rq_drains rq_rank rq_rest
proof unfold_locales
  show "rq_live_inv s" if "rq_initial s \<and> 0 < maxConcurrent s" for s :: "'v rq"
    using that by (auto simp: rq_live_inv_def intro: rqm.initial_inv)
  show "rq_live_inv s'" if "rq_live_inv s" "rq_step s e s'" for s s' :: "'v rq" and e
    using that rq_step_inv [of s e s'] rq_step_maxConcurrent [of s e s'] by (simp add: rq_live_inv_def)
  show "rq_rank s' < rq_rank s" if "rq_live_inv s" "rq_drains e" "rq_step s e s'" for s s' :: "'v rq" and e
    using that rq_drain_decreases by blast
  show "\<exists>e s'. rq_drains e \<and> rq_step s e s'" if "rq_live_inv s" "\<not> rq_rest s" for s :: "'v rq"
    using that rq_progress by (auto simp: rq_live_inv_def)
qed

text \<open>Once a promise is settled it stays settled, with the same outcome.\<close>

lemma settled_grows: "rq_step s e s' \<Longrightarrow> \<exists>new. settled s' = settled s @ new"
  by (auto elim!: rq_stepE simp: enqueue_def Let_def rq_dispose_def executeRequest_def rq_finally_def
      rq_timer_def split: sum.split)

lemma disposed_stays: "rq_disposed s \<Longrightarrow> rq_step s e s' \<Longrightarrow> rq_disposed s'"
  by (auto elim!: rq_stepE simp: enqueue_def Let_def rq_dispose_def executeRequest_def rq_finally_def
      rq_timer_def split: sum.split)

interpretation rqx: stable_machine rq_step rq_disposed
  by unfold_locales (rule disposed_stays)

interpretation rqc: stable_machine rq_step "\<lambda>s. maxConcurrent s = m" for m
  by unfold_locales (simp add: rq_step_maxConcurrent)

lemma exec_settled: "exec rq_step s es s' \<Longrightarrow> \<exists>new. settled s' = settled s @ new"
proof (induction rule: exec.induct)
  case (exec_Cons s e s' es s'')
  then show ?case using settled_grows [OF exec_Cons.hyps(1)] by auto
qed simp

lemma new_rq_reachable:
  assumes "0 \<le> m" "exec rq_step (new_rq m d) es s"
  shows "rq_inv s" and "maxConcurrent s = m"
proof -
  have "rq_initial (new_rq m d)" using assms(1) by (auto simp: rq_initial_def)
  then show "rq_inv s" using rqm.reachable_inv assms(2) by blast
  show "maxConcurrent s = m" using rqc.exec_stable [OF assms(2)] by (simp add: new_rq_def)
qed

section \<open>Properties\<close>

text \<open>
  C1. In every reachable state at most \<open>maxConcurrent\<close> requests are running, the counter is exact, and
  every request ever made is in exactly one place: queued, running, waiting for its retry timer, or
  settled. No request is lost, run twice at once, or settled twice.
\<close>

theorem rq_safe:
  assumes "0 \<le> m" and "exec rq_step (new_rq m d) es s"
  shows "int (length (running s)) \<le> m \<and>
    activeRequests s = int (length (running s) + length (finishing s)) \<and> activeRequests s \<le> m \<and>
    distinct (map req_id (queue s @ running s @ map fst (timers s) @ map fst (settled s))) \<and>
    set (map req_id (queue s @ running s @ map fst (timers s) @ map fst (settled s))) = {..<next_id s}"
proof -
  note inv = new_rq_reachable [OF assms]
  have ids: "rq_ids s" and act: "rq_active s"
    using rq_inv_core [OF inv(1)] by (simp_all add: rq_core_def)
  have "set (map req_id (tracked s)) = {..<next_id s}" by (rule rq_ids_set [OF ids])
  moreover have "activeRequests s \<le> m"
    using act inv(2) assms(1) by (auto simp: rq_active_def)
  ultimately show ?thesis
    using rq_ids_distinct [OF ids] act unfolding tracked_def rq_active_def by simp
qed

definition rate_limited :: rq_error where
  "rate_limited = \<lparr>rq_thrown = ErrorThrown ''Error'' ''429'',
     response_headers = Some (PlainHeaders [(''Retry-After'', ''2'')]), own_headers = None\<rparr>"

definition first_request :: queued_request where
  "first_request = \<lparr>req_id = 0, retries = 0, maxRetries = 3\<rparr>"

text \<open>Two requests on a queue that runs one at a time; the first is rate limited and retried.\<close>

definition rq_example :: "nat rq" where
  "rq_example = rq_timer (first_request\<lparr>retries := 1\<rparr>, 2000)
     (rq_finally 0 (executeRequest first_request (Inl rate_limited)
       (enqueue 3 (enqueue 3 (new_rq 1 1000)))))"

definition rq_example_events :: "nat rq_event list" where
  "rq_example_events = [Enqueue 3, Enqueue 3, Settles first_request (Inl rate_limited), Finally 0,
     Timer (first_request\<lparr>retries := 1\<rparr>, 2000)]"

lemma rq_example_run:
  "first_request \<in> set (running (enqueue 3 (enqueue 3 (new_rq 1 1000 :: nat rq))))"
  "0 \<in> set (finishing (executeRequest first_request (Inl rate_limited) (enqueue 3 (enqueue 3 (new_rq 1 1000 :: nat rq)))))"
  "(first_request\<lparr>retries := 1\<rparr>, 2000) \<in> set (timers (rq_finally 0
      (executeRequest first_request (Inl rate_limited) (enqueue 3 (enqueue 3 (new_rq 1 1000 :: nat rq))))))"
  by code_simp+

lemma rq_example_exec: "exec rq_step (new_rq 1 1000) rq_example_events rq_example"
  unfolding rq_example_events_def rq_example_def
  by (rule exec_Cons, rule step_enqueue, rule exec_Cons, rule step_enqueue,
      rule exec_Cons, rule step_settles, rule rq_example_run(1),
      rule exec_Cons, rule step_finally, rule rq_example_run(2),
      rule exec_Cons, rule step_timer, rule rq_example_run(3), rule exec_Nil)

lemma rq_safe_witness: "length (running rq_example) \<le> 1 \<and> next_id rq_example = 2"
proof -
  have "next_id rq_example = 2" by code_simp
  then show ?thesis using rq_safe [OF _ rq_example_exec] by simp
qed

text \<open>
  A request is attempted at most once more than its retry budget allows retries, and a promise
  settled without any attempt was rejected with \<open>ClientDisposedError\<close>.
\<close>

theorem rq_attempts_bounded:
  assumes "0 \<le> m" and "exec rq_step (new_rq m d) es s"
    and "r \<in> set (queue s @ running s @ map fst (timers s) @ map fst (settled s))"
  shows "count_list (started s) (req_id r) \<le> maxRetries r + 1 \<and>
    (\<forall>x. (r, x) \<in> set (settled s) \<and> req_id r \<notin> set (started s) \<longrightarrow> x = Rejected DisposedThrown)"
proof -
  have b: "rq_budget s" using rq_inv_core [OF new_rq_reachable(1) [OF assms(1,2)]] by (simp add: rq_core_def)
  have t: "r \<in> set (tracked s)" using assms(3) by (simp add: tracked_def)
  have "x = Rejected DisposedThrown" if "(r, x) \<in> set (settled s)" "req_id r \<notin> set (started s)" for x
    using budget_settled(2) [OF b that(1)] that(2) by (simp add: attempts_def)
  then show ?thesis using budget_attempts [OF b t] by (auto simp: attempts_def)
qed

lemma rq_attempts_bounded_witness:
  "first_request\<lparr>retries := 1\<rparr> \<in> set (queue rq_example) \<and> count_list (started rq_example) 0 \<le> 4"
proof -
  have r: "first_request\<lparr>retries := 1\<rparr> \<in> set (queue rq_example @ running rq_example
      @ map fst (timers rq_example) @ map fst (settled rq_example))"
    "first_request\<lparr>retries := 1\<rparr> \<in> set (queue rq_example)" by code_simp+
  show ?thesis using rq_attempts_bounded [OF _ rq_example_exec r(1)] r(2) by (auto simp: first_request_def)
qed

text \<open>
  The queue never leaves a request waiting while it could run one: when a handler has returned and
  requests are queued, exactly \<open>maxConcurrent\<close> requests count as active.
\<close>

theorem rq_work_conserving:
  assumes "0 \<le> m" and "exec rq_step (new_rq m d) es s" and "queue s \<noteq> []"
  shows "activeRequests s = m \<and> \<not> processing s"
proof -
  note inv = new_rq_reachable [OF assms(1,2)]
  show ?thesis
    using inv assms(1,3) by (auto simp: rq_inv_def rq_core_def rq_active_def)
qed

lemma rq_work_conserving_witness: "activeRequests rq_example = 1 \<and> queue rq_example \<noteq> []"
proof -
  have q: "queue rq_example \<noteq> []" by code_simp
  then show ?thesis using rq_work_conserving [OF _ rq_example_exec q] by simp
qed

text \<open>
  C2. Liveness. Once the caller makes no more requests, the handlers that remain (settling, \<open>finally\<close>,
  timers) can only run \<open>rq_rank\<close> more times, and when none of them is left to run every promise the
  queue has handed out is settled.
\<close>

theorem rq_settles_everything:
  assumes "0 < m" and "exec rq_step (new_rq m d) es s"
    and "exec rq_step s es' s'" and "list_all rq_drains es'"
  shows "length es' \<le> rq_rank s \<and>
    (\<not> (\<exists>e s''. rq_drains e \<and> rq_step s' e s'') \<longrightarrow>
       set (map (\<lambda>x. req_id (fst x)) (settled s')) = {..<next_id s'})"
proof -
  have live: "rq_live_inv s" "rq_live_inv s'"
  proof -
    have "0 \<le> m" using assms(1) by simp
    note inv = new_rq_reachable [OF this assms(2)]
    then show "rq_live_inv s" using assms(1) by (simp add: rq_live_inv_def)
    then show "rq_live_inv s'" using assms(3) rqd.exec_inv by blast
  qed
  have "length es' \<le> rq_rank s" using rqd.drain_bound [OF assms(3) live(1) assms(4)] by simp
  moreover have "set (map (\<lambda>x. req_id (fst x)) (settled s')) = {..<next_id s'}"
    if none: "\<not> (\<exists>e s''. rq_drains e \<and> rq_step s' e s'')"
  proof -
    have "rq_rest s'" using rqd.drain_progress [OF live(2)] none by blast
    then have "tracked s' = map fst (settled s')" by (simp add: tracked_def rq_rest_def)
    moreover have "rq_ids s'" using live(2) by (simp add: rq_live_inv_def rq_inv_def rq_core_def)
    ultimately show ?thesis using rq_ids_set [of s'] by (simp add: o_def)
  qed
  ultimately show ?thesis by blast
qed

lemma rq_settles_everything_witness: "3 \<le> rq_rank (enqueue 3 (enqueue 3 (new_rq 1 1000 :: nat rq)))"
proof -
  have s: "exec rq_step (new_rq 1 1000) [Enqueue 3, Enqueue 3] (enqueue 3 (enqueue 3 (new_rq 1 1000 :: nat rq)))"
    by (rule exec_Cons, rule step_enqueue, rule exec_Cons, rule step_enqueue, rule exec_Nil)
  have d: "exec rq_step (enqueue 3 (enqueue 3 (new_rq 1 1000))) (drop 2 rq_example_events) rq_example"
    unfolding rq_example_events_def rq_example_def numeral_2_eq_2 drop_Suc_Cons drop_0
    by (rule exec_Cons, rule step_settles, rule rq_example_run(1),
        rule exec_Cons, rule step_finally, rule rq_example_run(2),
        rule exec_Cons, rule step_timer, rule rq_example_run(3), rule exec_Nil)
  show ?thesis
    using rq_settles_everything [OF _ s d] by (simp add: rq_example_events_def)
qed

text \<open>
  Requests are first attempted in the order in which they were made: when a request has been
  attempted, every earlier one has been attempted too, or was rejected by \<open>dispose\<close>.
\<close>

theorem rq_first_come_first_served:
  assumes "0 \<le> m" and "exec rq_step (new_rq m d) es s"
    and "j \<in> set (started s)" and "i < j"
  shows "i \<in> set (started s) \<or> (\<exists>r. req_id r = i \<and> (r, Rejected DisposedThrown) \<in> set (settled s))"
proof (cases "i \<in> set (started s)")
  case False
  have core: "rq_core s" using rq_inv_core [OF new_rq_reachable(1) [OF assms(1,2)]] .
  then have ids: "rq_ids s" and b: "rq_budget s" and ord: "rq_order s" by (simp_all add: rq_core_def)
  have "j < next_id s" using ids assms(3) unfolding rq_ids_def by blast
  then have "i \<in> set (map req_id (tracked s))" using rq_ids_set [OF ids] assms(4) by simp
  then obtain r where r: "r \<in> set (tracked s)" "req_id r = i" by auto
  have zero: "attempts s r = 0" using False r(2) by (auto simp: attempts_def)
  note u = budget_unstarted [OF b, of r]
  have "r \<notin> set (queue s)"
  proof
    assume q: "r \<in> set (queue s)"
    then have "retries r = 0" using u zero by simp
    then have "j < req_id r" using ord q assms(3) unfolding rq_order_def by blast
    then show False using assms(4) r(2) by simp
  qed
  moreover have "r \<notin> set (running s)" using u(2) zero by linarith
  moreover have "r \<notin> fst ` set (timers s)" using u(3) zero by linarith
  ultimately obtain x where "(r, x) \<in> set (settled s)" using r(1) by (auto simp: tracked_def)
  moreover from this have "x = Rejected DisposedThrown" using budget_settled(2) [OF b] zero by blast
  ultimately show ?thesis using r(2) by blast
qed simp

definition rq_example2 :: "nat rq" where
  "rq_example2 = enqueue 0 (enqueue 0 (new_rq 2 1000))"

lemma rq_example2_exec: "exec rq_step (new_rq 2 1000) [Enqueue 0, Enqueue 0] rq_example2"
  unfolding rq_example2_def
  by (rule exec_Cons, rule step_enqueue, rule exec_Cons, rule step_enqueue, rule exec_Nil)

lemma rq_first_come_first_served_witness: "(0 :: nat) \<in> set (started rq_example2)"
proof -
  have "1 \<in> set (started rq_example2)" "settled rq_example2 = []" by code_simp+
  then show ?thesis using rq_first_come_first_served [OF _ rq_example2_exec, of 1 0] by simp
qed

text \<open>
  \<open>dispose\<close> rejects every queued request, and every later \<open>enqueue\<close> is rejected at once. A request
  that waits for its retry timer is not rejected: when its timer expires and a slot is free, the
  disposed queue calls its function again.
\<close>

theorem rq_dispose_leaves_timers:
  assumes "0 \<le> m" and "exec rq_step (new_rq m d) es s" and "\<not> rq_disposed s"
  shows "queue (rq_dispose s) = [] \<and>
    (\<forall>r \<in> set (queue s). (r, Rejected DisposedThrown) \<in> set (settled (rq_dispose s))) \<and>
    settled (enqueue mr (rq_dispose s)) = settled (rq_dispose s)
      @ [(\<lparr>req_id = next_id s, retries = 0, maxRetries = mr\<rparr>, Rejected DisposedThrown)] \<and>
    started (enqueue mr (rq_dispose s)) = started s \<and>
    (\<forall>t \<in> set (timers s). activeRequests s < m \<longrightarrow>
       rq_step (rq_dispose s) (Timer t) (rq_timer t (rq_dispose s)) \<and>
       started (rq_timer t (rq_dispose s)) = started s @ [req_id (fst t)])"
proof -
  let ?d = "rq_dispose s"
  note inv = new_rq_reachable [OF assms(1,2)]
  have d: "queue ?d = []" "timers ?d = timers s" "activeRequests ?d = activeRequests s" "rq_disposed ?d"
      "started ?d = started s" "next_id ?d = next_id s" "\<not> processing ?d" "maxConcurrent ?d = m"
      "running ?d = running s"
    using assms(3) inv by (simp_all add: rq_dispose_def rq_inv_def)
  have "started (rq_timer t ?d) = started s @ [req_id (fst t)]" if "activeRequests s < m" for t
  proof -
    let ?t = "?d\<lparr>timers := remove1 t (timers ?d), queue := [fst t], processing := True\<rparr>"
    have "rq_loop ?t = start_head ?t"
      using that d rq_loop_start [of ?t] rq_loop_stop [of "start_head ?t"]
      by (simp add: start_head_def)
    then show ?thesis
      using that d by (simp add: rq_timer_def processQueue_def start_head_def)
  qed
  moreover have "rq_step ?d (Timer t) (rq_timer t ?d)" if "t \<in> set (timers s)" for t
    using that d by (intro step_timer) simp
  ultimately show ?thesis
    using assms(3) d by (auto simp: enqueue_def Let_def) (auto simp: rq_dispose_def)
qed

definition rq_example3 :: "nat rq" where
  "rq_example3 = rq_finally 0 (executeRequest first_request (Inl rate_limited) (enqueue 3 (new_rq 1 1000)))"

lemma rq_example3_exec:
  "exec rq_step (new_rq 1 1000) [Enqueue 3, Settles first_request (Inl rate_limited), Finally 0] rq_example3"
proof -
  have "first_request \<in> set (running (enqueue 3 (new_rq 1 1000 :: nat rq)))"
    "0 \<in> set (finishing (executeRequest first_request (Inl rate_limited) (enqueue 3 (new_rq 1 1000 :: nat rq))))"
    by code_simp+
  then show ?thesis
    unfolding rq_example3_def
    by - (rule exec_Cons, rule step_enqueue, rule exec_Cons, rule step_settles, assumption,
        rule exec_Cons, rule step_finally, assumption, rule exec_Nil)
qed

lemma rq_dispose_leaves_timers_witness:
  "started (rq_timer (first_request\<lparr>retries := 1\<rparr>, 2000) (rq_dispose rq_example3)) = [0, 0]"
proof -
  have e: "\<not> rq_disposed rq_example3" "activeRequests rq_example3 < 1" "started rq_example3 = [0]"
    "(first_request\<lparr>retries := 1\<rparr>, 2000) \<in> set (timers rq_example3)"
    by code_simp+
  then show ?thesis
    using rq_dispose_leaves_timers [OF _ rq_example3_exec e(1)] by (auto simp: first_request_def)
qed

end
