(* ===== verification/Client.thy ===== *)
theory Client
  imports ContractArgs RequestQueue
begin

text \<open>
  Models \<open>sdk/src/base-client.ts\<close>, \<open>sdk/src/transaction.ts\<close> and the sequence of steps every contract
  client repeats: build a transaction, simulate it or prepare, sign, send and poll.

  \<open>executeWithFailover\<close> hands its loop over the servers to the request queue. Here one request runs on
  its own, so the queue's part is \<open>queue_run\<close>: the retry rules of \<open>RequestQueue\<close> applied to the successive
  outcomes of the loop. The logger is not modelled, nor is the session encryption of \<open>base-client.ts\<close>.
\<close>

section \<open>Configuration\<close>

record config =
  cfg_networkPassphrase :: string
  cfg_txTimeout :: "nat option"
  cfg_maxRetries :: "nat option"
  cfg_pollingRetries :: "nat option"
  cfg_retryIntervalMs :: "rat option"
  cfg_pollingIntervalMs :: "rat option"
  cfg_pollingExponentialBackoff :: "bool option"
  cfg_baseDelayMs :: "rat option"
  cfg_backoffFactor :: "rat option"
  cfg_retryDelay :: "rat option"
  cfg_identityRegistryId :: string
  cfg_credentialManagerId :: string
  cfg_reputationId :: string

record call_options =
  o_timeoutSeconds :: "nat option"
  o_timeoutMs :: "rat option"
  o_maxRetries :: "nat option"
  o_baseDelayMs :: "rat option"
  o_backoffFactor :: "rat option"

definition no_options :: call_options where
  "no_options = \<lparr>o_timeoutSeconds = None, o_timeoutMs = None, o_maxRetries = None,
     o_baseDelayMs = None, o_backoffFactor = None\<rparr>"

text \<open>
  A client: its configuration, the URLs of its servers, the contract it wraps, and what the error
  objects of its transport carry as response headers.
\<close>

record client =
  cl_config :: config
  cl_servers :: "string list"
  cl_contract :: string
  cl_responseHeaders :: "thrown \<Rightarrow> headers option"

text \<open>\<open>validateConfig\<close>, for the URLs, passphrase and contract ID of one client.\<close>

definition blank :: "string \<Rightarrow> bool" where
  "blank s = (js_trim s = [])"

definition validateConfig :: "env \<Rightarrow> string list \<Rightarrow> string \<Rightarrow> string \<Rightarrow> string \<Rightarrow> thrown + unit" where
  "validateConfig env rpcUrls networkPassphrase contractIdField contractId =
     (if rpcUrls = [] \<or> list_ex blank rpcUrls then Inl (error_class ''rpcUrl is required'')
      else if blank networkPassphrase then Inl (error_class ''networkPassphrase is required'')
      else if blank contractId then Inl (error_class (contractIdField @ '' is required''))
      else if \<not> e_isValidContract env contractId
      then Inl (error_class (contractIdField @ '' is not a valid contract ID''))
      else Inr ())"

section \<open>The current server\<close>

text \<open>\<open>this.server\<close>\<close>

definition thisServer :: "nat io" where
  "thisServer = (\<lambda>w. if w_disposed w then (Inl DisposedThrown, w) else (Inr (w_index w), w))"

definition set_index :: "nat \<Rightarrow> unit io" where
  "set_index i = (\<lambda>w. (Inr (), w\<lparr>w_index := i\<rparr>))"

definition get_index :: "nat io" where
  "get_index = (\<lambda>w. (Inr (w_index w), w))"

definition client_dispose :: "world \<Rightarrow> world" where
  "client_dispose w = (if w_disposed w then w else w\<lparr>w_disposed := True\<rparr>)"

definition srv_getAccount :: "env \<Rightarrow> string \<Rightarrow> account io" where
  "srv_getAccount env a = andThen thisServer (\<lambda>i. request (GetAccount i a) (\<lambda>l. e_getAccount env l a))"

definition srv_prepare :: "env \<Rightarrow> tx \<Rightarrow> ptx io" where
  "srv_prepare env t = andThen thisServer (\<lambda>i. request (Prepare i t) (\<lambda>l. e_prepare env l t))"

definition srv_send :: "env \<Rightarrow> ptx \<Rightarrow> send_result io" where
  "srv_send env p = andThen thisServer (\<lambda>i. request (Send i p) (\<lambda>l. e_send env l p))"

definition srv_simulate :: "env \<Rightarrow> tx \<Rightarrow> sim_result io" where
  "srv_simulate env t = andThen thisServer (\<lambda>i. request (Simulate i t) (\<lambda>l. e_simulate env l t))"

definition srv_getTransaction :: "env \<Rightarrow> string \<Rightarrow> tx_status io" where
  "srv_getTransaction env h =
     andThen thisServer (\<lambda>i. request (GetTransaction i h) (\<lambda>l. e_getTransaction env l h))"

definition checkHealth :: "env \<Rightarrow> client \<Rightarrow> unit io" where
  "checkHealth env cl = andThen get_index (\<lambda>i.
     let rpcUrl = (if i < length (cl_servers cl) then cl_servers cl ! i else ''unknown RPC'') in
     io_catch (retry_default (andThen thisServer (\<lambda>i. request (GetHealth i) (e_getHealth env))))
       (\<lambda>err. io_throw (wrapNetworkError err rpcUrl (Some ''getHealth''))))"

text \<open>The promise \<open>ready\<close> of a new client.\<close>

definition client_ready :: "env \<Rightarrow> client \<Rightarrow> unit io" where
  "client_ready env cl = io_catch (checkHealth env cl) (\<lambda>err.
     io_throw (SdkThrown (sdk_error_code (''Client not ready: '' @ err_message err) CLIENT_NOT_READY (Some err))))"

lemma emits_thisServer [emits]: "emits P thisServer"
  by (simp add: emits_def thisServer_def)

lemma emits_set_index [emits]: "emits P (set_index i)"
  and emits_get_index [emits]: "emits P get_index"
  by (simp_all add: emits_def set_index_def get_index_def)

lemma emits_srv_getAccount [emits]: "(\<And>i. P (GetAccount i a)) \<Longrightarrow> emits P (srv_getAccount env a)"
  and emits_srv_prepare [emits]: "(\<And>i. P (Prepare i t)) \<Longrightarrow> emits P (srv_prepare env t)"
  and emits_srv_send [emits]: "(\<And>i. P (Send i p)) \<Longrightarrow> emits P (srv_send env p)"
  and emits_srv_simulate [emits]: "(\<And>i. P (Simulate i t)) \<Longrightarrow> emits P (srv_simulate env t)"
  and emits_srv_getTransaction [emits]: "(\<And>i. P (GetTransaction i h)) \<Longrightarrow> emits P (srv_getTransaction env h)"
  by (auto simp: srv_getAccount_def srv_prepare_def srv_send_def srv_simulate_def srv_getTransaction_def
      intro!: emits)

section \<open>Failover\<close>

definition failover_error :: "thrown \<Rightarrow> bool" where
  "failover_error error = (let errorStr = err_string error in
     str_includes errorStr ''ECONNRESET'' \<or> str_includes errorStr ''ETIMEDOUT'' \<or>
     str_includes errorStr ''ECONNREFUSED'' \<or> str_includes errorStr ''ENOTFOUND'' \<or>
     str_includes errorStr ''fetch failed'' \<or> str_includes errorStr ''503'' \<or>
     str_includes errorStr ''502'' \<or> str_includes errorStr ''504'')"

text \<open>The loop over the servers; \<open>lastError\<close> starts as \<open>undefined\<close>.\<close>

fun failover_loop :: "client \<Rightarrow> (nat \<Rightarrow> 'a io) \<Rightarrow> nat \<Rightarrow> thrown \<Rightarrow> nat \<Rightarrow> 'a io" where
  "failover_loop cl fn attempt lastError 0 =
     io_throw (wrapNetworkError lastError (join '', '' (cl_servers cl)) (Some ''executeWithFailover''))"
| "failover_loop cl fn attempt lastError (Suc left) = andThen get_index (\<lambda>current.
     let serverIndex = (current + attempt) mod length (cl_servers cl) in
     io_catch (andThen (fn serverIndex) (\<lambda>result. andThen (set_index serverIndex) (\<lambda>_. io_return result)))
       (\<lambda>error. if failover_error error then failover_loop cl fn (attempt + 1) error left
                else io_throw error))"

definition failover :: "client \<Rightarrow> (nat \<Rightarrow> 'a io) \<Rightarrow> 'a io" where
  "failover cl fn = failover_loop cl fn 0 (StringThrown ''undefined'') (length (cl_servers cl))"

text \<open>
  The queue's treatment of one request: \<open>request\<close> carries its retry count, \<open>s\<close> the queue's base delay.
\<close>

definition queue_error :: "client \<Rightarrow> thrown \<Rightarrow> rq_error" where
  "queue_error cl e = \<lparr>rq_thrown = e, response_headers = cl_responseHeaders cl e, own_headers = None\<rparr>"

fun queue_loop :: "client \<Rightarrow> unit rq \<Rightarrow> 'a io \<Rightarrow> nat \<Rightarrow> nat \<Rightarrow> 'a io" where
  "queue_loop cl s fn n 0 = io_catch fn (\<lambda>e. let error = queue_error cl e in
     if is429 error then io_throw (RateLimitThrown (getRetryDelay s error n)) else io_throw e)"
| "queue_loop cl s fn n (Suc left) = io_catch fn (\<lambda>e. let error = queue_error cl e in
     if shouldRetry error \<lparr>req_id = 0, retries = n, maxRetries = n + Suc left\<rparr> then
       andThen (sleep (getRetryDelay s error n)) (\<lambda>_. queue_loop cl s fn (n + 1) left)
     else if is429 error then io_throw (RateLimitThrown (getRetryDelay s error n))
     else io_throw e)"

definition queue_run :: "client \<Rightarrow> 'a io \<Rightarrow> 'a io" where
  "queue_run cl fn = (let d = (case cfg_retryDelay (cl_config cl) of
       Some d \<Rightarrow> if d = 0 then 1000 else d | None \<Rightarrow> 1000)
     in queue_loop cl (new_rq 5 d) fn 0 3)"

definition executeWithFailover :: "client \<Rightarrow> (nat \<Rightarrow> 'a io) \<Rightarrow> 'a io" where
  "executeWithFailover cl fn = (\<lambda>w. if w_disposed w then (Inl DisposedThrown, w)
     else queue_run cl (failover cl fn) w)"

lemma emits_failover_loop: "(\<And>i. emits P (fn i)) \<Longrightarrow> emits P (failover_loop cl fn a e n)"
  by (induction cl fn a e n rule: failover_loop.induct) (auto simp: Let_def intro!: emits)

lemma emits_queue_loop: "emits P fn \<Longrightarrow> (\<And>ms. P (Sleep ms)) \<Longrightarrow> emits P (queue_loop cl s fn k n)"
  by (induction cl s fn k n rule: queue_loop.induct) (auto simp: Let_def intro!: emits)

lemma emits_executeWithFailover [emits]:
  assumes "\<And>i. emits P (fn i)" "\<And>ms. P (Sleep ms)"
  shows "emits P (executeWithFailover cl fn)"
proof -
  have q: "emits P (queue_run cl (failover cl fn))"
    using assms by (simp add: queue_run_def failover_def Let_def emits_queue_loop emits_failover_loop)
  show ?thesis
    using emitsD [OF q] by (intro emitsI) (simp add: executeWithFailover_def)
qed

text \<open>The world before the attempt on the k-th server, counted from the current one.\<close>

fun failover_world :: "nat \<Rightarrow> (nat \<Rightarrow> 'a io) \<Rightarrow> world \<Rightarrow> nat \<Rightarrow> world" where
  "failover_world n fn w 0 = w"
| "failover_world n fn w (Suc k) = snd (fn ((w_index w + k) mod n) (failover_world n fn w k))"

definition fails_over :: "thrown + 'a \<Rightarrow> bool" where
  "fails_over r = (case r of Inl e \<Rightarrow> failover_error e | Inr x \<Rightarrow> False)"

lemma failover_world_index:
  "(\<And>i w. w_index (snd (fn i w)) = w_index w) \<Longrightarrow> w_index (failover_world n fn w k) = w_index w"
  by (induction k) simp_all

definition attempt_on :: "nat \<Rightarrow> (nat \<Rightarrow> 'a io) \<Rightarrow> world \<Rightarrow> nat \<Rightarrow> thrown + 'a" where
  "attempt_on n fn w k = fst (fn ((w_index w + k) mod n) (failover_world n fn w k))"

definition failover_result :: "nat \<Rightarrow> (nat \<Rightarrow> 'a io) \<Rightarrow> world \<Rightarrow> nat \<Rightarrow> (thrown + 'a) \<times> world" where
  "failover_result n fn w k = (case attempt_on n fn w k of
     Inl e \<Rightarrow> (Inl e, failover_world n fn w (Suc k))
   | Inr x \<Rightarrow> (Inr x, (failover_world n fn w (Suc k))\<lparr>w_index := (w_index w + k) mod n\<rparr>))"

lemma failover_loop_step:
  assumes idx: "\<And>i w. w_index (snd (fn i w)) = w_index w" and n: "n = length (cl_servers cl)"
  shows "\<not> fails_over (attempt_on n fn w k) \<Longrightarrow>
      failover_loop cl fn k e (Suc left) (failover_world n fn w k) = failover_result n fn w k"
    and "attempt_on n fn w k = Inl e' \<Longrightarrow> failover_error e' \<Longrightarrow>
      failover_loop cl fn k e (Suc left) (failover_world n fn w k)
        = failover_loop cl fn (Suc k) e' left (failover_world n fn w (Suc k))"
proof -
  let ?w = "failover_world n fn w k"
  have i: "w_index ?w = w_index w" by (rule failover_world_index [OF idx])
  obtain r w' where r: "fn ((w_index w + k) mod n) ?w = (r, w')" by (cases "fn ((w_index w + k) mod n) ?w")
  show "failover_loop cl fn k e (Suc left) ?w = failover_result n fn w k"
    if "\<not> fails_over (attempt_on n fn w k)"
    using that r i
    by (cases r) (auto simp: n io_run andThen_def io_catch_def get_index_def set_index_def Let_def
        attempt_on_def failover_result_def fails_over_def)
  show "failover_loop cl fn k e (Suc left) ?w
        = failover_loop cl fn (Suc k) e' left (failover_world n fn w (Suc k))"
    if "attempt_on n fn w k = Inl e'" "failover_error e'"
    using that r i
    by (cases r) (auto simp: n io_run andThen_def io_catch_def get_index_def set_index_def Let_def
        attempt_on_def)
qed

lemma failover_loop_run:
  assumes idx: "\<And>i w. w_index (snd (fn i w)) = w_index w" and n: "n = length (cl_servers cl)"
  shows "(\<exists>e'. (\<forall>j. k \<le> j \<and> j < k + left \<longrightarrow> fails_over (attempt_on n fn w j)) \<and>
      (if left = 0 then e' = e else attempt_on n fn w (k + left - 1) = Inl e') \<and>
      failover_loop cl fn k e left (failover_world n fn w k)
        = (Inl (wrapNetworkError e' (join '', '' (cl_servers cl)) (Some ''executeWithFailover'')),
           failover_world n fn w (k + left))) \<or>
    (\<exists>m. k \<le> m \<and> m < k + left \<and> (\<forall>j. k \<le> j \<and> j < m \<longrightarrow> fails_over (attempt_on n fn w j)) \<and>
      \<not> fails_over (attempt_on n fn w m) \<and>
      failover_loop cl fn k e left (failover_world n fn w k) = failover_result n fn w m)"
proof (induction left arbitrary: k e)
  case 0
  then show ?case by (intro disjI1 exI [of _ e]) (auto simp: io_run)
next
  case (Suc left)
  show ?case
  proof (cases "fails_over (attempt_on n fn w k)")
    case False
    then show ?thesis
      using failover_loop_step(1) [OF idx n False] by (intro disjI2 exI [of _ k]) (simp, auto)
  next
    case True
    then obtain e1 where e1: "attempt_on n fn w k = Inl e1" "failover_error e1"
      by (auto simp: fails_over_def split: sum.splits)
    have step: "failover_loop cl fn k e (Suc left) (failover_world n fn w k)
        = failover_loop cl fn (Suc k) e1 left (failover_world n fn w (Suc k))"
      by (rule failover_loop_step(2) [OF idx n e1])
    have from_k: "fails_over (attempt_on n fn w j)"
      if "k \<le> j" "Suc k \<le> j \<longrightarrow> fails_over (attempt_on n fn w j)" for j
      using that True by (cases "j = k") auto
    from Suc.IH [of "Suc k" e1] show ?thesis
    proof
      assume "\<exists>e'. (\<forall>j. Suc k \<le> j \<and> j < Suc k + left \<longrightarrow> fails_over (attempt_on n fn w j)) \<and>
        (if left = 0 then e' = e1 else attempt_on n fn w (Suc k + left - 1) = Inl e') \<and>
        failover_loop cl fn (Suc k) e1 left (failover_world n fn w (Suc k))
          = (Inl (wrapNetworkError e' (join '', '' (cl_servers cl)) (Some ''executeWithFailover'')),
             failover_world n fn w (Suc k + left))"
      then obtain e' where e': "\<forall>j. Suc k \<le> j \<and> j < Suc k + left \<longrightarrow> fails_over (attempt_on n fn w j)"
        "if left = 0 then e' = e1 else attempt_on n fn w (Suc k + left - 1) = Inl e'"
        "failover_loop cl fn (Suc k) e1 left (failover_world n fn w (Suc k))
          = (Inl (wrapNetworkError e' (join '', '' (cl_servers cl)) (Some ''executeWithFailover'')),
             failover_world n fn w (Suc k + left))" by blast
      have "attempt_on n fn w (k + Suc left - 1) = Inl e'" using e'(2) e1(1) by (cases left) auto
      then show ?thesis
        using e' step from_k by (intro disjI1 exI [of _ e']) auto
    next
      assume "\<exists>m. Suc k \<le> m \<and> m < Suc k + left \<and>
        (\<forall>j. Suc k \<le> j \<and> j < m \<longrightarrow> fails_over (attempt_on n fn w j)) \<and>
        \<not> fails_over (attempt_on n fn w m) \<and>
        failover_loop cl fn (Suc k) e1 left (failover_world n fn w (Suc k)) = failover_result n fn w m"
      then obtain m where "Suc k \<le> m" "m < Suc k + left"
        "\<forall>j. Suc k \<le> j \<and> j < m \<longrightarrow> fails_over (attempt_on n fn w j)" "\<not> fails_over (attempt_on n fn w m)"
        "failover_loop cl fn (Suc k) e1 left (failover_world n fn w (Suc k)) = failover_result n fn w m"
        by blast
      then show ?thesis using step from_k by (intro disjI2 exI [of _ m]) auto
    qed
  qed
qed

section \<open>Confirmation of a sent transaction\<close>

text \<open>The polling loop of \<open>executeTransaction\<close> and \<open>submitSignedTransaction\<close>: it waits before each request.\<close>

fun confirm_loop :: "tx_status io \<Rightarrow> rat \<Rightarrow> thrown \<Rightarrow> thrown \<Rightarrow> nat \<Rightarrow> retval option io" where
  "confirm_loop getTx interval failed timeout 0 = io_throw timeout"
| "confirm_loop getTx interval failed timeout (Suc left) = andThen (sleep interval) (\<lambda>_.
     andThen getTx (\<lambda>status. case status of
       TxSuccess rv \<Rightarrow> io_return rv
     | TxFailed x \<Rightarrow> io_throw failed
     | TxOther x \<Rightarrow> confirm_loop getTx interval failed timeout left))"

definition confirmation_timeout :: "string \<Rightarrow> thrown" where
  "confirmation_timeout hash = SdkThrown (sdk_error_init
     (''Transaction confirmation timeout (hash: '' @ hash @ ''). The transaction was broadcast and may still ''
       @ ''succeed - check its status via this hash before resubmitting.'')
     (empty_init\<lparr>init_code := Some TIMEOUT, init_txHash := Some hash\<rparr>) None)"

lemma emits_confirm_loop:
  "emits P g \<Longrightarrow> (\<And>ms. P (Sleep ms)) \<Longrightarrow> emits P (confirm_loop g d f t n)"
  by (induction g d f t n rule: confirm_loop.induct) (auto intro!: emits)

text \<open>
  A confirmed transaction: some poll within the budget, after inconclusive ones, was answered \<open>SUCCESS\<close>.
\<close>

definition confirm_trace :: "rat \<Rightarrow> effect \<Rightarrow> nat \<Rightarrow> effect list" where
  "confirm_trace d e k = concat (replicate k [Sleep d, e])"

lemma confirm_trace_simps [simp]:
  "confirm_trace d e 0 = []" "confirm_trace d e (Suc k) = Sleep d # e # confirm_trace d e k"
  by (simp_all add: confirm_trace_def)

lemma confirm_loop_success:
  "confirm_loop g d f t n w = (Inr rv, w') \<Longrightarrow>
    (\<And>w. g w = (answer (w_log w), w\<lparr>w_log := w_log w @ [e]\<rparr>)) \<Longrightarrow>
    \<exists>k < n. answer (w_log w @ confirm_trace d e k @ [Sleep d]) = Inr (TxSuccess rv) \<and>
      (\<forall>j < k. inconclusive (answer (w_log w @ confirm_trace d e j @ [Sleep d]))) \<and>
      w' = w\<lparr>w_log := w_log w @ confirm_trace d e (Suc k)\<rparr>"
proof (induction n arbitrary: w)
  case 0
  then show ?case by (simp add: io_run)
next
  case (Suc n)
  let ?w = "w\<lparr>w_log := w_log w @ [Sleep d, e]\<rparr>" and ?a = "answer (w_log w @ [Sleep d])"
  have step: "confirm_loop g d f t (Suc n) w = (case ?a of Inl x \<Rightarrow> (Inl x, ?w)
      | Inr (TxSuccess rv) \<Rightarrow> (Inr rv, ?w) | Inr (TxFailed x) \<Rightarrow> (Inl f, ?w)
      | Inr (TxOther x) \<Rightarrow> confirm_loop g d f t n ?w)"
    by (simp add: andThen_def Suc.prems(2) io_run split: sum.split tx_status.split)
  show ?case
  proof (cases "\<exists>s. ?a = Inr (TxOther s)")
    case True
    then have "confirm_loop g d f t n ?w = (Inr rv, w')" using step Suc.prems(1) by auto
    from Suc.IH [OF this Suc.prems(2)] obtain k where k: "k < n"
      "answer (w_log ?w @ confirm_trace d e k @ [Sleep d]) = Inr (TxSuccess rv)"
      "\<forall>j < k. inconclusive (answer (w_log ?w @ confirm_trace d e j @ [Sleep d]))"
      "w' = ?w\<lparr>w_log := w_log ?w @ confirm_trace d e (Suc k)\<rparr>" by blast
    have "inconclusive (answer (w_log w @ confirm_trace d e j @ [Sleep d]))" if "j < Suc k" for j
      using that k(3) True by (cases j) (auto simp: inconclusive_def)
    then show ?thesis using k by (intro exI [of _ "Suc k"]) simp
  next
    case False
    then have "?a = Inr (TxSuccess rv) \<and> w' = ?w"
      using step Suc.prems(1) by (auto split: sum.splits tx_status.splits)
    then show ?thesis by (intro exI [of _ 0]) simp
  qed
qed

section \<open>\<open>executeTransaction\<close>\<close>

record tx_options =
  to_pollInterval :: "rat option"
  to_pollRetries :: "nat option"
  to_gasMultiplier :: "rat option"

text \<open>\<open>Math.ceil(parseInt(fee, 10) * multiplier).toString()\<close>\<close>

definition scaled_fee :: "string \<Rightarrow> rat \<Rightarrow> string" where
  "scaled_fee fee m = (case parse_int fee of None \<Rightarrow> ''NaN'' | Some n \<Rightarrow> int_to_string \<lceil>of_int n * m\<rceil>)"

definition apply_gas :: "tx_options \<Rightarrow> ptx \<Rightarrow> ptx" where
  "apply_gas options prepared = (let gasMultiplier = opt_or (to_gasMultiplier options) 1 in
     if gasMultiplier \<noteq> 1 then prepared\<lparr>p_fee := scaled_fee (p_fee prepared) gasMultiplier\<rparr> else prepared)"

text \<open>\<open>i\<close> is the index of \<open>server\<close>; the signer may throw.\<close>

definition executeTransaction ::
    "env \<Rightarrow> string \<Rightarrow> nat \<Rightarrow> tx \<Rightarrow> (ptx \<Rightarrow> thrown + ptx) \<Rightarrow> tx_options \<Rightarrow> retval option io" where
  "executeTransaction env rpcUrl i t signer options =
     andThen (io_catch (andThen (request (Prepare i t) (\<lambda>l. e_prepare env l t))
         (\<lambda>prepared. io_return (apply_gas options prepared)))
       (\<lambda>err. io_throw (wrapNetworkError err rpcUrl (Some ''prepareTransaction'')))) (\<lambda>prepared.
     andThen (io_lift (signer prepared)) (\<lambda>signed.
     andThen (io_catch (request (Send i signed) (\<lambda>l. e_send env l signed))
       (\<lambda>err. io_throw (wrapNetworkError err rpcUrl (Some ''sendTransaction'')))) (\<lambda>result.
     if send_status result \<noteq> ''PENDING'' then io_throw (error_class (''Transaction failed: '' @ send_status result))
     else confirm_loop
       (io_catch (request (GetTransaction i (send_hash result)) (\<lambda>l. e_getTransaction env l (send_hash result)))
         (\<lambda>err. io_throw (wrapNetworkError err rpcUrl (Some ''getTransaction''))))
       (opt_or (to_pollInterval options) 2000) (error_class ''Transaction failed on-chain'')
       (confirmation_timeout (send_hash result)) (opt_or (to_pollRetries options) 10))))"

section \<open>\<open>submitSignedTransaction\<close>\<close>

text \<open>One attempt, on the server \<open>i\<close>; \<open>p\<close> is the transaction read from its XDR.\<close>

definition submit_on :: "env \<Rightarrow> client \<Rightarrow> ptx \<Rightarrow> nat \<Rightarrow> string io" where
  "submit_on env cl p i = andThen (request (Send i p) (\<lambda>l. e_send env l p)) (\<lambda>result.
     if send_status result \<noteq> ''PENDING'' then
       io_throw (sdk_throw (''Transaction submission failed with status: '' @ send_status result) CONTRACT_ERROR)
     else andThen (confirm_loop
         (request (GetTransaction i (send_hash result)) (\<lambda>l. e_getTransaction env l (send_hash result)))
         (opt_or (cfg_pollingIntervalMs (cl_config cl)) 2000)
         (SdkThrown (sdk_error_init ''Transaction failed on-chain''
           (empty_init\<lparr>init_code := Some CONTRACT_ERROR, init_txHash := Some (send_hash result)\<rparr>) None))
         (confirmation_timeout (send_hash result)) (opt_or (cfg_pollingRetries (cl_config cl)) 10))
       (\<lambda>_. io_return (send_hash result)))"

text \<open>\<open>fromXDR\<close> is \<open>TransactionBuilder.fromXDR\<close> of the Stellar SDK.\<close>

definition submitSignedTransaction ::
    "(string \<Rightarrow> string \<Rightarrow> thrown + ptx) \<Rightarrow> env \<Rightarrow> client \<Rightarrow> string \<Rightarrow> string io" where
  "submitSignedTransaction fromXDR env cl signedXdr =
     andThen (io_lift (fromXDR signedXdr (cfg_networkPassphrase (cl_config cl))))
       (\<lambda>p. executeWithFailover cl (submit_on env cl p))"

section \<open>\<open>buildUnsignedTransaction\<close>\<close>

text \<open>\<open>BASE_FEE\<close> of the Stellar SDK.\<close>

definition BASE_FEE :: string where
  "BASE_FEE = ''100''"

definition new_account :: "env \<Rightarrow> string \<Rightarrow> string \<Rightarrow> thrown + account" where
  "new_account env publicKey seq = (case e_newAccount env publicKey of
     Some e \<Rightarrow> Inl e | None \<Rightarrow> Inr \<lparr>acc_id = publicKey, acc_seq = seq\<rparr>)"

text \<open>\<open>toXDR\<close> and \<open>hash\<close> are the two methods of a built transaction.\<close>

definition buildUnsignedTransaction :: "(tx \<Rightarrow> string) \<Rightarrow> (tx \<Rightarrow> byte list) \<Rightarrow> env \<Rightarrow> client \<Rightarrow> operation \<Rightarrow>
    string \<Rightarrow> string \<Rightarrow> nat option \<Rightarrow> nat option \<Rightarrow> thrown + string \<times> string" where
  "buildUnsignedTransaction toXDR hash env cl operation publicKey sequence timeoutSeconds fee =
     bind_result (new_account env publicKey sequence) (\<lambda>account.
       let t = \<lparr>tx_account = account,
                tx_fee = (case fee of Some f \<Rightarrow> nat_to_string f | None \<Rightarrow> BASE_FEE),
                tx_network = cfg_networkPassphrase (cl_config cl), tx_ops = [operation],
                tx_timeout = opt_or (orElse timeoutSeconds (cfg_txTimeout (cl_config cl))) 30\<rparr>
       in Inr (toXDR t, to_hex (hash t)))"

section \<open>Properties\<close>

lemma failover_run:
  assumes "\<And>i w. w_index (snd (fn i w)) = w_index w" "n = length (cl_servers cl)" "0 < n"
  shows "(\<exists>e. (\<forall>j < n. fails_over (attempt_on n fn w j)) \<and> attempt_on n fn w (n - 1) = Inl e \<and>
      failover cl fn w = (Inl (wrapNetworkError e (join '', '' (cl_servers cl)) (Some ''executeWithFailover'')),
        failover_world n fn w n)) \<or>
    (\<exists>m < n. (\<forall>j < m. fails_over (attempt_on n fn w j)) \<and> \<not> fails_over (attempt_on n fn w m) \<and>
      failover cl fn w = failover_result n fn w m)"
  using failover_loop_run [where fn = fn and k = 0 and left = n and w = w and cl = cl and n = n
      and e = "StringThrown ''undefined''", OF assms(1,2)] assms(2,3)
  by (auto simp: failover_def)

lemma mod_shift_cancel:
  assumes "a \<le> b" "b < n" "(i + a) mod n = (i + b) mod (n :: nat)"
  shows "a = b"
proof -
  have "n dvd (i + b) - (i + a)" using assms(1,3) by (metis mod_eq_dvd_iff_nat add_left_mono)
  then have "n dvd b - a" by simp
  then show ?thesis using assms(1,2) by (auto dest: dvd_imp_le)
qed

lemma server_order: "0 < n \<Longrightarrow> bij_betw (\<lambda>k. (i + k) mod n) {..<n} {..<n :: nat}"
proof -
  assume n: "0 < n"
  have inj: "inj_on (\<lambda>k. (i + k) mod n) {..<n}"
  proof (rule inj_onI)
    fix a b assume ab: "a \<in> {..<n}" "b \<in> {..<n}" "(i + a) mod n = (i + b) mod n"
    then show "a = b"
      using mod_shift_cancel [of a b n i] mod_shift_cancel [of b a n i] by (cases "a \<le> b") auto
  qed
  moreover have "(\<lambda>k. (i + k) mod n) ` {..<n} \<subseteq> {..<n}" using n by auto
  ultimately show ?thesis
    by (simp add: bij_betw_def card_subset_eq card_image)
qed

text \<open>
  Failover tries the servers in cyclic order from the current one, each at most once, and goes on
  only after a transport error. The first other outcome is the result; on success the server that gave
  it becomes the current one, on an error the current server stays. When every server fails, the last
  error is wrapped and thrown, and the current server stays.
\<close>

theorem failover_tries_servers_in_turn:
  fixes cl :: client and fn :: "nat \<Rightarrow> 'a io" and w :: world
  defines "n \<equiv> length (cl_servers cl)"
  assumes attempts_keep_index: "\<And>i w. w_index (snd (fn i w)) = w_index w" and "0 < n"
  shows "bij_betw (\<lambda>k. (w_index w + k) mod n) {..<n} {..<n} \<and>
    ((\<exists>e. (\<forall>j < n. fails_over (attempt_on n fn w j)) \<and> attempt_on n fn w (n - 1) = Inl e \<and>
        failover cl fn w = (Inl (wrapNetworkError e (join '', '' (cl_servers cl)) (Some ''executeWithFailover'')),
          failover_world n fn w n) \<and> w_index (snd (failover cl fn w)) = w_index w) \<or>
     (\<exists>m < n. (\<forall>j < m. fails_over (attempt_on n fn w j)) \<and> \<not> fails_over (attempt_on n fn w m) \<and>
        fst (failover cl fn w) = attempt_on n fn w m \<and>
        w_index (snd (failover cl fn w)) =
          (case attempt_on n fn w m of Inl e \<Rightarrow> w_index w | Inr x \<Rightarrow> (w_index w + m) mod n)))"
proof -
  have n: "n = length (cl_servers cl)" by (simp add: n_def)
  note idx = failover_world_index [where fn = fn and n = n and w = w, OF attempts_keep_index]
  from failover_run [where fn = fn and w = w and cl = cl and n = n, OF attempts_keep_index n \<open>0 < n\<close>]
  have "(\<exists>e. (\<forall>j < n. fails_over (attempt_on n fn w j)) \<and> attempt_on n fn w (n - 1) = Inl e \<and>
        failover cl fn w = (Inl (wrapNetworkError e (join '', '' (cl_servers cl)) (Some ''executeWithFailover'')),
          failover_world n fn w n) \<and> w_index (snd (failover cl fn w)) = w_index w) \<or>
     (\<exists>m < n. (\<forall>j < m. fails_over (attempt_on n fn w j)) \<and> \<not> fails_over (attempt_on n fn w m) \<and>
        fst (failover cl fn w) = attempt_on n fn w m \<and>
        w_index (snd (failover cl fn w)) =
          (case attempt_on n fn w m of Inl e \<Rightarrow> w_index w | Inr x \<Rightarrow> (w_index w + m) mod n))"
  proof
    assume "\<exists>m < n. (\<forall>j < m. fails_over (attempt_on n fn w j)) \<and> \<not> fails_over (attempt_on n fn w m) \<and>
      failover cl fn w = failover_result n fn w m"
    then obtain m where m: "m < n" "\<forall>j < m. fails_over (attempt_on n fn w j)" "\<not> fails_over (attempt_on n fn w m)"
      "failover cl fn w = failover_result n fn w m" by blast
    have "fst (failover_result n fn w m) = attempt_on n fn w m"
      "w_index (snd (failover_result n fn w m)) =
        (case attempt_on n fn w m of Inl e \<Rightarrow> w_index w | Inr x \<Rightarrow> (w_index w + m) mod n)"
      using attempts_keep_index idx by (auto simp: failover_result_def split: sum.split)
    then show ?thesis using m by auto
  qed (use idx in auto)
  then show ?thesis using server_order [OF \<open>0 < n\<close>] by blast
qed

text \<open>Two servers; the first refuses the connection.\<close>

definition demo_config :: config where
  "demo_config = \<lparr>cfg_networkPassphrase = ''Test'', cfg_txTimeout = None, cfg_maxRetries = None,
     cfg_pollingRetries = None, cfg_retryIntervalMs = None, cfg_pollingIntervalMs = None,
     cfg_pollingExponentialBackoff = None, cfg_baseDelayMs = None, cfg_backoffFactor = None,
     cfg_retryDelay = None, cfg_identityRegistryId = ''CID'', cfg_credentialManagerId = ''CCM'',
     cfg_reputationId = ''CREP''\<rparr>"

definition demo_client :: client where
  "demo_client = \<lparr>cl_config = demo_config, cl_servers = [''http://a'', ''http://b''], cl_contract = ''CID'',
     cl_responseHeaders = (\<lambda>e. None)\<rparr>"

definition one_down :: "nat \<Rightarrow> string io" where
  "one_down i = (if i = 0 then io_throw (error_class ''connect ECONNREFUSED'') else io_return ''ok'')"

lemma failover_tries_servers_in_turn_witness:
  "fst (failover demo_client one_down fresh_world) = Inr ''ok'' \<and>
   w_index (snd (failover demo_client one_down fresh_world)) = 1"
proof -
  have idx: "w_index (snd (one_down i w)) = w_index w" for i w
    by (simp add: one_down_def io_run)
  have a: "attempt_on 2 one_down fresh_world 0 = Inl (error_class ''connect ECONNREFUSED'')"
      "attempt_on 2 one_down fresh_world 1 = Inr ''ok''" "w_index fresh_world = 0"
    by (simp_all add: attempt_on_def one_down_def fresh_world_def io_run)
  have f: "failover_error (error_class ''connect ECONNREFUSED'')" by code_simp
  have len: "length (cl_servers demo_client) = 2" by (simp add: demo_client_def)
  have "0 < length (cl_servers demo_client)" by (simp add: len)
  from failover_tries_servers_in_turn [where fn = one_down and w = fresh_world, OF idx this]
  consider (down) e where "attempt_on 2 one_down fresh_world 1 = Inl e"
    | (up) m where "m < 2" "\<not> fails_over (attempt_on 2 one_down fresh_world m)"
      "fst (failover demo_client one_down fresh_world) = attempt_on 2 one_down fresh_world m"
      "w_index (snd (failover demo_client one_down fresh_world)) =
        (case attempt_on 2 one_down fresh_world m of Inl e \<Rightarrow> w_index fresh_world | Inr x \<Rightarrow> (w_index fresh_world + m) mod 2)"
    unfolding len by (elim conjE disjE exE) (simp_all add: that)
  then show ?thesis
  proof cases
    case (up m)
    have "m \<noteq> 0" using up(2) a(1) f by (metis fails_over_def sum.case(1))
    then have "m = 1" using up(1) by simp
    then show ?thesis using up a by simp
  qed (use a in simp)
qed

text \<open>
  C6. \<open>executeTransaction\<close> returns only for a confirmed transaction. Its requests are then exactly: one
  preparation, one broadcast of the signed and fee-scaled transaction that the node took as \<open>PENDING\<close>,
  and polls, each after a delay and within the retry budget, of which all but the last were
  inconclusive and the last was answered \<open>SUCCESS\<close> with the returned value.
\<close>

theorem executeTransaction_confirmed:
  assumes "executeTransaction env url i t signer opts w = (Inr rv, w')"
  shows "\<exists>p s r k. e_prepare env (w_log w) t = Inr p \<and> signer (apply_gas opts p) = Inr s \<and>
    e_send env (w_log w @ [Prepare i t]) s = Inr r \<and> send_status r = ''PENDING'' \<and>
    k < opt_or (to_pollRetries opts) 10 \<and>
    (let sent = w_log w @ [Prepare i t, Send i s];
         trace = confirm_trace (opt_or (to_pollInterval opts) 2000) (GetTransaction i (send_hash r));
         answer = (\<lambda>j. e_getTransaction env
           (sent @ trace j @ [Sleep (opt_or (to_pollInterval opts) 2000)]) (send_hash r))
     in (\<forall>j < k. inconclusive (answer j)) \<and> answer k = Inr (TxSuccess rv) \<and>
        w_log w' = sent @ trace (Suc k))"
proof -
  let ?d = "opt_or (to_pollInterval opts) 2000"
  obtain p where p: "e_prepare env (w_log w) t = Inr p"
    using assms by (cases "e_prepare env (w_log w) t")
      (auto simp: executeTransaction_def andThen_def io_catch_def io_run)
  obtain s where s: "signer (apply_gas opts p) = Inr s"
    using assms p by (cases "signer (apply_gas opts p)")
      (auto simp: executeTransaction_def andThen_def io_catch_def io_run)
  obtain r where r: "e_send env (w_log w @ [Prepare i t]) s = Inr r"
    using assms p s by (cases "e_send env (w_log w @ [Prepare i t]) s")
      (auto simp: executeTransaction_def andThen_def io_catch_def io_run)
  let ?g = "io_catch (request (GetTransaction i (send_hash r)) (\<lambda>l. e_getTransaction env l (send_hash r)))
      (\<lambda>err. io_throw (wrapNetworkError err url (Some ''getTransaction'')))"
  let ?w = "w\<lparr>w_log := w_log w @ [Prepare i t, Send i s]\<rparr>"
  have st: "send_status r = ''PENDING''"
    and loop: "confirm_loop ?g ?d (error_class ''Transaction failed on-chain'')
      (confirmation_timeout (send_hash r)) (opt_or (to_pollRetries opts) 10) ?w = (Inr rv, w')"
    using assms p s r
    by (auto simp: executeTransaction_def andThen_def io_catch_def io_run split: if_splits)
  let ?ans = "\<lambda>l. case e_getTransaction env l (send_hash r) of
      Inl e \<Rightarrow> Inl (wrapNetworkError e url (Some ''getTransaction'')) | Inr x \<Rightarrow> Inr x"
  have g: "?g w = (?ans (w_log w), w\<lparr>w_log := w_log w @ [GetTransaction i (send_hash r)]\<rparr>)" for w
    by (auto simp: io_catch_def io_run split: sum.split)
  have inc: "inconclusive (?ans l) \<longleftrightarrow> inconclusive (e_getTransaction env l (send_hash r))"
    and suc: "?ans l = Inr x \<longleftrightarrow> e_getTransaction env l (send_hash r) = Inr x" for l x
    by (auto simp: inconclusive_def split: sum.split)
  from confirm_loop_success [where answer = ?ans, OF loop g] show ?thesis
    using p s r st unfolding inc suc Let_def by fastforce
qed

definition demo_tx :: tx where
  "demo_tx = \<lparr>tx_account = \<lparr>acc_id = ''G'', acc_seq = ''0''\<rparr>, tx_fee = ''100'', tx_network = ''Test'',
     tx_ops = [], tx_timeout = 30\<rparr>"

definition demo_ptx :: ptx where
  "demo_ptx = \<lparr>p_tx = demo_tx, p_fee = ''101'', p_signers = []\<rparr>"

text \<open>An environment that prepares, accepts and confirms the second time it is asked.\<close>

definition demo_env :: env where
  "demo_env = \<lparr>e_getAccount = (\<lambda>l a. Inr \<lparr>acc_id = a, acc_seq = ''0''\<rparr>),
     e_prepare = (\<lambda>l t. Inr \<lparr>p_tx = t, p_fee = ''101'', p_signers = []\<rparr>),
     e_send = (\<lambda>l p. Inr \<lparr>send_status = ''PENDING'', send_hash = ''ab''\<rparr>),
     e_getTransaction = (\<lambda>l h. if length l < 5 then Inr (TxOther ''NOT_FOUND'') else Inr (TxSuccess None)),
     e_simulate = (\<lambda>l t. Inr (SimOk None)), e_getHealth = (\<lambda>l. Inr ()), e_getLatestLedger = (\<lambda>l. Inr 7),
     e_random = (\<lambda>l. 0), e_isValidKey = (\<lambda>s. length s = 56), e_isValidContract = (\<lambda>s. length s = 56),
     e_newAccount = (\<lambda>s. if length s = 56 then None else Some (error_class ''accountId is invalid'')),
     e_nativeToScVal = (\<lambda>v h. None), e_scValToNative = (\<lambda>r. case r of RPlain v \<Rightarrow> Inr v
       | RScVal (Native v h) \<Rightarrow> Inr v | _ \<Rightarrow> Inr JUndef)\<rparr>"

lemma executeTransaction_confirmed_witness:
  "executeTransaction demo_env ''u'' 0 demo_tx Inr \<lparr>to_pollInterval = Some 5, to_pollRetries = None,
      to_gasMultiplier = Some (3/2)\<rparr> fresh_world
    = (Inr None, fresh_world\<lparr>w_log := [Prepare 0 demo_tx, Send 0 (demo_ptx\<lparr>p_fee := ''152''\<rparr>), Sleep 5,
        GetTransaction 0 ''ab'', Sleep 5, GetTransaction 0 ''ab'']\<rparr>) \<and>
   (\<exists>p s r k. e_prepare demo_env [] demo_tx = Inr p \<and> Inr s = (Inr (demo_ptx\<lparr>p_fee := ''152''\<rparr>) :: thrown + ptx) \<and>
      e_send demo_env [Prepare 0 demo_tx] s = Inr r \<and> send_status r = ''PENDING'' \<and> k < (10 :: nat))"
proof -
  let ?o = "\<lparr>to_pollInterval = Some 5, to_pollRetries = None, to_gasMultiplier = Some (3/2)\<rparr>"
  have run: "executeTransaction demo_env ''u'' 0 demo_tx Inr ?o fresh_world
    = (Inr None, fresh_world\<lparr>w_log := [Prepare 0 demo_tx, Send 0 (demo_ptx\<lparr>p_fee := ''152''\<rparr>), Sleep 5,
        GetTransaction 0 ''ab'', Sleep 5, GetTransaction 0 ''ab'']\<rparr>)" by code_simp
  have gas: "apply_gas ?o (demo_ptx) = demo_ptx\<lparr>p_fee := ''152''\<rparr>" by code_simp
  from executeTransaction_confirmed [OF run] obtain p s r k where *:
    "e_prepare demo_env [] demo_tx = Inr p" "Inr (apply_gas ?o p) = (Inr s :: thrown + ptx)"
    "e_send demo_env [Prepare 0 demo_tx] s = Inr r" "send_status r = ''PENDING''" "k < (10 :: nat)"
    by (auto simp: fresh_world_def)
  have "p = demo_ptx" using *(1) by (simp add: demo_env_def demo_ptx_def)
  then show ?thesis using run gas * by auto
qed

text \<open>A digit string occurs in the timeout message only inside the hash.\<close>

lemma includes_inside:
  assumes "list_all is_digit d" "d \<noteq> []" "list_all (\<lambda>c. \<not> is_digit c) p" "list_all (\<lambda>c. \<not> is_digit c) q"
  shows "str_includes (p @ h @ q) d \<longleftrightarrow> str_includes h d"
proof
  assume "str_includes (p @ h @ q) d"
  then obtain a b where ab: "p @ h @ q = a @ d @ b" by (auto simp: str_includes_iff)
  have digit: "is_digit ((p @ h @ q) ! i)" if "length a \<le> i" "i < length a + length d" for i
    using that assms(1) by (auto simp: ab nth_append list_all_length)
  have "length p \<le> length a"
  proof (rule ccontr)
    assume "\<not> length p \<le> length a"
    then show False
      using digit [of "length a"] assms(2,3) by (auto simp: nth_append list_all_length)
  qed
  moreover have "length a + length d \<le> length p + length h"
  proof (rule ccontr)
    let ?i = "length a + length d - 1"
    assume "\<not> length a + length d \<le> length p + length h"
    moreover have "length a + length d \<le> length p + length h + length q"
      using arg_cong [OF ab, of length] by simp
    ultimately have "\<not> ?i < length p" "\<not> ?i - length p < length h" "?i - length p - length h < length q"
      using assms(2) by (cases d; simp)+
    then have "\<not> is_digit ((p @ h @ q) ! ?i)" using assms(4) by (simp add: nth_append list_all_length)
    then show False using digit [of ?i] assms(2) by (cases d) auto
  qed
  ultimately have "h = drop (length p) a @ d @ take (length h + length p - (length a + length d)) b"
    using arg_cong [OF ab, of "\<lambda>x. take (length h) (drop (length p) x)"] by simp
  then show "str_includes h d" unfolding str_includes_iff by blast
next
  assume "str_includes h d"
  then obtain a b where "h = a @ d @ b" by (auto simp: str_includes_iff)
  then have "p @ h @ q = (p @ a) @ d @ (b @ q)" by simp
  then show "str_includes (p @ h @ q) d" unfolding str_includes_iff by blast
qed

definition lower_hex :: "char \<Rightarrow> bool" where
  "lower_hex c = (is_digit c \<or> (97 \<le> char_code c \<and> char_code c \<le> 102))"

lemma includes_skip:
  "list_all lower_hex h \<Longrightarrow> \<not> lower_hex c \<Longrightarrow> str_includes (h @ q) (c # n) \<longleftrightarrow> str_includes q (c # n)"
  by (induction h) auto

lemma includes_suffix: "str_includes s (a @ b) \<Longrightarrow> str_includes s b"
  unfolding str_includes_iff by (metis append_assoc)

lemma timeout_string:
  "err_string (confirmation_timeout h) = ''SorobanIdentityError: Transaction confirmation timeout (hash: '' @ h @
     ''). The transaction was broadcast and may still succeed - check its status via this hash before resubmitting.''"
  by (simp add: err_string_def confirmation_timeout_def)

lemma timeout_includes_digits:
  assumes "list_all is_digit d" "d \<noteq> []"
  shows "str_includes (err_string (confirmation_timeout h)) d \<longleftrightarrow> str_includes h d"
proof -
  have "list_all (\<lambda>c. \<not> is_digit c) ''SorobanIdentityError: Transaction confirmation timeout (hash: ''"
    "list_all (\<lambda>c. \<not> is_digit c) ''). The transaction was broadcast and may still succeed - check its status via this hash before resubmitting.''"
    by code_simp+
  then show ?thesis unfolding timeout_string by (rule includes_inside [OF assms])
qed

lemma timeout_excludes:
  assumes "list_all lower_hex h"
  shows "\<not> str_includes (err_string (confirmation_timeout h)) ''ECONNRESET''"
    "\<not> str_includes (err_string (confirmation_timeout h)) ''ETIMEDOUT''"
    "\<not> str_includes (err_string (confirmation_timeout h)) ''ECONNREFUSED''"
    "\<not> str_includes (err_string (confirmation_timeout h)) ''ENOTFOUND''"
    "\<not> str_includes (err_string (confirmation_timeout h)) ''Too Many Requests''"
    "\<not> str_includes (err_string (confirmation_timeout h)) ''fetch failed''"
proof -
  have c: "\<not> lower_hex (CHR ''E'')" "\<not> lower_hex (CHR ''T'')" "\<not> lower_hex (CHR ''h'')" by code_simp+
  note skip = includes_skip [OF assms c(1)] includes_skip [OF assms c(2)] includes_skip [OF assms c(3)]
  show "\<not> str_includes (err_string (confirmation_timeout h)) ''ECONNRESET''"
    "\<not> str_includes (err_string (confirmation_timeout h)) ''ETIMEDOUT''"
    "\<not> str_includes (err_string (confirmation_timeout h)) ''ECONNREFUSED''"
    "\<not> str_includes (err_string (confirmation_timeout h)) ''ENOTFOUND''"
    "\<not> str_includes (err_string (confirmation_timeout h)) ''Too Many Requests''"
    unfolding timeout_string by (simp_all add: skip)
  have "\<not> str_includes (err_string (confirmation_timeout h)) ''h failed''"
    unfolding timeout_string by (simp add: skip)
  then show "\<not> str_includes (err_string (confirmation_timeout h)) ''fetch failed''"
    using includes_suffix [of _ "''fetc''" "''h failed''"] by auto
qed

lemma timeout_fails_over:
  assumes "list_all lower_hex h"
  shows "failover_error (confirmation_timeout h) \<longleftrightarrow>
    str_includes h ''503'' \<or> str_includes h ''502'' \<or> str_includes h ''504''"
proof -
  have "list_all is_digit ''503''" "list_all is_digit ''502''" "list_all is_digit ''504''" by code_simp+
  then show ?thesis
    by (simp add: failover_error_def Let_def timeout_excludes [OF assms] timeout_includes_digits)
qed

lemma timeout_queue_retries:
  assumes "list_all lower_hex h" "n < m"
  shows "shouldRetry (queue_error cl (confirmation_timeout h)) \<lparr>req_id = i, retries = n, maxRetries = m\<rparr> \<longleftrightarrow>
      str_includes h ''429'' \<or> str_includes h ''503''"
proof -
  have "list_all is_digit ''503''" "list_all is_digit ''429''" by code_simp+
  then show ?thesis
    using assms(2)
    by (simp add: shouldRetry_def queue_error_def Let_def timeout_excludes [OF assms(1)] timeout_includes_digits)
qed

lemma timeout_is429:
  assumes "list_all lower_hex h"
  shows "is429 (queue_error cl (confirmation_timeout h)) \<longleftrightarrow> str_includes h ''429''"
proof -
  have "list_all is_digit ''429''" by code_simp
  then show ?thesis
    by (simp add: is429_def queue_error_def Let_def timeout_excludes [OF assms(1)] timeout_includes_digits)
qed

text \<open>What a catch adds to the log comes after what its body adds.\<close>

abbreviation any_effect :: "effect \<Rightarrow> bool" where
  "any_effect e \<equiv> True"

lemma emits_submit_on: "emits any_effect (submit_on env cl p i)"
  unfolding submit_on_def by (intro emits emits_confirm_loop) simp_all

lemma log_extends: "emits any_effect m \<Longrightarrow> \<exists>es. w_log (snd (m w)) = w_log w @ es"
  using emitsD by blast

lemma catch_extends:
  assumes "\<And>e. emits any_effect (f e)" "w_log (snd (m w)) = l @ es"
  shows "\<exists>es'. w_log (snd (io_catch m f w)) = l @ es @ es'"
proof -
  obtain r w' where m: "m w = (r, w')" by (cases "m w")
  show ?thesis
  proof (cases r)
    case (Inl e)
    then show ?thesis
      using log_extends [OF assms(1), of e w'] m assms(2) by (auto simp: io_catch_def)
  qed (use m assms(2) in \<open>simp add: io_catch_def\<close>)
qed

lemma confirm_loop_index:
  "w_index (snd (confirm_loop (request e a) d f t n w)) = w_index w"
proof (induction n arbitrary: w)
  case (Suc n)
  then show ?case by (simp add: andThen_def io_run split: sum.split tx_status.split)
qed (simp add: io_run)

lemma submit_on_index: "w_index (snd (submit_on env cl p i w)) = w_index w"
proof -
  have "w_index (snd (andThen (confirm_loop (request e a) d f t n) (\<lambda>x. io_return h) w)) = w_index w"
    for e a d f t n w and h :: string
    using confirm_loop_index [of e a d f t n w]
    by (cases "confirm_loop (request e a) d f t n w"; cases "fst (confirm_loop (request e a) d f t n w)")
      (auto simp: andThen_def io_run)
  then show ?thesis
    unfolding submit_on_def by (subst andThen_def) (simp add: io_run split: sum.split)
qed

lemma submit_on_starts: "\<exists>es. w_log (snd (submit_on env cl p i w)) = w_log w @ Send i p # es"
proof -
  let ?w = "w\<lparr>w_log := w_log w @ [Send i p]\<rparr>"
  let ?f = "\<lambda>result. if send_status result \<noteq> ''PENDING'' then
       io_throw (sdk_throw (''Transaction submission failed with status: '' @ send_status result) CONTRACT_ERROR)
     else andThen (confirm_loop
         (request (GetTransaction i (send_hash result)) (\<lambda>l. e_getTransaction env l (send_hash result)))
         (opt_or (cfg_pollingIntervalMs (cl_config cl)) 2000)
         (SdkThrown (sdk_error_init ''Transaction failed on-chain''
           (empty_init\<lparr>init_code := Some CONTRACT_ERROR, init_txHash := Some (send_hash result)\<rparr>) None))
         (confirmation_timeout (send_hash result)) (opt_or (cfg_pollingRetries (cl_config cl)) 10))
       (\<lambda>_. io_return (send_hash result))"
  have eq: "submit_on env cl p i w = (case e_send env (w_log w) p of Inl e \<Rightarrow> (Inl e, ?w) | Inr r \<Rightarrow> ?f r ?w)"
    by (simp add: submit_on_def andThen_def io_run split: sum.split)
  show ?thesis
  proof (cases "e_send env (w_log w) p")
    case (Inr r)
    have "emits any_effect (?f r)" by (intro emits emits_confirm_loop) simp_all
    from log_extends [OF this, of ?w] show ?thesis using eq Inr by auto
  qed (use eq in simp)
qed

lemma failover_loop_starts:
  "\<exists>es. w_log (snd (failover_loop cl (submit_on env cl p) a e (Suc left) w))
    = w_log w @ Send ((w_index w + a) mod length (cl_servers cl)) p # es"
proof -
  let ?i = "(w_index w + a) mod length (cl_servers cl)"
  let ?m = "andThen (submit_on env cl p ?i) (\<lambda>result. andThen (set_index ?i) (\<lambda>_. io_return result))"
  let ?f = "\<lambda>error. if failover_error error then failover_loop cl (submit_on env cl p) (a + 1) error left
      else io_throw error"
  obtain es where "w_log (snd (submit_on env cl p ?i w)) = w_log w @ Send ?i p # es"
    using submit_on_starts by blast
  then have m: "w_log (snd (?m w)) = w_log w @ Send ?i p # es"
    by (cases "submit_on env cl p ?i w"; cases "fst (submit_on env cl p ?i w)")
      (auto simp: andThen_def set_index_def io_run)
  have "emits any_effect (?f e')" for e'
    by (intro emits emits_failover_loop emits_submit_on)
  from catch_extends [where f = ?f and m = ?m, OF this m] show ?thesis
    by (auto simp: andThen_def get_index_def Let_def)
qed

lemma queue_run_extends:
  assumes "w_log (snd (fn w)) = l @ es" "emits any_effect fn"
  shows "\<exists>es'. w_log (snd (queue_run cl fn w)) = l @ es @ es'"
proof -
  obtain s where q: "queue_run cl fn = queue_loop cl s fn 0 (Suc 2)"
    by (auto simp: queue_run_def Let_def numeral_eq_Suc)
  have "emits any_effect (let error = queue_error cl e in
     if shouldRetry error \<lparr>req_id = 0, retries = 0, maxRetries = 0 + Suc 2\<rparr> then
       andThen (sleep (getRetryDelay s error 0)) (\<lambda>_. queue_loop cl s fn (0 + 1) 2)
     else if is429 error then io_throw (RateLimitThrown (getRetryDelay s error 0))
     else io_throw e)" for e
    unfolding Let_def using assms(2) by (intro emits emits_queue_loop) simp_all
  from catch_extends [where m = fn and w = w and l = l and es = es, OF this assms(1)]
  show ?thesis unfolding q queue_loop.simps .
qed

lemma queue_run_final:
  assumes "fn w = (Inl e, w')"
    and "\<not> shouldRetry (queue_error cl e) \<lparr>req_id = 0, retries = 0, maxRetries = 3\<rparr>" "\<not> is429 (queue_error cl e)"
  shows "queue_run cl fn w = (Inl e, w')"
proof -
  obtain s where q: "queue_run cl fn = queue_loop cl s fn 0 (Suc 2)"
    by (auto simp: queue_run_def Let_def numeral_eq_Suc)
  show ?thesis
    using assms unfolding q queue_loop.simps by (simp add: io_catch_def Let_def io_run)
qed

text \<open>
  What becomes of a submission whose confirmation times out on the current server depends on the
  digits of its hash. When they contain none of 502, 503, 504 and 429, the timeout is thrown and nothing
  is sent again. When they contain 502, 503 or 504, failover takes the timeout for a server error: the
  same transaction is broadcast again to the next server.
\<close>

theorem submission_timeout_fate:
  fixes env :: env and cl :: client and w w' :: world
  defines "n \<equiv> length (cl_servers cl)"
  assumes "fromXDR xdr (cfg_networkPassphrase (cl_config cl)) = Inr p" "\<not> w_disposed w" "w_index w < n"
    and timeout: "submit_on env cl p (w_index w) w = (Inl (confirmation_timeout h), w')"
    and hex: "list_all lower_hex h"
  shows "(\<not> str_includes h ''502'' \<and> \<not> str_includes h ''503'' \<and> \<not> str_includes h ''504'' \<and> \<not> str_includes h ''429'' \<longrightarrow>
      submitSignedTransaction fromXDR env cl xdr w = (Inl (confirmation_timeout h), w')) \<and>
    ((str_includes h ''502'' \<or> str_includes h ''503'' \<or> str_includes h ''504'') \<and> 1 < n \<longrightarrow>
      (\<exists>es. w_log (snd (submitSignedTransaction fromXDR env cl xdr w))
         = w_log w' @ Send ((w_index w + 1) mod n) p # es))"
proof (intro conjI impI)
  let ?fn = "submit_on env cl p"
  obtain m where n: "n = Suc m" using assms(4) by (cases n) auto
  have len: "length (cl_servers cl) = n" by (simp add: n_def)
  have run: "submitSignedTransaction fromXDR env cl xdr w = queue_run cl (failover cl ?fn) w"
    using assms(2,3) by (simp add: submitSignedTransaction_def executeWithFailover_def andThen_def io_run)
  have a: "attempt_on n ?fn w 0 = Inl (confirmation_timeout h)" "failover_world n ?fn w (Suc 0) = w'"
    using timeout assms(4) by (simp_all add: attempt_on_def)
  note step = failover_loop_step [where fn = ?fn and cl = cl and n = n and w = w and k = 0 and left = m,
      OF submit_on_index len [symmetric]]
  show "submitSignedTransaction fromXDR env cl xdr w = (Inl (confirmation_timeout h), w')"
    if no: "\<not> str_includes h ''502'' \<and> \<not> str_includes h ''503'' \<and> \<not> str_includes h ''504'' \<and> \<not> str_includes h ''429''"
  proof -
    have "\<not> fails_over (attempt_on n ?fn w 0)" using no by (simp add: a fails_over_def timeout_fails_over [OF hex])
    then have "failover cl ?fn w = (Inl (confirmation_timeout h), w')"
      using step(1) a by (simp add: failover_def len n failover_result_def del: failover_world.simps(2) failover_loop.simps)
    then show ?thesis
      unfolding run using no by (intro queue_run_final) (auto simp: timeout_queue_retries [OF hex] timeout_is429 [OF hex])
  qed
  show "\<exists>es. w_log (snd (submitSignedTransaction fromXDR env cl xdr w)) = w_log w' @ Send ((w_index w + 1) mod n) p # es"
    if yes: "(str_includes h ''502'' \<or> str_includes h ''503'' \<or> str_includes h ''504'') \<and> 1 < n"
  proof -
    have "failover_error (confirmation_timeout h)" using yes by (auto simp: timeout_fails_over [OF hex])
    then have st: "failover cl ?fn w = failover_loop cl ?fn (Suc 0) (confirmation_timeout h) m w'"
      using step(2) [OF a(1)] a(2) by (simp add: failover_def len n del: failover_world.simps(2) failover_loop.simps)
    obtain m' where m: "m = Suc m'" using yes n by (cases m) auto
    have idx: "w_index w' = w_index w" using submit_on_index [of env cl p "w_index w" w] timeout by simp
    obtain es where es: "w_log (snd (failover cl ?fn w)) = w_log w' @ Send ((w_index w + 1) mod n) p # es"
      using failover_loop_starts [of cl env p "Suc 0" "confirmation_timeout h" m' w'] unfolding st m idx len by auto
    have "emits any_effect (failover cl ?fn)"
      unfolding failover_def by (intro emits_failover_loop emits_submit_on)
    from queue_run_extends [OF es this] show ?thesis unfolding run by auto
  qed
qed

definition slow_env :: env where
  "slow_env = demo_env\<lparr>e_send := (\<lambda>l p. Inr \<lparr>send_status = ''PENDING'', send_hash = ''ab503''\<rparr>),
     e_getTransaction := (\<lambda>l h. Inr (TxOther ''NOT_FOUND''))\<rparr>"

definition impatient_client :: client where
  "impatient_client = demo_client\<lparr>cl_config := demo_config\<lparr>cfg_pollingRetries := Some 1\<rparr>\<rparr>"

lemma submission_timeout_fate_witness:
  "\<exists>es. w_log (snd (submitSignedTransaction (\<lambda>x n. Inr demo_ptx) slow_env impatient_client ''AAAA'' fresh_world))
    = [Send 0 demo_ptx, Sleep 2000, GetTransaction 0 ''ab503'', Send 1 demo_ptx] @ es"
proof -
  let ?w = "fresh_world\<lparr>w_log := [Send 0 demo_ptx, Sleep 2000, GetTransaction 0 ''ab503'']\<rparr>"
  have t: "submit_on slow_env impatient_client demo_ptx (w_index fresh_world) fresh_world
      = (Inl (confirmation_timeout ''ab503''), ?w)" by code_simp
  have h: "list_all lower_hex ''ab503''" "str_includes ''ab503'' ''503''" by code_simp+
  have n: "length (cl_servers impatient_client) = 2" by (simp add: impatient_client_def demo_client_def)
  have w: "\<not> w_disposed fresh_world" "w_index fresh_world = 0" by (simp_all add: fresh_world_def)
  have "\<exists>es. w_log (snd (submitSignedTransaction (\<lambda>x n. Inr demo_ptx) slow_env impatient_client ''AAAA'' fresh_world))
      = w_log ?w @ Send ((w_index fresh_world + 1) mod length (cl_servers impatient_client)) demo_ptx # es"
    using submission_timeout_fate [where fromXDR = "\<lambda>x n. Inr demo_ptx" and xdr = "''AAAA''", OF _ w(1) _ t h(1)]
      h(2) n w(2) by simp
  then show ?thesis by (simp add: n w(2))
qed

end
