(* ===== verification/ContractCall.thy ===== *)
theory ContractCall
  imports Client
begin

text \<open>
  The steps the methods of the three contract clients (\<open>identity.ts\<close>, \<open>reputation.ts\<close>, \<open>credentials.ts\<close>)
  repeat in the same words: build a transaction for one contract call; for a read, simulate it with
  retries; for a write, prepare with retries, sign, send with retries, check for \<open>PENDING\<close>, poll, and map
  the message of an error to a typed error. Each method is then one definition over these steps.

  \<open>confirmed_write\<close> and \<open>emits_read\<close> are the two facts the methods share: a write returns only for a
  transaction the node confirmed, and a read sends nothing.

  A keypair is represented by its public key; signing records it in the transaction.
\<close>

section \<open>Building\<close>

definition call_timeout :: "client \<Rightarrow> call_options \<Rightarrow> nat" where
  "call_timeout cl options = opt_or (orElse (o_timeoutSeconds options) (cfg_txTimeout (cl_config cl))) 30"

definition build_tx :: "client \<Rightarrow> account \<Rightarrow> nat \<Rightarrow> string \<Rightarrow> scval list \<Rightarrow> tx" where
  "build_tx cl account timeout meth args = \<lparr>tx_account = account, tx_fee = BASE_FEE,
     tx_network = cfg_networkPassphrase (cl_config cl),
     tx_ops = [\<lparr>op_contract = cl_contract cl, op_method = meth, op_args = args\<rparr>], tx_timeout = timeout\<rparr>"

text \<open>The transaction of a read: its source is an account that is made up, with sequence number 0.\<close>

definition read_tx :: "env \<Rightarrow> client \<Rightarrow> string \<Rightarrow> nat \<Rightarrow> string \<Rightarrow> thrown + scval list \<Rightarrow> thrown + tx" where
  "read_tx env cl address timeout meth args =
     bind_result (new_account env address ''0'') (\<lambda>account.
     bind_result args (\<lambda>as. Inr (build_tx cl account timeout meth as)))"

section \<open>Reading\<close>

definition simulate_retry :: "env \<Rightarrow> tx \<Rightarrow> sim_result io" where
  "simulate_retry env t = retry_default (srv_simulate env t)"

text \<open>
  \<open>scValToNative(result.result!.retval)\<close> and \<open>scValToNative(confirmed.returnValue!)\<close>: without a value the
  code reads a property of, or converts, \<open>undefined\<close>.
\<close>

definition native_of :: "env \<Rightarrow> retval option \<Rightarrow> thrown + jv" where
  "native_of env rv = (case rv of Some v \<Rightarrow> e_scValToNative env v
     | None \<Rightarrow> Inl (type_error ''Cannot read properties of undefined''))"

text \<open>A simulated call whose simulation errors \<open>onError\<close> turns into what is thrown.\<close>

definition read_call :: "env \<Rightarrow> thrown + tx \<Rightarrow> (string \<Rightarrow> thrown) \<Rightarrow> jv io" where
  "read_call env t onError = andThen (io_lift t) (\<lambda>t. andThen (simulate_retry env t) (\<lambda>result.
     case result of
       SimError e \<Rightarrow> io_throw (onError (opt_or e []))
     | SimOk rv \<Rightarrow> io_lift (native_of env rv)))"

text \<open>The usual treatment of the message: a contract code, else \<open>Simulation failed\<close>.\<close>

definition simulation_error :: "(nat \<Rightarrow> string option) \<Rightarrow> string \<Rightarrow> thrown" where
  "simulation_error tab errMsg = (case extract_code errMsg tab of
     Some contractErr \<Rightarrow> contractErr
   | None \<Rightarrow> sdk_throw (''Simulation failed: '' @ errMsg) CONTRACT_ERROR)"

definition is_read :: "effect \<Rightarrow> bool" where
  "is_read e = (case e of Simulate i t \<Rightarrow> True | Sleep ms \<Rightarrow> True | _ \<Rightarrow> False)"

lemma is_read_simps [simp]: "is_read (Simulate i t)" "is_read (Sleep ms)" "\<not> is_read (Send i p)"
  "\<not> is_read (Prepare i t)" "\<not> is_read (GetAccount i a)" "\<not> is_read (GetTransaction i h)"
  by (simp_all add: is_read_def)

lemma emits_simulate_retry [emits]: "emits is_read (simulate_retry env t)"
  unfolding simulate_retry_def by (intro emits) simp_all

lemma emits_read_call [emits]: "emits is_read (read_call env t onError)"
  unfolding read_call_def by (intro emits)

lemma read_call_throws: "t = Inl e \<Longrightarrow> read_call env t f w = (Inl e, w)"
  by (simp add: read_call_def andThen_def io_run)

section \<open>Writing\<close>

definition prepare_retry :: "env \<Rightarrow> tx \<Rightarrow> ptx io" where
  "prepare_retry env t = retry_default (srv_prepare env t)"

definition sign :: "string \<Rightarrow> ptx \<Rightarrow> ptx" where
  "sign keypair p = p\<lparr>p_signers := p_signers p @ [keypair]\<rparr>"

text \<open>\<open>if (result.status !== "PENDING") throw ...; result.hash\<close>\<close>

definition pending_hash :: "send_result \<Rightarrow> thrown + string" where
  "pending_hash result = (if send_status result \<noteq> ''PENDING''
     then Inl (sdk_throw (''Transaction failed: '' @ send_status result) CONTRACT_ERROR)
     else Inr (send_hash result))"

definition send_retry :: "env \<Rightarrow> ptx \<Rightarrow> string io" where
  "send_retry env p = andThen (retry_default (srv_send env p)) (\<lambda>result. io_lift (pending_hash result))"

definition poll_cfg :: "client \<Rightarrow> poll_options" where
  "poll_cfg cl = (let c = cl_config cl in
     \<lparr>po_maxRetries = orElse (cfg_maxRetries c) (cfg_pollingRetries c),
      po_retryIntervalMs = orElse (cfg_retryIntervalMs c) (cfg_pollingIntervalMs c),
      po_maxAttempts = None, po_intervalMs = None,
      po_exponentialBackoff = cfg_pollingExponentialBackoff c\<rparr>)"

definition poll_with :: "env \<Rightarrow> poll_options option \<Rightarrow> string \<Rightarrow> unit io" where
  "poll_with env po h = andThen thisServer (\<lambda>i.
     pollTransactionStatus (request (GetTransaction i h) (\<lambda>l. e_getTransaction env l h)) po)"

definition poll_hash :: "env \<Rightarrow> client \<Rightarrow> string \<Rightarrow> unit io" where
  "poll_hash env cl h = poll_with env (Some (poll_cfg cl)) h"

text \<open>\<open>pollTransactionStatus(this.server, txHash)\<close>, without options: the defaults, whatever is configured.\<close>

definition poll_plain :: "env \<Rightarrow> string \<Rightarrow> unit io" where
  "poll_plain env h = poll_with env None h"

text \<open>\<open>const confirmed = await this.server.getTransaction(txHash); scValToNative(confirmed.returnValue!)\<close>\<close>

definition confirmed_value :: "env \<Rightarrow> string \<Rightarrow> jv io" where
  "confirmed_value env h = andThen (srv_getTransaction env h) (\<lambda>status. io_lift (native_of env
     (case status of TxSuccess rv \<Rightarrow> rv | _ \<Rightarrow> None)))"

text \<open>
  The error mapping of a write: a \<open>TIMEOUT\<close> passes; the first rule one of whose substrings occurs in the
  message gives the error; else the error is wrapped.
\<close>

type_synonym error_rule = "string list \<times> string \<times> SorobanErrorCode"

fun apply_rules :: "error_rule list \<Rightarrow> thrown \<Rightarrow> thrown" where
  "apply_rules [] e = SdkThrown (wrapError e default_fallback)"
| "apply_rules ((subs, msg, c) # rules) e =
     (if list_ex (str_includes (err_message e)) subs then sdk_throw msg c else apply_rules rules e)"

definition is_timeout :: "thrown \<Rightarrow> bool" where
  "is_timeout e = (case e of SdkThrown s \<Rightarrow> code s = TIMEOUT | _ \<Rightarrow> False)"

definition map_error :: "error_rule list \<Rightarrow> thrown \<Rightarrow> thrown" where
  "map_error rules e = (if is_timeout e then e else apply_rules rules e)"

text \<open>
  The body of a write after the arguments are known: \<open>getAccount\<close>, build, prepare, sign, send, poll.
\<close>

definition write_tx :: "env \<Rightarrow> client \<Rightarrow> string \<Rightarrow> call_options \<Rightarrow> string \<Rightarrow> thrown + scval list \<Rightarrow> tx io" where
  "write_tx env cl keypair options meth args =
     andThen (srv_getAccount env keypair) (\<lambda>account.
     andThen (io_lift args) (\<lambda>as.
     io_return (build_tx cl account (call_timeout cl options) meth as)))"

definition contract_write ::
    "env \<Rightarrow> client \<Rightarrow> string \<Rightarrow> call_options \<Rightarrow> string \<Rightarrow> thrown + scval list \<Rightarrow> error_rule list \<Rightarrow> string io" where
  "contract_write env cl keypair options meth args rules =
     andThen (write_tx env cl keypair options meth args) (\<lambda>t.
     andThen (prepare_retry env t) (\<lambda>prepared.
     andThen (send_retry env (sign keypair prepared)) (\<lambda>txHash.
     andThen (io_catch (poll_hash env cl txHash) (\<lambda>e. io_throw (map_error rules e))) (\<lambda>_.
     io_return txHash))))"

record write_result =
  wr_value :: jv
  wr_estimatedFee :: "int option"
  wr_estimatedFeeXlm :: string
  wr_txHash :: string

text \<open>The writes that also report the fee and the value the contract returned.\<close>

definition contract_write_value ::
    "env \<Rightarrow> client \<Rightarrow> string \<Rightarrow> call_options \<Rightarrow> string \<Rightarrow> thrown + scval list \<Rightarrow> error_rule list \<Rightarrow>
      write_result io" where
  "contract_write_value env cl keypair options meth args rules =
     andThen (write_tx env cl keypair options meth args) (\<lambda>t.
     andThen (prepare_retry env t) (\<lambda>prepared.
     let estimatedFee = parse_int (p_fee prepared) in
     andThen (send_retry env (sign keypair prepared)) (\<lambda>txHash.
     io_catch (andThen (poll_hash env cl txHash) (\<lambda>_. andThen (confirmed_value env txHash) (\<lambda>v.
         io_return \<lparr>wr_value = v, wr_estimatedFee = estimatedFee,
           wr_estimatedFeeXlm = stroops_to_xlm estimatedFee, wr_txHash = txHash\<rparr>)))
       (\<lambda>e. io_throw (map_error rules e)))))"

section \<open>What a write sends\<close>

text \<open>
  \<open>write_effect\<close>: a write of the account \<open>a\<close> fetches only that account, and broadcasts only transactions
  that carry its signature last and call the one method with the one list of arguments.
\<close>

definition sends :: "effect list \<Rightarrow> ptx list" where
  "sends es = List.map_filter (\<lambda>e. case e of Send i p \<Rightarrow> Some p | _ \<Rightarrow> None) es"

lemma sends_simps [simp]:
  "sends [] = []" "sends (Send i p # es) = p # sends es" "sends (Sleep ms # es) = sends es"
  "sends (GetAccount i a # es) = sends es" "sends (Prepare i t # es) = sends es"
  "sends (GetTransaction i h # es) = sends es" "sends (Simulate i t # es) = sends es"
  "sends (GetHealth i # es) = sends es" "sends (GetLatestLedger i # es) = sends es"
  by (simp_all add: sends_def)

lemma sends_append [simp]: "sends (es @ fs) = sends es @ sends fs"
  by (simp add: sends_def List.map_filter_def)

definition no_send :: "effect \<Rightarrow> bool" where
  "no_send e = (case e of Send i p \<Rightarrow> False | _ \<Rightarrow> True)"

lemma no_send_simps [simp]: "no_send (Simulate i t)" "no_send (Sleep ms)" "\<not> no_send (Send i p)"
  "no_send (Prepare i t)" "no_send (GetAccount i a)" "no_send (GetTransaction i h)"
  by (simp_all add: no_send_def)

lemma no_send_sends: "list_all no_send es \<Longrightarrow> sends es = []"
  by (induction es) (auto simp: no_send_def sends_def split: effect.splits)

lemma emits_write_tx: "emits no_send (write_tx env cl kp opts meth args)"
  unfolding write_tx_def by (intro emits) simp_all

lemma emits_prepare_retry: "emits no_send (prepare_retry env t)"
  unfolding prepare_retry_def by (intro emits) simp_all

lemma emits_poll_with: "emits no_send (poll_with env po h)"
  unfolding poll_with_def by (intro emits) simp_all

lemma emits_poll_hash: "emits no_send (poll_hash env cl h)"
  and emits_poll_plain: "emits no_send (poll_plain env h)"
  by (simp_all add: poll_hash_def poll_plain_def emits_poll_with)

lemma emits_confirmed_value: "emits no_send (confirmed_value env h)"
  unfolding confirmed_value_def by (intro emits) simp_all

section \<open>A write that returns was confirmed\<close>

lemma retry_default_Inr:
  assumes "retry_default fn w = (Inr x, w')"
  obtains k where "k \<le> 3" "fn (retry_world fn 500 w k) = (Inr x, w')"
proof -
  obtain k where "k \<le> 3" "retry_loop fn 0 500 3 (retry_world fn 500 w 0) = fn (retry_world fn 500 w (0 + k))"
    using retry_loop_run [of 3 fn 500 w 0] by blast
  then show ?thesis using that assms by (simp add: retry_default_def retryWithBackoff_def)
qed

lemma srv_send_run:
  "srv_send env p w = (if w_disposed w then (Inl DisposedThrown, w)
     else (e_send env (w_log w) p, w\<lparr>w_log := w_log w @ [Send (w_index w) p]\<rparr>))"
  by (simp add: srv_send_def andThen_def thisServer_def io_run)

lemma srv_prepare_run:
  "srv_prepare env t w = (if w_disposed w then (Inl DisposedThrown, w)
     else (e_prepare env (w_log w) t, w\<lparr>w_log := w_log w @ [Prepare (w_index w) t]\<rparr>))"
  by (simp add: srv_prepare_def andThen_def thisServer_def io_run)

lemma send_retry_world:
  "w_disposed (retry_world (srv_send env p) b w k) = w_disposed w \<and>
   (\<not> w_disposed w \<longrightarrow> (\<exists>es. w_log (retry_world (srv_send env p) b w k) = w_log w @ es \<and> sends es = replicate k p))"
proof (induction k)
  case (Suc k)
  then show ?case by (auto simp: srv_send_run Let_def replicate_append_same)
qed simp

lemma send_retry_Inr:
  assumes "send_retry env p w = (Inr h, w')"
  obtains k es l r where "k \<le> 3" "w_log w' = w_log w @ es" "sends es = replicate (Suc k) p"
    "e_send env l p = Inr r" "send_status r = ''PENDING''" "send_hash r = h"
proof -
  obtain r where r: "retry_default (srv_send env p) w = (Inr r, w')" "pending_hash r = Inr h"
    using assms by (auto simp: send_retry_def andThen_Inr_iff io_run)
  obtain k where k: "k \<le> 3" "srv_send env p (retry_world (srv_send env p) 500 w k) = (Inr r, w')"
    using retry_default_Inr [OF r(1)] by blast
  let ?w = "retry_world (srv_send env p) 500 w k"
  have nd: "\<not> w_disposed w" using k(2) send_retry_world [of env p 500 w k] by (auto simp: srv_send_run split: if_splits)
  then obtain es where es: "w_log ?w = w_log w @ es" "sends es = replicate k p"
    using send_retry_world by blast
  have "e_send env (w_log ?w) p = Inr r" "w_log w' = w_log w @ es @ [Send (w_index ?w) p]"
    using k(2) nd send_retry_world [of env p 500 w k] es by (auto simp: srv_send_run split: if_splits)
  moreover have "sends (es @ [Send (w_index ?w) p]) = replicate (Suc k) p"
    using es(2) by (simp add: replicate_append_same)
  moreover have "send_status r = ''PENDING''" "send_hash r = h"
    using r(2) by (auto simp: pending_hash_def split: if_splits)
  ultimately show ?thesis using that k(1) by blast
qed

lemma prepare_retry_Inr:
  assumes "prepare_retry env t w = (Inr p, w')"
  obtains l where "e_prepare env l t = Inr p"
proof -
  obtain k where "srv_prepare env t (retry_world (srv_prepare env t) 500 w k) = (Inr p, w')"
    using retry_default_Inr assms unfolding prepare_retry_def by metis
  then show ?thesis using that by (auto simp: srv_prepare_run split: if_splits)
qed

lemma poll_trace_effects:
  "list_all (\<lambda>x. x = e \<or> (\<exists>ms. x = Sleep ms)) (poll_trace e x i k)"
  by (induction k) auto

lemma poll_success:
  assumes "pollTransactionStatus (request e answer) po w = (Inr (), w')"
  obtains es rv where "w_log w' = w_log w @ es @ [e]" "answer (w_log w @ es) = Inr (TxSuccess rv)"
    "list_all (\<lambda>x. x = e \<or> (\<exists>ms. x = Sleep ms)) es"
proof -
  obtain x i m n where run: "poll_loop (request e answer) x i m n w = (Inr (), w')"
    using assms by (auto simp: pollTransactionStatus_def Let_def)
  obtain n' where n: "n = Suc n'" using run by (cases n) (auto simp: poll_loop.simps io_run)
  from poll_loop_run [of n' answer e x i w m] obtain k where k:
    "\<not> inconclusive (poll_answer answer e x i w k)"
    "(Inr (), w') = (poll_outcome (poll_answer answer e x i w k), add_log w (poll_trace e x i k @ [e]))"
    using run n by auto
  then obtain rv where "answer (w_log w @ poll_trace e x i k) = Inr (TxSuccess rv)"
    by (auto simp: poll_outcome_def inconclusive_def poll_answer_def split: sum.splits tx_status.splits)
  then show ?thesis using that [of "poll_trace e x i k"] k(2) poll_trace_effects by auto
qed

text \<open>\<open>polled\<close>: between two worlds lies a poll of the transaction that ended with its success.\<close>

definition polled :: "env \<Rightarrow> string \<Rightarrow> world \<Rightarrow> world \<Rightarrow> bool" where
  "polled env h w w' = (\<exists>es rv i. w_log w' = w_log w @ es @ [GetTransaction i h] \<and> sends es = [] \<and>
     e_getTransaction env (w_log w @ es) h = Inr (TxSuccess rv))"

lemma poll_with_polled:
  assumes "poll_with env po h w = (Inr (), w')"
  shows "polled env h w w'"
proof -
  obtain i where run: "pollTransactionStatus (request (GetTransaction i h) (\<lambda>l. e_getTransaction env l h)) po w
      = (Inr (), w')"
    using assms by (auto simp: poll_with_def andThen_Inr_iff thisServer_def split: if_splits)
  obtain es rv where es: "w_log w' = w_log w @ es @ [GetTransaction i h]"
      "e_getTransaction env (w_log w @ es) h = Inr (TxSuccess rv)"
      "list_all (\<lambda>x. x = GetTransaction i h \<or> (\<exists>ms. x = Sleep ms)) es"
    using poll_success [OF run] by blast
  from es(3) have "list_all no_send es" by (rule list.pred_mono_strong) auto
  then show ?thesis unfolding polled_def using es(1,2) no_send_sends by blast
qed

lemma poll_hash_polled: "poll_hash env cl h w = (Inr (), w') \<Longrightarrow> polled env h w w'"
  and poll_plain_polled: "poll_plain env h w = (Inr (), w') \<Longrightarrow> polled env h w w'"
  by (auto simp: poll_hash_def poll_plain_def intro: poll_with_polled)

lemma poll_hash_Inr:
  assumes "poll_hash env cl h w = (Inr (), w')"
  obtains es rv i where "w_log w' = w_log w @ es @ [GetTransaction i h]" "sends es = []"
    "e_getTransaction env (w_log w @ es) h = Inr (TxSuccess rv)"
  using poll_hash_polled [OF assms] unfolding polled_def by blast

text \<open>The states of a successful write, step by step.\<close>

lemma write_tx_Inr:
  assumes "write_tx env cl kp opts meth args w = (Inr t, w')"
  obtains account as es where "e_getAccount env (w_log w) kp = Inr account" "args = Inr as"
    "t = build_tx cl account (call_timeout cl opts) meth as" "w_log w' = w_log w @ es" "sends es = []"
  using assms
  by (auto simp: write_tx_def srv_getAccount_def andThen_Inr_iff thisServer_def io_run split: if_splits)

text \<open>What it means that a write was confirmed under the hash \<open>h\<close>, given what it added to the log.\<close>

definition confirmed_write ::
    "env \<Rightarrow> client \<Rightarrow> string \<Rightarrow> call_options \<Rightarrow> string \<Rightarrow> scval list \<Rightarrow> string \<Rightarrow> effect list \<Rightarrow> bool" where
  "confirmed_write env cl kp opts meth as h es =
     (\<exists>account p k. sends es = replicate (Suc k) (sign kp p) \<and> k \<le> 3 \<and>
        (\<exists>l. e_prepare env l (build_tx cl account (call_timeout cl opts) meth as) = Inr p) \<and>
        (\<exists>l r. e_send env l (sign kp p) = Inr r \<and> send_status r = ''PENDING'' \<and> send_hash r = h) \<and>
        (\<exists>i. GetTransaction i h \<in> set es) \<and> (\<exists>l rv. e_getTransaction env l h = Inr (TxSuccess rv)))"

lemma contract_write_confirmed_aux:
  assumes "write_tx env cl kp opts meth args w = (Inr t, w1)" "prepare_retry env t w1 = (Inr p, w2)"
    "send_retry env (sign kp p) w2 = (Inr h, w3)" "polled env h w3 w4"
  shows "\<exists>as es. args = Inr as \<and> w_log w4 = w_log w @ es \<and> confirmed_write env cl kp opts meth as h es"
proof -
  obtain account as e1 where 1: "args = Inr as" "t = build_tx cl account (call_timeout cl opts) meth as"
      "w_log w1 = w_log w @ e1" "sends e1 = []" using write_tx_Inr [OF assms(1)] by metis
  obtain e2 where 2: "w_log w2 = w_log w1 @ e2" "sends e2 = []"
    using emitsD [OF emits_prepare_retry, of env t w1] assms(2) no_send_sends by auto
  obtain l where l: "e_prepare env l t = Inr p" using prepare_retry_Inr [OF assms(2)] .
  obtain k e3 l' r where 3: "k \<le> 3" "w_log w3 = w_log w2 @ e3" "sends e3 = replicate (Suc k) (sign kp p)"
      "e_send env l' (sign kp p) = Inr r" "send_status r = ''PENDING''" "send_hash r = h"
    using send_retry_Inr [OF assms(3)] by blast
  obtain e4 rv i where 4: "w_log w4 = w_log w3 @ e4 @ [GetTransaction i h]" "sends e4 = []"
      "e_getTransaction env (w_log w3 @ e4) h = Inr (TxSuccess rv)"
    using assms(4) unfolding polled_def by blast
  let ?es = "e1 @ e2 @ e3 @ e4 @ [GetTransaction i h]"
  have "w_log w4 = w_log w @ ?es" using 1 2 3 4 by simp
  moreover have "sends ?es = replicate (Suc k) (sign kp p)" using 1 2 3 4 by simp
  then have "confirmed_write env cl kp opts meth as h ?es"
    unfolding confirmed_write_def using 1(2) l 3 4
    by (intro exI [of _ account] exI [of _ p] exI [of _ k]) auto
  ultimately show ?thesis using 1(1) by blast
qed

lemma contract_write_confirmed:
  assumes "contract_write env cl kp opts meth args rules w = (Inr h, w')"
  shows "\<exists>as es. args = Inr as \<and> w_log w' = w_log w @ es \<and> confirmed_write env cl kp opts meth as h es"
proof -
  from assms obtain t p w1 w2 w3 where *: "write_tx env cl kp opts meth args w = (Inr t, w1)"
    "prepare_retry env t w1 = (Inr p, w2)" "send_retry env (sign kp p) w2 = (Inr h, w3)"
    "io_catch (poll_hash env cl h) (\<lambda>e. io_throw (map_error rules e)) w3 = (Inr (), w')"
    by (auto simp: contract_write_def andThen_Inr_iff io_run)
  then have "polled env h w3 w'"
    by (auto simp: io_catch_def io_run split: prod.splits sum.splits intro: poll_hash_polled)
  then show ?thesis using contract_write_confirmed_aux * by blast
qed

lemma confirmed_write_append:
  assumes "confirmed_write env cl kp opts meth as h es" "sends fs = []"
  shows "confirmed_write env cl kp opts meth as h (es @ fs)"
proof -
  from assms(1) obtain account p k i where "sends es = replicate (Suc k) (sign kp p) \<and> k \<le> 3 \<and>
      (\<exists>l. e_prepare env l (build_tx cl account (call_timeout cl opts) meth as) = Inr p) \<and>
      (\<exists>l r. e_send env l (sign kp p) = Inr r \<and> send_status r = ''PENDING'' \<and> send_hash r = h) \<and>
      GetTransaction i h \<in> set es \<and> (\<exists>l rv. e_getTransaction env l h = Inr (TxSuccess rv))"
    unfolding confirmed_write_def by blast
  then show ?thesis
    unfolding confirmed_write_def
    by (intro exI [of _ account] exI [of _ p] exI [of _ k]) (use assms(2) in auto)
qed

lemma contract_write_value_confirmed:
  assumes "contract_write_value env cl kp opts meth args rules w = (Inr r, w')"
  shows "\<exists>as es. args = Inr as \<and> w_log w' = w_log w @ es \<and>
    confirmed_write env cl kp opts meth as (wr_txHash r) es \<and>
    (\<exists>l rv. e_getTransaction env l (wr_txHash r) = Inr (TxSuccess (Some rv)) \<and>
      e_scValToNative env rv = Inr (wr_value r)) "
proof -
  from assms obtain t p h w1 w2 w3 where *: "write_tx env cl kp opts meth args w = (Inr t, w1)"
    "prepare_retry env t w1 = (Inr p, w2)" "send_retry env (sign kp p) w2 = (Inr h, w3)"
    "io_catch (andThen (poll_hash env cl h) (\<lambda>_. andThen (confirmed_value env h) (\<lambda>v.
         io_return \<lparr>wr_value = v, wr_estimatedFee = parse_int (p_fee p),
           wr_estimatedFeeXlm = stroops_to_xlm (parse_int (p_fee p)), wr_txHash = h\<rparr>)))
       (\<lambda>e. io_throw (map_error rules e)) w3 = (Inr r, w')"
    by (auto simp: contract_write_value_def andThen_Inr_iff io_run Let_def)
  from *(4) obtain w4 v where 4: "poll_hash env cl h w3 = (Inr (), w4)" "confirmed_value env h w4 = (Inr v, w')"
      "wr_txHash r = h" "wr_value r = v"
    by (auto simp: io_catch_def io_run andThen_Inr_iff split: prod.splits sum.splits)
  obtain as es where 5: "args = Inr as" "w_log w4 = w_log w @ es" "confirmed_write env cl kp opts meth as h es"
    using contract_write_confirmed_aux [OF *(1-3) poll_hash_polled [OF 4(1)]] by blast
  obtain fs where fs: "w_log w' = w_log w4 @ fs" "sends fs = []"
    using emitsD [OF emits_confirmed_value, of env h w4] 4(2) no_send_sends by auto
  have "\<exists>l rv. e_getTransaction env l h = Inr (TxSuccess (Some rv)) \<and> e_scValToNative env rv = Inr v"
    using 4(2) by (auto simp: confirmed_value_def srv_getTransaction_def andThen_Inr_iff thisServer_def io_run
        native_of_def split: if_splits option.splits tx_status.splits)
  then show ?thesis
    using 5 fs 4(3,4) confirmed_write_append [OF 5(3) fs(2)] by (intro exI [of _ as] exI [of _ "es @ fs"]) simp
qed

end
