(* ===== verification/Identity.thy ===== *)
theory Identity
  imports ContractCall
begin

text \<open>
  Models \<open>sdk/src/identity.ts\<close>, the client of the identity-registry contract: one definition per method.
  A missing argument of a builder is \<open>undefined\<close>, as at the call sites that pass an object with other
  field names than the builder reads. \<open>getDidMethods\<close> is not modelled: the builder it imports does not
  exist in \<open>contract-args.ts\<close>.
\<close>

section \<open>Helpers\<close>

definition PROBE_ADDRESS :: string where
  "PROBE_ADDRESS = ''GAAZI4TCR3TY5OJHCTJC2A4QSY6CJWJH5IAJTGKIN2ER7LBNVKOCCWN''"

definition SUPPORTED_DID_METHODS :: "string list" where
  "SUPPORTED_DID_METHODS = [''stellar'', ''ethr'', ''web'']"

text \<open>The character classes of \<open>DID_PATTERN\<close>: \<open>[a-z0-9]\<close> and \<open>[A-Za-z0-9._:%-]\<close>.\<close>

definition method_char :: "char \<Rightarrow> bool" where
  "method_char c = (is_digit c \<or> (97 \<le> char_code c \<and> char_code c \<le> 122))"

definition did_char :: "char \<Rightarrow> bool" where
  "did_char c = (method_char c \<or> (65 \<le> char_code c \<and> char_code c \<le> 90) \<or> c \<in> set ''._:%-'')"

definition invalid_did :: "string \<Rightarrow> thrown" where
  "invalid_did did = sdk_throw (''Invalid DID \"'' @ did
     @ ''\". Expected format did:<method>:<method-specific-id>.'') VALIDATION_ERROR"

definition parseDid :: "string \<Rightarrow> thrown + string \<times> string" where
  "parseDid did =
     (if \<not> starts_with did ''did:'' then Inl (invalid_did did)
      else let m = takeWhile method_char (drop 4 did) in
        (case dropWhile method_char (drop 4 did) of
           [] \<Rightarrow> Inl (invalid_did did)
         | c # i \<Rightarrow> if m \<noteq> [] \<and> c = CHR '':'' \<and> i \<noteq> [] \<and> list_all did_char i then Inr (m, i)
                    else Inl (invalid_did did)))"

text \<open>\<open>/\b(400|404)\b/\<close>: one of the words with no word character on either side.\<close>

definition word_char :: "char \<Rightarrow> bool" where
  "word_char c = (is_digit c \<or> (65 \<le> char_code c \<and> char_code c \<le> 90) \<or>
     (97 \<le> char_code c \<and> char_code c \<le> 122) \<or> c = CHR ''_'')"

fun word_occurs :: "string list \<Rightarrow> bool \<Rightarrow> string \<Rightarrow> bool" where
  "word_occurs ws after_word [] = False"
| "word_occurs ws after_word (c # s) =
     ((\<not> after_word \<and> takeWhile word_char (c # s) \<in> set ws) \<or> word_occurs ws (word_char c) s)"

definition isTransientRpcError :: "thrown \<Rightarrow> bool" where
  "isTransientRpcError err = (if \<not> is_error err then False else
     (let msg = to_lower (err_message err) in
      if word_occurs [''400'', ''404''] False msg then False
      else str_includes msg ''429'' \<or> str_includes msg ''503'' \<or> str_includes msg ''504'' \<or>
        str_includes msg ''timeout'' \<or> str_includes msg ''econnreset'' \<or> str_includes msg ''econnrefused'' \<or>
        str_includes msg ''network'' \<or> str_includes msg ''fetch failed''))"

definition DID_NOT_FOUND_CODE :: nat where
  "DID_NOT_FOUND_CODE = 1"

definition isRetryableResolveError :: "thrown \<Rightarrow> bool" where
  "isRetryableResolveError err = (isTransientRpcError err \<or>
     (case err of ContractThrown m n \<Rightarrow> n = DID_NOT_FOUND_CODE
      | SdkThrown e \<Rightarrow> code e = NOT_FOUND | _ \<Rightarrow> False))"

section \<open>Initialisation probe\<close>

definition not_initialized :: "string \<Rightarrow> bool" where
  "not_initialized err = (str_includes err ''not initialized'' \<or> str_includes err ''NotInitialized'' \<or>
     str_includes err ''#0'')"

definition isInitialized :: "env \<Rightarrow> client \<Rightarrow> bool io" where
  "isInitialized env cl = io_catch
     (executeWithFailover cl (\<lambda>i.
        andThen (io_lift (read_tx env cl PROBE_ADDRESS 10 ''has_active_did''
          (buildHasActiveDidArgs env PROBE_ADDRESS))) (\<lambda>t.
        andThen (request (Simulate i t) (\<lambda>l. e_simulate env l t)) (\<lambda>result. io_return (case result of
          SimError e \<Rightarrow> \<not> not_initialized (opt_or e []) | SimOk rv \<Rightarrow> True)))))
     (\<lambda>_. io_return False)"

section \<open>Writes\<close>

definition auth_subs :: "string list" where
  "auth_subs = [''require_auth'', ''not authorized'']"

definition createDid :: "env \<Rightarrow> client \<Rightarrow> string \<Rightarrow> (string \<times> string) list \<Rightarrow> call_options \<Rightarrow> write_result io" where
  "createDid env cl keypair metadata options =
     contract_write_value env cl keypair options ''create_did'' (buildCreateDidArgs env keypair metadata)
       [([''DID already exists''], ''A DID already exists for address '' @ keypair
           @ ''. Each address can only have one DID.'', VALIDATION_ERROR)]"

definition no_did_rule :: "string \<Rightarrow> error_rule" where
  "no_did_rule keypair = ([''DID not found''], ''No DID found for address '' @ keypair
     @ ''. Create one first with createDid.'', NOT_FOUND)"

definition controller_rule :: "string \<Rightarrow> error_rule" where
  "controller_rule keypair = (auth_subs, ''Address '' @ keypair @ '' is not the controller of this DID.'',
     UNAUTHORIZED)"

definition updateDid :: "env \<Rightarrow> client \<Rightarrow> string \<Rightarrow> (string \<times> string) list \<Rightarrow> call_options \<Rightarrow> string io" where
  "updateDid env cl keypair metadata options =
     contract_write env cl keypair options ''update_did'' (buildUpdateDidArgs env keypair metadata)
       [no_did_rule keypair, controller_rule keypair]"

section \<open>Resolution\<close>

text \<open>
  \<open>"id" in retval\<close>: a plain object with that property is the document itself. The native value of
  anything else is returned as it is.
\<close>

definition did_document :: "env \<Rightarrow> retval option \<Rightarrow> thrown + jv" where
  "did_document env rv = (case rv of
     Some (RPlain (JObj m)) \<Rightarrow> if jm_has m ''id'' then Inr (JObj m) else native_of env rv
   | _ \<Rightarrow> native_of env rv)"

definition resolve_attempt :: "env \<Rightarrow> tx \<Rightarrow> (string \<Rightarrow> thrown) \<Rightarrow> jv io" where
  "resolve_attempt env t onError = andThen (srv_simulate env t) (\<lambda>result. case result of
     SimError e \<Rightarrow> io_throw (onError (opt_or e [])) | SimOk rv \<Rightarrow> io_lift (did_document env rv))"

fun resolve_loop :: "env \<Rightarrow> jv io \<Rightarrow> rat \<Rightarrow> rat \<Rightarrow> nat \<Rightarrow> nat \<Rightarrow> jv io" where
  "resolve_loop env attemptFn baseDelayMs backoffFactor attempt 0 = io_catch attemptFn io_throw"
| "resolve_loop env attemptFn baseDelayMs backoffFactor attempt (Suc left) = io_catch attemptFn (\<lambda>err.
     if \<not> isRetryableResolveError err then io_throw err
     else andThen (math_random env) (\<lambda>x.
       andThen (sleep (of_int \<lfloor>baseDelayMs * backoffFactor ^ attempt + x * 100\<rfloor>)) (\<lambda>_.
         resolve_loop env attemptFn baseDelayMs backoffFactor (attempt + 1) left)))"

definition resolve_retries :: "env \<Rightarrow> client \<Rightarrow> call_options \<Rightarrow> jv io \<Rightarrow> jv io" where
  "resolve_retries env cl options attemptFn = (let c = cl_config cl;
     maxRetries = opt_or (orElse (o_maxRetries options) (cfg_maxRetries c)) 5;
     baseDelayMs = opt_or (orElse (o_baseDelayMs options) (cfg_baseDelayMs c)) 500;
     backoffFactor = opt_or (orElse (o_backoffFactor options) (cfg_backoffFactor c)) 2
   in resolve_loop env attemptFn baseDelayMs backoffFactor 0 maxRetries)"

definition resolve_error :: "string \<Rightarrow> string \<Rightarrow> thrown" where
  "resolve_error controllerAddress errMsg = (case extract_code errMsg IDENTITY_REGISTRY_ERRORS of
     Some contractErr \<Rightarrow> contractErr
   | None \<Rightarrow>
       if str_includes errMsg ''DidDeactivated'' then
         sdk_throw (''DID for address '' @ controllerAddress @ '' has been deactivated.'') VALIDATION_ERROR
       else if str_includes errMsg ''DidNotFound'' then
         sdk_throw (''NOT_FOUND: No DID found for address '' @ controllerAddress @ ''.'') NOT_FOUND
       else sdk_throw (''Simulation failed: '' @ errMsg) CONTRACT_ERROR)"

definition resolveDid :: "env \<Rightarrow> client \<Rightarrow> string \<Rightarrow> call_options \<Rightarrow> jv io" where
  "resolveDid env cl controllerAddress options =
     andThen (io_lift (validateStellarAddress env controllerAddress)) (\<lambda>_.
     andThen (io_lift (read_tx env cl controllerAddress (call_timeout cl options) ''resolve_did''
       (buildResolveDidArgs env controllerAddress))) (\<lambda>t.
     resolve_retries env cl options (resolve_attempt env t (resolve_error controllerAddress))))"

section \<open>Reads\<close>

definition hasActiveDid :: "env \<Rightarrow> client \<Rightarrow> string \<Rightarrow> call_options \<Rightarrow> jv io" where
  "hasActiveDid env cl controllerAddress options =
     andThen (io_lift (validateStellarAddress env controllerAddress)) (\<lambda>_.
     andThen (io_lift (read_tx env cl controllerAddress (call_timeout cl options) ''has_active_did''
       (buildHasActiveDidArgs env controllerAddress))) (\<lambda>t.
     andThen (simulate_retry env t) (\<lambda>result. case result of
       SimError e \<Rightarrow> io_return (JBool False) | SimOk rv \<Rightarrow> io_lift (native_of env rv))))"

definition getDidCount :: "env \<Rightarrow> client \<Rightarrow> call_options \<Rightarrow> jv io" where
  "getDidCount env cl options =
     read_call env (read_tx env cl (cfg_identityRegistryId (cl_config cl)) (call_timeout cl options)
         ''get_did_count'' (Inr []))
       (\<lambda>errMsg. case extract_code errMsg IDENTITY_REGISTRY_ERRORS of
          Some contractErr \<Rightarrow> contractErr | None \<Rightarrow> sdk_throw ''Failed to get DID count'' UNKNOWN)"

text \<open>\<open>if (!isActive)\<close> tests the truth of whatever the contract returned.\<close>

definition deactivateDid :: "env \<Rightarrow> client \<Rightarrow> string \<Rightarrow> string io" where
  "deactivateDid env cl keypair =
     andThen (hasActiveDid env cl keypair no_options) (\<lambda>isActive.
     if \<not> js_truthy isActive then io_throw (sdk_throw (''DID for '' @ keypair
         @ '' is already inactive or does not exist'') VALIDATION_ERROR)
     else andThen (write_tx env cl keypair no_options ''deactivate_did'' (buildDeactivateDidArgs env keypair)) (\<lambda>t.
       andThen (srv_prepare env t) (\<lambda>prepared.
       andThen (andThen (srv_send env (sign keypair prepared)) (\<lambda>result. io_lift (pending_hash result))) (\<lambda>txHash.
       andThen (poll_hash env cl txHash) (\<lambda>_. io_return txHash)))))"

definition listDIDs :: "env \<Rightarrow> client \<Rightarrow> string \<Rightarrow> rat \<Rightarrow> rat \<Rightarrow> call_options \<Rightarrow> jv io" where
  "listDIDs env cl callerAddress page pageSize options =
     andThen (io_lift (validateStellarAddress env callerAddress)) (\<lambda>_.
     let offset = (max 1 page - 1) * pageSize in
     read_call env (read_tx env cl callerAddress (call_timeout cl options) ''list_dids''
         (scvals [nativeToScVal env (JNum offset) ''u32'', nativeToScVal env (JNum pageSize) ''u32'']))
       (simulation_error IDENTITY_REGISTRY_ERRORS))"

definition getStorageStats :: "env \<Rightarrow> client \<Rightarrow> string \<Rightarrow> call_options \<Rightarrow> jv io" where
  "getStorageStats env cl callerAddress options =
     andThen (io_lift (validateStellarAddress env callerAddress)) (\<lambda>_.
     read_call env (read_tx env cl callerAddress (call_timeout cl options) ''get_storage_stats'' (Inr []))
       (simulation_error IDENTITY_REGISTRY_ERRORS))"

text \<open>\<open>resolveMany\<close>: the worker pool over the addresses; \<open>limit\<close> is the effective concurrency option.\<close>

definition resolveMany :: "string list \<Rightarrow> nat option \<Rightarrow> nat option \<Rightarrow> jv pool" where
  "resolveMany addresses concurrency maxConcurrentRequests =
     runConcurrent (length addresses) (opt_or (orElse concurrency maxConcurrentRequests) 5)"

section \<open>The resolver and signer rotation\<close>

definition registerDidMethod :: "env \<Rightarrow> client \<Rightarrow> string \<Rightarrow> string \<Rightarrow> call_options \<Rightarrow> string io" where
  "registerDidMethod env cl keypair meth options =
     contract_write env cl keypair options ''register_did_method''
       (buildRegisterDidMethodArgs env (JStr meth) JUndef JUndef)
       [(auth_subs, ''Address '' @ keypair @ '' is not authorized to register DID methods.'', UNAUTHORIZED),
        ([''MethodAlreadyRegistered'', ''already registered''],
         ''DID method \"'' @ meth @ ''\" is already registered.'', VALIDATION_ERROR)]"

definition resolve_string_error :: "string \<Rightarrow> string \<Rightarrow> thrown" where
  "resolve_string_error didString errMsg = (case extract_code errMsg IDENTITY_REGISTRY_ERRORS of
     Some contractErr \<Rightarrow> contractErr
   | None \<Rightarrow>
       if str_includes errMsg ''UnsupportedDidMethod'' then
         sdk_throw (''DID method in \"'' @ didString @ ''\" is not supported by the resolver.'') VALIDATION_ERROR
       else if str_includes errMsg ''DidNotFound'' then
         sdk_throw (''NOT_FOUND: No DID found for \"'' @ didString @ ''\".'') NOT_FOUND
       else sdk_throw (''Simulation failed: '' @ errMsg) CONTRACT_ERROR)"

definition resolveDidString :: "env \<Rightarrow> client \<Rightarrow> string \<Rightarrow> call_options \<Rightarrow> jv io" where
  "resolveDidString env cl didString options =
     (if \<not> starts_with didString ''did:'' then io_throw (sdk_throw (''Invalid DID string \"'' @ didString
        @ ''\": must start with \"did:\".'') VALIDATION_ERROR)
      else andThen (io_lift (read_tx env cl PROBE_ADDRESS (call_timeout cl options) ''resolve_did_string''
          (buildResolveDidStringArgs env JUndef))) (\<lambda>t.
        resolve_retries env cl options (resolve_attempt env t (resolve_string_error didString))))"

text \<open>\<open>newSigners\<close> is an object from addresses to weights.\<close>

definition initiateSignerRotation ::
    "env \<Rightarrow> client \<Rightarrow> string \<Rightarrow> (string \<times> jv) list \<Rightarrow> jv \<Rightarrow> call_options \<Rightarrow> write_result io" where
  "initiateSignerRotation env cl keypair newSigners threshold options =
     contract_write_value env cl keypair options ''initiate_signer_rotation''
       (buildInitiateSignerRotationArgs env JUndef (JObj newSigners) JUndef)
       [no_did_rule keypair, controller_rule keypair,
        ([''InvalidThreshold'', ''invalid threshold''], ''Invalid threshold '' @ js_string threshold
          @ '' for the proposed signer set.'', VALIDATION_ERROR)]"

definition rotation_missing_rule :: "string \<Rightarrow> error_rule" where
  "rotation_missing_rule rotationId = ([''RotationNotFound'', ''rotation not found''],
     ''Signer rotation \"'' @ rotationId @ ''\" was not found.'', NOT_FOUND)"

definition rotation_expired_rule :: "string \<Rightarrow> error_rule" where
  "rotation_expired_rule rotationId = ([''RotationExpired'', ''expired''],
     ''Signer rotation \"'' @ rotationId @ ''\" has expired.'', VALIDATION_ERROR)"

definition approveSignerRotation :: "env \<Rightarrow> client \<Rightarrow> string \<Rightarrow> string \<Rightarrow> call_options \<Rightarrow> string io" where
  "approveSignerRotation env cl keypair rotationId options =
     contract_write env cl keypair options ''approve_signer_rotation''
       (buildApproveSignerRotationArgs env JUndef JUndef)
       [rotation_missing_rule rotationId,
        (auth_subs, ''Address '' @ keypair @ '' is not authorized to approve this rotation.'', UNAUTHORIZED),
        rotation_expired_rule rotationId]"

definition completeSignerRotation :: "env \<Rightarrow> client \<Rightarrow> string \<Rightarrow> string \<Rightarrow> call_options \<Rightarrow> string io" where
  "completeSignerRotation env cl keypair rotationId options =
     contract_write env cl keypair options ''complete_signer_rotation''
       (buildCompleteSignerRotationArgs env JUndef)
       [rotation_missing_rule rotationId,
        (auth_subs, ''Address '' @ keypair @ '' is not authorized to complete this rotation.'', UNAUTHORIZED),
        ([''ThresholdNotMet'', ''threshold not met''], ''Signer rotation \"'' @ rotationId
          @ ''\" has not met its approval threshold.'', VALIDATION_ERROR),
        rotation_expired_rule rotationId]"

text \<open>
  The options \<open>resolveDID\<close> reads: \<open>useCache\<close> is no field of \<open>ResolveDidOptions\<close>, a caller who follows the
  type leaves it \<open>undefined\<close>.
\<close>

record resolve_did_options =
  rd_call :: call_options
  rd_useCache :: jv
  rd_noCache :: "bool option"
  rd_fallbackChain :: "string list option"

definition universal_error :: "string \<Rightarrow> string \<Rightarrow> string \<Rightarrow> thrown" where
  "universal_error did meth errMsg = (case extract_code errMsg IDENTITY_REGISTRY_ERRORS of
     Some contractErr \<Rightarrow> contractErr
   | None \<Rightarrow>
       if str_includes errMsg ''UnsupportedDidMethod'' then
         sdk_throw (''Unsupported DID method \"'' @ meth @ ''\". Supported methods: ''
           @ join '', '' SUPPORTED_DID_METHODS @ ''.'') VALIDATION_ERROR
       else if str_includes errMsg ''DidNotFound'' \<or> str_includes errMsg ''ResolverNotFound'' then
         sdk_throw (''NOT_FOUND: No resolver could resolve DID '' @ did @ ''.'') NOT_FOUND
       else sdk_throw (''Simulation failed: '' @ errMsg) CONTRACT_ERROR)"

definition resolveDID :: "env \<Rightarrow> client \<Rightarrow> string \<Rightarrow> resolve_did_options \<Rightarrow> jv io" where
  "resolveDID env cl did options =
     andThen (io_lift (parseDid did)) (\<lambda>(meth, _).
     read_call env (read_tx env cl PROBE_ADDRESS (call_timeout cl (rd_call options)) ''resolve_did_universal''
         (scvals ([nativeToScVal env (JStr did) ''string'', nativeToScVal env (JStr meth) ''string'',
             nativeToScVal env (JBool (js_truthy (js_coalesce (rd_useCache options) (JBool True)))) ''bool'']
           @ (case rd_fallbackChain options of
                Some chain \<Rightarrow> if chain = [] then [] else [nativeToScVal env (JArr (map JStr chain)) ''string'']
              | None \<Rightarrow> []))))
       (universal_error did meth))"

definition registerResolverPlugin :: "env \<Rightarrow> client \<Rightarrow> string \<Rightarrow> string \<Rightarrow> string \<Rightarrow> call_options \<Rightarrow> string io" where
  "registerResolverPlugin env cl keypair meth resolverAddress options =
     (if \<not> (meth \<noteq> [] \<and> list_all method_char meth) then io_throw (sdk_throw (''Invalid DID method \"'' @ meth
        @ ''\". Methods must be lowercase alphanumeric.'') VALIDATION_ERROR)
      else andThen (io_lift (validateStellarAddress env resolverAddress)) (\<lambda>_.
        contract_write env cl keypair options ''register_resolver_plugin''
          (scvals [nativeToScVal env (JStr keypair) ''address'', nativeToScVal env (JStr meth) ''string'',
            nativeToScVal env (JStr resolverAddress) ''address''])
          [(auth_subs, ''Address '' @ keypair @ '' is not authorized to register resolver plugins.'',
            UNAUTHORIZED)]))"

definition setFallbackChain :: "env \<Rightarrow> client \<Rightarrow> string \<Rightarrow> jv \<Rightarrow> call_options \<Rightarrow> string io" where
  "setFallbackChain env cl keypair chain options =
     (let write = contract_write env cl keypair options ''set_fallback_chain''
          (scvals [nativeToScVal env (JStr keypair) ''address'', nativeToScVal env chain ''string''])
          [(auth_subs, ''Address '' @ keypair @ '' is not authorized to set the fallback chain.'', UNAUTHORIZED)];
        empty = io_throw (sdk_throw ''Fallback chain must contain at least one resolver identifier.'' VALIDATION_ERROR)
      in case chain of
        JArr entries \<Rightarrow> if entries = [] then empty
          else if list_ex (\<lambda>v. case v of JStr s \<Rightarrow> s = [] | _ \<Rightarrow> True) entries
          then io_throw (sdk_throw ''Fallback chain entries must be non-empty strings.'' VALIDATION_ERROR)
          else write
      | _ \<Rightarrow> empty)"

definition getCachedDID :: "env \<Rightarrow> client \<Rightarrow> string \<Rightarrow> call_options \<Rightarrow> jv io" where
  "getCachedDID env cl did options =
     andThen (io_lift (parseDid did)) (\<lambda>_.
     andThen (read_call env (read_tx env cl PROBE_ADDRESS (call_timeout cl options) ''get_cached_did''
         (scvals [nativeToScVal env (JStr did) ''string'']))
       (simulation_error IDENTITY_REGISTRY_ERRORS)) (\<lambda>native. io_return (js_coalesce native JNull)))"

definition validateDIDDocument :: "env \<Rightarrow> client \<Rightarrow> jv \<Rightarrow> call_options \<Rightarrow> jv io" where
  "validateDIDDocument env cl document options =
     (if \<not> js_truthy document \<or> \<not> is_object document
      then io_throw (sdk_throw ''DID document must be a non-null object.'' VALIDATION_ERROR)
      else read_call env (read_tx env cl PROBE_ADDRESS (call_timeout cl options) ''validate_did_document''
         (scvals [nativeToScVal env document ''map'']))
       (simulation_error IDENTITY_REGISTRY_ERRORS))"

definition ping :: "env \<Rightarrow> client \<Rightarrow> call_options \<Rightarrow> jv io" where
  "ping env cl options =
     read_call env (read_tx env cl PROBE_ADDRESS (call_timeout cl options) ''ping'' (Inr []))
       (\<lambda>errMsg. sdk_throw ''Health check failed: identity-registry not responding'' CONTRACT_ERROR)"

section \<open>Lemmas\<close>

lemma emits_resolve_loop: "emits P fn \<Longrightarrow> (\<And>ms. P (Sleep ms)) \<Longrightarrow> emits P (resolve_loop env fn b f i n)"
  by (induction env fn b f i n rule: resolve_loop.induct) (auto intro!: emits)

lemma emits_resolve_retries [emits]: "emits is_read (resolve_retries env cl options (resolve_attempt env t f))"
proof -
  have "emits is_read (resolve_attempt env t f)" unfolding resolve_attempt_def by (intro emits) simp
  then show ?thesis by (simp add: resolve_retries_def Let_def emits_resolve_loop)
qed

lemma emits_hasActiveDid [emits]: "emits is_read (hasActiveDid env cl a opts)"
  unfolding hasActiveDid_def by (intro emits)

lemma method_char_colon [simp]: "\<not> method_char (CHR '':'')"
  by code_simp

text \<open>The world before the attempt \<open>k\<close> when all before it failed with a retryable error.\<close>

fun resolve_world :: "env \<Rightarrow> jv io \<Rightarrow> rat \<Rightarrow> rat \<Rightarrow> world \<Rightarrow> nat \<Rightarrow> world" where
  "resolve_world env fn b f w 0 = w"
| "resolve_world env fn b f w (Suc k) = (let w' = snd (fn (resolve_world env fn b f w k)) in
     w'\<lparr>w_log := w_log w' @ [Sleep (of_int \<lfloor>b * f ^ k + e_random env (w_log w') * 100\<rfloor>)]\<rparr>)"

definition fails_retryably :: "thrown + jv \<Rightarrow> bool" where
  "fails_retryably r = (case r of Inl e \<Rightarrow> isRetryableResolveError e | Inr x \<Rightarrow> False)"

lemma resolve_loop_run:
  "\<exists>k \<le> n. (\<forall>j < k. fails_retryably (fst (fn (resolve_world env fn b f w (i + j))))) \<and>
    resolve_loop env fn b f i n (resolve_world env fn b f w i) = fn (resolve_world env fn b f w (i + k)) \<and>
    (k < n \<longrightarrow> \<not> fails_retryably (fst (fn (resolve_world env fn b f w (i + k)))))"
proof (induction n arbitrary: i)
  case 0
  show ?case by (auto simp: io_catch_def io_throw_def split: prod.split sum.split)
next
  case (Suc n)
  let ?w = "resolve_world env fn b f w i"
  obtain r w' where r: "fn ?w = (r, w')" by (cases "fn ?w")
  show ?case
  proof (cases "fails_retryably r")
    case False
    then have "resolve_loop env fn b f i (Suc n) ?w = fn ?w"
      using r by (auto simp: io_run io_catch_def fails_retryably_def split: sum.splits)
    then show ?thesis using False r by (intro exI [of _ 0]) simp
  next
    case True
    then have step: "resolve_loop env fn b f i (Suc n) ?w
        = resolve_loop env fn b f (Suc i) n (resolve_world env fn b f w (Suc i))"
      using r by (auto simp: io_run io_catch_def fails_retryably_def andThen_def math_random_def Let_def split: sum.splits)
    obtain k where k: "k \<le> n" "\<forall>j < k. fails_retryably (fst (fn (resolve_world env fn b f w (Suc i + j))))"
        "resolve_loop env fn b f (Suc i) n (resolve_world env fn b f w (Suc i)) = fn (resolve_world env fn b f w (Suc i + k))"
        "k < n \<longrightarrow> \<not> fails_retryably (fst (fn (resolve_world env fn b f w (Suc i + k))))"
      using Suc.IH [of "Suc i"] by blast
    have "fails_retryably (fst (fn (resolve_world env fn b f w (i + j))))" if "j < Suc k" for j
      using that k(2) True r by (cases j) auto
    then show ?thesis using k step by (intro exI [of _ "Suc k"]) simp
  qed
qed

text \<open>A request that throws whatever server it runs on makes the whole call throw.\<close>

definition always_throws :: "'a io \<Rightarrow> bool" where
  "always_throws m = (\<forall>w. \<exists>e w'. m w = (Inl e, w'))"

lemma always_throws_throw: "always_throws (io_throw e)"
  by (simp add: always_throws_def io_run)

lemma always_throws_andThen:
  assumes "always_throws m"
  shows "always_throws (andThen m f)"
proof -
  have "\<exists>e w'. andThen m f w = (Inl e, w')" for w
  proof -
    obtain e w1 where "m w = (Inl e, w1)" using assms unfolding always_throws_def by blast
    then show ?thesis by (simp add: andThen_def)
  qed
  then show ?thesis by (simp add: always_throws_def)
qed

lemma always_throws_andThen_right: "(\<And>x. always_throws (f x)) \<Longrightarrow> always_throws (andThen m f)"
  unfolding always_throws_def andThen_def by (auto split: prod.split sum.split)

lemma always_throws_catch:
  assumes "always_throws m" "\<And>e. always_throws (f e)"
  shows "always_throws (io_catch m f)"
proof -
  have "\<exists>e w'. io_catch m f w = (Inl e, w')" for w
  proof -
    obtain e w1 where "m w = (Inl e, w1)" using assms(1) unfolding always_throws_def by blast
    then show ?thesis using assms(2) [of e] by (simp add: io_catch_def always_throws_def)
  qed
  then show ?thesis by (simp add: always_throws_def)
qed

lemma always_throws_failover:
  "(\<And>i. always_throws (fn i)) \<Longrightarrow> always_throws (failover_loop cl fn a e n)"
proof (induction cl fn a e n rule: failover_loop.induct)
  case (2 cl fn attempt lastError left)
  have "always_throws (if failover_error e then failover_loop cl fn (attempt + 1) e left else io_throw e)" for e
    using 2 by (simp add: always_throws_throw)
  then show ?case
    unfolding failover_loop.simps Let_def
    by (intro always_throws_andThen_right [of _ get_index] always_throws_catch always_throws_andThen 2)
qed (simp add: always_throws_throw)

lemma always_throws_queue: "always_throws fn \<Longrightarrow> always_throws (queue_loop cl s fn k n)"
proof (induction cl s fn k n rule: queue_loop.induct)
  case (1 cl s fn n)
  then show ?case unfolding queue_loop.simps Let_def
    by (intro always_throws_catch) (auto simp: always_throws_throw)
next
  case (2 cl s fn n left)
  then show ?case unfolding queue_loop.simps Let_def
    by (intro always_throws_catch) (auto simp: always_throws_throw intro!: always_throws_andThen_right)
qed

lemma always_throws_execute:
  assumes "\<And>i. always_throws (fn i)"
  shows "always_throws (executeWithFailover cl fn)"
proof -
  have "always_throws (queue_run cl (failover cl fn))"
    unfolding queue_run_def failover_def Let_def
    by (intro always_throws_queue always_throws_failover assms)
  then show ?thesis by (simp add: always_throws_def executeWithFailover_def)
qed

lemma probe_length: "length PROBE_ADDRESS = 55"
  by (simp add: PROBE_ADDRESS_def)

lemma reads_send_nothing: "list_all is_read es \<Longrightarrow> sends es = []"
  by (induction es) (auto simp: is_read_def split: effect.splits)

section \<open>Properties\<close>

lemma split_method:
  "takeWhile method_char s = m \<and> dropWhile method_char s = CHR '':'' # i \<longleftrightarrow>
    s = m @ CHR '':'' # i \<and> list_all method_char m"
proof
  assume a: "takeWhile method_char s = m \<and> dropWhile method_char s = CHR '':'' # i"
  then have "s = m @ CHR '':'' # i" by (metis takeWhile_dropWhile_id)
  moreover have "list_all method_char m" using a by (auto simp: list_all_iff dest: set_takeWhileD)
  ultimately show "s = m @ CHR '':'' # i \<and> list_all method_char m" by simp
next
  assume "s = m @ CHR '':'' # i \<and> list_all method_char m"
  then show "takeWhile method_char s = m \<and> dropWhile method_char s = CHR '':'' # i"
    by (simp add: takeWhile_all_then dropWhile_all_then)
qed

text \<open>
  \<open>parseDid\<close> splits exactly the strings \<open>did:<method>:<id>\<close> with a non-empty method of lower-case
  letters and digits and a non-empty identifier over its alphabet, and returns the two parts.
\<close>

theorem parseDid_spec:
  "parseDid did = Inr (m, i) \<longleftrightarrow> did = ''did:'' @ m @ '':'' @ i \<and>
     m \<noteq> [] \<and> list_all method_char m \<and> i \<noteq> [] \<and> list_all did_char i"
proof (cases "starts_with did ''did:''")
  case True
  then obtain s where s: "did = ''did:'' @ s" by (auto simp: starts_with_iff)
  show ?thesis
  proof (cases "dropWhile method_char s")
    case Nil
    then have "list_all method_char s" by (simp add: dropWhile_eq_Nil_conv list_all_iff)
    then have "s \<noteq> m @ CHR '':'' # i" by auto
    moreover have "parseDid did = Inl (invalid_did did)" by (simp add: parseDid_def s Nil del: dropWhile_eq_Nil_conv)
    ultimately show ?thesis using s by simp
  next
    case (Cons c r)
    have "parseDid did = Inr (m, i) \<longleftrightarrow> (takeWhile method_char s = m \<and> dropWhile method_char s = CHR '':'' # i) \<and>
        m \<noteq> [] \<and> i \<noteq> [] \<and> list_all did_char i"
      using Cons s by (auto simp: parseDid_def Let_def)
    then show ?thesis using split_method [of s m i] s by auto
  qed
next
  case False
  then show ?thesis by (auto simp: parseDid_def starts_with_iff)
qed

text \<open>
  No read of the identity client signs or sends anything, fetches an account or polls: whatever the
  arguments and the answers of the nodes, it simulates and waits.
\<close>

theorem identity_reads_send_nothing:
  "emits is_read (isInitialized env cl) \<and> emits is_read (resolveDid env cl a opts) \<and>
   emits is_read (hasActiveDid env cl a opts) \<and> emits is_read (getDidCount env cl opts) \<and>
   emits is_read (listDIDs env cl a page per_page opts) \<and> emits is_read (getStorageStats env cl a opts) \<and>
   emits is_read (resolveDidString env cl did opts) \<and> emits is_read (resolveDID env cl did ropts) \<and>
   emits is_read (getCachedDID env cl did opts) \<and> emits is_read (validateDIDDocument env cl doc opts) \<and>
   emits is_read (ping env cl opts)"
proof (intro conjI)
  show "emits is_read (isInitialized env cl)"
    unfolding isInitialized_def by (intro emits) simp_all
  show "emits is_read (resolveDid env cl a opts)" unfolding resolveDid_def by (intro emits)
  show "emits is_read (listDIDs env cl a page per_page opts)" unfolding listDIDs_def Let_def by (intro emits)
  show "emits is_read (resolveDID env cl did ropts)" unfolding resolveDID_def by (intro emits)
qed (unfold getDidCount_def getStorageStats_def resolveDidString_def getCachedDID_def
      validateDIDDocument_def ping_def, (intro emits)+)

text \<open>
  \<open>createDid\<close> returns only for a confirmed creation: everything it broadcast was one prepared
  \<open>create_did\<close> transaction of the keypair, signed by it, at most four times; a node took it as
  \<open>PENDING\<close> under the returned hash and reported its success, and the returned DID is the native value of
  the return value reported.
\<close>

theorem createDid_confirmed:
  assumes "createDid env cl keypair metadata options w = (Inr r, w')"
  shows "\<exists>as es l rv. buildCreateDidArgs env keypair metadata = Inr as \<and> w_log w' = w_log w @ es \<and>
    confirmed_write env cl keypair options ''create_did'' as (wr_txHash r) es \<and>
    e_getTransaction env l (wr_txHash r) = Inr (TxSuccess (Some rv)) \<and> e_scValToNative env rv = Inr (wr_value r)"
  using contract_write_value_confirmed [OF assms [unfolded createDid_def]] by blast

text \<open>
  \<open>deactivateDid\<close> returns only after a simulation said that the DID is active; it then broadcast one
  transaction, once, and a node reported its success under the returned hash.
\<close>

theorem deactivateDid_confirmed:
  assumes "deactivateDid env cl keypair w = (Inr h, w')"
  shows "\<exists>v w1 p es. hasActiveDid env cl keypair no_options w = (Inr v, w1) \<and> js_truthy v \<and>
    w_log w' = w_log w @ es \<and> sends es = [sign keypair p] \<and>
    (\<exists>l rv. e_getTransaction env l h = Inr (TxSuccess rv))"
proof -
  from assms obtain v w1 t w2 p w3 w4 where *:
    "hasActiveDid env cl keypair no_options w = (Inr v, w1)" "js_truthy v"
    "write_tx env cl keypair no_options ''deactivate_did'' (buildDeactivateDidArgs env keypair) w1 = (Inr t, w2)"
    "srv_prepare env t w2 = (Inr p, w3)"
    "andThen (srv_send env (sign keypair p)) (\<lambda>result. io_lift (pending_hash result)) w3 = (Inr h, w4)"
    "poll_hash env cl h w4 = (Inr (), w')"
    by (auto simp: deactivateDid_def andThen_Inr_iff io_run split: if_splits)
  obtain e0 where "w_log w1 = w_log w @ e0" "list_all is_read e0"
    using emitsD [OF emits_hasActiveDid, of env cl keypair no_options w] *(1) by auto
  then have e0: "w_log w1 = w_log w @ e0" "sends e0 = []"
    using reads_send_nothing by simp_all
  obtain e1 where e1: "w_log w2 = w_log w1 @ e1" "sends e1 = []"
    using emitsD [OF emits_write_tx] *(3) no_send_sends by (metis snd_conv)
  have e2: "w_log w3 = w_log w2 @ [Prepare (w_index w2) t]"
    using *(4) by (auto simp: srv_prepare_run split: if_splits)
  have e3: "w_log w4 = w_log w3 @ [Send (w_index w3) (sign keypair p)]"
    using *(5) by (auto simp: srv_send_run andThen_Inr_iff io_run split: if_splits)
  obtain e4 rv i where e4: "w_log w' = w_log w4 @ e4 @ [GetTransaction i h]" "sends e4 = []"
      "e_getTransaction env (w_log w4 @ e4) h = Inr (TxSuccess rv)"
    using poll_hash_Inr [OF *(6)] by blast
  have "w_log w' = w_log w @ (e0 @ e1 @ [Prepare (w_index w2) t, Send (w_index w3) (sign keypair p)] @ e4
      @ [GetTransaction i h])"
    using e0 e1 e2 e3 e4 by simp
  then show ?thesis using *(1,2) e0 e1 e4 by (intro exI conjI; (assumption | rule refl)?) auto
qed

text \<open>
  \<open>resolveDid\<close> simulates at most \<open>maxRetries + 1\<close> times. Its outcome is that of the first simulation
  whose error is not retryable (or that has none), or of the last one; a missing DID is retried like a
  transient fault.
\<close>

theorem resolveDid_retries:
  fixes env :: env and cl :: client and options :: call_options
  defines "n \<equiv> opt_or (orElse (o_maxRetries options) (cfg_maxRetries (cl_config cl))) 5"
    and "b \<equiv> opt_or (orElse (o_baseDelayMs options) (cfg_baseDelayMs (cl_config cl))) 500"
    and "f \<equiv> opt_or (orElse (o_backoffFactor options) (cfg_backoffFactor (cl_config cl))) 2"
  assumes "e_isValidKey env a"
    and "read_tx env cl a (call_timeout cl options) ''resolve_did'' (buildResolveDidArgs env a) = Inr t"
  shows "let attemptFn = resolve_attempt env t (resolve_error a); at_world = resolve_world env attemptFn b f w in
    \<exists>k \<le> n. resolveDid env cl a options w = attemptFn (at_world k) \<and>
      (\<forall>j < k. \<exists>e. fst (attemptFn (at_world j)) = Inl e \<and> isRetryableResolveError e) \<and>
      (k < n \<longrightarrow> (\<forall>e. fst (attemptFn (at_world k)) = Inl e \<longrightarrow> \<not> isRetryableResolveError e))"
proof -
  let ?fn = "resolve_attempt env t (resolve_error a)"
  have run: "resolveDid env cl a options w = resolve_loop env ?fn b f 0 n w"
    using assms(4,5) by (simp add: resolveDid_def validateStellarAddress_def andThen_def io_run
        resolve_retries_def Let_def n_def b_def f_def)
  have fr: "fails_retryably r \<longleftrightarrow> (\<exists>e. r = Inl e \<and> isRetryableResolveError e)" for r
    by (auto simp: fails_retryably_def split: sum.split)
  obtain k where "k \<le> n" "\<forall>j < k. fails_retryably (fst (?fn (resolve_world env ?fn b f w (0 + j))))"
      "resolve_loop env ?fn b f 0 n (resolve_world env ?fn b f w 0) = ?fn (resolve_world env ?fn b f w (0 + k))"
      "k < n \<longrightarrow> \<not> fails_retryably (fst (?fn (resolve_world env ?fn b f w (0 + k))))"
    using resolve_loop_run [where n = n and env = env and fn = ?fn and b = b and f = f and w = w and i = 0] by blast
  then show ?thesis unfolding Let_def run by (intro exI [of _ k]) (auto simp: fr)
qed

text \<open>
  \<open>PROBE_ADDRESS\<close> has 55 characters. Given that the Stellar SDK rejects an account identifier that is
  not 56 characters long, \<open>isInitialized\<close> answers \<open>false\<close> for every contract, and \<open>ping\<close>, \<open>getCachedDID\<close>,
  \<open>resolveDID\<close>, \<open>resolveDidString\<close> and \<open>validateDIDDocument\<close> throw, without sending a request.
\<close>

theorem probe_address_never_works:
  assumes strkey: "\<And>a. length a \<noteq> 56 \<Longrightarrow> e_newAccount env a \<noteq> None"
  shows "fst (isInitialized env cl w) = Inr False \<and>
    (\<exists>e. ping env cl opts w = (Inl e, w)) \<and> (\<exists>e. getCachedDID env cl did opts w = (Inl e, w)) \<and>
    (\<exists>e. resolveDID env cl did ropts w = (Inl e, w)) \<and> (\<exists>e. resolveDidString env cl did opts w = (Inl e, w)) \<and>
    (\<exists>e. validateDIDDocument env cl doc opts w = (Inl e, w))"
proof -
  obtain e where e: "e_newAccount env PROBE_ADDRESS = Some e"
    using strkey [of PROBE_ADDRESS] probe_length by auto
  have tx: "read_tx env cl PROBE_ADDRESS t m args = Inl e" for t m args
    by (simp add: read_tx_def new_account_def e)
  note throws = read_call_throws [OF tx]
  let ?fn = "\<lambda>i. andThen (io_lift (read_tx env cl PROBE_ADDRESS 10 ''has_active_did''
          (buildHasActiveDidArgs env PROBE_ADDRESS))) (\<lambda>t.
        andThen (request (Simulate i t) (\<lambda>l. e_simulate env l t)) (\<lambda>result. io_return (case result of
          SimError e \<Rightarrow> \<not> not_initialized (opt_or e []) | SimOk rv \<Rightarrow> True)))"
  have "always_throws (?fn i)" for i
    by (rule always_throws_andThen) (simp add: tx always_throws_def io_run)
  then have "always_throws (executeWithFailover cl ?fn)" by (rule always_throws_execute)
  then obtain e' w' where "executeWithFailover cl ?fn w = (Inl e', w')" unfolding always_throws_def by blast
  then have "fst (isInitialized env cl w) = Inr False" by (simp add: isInitialized_def io_catch_def io_run)
  moreover have "\<exists>e. ping env cl opts w = (Inl e, w)" by (simp add: ping_def throws)
  moreover have "\<exists>e. getCachedDID env cl did opts w = (Inl e, w)"
    by (cases "parseDid did") (simp_all add: getCachedDID_def andThen_def io_run throws)
  moreover have "\<exists>e. resolveDID env cl did ropts w = (Inl e, w)"
    by (cases "parseDid did") (simp_all add: resolveDID_def andThen_def io_run throws split: prod.split)
  moreover have "\<exists>e. resolveDidString env cl did opts w = (Inl e, w)"
    by (simp add: resolveDidString_def andThen_def io_run tx)
  moreover have "\<exists>e. validateDIDDocument env cl doc opts w = (Inl e, w)"
    by (simp add: validateDIDDocument_def io_run throws)
  ultimately show ?thesis by blast
qed

text \<open>
  \<open>initiateSignerRotation\<close> never returns and never prepares or sends a transaction: it passes the
  builder an object where the builder maps over an array.
\<close>

theorem initiateSignerRotation_never_sends:
  "\<exists>e w'. initiateSignerRotation env cl keypair newSigners threshold options w = (Inl e, w') \<and>
     (w_log w' = w_log w \<or> (\<exists>i. w_log w' = w_log w @ [GetAccount i keypair]))"
proof -
  have "\<exists>e. buildInitiateSignerRotationArgs env JUndef (JObj newSigners) JUndef = Inl e"
    by (cases "nativeToScVal env JUndef ''address''") (simp_all add: buildInitiateSignerRotationArgs_def scvals_def scv_vec_def)
  then obtain e where "buildInitiateSignerRotationArgs env JUndef (JObj newSigners) JUndef = Inl e" ..
  then show ?thesis
    by (auto simp: initiateSignerRotation_def contract_write_value_def write_tx_def srv_getAccount_def
        thisServer_def andThen_def io_run split: sum.split)
qed

text \<open>
  The approval of a signer rotation does not depend on the rotation: what it broadcasts calls the
  contract with two \<open>undefined\<close> arguments, whatever rotation and signer the caller names.
\<close>

theorem approveSignerRotation_ignores_rotation:
  assumes "approveSignerRotation env cl keypair rotationId options w = (Inr h, w')"
  shows "\<exists>es. w_log w' = w_log w @ es \<and> confirmed_write env cl keypair options ''approve_signer_rotation''
    [Native JUndef ''address'', Native JUndef ''address''] h es"
proof -
  have "as = [Native JUndef ''address'', Native JUndef ''address'']"
    if "buildApproveSignerRotationArgs env JUndef JUndef = Inr as" for as
    using that by (auto simp: buildApproveSignerRotationArgs_def scvals_def nativeToScVal_def split: option.splits)
  then show ?thesis
    using contract_write_confirmed [OF assms [unfolded approveSignerRotation_def]] by blast
qed

section \<open>Witnesses\<close>

definition alice :: string where
  "alice = ''GAAAAAAAAAAAAAAAAAAAAAAAAAAAAAAAAAAAAAAAAAAAAAAAAAAAAAAA''"

text \<open>An environment in which every DID is active and every transaction succeeds.\<close>

definition kind_env :: env where
  "kind_env = demo_env\<lparr>e_getTransaction := (\<lambda>l h. Inr (TxSuccess (Some (RPlain (JStr ''did:stellar:G''))))),
     e_simulate := (\<lambda>l t. Inr (SimOk (Some (RPlain (JBool True)))))\<rparr>"

lemma createDid_confirmed_witness:
  "\<exists>w' as es. createDid kind_env demo_client alice [] no_options fresh_world
      = (Inr \<lparr>wr_value = JStr ''did:stellar:G'', wr_estimatedFee = Some 101,
           wr_estimatedFeeXlm = ''0.0000101'', wr_txHash = ''ab''\<rparr>, w') \<and>
    w_log w' = es \<and> confirmed_write kind_env demo_client alice no_options ''create_did'' as ''ab'' es"
proof -
  let ?r = "\<lparr>wr_value = JStr ''did:stellar:G'', wr_estimatedFee = Some 101,
           wr_estimatedFeeXlm = ''0.0000101'', wr_txHash = ''ab''\<rparr>"
  have "fst (createDid kind_env demo_client alice [] no_options fresh_world) = Inr ?r" by code_simp
  then obtain w' where run: "createDid kind_env demo_client alice [] no_options fresh_world = (Inr ?r, w')"
    by (metis prod.collapse)
  from createDid_confirmed [OF run] show ?thesis using run by (auto simp: fresh_world_def)
qed

lemma deactivateDid_confirmed_witness:
  "\<exists>p w'. deactivateDid kind_env demo_client alice fresh_world = (Inr ''ab'', w') \<and>
    sends (w_log w') = [sign alice p]"
proof -
  have "fst (deactivateDid kind_env demo_client alice fresh_world) = Inr ''ab''" by code_simp
  then obtain w' where run: "deactivateDid kind_env demo_client alice fresh_world = (Inr ''ab'', w')"
    by (metis prod.collapse)
  from deactivateDid_confirmed [OF run] show ?thesis using run by (auto simp: fresh_world_def)
qed

text \<open>An environment whose first simulation does not find the DID.\<close>

definition late_env :: env where
  "late_env = demo_env\<lparr>e_simulate := (\<lambda>l t. if l = [] then Inr (SimError (Some ''DidNotFound''))
     else Inr (SimOk (Some (RPlain (JObj [(''id'', JStr ''did:stellar:G'')])))))\<rparr>"

lemma resolveDid_retries_witness:
  "fst (resolveDid late_env demo_client alice no_options fresh_world) = Inr (JObj [(''id'', JStr ''did:stellar:G'')]) \<and>
   (\<exists>t. \<exists>k \<le> (5 :: nat). resolveDid late_env demo_client alice no_options fresh_world
      = resolve_attempt late_env t (resolve_error alice)
          (resolve_world late_env (resolve_attempt late_env t (resolve_error alice)) 500 2 fresh_world k))"
proof -
  have run: "fst (resolveDid late_env demo_client alice no_options fresh_world)
      = Inr (JObj [(''id'', JStr ''did:stellar:G'')])" by code_simp
  have key: "e_isValidKey late_env alice" by code_simp
  obtain t where t: "read_tx late_env demo_client alice (call_timeout demo_client no_options) ''resolve_did''
      (buildResolveDidArgs late_env alice) = Inr t"
    by (auto simp: read_tx_def new_account_def late_env_def demo_env_def alice_def buildResolveDidArgs_def
        scvals_def nativeToScVal_def)
  have d: "opt_or (orElse (o_maxRetries no_options) (cfg_maxRetries (cl_config demo_client))) 5 = 5"
    "opt_or (orElse (o_baseDelayMs no_options) (cfg_baseDelayMs (cl_config demo_client))) 500 = 500"
    "opt_or (orElse (o_backoffFactor no_options) (cfg_backoffFactor (cl_config demo_client))) 2 = 2"
    by (simp_all add: no_options_def demo_client_def demo_config_def)
  from resolveDid_retries [OF key t, where w = fresh_world] show ?thesis
    unfolding d Let_def using run by blast
qed

lemma probe_address_never_works_witness:
  "fst (isInitialized demo_env demo_client fresh_world) = Inr False \<and>
   (\<exists>e. ping demo_env demo_client no_options fresh_world = (Inl e, fresh_world))"
proof -
  have "e_newAccount demo_env a \<noteq> None" if "length a \<noteq> 56" for a
    using that by (simp add: demo_env_def)
  from probe_address_never_works [of demo_env, OF this] show ?thesis by blast
qed

lemma approveSignerRotation_ignores_rotation_witness:
  "\<exists>w'. approveSignerRotation kind_env demo_client alice ''rotation-7'' no_options fresh_world = (Inr ''ab'', w') \<and>
    confirmed_write kind_env demo_client alice no_options ''approve_signer_rotation''
      [Native JUndef ''address'', Native JUndef ''address''] ''ab'' (w_log w')"
proof -
  have "fst (approveSignerRotation kind_env demo_client alice ''rotation-7'' no_options fresh_world) = Inr ''ab''"
    by code_simp
  then obtain w' where run:
      "approveSignerRotation kind_env demo_client alice ''rotation-7'' no_options fresh_world = (Inr ''ab'', w')"
    by (metis prod.collapse)
  from approveSignerRotation_ignores_rotation [OF run] show ?thesis using run by (auto simp: fresh_world_def)
qed

end
