(* ===== verification/TxBuilder.thy ===== *)
theory TxBuilder
  imports ContractCall
begin

text \<open>
  Models \<open>sdk/src/transaction-builder.ts\<close>: the builder that accumulates operations, its fee and gas
  multiplier, and the fee estimate. The class is its private state; each method returns the new state.
\<close>

section \<open>State and operations\<close>

record tx_builder =
  tb_operations :: "operation list"
  tb_account :: account
  tb_network :: string
  tb_fee :: rat
  tb_gasMultiplier :: rat

definition new_builder :: "account \<Rightarrow> config \<Rightarrow> tx_builder" where
  "new_builder account c = \<lparr>tb_operations = [], tb_account = account,
     tb_network = cfg_networkPassphrase c, tb_fee = 100, tb_gasMultiplier = 1\<rparr>"

definition setGasMultiplier :: "rat \<Rightarrow> tx_builder \<Rightarrow> thrown + tx_builder" where
  "setGasMultiplier multiplier b =
     (if multiplier < 1 then Inl (error_class ''Gas multiplier must be >= 1.0'')
      else Inr (b\<lparr>tb_gasMultiplier := multiplier\<rparr>))"

definition getRecommendedGasMultiplier :: "tx_builder \<Rightarrow> rat" where
  "getRecommendedGasMultiplier b =
     (if length (tb_operations b) \<ge> 20 then max (tb_gasMultiplier b) (3/2) else tb_gasMultiplier b)"

text \<open>\<open>new Contract(contractId)\<close> throws for an invalid contract identifier.\<close>

definition addContractCall :: "env \<Rightarrow> string \<Rightarrow> string \<Rightarrow> scval list \<Rightarrow> tx_builder \<Rightarrow> thrown + tx_builder" where
  "addContractCall env contractId meth args b =
     (if \<not> e_isValidContract env contractId then Inl (error_class (''Invalid contract ID: '' @ contractId))
      else Inr (b\<lparr>tb_operations := tb_operations b
        @ [\<lparr>op_contract = contractId, op_method = meth, op_args = args\<rparr>]\<rparr>))"

definition addOperation :: "operation \<Rightarrow> tx_builder \<Rightarrow> tx_builder" where
  "addOperation op b = b\<lparr>tb_operations := tb_operations b @ [op]\<rparr>"

definition setFee :: "rat \<Rightarrow> tx_builder \<Rightarrow> tx_builder" where
  "setFee fee b = b\<lparr>tb_fee := fee\<rparr>"

definition tb_build :: "nat \<Rightarrow> tx_builder \<Rightarrow> tx" where
  "tb_build timeout b = \<lparr>tx_account = tb_account b, tx_fee = num_to_string (tb_fee b),
     tx_network = tb_network b, tx_ops = tb_operations b, tx_timeout = timeout\<rparr>"

text \<open>\<open>parseInt\<close> may give \<open>NaN\<close> (\<open>None\<close>), which every sum and product with it is too.\<close>

record fee_estimate =
  fe_baseFee :: int
  fe_resourceFee :: "int option"
  fe_totalFee :: "int option"
  fe_gasMultiplier :: rat
  fe_originalResourceFee :: "int option"

text \<open>
  What a fee simulation answers: an error with an optional message, or the optional \<open>minResourceFee\<close>. The
  estimate asks its own server object, for the first configured URL.
\<close>

datatype fee_simulation = FeeError "string option" | MinResourceFee "string option"

definition estimate_tx :: "operation \<Rightarrow> tx_builder \<Rightarrow> tx" where
  "estimate_tx op b = \<lparr>tx_account = tb_account b, tx_fee = BASE_FEE, tx_network = tb_network b,
     tx_ops = (if tb_operations b \<noteq> [] then tb_operations b else [op]), tx_timeout = 30\<rparr>"

definition fee_breakdown :: "tx_builder \<Rightarrow> string option \<Rightarrow> fee_estimate" where
  "fee_breakdown b minResourceFee = (let resourceFee = parse_int (opt_or minResourceFee ''0'');
       multiplier = getRecommendedGasMultiplier b;
       adjusted = map_option (\<lambda>f. \<lceil>of_int f * multiplier\<rceil>) resourceFee
     in \<lparr>fe_baseFee = 100, fe_resourceFee = adjusted, fe_totalFee = map_option (\<lambda>a. 100 + a) adjusted,
         fe_gasMultiplier = multiplier, fe_originalResourceFee = resourceFee\<rparr>)"

definition estimateFee ::
    "(effect list \<Rightarrow> tx \<Rightarrow> thrown + fee_simulation) \<Rightarrow> operation \<Rightarrow> tx_builder \<Rightarrow> fee_estimate io" where
  "estimateFee simulateFee op b = (let t = estimate_tx op b in
     andThen (request (Simulate 0 t) (\<lambda>l. simulateFee l t)) (\<lambda>result. case result of
       FeeError e \<Rightarrow> io_throw (ErrorThrown ''SimulationError'' (opt_or e ''Transaction simulation failed''))
     | MinResourceFee f \<Rightarrow> io_return (fee_breakdown b f)))"

section \<open>Properties\<close>

text \<open>The builders a program can make.\<close>

inductive built :: "env \<Rightarrow> tx_builder \<Rightarrow> bool" for env :: env where
  built_new: "built env (new_builder account c)"
| built_call: "built env b \<Longrightarrow> addContractCall env cid meth args b = Inr b' \<Longrightarrow> built env b'"
| built_op: "built env b \<Longrightarrow> built env (addOperation op b)"
| built_fee: "built env b \<Longrightarrow> built env (setFee fee b)"
| built_gas: "built env b \<Longrightarrow> setGasMultiplier m b = Inr b' \<Longrightarrow> built env b'"

lemma built_gas_multiplier: "built env b \<Longrightarrow> 1 \<le> tb_gasMultiplier b"
  by (induction rule: built.induct)
    (auto simp: new_builder_def addContractCall_def addOperation_def setFee_def setGasMultiplier_def split: if_splits)

lemma recommended_bounds:
  "1 \<le> tb_gasMultiplier b \<Longrightarrow> 1 \<le> getRecommendedGasMultiplier b \<and>
    (20 \<le> length (tb_operations b) \<longrightarrow> 3/2 \<le> getRecommendedGasMultiplier b)"
  by (auto simp: getRecommendedGasMultiplier_def)

text \<open>
  The fee estimate of any builder that the methods can make simulates the accumulated operations (the
  argument only when there are none), never lowers the simulated resource fee, raises it by at least half
  for twenty operations or more, and adds the base fee.
\<close>

theorem estimateFee_bounds:
  assumes "built env b" "estimateFee simulateFee op b w = (Inr fe, w')"
    and "fe_originalResourceFee fe = Some f" "0 \<le> f"
  shows "w_log w' = w_log w @ [Simulate 0 (estimate_tx op b)] \<and>
    tx_ops (estimate_tx op b) = (if tb_operations b = [] then [op] else tb_operations b) \<and>
    (\<exists>r. fe_resourceFee fe = Some r \<and> fe_totalFee fe = Some (r + fe_baseFee fe) \<and> f \<le> r \<and>
      of_int r < of_int f * fe_gasMultiplier fe + 1 \<and>
      (20 \<le> length (tb_operations b) \<longrightarrow> 3 * f \<le> 2 * r))"
proof -
  let ?m = "getRecommendedGasMultiplier b"
  have m: "1 \<le> ?m" "20 \<le> length (tb_operations b) \<longrightarrow> 3/2 \<le> ?m"
    using recommended_bounds [OF built_gas_multiplier [OF assms(1)]] by auto
  obtain x where x: "simulateFee (w_log w) (estimate_tx op b) = Inr x"
    using assms(2) by (cases "simulateFee (w_log w) (estimate_tx op b)")
      (auto simp: estimateFee_def andThen_def io_run Let_def)
  obtain s where s: "fe = fee_breakdown b s" "w' = w\<lparr>w_log := w_log w @ [Simulate 0 (estimate_tx op b)]\<rparr>"
    using assms(2) x by (cases x) (auto simp: estimateFee_def andThen_def io_run Let_def)
  have f: "parse_int (opt_or s ''0'') = Some f" using assms(3) s(1) by (simp add: fee_breakdown_def Let_def)
  let ?r = "\<lceil>of_int f * ?m\<rceil>"
  have fm: "of_int f \<le> of_int f * ?m" using m(1) assms(4) by (simp add: mult_left_le_one_le mult_le_cancel_left1)
  then have "f \<le> ?r" by linarith
  moreover have "of_int ?r < of_int f * ?m + 1" by linarith
  moreover have "3 * f \<le> 2 * ?r" if "20 \<le> length (tb_operations b)"
  proof -
    have "of_int f * (3/2) \<le> of_int f * ?m"
      by (rule mult_left_mono) (use m(2) that assms(4) in simp_all)
    then show ?thesis by linarith
  qed
  ultimately show ?thesis
    using s f by (auto simp: fee_breakdown_def Let_def estimate_tx_def)
qed

text \<open>
  The gas multiplier only changes the estimate: the transaction the builder builds, its fee included,
  is the same whatever multiplier is set.
\<close>

theorem build_ignores_gas_multiplier:
  "setGasMultiplier m b = Inr b' \<Longrightarrow> tb_build timeout b' = tb_build timeout b"
  by (auto simp: setGasMultiplier_def tb_build_def split: if_splits)

section \<open>Witnesses\<close>

definition demo_account :: account where
  "demo_account = \<lparr>acc_id = ''G'', acc_seq = ''0''\<rparr>"

definition demo_op :: operation where
  "demo_op = \<lparr>op_contract = ''C'', op_method = ''ping'', op_args = []\<rparr>"

lemma estimateFee_bounds_witness:
  "\<exists>fe w'. estimateFee (\<lambda>l t. Inr (MinResourceFee (Some ''7''))) demo_op
      (addOperation demo_op (new_builder demo_account demo_config)) fresh_world = (Inr fe, w') \<and>
    fe_originalResourceFee fe = Some 7 \<and> fe_totalFee fe = Some 107 \<and> (\<exists>r. fe_resourceFee fe = Some r \<and> 7 \<le> r)"
proof -
  let ?b = "addOperation demo_op (new_builder demo_account demo_config)"
  let ?fe = "\<lparr>fe_baseFee = 100, fe_resourceFee = Some 7, fe_totalFee = Some 107, fe_gasMultiplier = 1,
     fe_originalResourceFee = Some 7\<rparr>"
  have b: "built demo_env ?b" by (intro built_op built_new)
  have p: "parse_int ''7'' = Some 7" by code_simp
  obtain w' where run: "estimateFee (\<lambda>l t. Inr (MinResourceFee (Some ''7''))) demo_op ?b fresh_world = (Inr ?fe, w')"
    by (simp add: estimateFee_def Let_def andThen_def io_run fee_breakdown_def p getRecommendedGasMultiplier_def
        addOperation_def new_builder_def)
  from estimateFee_bounds [OF b run, of 7] have "\<exists>r. fe_resourceFee ?fe = Some r \<and> 7 \<le> r" by auto
  then show ?thesis using run by (intro exI [of _ ?fe] exI [of _ w']) simp
qed

lemma build_ignores_gas_multiplier_witness:
  "\<exists>b'. setGasMultiplier 2 (new_builder demo_account demo_config) = Inr b' \<and> tb_gasMultiplier b' = 2 \<and>
    tb_build 30 b' = tb_build 30 (new_builder demo_account demo_config)"
proof -
  let ?b = "(new_builder demo_account demo_config)\<lparr>tb_gasMultiplier := 2\<rparr>"
  have "setGasMultiplier 2 (new_builder demo_account demo_config) = Inr ?b" by (simp add: setGasMultiplier_def)
  from build_ignores_gas_multiplier [OF this, of 30] this show ?thesis by (intro exI [of _ ?b]) simp
qed

end
