(* ===== verification/Reputation.thy ===== *)
theory Reputation
  imports Identity TxBuilder
begin

text \<open>
  Models \<open>sdk/src/reputation.ts\<close>, the client of the reputation contract: one definition per method, over the
  steps of \<open>ContractCall\<close>. The writes go through the transaction builder of \<open>TxBuilder\<close>. The two sybil
  checks fail closed: whatever goes wrong in the simulation reads as \<open>false\<close>.
\<close>

section \<open>Helpers\<close>

text \<open>\<open>validateStellarAddress\<close> of each address, from the left; then the rest.\<close>

fun validating :: "env \<Rightarrow> string list \<Rightarrow> 'a io \<Rightarrow> 'a io" where
  "validating env [] m = m"
| "validating env (a # as) m = andThen (io_lift (validateStellarAddress env a)) (\<lambda>_. validating env as m)"

text \<open>A read whose error branch may also return a value.\<close>

definition read_call_or :: "env \<Rightarrow> thrown + tx \<Rightarrow> (string \<Rightarrow> thrown + jv) \<Rightarrow> jv io" where
  "read_call_or env t onError = andThen (io_lift t) (\<lambda>t. andThen (simulate_retry env t) (\<lambda>result.
     io_lift (case result of SimError e \<Rightarrow> onError (opt_or e []) | SimOk rv \<Rightarrow> native_of env rv)))"

text \<open>\<open>BigInt(n)\<close> of a number; \<open>BigInt(1.5)\<close> throws.\<close>

definition to_bigint :: "rat \<Rightarrow> thrown + jv" where
  "to_bigint q = (if js_is_integer q then Inr (JBig \<lfloor>q\<rfloor>)
     else Inl (ErrorThrown ''RangeError'' ''The number cannot be converted to a BigInt because it is not an integer''))"

record page_options =
  pg_call :: call_options
  pg_cursor :: "rat option"
  pg_limit :: "rat option"

definition cursor_arg :: "env \<Rightarrow> page_options \<Rightarrow> thrown + scval" where
  "cursor_arg env options = option_u64 env (map_option JNum (pg_cursor options))"

definition limit_arg :: "page_options \<Rightarrow> jv" where
  "limit_arg options = JNum (opt_or (pg_limit options) 0)"

text \<open>\<open>{ items: raw.items, nextCursor: raw.next_cursor ?? null }\<close>\<close>

definition page_of :: "jv \<Rightarrow> thrown + jv" where
  "page_of raw = bind_result (js_prop raw ''items'') (\<lambda>items.
     bind_result (js_prop raw ''next_cursor'') (\<lambda>next.
     Inr (JObj [(''items'', items), (''nextCursor'', js_coalesce next JNull)])))"

definition read_page :: "env \<Rightarrow> thrown + tx \<Rightarrow> (string \<Rightarrow> thrown) \<Rightarrow> jv io" where
  "read_page env t onError = andThen (read_call env t onError) (\<lambda>raw. io_lift (page_of raw))"

abbreviation reputation_error :: "string \<Rightarrow> thrown" where
  "reputation_error \<equiv> simulation_error REPUTATION_ERRORS"

definition includes_any :: "string \<Rightarrow> string list \<Rightarrow> bool" where
  "includes_any s subs = list_ex (str_includes s) subs"

section \<open>Reads\<close>

definition rep_isInitialized :: "env \<Rightarrow> client \<Rightarrow> bool io" where
  "rep_isInitialized env cl = io_catch
     (executeWithFailover cl (\<lambda>i.
        andThen (io_lift (read_tx env cl PROBE_ADDRESS 10 ''passes_sybil_check_default''
          (buildPassesSybilCheckDefaultArgs env PROBE_ADDRESS))) (\<lambda>t.
        andThen (request (Simulate i t) (\<lambda>l. e_simulate env l t)) (\<lambda>result. io_return (case result of
          SimError e \<Rightarrow> \<not> not_initialized (opt_or e []) | SimOk rv \<Rightarrow> True)))))
     (\<lambda>_. io_return False)"

definition getReporters :: "env \<Rightarrow> client \<Rightarrow> string \<Rightarrow> call_options \<Rightarrow> jv io" where
  "getReporters env cl callerAddress options = validating env [callerAddress]
     (read_call env (read_tx env cl callerAddress (call_timeout cl options) ''get_reporters_list'' (Inr []))
       reputation_error)"

definition zero_record :: "string \<Rightarrow> jv" where
  "zero_record subjectAddress = JObj [(''subject'', JStr subjectAddress), (''score'', JNum 0),
     (''reporterCount'', JNum 0), (''updatedAt'', JNum 0)]"

definition reputation_fallback :: "string \<Rightarrow> string \<Rightarrow> thrown + jv" where
  "reputation_fallback subjectAddress errMsg = (case extract_code errMsg REPUTATION_ERRORS of
     Some contractErr \<Rightarrow> (case contractErr of
         ContractThrown m n \<Rightarrow> if n = 2 then Inr (zero_record subjectAddress) else Inl contractErr
       | _ \<Rightarrow> Inl contractErr)
   | None \<Rightarrow>
       if includes_any errMsg [''not found'', ''no record'', ''MissingValue'', ''KeyNotFound'']
       then Inr (zero_record subjectAddress)
       else Inl (sdk_throw (''Simulation failed: '' @ errMsg) CONTRACT_ERROR))"

definition getReputation :: "env \<Rightarrow> client \<Rightarrow> string \<Rightarrow> string \<Rightarrow> call_options \<Rightarrow> jv io" where
  "getReputation env cl callerAddress subjectAddress options = validating env [callerAddress, subjectAddress]
     (read_call_or env (read_tx env cl callerAddress (call_timeout cl options) ''get_reputation''
         (buildGetReputationArgs env subjectAddress))
       (reputation_fallback subjectAddress))"

definition getScoreHistory :: "env \<Rightarrow> client \<Rightarrow> string \<Rightarrow> string \<Rightarrow> string \<Rightarrow> rat \<Rightarrow> rat \<Rightarrow> rat option \<Rightarrow>
    rat option \<Rightarrow> call_options \<Rightarrow> jv io" where
  "getScoreHistory env cl callerAddress subjectAddress reporterAddress offset limit fromTimestamp toTimestamp options =
     validating env [callerAddress, subjectAddress, reporterAddress]
     (read_call env (read_tx env cl callerAddress (call_timeout cl options) ''get_history''
         (buildGetHistoryArgs env subjectAddress reporterAddress (JNum offset) (JNum limit)
           (map_option JNum fromTimestamp) (map_option JNum toTimestamp)))
       reputation_error)"

definition passesSybilCheckDefault :: "env \<Rightarrow> client \<Rightarrow> string \<Rightarrow> string \<Rightarrow> call_options \<Rightarrow> jv io" where
  "passesSybilCheckDefault env cl callerAddress subjectAddress options =
     validating env [callerAddress, subjectAddress]
     (read_call_or env (read_tx env cl callerAddress (call_timeout cl options) ''passes_sybil_check_default''
         (buildPassesSybilCheckDefaultArgs env subjectAddress))
       (\<lambda>errMsg. Inr (JBool False)))"

definition passesSybilCheck :: "env \<Rightarrow> client \<Rightarrow> string \<Rightarrow> string \<Rightarrow> rat \<Rightarrow> rat \<Rightarrow> call_options \<Rightarrow> jv io" where
  "passesSybilCheck env cl callerAddress subjectAddress minScore minReporters options =
     validating env [callerAddress, subjectAddress]
     (read_call_or env (read_tx env cl callerAddress (call_timeout cl options) ''passes_sybil_check''
         (bind_result (to_bigint minScore) (\<lambda>ms.
           buildPassesSybilCheckArgs env subjectAddress ms (JNum minReporters))))
       (\<lambda>errMsg. Inr (JBool False)))"

text \<open>\<open>getScores\<close>: the worker pool over the addresses once the caller's address is checked.\<close>

definition getScores :: "env \<Rightarrow> string \<Rightarrow> string list \<Rightarrow> nat option \<Rightarrow> nat option \<Rightarrow> thrown + jv pool" where
  "getScores env callerAddress addresses concurrency maxConcurrentRequests =
     bind_result (validateStellarAddress env callerAddress) (\<lambda>_.
     Inr (runConcurrent (length addresses) (opt_or (orElse concurrency maxConcurrentRequests) 5)))"

definition rep_getStorageStats :: "env \<Rightarrow> client \<Rightarrow> string \<Rightarrow> call_options \<Rightarrow> jv io" where
  "rep_getStorageStats env cl callerAddress options = validating env [callerAddress]
     (read_call env (read_tx env cl callerAddress (call_timeout cl options) ''get_storage_stats'' (Inr []))
       reputation_error)"

definition listReporters :: "env \<Rightarrow> client \<Rightarrow> string \<Rightarrow> page_options \<Rightarrow> jv io" where
  "listReporters env cl callerAddress options = validating env [callerAddress]
     (read_page env (read_tx env cl callerAddress (call_timeout cl (pg_call options)) ''list_reporters''
         (bind_result (cursor_arg env options) (\<lambda>c. buildListReportersArgs env c (limit_arg options))))
       reputation_error)"

definition getScore :: "env \<Rightarrow> client \<Rightarrow> string \<Rightarrow> string \<Rightarrow> call_options \<Rightarrow> jv io" where
  "getScore env cl callerAddress subjectAddress options =
     andThen (getReputation env cl callerAddress subjectAddress options) (\<lambda>r. io_lift (js_prop r ''score''))"

definition listScoreHistory :: "env \<Rightarrow> client \<Rightarrow> string \<Rightarrow> string \<Rightarrow> string \<Rightarrow> page_options \<Rightarrow> jv io" where
  "listScoreHistory env cl callerAddress subjectAddress reporterAddress options =
     validating env [callerAddress, subjectAddress, reporterAddress]
     (read_page env (read_tx env cl callerAddress (call_timeout cl (pg_call options)) ''list_history''
         (bind_result (cursor_arg env options) (\<lambda>c.
           buildListHistoryArgs env subjectAddress reporterAddress c (limit_arg options))))
       reputation_error)"

definition stake_fallback :: "string \<Rightarrow> string \<Rightarrow> thrown + jv" where
  "stake_fallback holderAddress errMsg = (case extract_code errMsg REPUTATION_ERRORS of
     Some contractErr \<Rightarrow> Inl contractErr
   | None \<Rightarrow>
       if includes_any errMsg [''not found'', ''no stake'', ''MissingValue'', ''KeyNotFound'']
       then Inr (JObj [(''holder'', JStr holderAddress), (''staked'', JBig 0), (''pendingUnstake'', JBig 0),
              (''multiplierBps'', JNum 10000), (''updatedAt'', JNum 0)])
       else Inl (sdk_throw (''Simulation failed: '' @ errMsg) CONTRACT_ERROR))"

definition getStake :: "env \<Rightarrow> client \<Rightarrow> string \<Rightarrow> string \<Rightarrow> call_options \<Rightarrow> jv io" where
  "getStake env cl callerAddress holderAddress options = validating env [callerAddress, holderAddress]
     (read_call_or env (read_tx env cl callerAddress (call_timeout cl options) ''get_stake''
         (scvals [nativeToScVal env (JStr holderAddress) ''address'']))
       (stake_fallback holderAddress))"

definition getStakingHistory :: "env \<Rightarrow> client \<Rightarrow> string \<Rightarrow> string \<Rightarrow> page_options \<Rightarrow> jv io" where
  "getStakingHistory env cl callerAddress holderAddress options = validating env [callerAddress, holderAddress]
     (read_page env (read_tx env cl callerAddress (call_timeout cl (pg_call options)) ''list_staking_history''
         (bind_result (cursor_arg env options) (\<lambda>c. scvals
           [nativeToScVal env (JStr holderAddress) ''address'', Inr c,
            nativeToScVal env (limit_arg options) ''u32''])))
       reputation_error)"

definition rep_ping :: "env \<Rightarrow> client \<Rightarrow> call_options \<Rightarrow> jv io" where
  "rep_ping env cl options =
     read_call env (read_tx env cl PROBE_ADDRESS (call_timeout cl options) ''ping'' (Inr []))
       (\<lambda>errMsg. sdk_throw ''Health check failed: reputation contract not responding'' CONTRACT_ERROR)"

section \<open>Writes\<close>

record fee_result =
  fr_estimatedFee :: "int option"
  fr_estimatedFeeXlm :: string
  fr_txHash :: string

text \<open>The shared helper; \<open>args\<close> are evaluated by the caller or, in \<open>submitScore\<close>, after the account is fetched.\<close>

definition submit_built :: "env \<Rightarrow> client \<Rightarrow> string \<Rightarrow> string \<Rightarrow> thrown + scval list \<Rightarrow> call_options \<Rightarrow>
    fee_result io" where
  "submit_built env cl keypair meth args options =
     andThen (srv_getAccount env keypair) (\<lambda>account.
     andThen (io_lift args) (\<lambda>as.
     andThen (io_lift (addContractCall env (cfg_reputationId (cl_config cl)) meth as
       (new_builder account (cl_config cl)))) (\<lambda>builder.
     andThen (prepare_retry env (tb_build (call_timeout cl options) builder)) (\<lambda>prepared.
     let estimatedFee = parse_int (p_fee prepared) in
     andThen (send_retry env (sign keypair prepared)) (\<lambda>txHash.
     andThen (poll_hash env cl txHash) (\<lambda>_.
     io_return \<lparr>fr_estimatedFee = estimatedFee, fr_estimatedFeeXlm = stroops_to_xlm estimatedFee,
       fr_txHash = txHash\<rparr>))))))"

definition submitStakeTx :: "env \<Rightarrow> client \<Rightarrow> string \<Rightarrow> string \<Rightarrow> thrown + scval list \<Rightarrow> call_options \<Rightarrow>
    fee_result io" where
  "submitStakeTx env cl signerKeypair meth args options =
     andThen (io_lift args) (\<lambda>as. submit_built env cl signerKeypair meth (Inr as) options)"

definition submitScore :: "env \<Rightarrow> client \<Rightarrow> string \<Rightarrow> string \<Rightarrow> rat \<Rightarrow> string \<Rightarrow> call_options \<Rightarrow> fee_result io" where
  "submitScore env cl reporterKeypair subjectAddress delta reason options =
     submit_built env cl reporterKeypair ''submit_score''
       (bind_result (to_bigint delta) (\<lambda>d. buildSubmitScoreArgs env reporterKeypair subjectAddress d reason)) options"

definition amount_args :: "env \<Rightarrow> string \<Rightarrow> int \<Rightarrow> thrown + scval list" where
  "amount_args env keypair amount = scvals
     [nativeToScVal env (JStr keypair) ''address'', nativeToScVal env (JBig amount) ''i128'']"

definition depositStake :: "env \<Rightarrow> client \<Rightarrow> string \<Rightarrow> int \<Rightarrow> call_options \<Rightarrow> fee_result io" where
  "depositStake env cl holderKeypair amount options =
     submitStakeTx env cl holderKeypair ''deposit_stake'' (amount_args env holderKeypair amount) options"

definition requestUnstake :: "env \<Rightarrow> client \<Rightarrow> string \<Rightarrow> int \<Rightarrow> call_options \<Rightarrow> fee_result io" where
  "requestUnstake env cl holderKeypair amount options =
     submitStakeTx env cl holderKeypair ''request_unstake'' (amount_args env holderKeypair amount) options"

definition withdrawStake :: "env \<Rightarrow> client \<Rightarrow> string \<Rightarrow> int \<Rightarrow> call_options \<Rightarrow> fee_result io" where
  "withdrawStake env cl holderKeypair amount options =
     submitStakeTx env cl holderKeypair ''withdraw_stake'' (amount_args env holderKeypair amount) options"

definition slashStake :: "env \<Rightarrow> client \<Rightarrow> string \<Rightarrow> string \<Rightarrow> int \<Rightarrow> string \<Rightarrow> call_options \<Rightarrow> fee_result io" where
  "slashStake env cl callerKeypair holderAddress amount reason options = validating env [holderAddress]
     (submitStakeTx env cl callerKeypair ''slash_stake'' (scvals
       [nativeToScVal env (JStr callerKeypair) ''address'', nativeToScVal env (JStr holderAddress) ''address'',
        nativeToScVal env (JBig amount) ''i128'', nativeToScVal env (JStr reason) ''string'']) options)"

definition distributeRewards :: "env \<Rightarrow> client \<Rightarrow> string \<Rightarrow> int \<Rightarrow> call_options \<Rightarrow> fee_result io" where
  "distributeRewards env cl callerKeypair amount options =
     submitStakeTx env cl callerKeypair ''distribute_rewards'' (amount_args env callerKeypair amount) options"

definition delegate_args :: "env \<Rightarrow> string \<Rightarrow> string \<Rightarrow> int \<Rightarrow> thrown + scval list" where
  "delegate_args env keypair delegateAddress amount = scvals
     [nativeToScVal env (JStr keypair) ''address'', nativeToScVal env (JStr delegateAddress) ''address'',
      nativeToScVal env (JBig amount) ''i128'']"

definition delegateStake :: "env \<Rightarrow> client \<Rightarrow> string \<Rightarrow> string \<Rightarrow> int \<Rightarrow> call_options \<Rightarrow> fee_result io" where
  "delegateStake env cl holderKeypair delegateAddress amount options = validating env [delegateAddress]
     (submitStakeTx env cl holderKeypair ''delegate_stake'' (delegate_args env holderKeypair delegateAddress amount)
       options)"

definition revokeDelegation :: "env \<Rightarrow> client \<Rightarrow> string \<Rightarrow> string \<Rightarrow> int \<Rightarrow> call_options \<Rightarrow> fee_result io" where
  "revokeDelegation env cl holderKeypair delegateAddress amount options = validating env [delegateAddress]
     (submitStakeTx env cl holderKeypair ''revoke_delegation'' (delegate_args env holderKeypair delegateAddress amount)
       options)"

section \<open>Lemmas\<close>

lemma emits_validating: "emits P m \<Longrightarrow> emits P (validating env as m)"
  by (induction as) (auto intro!: emits)

lemma emits_read_call_or: "emits is_read (read_call_or env t f)"
  unfolding read_call_or_def by (intro emits)

lemma emits_read_page: "emits is_read (read_page env t f)"
  unfolding read_page_def by (intro emits)

lemmas emits_reads = emits_validating emits_read_call emits_read_call_or emits_read_page

lemma validating_Inr:
  "validating env as m w = (Inr x, w') \<longleftrightarrow> list_all (e_isValidKey env) as \<and> m w = (Inr x, w')"
  by (induction as) (auto simp: validateStellarAddress_def andThen_def io_run)

lemma simulate_retry_Inr:
  assumes "simulate_retry env t w = (Inr s, w')"
  obtains l where "e_simulate env l t = Inr s"
proof -
  obtain k where "srv_simulate env t (retry_world (srv_simulate env t) 500 w k) = (Inr s, w')"
    using retry_default_Inr assms unfolding simulate_retry_def by metis
  then show ?thesis
    using that by (auto simp: srv_simulate_def andThen_def thisServer_def io_run split: if_splits)
qed

lemma read_call_or_Inr:
  assumes "read_call_or env t f w = (Inr v, w')"
  obtains t' l s where "t = Inr t'" "e_simulate env l t' = Inr s"
    "Inr v = (case s of SimError e \<Rightarrow> f (opt_or e []) | SimOk rv \<Rightarrow> native_of env rv)"
proof -
  from assms obtain t' s w1 where *: "t = Inr t'" "simulate_retry env t' w = (Inr s, w1)"
    "Inr v = (case s of SimError e \<Rightarrow> f (opt_or e []) | SimOk rv \<Rightarrow> native_of env rv)"
    by (auto simp: read_call_or_def andThen_Inr_iff io_run)
  obtain l where "e_simulate env l t' = Inr s" using simulate_retry_Inr [OF *(2)] by blast
  then show ?thesis using that * by blast
qed

lemma read_tx_Inr:
  assumes "read_tx env cl a timeout meth args = Inr t"
  obtains as where "args = Inr as" "t = build_tx cl \<lparr>acc_id = a, acc_seq = ''0''\<rparr> timeout meth as"
  using assms by (auto simp: read_tx_def bind_result_Inr_iff new_account_def split: option.splits)

section \<open>Properties\<close>

text \<open>
  No read of the reputation client signs or sends anything, fetches an account or polls.
\<close>

theorem reputation_reads_send_nothing:
  "emits is_read (rep_isInitialized env cl) \<and> emits is_read (getReporters env cl a opts) \<and>
   emits is_read (getReputation env cl a b opts) \<and>
   emits is_read (getScoreHistory env cl a b c offset limit t1 t2 opts) \<and>
   emits is_read (passesSybilCheckDefault env cl a b opts) \<and>
   emits is_read (passesSybilCheck env cl a b minScore minReporters opts) \<and>
   emits is_read (rep_getStorageStats env cl a opts) \<and> emits is_read (listReporters env cl a popts) \<and>
   emits is_read (getScore env cl a b opts) \<and> emits is_read (listScoreHistory env cl a b c popts) \<and>
   emits is_read (getStake env cl a b opts) \<and> emits is_read (getStakingHistory env cl a b popts) \<and>
   emits is_read (rep_ping env cl opts)"
proof -
  have "emits is_read (getReputation env cl a b opts)"
    unfolding getReputation_def by (intro emits_reads)
  moreover from this have "emits is_read (getScore env cl a b opts)"
    unfolding getScore_def by (intro emits)
  moreover have "emits is_read (rep_isInitialized env cl)"
    unfolding rep_isInitialized_def by (intro emits) simp_all
  ultimately show ?thesis
    unfolding getReporters_def getScoreHistory_def passesSybilCheckDefault_def passesSybilCheck_def
      rep_getStorageStats_def listReporters_def listScoreHistory_def getStake_def getStakingHistory_def rep_ping_def
    by (intro conjI) (assumption | intro emits_reads)+
qed

text \<open>
  The sybil checks fail closed: a truthy answer is the native value that a successful simulation of
  the check of this subject returned; a simulation error, whatever it says, is answered \<open>false\<close>.
\<close>

theorem sybil_check_fails_closed:
  assumes "passesSybilCheck env cl caller subject minScore minReporters options w = (Inr v, w')"
  shows "v = JBool False \<or> (\<exists>l as rv.
    buildPassesSybilCheckArgs env subject (JBig \<lfloor>minScore\<rfloor>) (JNum minReporters) = Inr as \<and>
    of_int \<lfloor>minScore\<rfloor> = minScore \<and>
    e_simulate env l (build_tx cl \<lparr>acc_id = caller, acc_seq = ''0''\<rparr> (call_timeout cl options)
      ''passes_sybil_check'' as) = Inr (SimOk rv) \<and> native_of env rv = Inr v)"
proof -
  have "read_call_or env (read_tx env cl caller (call_timeout cl options) ''passes_sybil_check''
         (bind_result (to_bigint minScore) (\<lambda>ms. buildPassesSybilCheckArgs env subject ms (JNum minReporters))))
       (\<lambda>errMsg. Inr (JBool False)) w = (Inr v, w')"
    using assms by (simp add: passesSybilCheck_def validating_Inr del: validating.simps)
  then obtain t l s where t: "read_tx env cl caller (call_timeout cl options) ''passes_sybil_check''
         (bind_result (to_bigint minScore) (\<lambda>ms. buildPassesSybilCheckArgs env subject ms (JNum minReporters))) = Inr t"
      "e_simulate env l t = Inr s"
      "Inr v = (case s of SimError e \<Rightarrow> Inr (JBool False) | SimOk rv \<Rightarrow> native_of env rv)"
    by (rule read_call_or_Inr)
  obtain as where as: "bind_result (to_bigint minScore) (\<lambda>ms. buildPassesSybilCheckArgs env subject ms (JNum minReporters)) = Inr as"
      "t = build_tx cl \<lparr>acc_id = caller, acc_seq = ''0''\<rparr> (call_timeout cl options) ''passes_sybil_check'' as"
    using t(1) by (rule read_tx_Inr)
  have a: "buildPassesSybilCheckArgs env subject (JBig \<lfloor>minScore\<rfloor>) (JNum minReporters) = Inr as"
      "of_int \<lfloor>minScore\<rfloor> = minScore"
    using as(1) by (auto simp: bind_result_Inr_iff to_bigint_def js_is_integer_def split: if_splits)
  show ?thesis
  proof (cases s)
    case (SimOk rv)
    then show ?thesis using t(2,3) as(2) a by (intro disjI2) auto
  qed (use t(3) in simp)
qed

text \<open>
  The staking writes, all by \<open>submitStakeTx\<close>, return only for a confirmed transaction: everything that
  was broadcast was one prepared transaction with the single call of the method on the configured
  reputation contract with the arguments given, signed by the keypair, at most four times, and a node
  reported its success under the returned hash.
\<close>

theorem stake_write_confirmed:
  assumes "submitStakeTx env cl keypair meth args options w = (Inr r, w')"
  shows "\<exists>as p account k es. args = Inr as \<and> w_log w' = w_log w @ es \<and>
    sends es = replicate (Suc k) (sign keypair p) \<and> k \<le> 3 \<and>
    (\<exists>l. e_prepare env l \<lparr>tx_account = account, tx_fee = BASE_FEE,
        tx_network = cfg_networkPassphrase (cl_config cl),
        tx_ops = [\<lparr>op_contract = cfg_reputationId (cl_config cl), op_method = meth, op_args = as\<rparr>],
        tx_timeout = call_timeout cl options\<rparr> = Inr p) \<and>
    (\<exists>l rv. e_getTransaction env l (fr_txHash r) = Inr (TxSuccess rv))"
proof -
  from assms obtain as account w1 b p w2 h w3 where *: "args = Inr as" "srv_getAccount env keypair w = (Inr account, w1)"
    "addContractCall env (cfg_reputationId (cl_config cl)) meth as (new_builder account (cl_config cl)) = Inr b"
    "prepare_retry env (tb_build (call_timeout cl options) b) w1 = (Inr p, w2)"
    "send_retry env (sign keypair p) w2 = (Inr h, w3)" "poll_hash env cl h w3 = (Inr (), w')" "fr_txHash r = h"
    by (auto simp: submitStakeTx_def submit_built_def andThen_Inr_iff io_run Let_def)
  have "num_to_string 100 = BASE_FEE" by code_simp
  then have b: "tb_build (call_timeout cl options) b = \<lparr>tx_account = account, tx_fee = BASE_FEE,
        tx_network = cfg_networkPassphrase (cl_config cl),
        tx_ops = [\<lparr>op_contract = cfg_reputationId (cl_config cl), op_method = meth, op_args = as\<rparr>],
        tx_timeout = call_timeout cl options\<rparr>"
    using *(3) by (auto simp: addContractCall_def new_builder_def tb_build_def split: if_splits)
  obtain l where l: "e_prepare env l (tb_build (call_timeout cl options) b) = Inr p" using prepare_retry_Inr [OF *(4)] .
  obtain e1 where e1: "w_log w1 = w_log w @ e1" "sends e1 = []"
    using *(2) by (auto simp: srv_getAccount_def andThen_def thisServer_def io_run split: if_splits)
  obtain e2 where e2: "w_log w2 = w_log w1 @ e2" "sends e2 = []"
    using emitsD [OF emits_prepare_retry, of env "tb_build (call_timeout cl options) b" w1] *(4) no_send_sends by auto
  obtain k e3 l' r' where e3: "k \<le> 3" "w_log w3 = w_log w2 @ e3" "sends e3 = replicate (Suc k) (sign keypair p)"
    using send_retry_Inr [OF *(5)] by metis
  obtain e4 rv i where e4: "w_log w' = w_log w3 @ e4 @ [GetTransaction i h]" "sends e4 = []"
      "e_getTransaction env (w_log w3 @ e4) h = Inr (TxSuccess rv)"
    using poll_hash_Inr [OF *(6)] by blast
  let ?es = "e1 @ e2 @ e3 @ e4 @ [GetTransaction i h]"
  have "w_log w' = w_log w @ ?es" "sends ?es = replicate (Suc k) (sign keypair p)"
    using e1 e2 e3 e4 by simp_all
  then show ?thesis
    using *(1,7) l [unfolded b] e3(1) e4(3)
    by (intro exI [of _ as] exI [of _ p] exI [of _ account] exI [of _ k] exI [of _ ?es]) blast
qed

text \<open>
  When the first code in the message of a simulation error is 2, which the error table of the
  reputation contract names "Reporter not registered", \<open>getReputation\<close> reports no error but the record of a
  subject with score 0; every other code is thrown as a \<open>ContractError\<close>.
\<close>

theorem getReputation_hides_code_2:
  "match_hash_code errMsg = Some n \<Longrightarrow>
    reputation_fallback subject errMsg =
      (if n = 2 then Inr (zero_record subject) else Inl (contract_error n REPUTATION_ERRORS))"
  by (simp add: reputation_fallback_def extract_code_def contract_error_def)

section \<open>Witnesses\<close>

lemma sybil_check_fails_closed_witness:
  "\<exists>w'. passesSybilCheck kind_env demo_client alice alice 5 2 no_options fresh_world = (Inr (JBool True), w') \<and>
    (\<exists>l t rv. e_simulate kind_env l t = Inr (SimOk rv) \<and> native_of kind_env rv = Inr (JBool True))"
proof -
  have "fst (passesSybilCheck kind_env demo_client alice alice 5 2 no_options fresh_world) = Inr (JBool True)"
    by code_simp
  then obtain w' where run: "passesSybilCheck kind_env demo_client alice alice 5 2 no_options fresh_world
      = (Inr (JBool True), w')" by (metis prod.collapse)
  from sybil_check_fails_closed [OF run] run show ?thesis by auto
qed

definition staking_env :: env where
  "staking_env = kind_env\<lparr>e_isValidContract := (\<lambda>s. s = ''CREP'')\<rparr>"

lemma stake_write_confirmed_witness:
  "\<exists>r w' p k. submitStakeTx staking_env demo_client alice ''deposit_stake'' (amount_args staking_env alice 500)
      no_options fresh_world = (Inr r, w') \<and> fr_txHash r = ''ab'' \<and>
    sends (w_log w') = replicate (Suc k) (sign alice p)"
proof -
  let ?r = "\<lparr>fr_estimatedFee = Some 101, fr_estimatedFeeXlm = ''0.0000101'', fr_txHash = ''ab''\<rparr>"
  have "fst (submitStakeTx staking_env demo_client alice ''deposit_stake'' (amount_args staking_env alice 500)
      no_options fresh_world) = Inr ?r" by code_simp
  then obtain w' where run: "submitStakeTx staking_env demo_client alice ''deposit_stake''
      (amount_args staking_env alice 500) no_options fresh_world = (Inr ?r, w')" by (metis prod.collapse)
  from stake_write_confirmed [OF run] obtain p k where "sends (w_log w') = replicate (Suc k) (sign alice p)"
    by (auto simp: fresh_world_def)
  then show ?thesis using run by (intro exI [of _ ?r] exI [of _ w'] exI [of _ p] exI [of _ k]) simp
qed

lemma getReputation_hides_code_2_witness:
  "reputation_fallback alice ''HostError: Error(Contract, #2)'' = Inr (zero_record alice)"
proof -
  have "match_hash_code ''HostError: Error(Contract, #2)'' = Some 2" by code_simp
  from getReputation_hides_code_2 [OF this, of alice] show ?thesis by simp
qed

end
