(* ===== verification/CredentialCalls.thy ===== *)
theory CredentialCalls
  imports Reputation
begin

text \<open>
  The steps the methods of \<open>sdk/src/credentials.ts\<close> share: conversion of native values to buffers,
  \<open>Promise.all\<close>, the private helpers \<open>simulateRead\<close> and \<open>submitWriteWithResult\<close>, and the write whose
  submission runs in one \<open>try\<close> block (\<open>cred_submit\<close>), with the lemma that such a write returns only when
  it was confirmed.
\<close>

section \<open>Buffers\<close>

text \<open>\<open>Buffer.from(s, "utf8")\<close>; the characters of the model are the code units below 256.\<close>

definition utf8_bytes :: "string \<Rightarrow> byte list" where
  "utf8_bytes s = concat (map (\<lambda>c. let n = char_code c in
     if n < 128 then [of_nat n] else [of_nat (192 + n div 64), of_nat (128 + n mod 64)]) s)"

text \<open>The element of a typed array an array element is converted to: truncated, modulo 256.\<close>

definition to_uint8 :: "jv \<Rightarrow> thrown + byte" where
  "to_uint8 v = (case v of
     JBig i \<Rightarrow> Inl (type_error ''Cannot convert a BigInt value to a number'')
   | _ \<Rightarrow> (case js_to_number v of
        JNum q \<Rightarrow> Inr (of_int (if q < 0 then - \<lfloor>- q\<rfloor> else \<lfloor>q\<rfloor>)) | _ \<Rightarrow> Inr 0))"

text \<open>\<open>Buffer.from(v)\<close>; of a plain object, which the contracts do not return there, it throws here.\<close>

definition buffer_from :: "jv \<Rightarrow> thrown + byte list" where
  "buffer_from v = (case v of
     JBytes bs \<Rightarrow> Inr bs
   | JStr s \<Rightarrow> Inr (utf8_bytes s)
   | JArr vs \<Rightarrow> map_result to_uint8 vs
   | _ \<Rightarrow> Inl (type_error ''The first argument must be of type string or an instance of Buffer''))"

definition buffer_hex :: "jv \<Rightarrow> thrown + string" where
  "buffer_hex v = bind_result (buffer_from v) (\<lambda>bs. Inr (to_hex bs))"

text \<open>\<open>(ids ?? []).map((raw) => Buffer.from(raw).toString("hex"))\<close>\<close>

definition hex_list :: "jv \<Rightarrow> thrown + string list" where
  "hex_list ids = js_map buffer_hex (js_coalesce ids (JArr []))"

text \<open>\<open>/^[0-9a-fA-F]{n}$/.test(s)\<close> as a guard.\<close>

definition require_hex :: "nat \<Rightarrow> string \<Rightarrow> string \<Rightarrow> thrown + unit" where
  "require_hex n msg s = (if hex_of_length n s then Inr () else Inl (sdk_throw msg VALIDATION_ERROR))"

text \<open>\<open>BigInt(v)\<close>\<close>

definition js_bigint :: "jv \<Rightarrow> thrown + jv" where
  "js_bigint v = (case v of
     JBig i \<Rightarrow> Inr v
   | JNum q \<Rightarrow> to_bigint q
   | JNaN \<Rightarrow> Inl (ErrorThrown ''RangeError'' ''The number NaN cannot be converted to a BigInt because it is not an integer'')
   | _ \<Rightarrow> Inl (type_error ''Cannot convert value to a BigInt''))"

section \<open>Promise.all\<close>

text \<open>
  How the requests of the promises interleave is up to the event loop: the methods take the schedule as an
  argument. \<open>promise_all\<close> is what holds of all of them: a fulfilled promise has the results of the
  computations, in their order, and sends no more than they do.
\<close>

definition promise_all :: "('a io list \<Rightarrow> 'a list io) \<Rightarrow> bool" where
  "promise_all all = ((\<forall>ms w vs w'. all ms w = (Inr vs, w') \<longrightarrow> length vs = length ms \<and>
       (\<forall>i < length ms. \<exists>u u'. (ms ! i) u = (Inr (vs ! i), u'))) \<and>
     (\<forall>P ms. (\<forall>m \<in> set ms. emits P m) \<longrightarrow> emits P (all ms)))"

text \<open>One of the schedules: one computation after the other.\<close>

definition one_by_one :: "'a io list \<Rightarrow> 'a list io" where
  "one_by_one ms = io_map (\<lambda>m. m) ms"

lemma one_by_one_Inr:
  "one_by_one ms w = (Inr vs, w') \<Longrightarrow>
    length vs = length ms \<and> (\<forall>i < length ms. \<exists>u u'. (ms ! i) u = (Inr (vs ! i), u'))"
proof (induction ms arbitrary: w vs)
  case (Cons m ms)
  then obtain v w1 vs1 where *: "m w = (Inr v, w1)" "one_by_one ms w1 = (Inr vs1, w')" "vs = v # vs1"
    by (auto simp: one_by_one_def andThen_Inr_iff io_run)
  from Cons.IH [OF *(2)] * show ?case by (auto simp: nth_Cons split: nat.split)
qed (simp add: one_by_one_def io_run)

lemma promise_all_one_by_one: "promise_all one_by_one"
proof -
  have "emits P (one_by_one ms)" if "\<forall>m \<in> set ms. emits P m" for P and ms :: "'a io list"
    using that by (induction ms) (auto simp: one_by_one_def intro!: emits)
  then show ?thesis unfolding promise_all_def using one_by_one_Inr by blast
qed

lemma promise_all_Inr:
  "promise_all all \<Longrightarrow> all (map f xs) w = (Inr vs, w') \<Longrightarrow>
    length vs = length xs \<and> (\<forall>i < length xs. \<exists>u u'. f (xs ! i) u = (Inr (vs ! i), u'))"
  unfolding promise_all_def by (metis length_map nth_map)

lemma promise_all_emits: "promise_all all \<Longrightarrow> (\<And>x. emits P (f x)) \<Longrightarrow> emits P (all (map f xs))"
  by (auto simp: promise_all_def)

section \<open>Reads\<close>

abbreviation credential_error :: "string \<Rightarrow> thrown" where
  "credential_error \<equiv> simulation_error CREDENTIAL_MANAGER_ERRORS"

text \<open>\<open>simulateRead\<close>: its caller evaluates the arguments before it validates the address.\<close>

definition simulateRead :: "env \<Rightarrow> client \<Rightarrow> string \<Rightarrow> string \<Rightarrow> thrown + scval list \<Rightarrow> call_options \<Rightarrow> jv io" where
  "simulateRead env cl callerAddress meth args options =
     andThen (io_lift args) (\<lambda>as. validating env [callerAddress]
       (read_call env (read_tx env cl callerAddress (call_timeout cl options) meth (Inr as)) credential_error))"

section \<open>Writes\<close>

text \<open>
  A write of the credential client: \<open>getAccount\<close> and the arguments before the \<open>try\<close>, then prepare, sign, send,
  poll and what follows the confirmation, every error wrapped.
\<close>

definition cred_submit ::
    "env \<Rightarrow> client \<Rightarrow> string \<Rightarrow> call_options \<Rightarrow> string \<Rightarrow> thrown + scval list \<Rightarrow> (string \<Rightarrow> 'a io) \<Rightarrow> 'a io" where
  "cred_submit env cl keypair options meth args after =
     andThen (write_tx env cl keypair options meth args) (\<lambda>t.
     io_catch
       (andThen (prepare_retry env t) (\<lambda>prepared.
        andThen (send_retry env (sign keypair prepared)) (\<lambda>txHash.
        andThen (poll_plain env txHash) (\<lambda>_. after txHash))))
       (\<lambda>e. io_throw (SdkThrown (wrapError e default_fallback))))"

abbreviation cred_write ::
    "env \<Rightarrow> client \<Rightarrow> string \<Rightarrow> call_options \<Rightarrow> string \<Rightarrow> thrown + scval list \<Rightarrow> string io" where
  "cred_write env cl keypair options meth args \<equiv> cred_submit env cl keypair options meth args io_return"

text \<open>\<open>confirmed.returnValue ? scValToNative(confirmed.returnValue) : undefined\<close>\<close>

definition returned :: "env \<Rightarrow> tx_status \<Rightarrow> thrown + jv" where
  "returned env status = (case status of TxSuccess (Some rv) \<Rightarrow> e_scValToNative env rv | _ \<Rightarrow> Inr JUndef)"

definition submitWriteWithResult ::
    "env \<Rightarrow> client \<Rightarrow> string \<Rightarrow> string \<Rightarrow> thrown + scval list \<Rightarrow> call_options \<Rightarrow> (string \<times> jv) io" where
  "submitWriteWithResult env cl signerKeypair meth args options =
     andThen (io_lift args) (\<lambda>as. cred_submit env cl signerKeypair options meth (Inr as) (\<lambda>txHash.
       andThen (srv_getTransaction env txHash) (\<lambda>status.
       andThen (io_lift (returned env status)) (\<lambda>v. io_return (txHash, v)))))"

definition submitWrite ::
    "env \<Rightarrow> client \<Rightarrow> string \<Rightarrow> string \<Rightarrow> thrown + scval list \<Rightarrow> call_options \<Rightarrow> string io" where
  "submitWrite env cl signerKeypair meth args options =
     andThen (submitWriteWithResult env cl signerKeypair meth args options) (\<lambda>(txHash, v). io_return txHash)"

text \<open>\<open>Buffer.from(returnValue instanceof Uint8Array ? returnValue : Buffer.alloc(32)).toString("hex")\<close>\<close>

definition id_or_zeros :: "jv \<Rightarrow> string" where
  "id_or_zeros v = to_hex (case v of JBytes bs \<Rightarrow> bs | _ \<Rightarrow> replicate 32 0)"

section \<open>Lemmas\<close>

lemma io_catch_throw_Inr:
  "io_catch m (\<lambda>e. io_throw (g e)) w = (Inr x, w') \<longleftrightarrow> m w = (Inr x, w')"
  by (auto simp: io_catch_def io_run split: prod.splits sum.splits)

text \<open>A credential write that gets to the step after the confirmation was confirmed.\<close>

lemma cred_submit_Inr:
  assumes "cred_submit env cl kp opts meth args after w = (Inr r, w')"
  obtains as es h w1 where "args = Inr as" "w_log w1 = w_log w @ es"
    "confirmed_write env cl kp opts meth as h es" "after h w1 = (Inr r, w')"
proof -
  from assms obtain t p h w1 w2 w3 w4 where *: "write_tx env cl kp opts meth args w = (Inr t, w1)"
    "prepare_retry env t w1 = (Inr p, w2)" "send_retry env (sign kp p) w2 = (Inr h, w3)"
    "poll_plain env h w3 = (Inr (), w4)" "after h w4 = (Inr r, w')"
    by (auto simp: cred_submit_def andThen_Inr_iff io_catch_throw_Inr)
  show ?thesis
    using contract_write_confirmed_aux [OF *(1-3) poll_plain_polled [OF *(4)]] that *(5) by blast
qed

lemma cred_write_confirmed:
  assumes "cred_write env cl kp opts meth args w = (Inr h, w')"
  shows "\<exists>as es. args = Inr as \<and> w_log w' = w_log w @ es \<and> confirmed_write env cl kp opts meth as h es"
  by (rule cred_submit_Inr [OF assms]) (auto simp: io_run)

lemma emits_srv_getTransaction_no_send: "emits no_send (srv_getTransaction env h)"
  by (intro emits) simp

lemma submitWriteWithResult_Inr:
  assumes "submitWriteWithResult env cl kp meth args opts w = (Inr (h, v), w')"
  shows "\<exists>as es. args = Inr as \<and> w_log w' = w_log w @ es \<and> confirmed_write env cl kp opts meth as h es"
proof -
  from assms obtain as where as: "args = Inr as" and run:
      "cred_submit env cl kp opts meth (Inr as) (\<lambda>txHash. andThen (srv_getTransaction env txHash) (\<lambda>status.
       andThen (io_lift (returned env status)) (\<lambda>v. io_return (txHash, v)))) w = (Inr (h, v), w')"
    by (auto simp: submitWriteWithResult_def andThen_Inr_iff io_run)
  obtain es h' w1 where w1: "w_log w1 = w_log w @ es" "confirmed_write env cl kp opts meth as h' es"
      "andThen (srv_getTransaction env h') (\<lambda>status.
       andThen (io_lift (returned env status)) (\<lambda>v. io_return (h', v))) w1 = (Inr (h, v), w')"
    using cred_submit_Inr [OF run] by (metis sum.inject(2))
  from w1(3) obtain status where g: "srv_getTransaction env h' w1 = (Inr status, w')" and h: "h' = h"
    by (auto simp: andThen_Inr_iff io_run)
  obtain fs where fs: "w_log w' = w_log w1 @ fs" "sends fs = []"
    using emitsD [OF emits_srv_getTransaction_no_send, of env h' w1] g no_send_sends by auto
  show ?thesis
    using as w1(1) fs(1) confirmed_write_append [OF w1(2) fs(2)] h
    by (intro exI [of _ as] exI [of _ "es @ fs"]) simp
qed

lemma submitWrite_confirmed:
  assumes "submitWrite env cl kp meth args opts w = (Inr h, w')"
  shows "\<exists>as es. args = Inr as \<and> w_log w' = w_log w @ es \<and> confirmed_write env cl kp opts meth as h es"
  using assms submitWriteWithResult_Inr by (fastforce simp: submitWrite_def andThen_Inr_iff io_run)

lemma submitWrite_throws: "args = Inl e \<Longrightarrow> submitWrite env cl kp meth args opts w = (Inl e, w)"
  and submitWriteWithResult_throws:
    "args = Inl e \<Longrightarrow> submitWriteWithResult env cl kp meth args opts w = (Inl e, w)"
  by (simp_all add: submitWrite_def submitWriteWithResult_def andThen_def io_run)

lemma validating_cases:
  "(\<exists>e. validating env as m w = (Inl e, w)) \<or> validating env as m w = m w"
  by (induction env as m rule: validating.induct) (auto simp: andThen_def io_run split: sum.split)

lemma emits_simulateRead [emits]: "emits is_read (simulateRead env cl a meth args opts)"
  unfolding simulateRead_def by (intro emits emits_validating)

end
