(* ===== verification/Credentials.thy ===== *)
theory Credentials
  imports CredentialCalls
begin

text \<open>
  Models the class \<open>CredentialClient\<close> of \<open>sdk/src/credentials.ts\<close>, one definition per method, over the steps
  of \<open>ContractCall\<close> and \<open>CredentialCalls\<close>. Parameters stand for what is not code of the repository: SHA-256
  and the signature of a keypair, the schema validator, the clock, and how the requests of concurrent
  promises interleave (\<open>all\<close>, \<open>settle\<close>).

  Not modelled: \<open>isResponseFresh\<close>, \<open>batchRevoke\<close>, \<open>generateRevocationProof\<close>, \<open>verifyRevocationProofOnChain\<close> and
  \<open>getRevocationStats\<close>, whose argument builders do not exist in \<open>contract-args.ts\<close>.
\<close>

section \<open>Constants\<close>

definition CREDENTIAL_NOT_FOUND_CODE :: nat where
  "CREDENTIAL_NOT_FOUND_CODE = 3"

definition CREDENTIAL_REVOKED_CODE :: nat where
  "CREDENTIAL_REVOKED_CODE = 4"

definition CREDENTIAL_EXPIRED_CODE :: nat where
  "CREDENTIAL_EXPIRED_CODE = 9"

definition CREDENTIAL_NOT_YET_ACTIVE_CODE :: nat where
  "CREDENTIAL_NOT_YET_ACTIVE_CODE = 22"

text \<open>\<open>toCredentialExpiry\<close> of a number of milliseconds, or of a \<open>Date\<close> by its time.\<close>

definition toCredentialExpiry :: "rat \<Rightarrow> int" where
  "toCredentialExpiry ms = \<lfloor>ms / 1000\<rfloor>"

section \<open>Issuing\<close>

definition cred_isInitialized :: "env \<Rightarrow> client \<Rightarrow> bool io" where
  "cred_isInitialized env cl = io_catch
     (executeWithFailover cl (\<lambda>i.
        andThen (io_lift (read_tx env cl PROBE_ADDRESS 10 ''is_issuer'' (buildIsIssuerArgs env PROBE_ADDRESS))) (\<lambda>t.
        andThen (request (Simulate i t) (\<lambda>l. e_simulate env l t)) (\<lambda>result. io_return (case result of
          SimError e \<Rightarrow> \<not> not_initialized (opt_or e []) | SimOk rv \<Rightarrow> True)))))
     (\<lambda>_. io_return False)"

definition invalid_claims_hash :: string where
  "invalid_claims_hash = ''InvalidClaimsHashFormat: claimsHash must be a 64-character hex string (32 bytes)''"

definition invalid_signature :: string where
  "invalid_signature = ''InvalidSignatureFormat: signature must be a 128-character hex string (64 bytes)''"

definition issue_args :: "env \<Rightarrow> string \<Rightarrow> string \<Rightarrow> string \<Rightarrow> (string \<times> string) list \<Rightarrow> string \<Rightarrow> byte list \<Rightarrow>
    rat \<Rightarrow> thrown + scval list" where
  "issue_args env issuer subject credentialType claims claimsHashHex signature expiresAt =
     bind_result (to_bigint expiresAt) (\<lambda>ea.
       buildIssueCredentialArgs env issuer subject credentialType claims (from_hex claimsHashHex) signature ea None None)"

definition estimateIssuanceFee :: "env \<Rightarrow> client \<Rightarrow> string \<Rightarrow> string \<Rightarrow> string \<Rightarrow> (string \<times> string) list \<Rightarrow>
    string \<Rightarrow> rat \<Rightarrow> call_options \<Rightarrow> (string \<times> string) io" where
  "estimateIssuanceFee env cl issuerKeypair subject credentialType claims claimsHashHex expiresAt options =
     andThen (io_lift (require_hex 64 invalid_claims_hash claimsHashHex)) (\<lambda>_.
     andThen (write_tx env cl issuerKeypair options ''issue_credential''
       (issue_args env issuerKeypair subject credentialType claims claimsHashHex (replicate 64 0) expiresAt)) (\<lambda>t.
     andThen (prepare_retry env t) (\<lambda>prepared.
     io_return (p_fee prepared, stroops_to_xlm (parse_int (p_fee prepared))))))"

text \<open>
  The schema check: whether \<open>ajv\<close> can be imported, the response of \<open>fetch\<close> (status, whether it is ok, the
  parsed body), what \<open>compile\<close> throws, and the errors of the compiled validator (\<open>None\<close>: valid) are
  parameters.
\<close>

record ajv_error =
  ae_instancePath :: "string option"
  ae_missingProperty :: "string option"
  ae_message :: "string option"

record schema_service =
  ss_ajv :: bool
  ss_fetch :: "string \<Rightarrow> thrown + bool \<times> nat \<times> (thrown + jv)"
  ss_compile :: "jv \<Rightarrow> thrown option"
  ss_validate :: "jv \<Rightarrow> (string \<times> string) list \<Rightarrow> ajv_error list option"

definition fetch_schema :: "schema_service \<Rightarrow> string \<Rightarrow> thrown + jv" where
  "fetch_schema ss schemaId = (case
       bind_result (ss_fetch ss schemaId) (\<lambda>(ok, status, body).
         if \<not> ok then Inl (error_class (''HTTP '' @ nat_to_string status)) else body) of
     Inl e \<Rightarrow> Inl (sdk_throw (''ClaimsValidationError: failed to fetch schema '' @ schemaId @ '': '' @ err_message e)
       INVALID_INPUT)
   | Inr schema \<Rightarrow> Inr schema)"

definition error_field :: "ajv_error \<Rightarrow> string" where
  "error_field e = (let p = (case ae_instancePath e of Some (c # s) \<Rightarrow> if c = CHR ''/'' then s else c # s | _ \<Rightarrow> []);
       m = opt_or (ae_missingProperty e) [] in
     if p \<noteq> [] then p else if m \<noteq> [] then m else ''root'')"

definition validateClaimsAgainstSchema :: "schema_service \<Rightarrow> string \<Rightarrow> (string \<times> string) list \<Rightarrow> thrown + unit" where
  "validateClaimsAgainstSchema ss schemaId claims =
     (if \<not> ss_ajv ss then Inl (sdk_throw (''ClaimsValidationError: ajv is required for schema validation. ''
         @ ''Install it with: npm install ajv'') INVALID_INPUT)
      else bind_result (fetch_schema ss schemaId) (\<lambda>schema. case ss_compile ss schema of
        Some e \<Rightarrow> Inl e
      | None \<Rightarrow> (case ss_validate ss schema claims of
          None \<Rightarrow> Inr ()
        | Some errors \<Rightarrow> Inl (ClaimsThrown (''Claims failed schema validation for schemaId: '' @ schemaId)
            (foldl (\<lambda>m e. jm_set (error_field e) (opt_or (ae_message e) ''invalid'') m) [] errors)))))"

text \<open>The keypair's secret key enters as the function \<open>signBytes\<close>, SHA-256 as \<open>sha256\<close>.\<close>

definition issue_signature :: "(byte list \<Rightarrow> byte list) \<Rightarrow> (string \<Rightarrow> byte list \<Rightarrow> byte list) \<Rightarrow> string \<Rightarrow>
    string \<Rightarrow> string \<Rightarrow> string option \<Rightarrow> string option \<Rightarrow> byte list" where
  "issue_signature sha256 signBytes issuerKeypair subject claimsHashHex nonce signatureHex =
     (case signatureHex of
        Some s \<Rightarrow> from_hex s
      | None \<Rightarrow> signBytes issuerKeypair (sha256 (utf8_bytes issuerKeypair @ utf8_bytes subject
          @ from_hex claimsHashHex @ utf8_bytes (opt_or nonce []))))"

record issue_result =
  ir_credentialId :: string
  ir_estimatedFee :: "int option"
  ir_estimatedFeeXlm :: string
  ir_txHash :: string

text \<open>The identifier of the new credential: the bytes the contract returned, or 32 zero bytes.\<close>

definition issued_id :: "env \<Rightarrow> retval option \<Rightarrow> thrown + string" where
  "issued_id env rv = bind_result (native_of env rv) (\<lambda>decoded. Inr (case decoded of
     JBytes bs \<Rightarrow> to_hex bs
   | _ \<Rightarrow> (case rv of Some (RPlain v) \<Rightarrow> id_or_zeros v | _ \<Rightarrow> id_or_zeros JUndef)))"

record issue_options =
  io_call :: call_options
  io_nonce :: "string option"
  io_schemaId :: "string option"

text \<open>What an item of a batch lists, and the arguments of \<open>issueCredential\<close>.\<close>

record CredentialInput =
  ci_issuer :: string
  ci_subject :: string
  ci_credentialType :: string
  ci_claims :: "(string \<times> string) list"
  ci_claimsHashHex :: string
  ci_expiresAt :: rat
  ci_options :: issue_options
  ci_signatureHex :: "string option"

record services =
  sv_schema :: schema_service
  sv_sha256 :: "byte list \<Rightarrow> byte list"
  sv_sign :: "string \<Rightarrow> byte list \<Rightarrow> byte list"

definition input_args :: "env \<Rightarrow> services \<Rightarrow> CredentialInput \<Rightarrow> thrown + scval list" where
  "input_args env sv c = issue_args env (ci_issuer c) (ci_subject c) (ci_credentialType c) (ci_claims c)
     (ci_claimsHashHex c)
     (issue_signature (sv_sha256 sv) (sv_sign sv) (ci_issuer c) (ci_subject c) (ci_claimsHashHex c)
        (io_nonce (ci_options c)) (ci_signatureHex c))
     (ci_expiresAt c)"

definition issue_work :: "env \<Rightarrow> services \<Rightarrow> client \<Rightarrow> CredentialInput \<Rightarrow> issue_result io" where
  "issue_work env sv cl c =
     andThen (io_lift (case io_schemaId (ci_options c) of
        Some s \<Rightarrow> if s = [] then Inr () else validateClaimsAgainstSchema (sv_schema sv) s (ci_claims c)
      | None \<Rightarrow> Inr ())) (\<lambda>_.
     andThen (write_tx env cl (ci_issuer c) (io_call (ci_options c)) ''issue_credential'' (input_args env sv c)) (\<lambda>t.
     andThen (prepare_retry env t) (\<lambda>prepared.
     let estimatedFee = parse_int (p_fee prepared) in
     andThen (send_retry env (sign (ci_issuer c) prepared)) (\<lambda>txHash.
     andThen (poll_hash env cl txHash) (\<lambda>_.
     andThen (srv_getTransaction env txHash) (\<lambda>status.
     andThen (io_lift (issued_id env (case status of TxSuccess rv \<Rightarrow> rv | _ \<Rightarrow> None))) (\<lambda>credentialId.
     io_return \<lparr>ir_credentialId = credentialId, ir_estimatedFee = estimatedFee,
       ir_estimatedFeeXlm = stroops_to_xlm estimatedFee, ir_txHash = txHash\<rparr>)))))))"

text \<open>
  \<open>Promise.race\<close> of the work and a timer. \<open>expired l\<close> says whether the timer fired before the work, which has
  then logged \<open>l\<close>, was done; the timer rejects the promise and does not stop the work.
\<close>

definition issue_timeout :: "rat option \<Rightarrow> CredentialInput \<Rightarrow> thrown" where
  "issue_timeout defaultTimeoutMs c = sdk_throw (''issueCredential timed out after ''
     @ num_to_string (opt_or (orElse (o_timeoutMs (io_call (ci_options c))) defaultTimeoutMs) 30000) @ ''ms'') TIMEOUT"

definition issueCredential ::
    "env \<Rightarrow> services \<Rightarrow> rat option \<Rightarrow> (effect list \<Rightarrow> bool) \<Rightarrow> client \<Rightarrow> CredentialInput \<Rightarrow> issue_result io" where
  "issueCredential env sv defaultTimeoutMs expired cl c =
     andThen (io_lift (require_hex 64 invalid_claims_hash (ci_claimsHashHex c))) (\<lambda>_.
     andThen (io_lift (case ci_signatureHex c of
        Some s \<Rightarrow> require_hex 128 invalid_signature s | None \<Rightarrow> Inr ())) (\<lambda>_.
     (\<lambda>w. case issue_work env sv cl c w of (r, w') \<Rightarrow>
        (if expired (w_log w') then Inl (issue_timeout defaultTimeoutMs c) else r, w'))))"

section \<open>Reading one credential\<close>

definition mentions_not_found :: "string \<Rightarrow> bool" where
  "mentions_not_found error = (let lower = to_lower error in
     str_includes lower ''credentialnotfound'' \<or> str_includes lower ''credential not found'' \<or>
     str_includes lower ''not found'')"

definition get_credential_error :: "string \<Rightarrow> string \<Rightarrow> thrown" where
  "get_credential_error credentialId error = (case extract_code error CREDENTIAL_MANAGER_ERRORS of
     None \<Rightarrow>
       if mentions_not_found error
       then sdk_throw (''CredentialNotFound: credential '' @ credentialId @ '' does not exist'') NOT_FOUND
       else sdk_throw (''Simulation failed: '' @ error) CONTRACT_ERROR
   | Some contractErr \<Rightarrow> (case contractErr of
         ContractThrown m n \<Rightarrow>
           if n = CREDENTIAL_NOT_FOUND_CODE
           then sdk_throw ''CredentialNotFound: credential does not exist'' NOT_FOUND
           else if n = CREDENTIAL_REVOKED_CODE
           then sdk_throw ''CredentialRevoked: credential has been revoked'' VALIDATION_ERROR
           else contractErr
       | _ \<Rightarrow> contractErr))"

definition getCredential :: "env \<Rightarrow> client \<Rightarrow> string \<Rightarrow> string \<Rightarrow> call_options \<Rightarrow> jv io" where
  "getCredential env cl callerAddress credentialId options = validating env [callerAddress]
     (read_call env (read_tx env cl callerAddress (call_timeout cl options) ''get_credential''
         (buildGetCredentialArgs env (from_hex credentialId)))
       (get_credential_error credentialId))"

section \<open>Verification\<close>

datatype invalid_reason = Revoked | Expired | NotFound | NotYetActive | UnknownReason

datatype verify_result = Valid | Invalid invalid_reason

text \<open>The answer for an error of the contract.\<close>

definition reason_of_code :: "nat \<Rightarrow> invalid_reason" where
  "reason_of_code n = (if n = CREDENTIAL_REVOKED_CODE then Revoked
     else if n = CREDENTIAL_EXPIRED_CODE then Expired
     else if n = CREDENTIAL_NOT_FOUND_CODE then NotFound
     else if n = CREDENTIAL_NOT_YET_ACTIVE_CODE then NotYetActive
     else UnknownReason)"

definition says_not_found :: "string \<Rightarrow> bool" where
  "says_not_found error = (str_includes (to_lower error) ''not found'' \<or>
     str_includes (to_lower error) ''credentialnotfound'')"

text \<open>\<open>a > b\<close> and \<open>a < b\<close> of a value and a number: \<open>NaN\<close> compares false.\<close>

definition js_gt :: "jv \<Rightarrow> rat \<Rightarrow> bool" where
  "js_gt v q = (case js_to_number v of JNum p \<Rightarrow> p > q | _ \<Rightarrow> False)"

definition js_lt :: "jv \<Rightarrow> rat \<Rightarrow> bool" where
  "js_lt v q = (case js_to_number v of JNum p \<Rightarrow> p < q | _ \<Rightarrow> False)"

text \<open>Why the contract answered \<open>false\<close>, from the credential; \<open>now\<close> is \<open>Date.now()\<close> in milliseconds.\<close>

definition reason_of_credential :: "int \<Rightarrow> jv \<Rightarrow> thrown + invalid_reason" where
  "reason_of_credential now credential =
     bind_result (js_prop credential ''revoked'') (\<lambda>revoked.
     if js_truthy revoked then Inr Revoked
     else bind_result (js_prop credential ''expiresAt'') (\<lambda>expiresAt.
       if js_gt expiresAt 0 \<and> js_lt expiresAt (of_int (now div 1000)) then Inr Expired
       else Inr UnknownReason))"

definition js_now :: "(effect list \<Rightarrow> int) \<Rightarrow> int io" where
  "js_now clock = (\<lambda>w. (Inr (clock (w_log w)), w))"

text \<open>
  The loop, with \<open>retries\<close> rounds to go; the last round answers in every branch. \<open>lastError\<close> is the message
  of the last simulation error.
\<close>

fun verify_loop :: "env \<Rightarrow> client \<Rightarrow> (effect list \<Rightarrow> int) \<Rightarrow> string \<Rightarrow> string \<Rightarrow> call_options \<Rightarrow> tx \<Rightarrow>
    string option \<Rightarrow> nat \<Rightarrow> verify_result io" where
  "verify_loop env cl clock callerAddress credentialId options t lastError 0 = io_return (Invalid
     (case lastError of Some error \<Rightarrow> if says_not_found error then NotFound else UnknownReason
      | None \<Rightarrow> UnknownReason))"
| "verify_loop env cl clock callerAddress credentialId options t lastError (Suc left) =
     andThen (simulate_retry env t) (\<lambda>result. case result of
       SimError e \<Rightarrow> (let error = opt_or e []; again = andThen (sleep 500) (\<lambda>_.
           verify_loop env cl clock callerAddress credentialId options t (Some error) left) in
         (case extract_code error CREDENTIAL_MANAGER_ERRORS of
            Some contractErr \<Rightarrow> (case contractErr of
              ContractThrown m n \<Rightarrow>
                if n = CREDENTIAL_NOT_FOUND_CODE \<and> left > 0 then again
                else io_return (Invalid (reason_of_code n))
            | _ \<Rightarrow> io_return (Invalid UnknownReason))
          | None \<Rightarrow>
              if says_not_found error \<and> left > 0 then again
              else io_return (Invalid (if says_not_found error then NotFound else UnknownReason))))
     | SimOk rv \<Rightarrow> andThen (io_lift (native_of env rv)) (\<lambda>retval.
         if retval \<noteq> JBool False then io_return Valid
         else io_catch
           (andThen (getCredential env cl callerAddress credentialId options) (\<lambda>credential.
            andThen (js_now clock) (\<lambda>now.
            andThen (io_lift (reason_of_credential now credential)) (\<lambda>reason. io_return (Invalid reason)))))
           (\<lambda>_. if left > 0 then andThen (sleep 500) (\<lambda>_.
                  verify_loop env cl clock callerAddress credentialId options t lastError left)
                else io_return (Invalid UnknownReason))))"

definition verifyCredential :: "env \<Rightarrow> client \<Rightarrow> (effect list \<Rightarrow> int) \<Rightarrow> string \<Rightarrow> string \<Rightarrow> call_options \<Rightarrow>
    verify_result io" where
  "verifyCredential env cl clock callerAddress credentialId options = validating env [callerAddress]
     (andThen (io_lift (read_tx env cl callerAddress (call_timeout cl options) ''verify_credential''
         (buildVerifyCredentialArgs env (from_hex credentialId)))) (\<lambda>t.
      verify_loop env cl clock callerAddress credentialId options t None 3))"

text \<open>
  \<open>verifyCredentialBatch\<close>: the worker pool over the identifiers; its mapper catches every error. The
  identifiers are a list here, so the test for an array passes.
\<close>

definition verify_item :: "env \<Rightarrow> client \<Rightarrow> (effect list \<Rightarrow> int) \<Rightarrow> string \<Rightarrow> call_options \<Rightarrow> string \<Rightarrow>
    (string \<times> verify_result) io" where
  "verify_item env cl clock callerAddress options credId = io_catch
     (andThen (verifyCredential env cl clock callerAddress credId options) (\<lambda>result. io_return (credId, result)))
     (\<lambda>_. io_return (credId, Invalid UnknownReason))"

definition verifyCredentialBatch :: "string list \<Rightarrow> nat option \<Rightarrow> thrown + (string \<times> verify_result) pool" where
  "verifyCredentialBatch credentialIds concurrency =
     (if length credentialIds > 50
      then Inl (sdk_throw ''credentialIds cannot exceed 50 items'' INVALID_INPUT)
      else Inr (runConcurrent (length credentialIds) (opt_or concurrency 5)))"

definition verifyMany :: "env \<Rightarrow> string \<Rightarrow> string list \<Rightarrow> nat option \<Rightarrow> nat option \<Rightarrow> thrown + verify_result pool" where
  "verifyMany env callerAddress credentialIds concurrency maxConcurrentRequests =
     bind_result (validateStellarAddress env callerAddress) (\<lambda>_.
     Inr (runConcurrent (length credentialIds) (opt_or (orElse concurrency maxConcurrentRequests) 5)))"

definition verifyCredentialsBatch :: "env \<Rightarrow> client \<Rightarrow> (effect list \<Rightarrow> int) \<Rightarrow>
    (verify_result io list \<Rightarrow> verify_result list io) \<Rightarrow> string \<Rightarrow> string list \<Rightarrow> call_options \<Rightarrow> verify_result list io" where
  "verifyCredentialsBatch env cl clock all callerAddress credentialIds options = validating env [callerAddress]
     (all (map (\<lambda>c. verifyCredential env cl clock callerAddress c options) credentialIds))"

end
