(* ===== verification/CredentialQueries.thy ===== *)
theory CredentialQueries
  imports Credentials MerkleCred
begin

text \<open>
  The other methods of \<open>CredentialClient\<close> (\<open>sdk/src/credentials.ts\<close>): lists and records it reads, revocation and
  renewal, batches, Merkle roots, and the oracle, template and threshold calls. These last pass their builders
  an object: a field the builder reads and the call site does not set is \<open>undefined\<close>.
\<close>

section \<open>Lists\<close>

definition getPendingActivations :: "env \<Rightarrow> client \<Rightarrow> string \<Rightarrow> string \<Rightarrow> call_options \<Rightarrow> string list io" where
  "getPendingActivations env cl callerAddress subject options = validating env [callerAddress, subject]
     (andThen (read_call env (read_tx env cl callerAddress (call_timeout cl options) ''get_pending_activations''
         (buildGetPendingActivationsArgs env subject)) credential_error)
       (\<lambda>retval. io_lift (case retval of JArr vs \<Rightarrow> map_result buffer_hex vs | _ \<Rightarrow> Inr [])))"

text \<open>
  The credentials of the identifiers a call returned: \<open>[]\<close> for a falsy or empty list, else one
  \<open>getCredential\<close> per identifier. An identifier that is no buffer is found here before any of the calls starts.
\<close>

definition fetch_all :: "(jv io list \<Rightarrow> jv list io) \<Rightarrow> (string \<Rightarrow> jv io) \<Rightarrow> jv \<Rightarrow> jv list io" where
  "fetch_all all get ids =
     (if \<not> js_truthy ids \<or> ids = JArr [] then io_return []
      else andThen (io_lift (js_map buffer_hex ids)) (\<lambda>hs. all (map get hs)))"

definition getCredentialsBySubject ::
    "env \<Rightarrow> client \<Rightarrow> (jv io list \<Rightarrow> jv list io) \<Rightarrow> string \<Rightarrow> string \<Rightarrow> call_options \<Rightarrow> jv list io" where
  "getCredentialsBySubject env cl all callerAddress subject options = validating env [callerAddress, subject]
     (andThen (read_call env (read_tx env cl callerAddress (call_timeout cl options) ''get_subject_credentials''
         (buildGetSubjectCredentialsArgs env subject)) credential_error)
       (fetch_all all (\<lambda>h. getCredential env cl callerAddress h options)))"

definition getCredentialsByIssuer ::
    "env \<Rightarrow> client \<Rightarrow> (jv io list \<Rightarrow> jv list io) \<Rightarrow> string \<Rightarrow> string \<Rightarrow> call_options \<Rightarrow> jv list io" where
  "getCredentialsByIssuer env cl all callerAddress issuer options = validating env [callerAddress, issuer]
     (andThen (read_call env (read_tx env cl callerAddress (call_timeout cl options) ''get_issuer_credentials''
         (buildGetIssuerCredentialsArgs env issuer)) credential_error)
       (fetch_all all (\<lambda>h. getCredential env cl callerAddress h options)))"

text \<open>\<open>xs.filter(f)\<close> with a callback that may throw.\<close>

fun filter_result :: "('a \<Rightarrow> 'e + bool) \<Rightarrow> 'a list \<Rightarrow> 'e + 'a list" where
  "filter_result f [] = Inr []"
| "filter_result f (x # xs) = bind_result (f x) (\<lambda>b. bind_result (filter_result f xs) (\<lambda>ys.
     Inr (if b then x # ys else ys)))"

definition has_claim :: "string \<Rightarrow> string \<Rightarrow> jv \<Rightarrow> thrown + bool" where
  "has_claim claimKey claimValue cred = bind_result (js_prop cred ''claims'') (\<lambda>claims.
     bind_result (js_prop claims claimKey) (\<lambda>v. Inr (v = JStr claimValue)))"

definition getCredentialsByClaimKey :: "env \<Rightarrow> client \<Rightarrow> (jv io list \<Rightarrow> jv list io) \<Rightarrow> string \<Rightarrow> string \<Rightarrow>
    string \<Rightarrow> string \<Rightarrow> call_options \<Rightarrow> jv list io" where
  "getCredentialsByClaimKey env cl all callerAddress subject claimKey claimValue options =
     validating env [callerAddress, subject]
     (andThen (getCredentialsBySubject env cl all callerAddress subject options) (\<lambda>creds.
      io_lift (filter_result (has_claim claimKey claimValue) creds)))"

text \<open>\<open>.filter((cred) => cred.revoked).map((cred) => cred.id)\<close>\<close>

definition revoked_ids :: "jv list \<Rightarrow> thrown + jv list" where
  "revoked_ids creds = bind_result (filter_result (\<lambda>cred. bind_result (js_prop cred ''revoked'') (\<lambda>r. Inr (js_truthy r))) creds)
     (map_result (\<lambda>cred. js_prop cred ''id''))"

definition getRevocationList ::
    "env \<Rightarrow> client \<Rightarrow> (jv io list \<Rightarrow> jv list io) \<Rightarrow> string \<Rightarrow> string \<Rightarrow> call_options \<Rightarrow> jv list io" where
  "getRevocationList env cl all callerAddress issuer options = validating env [issuer]
     (andThen (getCredentialsByIssuer env cl all callerAddress issuer options) (\<lambda>creds.
      io_lift (revoked_ids creds)))"

section \<open>Single values\<close>

definition isIssuer :: "env \<Rightarrow> client \<Rightarrow> string \<Rightarrow> string \<Rightarrow> call_options \<Rightarrow> jv io" where
  "isIssuer env cl callerAddress target options = validating env [callerAddress, target]
     (read_call env (read_tx env cl callerAddress (call_timeout cl options) ''is_issuer'' (buildIsIssuerArgs env target))
       credential_error)"

definition getCredentialCount :: "env \<Rightarrow> client \<Rightarrow> string \<Rightarrow> string \<Rightarrow> call_options \<Rightarrow> jv io" where
  "getCredentialCount env cl callerAddress subject options = validating env [callerAddress, subject]
     (read_call env (read_tx env cl callerAddress (call_timeout cl options) ''get_credential_count''
         (buildGetCredentialCountArgs env subject))
       credential_error)"

definition getIssuers :: "env \<Rightarrow> client \<Rightarrow> string \<Rightarrow> call_options \<Rightarrow> jv io" where
  "getIssuers env cl callerAddress options = validating env [callerAddress]
     (read_call env (read_tx env cl callerAddress (call_timeout cl options) ''get_issuers'' (Inr [])) credential_error)"

text \<open>\<open>getRevocations\<close> is the one read that fetches its account, as the writes do.\<close>

definition getRevocations :: "env \<Rightarrow> client \<Rightarrow> string \<Rightarrow> string \<Rightarrow> call_options \<Rightarrow> string list io" where
  "getRevocations env cl issuer subject options = validating env [issuer, subject]
     (andThen (write_tx env cl issuer options ''get_revocations'' (buildGetRevocationsArgs env issuer subject)) (\<lambda>t.
      andThen (read_call env (Inr t) credential_error) (\<lambda>ids. io_lift (hex_list ids))))"

text \<open>\<open>REVOCATION_REASONS[i] ?? RevocationReason.AdminRevoked\<close>\<close>

definition reason_at :: "jv \<Rightarrow> string" where
  "reason_at i = (case js_to_number i of
     JNum q \<Rightarrow> if js_is_integer q \<and> 0 \<le> q \<and> q < of_nat (length REVOCATION_REASONS)
               then REVOCATION_REASONS ! nat \<lfloor>q\<rfloor> else ''AdminRevoked''
   | _ \<Rightarrow> ''AdminRevoked'')"

definition revocation_record :: "jv \<Rightarrow> thrown + jv" where
  "revocation_record raw =
     (if \<not> js_truthy raw then Inr JNull
      else bind_result (js_prop raw ''reason'') (\<lambda>reason.
       bind_result (js_prop raw ''credential_id'') (\<lambda>credential_id.
       bind_result (buffer_hex credential_id) (\<lambda>h.
       bind_result (js_prop raw ''issuer'') (\<lambda>issuer.
       bind_result (js_prop raw ''subject'') (\<lambda>subject.
       bind_result (js_prop raw ''revoked_by'') (\<lambda>revoked_by.
       bind_result (js_prop raw ''revoked_at'') (\<lambda>revoked_at.
       Inr (JObj [(''credentialId'', JStr h), (''issuer'', js_coalesce issuer (JStr [])),
         (''subject'', js_coalesce subject (JStr [])), (''reason'', JStr (reason_at reason)),
         (''revokedBy'', revoked_by), (''revokedAt'', js_to_number revoked_at)])))))))))"

definition getRevocationRecord :: "env \<Rightarrow> client \<Rightarrow> string \<Rightarrow> string \<Rightarrow> call_options \<Rightarrow> jv io" where
  "getRevocationRecord env cl callerAddress credId options =
     andThen (simulateRead env cl callerAddress ''get_revocation_record''
       (buildGetRevocationRecordArgs env (from_hex credId)) options) (\<lambda>raw.
     io_lift (revocation_record raw))"

definition getRevokedByReason :: "env \<Rightarrow> client \<Rightarrow> string \<Rightarrow> jv \<Rightarrow> call_options \<Rightarrow> string list io" where
  "getRevokedByReason env cl callerAddress reason options =
     andThen (simulateRead env cl callerAddress ''get_revoked_by_reason'' (buildGetRevokedByReasonArgs env reason) options)
       (\<lambda>ids. io_lift (hex_list ids))"

definition cred_getStorageStats :: "env \<Rightarrow> client \<Rightarrow> string \<Rightarrow> call_options \<Rightarrow> jv io" where
  "cred_getStorageStats env cl callerAddress options = validating env [callerAddress]
     (read_call env (read_tx env cl callerAddress (call_timeout cl options) ''get_storage_stats'' (Inr []))
       credential_error)"

definition cred_ping :: "env \<Rightarrow> client \<Rightarrow> call_options \<Rightarrow> jv io" where
  "cred_ping env cl options =
     read_call env (read_tx env cl PROBE_ADDRESS (call_timeout cl options) ''ping'' (Inr []))
       (\<lambda>errMsg. sdk_throw ''Health check failed: credential-manager not responding'' CONTRACT_ERROR)"

section \<open>Pages\<close>

text \<open>\<open>{ items: raw.items.map(hex), nextCursor: raw.next_cursor ?? null }\<close>\<close>

definition hex_page :: "jv \<Rightarrow> thrown + jv" where
  "hex_page raw = bind_result (js_prop raw ''items'') (\<lambda>items.
     bind_result (js_map buffer_hex items) (\<lambda>hs.
     bind_result (js_prop raw ''next_cursor'') (\<lambda>next.
     Inr (JObj [(''items'', JArr (map JStr hs)), (''nextCursor'', js_coalesce next JNull)]))))"

definition type_filter :: "env \<Rightarrow> string option \<Rightarrow> thrown + scval" where
  "type_filter env credentialType = (case credentialType of
     Some ct \<Rightarrow> nativeToScVal env (JObj [(''Some'', JStr ct)]) ''Some:symbol''
   | None \<Rightarrow> nativeToScVal env JNull ''option'')"

definition listCredentialsBySubject ::
    "env \<Rightarrow> client \<Rightarrow> string \<Rightarrow> string \<Rightarrow> page_options \<Rightarrow> string option \<Rightarrow> jv io" where
  "listCredentialsBySubject env cl callerAddress subject options credentialType =
     validating env [callerAddress, subject]
     (andThen (read_call env (read_tx env cl callerAddress (call_timeout cl (pg_call options))
         ''list_subject_credentials''
         (bind_result (cursor_arg env options) (\<lambda>c. bind_result (type_filter env credentialType) (\<lambda>f.
           buildListSubjectCredentialsArgs env subject c (limit_arg options) f))))
       credential_error) (\<lambda>raw. io_lift (hex_page raw)))"

definition listIssuers :: "env \<Rightarrow> client \<Rightarrow> string \<Rightarrow> page_options \<Rightarrow> jv io" where
  "listIssuers env cl callerAddress options = validating env [callerAddress]
     (read_page env (read_tx env cl callerAddress (call_timeout cl (pg_call options)) ''list_issuers''
         (bind_result (cursor_arg env options) (\<lambda>c. buildListIssuersArgs env c (limit_arg options))))
       credential_error)"

definition listCredentialsByIssuer :: "env \<Rightarrow> client \<Rightarrow> string \<Rightarrow> string \<Rightarrow> page_options \<Rightarrow> jv io" where
  "listCredentialsByIssuer env cl callerAddress issuer options = validating env [callerAddress, issuer]
     (andThen (read_call env (read_tx env cl callerAddress (call_timeout cl (pg_call options))
         ''list_issuer_credentials''
         (bind_result (cursor_arg env options) (\<lambda>c. buildListIssuerCredentialsArgs env issuer c (limit_arg options))))
       credential_error) (\<lambda>raw. io_lift (hex_page raw)))"

section \<open>Revocation, renewal, activation\<close>

text \<open>\<open>{...v}\<close>: the own properties of a value.\<close>

definition own_props :: "jv \<Rightarrow> (string \<times> jv) list" where
  "own_props v = (let indexed = (\<lambda>vs. map (\<lambda>(i, x). (nat_to_string i, x)) (List.enumerate 0 vs)) in case v of
     JObj m \<Rightarrow> m
   | JArr vs \<Rightarrow> indexed vs
   | JStr s \<Rightarrow> indexed (map (\<lambda>c. JStr [c]) s)
   | JBytes bs \<Rightarrow> indexed (map (\<lambda>b. JNum (of_nat (unat b))) bs)
   | _ \<Rightarrow> [])"

definition revoke_call :: "env \<Rightarrow> string \<Rightarrow> byte list \<Rightarrow> jv \<Rightarrow> string \<times> (thrown + scval list)" where
  "revoke_call env issuer idBytes reason =
     (if reason = JUndef then (''revoke_credential'', buildRevokeCredentialArgs env issuer idBytes (JStr ''AdminRevoked''))
      else (''revoke_credential_with_reason'', buildRevokeCredentialWithReasonArgs env issuer idBytes reason))"

text \<open>
  \<open>revokedAt\<close> is the date \<open>createdAt\<close> of the node's answer prints to; \<open>new Date(NaN).toISOString()\<close> throws.
\<close>

definition revokeCredential :: "env \<Rightarrow> (effect list \<Rightarrow> string \<Rightarrow> thrown + string) \<Rightarrow> client \<Rightarrow> string \<Rightarrow> string \<Rightarrow>
    jv \<Rightarrow> call_options \<Rightarrow> (jv \<times> string) io" where
  "revokeCredential env createdAt cl issuerKeypair credId reason options =
     (case revoke_call env issuerKeypair (from_hex credId) reason of (meth, args) \<Rightarrow>
      cred_submit env cl issuerKeypair options meth args (\<lambda>txHash.
        andThen (\<lambda>w. (Inr (createdAt (w_log w) txHash), w)) (\<lambda>date.
        andThen (srv_getTransaction env txHash) (\<lambda>status.
        andThen (io_lift date) (\<lambda>revokedAt.
        andThen (getCredential env cl issuerKeypair credId options) (\<lambda>credential.
        io_return (spread (own_props credential) [(''revokedAt'', JStr revokedAt), (''status'', JStr ''revoked''),
          (''revocationReason'', reason)], txHash)))))))"

definition renewCredential :: "env \<Rightarrow> client \<Rightarrow> string \<Rightarrow> string \<Rightarrow> jv \<Rightarrow> call_options \<Rightarrow> string io" where
  "renewCredential env cl issuerKeypair credId newExpiresAt options =
     cred_write env cl issuerKeypair options ''renew_credential''
       (buildRenewCredentialArgs env issuerKeypair (from_hex credId) newExpiresAt)"

definition revokeBatch :: "env \<Rightarrow> client \<Rightarrow> string \<Rightarrow> string list \<Rightarrow> jv \<Rightarrow> call_options \<Rightarrow> string io" where
  "revokeBatch env cl issuerKeypair ids reason options =
     (if length ids > 50
      then io_throw (sdk_throw (''Batch size '' @ nat_to_string (length ids) @ '' exceeds maximum of 50'') BATCH_TOO_LARGE)
      else cred_write env cl issuerKeypair options ''revoke_credentials_batch''
        (buildRevokeBatchArgs env issuerKeypair (map from_hex ids) reason))"

definition cancelActivation :: "env \<Rightarrow> client \<Rightarrow> string \<Rightarrow> string \<Rightarrow> call_options \<Rightarrow> string io" where
  "cancelActivation env cl issuerKeypair credId options =
     cred_write env cl issuerKeypair options ''cancel_activation''
       (buildCancelActivationArgs env issuerKeypair (from_hex credId))"

section \<open>Merkle roots\<close>

definition getMerkleRoot :: "env \<Rightarrow> client \<Rightarrow> string \<Rightarrow> string \<Rightarrow> call_options \<Rightarrow> jv io" where
  "getMerkleRoot env cl callerAddress batchId options =
     andThen (simulateRead env cl callerAddress ''get_merkle_root'' (buildGetMerkleRootArgs env batchId) options) (\<lambda>raw.
     if \<not> js_truthy raw then io_return JNull
     else andThen (io_lift (buffer_hex raw)) (\<lambda>h. io_return (JStr h)))"

definition updateMerkleRoot :: "env \<Rightarrow> client \<Rightarrow> string \<Rightarrow> string \<Rightarrow> string \<Rightarrow> jv \<Rightarrow> call_options \<Rightarrow> string io" where
  "updateMerkleRoot env cl issuerKeypair batchId newRoot proof' options =
     andThen (io_lift (cred_normalizeCredentialIdHex newRoot)) (\<lambda>rootHex.
     cred_write env cl issuerKeypair options ''update_merkle_root''
       (buildUpdateMerkleRootArgs env issuerKeypair batchId (from_hex rootHex) proof'))"

definition verifyMerkleProofOnChain :: "env \<Rightarrow> client \<Rightarrow> string \<Rightarrow> string \<Rightarrow> jv \<Rightarrow> call_options \<Rightarrow> bool io" where
  "verifyMerkleProofOnChain env cl callerAddress batchId proof' options =
     andThen (simulateRead env cl callerAddress ''verify_merkle_proof'' (buildVerifyMerkleProofArgs env batchId proof')
       options) (\<lambda>result. io_return (result = JBool True))"

section \<open>Oracles\<close>

definition registerOracle :: "env \<Rightarrow> client \<Rightarrow> string \<Rightarrow> string \<Rightarrow> call_options \<Rightarrow> string io" where
  "registerOracle env cl adminKeypair oracle options = validating env [oracle]
     (submitWrite env cl adminKeypair ''register_oracle''
       (buildRegisterOracleArgs env (JStr oracle) JUndef JUndef JUndef) options)"

definition setFeedSchema :: "env \<Rightarrow> client \<Rightarrow> string \<Rightarrow> string \<Rightarrow> string \<Rightarrow> string \<Rightarrow> call_options \<Rightarrow> string io" where
  "setFeedSchema env cl adminKeypair oracle feedId schema options = validating env [oracle]
     (submitWrite env cl adminKeypair ''set_feed_schema''
       (buildSetFeedSchemaArgs env (JStr feedId) JUndef JUndef) options)"

definition setOracleFee :: "env \<Rightarrow> client \<Rightarrow> string \<Rightarrow> string \<Rightarrow> jv \<Rightarrow> call_options \<Rightarrow> string io" where
  "setOracleFee env cl adminKeypair oracle feeStroops options = validating env [oracle]
     (submitWrite env cl adminKeypair ''set_oracle_fee''
       (bind_result (js_bigint feeStroops) (\<lambda>fee. buildSetOracleFeeArgs env JUndef fee JUndef)) options)"

definition setFallbackOracles :: "env \<Rightarrow> client \<Rightarrow> string \<Rightarrow> string \<Rightarrow> string list \<Rightarrow> call_options \<Rightarrow> string io" where
  "setFallbackOracles env cl adminKeypair oracle fallbacks options = validating env (oracle # fallbacks)
     (submitWrite env cl adminKeypair ''set_fallback_oracles'' (buildSetFallbackOraclesArgs env JUndef JUndef) options)"

definition requestOffchainData ::
    "env \<Rightarrow> client \<Rightarrow> string \<Rightarrow> string \<Rightarrow> string \<Rightarrow> string \<Rightarrow> call_options \<Rightarrow> (string \<times> string) io" where
  "requestOffchainData env cl requesterKeypair oracle feedId payload options = validating env [oracle]
     (andThen (submitWriteWithResult env cl requesterKeypair ''request_offchain_data''
       (buildRequestOffchainDataArgs env (JStr requesterKeypair) (JStr feedId) JUndef JUndef) options)
       (\<lambda>(txHash, returnValue). io_return (txHash, id_or_zeros returnValue)))"

definition oracleCallback ::
    "env \<Rightarrow> client \<Rightarrow> string \<Rightarrow> string \<Rightarrow> string \<Rightarrow> jv \<Rightarrow> call_options \<Rightarrow> string io" where
  "oracleCallback env cl oracleKeypair requestId dataHashHex timestamp options =
     andThen (io_lift (require_hex 64 ''InvalidDataHashFormat: dataHash must be a 64-character hex string (32 bytes)''
       dataHashHex)) (\<lambda>_.
     submitWrite env cl oracleKeypair ''oracle_callback''
       (buildOracleCallbackArgs env (JBytes (from_hex requestId)) (JStr oracleKeypair) JUndef timestamp JUndef) options)"

section \<open>Templates\<close>

definition registerTemplate ::
    "env \<Rightarrow> client \<Rightarrow> string \<Rightarrow> string \<Rightarrow> string \<Rightarrow> string option \<Rightarrow> call_options \<Rightarrow> (string \<times> string) io" where
  "registerTemplate env cl issuerKeypair name schema parentTemplateId options =
     andThen (submitWriteWithResult env cl issuerKeypair ''register_template''
       (buildRegisterTemplateArgs env (JStr issuerKeypair) JUndef JUndef JUndef) options)
       (\<lambda>(txHash, returnValue). io_return (txHash, id_or_zeros returnValue))"

definition publishTemplateVersion :: "env \<Rightarrow> client \<Rightarrow> string \<Rightarrow> string \<Rightarrow> string \<Rightarrow> call_options \<Rightarrow> string io" where
  "publishTemplateVersion env cl issuerKeypair templateId schema options =
     submitWrite env cl issuerKeypair ''publish_template_version''
       (buildPublishTemplateVersionArgs env (JStr issuerKeypair) (JBytes (from_hex templateId)) JUndef JUndef) options"

definition validateAgainstTemplate ::
    "env \<Rightarrow> client \<Rightarrow> string \<Rightarrow> string \<Rightarrow> (string \<times> string) list \<Rightarrow> call_options \<Rightarrow> bool io" where
  "validateAgainstTemplate env cl callerAddress templateId claims options =
     andThen (simulateRead env cl callerAddress ''validate_against_template''
       (buildValidateAgainstTemplateArgs env (JBytes (from_hex templateId)) JUndef (str_map claims)) options)
       (\<lambda>result. io_return (result = JBool True))"

definition listTemplateForSale :: "env \<Rightarrow> client \<Rightarrow> string \<Rightarrow> string \<Rightarrow> jv \<Rightarrow> call_options \<Rightarrow> string io" where
  "listTemplateForSale env cl issuerKeypair templateId priceStroops options =
     submitWrite env cl issuerKeypair ''list_template_for_sale''
       (bind_result (js_bigint priceStroops) (\<lambda>price.
         buildListTemplateForSaleArgs env (JStr issuerKeypair) (JBytes (from_hex templateId)) price JUndef)) options"

definition buyTemplate :: "env \<Rightarrow> client \<Rightarrow> string \<Rightarrow> string \<Rightarrow> call_options \<Rightarrow> string io" where
  "buyTemplate env cl buyerKeypair templateId options =
     submitWrite env cl buyerKeypair ''buy_template''
       (buildBuyTemplateArgs env (JStr buyerKeypair) (JBytes (from_hex templateId))) options"

section \<open>Threshold signatures\<close>

text \<open>\<open>signers\<close> is an object from addresses to weights.\<close>

definition setSigners ::
    "env \<Rightarrow> client \<Rightarrow> string \<Rightarrow> string \<Rightarrow> (string \<times> jv) list \<Rightarrow> jv \<Rightarrow> call_options \<Rightarrow> string io" where
  "setSigners env cl adminKeypair issuer signers threshold options = validating env (issuer # map fst signers)
     (submitWrite env cl adminKeypair ''set_signers'' (buildSetSignersArgs env JUndef (JObj signers) threshold) options)"

definition updateSigners ::
    "env \<Rightarrow> client \<Rightarrow> string \<Rightarrow> string \<Rightarrow> (string \<times> jv) list \<Rightarrow> jv \<Rightarrow> call_options \<Rightarrow> string io" where
  "updateSigners env cl adminKeypair issuer signers threshold options = validating env (issuer # map fst signers)
     (submitWrite env cl adminKeypair ''update_signers''
       (buildUpdateSignersArgs env JUndef (JObj signers) JUndef threshold) options)"

definition invalid_message_hash :: string where
  "invalid_message_hash = ''InvalidMessageHashFormat: messageHash must be a 64-character hex string (32 bytes)''"

text \<open>The message hash reaches neither builder: they read \<open>account\<close> and \<open>operationHash\<close>.\<close>

definition validateThreshold ::
    "env \<Rightarrow> client \<Rightarrow> string \<Rightarrow> string \<Rightarrow> string \<Rightarrow> string list \<Rightarrow> call_options \<Rightarrow> bool io" where
  "validateThreshold env cl callerAddress issuer messageHashHex signaturesHex options = validating env [issuer]
     (andThen (io_lift (require_hex 64 invalid_message_hash messageHashHex)) (\<lambda>_.
      andThen (simulateRead env cl callerAddress ''validate_threshold''
        (buildValidateThresholdArgs env JUndef JUndef (JArr (map (\<lambda>s. JBytes (from_hex s)) signaturesHex))) options)
      (\<lambda>result. io_return (result = JBool True))))"

definition aggregateSignatures ::
    "env \<Rightarrow> client \<Rightarrow> string \<Rightarrow> string \<Rightarrow> string \<Rightarrow> string list \<Rightarrow> call_options \<Rightarrow> string io" where
  "aggregateSignatures env cl callerAddress issuer messageHashHex signaturesHex options = validating env [issuer]
     (andThen (io_lift (require_hex 64 invalid_message_hash messageHashHex)) (\<lambda>_.
      andThen (simulateRead env cl callerAddress ''aggregate_signatures''
        (buildAggregateSignaturesArgs env JUndef JUndef (JArr (map (\<lambda>s. JBytes (from_hex s)) signaturesHex))) options)
      (\<lambda>result. io_lift (case result of
         JBytes bs \<Rightarrow> Inr (to_hex bs)
       | JStr s \<Rightarrow> Inr s
       | _ \<Rightarrow> Inl (sdk_throw ''Unexpected aggregate_signatures return value'' CONTRACT_ERROR)))))"

section \<open>Revocation proofs\<close>

text \<open>The bit index is a number that may be \<open>NaN\<close> or fractional.\<close>

record RevocationProof =
  rp_credentialId :: string
  rp_wordIndex :: jv
  rp_bitIndex :: jv
  rp_word :: int
  rp_revoked :: bool

definition is_number :: "jv \<Rightarrow> bool" where
  "is_number v = (case v of JNum q \<Rightarrow> True | JNaN \<Rightarrow> True | _ \<Rightarrow> False)"

definition verifyRevocationProof :: "RevocationProof option \<Rightarrow> thrown + bool" where
  "verifyRevocationProof p = (case p of None \<Rightarrow> Inr False | Some pr \<Rightarrow>
     if \<not> is_number (rp_wordIndex pr) \<or> \<not> is_number (rp_bitIndex pr) then Inr False
     else if js_lt (rp_bitIndex pr) 0 \<or> js_gt (rp_bitIndex pr) 255 then Inr False
     else bind_result (js_bigint (rp_bitIndex pr)) (\<lambda>i. case i of
       JBig k \<Rightarrow> Inr (((rp_word pr div 2 ^ nat k) mod 2 = 1) = rp_revoked pr) | _ \<Rightarrow> Inr False))"

section \<open>Batches\<close>

text \<open>
  \<open>issueCredentialBatch\<close> issues chunk after chunk; \<open>settle\<close> runs the issuances of one chunk concurrently and
  returns their outcomes in order. The index grows by the concurrency: with 0 the loop never ends.
\<close>

record batch_result =
  br_succeeded :: "issue_result list"
  br_failed :: "(CredentialInput \<times> sdk_error) list"

definition batch_error :: "thrown \<Rightarrow> sdk_error" where
  "batch_error reason = (case reason of SdkThrown e \<Rightarrow> e
     | _ \<Rightarrow> sdk_error_code (err_message reason) UNKNOWN (Some reason))"

fun collect_results :: "CredentialInput list \<Rightarrow> (thrown + issue_result) list \<Rightarrow> batch_result \<Rightarrow> batch_result" where
  "collect_results (c # cs) (Inr r # rs) acc =
     collect_results cs rs (acc\<lparr>br_succeeded := br_succeeded acc @ [r]\<rparr>)"
| "collect_results (c # cs) (Inl e # rs) acc =
     collect_results cs rs (acc\<lparr>br_failed := br_failed acc @ [(c, batch_error e)]\<rparr>)"
| "collect_results _ _ acc = acc"

partial_function (option) batch_loop ::
    "(CredentialInput list \<Rightarrow> world \<Rightarrow> (thrown + issue_result) list \<times> world) \<Rightarrow> CredentialInput list \<Rightarrow> nat \<Rightarrow>
      nat \<Rightarrow> batch_result \<Rightarrow> world \<Rightarrow> (batch_result \<times> world) option" where
  "batch_loop settle items concurrency i acc w =
     (if i < length items then
        (case settle (take concurrency (drop i items)) w of (results, w') \<Rightarrow>
           batch_loop settle items concurrency (i + concurrency)
             (collect_results (take concurrency (drop i items)) results acc) w')
      else Some (acc, w))"

definition issueCredentialBatch ::
    "(CredentialInput list \<Rightarrow> world \<Rightarrow> (thrown + issue_result) list \<times> world) \<Rightarrow> CredentialInput list \<Rightarrow> nat option \<Rightarrow>
      world \<Rightarrow> (batch_result \<times> world) option" where
  "issueCredentialBatch settle items concurrency w =
     batch_loop settle items (opt_or concurrency 5) 0 \<lparr>br_succeeded = [], br_failed = []\<rparr> w"

end
