(* ===== verification/CredentialProps.thy ===== *)
theory CredentialProps
  imports CredentialQueries "HOL-Library.Sublist"
begin

text \<open>
  What holds of the credential client: reads send nothing, an issued credential was confirmed on chain, what
  a verdict of \<open>verifyCredential\<close> rests on, batches and their termination, revocation, and the calls whose
  call sites do not fit their argument builders.
\<close>

section \<open>Lemmas\<close>

lemma simulate_world_log: "\<exists>es. w_log (retry_world (srv_simulate env t) b w k) = w_log w @ es"
proof (induction k)
  case (Suc k)
  then show ?case by (auto simp: srv_simulate_def andThen_def thisServer_def io_run Let_def split: if_splits)
qed simp

text \<open>The simulation a read rests on is answered from a log that extends the one the read started with.\<close>

lemma simulate_retry_at:
  assumes "simulate_retry env t w = (Inr s, w')"
  obtains es where "e_simulate env (w_log w @ es) t = Inr s"
proof -
  obtain k where k: "srv_simulate env t (retry_world (srv_simulate env t) 500 w k) = (Inr s, w')"
    using retry_default_Inr assms unfolding simulate_retry_def by metis
  obtain es where "w_log (retry_world (srv_simulate env t) 500 w k) = w_log w @ es"
    using simulate_world_log by blast
  then show ?thesis
    using that k by (auto simp: srv_simulate_def andThen_Inr_iff thisServer_def io_run split: if_splits)
qed

lemma read_call_at:
  assumes "read_call env t f w = (Inr v, w')"
  obtains t' es rv where "t = Inr t'" "e_simulate env (w_log w @ es) t' = Inr (SimOk rv)" "native_of env rv = Inr v"
proof -
  from assms obtain t' s w1 where *: "t = Inr t'" "simulate_retry env t' w = (Inr s, w1)"
    "(case s of SimError e \<Rightarrow> io_throw (f (opt_or e [])) | SimOk rv \<Rightarrow> io_lift (native_of env rv)) w1 = (Inr v, w')"
    by (auto simp: read_call_def andThen_Inr_iff io_run)
  obtain es where "e_simulate env (w_log w @ es) t' = Inr s" using simulate_retry_at [OF *(2)] .
  with * that show ?thesis by (cases s) (auto simp: io_run)
qed

lemma getCredential_at:
  assumes "getCredential env cl a c opts w = (Inr v, w')"
  obtains t es rv where "map op_method (tx_ops t) = [''get_credential'']"
    "e_simulate env (w_log w @ es) t = Inr (SimOk rv)" "native_of env rv = Inr v"
proof -
  have "read_call env (read_tx env cl a (call_timeout cl opts) ''get_credential''
      (buildGetCredentialArgs env (from_hex c))) (get_credential_error c) w = (Inr v, w')"
    using assms by (simp add: getCredential_def validating_Inr del: validating.simps)
  then obtain t es rv where t: "read_tx env cl a (call_timeout cl opts) ''get_credential''
      (buildGetCredentialArgs env (from_hex c)) = Inr t"
      "e_simulate env (w_log w @ es) t = Inr (SimOk rv)" "native_of env rv = Inr v"
    by (rule read_call_at)
  from t(1) have "map op_method (tx_ops t) = [''get_credential'']"
    by (rule read_tx_Inr) (simp add: build_tx_def)
  then show ?thesis by (rule that [OF _ t(2,3)])
qed

lemma emits_getCredential [emits]: "emits is_read (getCredential env cl a c opts)"
  unfolding getCredential_def by (intro emits_validating emits)

lemma emits_js_now [emits]: "emits P (js_now clock)"
  by (simp add: emits_def js_now_def)

lemma emits_verify_loop: "emits is_read (verify_loop env cl clock a c opts t lastError n)"
proof (induction n arbitrary: lastError)
  case (Suc n)
  show ?case
    unfolding verify_loop.simps Let_def
    by (intro emits Suc.IH) (auto split: option.split thrown.split intro!: emits Suc.IH)
qed (simp add: emits)

lemma emits_verifyCredential [emits]: "emits is_read (verifyCredential env cl clock a c opts)"
  unfolding verifyCredential_def by (intro emits_validating emits emits_verify_loop)

lemma emits_fetch_all:
  "promise_all all \<Longrightarrow> (\<And>h. emits P (get h)) \<Longrightarrow> emits P (fetch_all all get ids)"
  unfolding fetch_all_def by (intro emits promise_all_emits)

lemma emits_by_subject: "promise_all all \<Longrightarrow> emits is_read (getCredentialsBySubject env cl all a b opts)"
  unfolding getCredentialsBySubject_def by (intro emits_validating emits emits_fetch_all)

lemma emits_by_issuer: "promise_all all \<Longrightarrow> emits is_read (getCredentialsByIssuer env cl all a b opts)"
  unfolding getCredentialsByIssuer_def by (intro emits_validating emits emits_fetch_all)

section \<open>Reads\<close>

text \<open>
  No read of the credential client signs, prepares or sends anything, fetches an account or polls,
  however the concurrent reads interleave.
\<close>

theorem credential_reads_send_nothing:
  assumes "promise_all all" "promise_all allv"
  shows "emits is_read (cred_isInitialized env cl) \<and> emits is_read (getCredential env cl a c opts) \<and>
   emits is_read (verifyCredential env cl clock a c opts) \<and>
   emits is_read (verify_item env cl clock a opts c) \<and>
   emits is_read (verifyCredentialsBatch env cl clock allv a cs opts) \<and>
   emits is_read (getPendingActivations env cl a b opts) \<and>
   emits is_read (getCredentialsBySubject env cl all a b opts) \<and>
   emits is_read (getCredentialsByIssuer env cl all a b opts) \<and>
   emits is_read (getCredentialsByClaimKey env cl all a b k v opts) \<and>
   emits is_read (getRevocationList env cl all a b opts) \<and> emits is_read (isIssuer env cl a b opts) \<and>
   emits is_read (getCredentialCount env cl a b opts) \<and> emits is_read (getIssuers env cl a opts) \<and>
   emits is_read (getRevocationRecord env cl a c opts) \<and> emits is_read (getRevokedByReason env cl a r opts) \<and>
   emits is_read (cred_getStorageStats env cl a opts) \<and> emits is_read (cred_ping env cl opts) \<and>
   emits is_read (listCredentialsBySubject env cl a b popts ct) \<and> emits is_read (listIssuers env cl a popts) \<and>
   emits is_read (listCredentialsByIssuer env cl a b popts) \<and> emits is_read (getMerkleRoot env cl a bid opts) \<and>
   emits is_read (verifyMerkleProofOnChain env cl a bid p opts) \<and>
   emits is_read (validateAgainstTemplate env cl a tid claims opts) \<and>
   emits is_read (validateThreshold env cl a b mh sigs opts) \<and>
   emits is_read (aggregateSignatures env cl a b mh sigs opts)"
proof -
  have i: "emits is_read (cred_isInitialized env cl)"
    unfolding cred_isInitialized_def by (intro emits) simp_all
  have all: "emits is_read (allv (map (\<lambda>c. verifyCredential env cl clock a c opts) cs))"
    by (rule promise_all_emits [OF assms(2)]) (rule emits)
  have page: "emits is_read (read_page env t f)" for t f
    unfolding read_page_def by (intro emits)
  note parts = i emits_getCredential emits_verifyCredential emits_by_subject [OF assms(1)]
    emits_by_issuer [OF assms(1)]
  show ?thesis
    unfolding verify_item_def verifyCredentialsBatch_def getPendingActivations_def getCredentialsByClaimKey_def
      getRevocationList_def isIssuer_def getCredentialCount_def getIssuers_def getRevocationRecord_def
      getRevokedByReason_def cred_getStorageStats_def cred_ping_def listCredentialsBySubject_def listIssuers_def
      listCredentialsByIssuer_def getMerkleRoot_def verifyMerkleProofOnChain_def validateAgainstTemplate_def
      validateThreshold_def aggregateSignatures_def
    by (intro conjI parts) (intro emits_validating all page emits parts)+
qed

section \<open>Issuing\<close>

lemma issue_work_Inr:
  assumes "issue_work env sv cl c w = (Inr r, w')"
  obtains as es where "input_args env sv c = Inr as" "w_log w' = w_log w @ es"
    "confirmed_write env cl (ci_issuer c) (io_call (ci_options c)) ''issue_credential'' as (ir_txHash r) es"
    "\<exists>l rv. e_getTransaction env l (ir_txHash r) = Inr (TxSuccess rv) \<and> issued_id env rv = Inr (ir_credentialId r)"
proof -
  from assms obtain t p h status w1 w2 w3 w4 where *:
    "write_tx env cl (ci_issuer c) (io_call (ci_options c)) ''issue_credential'' (input_args env sv c) w = (Inr t, w1)"
    "prepare_retry env t w1 = (Inr p, w2)" "send_retry env (sign (ci_issuer c) p) w2 = (Inr h, w3)"
    "poll_hash env cl h w3 = (Inr (), w4)" "srv_getTransaction env h w4 = (Inr status, w')"
    "issued_id env (case status of TxSuccess rv \<Rightarrow> rv | _ \<Rightarrow> None) = Inr (ir_credentialId r)" "ir_txHash r = h"
    by (auto simp: issue_work_def andThen_Inr_iff io_run Let_def)
  obtain as es where as: "input_args env sv c = Inr as" "w_log w4 = w_log w @ es"
    "confirmed_write env cl (ci_issuer c) (io_call (ci_options c)) ''issue_credential'' as h es"
    using contract_write_confirmed_aux [OF *(1-3) poll_hash_polled [OF *(4)]] by blast
  obtain fs where fs: "w_log w' = w_log w4 @ fs" "sends fs = []"
    using emitsD [OF emits_srv_getTransaction_no_send, of env h w4] *(5) no_send_sends by auto
  obtain l where "e_getTransaction env l h = Inr status"
    using *(5) by (auto simp: srv_getTransaction_def andThen_Inr_iff thisServer_def io_run split: if_splits)
  moreover from *(6) obtain rv where "status = TxSuccess rv" "issued_id env rv = Inr (ir_credentialId r)"
    by (cases status) (auto simp: issued_id_def native_of_def)
  ultimately have "\<exists>l rv. e_getTransaction env l h = Inr (TxSuccess rv) \<and> issued_id env rv = Inr (ir_credentialId r)"
    by blast
  then show ?thesis
    using that [OF as(1), of "es @ fs"] as(2) fs confirmed_write_append [OF as(3) fs(2)] *(7) by simp
qed

lemma issue_args_Inr:
  assumes "issue_args env issuer subject ct claims hash sig ea = Inr as"
  shows "as ! 4 = Native (JBytes (from_hex hash)) ''bytes'' \<and> as ! 5 = Native (JBytes sig) ''bytes'' \<and> length as = 9"
  using assms by (auto simp: issue_args_def buildIssueCredentialArgs_def scvals_def nativeToScVal_def bind_result_Inr_iff
      split: option.splits)

text \<open>
  C8. \<open>issueCredential\<close> returns only for a confirmed transaction, the only one it broadcast (up to three
  retransmissions), that calls \<open>issue_credential\<close> with the 32 bytes of the claims hash and the issuer's signature:
  the one given, or one over the SHA-256 hash of the issuer, the subject, the claims hash and the nonce. The
  identifier it returns is what the node reported for that transaction.
\<close>

theorem issueCredential_confirmed:
  assumes "issueCredential env sv dt expired cl c w = (Inr r, w')"
  shows "\<exists>as es. w_log w' = w_log w @ es \<and>
    confirmed_write env cl (ci_issuer c) (io_call (ci_options c)) ''issue_credential'' as (ir_txHash r) es \<and>
    as ! 4 = Native (JBytes (from_hex (ci_claimsHashHex c))) ''bytes'' \<and> length (from_hex (ci_claimsHashHex c)) = 32 \<and>
    as ! 5 = Native (JBytes (case ci_signatureHex c of
        Some s \<Rightarrow> from_hex s
      | None \<Rightarrow> sv_sign sv (ci_issuer c) (sv_sha256 sv (utf8_bytes (ci_issuer c) @ utf8_bytes (ci_subject c)
          @ from_hex (ci_claimsHashHex c) @ utf8_bytes (opt_or (io_nonce (ci_options c)) []))))) ''bytes'' \<and>
    (\<exists>l rv. e_getTransaction env l (ir_txHash r) = Inr (TxSuccess rv) \<and> issued_id env rv = Inr (ir_credentialId r))"
proof -
  from assms have hash: "hex_of_length 64 (ci_claimsHashHex c)" and run: "issue_work env sv cl c w = (Inr r, w')"
    by (auto simp: issueCredential_def andThen_Inr_iff io_run require_hex_def split: if_splits prod.splits)
  obtain as es where as: "input_args env sv c = Inr as" "w_log w' = w_log w @ es"
    "confirmed_write env cl (ci_issuer c) (io_call (ci_options c)) ''issue_credential'' as (ir_txHash r) es"
    "\<exists>l rv. e_getTransaction env l (ir_txHash r) = Inr (TxSuccess rv) \<and> issued_id env rv = Inr (ir_credentialId r)"
    using issue_work_Inr [OF run] .
  have "length (from_hex (ci_claimsHashHex c)) = 32"
    using hash by (simp add: hex_of_length_def length_from_hex)
  then show ?thesis
    using as issue_args_Inr [OF as(1) [unfolded input_args_def]]
    by (intro exI [of _ as] exI [of _ es]) (simp add: issue_signature_def)
qed

section \<open>Verification\<close>

abbreviation half_seconds :: "effect list \<Rightarrow> nat" where
  "half_seconds es \<equiv> length (filter (\<lambda>e. e = Sleep 500) es)"

text \<open>What a simulation must have answered for a verdict, and how many pauses precede it.\<close>

definition verdict_basis :: "env \<Rightarrow> tx \<Rightarrow> verify_result \<Rightarrow> bool" where
  "verdict_basis env t v = (case v of
     Valid \<Rightarrow> (\<exists>l rv x. e_simulate env l t = Inr (SimOk rv) \<and> native_of env rv = Inr x \<and> x \<noteq> JBool False)
   | Invalid NotFound \<Rightarrow> (\<exists>l e. e_simulate env l t = Inr (SimError e) \<and>
        (match_hash_code (opt_or e []) = Some CREDENTIAL_NOT_FOUND_CODE \<or> says_not_found (opt_or e [])))
   | Invalid NotYetActive \<Rightarrow> (\<exists>l e. e_simulate env l t = Inr (SimError e) \<and>
        match_hash_code (opt_or e []) = Some CREDENTIAL_NOT_YET_ACTIVE_CODE)
   | Invalid _ \<Rightarrow> True)"

lemma simulate_retry_log:
  assumes "simulate_retry env t w = (Inr s, w')"
  obtains es l where "w_log w' = w_log w @ es" "e_simulate env l t = Inr s"
proof -
  obtain es where "w_log w' = w_log w @ es"
    using emitsD [OF emits_simulate_retry, of env t w] assms by auto
  moreover obtain l where "e_simulate env l t = Inr s" by (rule simulate_retry_at [OF assms])
  ultimately show ?thesis by (rule that)
qed

text \<open>A round of the loop either pauses for half a second and goes on, or gives a verdict.\<close>

definition goes_on :: "(string option \<Rightarrow> nat \<Rightarrow> verify_result io) \<Rightarrow> nat \<Rightarrow> world \<Rightarrow> verify_result \<Rightarrow> world \<Rightarrow> bool" where
  "goes_on loop n w v w' = (\<exists>es w1 le'. 0 < n \<and> w_log w1 = w_log w @ es \<and>
      loop le' n (w1\<lparr>w_log := w_log w1 @ [Sleep 500]\<rparr>) = (Inr v, w'))"

lemma goes_onI:
  "0 < n \<Longrightarrow> loop le' n (u\<lparr>w_log := w_log u @ [Sleep 500]\<rparr>) = (Inr v, w') \<Longrightarrow> w_log u = w_log w @ es \<Longrightarrow>
    goes_on loop n w v w'"
  unfolding goes_on_def by blast

lemma verify_round:
  assumes "verify_loop env cl clock a c opts t le (Suc n) w = (Inr v, w')"
  shows "goes_on (verify_loop env cl clock a c opts t) n w v w' \<or>
    verdict_basis env t v \<and> (v = Invalid NotFound \<longrightarrow> n = 0 \<and> (\<exists>es. w_log w' = w_log w @ es))"
proof -
  obtain s w1 where s: "simulate_retry env t w = (Inr s, w1)"
    using assms by (auto simp: andThen_Inr_iff)
  obtain es l where l: "w_log w1 = w_log w @ es" "e_simulate env l t = Inr s" using simulate_retry_log [OF s] .
  show ?thesis
  proof (cases s)
    case (SimError e)
    let ?e = "opt_or e []"
    let ?again = "verify_loop env cl clock a c opts t (Some ?e) n (w1\<lparr>w_log := w_log w1 @ [Sleep 500]\<rparr>) = (Inr v, w')"
    show ?thesis
    proof (cases "match_hash_code ?e")
      case None
      then have "extract_code ?e CREDENTIAL_MANAGER_ERRORS = None" by (simp add: extract_code_def)
      then have "0 < n \<and> ?again \<or> w' = w1 \<and>
          v = Invalid (if says_not_found ?e then NotFound else UnknownReason) \<and> (says_not_found ?e \<longrightarrow> n = 0)"
        using assms s SimError by (auto simp: andThen_Inr_iff Let_def io_run split: if_splits)
      moreover have "verdict_basis env t (Invalid (if says_not_found ?e then NotFound else UnknownReason))"
        using l(2) SimError by (auto simp: verdict_basis_def intro!: exI [of _ l] exI [of _ e])
      ultimately show ?thesis
        using l(1) goes_onI [where le' = "Some ?e" and u = w1 and n = n and loop = "verify_loop env cl clock a c opts t"]
        by (auto simp del: verify_loop.simps)
    next
      case (Some k)
      then obtain m where m: "extract_code ?e CREDENTIAL_MANAGER_ERRORS = Some (ContractThrown m k)"
        by (auto simp: extract_code_def contract_error_def)
      have "0 < n \<and> ?again \<or> w' = w1 \<and> v = Invalid (reason_of_code k) \<and> (k = CREDENTIAL_NOT_FOUND_CODE \<longrightarrow> n = 0)"
        using assms s SimError m by (auto simp: andThen_Inr_iff Let_def io_run split: if_splits)
      moreover have "verdict_basis env t (Invalid (reason_of_code k))"
        using l(2) SimError Some
        by (auto simp: verdict_basis_def reason_of_code_def intro!: exI [of _ l] exI [of _ e])
      moreover have "reason_of_code k = NotFound \<longrightarrow> k = CREDENTIAL_NOT_FOUND_CODE"
        by (simp add: reason_of_code_def)
      ultimately show ?thesis
        using l(1) goes_onI [where le' = "Some ?e" and u = w1 and n = n and loop = "verify_loop env cl clock a c opts t"]
        by (auto simp del: verify_loop.simps)
    qed
  next
    case (SimOk rv)
    then obtain x where x: "native_of env rv = Inr x" using assms s by (auto simp: andThen_Inr_iff io_run)
    show ?thesis
    proof (cases "x = JBool False")
      case False
      then show ?thesis using assms s SimOk x l by (auto simp: andThen_Inr_iff io_run verdict_basis_def)
    next
      case True
      let ?why = "andThen (getCredential env cl a c opts) (\<lambda>credential. andThen (js_now clock) (\<lambda>now.
            andThen (io_lift (reason_of_credential now credential)) (\<lambda>reason. io_return (Invalid reason))))"
      obtain r w2 where r: "?why w1 = (r, w2)" by (cases "?why w1")
      have "emits is_read ?why" by (intro emits)
      then obtain es2 where es2: "w_log w2 = w_log w1 @ es2" using emitsD [of is_read ?why w1] r by auto
      show ?thesis
      proof (cases r)
        case (Inl e)
        have "(0 < n \<and> verify_loop env cl clock a c opts t le n (w2\<lparr>w_log := w_log w2 @ [Sleep 500]\<rparr>) = (Inr v, w')) \<or>
            v = Invalid UnknownReason"
          using assms s SimOk x True r Inl
          by (auto simp: andThen_def io_catch_def io_run split: if_splits)
        then show ?thesis
          using l(1) es2 goes_onI [where le' = le and u = w2 and es = "es @ es2" and n = n
              and loop = "verify_loop env cl clock a c opts t"]
          by (auto simp del: verify_loop.simps simp: verdict_basis_def)
      next
        case (Inr v')
        then have "v' = v" using assms s SimOk x True r by (auto simp: andThen_def io_catch_def io_run)
        moreover have "v' = Invalid Revoked \<or> v' = Invalid Expired \<or> v' = Invalid UnknownReason"
          using r Inr by (auto simp: andThen_Inr_iff io_run reason_of_credential_def bind_result_Inr_iff split: if_splits)
        ultimately show ?thesis by (auto simp: verdict_basis_def)
      qed
    qed
  qed
qed

lemma verify_loop_verdict:
  "verify_loop env cl clock a c opts t le (Suc n) w = (Inr v, w') \<Longrightarrow> verdict_basis env t v \<and>
     (v = Invalid NotFound \<longrightarrow> (\<exists>es. w_log w' = w_log w @ es \<and> n \<le> half_seconds es))"
proof (induction n arbitrary: le w)
  case 0
  from verify_round [OF 0] show ?case by (auto simp: goes_on_def)
next
  case (Suc n)
  from verify_round [OF Suc.prems] show ?case
  proof
    assume "goes_on (verify_loop env cl clock a c opts t) (Suc n) w v w'"
    then obtain es w1 le' where *: "w_log w1 = w_log w @ es"
      "verify_loop env cl clock a c opts t le' (Suc n) (w1\<lparr>w_log := w_log w1 @ [Sleep 500]\<rparr>) = (Inr v, w')"
      unfolding goes_on_def by blast
    from Suc.IH [OF *(2)] have b: "verdict_basis env t v" and
      nf: "v = Invalid NotFound \<Longrightarrow> \<exists>fs. w_log w' = w_log w @ es @ Sleep 500 # fs \<and> n \<le> half_seconds fs"
      using *(1) by auto
    have "\<exists>es. w_log w' = w_log w @ es \<and> Suc n \<le> half_seconds es" if v: "v = Invalid NotFound"
    proof -
      obtain fs where "w_log w' = w_log w @ es @ Sleep 500 # fs" "n \<le> half_seconds fs" using nf [OF v] by blast
      then show ?thesis by (intro exI [of _ "es @ Sleep 500 # fs"]) simp
    qed
    with b show ?thesis by blast
  qed auto
qed

text \<open>
  What a verdict of \<open>verifyCredential\<close> rests on. The credential is reported valid only when a simulation of
  \<open>verify_credential\<close> on it succeeded with a value other than \<open>false\<close>; not yet active only for contract code 22;
  and not found only when a node said so after at least two pauses of half a second, the third attempt.
\<close>

theorem verifyCredential_verdict:
  assumes "verifyCredential env cl clock caller credId options w = (Inr v, w')"
  shows "\<exists>as es. buildVerifyCredentialArgs env (from_hex credId) = Inr as \<and>
    (v = Invalid NotFound \<longrightarrow> w_log w' = w_log w @ es \<and> 2 \<le> half_seconds es) \<and>
    verdict_basis env (build_tx cl \<lparr>acc_id = caller, acc_seq = ''0''\<rparr> (call_timeout cl options) ''verify_credential'' as) v"
proof -
  from assms obtain t where t: "read_tx env cl caller (call_timeout cl options) ''verify_credential''
      (buildVerifyCredentialArgs env (from_hex credId)) = Inr t"
    and run: "verify_loop env cl clock caller credId options t None (Suc 2) w = (Inr v, w')"
    by (auto simp: verifyCredential_def validating_Inr andThen_Inr_iff io_run numeral_3_eq_3 simp del: validating.simps)
  obtain as where "buildVerifyCredentialArgs env (from_hex credId) = Inr as"
      "t = build_tx cl \<lparr>acc_id = caller, acc_seq = ''0''\<rparr> (call_timeout cl options) ''verify_credential'' as"
    by (rule read_tx_Inr [OF t])
  then show ?thesis using verify_loop_verdict [OF run] by (auto intro!: exI [of _ as])
qed

section \<open>Revocation\<close>

text \<open>
  How the credential-manager contract answers \<open>get_credential\<close>: never with a credential that is revoked, and with
  an error of code 4 once a revocation is confirmed (\<open>contracts/credential-manager/src/lib.rs\<close>).
\<close>

definition get_credential_call :: "tx \<Rightarrow> bool" where
  "get_credential_call t = (map op_method (tx_ops t) = [''get_credential''])"

definition never_serves_revoked :: "env \<Rightarrow> bool" where
  "never_serves_revoked env = (\<forall>l t rv v r. get_credential_call t \<longrightarrow> e_simulate env l t = Inr (SimOk rv) \<longrightarrow>
     native_of env rv = Inr v \<longrightarrow> js_prop v ''revoked'' = Inr r \<longrightarrow> \<not> js_truthy r)"

lemma filter_result_none:
  "filter_result f xs = Inr ys \<Longrightarrow> list_all (\<lambda>x. f x \<noteq> Inr True) xs \<Longrightarrow> ys = []"
  by (induction xs arbitrary: ys) (auto simp: bind_result_Inr_iff)

lemma fetch_all_Inr:
  assumes "promise_all all" "fetch_all all get ids w = (Inr vs, w')" "v \<in> set vs"
  obtains h u u' where "get h u = (Inr v, u')"
proof -
  obtain hs w1 where hs: "all (map get hs) w1 = (Inr vs, w')"
    using assms(2,3) by (auto simp: fetch_all_def andThen_Inr_iff io_run split: if_splits)
  obtain i where i: "i < length vs" "v = vs ! i" using assms(3) by (metis in_set_conv_nth)
  from promise_all_Inr [OF assms(1) hs] i that show ?thesis by metis
qed

lemma by_issuer_member:
  assumes "promise_all all" "getCredentialsByIssuer env cl all caller issuer options w = (Inr vs, w')" "v \<in> set vs"
  obtains t l rv where "get_credential_call t" "e_simulate env l t = Inr (SimOk rv)" "native_of env rv = Inr v"
proof -
  obtain ids w1 where "fetch_all all (\<lambda>h. getCredential env cl caller h options) ids w1 = (Inr vs, w')"
    using assms(2) by (auto simp: getCredentialsByIssuer_def validating_Inr andThen_Inr_iff simp del: validating.simps)
  then obtain h u u' where "getCredential env cl caller h options u = (Inr v, u')"
    by (rule fetch_all_Inr [OF assms(1) _ assms(3)])
  then show ?thesis by (rule getCredential_at) (rule that, simp_all add: get_credential_call_def)
qed

text \<open>
  With the contract of this repository, whose \<open>get_credential\<close> refuses a revoked credential,
  \<open>getRevocationList\<close> never lists one: when it returns, however the reads interleave, it returns the empty list.
\<close>

theorem getRevocationList_always_empty:
  assumes "never_serves_revoked env" "promise_all all"
    and "getRevocationList env cl all caller issuer options w = (Inr ids, w')"
  shows "ids = []"
proof -
  obtain creds w1 where c: "getCredentialsByIssuer env cl all caller issuer options w = (Inr creds, w1)"
      "revoked_ids creds = Inr ids"
    using assms(3)
    by (auto simp: getRevocationList_def validating_Inr andThen_Inr_iff io_run simp del: validating.simps)
  have live: "\<not> js_truthy r" if "v \<in> set creds" "js_prop v ''revoked'' = Inr r" for v r
    using by_issuer_member [OF assms(2) c(1) that(1)] assms(1) that(2) unfolding never_serves_revoked_def by metis
  obtain ys where ys: "filter_result (\<lambda>cred. bind_result (js_prop cred ''revoked'') (\<lambda>r. Inr (js_truthy r))) creds = Inr ys"
      "map_result (\<lambda>cred. js_prop cred ''id'') ys = Inr ids"
    using c(2) by (auto simp: revoked_ids_def bind_result_Inr_iff)
  have "ys = []"
    by (rule filter_result_none [OF ys(1)]) (auto simp: list_all_iff bind_result_Inr_iff dest: live)
  with ys(2) show ?thesis by simp
qed

definition refuses_after_revocation :: "env \<Rightarrow> string \<Rightarrow> bool" where
  "refuses_after_revocation env err = (match_hash_code err = Some CREDENTIAL_REVOKED_CODE \<and>
     (\<forall>l t. get_credential_call t \<longrightarrow> (\<exists>i h. GetTransaction i h \<in> set l) \<longrightarrow>
        e_simulate env l t = Inr (SimError (Some err))))"

text \<open>
  With the contract of this repository, which refuses to return a credential once its revocation is
  confirmed, \<open>revokeCredential\<close> never returns: after the confirmed transaction it reads the credential.
\<close>

theorem revokeCredential_never_returns:
  assumes "refuses_after_revocation env err"
  shows "fst (revokeCredential env createdAt cl issuerKeypair credId reason options w) \<noteq> Inr r"
proof
  assume "fst (revokeCredential env createdAt cl issuerKeypair credId reason options w) = Inr r"
  then obtain w' where run: "revokeCredential env createdAt cl issuerKeypair credId reason options w = (Inr r, w')"
    by (metis prod.collapse)
  obtain meth args where m: "revoke_call env issuerKeypair (from_hex credId) reason = (meth, args)"
    by (cases "revoke_call env issuerKeypair (from_hex credId) reason")
  obtain as es h w1 where c: "w_log w1 = w_log w @ es" "confirmed_write env cl issuerKeypair options meth as h es"
    "andThen (\<lambda>w. (Inr (createdAt (w_log w) h), w)) (\<lambda>date. andThen (srv_getTransaction env h) (\<lambda>status.
        andThen (io_lift date) (\<lambda>revokedAt. andThen (getCredential env cl issuerKeypair credId options) (\<lambda>credential.
        io_return (spread (own_props credential) [(''revokedAt'', JStr revokedAt), (''status'', JStr ''revoked''),
          (''revocationReason'', reason)], h))))) w1 = (Inr r, w')"
    using run m unfolding revokeCredential_def by (auto elim: cred_submit_Inr)
  then obtain status w2 v w3 where g: "srv_getTransaction env h w1 = (Inr status, w2)"
      "getCredential env cl issuerKeypair credId options w2 = (Inr v, w3)"
    by (auto simp: andThen_Inr_iff io_run)
  obtain fs where fs: "w_log w2 = w_log w1 @ fs"
    using emitsD [OF emits_srv_getTransaction_no_send, of env h w1] g(1) by auto
  obtain t gs rv where t: "map op_method (tx_ops t) = [''get_credential'']"
      "e_simulate env (w_log w2 @ gs) t = Inr (SimOk rv)" "native_of env rv = Inr v"
    by (rule getCredential_at [OF g(2)])
  obtain i where "GetTransaction i h \<in> set (w_log w2 @ gs)"
    using c(1,2) fs unfolding confirmed_write_def by auto
  then have polled: "\<exists>i h. GetTransaction i h \<in> set (w_log w2 @ gs)" by blast
  have "get_credential_call t" using t(1) by (simp only: get_credential_call_def)
  then have "e_simulate env (w_log w2 @ gs) t = Inr (SimError (Some err))"
    using assms polled unfolding refuses_after_revocation_def by metis
  then show False using t(2) by simp
qed

section \<open>Calls that do not fit their builders\<close>

lemma scvals_throws: "Inl e \<in> set rs \<Longrightarrow> \<exists>e. scvals rs = Inl e"
  by (induction rs) (auto simp: scvals_def split: sum.split)

lemma validating_throws:
  assumes "\<And>w. \<exists>e. m w = (Inl e, w)"
  shows "\<exists>e. validating env as m w = (Inl e, w)"
  using validating_cases [of env as m w] assms by metis

lemma submitWrite_throws_any: "\<exists>e. args = Inl e \<Longrightarrow> \<exists>e. submitWrite env cl kp meth args opts w = (Inl e, w)"
  using submitWrite_throws by blast

text \<open>
  Five writes of the credential client always throw and send no request at all, whatever they are given:
  the objects they pass do not have the list or number the argument builder reads.
\<close>

theorem mismatched_writes_always_throw:
  "(\<exists>e. setFeedSchema env cl kp oracle feedId schema opts w = (Inl e, w)) \<and>
   (\<exists>e. setFallbackOracles env cl kp oracle fallbacks opts w = (Inl e, w)) \<and>
   (\<exists>e. requestOffchainData env cl kp oracle feedId payload opts w = (Inl e, w)) \<and>
   (\<exists>e. setSigners env cl kp issuer signers threshold opts w = (Inl e, w)) \<and>
   (\<exists>e. updateSigners env cl kp issuer signers threshold opts w = (Inl e, w))"
proof -
  have vec: "\<exists>e. scv_vec env hint JUndef = Inl e" "\<exists>e. scv_vec env hint (JObj m) = Inl e" for hint m
    by (simp_all add: scv_vec_def)
  have u64: "\<exists>e. encodeU64 env JUndef = Inl e" by (simp add: encodeU64_def)
  have a: "\<exists>e. buildSetFeedSchemaArgs env (JStr feedId) JUndef JUndef = Inl e"
    "\<exists>e. buildSetFallbackOraclesArgs env JUndef JUndef = Inl e"
    "\<exists>e. buildRequestOffchainDataArgs env (JStr kp) (JStr feedId) JUndef JUndef = Inl e"
    "\<exists>e. buildSetSignersArgs env JUndef (JObj signers) threshold = Inl e"
    "\<exists>e. buildUpdateSignersArgs env JUndef (JObj signers) JUndef threshold = Inl e"
    unfolding buildSetFeedSchemaArgs_def buildSetFallbackOraclesArgs_def buildRequestOffchainDataArgs_def
      buildSetSignersArgs_def buildUpdateSignersArgs_def
    using vec(1) vec(2) [where m = signers] u64 by (metis scvals_throws list.set_intros)+
  obtain e where r: "buildRequestOffchainDataArgs env (JStr kp) (JStr feedId) JUndef JUndef = Inl e" using a(3) ..
  show ?thesis
    unfolding setFeedSchema_def setFallbackOracles_def requestOffchainData_def setSigners_def updateSigners_def
    using a by (intro conjI validating_throws submitWrite_throws_any)
      (auto simp: andThen_def submitWriteWithResult_def io_run)
qed

section \<open>Revocation proofs\<close>

text \<open>
  \<open>verifyRevocationProof\<close> of a proof with numeric indices: it accepts exactly when the bit index is between 0
  and 255 and the claimed status is that bit of the word, so of the two claims about a bit exactly one is
  accepted; a bit index that is no integer in that range throws.
\<close>

theorem verifyRevocationProof_spec:
  assumes "rp_wordIndex p = JNum wi" "rp_bitIndex p = JNum q"
  shows "verifyRevocationProof (Some p) =
    (if q < 0 \<or> 255 < q then Inr False
     else if of_int \<lfloor>q\<rfloor> \<noteq> q then bind_result (to_bigint q) (\<lambda>_. Inr False)
     else Inr (bit (rp_word p) (nat \<lfloor>q\<rfloor>) = rp_revoked p)) \<and>
   (verifyRevocationProof (Some p) = Inr True \<longrightarrow> verifyRevocationProof (Some (p\<lparr>rp_revoked := \<not> rp_revoked p\<rparr>)) = Inr False)"
proof -
  have b: "(x div 2 ^ n) mod 2 = 1 \<longleftrightarrow> bit x n" for x :: int and n by (simp add: bit_iff_odd odd_iff_mod_2_eq_one)
  show ?thesis
    using assms by (auto simp: verifyRevocationProof_def is_number_def js_lt_def js_gt_def js_to_number_def js_bigint_def
        to_bigint_def js_is_integer_def b)
qed

section \<open>Batches\<close>

lemma collect_append:
  "length cs = length rs \<Longrightarrow>
    collect_results (cs @ cs') (rs @ rs') acc = collect_results cs' rs' (collect_results cs rs acc)"
  by (induction cs rs acc rule: collect_results.induct) auto

lemma collect_split:
  "length cs = length rs \<Longrightarrow>
    br_succeeded (collect_results cs rs acc) = br_succeeded acc @ concat (map (\<lambda>r. case r of Inr x \<Rightarrow> [x] | Inl e \<Rightarrow> []) rs) \<and>
    br_failed (collect_results cs rs acc) = br_failed acc @
      concat (map (\<lambda>(c, r). case r of Inl e \<Rightarrow> [(c, batch_error e)] | Inr x \<Rightarrow> []) (zip cs rs))"
  by (induction cs rs acc rule: collect_results.induct) auto

lemma batch_loop_run:
  assumes "0 < c" "\<And>cs w. length (fst (settle cs w)) = length cs"
  shows "\<exists>rs w'. length rs = length items - i \<and>
    batch_loop settle items c i acc w = Some (collect_results (drop i items) rs acc, w')"
proof (induction "length items - i" arbitrary: i acc w rule: less_induct)
  case less
  show ?case
  proof (cases "i < length items")
    case False
    then show ?thesis by (subst batch_loop.simps) (auto intro!: exI [of _ "[]"])
  next
    case True
    let ?chunk = "take c (drop i items)"
    obtain results w1 where r: "settle ?chunk w = (results, w1)" by (cases "settle ?chunk w")
    have len: "length results = length ?chunk" using assms(2) [of ?chunk w] r by simp
    obtain rs w' where rs: "length rs = length items - (i + c)"
      "batch_loop settle items c (i + c) (collect_results ?chunk results acc) w1
        = Some (collect_results (drop (i + c) items) rs (collect_results ?chunk results acc), w')"
      using less [of "i + c"] True assms(1) by (meson diff_less_mono2 less_add_same_cancel1)
    have "drop i items = ?chunk @ drop (i + c) items" by (metis append_take_drop_id drop_drop add.commute)
    then have "collect_results (drop i items) (results @ rs) acc
        = collect_results (drop (i + c) items) rs (collect_results ?chunk results acc)"
      using collect_append [of ?chunk results "drop (i + c) items" rs acc] len by simp
    moreover have "length (results @ rs) = length items - i" using len rs(1) by auto
    ultimately show ?thesis
      using rs(2) True r by (intro exI [of _ "results @ rs"] exI [of _ w']) (subst batch_loop.simps, simp)
  qed
qed

lemma batch_loop_stuck:
  "batch_loop settle items c i acc w = Some y \<Longrightarrow> \<not> (c = 0 \<and> i < length items)"
  by (rule batch_loop.raw_induct [where P = "\<lambda>settle items c i acc w y. \<not> (c = 0 \<and> i < length items)"])
    (fastforce split: if_splits prod.splits)+

text \<open>
  With a positive concurrency \<open>issueCredentialBatch\<close> returns, and reports every item exactly once, in order:
  there is one outcome per item, the successes are listed as succeeded and the items of the errors as failed.
\<close>

theorem issueCredentialBatch_reports_each_item:
  assumes "0 < opt_or concurrency 5" "\<And>cs w. length (fst (settle cs w)) = length cs"
  shows "\<exists>rs b w'. issueCredentialBatch settle items concurrency w = Some (b, w') \<and> length rs = length items \<and>
    br_succeeded b = concat (map (\<lambda>r. case r of Inr x \<Rightarrow> [x] | Inl e \<Rightarrow> []) rs) \<and>
    br_failed b = concat (map (\<lambda>(c, r). case r of Inl e \<Rightarrow> [(c, batch_error e)] | Inr x \<Rightarrow> []) (zip items rs)) \<and>
    length (br_succeeded b) + length (br_failed b) = length items \<and> subseq (map fst (br_failed b)) items"
proof -
  obtain rs w' where rs: "length rs = length items" "issueCredentialBatch settle items concurrency w
      = Some (collect_results items rs \<lparr>br_succeeded = [], br_failed = []\<rparr>, w')"
    using batch_loop_run [where settle = settle, OF assms, of items 0 "\<lparr>br_succeeded = [], br_failed = []\<rparr>" w] by (auto simp: issueCredentialBatch_def)
  let ?ok = "concat (map (\<lambda>r. case r of Inr x \<Rightarrow> [x] | Inl e \<Rightarrow> []) rs)"
  let ?bad = "\<lambda>xs ys. concat (map (\<lambda>(c :: CredentialInput, r). case r of Inl e \<Rightarrow> [(c, batch_error e)] | Inr x \<Rightarrow> []) (zip xs ys))"
  have "length (concat (map (\<lambda>r. case r of Inr x \<Rightarrow> [x] | Inl e \<Rightarrow> []) ys)) + length (?bad xs ys) = length xs \<and>
      subseq (map fst (?bad xs ys)) xs" if "length ys = length xs" for xs and ys :: "(thrown + issue_result) list"
    using that by (induction ys xs rule: list_induct2) (auto split: sum.splits)
  from this [OF rs(1)] rs collect_split [OF rs(1) [symmetric], of "\<lparr>br_succeeded = [], br_failed = []\<rparr>"]
  show ?thesis by (intro exI [of _ rs] exI [of _ "collect_results items rs \<lparr>br_succeeded = [], br_failed = []\<rparr>"] exI [of _ w']) simp
qed

text \<open>
  C9. \<open>issueCredentialBatch\<close> returns if and only if the concurrency is positive or there is nothing to issue: with
  concurrency 0 the index never advances.
\<close>

theorem issueCredentialBatch_terminates_iff:
  assumes "\<And>cs w. length (fst (settle cs w)) = length cs"
  shows "(\<exists>b w'. issueCredentialBatch settle items concurrency w = Some (b, w')) \<longleftrightarrow>
    0 < opt_or concurrency 5 \<or> items = []"
proof -
  have "batch_loop settle items c 0 acc w = Some (acc, w)" if "items = []" for c acc w
    using that by (subst batch_loop.simps) simp
  moreover have "\<exists>b w'. batch_loop settle items c 0 acc w = Some (b, w')" if "0 < c" for c acc w
    using batch_loop_run [where settle = settle, OF that assms, of items 0] by blast
  ultimately show ?thesis
    using batch_loop_stuck [where i = 0 and items = items and settle = settle and c = "opt_or concurrency 5"]
    unfolding issueCredentialBatch_def by (metis length_greater_0_conv neq0_conv)
qed

section \<open>Witnesses\<close>

lemma credential_reads_send_nothing_witness:
  "emits is_read (getRevocationList kind_env demo_client one_by_one alice alice no_options)"
  using credential_reads_send_nothing [OF promise_all_one_by_one promise_all_one_by_one] by blast

text \<open>An environment whose contract returns three bytes; the signature is the text it signs.\<close>

definition issuing_env :: env where
  "issuing_env = kind_env\<lparr>e_getTransaction := (\<lambda>l h. Inr (TxSuccess (Some (RPlain (JBytes [1, 2, 255])))))\<rparr>"

definition demo_services :: services where
  "demo_services = \<lparr>sv_schema = \<lparr>ss_ajv = False, ss_fetch = (\<lambda>s. Inl DisposedThrown), ss_compile = (\<lambda>v. None),
     ss_validate = (\<lambda>v c. None)\<rparr>, sv_sha256 = (\<lambda>bs. take 32 (bs @ replicate 32 0)), sv_sign = (\<lambda>k bs. bs)\<rparr>"

definition demo_input :: CredentialInput where
  "demo_input = \<lparr>ci_issuer = alice, ci_subject = alice, ci_credentialType = ''Kyc'', ci_claims = [(''country'', ''NG'')],
     ci_claimsHashHex = replicate 64 (CHR ''A''), ci_expiresAt = 0,
     ci_options = \<lparr>io_call = no_options, io_nonce = None, io_schemaId = None\<rparr>, ci_signatureHex = None\<rparr>"

lemma issueCredential_confirmed_witness:
  "\<exists>as w'. issueCredential issuing_env demo_services None (\<lambda>l. False) demo_client demo_input fresh_world
      = (Inr \<lparr>ir_credentialId = ''0102ff'', ir_estimatedFee = Some 101, ir_estimatedFeeXlm = ''0.0000101'',
           ir_txHash = ''ab''\<rparr>, w') \<and>
    confirmed_write issuing_env demo_client alice no_options ''issue_credential'' as ''ab'' (w_log w') \<and>
    as ! 4 = Native (JBytes (replicate 32 170)) ''bytes''"
proof -
  let ?r = "\<lparr>ir_credentialId = ''0102ff'', ir_estimatedFee = Some 101, ir_estimatedFeeXlm = ''0.0000101'', ir_txHash = ''ab''\<rparr>"
  have "fst (issueCredential issuing_env demo_services None (\<lambda>l. False) demo_client demo_input fresh_world) = Inr ?r"
    by code_simp
  then obtain w' where run: "issueCredential issuing_env demo_services None (\<lambda>l. False) demo_client demo_input fresh_world
      = (Inr ?r, w')" by (metis prod.collapse)
  have bytes: "from_hex (ci_claimsHashHex demo_input) = replicate 32 170" by code_simp
  have ci: "ci_issuer demo_input = alice" "io_call (ci_options demo_input) = no_options" by (simp_all add: demo_input_def)
  from issueCredential_confirmed [OF run] run show ?thesis by (auto simp: bytes ci fresh_world_def)
qed

lemma verifyCredential_verdict_witness:
  "\<exists>w'. verifyCredential kind_env demo_client (\<lambda>l. 0) alice ''00ff'' no_options fresh_world = (Inr Valid, w') \<and>
    (\<exists>t. verdict_basis kind_env t Valid)"
proof -
  have "fst (verifyCredential kind_env demo_client (\<lambda>l. 0) alice ''00ff'' no_options fresh_world) = Inr Valid"
    by code_simp
  then obtain w' where run: "verifyCredential kind_env demo_client (\<lambda>l. 0) alice ''00ff'' no_options fresh_world
      = (Inr Valid, w')" by (metis prod.collapse)
  from verifyCredential_verdict [OF run] run show ?thesis by blast
qed

text \<open>
  A contract with one credential, served until the first confirmation of a transaction and refused after it.
\<close>

definition confirmed_before :: "effect list \<Rightarrow> bool" where
  "confirmed_before l = list_ex (\<lambda>e. case e of GetTransaction i h \<Rightarrow> True | _ \<Rightarrow> False) l"

definition one_credential_env :: env where
  "one_credential_env = kind_env\<lparr>e_simulate := (\<lambda>l t.
     if map op_method (tx_ops t) = [''get_credential''] then
       (if confirmed_before l then Inr (SimError (Some ''HostError: Error(Contract, #4)''))
        else Inr (SimOk (Some (RPlain (JObj [(''id'', JStr ''c1''), (''revoked'', JBool False)])))))
     else Inr (SimOk (Some (RPlain (JArr [JBytes [1]])))))\<rparr>"

lemma getRevocationList_always_empty_witness:
  "\<exists>w'. getRevocationList one_credential_env demo_client one_by_one alice alice no_options fresh_world = (Inr [], w')"
proof -
  let ?run = "getRevocationList one_credential_env demo_client one_by_one alice alice no_options fresh_world"
  have native: "native_of one_credential_env (Some (RPlain v)) = Inr v" for v
    by (simp add: native_of_def one_credential_env_def kind_env_def demo_env_def)
  have "never_serves_revoked one_credential_env"
    unfolding never_serves_revoked_def
  proof (intro allI impI)
    fix l t rv v r
    assume "get_credential_call t" "e_simulate one_credential_env l t = Inr (SimOk rv)"
      and v: "native_of one_credential_env rv = Inr v" and r: "js_prop v ''revoked'' = Inr r"
    then have "rv = Some (RPlain (JObj [(''id'', JStr ''c1''), (''revoked'', JBool False)]))"
      by (auto simp: one_credential_env_def get_credential_call_def split: if_splits)
    with v r show "\<not> js_truthy r" by (auto simp: native)
  qed
  moreover have "case fst ?run of Inr ids \<Rightarrow> True | Inl e \<Rightarrow> False" by code_simp
  then obtain ids w' where run: "?run = (Inr ids, w')" by (cases ?run) (auto split: sum.splits)
  ultimately have "ids = []" by (rule getRevocationList_always_empty [OF _ promise_all_one_by_one])
  with run show ?thesis by blast
qed

lemma revokeCredential_never_returns_witness:
  "\<exists>e w'. revokeCredential one_credential_env (\<lambda>l h. Inr ''2024-01-01'') demo_client alice ''00ff'' JUndef no_options
      fresh_world = (Inl e, w') \<and> sends (w_log w') \<noteq> []"
proof -
  let ?run = "revokeCredential one_credential_env (\<lambda>l h. Inr ''2024-01-01'') demo_client alice ''00ff'' JUndef no_options fresh_world"
  have m: "match_hash_code ''HostError: Error(Contract, #4)'' = Some CREDENTIAL_REVOKED_CODE" by code_simp
  have seen: "(\<exists>i h. GetTransaction i h \<in> set l) \<Longrightarrow> confirmed_before l" for l
    unfolding confirmed_before_def list_ex_iff by force
  have "refuses_after_revocation one_credential_env ''HostError: Error(Contract, #4)''"
    unfolding refuses_after_revocation_def
    by (simp only: m, intro conjI refl allI impI)
      (simp add: one_credential_env_def get_credential_call_def seen)
  from revokeCredential_never_returns [OF this] have no: "fst ?run \<noteq> Inr r" for r by blast
  then obtain e w' where "?run = (Inl e, w')" by (cases ?run; cases "fst ?run") auto
  moreover have "sends (w_log (snd ?run)) \<noteq> []" by code_simp
  ultimately show ?thesis by auto
qed

lemma verifyRevocationProof_spec_witness:
  "verifyRevocationProof (Some \<lparr>rp_credentialId = ''c'', rp_wordIndex = JNum 0, rp_bitIndex = JNum 3, rp_word = 8,
      rp_revoked = True\<rparr>) = Inr True"
  by (subst verifyRevocationProof_spec [where wi = 0 and q = 3, THEN conjunct1]) (simp_all add: bit_iff_odd)

lemma issueCredentialBatch_reports_each_item_witness:
  "\<exists>b w'. issueCredentialBatch (\<lambda>cs w. (map (\<lambda>c. Inl DisposedThrown) cs, w)) [demo_input, demo_input, demo_input] (Some 2)
      fresh_world = Some (b, w') \<and> length (br_succeeded b) + length (br_failed b) = 3"
proof -
  let ?s = "\<lambda>cs (w :: world). (map (\<lambda>c. Inl DisposedThrown) cs :: (thrown + issue_result) list, w)"
  have "0 < opt_or (Some 2) (5 :: nat)" by simp
  from issueCredentialBatch_reports_each_item [where settle = ?s, OF this,
      of "[demo_input, demo_input, demo_input]" fresh_world]
  show ?thesis by auto
qed

lemma issueCredentialBatch_terminates_iff_witness:
  "issueCredentialBatch (\<lambda>cs w. (map (\<lambda>c. Inl DisposedThrown) cs, w)) [demo_input] (Some 0) fresh_world = None"
proof -
  let ?s = "\<lambda>cs (w :: world). (map (\<lambda>c. Inl DisposedThrown) cs :: (thrown + issue_result) list, w)"
  have "\<not> (\<exists>b w'. issueCredentialBatch ?s [demo_input] (Some 0) fresh_world = Some (b, w'))"
    using issueCredentialBatch_terminates_iff [where settle = ?s, of "[demo_input]" "Some 0" fresh_world] by simp
  then show ?thesis by (metis not_None_eq prod.collapse)
qed

end
