(* ===== verification/RateLimit.thy ===== *)
theory RateLimit
  imports JsValue
begin

text \<open>
  Models \<open>sdk/src/server/rate-limit.ts\<close>: the token-bucket limiter and its middleware. Numbers are rationals: the
  rounding of floating-point arithmetic is not modelled. Limits and windows are positive in the theorems; a
  window of 0 divides by zero in the code.

  The specification is a bucket that fills continuously: \<open>level\<close> is what a bucket would hold if it were refilled
  at that moment. Lazy refill and the eviction of stale buckets do not show in it, as long as all windows are the
  same; with an override of a shorter window, a call of that key evicts the buckets of the others.
\<close>

section \<open>State\<close>

datatype rate_class = Read | Write

fun class_name :: "rate_class \<Rightarrow> string" where
  "class_name Read = ''read''"
| "class_name Write = ''write''"

record rl_config =
  rl_limit :: rat
  rl_windowMs :: rat

datatype tier = Free | Pro | Enterprise

definition TIER_LIMITS :: "tier \<Rightarrow> rate_class \<Rightarrow> rl_config" where
  "TIER_LIMITS t c = \<lparr>rl_limit = (case (t, c) of
       (Free, Read) \<Rightarrow> 60 | (Free, Write) \<Rightarrow> 20
     | (Pro, Read) \<Rightarrow> 300 | (Pro, Write) \<Rightarrow> 100
     | (Enterprise, Read) \<Rightarrow> 1200 | (Enterprise, Write) \<Rightarrow> 500), rl_windowMs = 60000\<rparr>"

record bucket =
  b_tokens :: rat
  b_lastRefillAt :: rat
  b_config :: rl_config

record limiter =
  l_buckets :: "(string, bucket) jsmap"
  l_overrides :: "(string, (rate_class, rl_config) jsmap) jsmap"
  l_read :: rl_config
  l_write :: rl_config

text \<open>\<open>{ ...RATE_LIMIT_DEFAULTS.read, ...options.read }\<close>, each field optional.\<close>

definition merge_config :: "rl_config \<Rightarrow> rat option \<Rightarrow> rat option \<Rightarrow> rl_config" where
  "merge_config d lmt win = \<lparr>rl_limit = (case lmt of Some l \<Rightarrow> l | None \<Rightarrow> rl_limit d),
     rl_windowMs = (case win of Some w \<Rightarrow> w | None \<Rightarrow> rl_windowMs d)\<rparr>"

definition new_limiter :: "(string, (rate_class, rl_config) jsmap) jsmap \<Rightarrow> rat option \<times> rat option \<Rightarrow>
    rat option \<times> rat option \<Rightarrow> limiter" where
  "new_limiter overrides r w = \<lparr>l_buckets = [], l_overrides = overrides,
     l_read = merge_config (TIER_LIMITS Free Read) (fst r) (snd r),
     l_write = merge_config (TIER_LIMITS Free Write) (fst w) (snd w)\<rparr>"

section \<open>Operations\<close>

definition resolveConfig :: "limiter \<Rightarrow> string \<Rightarrow> rate_class \<Rightarrow> rl_config" where
  "resolveConfig s key c = (case (case jm_get (l_overrides s) key of Some m \<Rightarrow> jm_get m c | None \<Rightarrow> None) of
     Some override \<Rightarrow> override
   | None \<Rightarrow> (if c = Read then l_read s else l_write s))"

definition bucket_key :: "string \<Rightarrow> rate_class \<Rightarrow> string" where
  "bucket_key key c = key @ '':'' @ class_name c"

definition refill_bucket :: "rl_config \<Rightarrow> rat \<Rightarrow> bucket \<Rightarrow> bucket" where
  "refill_bucket cfg now b = (let elapsed = max 0 (now - b_lastRefillAt b) in
     if elapsed > 0 then
       \<lparr>b_tokens = min (rl_limit cfg) (b_tokens b + elapsed / rl_windowMs cfg * rl_limit cfg),
        b_lastRefillAt = now, b_config = cfg\<rparr>
     else b)"

definition evictStale :: "rat \<Rightarrow> rat \<Rightarrow> (string, bucket) jsmap \<Rightarrow> (string, bucket) jsmap" where
  "evictStale now windowMs m = filter (\<lambda>(k, b). \<not> (now - b_lastRefillAt b > windowMs)) m"

record rl_result =
  r_allowed :: bool
  r_limit :: rat
  r_remaining :: int
  r_resetAt :: int
  r_retryAfterMs :: int

definition consume :: "string \<Rightarrow> rate_class \<Rightarrow> rat \<Rightarrow> limiter \<Rightarrow> rl_result \<times> limiter" where
  "consume key c now s = (let
     cfg = resolveConfig s key c;
     bk = bucket_key key c;
     b0 = (case jm_get (l_buckets s) bk of Some b \<Rightarrow> b
           | None \<Rightarrow> \<lparr>b_tokens = rl_limit cfg, b_lastRefillAt = now, b_config = cfg\<rparr>);
     b1 = refill_bucket cfg now b0;
     allowed = (b_tokens b1 \<ge> 1);
     b2 = (if allowed then b1\<lparr>b_tokens := b_tokens b1 - 1\<rparr> else b1);
     m = evictStale now (rl_windowMs cfg) (jm_set bk b2 (l_buckets s));
     msPerToken = rl_windowMs cfg / rl_limit cfg;
     tokensNeeded = max 0 (1 - b_tokens b2);
     wait = (if tokensNeeded > 0 then max 1 \<lceil>tokensNeeded * msPerToken\<rceil> else 0)
   in (\<lparr>r_allowed = allowed, r_limit = rl_limit cfg, r_remaining = max 0 \<lfloor>b_tokens b2\<rfloor>,
        r_resetAt = \<lceil>(now + of_int wait) / 1000\<rceil>, r_retryAfterMs = (if allowed then 0 else wait)\<rparr>,
       s\<lparr>l_buckets := m\<rparr>))"

section \<open>The middleware\<close>

text \<open>
  A request as the default functions see it: the API key, with its tier when it carries one, the remote address
  and the method. \<open>keyFn\<close>, \<open>classify\<close> and \<open>deriveTier\<close> are arguments, as the options are.
\<close>

record rl_request =
  q_apiKeyId :: "string option"
  q_tier :: "tier option"
  q_ip :: "string option"
  q_method :: "string option"

definition defaultKey :: "rl_request \<Rightarrow> string" where
  "defaultKey req = (case q_apiKeyId req of Some i \<Rightarrow> i
     | None \<Rightarrow> ''ip:'' @ (case q_ip req of Some i \<Rightarrow> i | None \<Rightarrow> ''unknown''))"

definition defaultClassify :: "rl_request \<Rightarrow> string \<Rightarrow> rate_class" where
  "defaultClassify req meth = (if to_upper meth \<in> set [''GET'', ''HEAD'', ''OPTIONS''] then Read else Write)"

definition defaultDeriveTier :: "rl_request \<Rightarrow> tier" where
  "defaultDeriveTier req = (case q_tier req of Some t \<Rightarrow> t | None \<Rightarrow> Free)"

fun tier_name :: "tier \<Rightarrow> string" where
  "tier_name Free = ''free''"
| "tier_name Pro = ''pro''"
| "tier_name Enterprise = ''enterprise''"

text \<open>What the handler does with the response: headers in order, then \<open>next()\<close> or a status and a body.\<close>

datatype handled = NextCalled | Responded nat jv

definition upgrade_url :: string where
  "upgrade_url = ''https://soroban-identity.org/pricing''"

definition rate_limit_body :: "tier \<Rightarrow> rl_result \<Rightarrow> jv" where
  "rate_limit_body t r = JObj [(''error'', JObj [(''code'', JStr ''RATE_LIMITED''),
     (''message'', JStr ''rate limit exceeded''),
     (''details'', JObj ([(''tier'', JStr (tier_name t)), (''limit'', JNum (r_limit r)),
        (''resetAt'', JNum (of_int (r_resetAt r))), (''retryAfterMs'', JNum (of_int (r_retryAfterMs r)))]
       @ (if t = Free then [(''upgrade'', JObj [(''message'',
            JStr ''Upgrade to Pro (300 req/min) or Enterprise (1200 req/min) for increased rate limits.''),
            (''url'', JStr upgrade_url)])] else [])))])]"

definition rateLimit :: "(rl_request \<Rightarrow> string) \<Rightarrow> (rl_request \<Rightarrow> string \<Rightarrow> rate_class) \<Rightarrow> (rl_request \<Rightarrow> tier) \<Rightarrow>
    rat \<Rightarrow> rl_request \<Rightarrow> limiter \<Rightarrow> (string \<times> jv) list \<times> handled \<times> limiter" where
  "rateLimit keyFn classifyFn deriveTierFn now req s =
     (let t = deriveTierFn req;
          key = keyFn req;
          c = classifyFn req (case q_method req of Some m \<Rightarrow> m | None \<Rightarrow> ''GET'')
      in case consume key c now s of (r, s') \<Rightarrow>
        (let headers = [(''X-RateLimit-Tier'', JStr (tier_name t)), (''X-RateLimit-Limit'', JNum (r_limit r)),
             (''X-RateLimit-Remaining'', JNum (of_int (r_remaining r))),
             (''X-RateLimit-Reset'', JNum (of_int (r_resetAt r)))]
         in if \<not> r_allowed r then
              (headers @ [(''Retry-After'', JNum (of_int \<lceil>of_int (r_retryAfterMs r) / (1000 :: rat)\<rceil>))]
                 @ (if t = Free then [(''X-Upgrade-Available'',
                      JStr (''Upgrade to Pro/Enterprise for higher limits: '' @ upgrade_url))] else []),
               Responded 429 (rate_limit_body t r), s')
            else (headers, NextCalled, s')))"

section \<open>The specification: buckets that fill continuously\<close>

text \<open>The level of a bucket at a time: full if there is none.\<close>

definition level_of :: "rl_config \<Rightarrow> rat \<Rightarrow> bucket option \<Rightarrow> rat" where
  "level_of cfg now b = (case b of None \<Rightarrow> rl_limit cfg
     | Some b \<Rightarrow> min (rl_limit cfg) (b_tokens b + (now - b_lastRefillAt b) / rl_windowMs cfg * rl_limit cfg))"

definition level :: "limiter \<Rightarrow> rat \<Rightarrow> string \<times> rate_class \<Rightarrow> rat" where
  "level s now = (\<lambda>(key, c). level_of (resolveConfig s key c) now (jm_get (l_buckets s) (bucket_key key c)))"

definition advance :: "limiter \<Rightarrow> rat \<Rightarrow> (string \<times> rate_class \<Rightarrow> rat) \<Rightarrow> string \<times> rate_class \<Rightarrow> rat" where
  "advance s dt lv = (\<lambda>(key, c). let cfg = resolveConfig s key c in
     min (rl_limit cfg) (lv (key, c) + dt / rl_windowMs cfg * rl_limit cfg))"

definition take_token :: "string \<times> rate_class \<Rightarrow> (string \<times> rate_class \<Rightarrow> rat) \<Rightarrow> string \<times> rate_class \<Rightarrow> rat" where
  "take_token k lv = (if lv k \<ge> 1 then lv(k := lv k - 1) else lv)"

text \<open>
  The invariant at a time: positive limits, the same positive window everywhere, and buckets that hold between
  nothing and their limit and were refilled in the past.
\<close>

definition rl_configs :: "limiter \<Rightarrow> rat \<Rightarrow> bool" where
  "rl_configs s W = (0 < W \<and> (\<forall>key c. rl_windowMs (resolveConfig s key c) = W \<and> 0 < rl_limit (resolveConfig s key c)))"

definition rl_inv :: "rat \<Rightarrow> rat \<Rightarrow> limiter \<Rightarrow> bool" where
  "rl_inv W now s = (rl_configs s W \<and> jm_wf (l_buckets s) \<and>
     (\<forall>key c b. jm_get (l_buckets s) (bucket_key key c) = Some b \<longrightarrow>
        0 \<le> b_tokens b \<and> b_tokens b \<le> rl_limit (resolveConfig s key c) \<and> b_lastRefillAt b \<le> now))"

section \<open>Lemmas\<close>

lemma bucket_key_inject [simp]: "bucket_key k c = bucket_key k' c' \<longleftrightarrow> k = k' \<and> c = c'"
proof
  assume eq: "bucket_key k c = bucket_key k' c'"
  then have "last (bucket_key k c) = last (bucket_key k' c')" by simp
  then have "c = c'" by (cases c; cases c') (simp_all add: bucket_key_def)
  with eq show "k = k' \<and> c = c'" by (simp add: bucket_key_def)
qed simp

lemma resolveConfig_buckets [simp]: "resolveConfig (s\<lparr>l_buckets := m\<rparr>) = resolveConfig s"
  by (intro ext) (simp add: resolveConfig_def split: option.split)

lemma rl_configs_buckets [simp]: "rl_configs (s\<lparr>l_buckets := m\<rparr>) W = rl_configs s W"
  by (simp add: rl_configs_def)

lemma rl_configsD:
  "rl_configs s W \<Longrightarrow> 0 < W \<and> rl_windowMs (resolveConfig s key c) = W \<and> 0 < rl_limit (resolveConfig s key c)"
  by (simp add: rl_configs_def)

text \<open>One bucket: refilling it, at a time that does not go back, brings it to its level.\<close>

lemma refill_level:
  assumes "0 < rl_windowMs cfg" "0 < rl_limit cfg" "b_lastRefillAt b \<le> now" "b_tokens b \<le> rl_limit cfg"
  shows "b_tokens (refill_bucket cfg now b) = level_of cfg now (Some b)"
  using assms by (auto simp: refill_bucket_def level_of_def Let_def max_def)

lemma refill_last: "b_lastRefillAt b \<le> now \<Longrightarrow> b_lastRefillAt (refill_bucket cfg now b) = now"
  by (auto simp: refill_bucket_def Let_def max_def)

lemma level_bounds:
  assumes "0 < rl_windowMs cfg" "0 < rl_limit cfg" "b_lastRefillAt b \<le> now" "0 \<le> b_tokens b"
  shows "0 \<le> level_of cfg now (Some b)" "level_of cfg now (Some b) \<le> rl_limit cfg"
  using assms by (auto simp: level_of_def)

text \<open>A bucket evicted as stale was full again.\<close>

lemma stale_full:
  assumes "0 < rl_windowMs cfg" "0 < rl_limit cfg" "0 \<le> b_tokens b" "now - b_lastRefillAt b > rl_windowMs cfg"
  shows "level_of cfg now (Some b) = rl_limit cfg"
proof -
  have "1 * rl_limit cfg \<le> (now - b_lastRefillAt b) / rl_windowMs cfg * rl_limit cfg"
    by (rule mult_right_mono) (use assms in \<open>simp_all add: pos_le_divide_eq\<close>)
  then show ?thesis using assms by (simp add: level_of_def min_def)
qed

text \<open>Waiting: the level of an unchanged bucket advances with the time.\<close>

lemma level_of_advance:
  assumes "0 < rl_windowMs cfg" "0 < rl_limit cfg" "t \<le> t'" "\<And>b. ob = Some b \<Longrightarrow> b_tokens b \<le> rl_limit cfg \<and> b_lastRefillAt b \<le> t"
  shows "level_of cfg t' ob = min (rl_limit cfg) (level_of cfg t ob + (t' - t) / rl_windowMs cfg * rl_limit cfg)"
proof -
  have nn: "0 \<le> (t' - t) / rl_windowMs cfg * rl_limit cfg" using assms(1-3) by simp
  show ?thesis
  proof (cases ob)
    case None
    then show ?thesis using nn by (simp add: level_of_def min_def)
  next
    case (Some b)
    have "(t' - b_lastRefillAt b) / rl_windowMs cfg * rl_limit cfg
        = (t - b_lastRefillAt b) / rl_windowMs cfg * rl_limit cfg + (t' - t) / rl_windowMs cfg * rl_limit cfg"
      using assms(1) by (simp add: field_simps)
    then show ?thesis using Some nn by (auto simp: level_of_def min_def)
  qed
qed

lemma rl_inv_bucket:
  "rl_inv W now s \<Longrightarrow> jm_get (l_buckets s) (bucket_key key c) = Some b \<Longrightarrow>
    0 \<le> b_tokens b \<and> b_tokens b \<le> rl_limit (resolveConfig s key c) \<and> b_lastRefillAt b \<le> now"
  unfolding rl_inv_def by blast

lemma rl_inv_later: "rl_inv W t s \<Longrightarrow> t \<le> t' \<Longrightarrow> rl_inv W t' s"
  unfolding rl_inv_def by (meson order_trans)

lemma level_advance:
  assumes "rl_inv W t s" "t \<le> t'"
  shows "advance s (t' - t) (level s t) = level s t'"
proof (rule ext, clarify)
  fix key c
  have "0 < rl_windowMs (resolveConfig s key c)" "0 < rl_limit (resolveConfig s key c)"
    using assms(1) by (auto simp: rl_inv_def rl_configs_def)
  then show "advance s (t' - t) (level s t) (key, c) = level s t' (key, c)"
    using level_of_advance [OF _ _ assms(2), of "resolveConfig s key c" "jm_get (l_buckets s) (bucket_key key c)"]
      rl_inv_bucket [OF assms(1)]
    by (auto simp: advance_def level_def Let_def)
qed

text \<open>The bucket a call leaves, before the eviction.\<close>

definition spent :: "limiter \<Rightarrow> string \<Rightarrow> rate_class \<Rightarrow> rat \<Rightarrow> bucket" where
  "spent s key c now = (let cfg = resolveConfig s key c;
     b1 = refill_bucket cfg now (case jm_get (l_buckets s) (bucket_key key c) of Some b \<Rightarrow> b
           | None \<Rightarrow> \<lparr>b_tokens = rl_limit cfg, b_lastRefillAt = now, b_config = cfg\<rparr>)
   in if b_tokens b1 \<ge> 1 then b1\<lparr>b_tokens := b_tokens b1 - 1\<rparr> else b1)"

lemma spent_level:
  assumes "rl_inv W now s"
  shows "b_tokens (spent s key c now) = (if level s now (key, c) \<ge> 1 then level s now (key, c) - 1 else level s now (key, c))"
    and "b_lastRefillAt (spent s key c now) = now"
proof -
  let ?cfg = "resolveConfig s key c"
  let ?b0 = "case jm_get (l_buckets s) (bucket_key key c) of Some b \<Rightarrow> b
    | None \<Rightarrow> \<lparr>b_tokens = rl_limit ?cfg, b_lastRefillAt = now, b_config = ?cfg\<rparr>"
  have pos: "0 < rl_windowMs ?cfg" "0 < rl_limit ?cfg" using assms by (auto simp: rl_inv_def rl_configs_def)
  have b0: "b_lastRefillAt ?b0 \<le> now" "b_tokens ?b0 \<le> rl_limit ?cfg"
    using rl_inv_bucket [OF assms] by (auto split: option.split)
  have "level_of ?cfg now (Some ?b0) = level s now (key, c)"
    by (auto simp: level_def level_of_def split: option.split)
  then have t: "b_tokens (refill_bucket ?cfg now ?b0) = level s now (key, c)"
    using refill_level [OF pos b0] by simp
  show "b_tokens (spent s key c now) = (if level s now (key, c) \<ge> 1 then level s now (key, c) - 1 else level s now (key, c))"
    unfolding spent_def Let_def t by (simp add: t)
  show "b_lastRefillAt (spent s key c now) = now"
    unfolding spent_def Let_def by (simp add: refill_last [OF b0(1)])
qed

lemma consume_spent:
  "snd (consume key c now s) = s\<lparr>l_buckets := evictStale now (rl_windowMs (resolveConfig s key c))
      (jm_set (bucket_key key c) (spent s key c now) (l_buckets s))\<rparr>"
  by (simp add: consume_def spent_def Let_def)

lemma level_in_range:
  assumes "rl_inv W now s"
  shows "0 \<le> level s now (key, c)" "level s now (key, c) \<le> rl_limit (resolveConfig s key c)"
proof -
  have pos: "0 < rl_windowMs (resolveConfig s key c)" "0 < rl_limit (resolveConfig s key c)"
    using assms by (auto simp: rl_inv_def rl_configs_def)
  show "0 \<le> level s now (key, c)" "level s now (key, c) \<le> rl_limit (resolveConfig s key c)"
    using rl_inv_bucket [OF assms, of key c] level_bounds [OF pos] pos
    by (cases "jm_get (l_buckets s) (bucket_key key c)"; auto simp: level_def; simp add: level_of_def)+
qed

lemma consume_inv:
  assumes "rl_inv W now s"
  shows "rl_inv W now (snd (consume key c now s))"
proof -
  have wf: "jm_wf (jm_set (bucket_key key c) (spent s key c now) (l_buckets s))"
    using assms by (simp add: rl_inv_def)
  have range: "0 \<le> b_tokens (spent s key c now)" "b_tokens (spent s key c now) \<le> rl_limit (resolveConfig s key c)"
    using spent_level(1) [OF assms] level_in_range [OF assms, of key c] by auto
  show ?thesis
    unfolding rl_inv_def consume_spent evictStale_def
    using assms range spent_level(2) [OF assms] rl_inv_bucket [OF assms]
    by (auto simp: jm_wf_filter [OF wf] jm_get_filter [OF wf] rl_inv_def split: option.splits if_splits)
qed

lemma consume_level:
  assumes "rl_inv W now s"
  shows "level (snd (consume key c now s)) now = take_token (key, c) (level s now)"
proof (rule ext, clarify)
  fix key' c'
  let ?cfg = "resolveConfig s key c" and ?cfg' = "resolveConfig s key' c'"
  let ?m = "jm_set (bucket_key key c) (spent s key c now) (l_buckets s)"
  have wf: "jm_wf ?m" using assms by (simp add: rl_inv_def)
  have pos: "0 < rl_windowMs ?cfg'" "0 < rl_limit ?cfg'" and W: "rl_windowMs ?cfg = rl_windowMs ?cfg'"
    using assms by (auto simp: rl_inv_def rl_configs_def)
  have nonneg: "0 \<le> b_tokens b" if "jm_get ?m (bucket_key key' c') = Some b" for b
    using that rl_inv_bucket [OF assms, of key' c'] spent_level(1) [OF assms, of key c] level_in_range [OF assms, of key c]
    by (auto split: if_splits)
  have "level_of ?cfg' now (jm_get (evictStale now (rl_windowMs ?cfg) ?m) (bucket_key key' c'))
      = level_of ?cfg' now (jm_get ?m (bucket_key key' c'))"
  proof (cases "jm_get ?m (bucket_key key' c')")
    case (Some b)
    show ?thesis
    proof (cases "now - b_lastRefillAt b > rl_windowMs ?cfg")
      case True
      then have "level_of ?cfg' now (Some b) = rl_limit ?cfg'"
        using stale_full [OF pos nonneg [OF Some]] W by simp
      then show ?thesis
        using True Some by (simp add: evictStale_def jm_get_filter [OF wf] level_of_def)
    qed (use Some in \<open>simp add: evictStale_def jm_get_filter [OF wf]\<close>)
  qed (simp add: evictStale_def jm_get_filter [OF wf])
  then have "level (snd (consume key c now s)) now (key', c') = level_of ?cfg' now (jm_get ?m (bucket_key key' c'))"
    unfolding consume_spent level_def by simp
  moreover have "level_of ?cfg now (Some (spent s key c now)) = b_tokens (spent s key c now)"
    using spent_level [OF assms, of key c] level_in_range [OF assms, of key c] by (auto simp: level_of_def min_def)
  ultimately show "level (snd (consume key c now s)) now (key', c') = take_token (key, c) (level s now) (key', c')"
    using spent_level(1) [OF assms, of key c]
    by (auto simp: take_token_def level_def)
qed

lemma consume_result:
  assumes "rl_inv W now s"
  shows "r_allowed (fst (consume key c now s)) \<longleftrightarrow> level s now (key, c) \<ge> 1"
    and "r_limit (fst (consume key c now s)) = rl_limit (resolveConfig s key c)"
    and "r_remaining (fst (consume key c now s)) = \<lfloor>take_token (key, c) (level s now) (key, c)\<rfloor>"
    and "level s now (key, c) < 1 \<Longrightarrow> r_retryAfterMs (fst (consume key c now s)) =
          max 1 \<lceil>(1 - level s now (key, c)) * (W / rl_limit (resolveConfig s key c))\<rceil>"
proof -
  let ?cfg = "resolveConfig s key c"
  let ?b0 = "case jm_get (l_buckets s) (bucket_key key c) of Some b \<Rightarrow> b
    | None \<Rightarrow> \<lparr>b_tokens = rl_limit ?cfg, b_lastRefillAt = now, b_config = ?cfg\<rparr>"
  have pos: "0 < rl_windowMs ?cfg" "0 < rl_limit ?cfg" and W: "rl_windowMs ?cfg = W"
    using assms by (auto simp: rl_inv_def rl_configs_def)
  have b0: "b_lastRefillAt ?b0 \<le> now" "b_tokens ?b0 \<le> rl_limit ?cfg"
    using rl_inv_bucket [OF assms] by (auto split: option.split)
  have "level_of ?cfg now (Some ?b0) = level s now (key, c)"
    by (auto simp: level_def level_of_def split: option.split)
  then have t: "b_tokens (refill_bucket ?cfg now ?b0) = level s now (key, c)"
    using refill_level [OF pos b0] by simp
  show "r_allowed (fst (consume key c now s)) \<longleftrightarrow> level s now (key, c) \<ge> 1"
    and "r_limit (fst (consume key c now s)) = rl_limit ?cfg"
    unfolding consume_def Let_def by (simp_all add: t)
  show "r_remaining (fst (consume key c now s)) = \<lfloor>take_token (key, c) (level s now) (key, c)\<rfloor>"
    using level_in_range(1) [OF assms, of key c]
    unfolding consume_def Let_def by (auto simp: t take_token_def max_def not_le floor_less_iff)
  show "r_retryAfterMs (fst (consume key c now s)) = max 1 \<lceil>(1 - level s now (key, c)) * (W / rl_limit ?cfg)\<rceil>"
    if "level s now (key, c) < 1"
    using that unfolding consume_def Let_def by (simp add: t W)
qed

lemma resolveConfig_consume [simp]: "resolveConfig (snd (consume key c now s)) = resolveConfig s"
  by (simp add: consume_spent)

text \<open>A history of calls, each with its key, its class and its time; the calls of one bucket it lets through.\<close>

type_synonym rl_call = "string \<times> rate_class \<times> rat"

primrec consume_all :: "rl_call list \<Rightarrow> limiter \<Rightarrow> rl_result list \<times> limiter" where
  "consume_all [] s = ([], s)"
| "consume_all (q # qs) s = (case q of (key, c, t) \<Rightarrow> case consume key c t s of (r, s') \<Rightarrow>
     case consume_all qs s' of (rs, s'') \<Rightarrow> (r # rs, s''))"

definition granted :: "string \<times> rate_class \<Rightarrow> rl_call list \<Rightarrow> limiter \<Rightarrow> nat" where
  "granted k qs s = length (filter (\<lambda>((key, c, t), r). (key, c) = k \<and> r_allowed r) (zip qs (fst (consume_all qs s))))"

fun times_from :: "rat \<Rightarrow> rl_call list \<Rightarrow> bool" where
  "times_from t [] = True"
| "times_from t ((_, _, t') # qs) = (t \<le> t' \<and> times_from t' qs)"

fun last_time :: "rat \<Rightarrow> rl_call list \<Rightarrow> rat" where
  "last_time t [] = t"
| "last_time t ((_, _, t') # qs) = last_time t' qs"

lemma granted_Cons:
  "granted k ((key, c, t) # qs) s = (if (key, c) = k \<and> r_allowed (fst (consume key c t s)) then 1 else 0)
     + granted k qs (snd (consume key c t s))"
  by (auto simp: granted_def split: prod.split)

lemma level_later:
  assumes "rl_inv W t s" "t \<le> t'"
  shows "level s t' (key, c) \<le> level s t (key, c) + (t' - t) / W * rl_limit (resolveConfig s key c)"
  using level_advance [OF assms, symmetric] rl_configsD [of s W key c] assms(1)
  by (auto simp: advance_def Let_def rl_inv_def fun_eq_iff)

lemma add_chain: "(x :: rat) \<le> l' + a \<Longrightarrow> l' = l - e \<Longrightarrow> l \<le> l0 + b \<Longrightarrow> a + b = f \<Longrightarrow> y = e + x \<Longrightarrow> y \<le> l0 + f"
  by linarith

lemma granted_potential:
  assumes "rl_inv W t s" "times_from t qs"
  shows "of_nat (granted (key, c) qs s)
    \<le> level s t (key, c) + (last_time t qs - t) / W * rl_limit (resolveConfig s key c)"
  using assms
proof (induction qs arbitrary: t s)
  case Nil
  then show ?case using level_in_range(1) [OF Nil(1)] by (simp add: granted_def)
next
  case (Cons q qs)
  obtain key' c' t' where q [simp]: "q = (key', c', t')" by (cases q)
  let ?s = "snd (consume key' c' t' s)" and ?l = "rl_limit (resolveConfig s key c)"
  have le: "t \<le> t'" and rest: "times_from t' qs" using Cons.prems(2) by auto
  have inv: "rl_inv W t' s" using rl_inv_later [OF Cons.prems(1) le] .
  define d :: rat where "d = (if (key', c') = (key, c) \<and> r_allowed (fst (consume key' c' t' s)) then 1 else 0)"
  have "of_nat (granted (key, c) qs ?s) \<le> level ?s t' (key, c) + (last_time t' qs - t') / W * ?l"
    using Cons.IH [OF consume_inv [OF inv] rest] by simp
  moreover have "level ?s t' (key, c) = level s t' (key, c) - d"
    using consume_level [OF inv, of key' c'] consume_result(1) [OF inv, of key' c'] by (simp add: take_token_def d_def)
  moreover have "level s t' (key, c) \<le> level s t (key, c) + (t' - t) / W * ?l"
    by (rule level_later [OF Cons.prems(1) le])
  moreover have "(last_time t' qs - t') / W * ?l + (t' - t) / W * ?l = (last_time t' qs - t) / W * ?l"
    by (simp add: diff_divide_distrib algebra_simps)
  moreover have "of_nat (granted (key, c) (q # qs) s) = d + of_nat (granted (key, c) qs ?s)"
    by (auto simp: granted_Cons d_def)
  ultimately have "of_nat (granted (key, c) (q # qs) s) \<le> level s t (key, c) + (last_time t' qs - t) / W * ?l"
    using add_chain by metis
  then show ?case by simp
qed

section \<open>Properties\<close>


lemma new_limiter_inv:
  "rl_inv 60000 t (new_limiter [] (None, None) (None, None))"
  by (simp add: rl_inv_def rl_configs_def new_limiter_def resolveConfig_def merge_config_def TIER_LIMITS_def
      jm_get_def jm_wf_keys jm_keys_def)


text \<open>
  In any history of calls, the limiter lets through at most the burst of a full bucket plus what the bucket
  refills in the time the history takes, however calls of other keys and classes and evictions are interleaved.
\<close>

theorem allowed_calls_bounded:
  assumes "rl_inv W t s" "times_from t qs"
  shows "of_nat (granted (key, c) qs s)
    \<le> rl_limit (resolveConfig s key c) * (1 + (last_time t qs - t) / W)"
  using granted_potential [OF assms, of key c] level_in_range(2) [OF assms(1), of key c] by (simp add: algebra_simps)

theorem allowed_calls_bounded_witness:
  "let s = new_limiter [] (None, None) (None, None) in
    of_nat (granted (''a'', Write) [(''a'', Write, 1), (''b'', Read, 2), (''a'', Write, 30000)] s)
      \<le> rl_limit (resolveConfig s ''a'' Write) * (1 + (30000 - 0) / 60000)"
  using allowed_calls_bounded [OF new_limiter_inv, of 0 "[(''a'', Write, 1), (''b'', Read, 2), (''a'', Write, 30000)]"
      "''a''" Write]
  by (simp add: Let_def)

text \<open>
  The advice to wait is right: with a limit of at least one, a call that is refused and comes back when
  \<open>retryAfterMs\<close> has passed, or later, is let through.
\<close>

theorem retryAfter_suffices:
  assumes "rl_inv W t s" "1 \<le> rl_limit (resolveConfig s key c)" "consume key c t s = (r, s')" "\<not> r_allowed r"
    "t + of_int (r_retryAfterMs r) \<le> t'"
  shows "r_allowed (fst (consume key c t' s'))"
proof -
  let ?l = "rl_limit (resolveConfig s key c)" and ?lv = "level s t (key, c)"
  have s': "s' = snd (consume key c t s)" "r = fst (consume key c t s)" using assms(3) by auto
  have low: "?lv < 1" using consume_result(1) [OF assms(1), of key c] assms(4) s' by simp
  have wait: "(1 - ?lv) * (W / ?l) \<le> of_int (r_retryAfterMs r)" "1 \<le> r_retryAfterMs r"
    using consume_result(4) [OF assms(1) low] s' le_of_int_ceiling [of "(1 - ?lv) * (W / ?l)"]
    by (simp_all only: of_int_max)
  then have "(1 - ?lv) * (W / ?l) \<le> t' - t" "t \<le> t'" using assms(5) by linarith+
  have W: "0 < W" "0 < ?l" using assms(1,2) by (auto simp: rl_inv_def rl_configs_def)
  have "1 - ?lv = (1 - ?lv) * (W / ?l) / W * ?l" using W by simp
  also have "\<dots> \<le> (t' - t) / W * ?l"
    by (rule mult_right_mono [OF divide_right_mono]) (use W \<open>(1 - ?lv) * (W / ?l) \<le> t' - t\<close> in auto)
  finally have fill: "1 \<le> ?lv + (t' - t) / W * ?l" by simp
  have inv: "rl_inv W t s'" using consume_inv [OF assms(1)] s' by simp
  have win: "rl_windowMs (resolveConfig s key c) = W" using assms(1) by (simp add: rl_inv_def rl_configs_def)
  have "level s' t' (key, c) = min ?l (level s' t (key, c) + (t' - t) / W * ?l)"
    using level_advance [OF inv \<open>t \<le> t'\<close>, symmetric] s' win by (simp add: advance_def Let_def)
  moreover have "level s' t (key, c) = ?lv"
    using consume_level [OF assms(1), of key c] s' low by (simp add: take_token_def)
  ultimately have "1 \<le> level s' t' (key, c)" using fill assms(2) by simp
  then show ?thesis using consume_result(1) [OF rl_inv_later [OF inv \<open>t \<le> t'\<close>]] by simp
qed

definition empty_write :: limiter where
  "empty_write = (new_limiter [] (None, None) (None, None))\<lparr>l_buckets :=
     [(bucket_key ''a'' Write, \<lparr>b_tokens = 0, b_lastRefillAt = 0, b_config = TIER_LIMITS Free Write\<rparr>)]\<rparr>"

lemma empty_write_inv: "rl_inv 60000 0 empty_write"
  by (auto simp: empty_write_def rl_inv_def rl_configs_def resolveConfig_def new_limiter_def merge_config_def TIER_LIMITS_def
      jm_get_def jm_wf_keys jm_keys_def)

lemma empty_write_call:
  "consume ''a'' Write 0 empty_write
    = (\<lparr>r_allowed = False, r_limit = 20, r_remaining = 0, r_resetAt = 3, r_retryAfterMs = 3000\<rparr>, empty_write)"
  by (simp add: consume_def empty_write_def new_limiter_def resolveConfig_def merge_config_def TIER_LIMITS_def
      jm_get_def refill_bucket_def evictStale_def Let_def)

theorem retryAfter_suffices_witness: "r_allowed (fst (consume ''a'' Write 3000 empty_write))"
  by (rule retryAfter_suffices [OF empty_write_inv _ empty_write_call])
    (simp_all add: empty_write_def new_limiter_def resolveConfig_def merge_config_def TIER_LIMITS_def jm_get_def)

text \<open>The tier of a request only labels the answer: whatever it is, the same requests pass and the same are refused.\<close>

lemma tier_never_changes_the_state:
  "snd (snd (rateLimit kf cf df now req s)) = snd (snd (rateLimit kf cf df' now req s))"
  by (simp add: rateLimit_def Let_def split: prod.split)

lemma rateLimit_passes_iff:
  "fst (snd (rateLimit kf cf df now req s)) = NextCalled \<longleftrightarrow>
     r_allowed (fst (consume (kf req) (cf req (case q_method req of Some m \<Rightarrow> m | None \<Rightarrow> ''GET'')) now s))"
  by (auto simp: rateLimit_def Let_def split: prod.split)

text \<open>
  With an override of a shorter window for one key, a call of that key gives another key its full budget back: the
  bucket that \<open>b\<close> has just emptied is gone, and the next call of \<open>b\<close> passes.
\<close>

definition short_override :: limiter where
  "short_override = (new_limiter [(''a'', [(Write, \<lparr>rl_limit = 5, rl_windowMs = 1000\<rparr>)])] (None, None) (None, None))
     \<lparr>l_buckets := [(bucket_key ''b'' Write, \<lparr>b_tokens = 0, b_lastRefillAt = 0, b_config = TIER_LIMITS Free Write\<rparr>)]\<rparr>"

lemma short_override_refills_others:
  "\<not> r_allowed (fst (consume ''b'' Write 1001 short_override))"
  "r_remaining (fst (consume ''b'' Write 1001 (snd (consume ''a'' Write 1001 short_override)))) = 19"
  by (simp_all add: consume_def short_override_def new_limiter_def resolveConfig_def merge_config_def TIER_LIMITS_def
      jm_get_def refill_bucket_def evictStale_def Let_def)

end
