(* ===== verification/Signing.thy ===== *)
theory Signing
  imports CredentialCalls
begin

text \<open>
  Request signing, both ends: the client of \<open>sdk/src/server/request-signing.ts\<close> and the verifier and nonce
  stores of \<open>server/src/request-signing.js\<close>.

  SHA-256 and HMAC come from the platform and are functions of the model's crypto record. Times are integers: the
  clock in milliseconds, which one handler reads as one value (it does not yield between its readings), and
  timestamps in seconds, below the sizes where numbers lose precision. The nonce store is an interface: the
  verifier takes its \<open>consume\<close> as an argument, and the locale \<open>nonce_store\<close> states what it relies on.
\<close>

section \<open>The client\<close>

record crypto =
  sha256 :: "byte list \<Rightarrow> byte list"
  hmac256 :: "byte list \<Rightarrow> byte list \<Rightarrow> byte list"

definition SIGNATURE_VERSION :: string where
  "SIGNATURE_VERSION = ''v1''"

definition generateNonce :: "byte list \<Rightarrow> string" where
  "generateNonce bytes = to_hex bytes"

definition client_hashBody :: "crypto \<Rightarrow> string \<Rightarrow> string" where
  "client_hashBody C bdy = to_hex (sha256 C (utf8_bytes bdy))"

definition client_buildCanonicalString :: "crypto \<Rightarrow> string \<Rightarrow> string \<Rightarrow> int \<Rightarrow> string \<Rightarrow> string option \<Rightarrow> string" where
  "client_buildCanonicalString C meth pth ts nonce bdy =
     join [CHR 10] [to_upper meth, pth, int_to_string ts, nonce, client_hashBody C (case bdy of Some b \<Rightarrow> b | None \<Rightarrow> [])]"

text \<open>\<open>SignRequestOptions\<close>; \<open>random\<close> and \<open>now\<close> are what the platform gives when nonce and timestamp are left out.\<close>

record sign_options =
  so_secret :: string
  so_method :: string
  so_path :: string
  so_body :: "string option"
  so_keyId :: "string option"
  so_timestamp :: "int option"
  so_nonce :: "string option"

definition client_signRequest :: "crypto \<Rightarrow> byte list \<Rightarrow> int \<Rightarrow> sign_options \<Rightarrow> (string, string) jsmap" where
  "client_signRequest C random now opts = (let
     ts = (case so_timestamp opts of Some t \<Rightarrow> t | None \<Rightarrow> now div 1000);
     nonce = (case so_nonce opts of Some n \<Rightarrow> n | None \<Rightarrow> generateNonce random);
     canonical = client_buildCanonicalString C (so_method opts) (so_path opts) ts nonce (so_body opts);
     signature = hmac256 C (utf8_bytes (so_secret opts)) (utf8_bytes canonical)
   in [(''X-Signature'', SIGNATURE_VERSION @ ''='' @ to_hex signature),
       (''X-Signature-Timestamp'', int_to_string ts),
       (''X-Signature-Nonce'', nonce)]
      @ (case so_keyId opts of Some (c # cs) \<Rightarrow> [(''X-Signature-Key-Id'', c # cs)] | _ \<Rightarrow> []))"

text \<open>The wrapped \<open>fetch\<close>: what it hands to the underlying one.\<close>

datatype fetch_body = NoBody | StringBody string | OtherBody

record fetch_init =
  f_method :: "string option"
  f_body :: fetch_body
  f_headers :: "(string, string) jsmap"

definition jm_merge :: "('k, 'v) jsmap \<Rightarrow> ('k, 'v) jsmap \<Rightarrow> ('k, 'v) jsmap" where
  "jm_merge m n = fold (\<lambda>(k, v). jm_set k v) n m"

definition signedFetch :: "crypto \<Rightarrow> byte list \<Rightarrow> int \<Rightarrow> string \<Rightarrow> string \<Rightarrow> string option \<Rightarrow> string \<Rightarrow> fetch_init
    \<Rightarrow> string \<times> fetch_init" where
  "signedFetch C random now secret baseUrl keyId pth init = (let
     meth = (case f_method init of Some m \<Rightarrow> m | None \<Rightarrow> ''GET'');
     bdy = (case f_body init of StringBody b \<Rightarrow> b | _ \<Rightarrow> []);
     hs = client_signRequest C random now \<lparr>so_secret = secret, so_method = meth, so_path = pth, so_body = Some bdy,
        so_keyId = keyId, so_timestamp = None, so_nonce = None\<rparr>
   in (baseUrl @ pth, init\<lparr>f_headers := jm_merge (f_headers init) hs\<rparr>))"

section \<open>The server's side of the scheme\<close>

datatype body = Text string | Buf "byte list"

definition hashBody :: "crypto \<Rightarrow> body \<Rightarrow> string" where
  "hashBody C b = to_hex (sha256 C (case b of Text s \<Rightarrow> utf8_bytes s | Buf bs \<Rightarrow> bs))"

definition buildCanonicalString :: "crypto \<Rightarrow> string \<Rightarrow> string \<Rightarrow> string \<Rightarrow> string \<Rightarrow> body \<Rightarrow> string" where
  "buildCanonicalString C meth pth ts nonce bdy = join [CHR 10] [to_upper meth, pth, ts, nonce, hashBody C bdy]"

definition signRequest :: "crypto \<Rightarrow> string \<Rightarrow> string \<Rightarrow> string \<Rightarrow> string \<Rightarrow> string \<Rightarrow> body \<Rightarrow> string" where
  "signRequest C secret meth pth ts nonce bdy =
     SIGNATURE_VERSION @ ''='' @ to_hex (hmac256 C (utf8_bytes secret) (utf8_bytes (buildCanonicalString C meth pth ts nonce bdy)))"

definition timingSafeHexEqual :: "string \<Rightarrow> string \<Rightarrow> bool" where
  "timingSafeHexEqual a b = (length (utf8_bytes a) = length (utf8_bytes b) \<and> utf8_bytes a = utf8_bytes b)"

section \<open>Nonce stores\<close>

record nonces =
  ns_ttlMs :: int
  ns_maxEntries :: nat
  ns_entries :: "(string, int) jsmap"

definition NonceStore :: "int \<Rightarrow> nat \<Rightarrow> nonces" where
  "NonceStore ttlSeconds maxEntries = \<lparr>ns_ttlMs = ttlSeconds * 1000, ns_maxEntries = maxEntries, ns_entries = []\<rparr>"

definition default_nonces :: nonces where
  "default_nonces = NonceStore 300 100000"

definition prune :: "int \<Rightarrow> nonces \<Rightarrow> nonces" where
  "prune now s = s\<lparr>ns_entries := filter (\<lambda>(k, expiresAt). \<not> expiresAt \<le> now) (ns_entries s)\<rparr>"

definition nonce_key :: "string \<Rightarrow> string \<Rightarrow> string" where
  "nonce_key scope nonce = scope @ '':'' @ nonce"

definition consume_nonce :: "int \<Rightarrow> string \<Rightarrow> string \<Rightarrow> nonces \<Rightarrow> bool \<times> nonces" where
  "consume_nonce now nonce scope s0 = (let s = prune now s0; k = nonce_key scope nonce in
     if jm_has (ns_entries s) k then (False, s)
     else if length (ns_entries s) \<ge> ns_maxEntries s then (False, s)
     else (True, s\<lparr>ns_entries := jm_set k (now + ns_ttlMs s) (ns_entries s)\<rparr>))"

definition clear_nonces :: "nonces \<Rightarrow> nonces" where
  "clear_nonces s = s\<lparr>ns_entries := []\<rparr>"

text \<open>
  The Redis store: \<open>SET key 1 NX EX ttl\<close> is a call of the client's, which answers or throws and has a state of its
  own; any answer but \<open>null\<close>, \<open>undefined\<close> and \<open>false\<close> is a success.
\<close>

record 'r redis_store =
  rs_redis :: 'r
  rs_ttlSeconds :: int
  rs_fallback :: nonces

definition RedisNonceStore :: "'r option \<Rightarrow> int \<Rightarrow> nat \<Rightarrow> nonces option \<Rightarrow> thrown + 'r redis_store" where
  "RedisNonceStore redis ttlSeconds maxEntries fallback = (case redis of
     None \<Rightarrow> Inl (ErrorThrown ''Error'' ''RedisNonceStore requires a redis client'')
   | Some r \<Rightarrow> Inr \<lparr>rs_redis = r, rs_ttlSeconds = ttlSeconds,
       rs_fallback = (case fallback of Some f \<Rightarrow> f | None \<Rightarrow> NonceStore ttlSeconds maxEntries)\<rparr>)"

definition keyFor :: "string \<Rightarrow> string \<Rightarrow> string" where
  "keyFor nonce scope = ''request-signing:nonce:'' @ scope @ '':'' @ nonce"

definition redis_consume :: "(string \<Rightarrow> int \<Rightarrow> 'r \<Rightarrow> (thrown + jv) \<times> 'r) \<Rightarrow> int \<Rightarrow> string \<Rightarrow> string \<Rightarrow> 'r redis_store
    \<Rightarrow> bool \<times> 'r redis_store" where
  "redis_consume set_nx now nonce scope s = (case set_nx (keyFor nonce scope) (rs_ttlSeconds s) (rs_redis s) of
     (Inr v, r) \<Rightarrow> (v \<noteq> JNull \<and> v \<noteq> JUndef \<and> v \<noteq> JBool False, s\<lparr>rs_redis := r\<rparr>)
   | (Inl e, r) \<Rightarrow> (case consume_nonce now nonce scope (rs_fallback s) of
       (fresh, f) \<Rightarrow> (fresh, s\<lparr>rs_redis := r, rs_fallback := f\<rparr>)))"

definition redis_clear :: "'r redis_store \<Rightarrow> 'r redis_store" where
  "redis_clear s = s\<lparr>rs_fallback := clear_nonces (rs_fallback s)\<rparr>"

section \<open>Verifying\<close>

record signed_request =
  sr_headers :: "(string, string) jsmap"
  sr_method :: string
  sr_path :: string
  sr_body :: body
  sr_secret :: "string option"
  sr_maxAge :: int
  sr_scope :: string

datatype verdict = Accepted | Refused nat string string

text \<open>\<open>s.split(c)\<close> for a separator of one character\<close>

fun js_split :: "char \<Rightarrow> string \<Rightarrow> string list" where
  "js_split c [] = [[]]"
| "js_split c (x # xs) = (if x = c then [] # js_split c xs
     else case js_split c xs of w # ws \<Rightarrow> (x # w) # ws | [] \<Rightarrow> [[x]])"

definition second_part :: "string list \<Rightarrow> string" where
  "second_part ws = (case ws of _ # w # _ \<Rightarrow> w | _ \<Rightarrow> [])"

definition header :: "signed_request \<Rightarrow> string \<Rightarrow> string" where
  "header q k = (case jm_get (sr_headers q) k of Some v \<Rightarrow> v | None \<Rightarrow> [])"

text \<open>Everything before the nonce is consumed: the refusal, or the nonce.\<close>

definition signature_checks :: "crypto \<Rightarrow> int \<Rightarrow> signed_request \<Rightarrow> verdict + string" where
  "signature_checks C now q = (let
     signature = header q ''x-signature''; timestamp = header q ''x-signature-timestamp''; nonce = header q ''x-signature-nonce''
   in if signature = [] \<or> timestamp = [] \<or> nonce = [] then
        Inl (Refused 401 ''SIGNATURE_REQUIRED''
          ''Signed requests must send x-signature, x-signature-timestamp and x-signature-nonce'')
      else case sr_secret q of
        None \<Rightarrow> Inl (Refused 401 ''SIGNING_KEY_UNKNOWN'' ''No signing secret is registered for this API key'')
      | Some [] \<Rightarrow> Inl (Refused 401 ''SIGNING_KEY_UNKNOWN'' ''No signing secret is registered for this API key'')
      | Some secret \<Rightarrow> (let parts = js_split (CHR ''='') signature; version = hd parts; providedDigest = second_part parts
        in if version \<noteq> SIGNATURE_VERSION \<or> providedDigest = [] then
             Inl (Refused 400 ''SIGNATURE_VERSION_UNSUPPORTED'' ''Signature must use the v1 scheme'')
           else case parse_int timestamp of
             None \<Rightarrow> Inl (Refused 400 ''SIGNATURE_TIMESTAMP_INVALID''
                 ''x-signature-timestamp must be a unix timestamp in seconds'')
           | Some ts \<Rightarrow>
             if \<bar>now div 1000 - ts\<bar> > sr_maxAge q then
               Inl (Refused 401 ''SIGNATURE_EXPIRED'' (''Signature timestamp is outside the permitted ''
                 @ int_to_string (sr_maxAge q) @ ''s window''))
             else (let expected = signRequest C secret (sr_method q) (sr_path q) (int_to_string ts) nonce (sr_body q);
                     expectedDigest = second_part (js_split (CHR ''='') expected)
               in if \<not> timingSafeHexEqual providedDigest expectedDigest then
                    Inl (Refused 401 ''SIGNATURE_INVALID'' ''Request signature does not match'')
                  else Inr nonce)))"

definition verifySignedRequest :: "crypto \<Rightarrow> (int \<Rightarrow> string \<Rightarrow> string \<Rightarrow> 's \<Rightarrow> bool \<times> 's) \<Rightarrow> int \<Rightarrow> signed_request \<Rightarrow> 's
    \<Rightarrow> verdict \<times> 's" where
  "verifySignedRequest C consumes now q s = (case signature_checks C now q of
     Inl refusal \<Rightarrow> (refusal, s)
   | Inr nonce \<Rightarrow> (case consumes now nonce (sr_scope q) s of (fresh, s') \<Rightarrow>
       (if fresh then Accepted else Refused 409 ''SIGNATURE_REPLAYED'' ''This nonce has already been used'', s')))"

section \<open>Decimal numbers and splitting\<close>

lemma digits_value_parse: "digits_value ds = parse_digits ds"
  unfolding digits_value_def parse_digits_def by (simp add: digit_val_def)

lemma js_digit_is_digit: "js_digit c = is_digit c"
  by (simp add: js_digit_def is_digit_def)

lemma nat_to_string_js_digits: "c \<in> set (nat_to_string n) \<Longrightarrow> js_digit c"
  using nat_to_string_digits [of n] by (simp add: list_all_iff js_digit_is_digit)

lemma js_digit_plain: "js_digit c \<Longrightarrow> \<not> js_space c \<and> c \<noteq> CHR ''-'' \<and> c \<noteq> CHR ''+'' \<and> c \<noteq> CHR 10"
  by (auto simp: js_digit_def js_space_def char_code_def)

lemma parse_int_print [simp]: "parse_int (int_to_string i) = Some i"
proof -
  have print: "parse_int (nat_to_string n) = Some (int n)" "parse_int (CHR ''-'' # nat_to_string n) = Some (- int n)" for n
  proof -
    obtain c cs where cs: "nat_to_string n = c # cs" using nat_to_string_nonempty by (cases "nat_to_string n") auto
    have plain: "\<not> js_space c" "c \<noteq> CHR ''-''" "c \<noteq> CHR ''+''"
      using js_digit_plain nat_to_string_js_digits [of c n] cs by auto
    have digits: "takeWhile js_digit (nat_to_string n) = nat_to_string n"
      by (rule takeWhile_eq_all_conv [THEN iffD2]) (auto dest: nat_to_string_js_digits)
    have val: "digits_value (nat_to_string n) = n" by (simp add: digits_value_parse)
    show "parse_int (nat_to_string n) = Some (int n)"
      using plain digits val cs by (simp add: parse_int_def)
    show "parse_int (CHR ''-'' # nat_to_string n) = Some (- int n)"
      using digits val cs by (simp add: parse_int_def js_space_def char_code_def)
  qed
  show ?thesis by (cases "i < 0") (simp_all add: int_to_string_def print)
qed

lemma int_to_string_nonempty [simp]: "int_to_string i \<noteq> []"
  by (simp add: int_to_string_def nat_to_string_nonempty)

lemma int_to_string_no_newline: "CHR 10 \<notin> set (int_to_string i)"
  using js_digit_plain nat_to_string_js_digits by (auto simp: int_to_string_def)

lemma int_to_string_inject [simp]: "int_to_string i = int_to_string j \<longleftrightarrow> i = j"
  by (metis parse_int_print option.inject)

lemma js_split_absent: "c \<notin> set s \<Longrightarrow> js_split c s = [s]"
  by (induction s) auto

lemma js_split_first: "c \<notin> set s \<Longrightarrow> js_split c (s @ c # t) = s # js_split c t"
  by (induction s) auto

lemma hex_plain: "list_all is_hex s \<Longrightarrow> CHR ''='' \<notin> set s \<and> CHR 10 \<notin> set s"
  by (induction s) (auto simp: is_hex_def hex_val_def char_code_def Let_def)

lemma split_signature [simp]: "js_split (CHR ''='') (SIGNATURE_VERSION @ CHR ''='' # to_hex bs) = [SIGNATURE_VERSION, to_hex bs]"
  using hex_plain [of "to_hex bs"] by (simp add: js_split_first js_split_absent SIGNATURE_VERSION_def)

lemma first_separator: "c \<notin> set xs \<Longrightarrow> c \<notin> set xs' \<Longrightarrow> xs @ c # ys = xs' @ c # ys' \<longleftrightarrow> xs = xs' \<and> ys = ys'"
proof (induction xs arbitrary: xs')
  case Nil
  then show ?case by (cases xs') auto
next
  case (Cons x xs)
  then show ?case by (cases xs') auto
qed

lemma last_separator: "c \<notin> set ys \<Longrightarrow> c \<notin> set ys' \<Longrightarrow> xs @ c # ys = xs' @ c # ys' \<longleftrightarrow> xs = xs' \<and> ys = ys'"
proof -
  assume "c \<notin> set ys" "c \<notin> set ys'"
  then have "rev ys @ c # rev xs = rev ys' @ c # rev xs' \<longleftrightarrow> rev ys = rev ys' \<and> rev xs = rev xs'"
    by (intro first_separator) auto
  then show ?thesis by (metis rev_append rev.simps(2) append_assoc append_Cons append_Nil rev_is_rev_conv)
qed

section \<open>The interface of the nonce stores\<close>

text \<open>
  What the verifier relies on: a nonce that was accepted is refused for \<open>ttl\<close> milliseconds, whatever else is
  consumed meanwhile.
\<close>

locale nonce_store =
  fixes consumes :: "int \<Rightarrow> string \<Rightarrow> string \<Rightarrow> 's \<Rightarrow> bool \<times> 's"
    and valid :: "'s \<Rightarrow> bool"
    and spent :: "string \<Rightarrow> string \<Rightarrow> int \<Rightarrow> 's \<Rightarrow> bool"
    and ttl :: int
  assumes consumes_valid: "valid s \<Longrightarrow> valid (snd (consumes t n sc s))"
    and consumes_spends: "valid s \<Longrightarrow> fst (consumes t n sc s) \<Longrightarrow> spent n sc (t + ttl) (snd (consumes t n sc s))"
    and spent_refused: "valid s \<Longrightarrow> spent n sc u s \<Longrightarrow> t < u \<Longrightarrow> \<not> fst (consumes t n sc s)"
    and spent_stays: "valid s \<Longrightarrow> spent n sc u s \<Longrightarrow> t < u \<Longrightarrow> spent n sc u (snd (consumes t n' sc' s))"

text \<open>A history: requests with the time each arrives at; the verdicts, and the store after it.\<close>

primrec verify_all :: "crypto \<Rightarrow> (int \<Rightarrow> string \<Rightarrow> string \<Rightarrow> 's \<Rightarrow> bool \<times> 's) \<Rightarrow> (int \<times> signed_request) list \<Rightarrow> 's
    \<Rightarrow> verdict list \<times> 's" where
  "verify_all C consumes [] s = ([], s)"
| "verify_all C consumes (e # es) s = (case verifySignedRequest C consumes (fst e) (snd e) s of (v, s') \<Rightarrow>
     case verify_all C consumes es s' of (vs, s'') \<Rightarrow> (v # vs, s''))"

definition nonce_of :: "signed_request \<Rightarrow> string" where
  "nonce_of q = header q ''x-signature-nonce''"

lemma signature_checks_nonce: "signature_checks C t q = Inr n \<Longrightarrow> n = nonce_of q"
  by (auto simp: signature_checks_def nonce_of_def Let_def split: if_splits option.splits list.splits)

lemma signature_checks_refuses: "signature_checks C t q \<noteq> Inl Accepted"
  by (auto simp: signature_checks_def Let_def split: option.split list.split)

lemma signature_checks_window:
  "signature_checks C t q = Inr n \<Longrightarrow>
    \<exists>ts. parse_int (header q ''x-signature-timestamp'') = Some ts \<and> \<bar>t div 1000 - ts\<bar> \<le> sr_maxAge q"
  by (auto simp: signature_checks_def Let_def split: if_splits option.splits list.splits)

lemma verify_accepted_iff:
  "fst (verifySignedRequest C consumes t q s) = Accepted \<longleftrightarrow>
     (\<exists>n. signature_checks C t q = Inr n) \<and> fst (consumes t (nonce_of q) (sr_scope q) s)"
  using signature_checks_refuses [of C t q] signature_checks_nonce [of C t q]
  by (auto simp: verifySignedRequest_def split: sum.splits prod.splits)

lemma verify_state:
  "snd (verifySignedRequest C consumes t q s) =
     (if \<exists>n. signature_checks C t q = Inr n then snd (consumes t (nonce_of q) (sr_scope q) s) else s)"
  using signature_checks_nonce [of C t q]
  by (auto simp: verifySignedRequest_def split: sum.splits prod.splits)

lemma verify_all_nth:
  "i < length es \<Longrightarrow> \<exists>s'. fst (verify_all C consumes es s) ! i
    = fst (verifySignedRequest C consumes (fst (es ! i)) (snd (es ! i)) s')"
proof (induction es arbitrary: s i)
  case (Cons e es)
  show ?case
  proof (cases i)
    case 0
    then show ?thesis by (auto split: prod.split intro: exI [of _ s])
  next
    case (Suc j)
    then show ?thesis
      using Cons.IH [of j "snd (verifySignedRequest C consumes (fst e) (snd e) s)"] Cons.prems by (auto split: prod.split)
  qed
qed simp

lemma verify_all_window:
  assumes "i < length es" "fst (verify_all C consumes es s) ! i = Accepted"
  shows "\<exists>ts. parse_int (header (snd (es ! i)) ''x-signature-timestamp'') = Some ts \<and>
    \<bar>fst (es ! i) div 1000 - ts\<bar> \<le> sr_maxAge (snd (es ! i))"
proof -
  obtain s' where "fst (verifySignedRequest C consumes (fst (es ! i)) (snd (es ! i)) s') = Accepted"
    using verify_all_nth [OF assms(1), of C consumes s] unfolding assms(2) by (auto dest: sym)
  then obtain n where "signature_checks C (fst (es ! i)) (snd (es ! i)) = Inr n"
    unfolding verify_accepted_iff by blast
  then show ?thesis by (rule signature_checks_window)
qed

context nonce_store
begin

lemma verify_valid: "valid s \<Longrightarrow> valid (snd (verifySignedRequest C consumes t q s))"
  by (simp add: verify_state consumes_valid)

lemma verify_spent_stays:
  "valid s \<Longrightarrow> spent n sc u s \<Longrightarrow> t < u \<Longrightarrow> spent n sc u (snd (verifySignedRequest C consumes t q s))"
  by (simp add: verify_state spent_stays)

lemma spent_all_refused:
  assumes "valid s" "spent n sc u s" "\<And>m. m \<le> i \<Longrightarrow> fst (es ! m) < u" "i < length es"
    "nonce_of (snd (es ! i)) = n" "sr_scope (snd (es ! i)) = sc"
  shows "fst (verify_all C consumes es s) ! i \<noteq> Accepted"
  using assms
proof (induction es arbitrary: s i)
  case (Cons e es)
  let ?r = "verifySignedRequest C consumes (fst e) (snd e) s"
  have now: "fst e < u" using Cons.prems(3) [of 0] by simp
  have next_s: "valid (snd ?r)" "spent n sc u (snd ?r)"
    using Cons.prems(1,2) now by (auto intro: verify_valid verify_spent_stays)
  show ?case
  proof (cases i)
    case 0
    then show ?thesis
      using Cons.prems now spent_refused [of s n sc u "fst e"] verify_accepted_iff [of C consumes "fst e" "snd e" s]
      by (auto split: prod.split)
  next
    case (Suc j)
    have "fst (es ! m) < u" if "m \<le> j" for m using Cons.prems(3) [of "Suc m"] Suc that by simp
    then show ?thesis using Cons.IH [OF next_s, of j] Cons.prems Suc by (auto split: prod.split)
  qed
qed simp

lemma accepted_once_per_ttl:
  assumes "valid s" "sorted (map fst es)" "i < j" "j < length es"
    "fst (verify_all C consumes es s) ! i = Accepted" "fst (verify_all C consumes es s) ! j = Accepted"
    "nonce_of (snd (es ! j)) = nonce_of (snd (es ! i))" "sr_scope (snd (es ! j)) = sr_scope (snd (es ! i))"
  shows "fst (es ! i) + ttl \<le> fst (es ! j)"
  using assms
proof (induction es arbitrary: s i j)
  case (Cons e es)
  let ?r = "verifySignedRequest C consumes (fst e) (snd e) s"
  obtain j' where j: "j = Suc j'" using Cons.prems(3) by (cases j) auto
  have acc_j: "fst (verify_all C consumes es (snd ?r)) ! j' = Accepted"
    using Cons.prems(6) j by (auto split: prod.splits)
  show ?case
  proof (cases i)
    case (Suc i')
    then show ?thesis
      using Cons.IH [OF verify_valid [OF Cons.prems(1)], of i' j' C "fst e" "snd e"] Cons.prems acc_j j
      by (auto split: prod.splits)
  next
    case 0
    let ?n = "nonce_of (snd e)" and ?sc = "sr_scope (snd e)"
    have "fst ?r = Accepted" using Cons.prems(5) 0 by (auto split: prod.splits)
    then have sp: "spent ?n ?sc (fst e + ttl) (snd ?r)"
      using consumes_spends [OF Cons.prems(1)] verify_accepted_iff [of C consumes "fst e" "snd e" s]
      by (auto simp: verify_state)
    show ?thesis
    proof (rule ccontr)
      assume early: "\<not> ?thesis"
      have "fst (es ! m) < fst e + ttl" if "m \<le> j'" for m
      proof -
        have "fst (es ! m) \<le> fst (es ! j')"
          using Cons.prems(2,4) that j by (auto simp: sorted_iff_nth_mono)
        then show ?thesis using early 0 j by simp
      qed
      then show False
        using spent_all_refused [OF verify_valid [OF Cons.prems(1)] sp, of j' es C] acc_j Cons.prems(4,7,8) 0 j
        by auto
    qed
  qed
qed simp

end

section \<open>The in-memory store keeps the contract\<close>

definition nonces_valid :: "int \<Rightarrow> nonces \<Rightarrow> bool" where
  "nonces_valid T s = (ns_ttlMs s = T \<and> jm_wf (ns_entries s))"

definition spent_until :: "string \<Rightarrow> string \<Rightarrow> int \<Rightarrow> nonces \<Rightarrow> bool" where
  "spent_until n sc u s = (case jm_get (ns_entries s) (nonce_key sc n) of Some x \<Rightarrow> u \<le> x | None \<Rightarrow> False)"

lemma prune_fields [simp]: "ns_ttlMs (prune t s) = ns_ttlMs s" "ns_maxEntries (prune t s) = ns_maxEntries s"
  by (simp_all add: prune_def)

lemma prune_get:
  "jm_wf (ns_entries s) \<Longrightarrow> jm_get (ns_entries (prune t s)) k =
     (case jm_get (ns_entries s) k of Some x \<Rightarrow> if x \<le> t then None else Some x | None \<Rightarrow> None)"
  by (simp add: prune_def jm_get_filter split: option.split)

lemma prune_wf: "jm_wf (ns_entries s) \<Longrightarrow> jm_wf (ns_entries (prune t s))"
  by (simp add: prune_def jm_wf_filter)

lemma filter_jm_set_out: "\<not> jm_has m k \<Longrightarrow> \<not> p (k, v) \<Longrightarrow> filter p (jm_set k v m) = filter p m"
  by (induction k v m rule: jm_set.induct) (auto simp: jm_has_def)

lemma prune_spent: "nonces_valid T s \<Longrightarrow> spent_until n sc u s \<Longrightarrow> t < u \<Longrightarrow> spent_until n sc u (prune t s)"
  by (auto simp: spent_until_def nonces_valid_def prune_get split: option.splits)

lemma consume_nonce_fresh:
  "fst (consume_nonce t n sc s) \<longleftrightarrow>
     \<not> jm_has (ns_entries (prune t s)) (nonce_key sc n) \<and> length (ns_entries (prune t s)) < ns_maxEntries s"
  by (auto simp: consume_nonce_def Let_def)

lemma consume_nonce_state:
  "snd (consume_nonce t n sc s) = (if fst (consume_nonce t n sc s)
     then (prune t s)\<lparr>ns_entries := jm_set (nonce_key sc n) (t + ns_ttlMs s) (ns_entries (prune t s))\<rparr> else prune t s)"
  by (auto simp: consume_nonce_def Let_def)

interpretation mem: nonce_store consume_nonce "nonces_valid T" spent_until T
  for T :: int
proof
  fix s t n sc u n' sc'
  assume valid: "nonces_valid T s"
  show "nonces_valid T (snd (consume_nonce t n sc s))"
    using valid by (simp add: consume_nonce_state nonces_valid_def prune_wf)
  show "spent_until n sc (t + T) (snd (consume_nonce t n sc s))" if "fst (consume_nonce t n sc s)"
    using that valid by (simp add: consume_nonce_state nonces_valid_def spent_until_def)
  assume spent: "spent_until n sc u s" "t < u"
  have here: "jm_has (ns_entries (prune t s)) (nonce_key sc n)"
    using prune_spent [OF valid spent] by (auto simp: spent_until_def jm_has_def split: option.splits)
  then show "\<not> fst (consume_nonce t n sc s)" by (simp add: consume_nonce_fresh)
  show "spent_until n sc u (snd (consume_nonce t n' sc' s))"
    using prune_spent [OF valid spent] here
    by (auto simp: consume_nonce_state consume_nonce_fresh spent_until_def)
qed

lemma default_nonces_valid [simp]: "nonces_valid 300000 default_nonces"
  by (simp add: nonces_valid_def default_nonces_def NonceStore_def)

section \<open>Properties\<close>

text \<open>How a request travels: the header names arrive in lower case, the values and the body's bytes unchanged.\<close>

definition received :: "(string, string) jsmap \<Rightarrow> (string, string) jsmap" where
  "received hs = map (\<lambda>(k, v). (to_lower k, v)) hs"

definition chosen_nonce :: "byte list \<Rightarrow> sign_options \<Rightarrow> string" where
  "chosen_nonce random opts = (case so_nonce opts of Some n \<Rightarrow> n | None \<Rightarrow> generateNonce random)"

definition chosen_time :: "int \<Rightarrow> sign_options \<Rightarrow> int" where
  "chosen_time now opts = (case so_timestamp opts of Some t \<Rightarrow> t | None \<Rightarrow> now div 1000)"

definition as_sent :: "crypto \<Rightarrow> byte list \<Rightarrow> int \<Rightarrow> sign_options \<Rightarrow> int \<Rightarrow> string \<Rightarrow> signed_request" where
  "as_sent C random now opts maxAge scope = \<lparr>sr_headers = received (client_signRequest C random now opts),
     sr_method = to_upper (so_method opts), sr_path = so_path opts,
     sr_body = Buf (utf8_bytes (case so_body opts of Some b \<Rightarrow> b | None \<Rightarrow> [])), sr_secret = Some (so_secret opts),
     sr_maxAge = maxAge, sr_scope = scope\<rparr>"

lemma to_upper_idem [simp]: "to_upper (to_upper s) = to_upper s"
  by (auto simp: to_upper_def upper_char_def char_code_def Let_def)

lemma lower_header_names:
  "to_lower ''X-Signature'' = ''x-signature''" "to_lower ''X-Signature-Timestamp'' = ''x-signature-timestamp''"
  "to_lower ''X-Signature-Nonce'' = ''x-signature-nonce''"
  by code_simp+

lemma as_sent_headers:
  "header (as_sent C random now opts maxAge scope) ''x-signature'' =
     signRequest C (so_secret opts) (so_method opts) (so_path opts) (int_to_string (chosen_time now opts))
       (chosen_nonce random opts) (Text (case so_body opts of Some b \<Rightarrow> b | None \<Rightarrow> []))"
  "header (as_sent C random now opts maxAge scope) ''x-signature-timestamp'' = int_to_string (chosen_time now opts)"
  "header (as_sent C random now opts maxAge scope) ''x-signature-nonce'' = chosen_nonce random opts"
  by (simp_all add: header_def as_sent_def received_def client_signRequest_def Let_def lower_header_names
      chosen_nonce_def chosen_time_def signRequest_def buildCanonicalString_def client_buildCanonicalString_def
      hashBody_def client_hashBody_def)

lemma as_sent_nonce: "nonce_of (as_sent C random now opts maxAge scope) = chosen_nonce random opts"
  by (simp add: nonce_of_def as_sent_headers)

lemma as_sent_fields [simp]:
  "sr_scope (as_sent C random now opts maxAge scope) = scope" "sr_maxAge (as_sent C random now opts maxAge scope) = maxAge"
  by (simp_all add: as_sent_def)

lemma signRequest_received_body:
  "signRequest C k (to_upper meth) pth ts n (Buf (utf8_bytes b)) = signRequest C k meth pth ts n (Text b)"
  by (simp add: signRequest_def buildCanonicalString_def hashBody_def)

lemma split_signRequest:
  "js_split (CHR ''='') (signRequest C k meth pth ts n b)
    = [SIGNATURE_VERSION, to_hex (hmac256 C (utf8_bytes k) (utf8_bytes (buildCanonicalString C meth pth ts n b)))]"
  using split_signature by (simp add: signRequest_def)

lemma signRequest_nonempty: "signRequest C k meth pth ts n b \<noteq> []"
  by (simp add: signRequest_def SIGNATURE_VERSION_def)

lemma to_hex_nonempty: "bs \<noteq> [] \<Longrightarrow> to_hex bs \<noteq> []"
  using to_hex_inject [of bs "[]"] by simp

lemma as_sent_checks:
  assumes "\<And>k m. hmac256 C k m \<noteq> []" "so_secret opts \<noteq> []" "chosen_nonce random opts \<noteq> []"
  shows "signature_checks C t (as_sent C random now opts maxAge scope) =
     (if \<bar>t div 1000 - chosen_time now opts\<bar> \<le> maxAge then Inr (chosen_nonce random opts)
      else Inl (Refused 401 ''SIGNATURE_EXPIRED'' (''Signature timestamp is outside the permitted ''
                 @ int_to_string maxAge @ ''s window'')))"
proof -
  let ?q = "as_sent C random now opts maxAge scope"
  obtain c cs where secret: "so_secret opts = c # cs" using assms(2) by (cases "so_secret opts") auto
  have q: "sr_secret ?q = Some (c # cs)" "sr_maxAge ?q = maxAge" "sr_method ?q = to_upper (so_method opts)"
    "sr_path ?q = so_path opts" "sr_body ?q = Buf (utf8_bytes (case so_body opts of Some b \<Rightarrow> b | None \<Rightarrow> []))"
    by (simp_all add: as_sent_def secret)
  show ?thesis
    unfolding signature_checks_def as_sent_headers q Let_def
    by (simp add: assms signRequest_nonempty split_signRequest second_part_def to_hex_nonempty q
        signRequest_received_body timingSafeHexEqual_def secret)
qed

text \<open>
  C11. A request signed by the client passes the server's verifier: with the same secret, an HMAC that is not empty, a
  nonce and a clock within the window of the timestamp, it is accepted exactly if the store takes the nonce, and
  the store then holds what consuming the nonce leaves; outside the window it is refused as expired.
\<close>

theorem client_request_verifies:
  assumes "\<And>k m. hmac256 C k m \<noteq> []" "so_secret opts \<noteq> []" "chosen_nonce random opts \<noteq> []"
  shows "verifySignedRequest C consumes t (as_sent C random now opts maxAge scope) s =
     (if \<bar>t div 1000 - chosen_time now opts\<bar> \<le> maxAge
      then (if fst (consumes t (chosen_nonce random opts) scope s) then Accepted
            else Refused 409 ''SIGNATURE_REPLAYED'' ''This nonce has already been used'',
            snd (consumes t (chosen_nonce random opts) scope s))
      else (Refused 401 ''SIGNATURE_EXPIRED'' (''Signature timestamp is outside the permitted ''
              @ int_to_string maxAge @ ''s window''), s))"
  using as_sent_checks [OF assms, of t now maxAge scope]
  by (auto simp: verifySignedRequest_def as_sent_def split: prod.split)

text \<open>An HMAC that mixes nothing, but has the documented length.\<close>

definition plain_crypto :: crypto where
  "plain_crypto = \<lparr>sha256 = (\<lambda>bs. replicate 32 (of_nat (length bs))), hmac256 = (\<lambda>k m. replicate 32 (of_nat (length k + length m)))\<rparr>"

definition some_options :: sign_options where
  "some_options = \<lparr>so_secret = ''s'', so_method = ''post'', so_path = ''/credentials'', so_body = Some ''{}'',
     so_keyId = None, so_timestamp = None, so_nonce = Some ''n1''\<rparr>"

lemma plain_crypto_hmac: "hmac256 plain_crypto k m \<noteq> []"
  by (simp add: plain_crypto_def)

lemma some_options_fields:
  "so_secret some_options \<noteq> []" "chosen_nonce random some_options = ''n1''" "chosen_time t some_options = t div 1000"
  by (simp_all add: some_options_def chosen_nonce_def chosen_time_def)

theorem client_request_verifies_witness:
  "fst (verifySignedRequest plain_crypto consume_nonce 5000 (as_sent plain_crypto [] 4000 some_options 300 ''k'') default_nonces)
    = Accepted"
  using client_request_verifies [OF plain_crypto_hmac, of some_options "[]" consume_nonce 5000 4000 300 "''k''" default_nonces]
  by (simp add: some_options_fields consume_nonce_def prune_def default_nonces_def NonceStore_def jm_has_def)

text \<open>
  Within the lifetime of its nonce a request is accepted once: in a history of requests with whatever other
  signatures and nonces in between, two that are accepted under the same nonce and scope are at least the
  time-to-live of the store apart.
\<close>

theorem accepted_once_within_ttl:
  assumes "nonces_valid T s" "sorted (map fst es)" "i < j" "j < length es"
    "fst (verify_all C consume_nonce es s) ! i = Accepted" "fst (verify_all C consume_nonce es s) ! j = Accepted"
    "nonce_of (snd (es ! j)) = nonce_of (snd (es ! i))" "sr_scope (snd (es ! j)) = sr_scope (snd (es ! i))"
  shows "fst (es ! i) + T \<le> fst (es ! j)"
  by (rule mem.accepted_once_per_ttl [OF assms])

definition replay_history :: "int \<Rightarrow> (int \<times> signed_request) list" where
  "replay_history t2 = (let q = as_sent plain_crypto [] 4000 some_options 300 ''k'' in [(4000, q), (t2, q)])"

lemma replay_history_verdicts:
  "fst (verify_all plain_crypto consume_nonce (replay_history 304500) default_nonces) = [Accepted, Accepted]"
  by (simp add: replay_history_def Let_def verifySignedRequest_def
      as_sent_checks [OF plain_crypto_hmac] some_options_fields consume_nonce_def prune_def default_nonces_def
      NonceStore_def jm_has_def)

theorem accepted_once_within_ttl_witness: "fst (replay_history 304500 ! 0) + 300000 \<le> fst (replay_history 304500 ! 1)"
  by (rule accepted_once_within_ttl [of 300000 default_nonces "replay_history 304500" 0 1 plain_crypto])
    (simp_all add: replay_history_verdicts, simp_all add: replay_history_def Let_def)

text \<open>
  C12. With the defaults (nonces remembered for 300 seconds, timestamps up to 300 seconds off) a request that reaches
  the server in a later second than the one in its timestamp is never accepted again: when its nonce is forgotten its
  timestamp is too old.
\<close>

theorem older_request_never_replayed:
  assumes "nonces_valid 300000 s" "sorted (map fst es)" "i < j" "j < length es"
    "fst (verify_all C consume_nonce es s) ! i = Accepted" "snd (es ! j) = snd (es ! i)" "sr_maxAge (snd (es ! i)) \<le> 300"
    "parse_int (header (snd (es ! i)) ''x-signature-timestamp'') = Some ts" "ts < fst (es ! i) div 1000"
  shows "fst (verify_all C consume_nonce es s) ! j \<noteq> Accepted"
proof
  assume again: "fst (verify_all C consume_nonce es s) ! j = Accepted"
  have "fst (es ! i) + 300000 \<le> fst (es ! j)"
    using mem.accepted_once_per_ttl [OF assms(1-5) again] assms(6) by simp
  then have "fst (es ! i) div 1000 + 300 \<le> fst (es ! j) div 1000"
    using zdiv_mono1 [of "fst (es ! i) + 300 * 1000" "fst (es ! j)" 1000] by simp
  moreover have "\<bar>fst (es ! j) div 1000 - ts\<bar> \<le> 300"
    using verify_all_window [OF assms(4) again] assms(6-8) by auto
  ultimately show False using assms(9) by simp
qed

definition late_history :: "(int \<times> signed_request) list" where
  "late_history = (let q = as_sent plain_crypto [] 4000 some_options 300 ''k'' in [(5000, q), (305500, q)])"

theorem older_request_never_replayed_witness:
  "fst (verify_all plain_crypto consume_nonce late_history default_nonces) ! 1 \<noteq> Accepted"
proof (rule older_request_never_replayed [OF default_nonces_valid, of late_history 0 1 plain_crypto 4])
  show "fst (verify_all plain_crypto consume_nonce late_history default_nonces) ! 0 = Accepted"
    by (simp add: late_history_def Let_def verifySignedRequest_def as_sent_checks [OF plain_crypto_hmac]
        some_options_fields consume_nonce_def prune_def default_nonces_def NonceStore_def jm_has_def split: prod.split)
qed (simp_all add: late_history_def Let_def as_sent_headers some_options_fields)

text \<open>
  A request that reaches the server within the second of its timestamp, or is dated ahead, can be replayed: sent
  again, with nothing else in between, it is accepted a second time exactly if 300 seconds have passed since the
  first time and the second of its timestamp is not yet more than 300 seconds ago.
\<close>

theorem replay_accepted_iff:
  assumes "\<And>k m. hmac256 C k m \<noteq> []" "so_secret opts \<noteq> []" "chosen_nonce random opts \<noteq> []"
    "nonces_valid 300000 s" "t1 \<le> t2"
    "verifySignedRequest C consume_nonce t1 (as_sent C random now opts 300 scope) s = (Accepted, s')"
  shows "fst (verifySignedRequest C consume_nonce t2 (as_sent C random now opts 300 scope) s') = Accepted
    \<longleftrightarrow> t1 + 300000 \<le> t2 \<and> t2 div 1000 \<le> chosen_time now opts + 300"
proof -
  let ?n = "chosen_nonce random opts" and ?q = "as_sent C random now opts 300 scope" and ?ts = "chosen_time now opts"
  let ?k = "nonce_key scope ?n" and ?old = "ns_entries (prune t1 s)"
  have checks: "(\<exists>n. signature_checks C t ?q = Inr n) \<longleftrightarrow> \<bar>t div 1000 - ?ts\<bar> \<le> 300" for t
    using as_sent_checks [OF assms(1-3), of t now 300 scope] by auto
  have first: "\<bar>t1 div 1000 - ?ts\<bar> \<le> 300" "fst (consume_nonce t1 ?n scope s)" "s' = snd (consume_nonce t1 ?n scope s)"
    using verify_accepted_iff [of C consume_nonce t1 ?q s] verify_state [of C consume_nonce t1 ?q s] checks [of t1] assms(6)
    by (auto simp: as_sent_nonce)
  have old: "\<not> jm_has ?old ?k" "length ?old < ns_maxEntries s" using first(2) by (auto simp: consume_nonce_fresh)
  have s': "ns_entries s' = jm_set ?k (t1 + 300000) ?old" "ns_maxEntries s' = ns_maxEntries s"
    using first(2,3) assms(4) by (simp_all add: consume_nonce_state nonces_valid_def)
  have wf: "jm_wf (ns_entries s')" using s' assms(4) by (simp add: prune_wf nonces_valid_def)
  have held: "jm_has (ns_entries (prune t2 s')) ?k \<longleftrightarrow> t2 < t1 + 300000"
    by (simp add: jm_has_def prune_get [OF wf] s')
  have room: "length (ns_entries (prune t2 s')) < ns_maxEntries s" if "t1 + 300000 \<le> t2"
    using that old by (simp add: prune_def [of t2 s'] s' filter_jm_set_out le_less_trans [OF length_filter_le])
  have "fst (consume_nonce t2 ?n scope s') \<longleftrightarrow> t1 + 300000 \<le> t2"
    using held room by (auto simp: consume_nonce_fresh s')
  moreover have "\<bar>t2 div 1000 - ?ts\<bar> \<le> 300 \<longleftrightarrow> t2 div 1000 \<le> ?ts + 300"
    using first(1) zdiv_mono1 [OF assms(5), of 1000] by auto
  ultimately show ?thesis
    using verify_accepted_iff [of C consume_nonce t2 ?q s'] checks [of t2] by (auto simp: as_sent_nonce)
qed

theorem replay_accepted_iff_witness:
  "\<exists>s'. fst (verifySignedRequest plain_crypto consume_nonce 304500 (as_sent plain_crypto [] 4000 some_options 300 ''k'') s')
    = Accepted"
proof -
  let ?q = "as_sent plain_crypto [] 4000 some_options 300 ''k''"
  have "fst (verifySignedRequest plain_crypto consume_nonce 4000 ?q default_nonces) = Accepted"
    using replay_history_verdicts by (simp add: replay_history_def Let_def split: prod.splits)
  then have "verifySignedRequest plain_crypto consume_nonce 4000 ?q default_nonces
      = (Accepted, snd (verifySignedRequest plain_crypto consume_nonce 4000 ?q default_nonces))"
    by (metis prod.collapse)
  from replay_accepted_iff [OF plain_crypto_hmac _ _ default_nonces_valid _ this, of 304500]
  show ?thesis by (intro exI) (simp add: some_options_fields)
qed

text \<open>
  What is signed is unambiguous: two requests with the same canonical string agree in method (up to case), path,
  timestamp, nonce and the hash of the body, as long as methods, paths and timestamps contain no line feed.
\<close>

theorem canonical_string_unambiguous:
  assumes "buildCanonicalString C m p ts n b = buildCanonicalString C m' p' ts' n' b'"
    "CHR 10 \<notin> set (to_upper m @ p @ ts)" "CHR 10 \<notin> set (to_upper m' @ p' @ ts')"
  shows "to_upper m = to_upper m' \<and> p = p' \<and> ts = ts' \<and> n = n' \<and> hashBody C b = hashBody C b'"
proof -
  have "CHR 10 \<notin> set (hashBody C b)" "CHR 10 \<notin> set (hashBody C b')"
    using hex_plain [OF to_hex_all_hex] by (auto simp: hashBody_def)
  then show ?thesis
    using assms by (simp add: buildCanonicalString_def join_def first_separator last_separator)
qed

theorem canonical_string_unambiguous_witness:
  "hashBody plain_crypto (Text ''a'') = hashBody plain_crypto (Buf (utf8_bytes ''a''))"
  using canonical_string_unambiguous [of plain_crypto "''get''" "''/x''" "''1''" "''n''" "Text ''a''"
      "''GET''" "''/x''" "''1''" "''n''" "Buf (utf8_bytes ''a'')"]
  by (simp add: buildCanonicalString_def hashBody_def to_upper_def upper_char_def char_code_def)

end
