(* ===== verification/ApiKeys.thy ===== *)
theory ApiKeys
  imports Signing
begin

text \<open>
  Models \<open>sdk/src/server/api-keys.ts\<close>: the in-memory key store with its two maps, issuing a key, and the
  authentication middleware. The store's operations are asynchronous but run in one piece, so each is a function.
  The middleware reads the clock twice.

  The specification of the store is the set of its records: the index by hash must not show in it.
\<close>

section \<open>The store\<close>

datatype key_scope = ReadScope | WriteScope | AdminScope

fun scope_name :: "key_scope \<Rightarrow> string" where
  "scope_name ReadScope = ''read''"
| "scope_name WriteScope = ''write''"
| "scope_name AdminScope = ''admin''"

record key_metadata =
  k_id :: string
  k_owner :: string
  k_createdAt :: int
  k_lastUsedAt :: "int option"
  k_scopes :: "key_scope list"

record key_record = key_metadata +
  k_hashedKey :: string

record key_store =
  ks_byId :: "(string, key_record) jsmap"
  ks_byHash :: "(string, string) jsmap"

definition InMemoryApiKeyStore :: key_store where
  "InMemoryApiKeyStore = \<lparr>ks_byId = [], ks_byHash = []\<rparr>"

definition insertKey :: "key_record \<Rightarrow> key_store \<Rightarrow> thrown + key_store" where
  "insertKey r s = (if jm_has (ks_byId s) (k_id r) then
       Inl (SdkThrown (sdk_error_init (''api key '' @ k_id r @ '' already exists'')
         (empty_init\<lparr>init_code := Some ALREADY_EXISTS, init_details := Some [(''id'', DStr (k_id r))]\<rparr>) None))
     else Inr \<lparr>ks_byId = jm_set (k_id r) r (ks_byId s), ks_byHash = jm_set (k_hashedKey r) (k_id r) (ks_byHash s)\<rparr>)"

definition findByHashedKey :: "string \<Rightarrow> key_store \<Rightarrow> key_record option" where
  "findByHashedKey h s = (case jm_get (ks_byHash s) h of
     Some i \<Rightarrow> if i \<noteq> [] then jm_get (ks_byId s) i else None
   | None \<Rightarrow> None)"

definition listKeys :: "key_store \<Rightarrow> key_metadata list" where
  "listKeys s = map key_metadata.truncate (jm_values (ks_byId s))"

definition removeKey :: "string \<Rightarrow> key_store \<Rightarrow> bool \<times> key_store" where
  "removeKey i s = (case jm_get (ks_byId s) i of
     None \<Rightarrow> (False, s)
   | Some r \<Rightarrow> (True, \<lparr>ks_byId = jm_delete i (ks_byId s), ks_byHash = jm_delete (k_hashedKey r) (ks_byHash s)\<rparr>))"

definition touchKey :: "string \<Rightarrow> int \<Rightarrow> key_store \<Rightarrow> key_store" where
  "touchKey i when s = (case jm_get (ks_byId s) i of
     None \<Rightarrow> s
   | Some r \<Rightarrow> s\<lparr>ks_byId := jm_set i (r\<lparr>k_lastUsedAt := Some when\<rparr>) (ks_byId s)\<rparr>)"

section \<open>Issuing and authenticating\<close>

definition hashApiKey :: "crypto \<Rightarrow> string \<Rightarrow> string" where
  "hashApiKey C rawKey = to_hex (sha256 C (utf8_bytes rawKey))"

text \<open>\<open>random\<close>, \<open>now\<close> and \<open>id\<close> are what the options' functions, or their defaults, return.\<close>

definition issueApiKey :: "crypto \<Rightarrow> byte list \<Rightarrow> int \<Rightarrow> string \<Rightarrow> string \<Rightarrow> key_scope list option \<Rightarrow> key_store
    \<Rightarrow> (thrown + string \<times> key_metadata) \<times> key_store" where
  "issueApiKey C random now i owner scopes s = (let
     rawKey = ''sk_'' @ to_hex random;
     meta = \<lparr>k_id = i, k_owner = owner, k_createdAt = now, k_lastUsedAt = None,
       k_scopes = (case scopes of Some sc \<Rightarrow> sc | None \<Rightarrow> [ReadScope])\<rparr>
   in case insertKey (key_metadata.extend meta \<lparr>k_hashedKey = hashApiKey C rawKey\<rparr>) s of
        Inl e \<Rightarrow> (Inl e, s)
      | Inr s' \<Rightarrow> (Inr (rawKey, meta), s'))"

definition parseAuthorizationHeader :: "string option \<Rightarrow> string option" where
  "parseAuthorizationHeader h = (case h of
     None \<Rightarrow> None
   | Some [] \<Rightarrow> None
   | Some v \<Rightarrow> (let trimmed = js_trim v in
       if \<not> starts_with (to_lower trimmed) ''bearer '' then None
       else (let token = js_trim (drop 7 trimmed) in if token = [] then None else Some token)))"

text \<open>A header of the request: missing, a string or the list of a repeated header.\<close>

datatype header_value = NoHeader | OneHeader string | Headers "string list"

definition first_header :: "header_value \<Rightarrow> string option" where
  "first_header h = (case h of NoHeader \<Rightarrow> None | OneHeader v \<Rightarrow> Some v
     | Headers vs \<Rightarrow> (case vs of [] \<Rightarrow> None | v # _ \<Rightarrow> Some v))"

datatype auth_result = Passed key_metadata | Denied nat envelope

definition deny :: "nat \<Rightarrow> string \<Rightarrow> auth_result" where
  "deny status m = Denied status (toEnvelope (sdk_error_code m UNAUTHORIZED None))"

definition apiKeyAuth :: "crypto \<Rightarrow> int \<Rightarrow> int \<Rightarrow> key_scope option \<Rightarrow> header_value \<Rightarrow> key_store
    \<Rightarrow> auth_result \<times> key_store" where
  "apiKeyAuth C now1 now2 requireScope authorization s = (case parseAuthorizationHeader (first_header authorization) of
     None \<Rightarrow> (deny 401 ''missing or malformed Authorization header'', s)
   | Some rawKey \<Rightarrow> (case findByHashedKey (hashApiKey C rawKey) s of
       None \<Rightarrow> (deny 401 ''invalid API key'', s)
     | Some r \<Rightarrow> (case requireScope of
         Some sc \<Rightarrow> if sc \<notin> set (k_scopes r) then (deny 403 (''scope '' @ scope_name sc @ '' required''), s)
           else (Passed ((key_metadata.truncate r)\<lparr>k_lastUsedAt := Some now2\<rparr>), touchKey (k_id r) now1 s)
       | None \<Rightarrow> (Passed ((key_metadata.truncate r)\<lparr>k_lastUsedAt := Some now2\<rparr>), touchKey (k_id r) now1 s))))"

section \<open>The specification: a set of records\<close>

definition key_records :: "key_store \<Rightarrow> key_record set" where
  "key_records s = set (jm_values (ks_byId s))"

text \<open>The two maps agree: the records are filed under their ids, and the index by hash is exact.\<close>

definition keys_inv :: "key_store \<Rightarrow> bool" where
  "keys_inv s = (jm_wf (ks_byId s) \<and> jm_wf (ks_byHash s) \<and>
     (\<forall>(i, r) \<in> set (ks_byId s). k_id r = i \<and> i \<noteq> [] \<and> jm_get (ks_byHash s) (k_hashedKey r) = Some i) \<and>
     (\<forall>(h, i) \<in> set (ks_byHash s). \<exists>(j, r) \<in> set (ks_byId s). j = i \<and> k_hashedKey r = h))"

datatype key_op = Insert key_record | Remove string | Touch string int

fun apply_op :: "key_op \<Rightarrow> key_store \<Rightarrow> key_store" where
  "apply_op (Insert r) s = (case insertKey r s of Inr s' \<Rightarrow> s' | Inl e \<Rightarrow> s)"
| "apply_op (Remove i) s = snd (removeKey i s)"
| "apply_op (Touch i t) s = touchKey i t s"

fun spec_op :: "key_op \<Rightarrow> key_record set \<Rightarrow> key_record set" where
  "spec_op (Insert r) A = (if k_id r \<in> k_id ` A then A else insert r A)"
| "spec_op (Remove i) A = {r \<in> A. k_id r \<noteq> i}"
| "spec_op (Touch i t) A = (\<lambda>r. if k_id r = i then r\<lparr>k_lastUsedAt := Some t\<rparr> else r) ` A"

text \<open>Keys are inserted under non-empty ids, and their hashes are new.\<close>

fun fresh_op :: "key_op \<Rightarrow> key_record set \<Rightarrow> bool" where
  "fresh_op (Insert r) A = (k_id r \<noteq> [] \<and> k_hashedKey r \<notin> k_hashedKey ` A)"
| "fresh_op _ A = True"

fun fresh_ops :: "key_op list \<Rightarrow> key_record set \<Rightarrow> bool" where
  "fresh_ops [] A = True"
| "fresh_ops (op # ops) A = (fresh_op op A \<and> fresh_ops ops (spec_op op A))"

section \<open>Lemmas\<close>

lemma jm_mem: "jm_wf m \<Longrightarrow> (k, v) \<in> set m \<longleftrightarrow> jm_get m k = Some v"
  using jm_get_in jm_in_get by metis

lemma keys_invI:
  assumes "jm_wf (ks_byId s)" "jm_wf (ks_byHash s)"
    "\<And>i r. jm_get (ks_byId s) i = Some r \<Longrightarrow> k_id r = i \<and> i \<noteq> [] \<and> jm_get (ks_byHash s) (k_hashedKey r) = Some i"
    "\<And>h i. jm_get (ks_byHash s) h = Some i \<Longrightarrow> \<exists>r. jm_get (ks_byId s) i = Some r \<and> k_hashedKey r = h"
  shows "keys_inv s"
proof -
  have "\<forall>(i, r) \<in> set (ks_byId s). k_id r = i \<and> i \<noteq> [] \<and> jm_get (ks_byHash s) (k_hashedKey r) = Some i"
    using assms(3) [OF jm_in_get [OF assms(1)]] by auto
  moreover have "\<forall>(h, i) \<in> set (ks_byHash s). \<exists>(j, r) \<in> set (ks_byId s). j = i \<and> k_hashedKey r = h"
    using assms(4) [OF jm_in_get [OF assms(2)]] jm_get_in by fastforce
  ultimately show ?thesis unfolding keys_inv_def using assms(1,2) by blast
qed

lemma keys_inv_wf: "keys_inv s \<Longrightarrow> jm_wf (ks_byId s)" "keys_inv s \<Longrightarrow> jm_wf (ks_byHash s)"
  by (simp_all add: keys_inv_def)

lemma keys_inv_id: "keys_inv s \<Longrightarrow> jm_get (ks_byId s) i = Some r \<Longrightarrow>
    k_id r = i \<and> i \<noteq> [] \<and> jm_get (ks_byHash s) (k_hashedKey r) = Some i"
  unfolding keys_inv_def using jm_get_in by fastforce

lemma keys_inv_hash: "keys_inv s \<Longrightarrow> jm_get (ks_byHash s) h = Some i \<Longrightarrow>
    \<exists>r. jm_get (ks_byId s) i = Some r \<and> k_hashedKey r = h"
proof -
  assume a: "keys_inv s" "jm_get (ks_byHash s) h = Some i"
  then have "(h, i) \<in> set (ks_byHash s)" by (rule_tac jm_get_in)
  then obtain r where "(i, r) \<in> set (ks_byId s)" "k_hashedKey r = h" using a(1) unfolding keys_inv_def by fastforce
  then show ?thesis using jm_in_get keys_inv_wf(1) [OF a(1)] by metis
qed

lemma in_key_records: "jm_wf (ks_byId s) \<Longrightarrow> r \<in> key_records s \<longleftrightarrow> (\<exists>i. jm_get (ks_byId s) i = Some r)"
  by (simp add: key_records_def jm_values_iff)

lemma keys_byId: "keys_inv s \<Longrightarrow> jm_get (ks_byId s) i = Some r \<longleftrightarrow> r \<in> key_records s \<and> k_id r = i"
  using in_key_records [OF keys_inv_wf(1)] keys_inv_id by metis

lemma find_spec:
  assumes "keys_inv s"
  shows "findByHashedKey h s = Some r \<longleftrightarrow> r \<in> key_records s \<and> k_hashedKey r = h"
proof
  assume "findByHashedKey h s = Some r"
  then obtain i where "jm_get (ks_byHash s) h = Some i" "jm_get (ks_byId s) i = Some r"
    by (auto simp: findByHashedKey_def split: option.splits if_splits)
  then show "r \<in> key_records s \<and> k_hashedKey r = h"
    using keys_inv_hash [OF assms, of h i] keys_byId [OF assms, of i r] by auto
next
  assume r: "r \<in> key_records s \<and> k_hashedKey r = h"
  then have "jm_get (ks_byId s) (k_id r) = Some r" using keys_byId [OF assms] by simp
  then show "findByHashedKey h s = Some r" using r keys_inv_id [OF assms, of "k_id r" r] by (simp add: findByHashedKey_def)
qed

lemma has_id: "keys_inv s \<Longrightarrow> jm_has (ks_byId s) i \<longleftrightarrow> i \<in> k_id ` key_records s"
  using keys_byId [of s i] by (auto simp: jm_has_def image_iff)

lemma fresh_hash: "keys_inv s \<Longrightarrow> h \<notin> k_hashedKey ` key_records s \<Longrightarrow> jm_get (ks_byHash s) h = None"
  using keys_inv_hash keys_byId by (metis image_eqI not_None_eq)

lemma records_eqI:
  assumes "keys_inv s" "\<And>i r. jm_get (ks_byId s) i = Some r \<longleftrightarrow> r \<in> A \<and> k_id r = i"
  shows "key_records s = A"
  using keys_byId [OF assms(1)] assms(2) by auto

lemma records_id: "keys_inv s \<Longrightarrow> r \<in> key_records s \<Longrightarrow> r' \<in> key_records s \<Longrightarrow> k_id r = k_id r' \<Longrightarrow> r = r'"
  using keys_byId by (metis option.inject)

lemma insert_spec:
  assumes "keys_inv s" "fresh_op (Insert r) (key_records s)"
  shows "keys_inv (apply_op (Insert r) s)" "key_records (apply_op (Insert r) s) = spec_op (Insert r) (key_records s)"
proof -
  let ?s = "apply_op (Insert r) s"
  have wf: "jm_wf (ks_byId s)" "jm_wf (ks_byHash s)" using keys_inv_wf [OF assms(1)] .
  have fresh: "jm_get (ks_byHash s) (k_hashedKey r) = None" "k_id r \<noteq> []"
    using assms fresh_hash [OF assms(1)] by simp_all
  have "keys_inv ?s \<and> key_records ?s = spec_op (Insert r) (key_records s)"
  proof (cases "jm_has (ks_byId s) (k_id r)")
    case True
    then show ?thesis using assms(1) has_id [OF assms(1)] by (simp add: insertKey_def)
  next
    case False
    then have s: "?s = \<lparr>ks_byId = jm_set (k_id r) r (ks_byId s), ks_byHash = jm_set (k_hashedKey r) (k_id r) (ks_byHash s)\<rparr>"
      by (simp add: insertKey_def)
    have none: "jm_get (ks_byId s) (k_id r) = None" using False by (simp add: jm_has_def)
    have inv: "keys_inv ?s"
      unfolding s
    proof (rule keys_invI, goal_cases)
      case (3 i r')
      then show ?case using keys_inv_id [OF assms(1), of i r'] fresh by (auto split: if_splits)
    next
      case (4 h i)
      then show ?case using keys_inv_hash [OF assms(1)] none by (fastforce split: if_splits)
    qed (simp_all add: wf)
    have "key_records ?s = insert r (key_records s)"
      unfolding s by (rule records_eqI [OF inv [unfolded s]]) (use none keys_byId [OF assms(1)] keys_byId [OF assms(1), of "k_id r"] in \<open>auto\<close>)
    then show ?thesis using inv False has_id [OF assms(1)] by simp
  qed
  then show "keys_inv ?s" "key_records ?s = spec_op (Insert r) (key_records s)" by simp_all
qed

lemma remove_spec:
  assumes "keys_inv s"
  shows "keys_inv (apply_op (Remove i) s)" "key_records (apply_op (Remove i) s) = spec_op (Remove i) (key_records s)"
proof -
  let ?s = "apply_op (Remove i) s"
  have "keys_inv ?s \<and> key_records ?s = spec_op (Remove i) (key_records s)"
  proof (cases "jm_get (ks_byId s) i")
    case None
    then have "\<forall>r \<in> key_records s. k_id r \<noteq> i" using keys_byId [OF assms, of i] by auto
    then show ?thesis using None assms by (auto simp: removeKey_def)
  next
    case (Some r)
    then have s: "?s = \<lparr>ks_byId = jm_delete i (ks_byId s), ks_byHash = jm_delete (k_hashedKey r) (ks_byHash s)\<rparr>"
      by (simp add: removeKey_def)
    have inv: "keys_inv ?s"
      unfolding s
    proof (rule keys_invI, goal_cases)
      case (3 j r')
      then show ?case using keys_inv_id [OF assms, of j r'] keys_inv_id [OF assms Some] by (auto split: if_splits)
    next
      case (4 h j)
      then show ?case using keys_inv_hash [OF assms, of h j] keys_inv_id [OF assms Some] Some by (auto split: if_splits)
    qed (simp_all add: keys_inv_wf [OF assms])
    have "key_records ?s = {r \<in> key_records s. k_id r \<noteq> i}"
      unfolding s by (rule records_eqI [OF inv [unfolded s]]) (use keys_byId [OF assms] in \<open>auto\<close>)
    then show ?thesis using inv by simp
  qed
  then show "keys_inv ?s" "key_records ?s = spec_op (Remove i) (key_records s)" by simp_all
qed

lemma touch_spec:
  assumes "keys_inv s"
  shows "keys_inv (apply_op (Touch i t) s)" "key_records (apply_op (Touch i t) s) = spec_op (Touch i t) (key_records s)"
proof -
  let ?s = "apply_op (Touch i t) s"
  have "keys_inv ?s \<and> key_records ?s = spec_op (Touch i t) (key_records s)"
  proof (cases "jm_get (ks_byId s) i")
    case None
    then have "\<forall>r \<in> key_records s. k_id r \<noteq> i" using keys_byId [OF assms, of i] by auto
    then show ?thesis using None assms by (auto simp: touchKey_def)
  next
    case (Some r)
    then have s: "?s = s\<lparr>ks_byId := jm_set i (r\<lparr>k_lastUsedAt := Some t\<rparr>) (ks_byId s)\<rparr>"
      by (simp add: touchKey_def)
    have inv: "keys_inv ?s"
      unfolding s
    proof (rule keys_invI, goal_cases)
      case (3 j r')
      then show ?case using keys_inv_id [OF assms] Some by (auto split: if_splits)
    next
      case (4 h j)
      then show ?case using keys_inv_hash [OF assms, of h j] Some by (auto split: if_splits)
    qed (simp_all add: keys_inv_wf [OF assms])
    have r: "r \<in> key_records s" "k_id r = i" using keys_byId [OF assms] Some by auto
    let ?f = "\<lambda>r. if k_id r = i then r\<lparr>k_lastUsedAt := Some t\<rparr> else r"
    have same: "x = r" if "x \<in> key_records s" "k_id x = i" for x
      using records_id [OF assms r(1) that(1)] that(2) r(2) by simp
    have rest: "?f ` (key_records s - {r}) = key_records s - {r}"
    proof -
      have "?f ` (key_records s - {r}) = id ` (key_records s - {r})"
        by (rule image_cong [OF refl]) (use same in auto)
      then show ?thesis by (simp only: image_id id_apply)
    qed
    have "?f ` key_records s = ?f ` insert r (key_records s - {r})" using r(1) by (simp only: insert_Diff)
    then have image: "?f ` key_records s = insert (?f r) (key_records s - {r})" by (simp only: image_insert rest)
    have "key_records ?s = ?f ` key_records s"
      unfolding s image
    proof (rule records_eqI [OF inv [unfolded s]])
      fix j r'
      show "jm_get (ks_byId (s\<lparr>ks_byId := jm_set i (r\<lparr>k_lastUsedAt := Some t\<rparr>) (ks_byId s)\<rparr>)) j = Some r' \<longleftrightarrow>
          r' \<in> insert (?f r) (key_records s - {r}) \<and> k_id r' = j"
        using r same [of r'] keys_byId [OF assms, of j r'] by auto
    qed
    then show ?thesis using inv by simp
  qed
  then show "keys_inv ?s" "key_records ?s = spec_op (Touch i t) (key_records s)" by simp_all
qed

section \<open>Properties\<close>

text \<open>
  The key store implements a set of records: after any operations that insert keys with new hashes, the records are
  those of the specification, and looking a hash up finds exactly the record that has it, or nothing. The two maps
  never disagree; inserting an id that exists changes nothing.
\<close>

theorem key_store_refines_records:
  assumes "keys_inv s" "fresh_ops ops (key_records s)"
  shows "keys_inv (fold apply_op ops s) \<and> key_records (fold apply_op ops s) = fold spec_op ops (key_records s) \<and>
    (findByHashedKey h (fold apply_op ops s) = Some r \<longleftrightarrow> r \<in> fold spec_op ops (key_records s) \<and> k_hashedKey r = h)"
proof -
  have "keys_inv (fold apply_op ops s) \<and> key_records (fold apply_op ops s) = fold spec_op ops (key_records s)"
    using assms
  proof (induction ops arbitrary: s)
    case (Cons op ops)
    have "keys_inv (apply_op op s)" "key_records (apply_op op s) = spec_op op (key_records s)"
      using Cons.prems insert_spec [of s] remove_spec [of s] touch_spec [of s] by (cases op; simp)+
    then show ?case using Cons by simp
  qed simp
  then show ?thesis using find_spec by metis
qed

definition some_key :: "string \<Rightarrow> string \<Rightarrow> key_record" where
  "some_key i h = \<lparr>k_id = i, k_owner = ''alice'', k_createdAt = 0, k_lastUsedAt = None, k_scopes = [ReadScope], k_hashedKey = h\<rparr>"

lemma empty_store_inv [simp]: "keys_inv InMemoryApiKeyStore" "key_records InMemoryApiKeyStore = {}"
  by (simp_all add: keys_inv_def InMemoryApiKeyStore_def key_records_def jm_values_def)

theorem key_store_refines_records_witness:
  "key_records (fold apply_op [Insert (some_key ''a'' ''h1''), Insert (some_key ''b'' ''h2''), Remove ''a''] InMemoryApiKeyStore)
    = {some_key ''b'' ''h2''}"
proof -
  let ?ops = "[Insert (some_key ''a'' ''h1''), Insert (some_key ''b'' ''h2''), Remove ''a'']"
  have "fresh_ops ?ops (key_records InMemoryApiKeyStore)" by (simp add: some_key_def)
  from key_store_refines_records [OF empty_store_inv(1) this]
  have "key_records (fold apply_op ?ops InMemoryApiKeyStore) = fold spec_op ?ops (key_records InMemoryApiKeyStore)"
    by blast
  also have "\<dots> = {some_key ''b'' ''h2''}" by (auto simp: some_key_def)
  finally show ?thesis .
qed

text \<open>
  The middleware lets a request through exactly if its header carries a bearer token whose SHA-256 is the hash of
  a record of the store, and that record has the scope the route requires; it then passes on that record's metadata.
\<close>

theorem auth_passes_iff:
  assumes "keys_inv s"
  shows "fst (apiKeyAuth C now1 now2 requireScope hdr s) = Passed m \<longleftrightarrow>
    (\<exists>token r. parseAuthorizationHeader (first_header hdr) = Some token \<and> r \<in> key_records s \<and>
      k_hashedKey r = hashApiKey C token \<and> (\<forall>sc. requireScope = Some sc \<longrightarrow> sc \<in> set (k_scopes r)) \<and>
      m = (key_metadata.truncate r)\<lparr>k_lastUsedAt := Some now2\<rparr>)"
proof -
  have "(\<exists>token r. parseAuthorizationHeader (first_header hdr) = Some token \<and> r \<in> key_records s \<and>
      k_hashedKey r = hashApiKey C token \<and> P r) \<longleftrightarrow>
    (\<exists>token r. parseAuthorizationHeader (first_header hdr) = Some token \<and>
      findByHashedKey (hashApiKey C token) s = Some r \<and> P r)" for P
    by (simp add: find_spec [OF assms] conj_assoc)
  then show ?thesis by (simp only:) (auto simp: apiKeyAuth_def deny_def split: option.splits)
qed

theorem auth_passes_iff_witness:
  "fst (apiKeyAuth plain_crypto 1 2 None NoHeader InMemoryApiKeyStore) \<noteq> Passed (key_metadata.truncate (some_key ''a'' ''h''))"
  using auth_passes_iff [OF empty_store_inv(1), of plain_crypto 1 2 None NoHeader] by simp

lemma dropWhile_id: "s \<noteq> [] \<Longrightarrow> \<not> P (hd s) \<Longrightarrow> dropWhile P s = s"
  by (cases s) auto

lemma js_trim_id: "s \<noteq> [] \<Longrightarrow> \<not> js_space (hd s) \<Longrightarrow> \<not> js_space (last s) \<Longrightarrow> js_trim s = s"
  by (simp add: js_trim_def dropWhile_id hd_rev)

lemma hex_no_space: "is_hex c \<Longrightarrow> \<not> js_space c"
  by (auto simp: is_hex_def hex_val_def js_space_def Let_def split: if_splits)

lemma parse_bearer: "parseAuthorizationHeader (Some (''Bearer sk_'' @ to_hex bs)) = Some (''sk_'' @ to_hex bs)"
proof -
  have "\<not> js_space (last (''sk_'' @ to_hex bs))"
    using to_hex_all_hex [of bs] hex_no_space
    by (cases "to_hex bs" rule: rev_cases) (auto simp: js_space_def char_code_def)
  then have raw: "js_trim (''sk_'' @ to_hex bs) = ''sk_'' @ to_hex bs"
    "js_trim (''Bearer '' @ ''sk_'' @ to_hex bs) = ''Bearer '' @ ''sk_'' @ to_hex bs"
    using js_trim_id [of "''sk_'' @ to_hex bs"] js_trim_id [of "''Bearer sk_'' @ to_hex bs"]
    by (simp_all add: js_space_def char_code_def)
  have low: "to_lower ''Bearer '' = ''bearer ''" by code_simp
  have "starts_with (to_lower (''Bearer '' @ ''sk_'' @ to_hex bs)) ''bearer ''"
    unfolding to_lower_append low starts_with_iff by blast
  then show ?thesis
    using raw by (simp add: parseAuthorizationHeader_def)
qed

text \<open>
  An issued key works until it is removed: the raw key, sent as a bearer token, authenticates its owner with the
  issued metadata on every route whose scope it was issued with, and not any more once its id is removed.
\<close>

theorem issued_key_authenticates:
  assumes "keys_inv s" "i \<noteq> []" "hashApiKey C (''sk_'' @ to_hex random) \<notin> k_hashedKey ` key_records s"
    "issueApiKey C random now i owner scopes s = (Inr (rawKey, meta), s')"
  shows "apiKeyAuth C now1 now2 requireScope (OneHeader (''Bearer '' @ rawKey)) s' =
      (if \<forall>sc. requireScope = Some sc \<longrightarrow> sc \<in> set (k_scopes meta)
       then (Passed (meta\<lparr>k_lastUsedAt := Some now2\<rparr>), touchKey i now1 s')
       else (deny 403 (''scope '' @ scope_name (the requireScope) @ '' required''), s')) \<and>
    fst (apiKeyAuth C now1 now2 requireScope (OneHeader (''Bearer '' @ rawKey)) (snd (removeKey i s')))
      = deny 401 ''invalid API key''"
proof -
  let ?raw = "''sk_'' @ to_hex random"
  define r where "r = key_metadata.extend meta \<lparr>k_hashedKey = hashApiKey C ?raw\<rparr>"
  have issued: "rawKey = ?raw" "insertKey r s = Inr s'" "k_id meta = i"
    using assms(4) unfolding issueApiKey_def r_def by (auto simp: Let_def split: sum.splits)
  have fields: "k_id r = i" "k_hashedKey r = hashApiKey C rawKey" "key_metadata.truncate r = meta" "k_scopes r = k_scopes meta"
    using issued by (simp_all add: r_def key_metadata.defs)
  have s': "apply_op (Insert r) s = s'" by (simp add: issued)
  have fresh: "fresh_op (Insert r) (key_records s)" "k_id r \<notin> k_id ` key_records s"
    using assms(2,3) fields issued has_id [OF assms(1), of i] by (auto simp: insertKey_def split: if_splits)
  have inv: "keys_inv s'" and recs: "key_records s' = insert r (key_records s)"
    using insert_spec [OF assms(1) fresh(1)] fresh(2) by (simp_all add: issued)
  have "findByHashedKey (hashApiKey C rawKey) s' = Some r"
    using find_spec [OF inv] recs fields by simp
  moreover have "findByHashedKey (hashApiKey C rawKey) (snd (removeKey i s')) = None"
  proof (rule ccontr)
    assume "\<not> ?thesis"
    then obtain x where "x \<in> key_records (snd (removeKey i s'))" "k_hashedKey x = hashApiKey C rawKey"
      using find_spec [of "snd (removeKey i s')"] remove_spec(1) [OF inv, of i] by auto
    then have "x \<in> insert r (key_records s)" "k_id x \<noteq> i" "k_hashedKey x = hashApiKey C ?raw"
      using remove_spec(2) [OF inv, of i] recs issued(1) by auto
    then show False using assms(3) fields(1) by (metis image_eqI insertE)
  qed
  moreover have "parseAuthorizationHeader (first_header (OneHeader (''Bearer '' @ rawKey))) = Some rawKey"
    using parse_bearer [of random] issued(1) by (simp add: first_header_def)
  ultimately show ?thesis by (auto simp: apiKeyAuth_def fields split: option.split)
qed

theorem issued_key_authenticates_witness:
  "fst (apiKeyAuth plain_crypto 1 2 (Some ReadScope) (OneHeader ''Bearer sk_ff'')
      (snd (issueApiKey plain_crypto [255] 0 ''a'' ''alice'' None InMemoryApiKeyStore)))
    = Passed \<lparr>k_id = ''a'', k_owner = ''alice'', k_createdAt = 0, k_lastUsedAt = Some 2, k_scopes = [ReadScope]\<rparr>"
proof -
  have hex: "''sk_'' @ to_hex [255] = ''sk_ff''" by code_simp
  have issue: "issueApiKey plain_crypto [255] 0 ''a'' ''alice'' None InMemoryApiKeyStore
      = (Inr (''sk_ff'', \<lparr>k_id = ''a'', k_owner = ''alice'', k_createdAt = 0, k_lastUsedAt = None, k_scopes = [ReadScope]\<rparr>),
         snd (issueApiKey plain_crypto [255] 0 ''a'' ''alice'' None InMemoryApiKeyStore))"
    unfolding issueApiKey_def hex Let_def by (simp add: insertKey_def InMemoryApiKeyStore_def jm_has_def)
  from issued_key_authenticates [OF empty_store_inv(1) _ _ this, of 1 2 "Some ReadScope"]
  show ?thesis by simp
qed

end
