(* ===== verification/CircuitBreaker.thy ===== *)
theory CircuitBreaker
  imports JsValue Machine
begin

text \<open>
  Models \<open>server/src/circuit-breaker.js\<close>: the three-state breaker around the calls to the Soroban RPC. Calls overlap:
  a call is admitted or turned away when it begins, and reports back when its function settles or its timer fires,
  possibly after the breaker has changed state. The handlers are functions on the breaker's private fields, with the
  list of events they emit; the step relation runs them in any order.

  Log lines and the trace span are not modelled, the ISO timestamp of a state change is its time in milliseconds, and
  listeners neither throw nor call back into the breaker.
\<close>

section \<open>State\<close>

datatype breaker_state = CLOSED | OPEN | HALF_OPEN

record breaker_config =
  cf_failureThreshold :: nat
  cf_successThreshold :: nat
  cf_openDurationMs :: int
  cf_timeoutMs :: "int option"
  cf_enabled :: bool

definition default_breaker :: breaker_config where
  "default_breaker = \<lparr>cf_failureThreshold = 5, cf_successThreshold = 2, cf_openDurationMs = 30000,
     cf_timeoutMs = Some 10000, cf_enabled = True\<rparr>"

record breaker =
  cb_state :: breaker_state
  cb_failures :: nat
  cb_successes :: nat
  cb_rejects :: nat
  cb_fallbacks :: nat
  cb_breaks :: nat
  cb_openedAt :: "int option"
  cb_lastStateChange :: int

definition new_breaker :: "int \<Rightarrow> breaker" where
  "new_breaker now = \<lparr>cb_state = CLOSED, cb_failures = 0, cb_successes = 0, cb_rejects = 0, cb_fallbacks = 0,
     cb_breaks = 0, cb_openedAt = None, cb_lastStateChange = now\<rparr>"

text \<open>What is emitted; \<open>Notify\<close> is the call of \<open>onStateChange\<close>.\<close>

datatype breaker_event =
    EmReject
  | EmFallback thrown breaker_state
  | EmFailure thrown breaker_state nat
  | EmBreak nat thrown
  | EmStateChange breaker_state breaker_state string nat
  | EmNamed string breaker_state breaker_state string nat
  | Notify breaker_state breaker_state string nat

section \<open>Handlers\<close>

fun event_name :: "breaker_state \<Rightarrow> string" where
  "event_name OPEN = ''open''"
| "event_name HALF_OPEN = ''halfOpen''"
| "event_name CLOSED = ''close''"

definition transition :: "int \<Rightarrow> breaker_state \<Rightarrow> string \<Rightarrow> breaker \<Rightarrow> breaker \<times> breaker_event list" where
  "transition now newState reason b = (let prev = cb_state b; n = cb_failures b in
     (b\<lparr>cb_state := newState, cb_lastStateChange := now\<rparr>,
      [EmStateChange prev newState reason n, EmNamed (event_name newState) prev newState reason n,
       Notify prev newState reason n]))"

definition onSuccess :: "breaker_config \<Rightarrow> int \<Rightarrow> breaker \<Rightarrow> breaker \<times> breaker_event list" where
  "onSuccess cfg now b = (if cb_state b = HALF_OPEN then
       (let b1 = b\<lparr>cb_successes := cb_successes b + 1\<rparr> in
        if cb_successes b1 \<ge> cf_successThreshold cfg
        then transition now CLOSED ''Success threshold met in HALF_OPEN'' (b1\<lparr>cb_failures := 0, cb_successes := 0\<rparr>)
        else (b1, []))
     else (b\<lparr>cb_failures := 0\<rparr>, []))"

definition onFailure :: "breaker_config \<Rightarrow> int \<Rightarrow> thrown \<Rightarrow> breaker \<Rightarrow> breaker \<times> breaker_event list" where
  "onFailure cfg now err b = (let b1 = b\<lparr>cb_failures := cb_failures b + 1\<rparr>;
       ev = [EmFailure err (cb_state b1) (cb_failures b1)] in
     if cb_state b1 = HALF_OPEN \<or> cb_failures b1 \<ge> cf_failureThreshold cfg then
       (case transition now OPEN (err_message err)
           (b1\<lparr>cb_openedAt := Some now, cb_successes := 0, cb_breaks := cb_breaks b1 + 1\<rparr>) of
         (b2, evs) \<Rightarrow> (b2, ev @ [EmBreak (cb_failures b1) err] @ evs))
     else (b1, ev))"

text \<open>The beginning of \<open>call\<close>: what becomes of it before its function runs.\<close>

datatype 'v call_end = Returns 'v | Throws thrown | RunsFallback thrown

datatype admission = Bypassed | Admitted | TurnedAway "unit call_end"

definition unavailable :: thrown where
  "unavailable = ErrorThrown ''SorobanUnavailableError'' ''Circuit breaker is OPEN - Soroban RPC is unavailable''"

definition fail_over :: "bool \<Rightarrow> thrown \<Rightarrow> breaker \<Rightarrow> 'v call_end \<times> breaker \<times> breaker_event list" where
  "fail_over hasFallback err b = (if hasFallback
     then (RunsFallback err, b\<lparr>cb_fallbacks := cb_fallbacks b + 1\<rparr>, [EmFallback err (cb_state b)])
     else (Throws err, b, []))"

definition open_elapsed :: "breaker_config \<Rightarrow> int \<Rightarrow> breaker \<Rightarrow> bool" where
  "open_elapsed cfg now b = (now - (case cb_openedAt b of Some t \<Rightarrow> t | None \<Rightarrow> 0) \<ge> cf_openDurationMs cfg)"

definition begin_call :: "breaker_config \<Rightarrow> int \<Rightarrow> bool \<Rightarrow> breaker \<Rightarrow> admission \<times> breaker \<times> breaker_event list" where
  "begin_call cfg now hasFallback b = (
     if \<not> cf_enabled cfg then (Bypassed, b, [])
     else if cb_state b = OPEN then
       (if open_elapsed cfg now b
        then (case transition now HALF_OPEN ''Open duration elapsed'' b of (b1, evs) \<Rightarrow> (Admitted, b1, evs))
        else (case fail_over hasFallback unavailable (b\<lparr>cb_rejects := cb_rejects b + 1\<rparr>) of
           (res, b1, evs) \<Rightarrow> (TurnedAway res, b1, EmReject # evs)))
     else (Admitted, b, []))"

text \<open>The timer of a call: its own timeout, else the configured one; no timer for 0 or none.\<close>

definition effective_timeout :: "breaker_config \<Rightarrow> int option \<Rightarrow> int option" where
  "effective_timeout cfg tmo = (case (case tmo of Some t \<Rightarrow> Some t | None \<Rightarrow> cf_timeoutMs cfg) of
     Some t \<Rightarrow> if t > 0 then Some t else None | None \<Rightarrow> None)"

definition timeout_failure :: "int \<Rightarrow> thrown" where
  "timeout_failure t = ErrorThrown ''Error'' (''Circuit breaker operation timed out after '' @ int_to_string t @ ''ms'')"

text \<open>The end of an admitted call.\<close>

definition settle_call :: "breaker_config \<Rightarrow> int \<Rightarrow> bool \<Rightarrow> thrown + 'v \<Rightarrow> breaker
    \<Rightarrow> 'v call_end \<times> breaker \<times> breaker_event list" where
  "settle_call cfg now hasFallback r b = (case r of
     Inr v \<Rightarrow> (case onSuccess cfg now b of (b1, evs) \<Rightarrow> (Returns v, b1, evs))
   | Inl err \<Rightarrow> (case onFailure cfg now err b of (b1, evs) \<Rightarrow>
       (case fail_over hasFallback err b1 of (res, b2, evs') \<Rightarrow> (res, b2, evs @ evs'))))"

record health_info =
  h_state :: breaker_state
  h_failures :: nat
  h_rejects :: nat
  h_fallbacks :: nat
  h_breaks :: nat
  h_lastStateChange :: int
  h_config :: breaker_config

definition toHealthInfo :: "breaker_config \<Rightarrow> breaker \<Rightarrow> health_info" where
  "toHealthInfo cfg b = \<lparr>h_state = cb_state b, h_failures = cb_failures b, h_rejects = cb_rejects b,
     h_fallbacks = cb_fallbacks b, h_breaks = cb_breaks b, h_lastStateChange = cb_lastStateChange b, h_config = cfg\<rparr>"

section \<open>Overlapping calls\<close>

text \<open>
  The calls in flight, each with its fallback and its timer. \<open>Settles\<close> is the function's own result, \<open>TimesOut\<close> the
  timer's; whichever comes second finds the call gone. Every event carries the time it happens at.
\<close>

record breaker_system =
  bs_breaker :: breaker
  bs_flying :: "(nat, bool \<times> int option) jsmap"

datatype 'v breaker_input =
    Calls nat bool "int option"
  | Settles nat "thrown + 'v"
  | TimesOut nat

inductive breaker_step :: "breaker_config \<Rightarrow> breaker_system \<Rightarrow> int \<times> 'v breaker_input \<Rightarrow> breaker_system \<Rightarrow> bool"
  for cfg where
  step_admit: "begin_call cfg now fb (bs_breaker s) = (Admitted, b, evs) \<Longrightarrow> \<not> jm_has (bs_flying s) i \<Longrightarrow>
    breaker_step cfg s (now, Calls i fb tmo)
      (s\<lparr>bs_breaker := b, bs_flying := jm_set i (fb, effective_timeout cfg tmo) (bs_flying s)\<rparr>)"
| step_away: "begin_call cfg now fb (bs_breaker s) = (TurnedAway res, b, evs) \<Longrightarrow> \<not> jm_has (bs_flying s) i \<Longrightarrow>
    breaker_step cfg s (now, Calls i fb tmo) (s\<lparr>bs_breaker := b\<rparr>)"
| step_bypass: "begin_call cfg now fb (bs_breaker s) = (Bypassed, b, evs) \<Longrightarrow> \<not> jm_has (bs_flying s) i \<Longrightarrow>
    breaker_step cfg s (now, Calls i fb tmo) (s\<lparr>bs_breaker := b\<rparr>)"
| step_settle: "jm_get (bs_flying s) i = Some (fb, tm) \<Longrightarrow>
    settle_call cfg now fb r (bs_breaker s) = (res, b, evs) \<Longrightarrow>
    breaker_step cfg s (now, Settles i r) (s\<lparr>bs_breaker := b, bs_flying := jm_delete i (bs_flying s)\<rparr>)"
| step_timeout: "jm_get (bs_flying s) i = Some (fb, Some t) \<Longrightarrow>
    settle_call cfg now fb (Inl (timeout_failure t) :: thrown + 'v) (bs_breaker s) = (res, b, evs) \<Longrightarrow>
    breaker_step cfg s (now, TimesOut i) (s\<lparr>bs_breaker := b, bs_flying := jm_delete i (bs_flying s)\<rparr>)"

section \<open>Lemmas\<close>

lemmas breaker_defs = transition_def onSuccess_def onFailure_def fail_over_def begin_call_def settle_call_def

text \<open>The breaker's own invariant, for thresholds of at least one.\<close>

definition breaker_inv :: "breaker_config \<Rightarrow> breaker \<Rightarrow> bool" where
  "breaker_inv cfg b = (0 < cf_failureThreshold cfg \<and> 0 < cf_successThreshold cfg \<and>
     (cb_state b = CLOSED \<longrightarrow> cb_failures b < cf_failureThreshold cfg) \<and>
     (cb_state b \<noteq> HALF_OPEN \<longrightarrow> cb_successes b = 0) \<and> cb_successes b < cf_successThreshold cfg \<and>
     (cb_state b \<noteq> CLOSED \<longrightarrow> cb_breaks b > 0) \<and> (cb_openedAt b = None \<longleftrightarrow> cb_breaks b = 0))"

lemma begin_call_inv: "breaker_inv cfg b \<Longrightarrow> begin_call cfg now fb b = (a, b', evs) \<Longrightarrow> breaker_inv cfg b'"
  by (auto simp: breaker_inv_def breaker_defs Let_def split: if_splits)

lemma settle_call_inv: "breaker_inv cfg b \<Longrightarrow> settle_call cfg now fb r b = (res, b', evs) \<Longrightarrow> breaker_inv cfg b'"
  by (cases "cb_state b") (auto simp: breaker_inv_def breaker_defs Let_def split: if_splits sum.splits)

inductive_cases breaker_stepE: "breaker_step cfg s e s'"

lemma breaker_step_inv:
  "breaker_inv cfg (bs_breaker s) \<Longrightarrow> breaker_step cfg s e s' \<Longrightarrow> breaker_inv cfg (bs_breaker s')"
  by (erule breaker_stepE) (auto intro: begin_call_inv settle_call_inv)

definition idle_system :: "int \<Rightarrow> breaker_system" where
  "idle_system now = \<lparr>bs_breaker = new_breaker now, bs_flying = []\<rparr>"

definition breaker_config_ok :: "breaker_config \<Rightarrow> bool" where
  "breaker_config_ok cfg = (0 < cf_failureThreshold cfg \<and> 0 < cf_successThreshold cfg)"

interpretation breaker: machine "\<lambda>s. breaker_config_ok cfg \<and> (\<exists>t. s = idle_system t)"
  "breaker_step cfg" "\<lambda>s. breaker_inv cfg (bs_breaker s)" for cfg
proof
  show "breaker_inv cfg (bs_breaker s)" if "breaker_config_ok cfg \<and> (\<exists>t. s = idle_system t)" for s
    using that by (auto simp: breaker_inv_def idle_system_def new_breaker_def breaker_config_ok_def)
qed (rule breaker_step_inv)

text \<open>An open breaker, until its time has passed.\<close>

definition open_since :: "int \<Rightarrow> breaker \<Rightarrow> bool" where
  "open_since t0 b = (cb_state b = OPEN \<and> (case cb_openedAt b of Some t \<Rightarrow> t0 \<le> t | None \<Rightarrow> False))"

lemma begin_call_open:
  "open_since t0 b \<Longrightarrow> cf_enabled cfg \<Longrightarrow> now < t0 + cf_openDurationMs cfg \<Longrightarrow> begin_call cfg now fb b = (a, b', evs) \<Longrightarrow>
    (\<exists>res. a = TurnedAway res) \<and> open_since t0 b' \<and> cb_rejects b' = cb_rejects b + 1"
  by (auto simp: open_since_def breaker_defs open_elapsed_def Let_def split: if_splits option.splits)

lemma settle_call_open:
  "open_since t0 b \<Longrightarrow> t0 \<le> now \<Longrightarrow> settle_call cfg now fb r b = (res, b', evs) \<Longrightarrow> open_since t0 b'"
  by (auto simp: open_since_def breaker_defs Let_def split: if_splits sum.splits option.splits)

lemma open_step:
  assumes "breaker_step cfg s (now, e) s'" "open_since t0 (bs_breaker s)" "cf_enabled cfg" "t0 \<le> now"
    "now < t0 + cf_openDurationMs cfg"
  shows "open_since t0 (bs_breaker s') \<and> set (jm_keys (bs_flying s')) \<subseteq> set (jm_keys (bs_flying s))"
  using assms(1)
proof (cases rule: breaker_step.cases)
  case (step_admit fb b evs i tmo)
  then show ?thesis using begin_call_open [OF assms(2,3,5)] by fastforce
next
  case (step_away fb res b evs i tmo)
  then show ?thesis using begin_call_open [OF assms(2,3,5)] by fastforce
next
  case (step_bypass fb b evs i tmo)
  then show ?thesis using begin_call_open [OF assms(2,3,5)] by fastforce
qed (use settle_call_open [OF assms(2,4)] in \<open>auto simp: jm_keys_delete\<close>)

text \<open>A sequence of calls of a breaker that settle one after the other.\<close>

fun settle_all :: "breaker_config \<Rightarrow> (int \<times> bool \<times> (thrown + 'v)) list \<Rightarrow> breaker \<Rightarrow> breaker" where
  "settle_all cfg [] b = b"
| "settle_all cfg ((now, fb, r) # es) b = settle_all cfg es (fst (snd (settle_call cfg now fb r b)))"

lemma settle_all_append: "settle_all cfg (es @ fs) b = settle_all cfg fs (settle_all cfg es b)"
  by (induction cfg es b rule: settle_all.induct) auto

definition failed :: "int \<times> bool \<times> (thrown + 'v) \<Rightarrow> bool" where
  "failed e = isl (snd (snd e))"

definition trailing :: "bool list \<Rightarrow> nat" where
  "trailing bs = length (takeWhile id (rev bs))"

definition has_run :: "nat \<Rightarrow> bool list \<Rightarrow> bool" where
  "has_run k bs = (\<exists>i \<le> length bs. k \<le> trailing (take i bs))"

lemma trailing_append [simp]: "trailing (bs @ [x]) = (if x then Suc (trailing bs) else 0)"
  by (simp add: trailing_def)

lemma has_run_append: "has_run k (bs @ [x]) \<longleftrightarrow> has_run k bs \<or> k \<le> trailing (bs @ [x])"
  by (auto simp: has_run_def le_Suc_eq simp del: trailing_append)

lemma has_run_length: "has_run k bs \<Longrightarrow> k \<le> length bs"
proof -
  have "trailing (take i bs) \<le> length bs" for i
    using length_takeWhile_le [of id "rev (take i bs)"] by (simp add: trailing_def)
  then show "has_run k bs \<Longrightarrow> k \<le> length bs" by (auto simp: has_run_def intro: order_trans)
qed

lemma settle_effect:
  "cb_state b \<noteq> HALF_OPEN \<Longrightarrow>
    (case fst (snd (settle_call cfg now fb r b)) of b' \<Rightarrow>
      cb_failures b' = (if isl r then cb_failures b + 1 else 0) \<and>
      cb_state b' = (if isl r \<and> cb_failures b + 1 \<ge> cf_failureThreshold cfg then OPEN else cb_state b))"
  by (auto simp: breaker_defs Let_def split: sum.split)

lemma settle_all_effect:
  assumes "cb_state b = CLOSED" "cb_failures b = 0" "0 < cf_failureThreshold cfg"
  shows "cb_state (settle_all cfg es b) = (if has_run (cf_failureThreshold cfg) (map failed es) then OPEN else CLOSED) \<and>
    cb_failures (settle_all cfg es b) = trailing (map failed es)"
proof (induction es rule: rev_induct)
  case Nil
  then show ?case using assms by (simp add: has_run_def trailing_def)
next
  case (snoc e es)
  obtain now fb r where e: "e = (now, fb, r)" by (cases e)
  let ?b = "settle_all cfg es b"
  have "settle_all cfg (es @ [e]) b = fst (snd (settle_call cfg now fb r ?b))" by (simp add: settle_all_append e)
  moreover have "cb_state ?b \<noteq> HALF_OPEN" using snoc by simp
  moreover have "map failed (es @ [e]) = map failed es @ [isl r]" by (simp add: failed_def e)
  ultimately show ?case
    using settle_effect [of ?b cfg now fb r] snoc assms(3) by (auto simp: has_run_append simp del: map_append map_map)
qed

lemma settle_all_probing:
  "\<forall>e \<in> set es. \<not> failed e \<Longrightarrow> cb_state c = HALF_OPEN \<Longrightarrow>
    (cb_successes c + length es < cf_successThreshold cfg \<longrightarrow> cb_state (settle_all cfg es c) = HALF_OPEN) \<and>
    (cb_successes c < cf_successThreshold cfg \<and> cb_successes c + length es = cf_successThreshold cfg \<longrightarrow>
       cb_state (settle_all cfg es c) = CLOSED \<and> cb_failures (settle_all cfg es c) = 0)"
proof (induction es arbitrary: c)
  case (Cons e es)
  obtain now fb v where e: "e = (now, fb, Inr v)"
    using Cons.prems(1) by (cases e; cases "snd (snd e)") (auto simp: failed_def)
  let ?c = "fst (snd (settle_call cfg now fb (Inr v) c))"
  show ?case
  proof (cases "cb_successes c + 1 < cf_successThreshold cfg")
    case True
    then have "cb_state ?c = HALF_OPEN" "cb_successes ?c = cb_successes c + 1"
      using Cons.prems(2) by (simp_all add: breaker_defs Let_def)
    then show ?thesis using Cons.IH [of ?c] Cons.prems(1) True by (simp add: e)
  next
    case False
    then show ?thesis using Cons.prems(2) by (cases es) (auto simp: e breaker_defs Let_def)
  qed
qed simp

lemma settle_failure_half_open:
  "cb_state c = HALF_OPEN \<Longrightarrow> cb_state (fst (snd (settle_call cfg t fb (Inl err) c))) = OPEN \<and>
    cb_openedAt (fst (snd (settle_call cfg t fb (Inl err) c))) = Some t"
  by (auto simp: breaker_defs Let_def)

section \<open>Properties\<close>

text \<open>
  However calls overlap, a breaker with thresholds of at least one stays consistent: closed means fewer failures
  counted than the threshold, probe successes are counted only while half open and never reach their threshold, and
  an opening time is on record exactly if the breaker has tripped.
\<close>

theorem breaker_stays_consistent:
  assumes "breaker_config_ok cfg" "exec (breaker_step cfg) (idle_system t) es s"
  shows "breaker_inv cfg (bs_breaker s)"
  using breaker.reachable_inv [OF _ assms(2)] assms(1) by blast

theorem breaker_stays_consistent_witness:
  "breaker_inv default_breaker (bs_breaker (idle_system 7))"
  by (rule breaker_stays_consistent [of default_breaker 7 "[] :: (int \<times> unit breaker_input) list"])
    (simp_all add: breaker_config_ok_def default_breaker_def)

text \<open>
  An open breaker protects the RPC: from the moment it opens until its duration has passed, no call is admitted,
  whatever is called and whatever the calls still in flight report; the breaker stays open.
\<close>

theorem open_breaker_admits_nothing:
  assumes "exec (breaker_step cfg) s es s'" "cb_state (bs_breaker s) = OPEN" "cb_openedAt (bs_breaker s) = Some t0"
    "cf_enabled cfg" "\<forall>e \<in> set es. t0 \<le> fst e \<and> fst e < t0 + cf_openDurationMs cfg"
  shows "cb_state (bs_breaker s') = OPEN \<and> set (jm_keys (bs_flying s')) \<subseteq> set (jm_keys (bs_flying s))"
proof -
  have "open_since t0 (bs_breaker s)" using assms(2,3) by (simp add: open_since_def)
  with assms(1,5) have "open_since t0 (bs_breaker s') \<and> set (jm_keys (bs_flying s')) \<subseteq> set (jm_keys (bs_flying s))"
  proof (induction rule: exec.induct)
    case (exec_Cons s e s' es s'')
    then show ?case using open_step [of cfg s "fst e" "snd e" s'] assms(4) by fastforce
  qed simp
  then show ?thesis by (simp add: open_since_def)
qed

definition tripped :: breaker_system where
  "tripped = \<lparr>bs_breaker = (new_breaker 0)\<lparr>cb_state := OPEN, cb_failures := 5, cb_breaks := 1, cb_openedAt := Some 100\<rparr>,
     bs_flying = [(1, False, None)]\<rparr>"

theorem open_breaker_admits_nothing_witness:
  "\<exists>s'. exec (breaker_step default_breaker) tripped [(200, Settles 1 (Inr ())), (300, Calls 2 False None)] s' \<and>
    cb_state (bs_breaker s') = OPEN"
proof -
  let ?es = "[(200, Settles 1 (Inr ())), (300, Calls 2 False None)]"
  obtain s1 where s1: "breaker_step default_breaker tripped (200, Settles 1 (Inr ())) s1" "bs_flying s1 = []"
    "cb_state (bs_breaker s1) = OPEN" "cb_openedAt (bs_breaker s1) = Some 100"
    using step_settle [of tripped 1 False None default_breaker 200 "Inr ()"]
    by (simp add: tripped_def new_breaker_def breaker_defs jm_delete_def)
  have "\<exists>s'. breaker_step default_breaker s1 (300, Calls 2 False None :: unit breaker_input) s'"
    using step_away [of default_breaker 300 False s1 _ _ _ 2 None] s1
    by (simp add: breaker_defs open_elapsed_def default_breaker_def jm_has_def) blast
  then obtain s' where ex: "exec (breaker_step default_breaker) tripped ?es s'" using s1(1) by auto
  have "cb_state (bs_breaker s') = OPEN \<and> set (jm_keys (bs_flying s')) \<subseteq> set (jm_keys (bs_flying tripped))"
    by (rule open_breaker_admits_nothing [OF ex, of 100]) (simp_all add: tripped_def default_breaker_def)
  then show ?thesis using ex by blast
qed

text \<open>
  A closed breaker trips exactly when calls fail as often in a row as its threshold says: after any sequence of
  settled calls it is open if some prefix ends in that many failures, closed otherwise, and the failures it counts are
  those since the last success.
\<close>

theorem breaker_trips_exactly:
  assumes "cb_state b = CLOSED" "cb_failures b = 0" "0 < cf_failureThreshold cfg"
  shows "cb_state (settle_all cfg es b) = (if has_run (cf_failureThreshold cfg) (map failed es) then OPEN else CLOSED) \<and>
    cb_failures (settle_all cfg es b) = trailing (map failed es)"
  using settle_all_effect [OF assms] .

definition down :: "thrown + unit" where
  "down = Inl (StringThrown ''down'')"

theorem breaker_trips_exactly_witness:
  "cb_state (settle_all default_breaker [(1, False, down), (2, False, down), (3, False, Inr ()), (4, False, down)] (new_breaker 0)) = CLOSED"
proof -
  let ?es = "[(1, False, down), (2, False, down), (3, False, Inr ()), (4, False, down)]"
  have "map failed ?es = [True, True, False, True]" by (simp add: failed_def down_def)
  moreover have "has_run 5 [True, True, False, True] = False"
    using has_run_length [of 5 "[True, True, False, True]"] by auto
  moreover have "cb_state (settle_all default_breaker ?es (new_breaker 0))
      = (if has_run (cf_failureThreshold default_breaker) (map failed ?es) then OPEN else CLOSED)"
    by (rule breaker_trips_exactly [THEN conjunct1]) (simp_all add: new_breaker_def default_breaker_def)
  moreover have "cf_failureThreshold default_breaker = 5" by (simp add: default_breaker_def)
  ultimately show ?thesis by (simp only: if_False)
qed

text \<open>
  The breaker recovers: once its duration has passed the next call is admitted and the breaker is half open; from
  there as many successes in a row as the success threshold close it with its failure count cleared, and a failure
  before that opens it again from that time on.
\<close>

theorem breaker_recovers:
  assumes "breaker_inv cfg b" "cf_enabled cfg" "cb_state b = OPEN" "cb_openedAt b = Some t0" "t0 + cf_openDurationMs cfg \<le> now"
    "\<forall>e \<in> set es. \<not> failed e"
  shows "\<exists>b' evs. begin_call cfg now fb b = (Admitted, b', evs) \<and> cb_state b' = HALF_OPEN \<and>
    (length es < cf_successThreshold cfg \<longrightarrow> cb_state (settle_all cfg es b') = HALF_OPEN \<and>
       cb_state (settle_all cfg (es @ [(t, fb', Inl err)]) b') = OPEN \<and>
       cb_openedAt (settle_all cfg (es @ [(t, fb', Inl err)]) b') = Some t) \<and>
    (length es = cf_successThreshold cfg \<longrightarrow> cb_state (settle_all cfg es b') = CLOSED \<and>
       cb_failures (settle_all cfg es b') = 0)"
proof -
  have probing: "\<forall>e \<in> set es. \<not> failed e \<Longrightarrow> cb_state c = HALF_OPEN \<Longrightarrow>
      (cb_successes c + length es < cf_successThreshold cfg \<longrightarrow> cb_state (settle_all cfg es c) = HALF_OPEN) \<and>
      (cb_successes c < cf_successThreshold cfg \<and> cb_successes c + length es = cf_successThreshold cfg \<longrightarrow>
         cb_state (settle_all cfg es c) = CLOSED \<and> cb_failures (settle_all cfg es c) = 0)" for c
    by (rule settle_all_probing)
  obtain b' evs where b': "begin_call cfg now fb b = (Admitted, b', evs)" "cb_state b' = HALF_OPEN" "cb_successes b' = 0"
    using assms(1-5) by (auto simp: breaker_defs open_elapsed_def breaker_inv_def Let_def)
  have "0 < cf_successThreshold cfg" using assms(1) by (simp add: breaker_inv_def)
  then show ?thesis
    using probing [OF assms(6) b'(2)] b' by (auto simp: settle_all_append settle_failure_half_open)
qed

theorem breaker_recovers_witness:
  "\<exists>b' evs. begin_call default_breaker 40000 False (bs_breaker tripped) = (Admitted, b', evs) \<and>
    cb_state (settle_all default_breaker [(40001, False, Inr ()), (40002, False, Inr ())] b') = CLOSED"
  using breaker_recovers [of default_breaker "bs_breaker tripped" 100 40000 "[(40001, False, Inr ()), (40002, False, Inr ())]"
      False 0 False "StringThrown []"]
  by (auto simp: breaker_inv_def tripped_def new_breaker_def default_breaker_def failed_def)

text \<open>
  A call that was admitted before the breaker tripped counts as a probe if it succeeds while the breaker is half open:
  two such calls close it although none of the probes has come back.
\<close>

lemma stale_successes_close:
  "cb_state (settle_all default_breaker [(40001, False, Inr v), (40002, False, Inr w)]
     (fst (snd (begin_call default_breaker 40000 False (bs_breaker tripped))))) = CLOSED"
  by (simp add: breaker_defs tripped_def new_breaker_def default_breaker_def open_elapsed_def)

text \<open>A half-open breaker does not limit its probes: it admits every call.\<close>

lemma half_open_admits_all:
  "cb_state b = HALF_OPEN \<Longrightarrow> cf_enabled cfg \<Longrightarrow> begin_call cfg now fb b = (Admitted, b, [])"
  by (simp add: begin_call_def)

end
