(* ===== verification/Jcs.thy ===== *)
theory Jcs
  imports JsValue "HOL-Library.List_Lexorder" "HOL-Library.Char_ord"
begin

text \<open>
  Models \<open>server/src/jcs.js\<close>: the JSON Canonicalization Scheme the credential proofs are computed over.

  Values are those of \<open>JsValue\<close>: no functions, no objects with a \<open>toJSON\<close> method, no infinities; a typed array is an
  object with index keys. Numbers print in plain decimals, as \<open>JSON.stringify\<close> prints them between \<open>10 ^ -6\<close> and
  \<open>10 ^ 21\<close> in absolute value; the exponent forms outside are not modelled.

  The specification is a normal form of values, keys sorted and undefined properties dropped: canonical texts are
  equal exactly if normal forms are.
\<close>

section \<open>The program\<close>

definition serializeNumber :: "jv \<Rightarrow> thrown + string" where
  "serializeNumber v = (case v of
     JNum q \<Rightarrow> Inr (if q = 0 then ''0'' else num_to_string q)
   | _ \<Rightarrow> Inl (type_error ''NaN and Infinity cannot be canonicalized''))"

text \<open>The escapes of \<open>JSON.stringify\<close>.\<close>

definition escape_char :: "char \<Rightarrow> string" where
  "escape_char c = (let n = char_code c in
     if n = 34 then [CHR 92, CHR 34]
     else if n = 92 then [CHR 92, CHR 92]
     else if n = 8 then [CHR 92, CHR ''b'']
     else if n = 9 then [CHR 92, CHR ''t'']
     else if n = 10 then [CHR 92, CHR ''n'']
     else if n = 12 then [CHR 92, CHR ''f'']
     else if n = 13 then [CHR 92, CHR ''r'']
     else if n < 32 then [CHR 92, CHR ''u'', CHR ''0'', CHR ''0'', hex_digit (n div 16), hex_digit (n mod 16)]
     else [c])"

definition serializeString :: "string \<Rightarrow> string" where
  "serializeString s = CHR 34 # concat (map escape_char s) @ [CHR 34]"

lemma map_result_cong [fundef_cong]:
  "xs = ys \<Longrightarrow> (\<And>x. x \<in> set ys \<Longrightarrow> f x = g x) \<Longrightarrow> map_result f xs = map_result g ys"
proof (induction xs arbitrary: ys)
  case (Cons x xs)
  then have "map_result f xs = map_result g xs" "f x = g x" by auto
  then show ?case using Cons.prems(1) by (cases "g x") auto
qed simp

definition index_members :: "byte list \<Rightarrow> (string \<times> rat) list" where
  "index_members bs = map (\<lambda>(i, b). (nat_to_string i, of_nat (unat b))) (enumerate 0 bs)"

fun canonicalize :: "jv \<Rightarrow> thrown + string" where
  "canonicalize JNull = Inr ''null''"
| "canonicalize (JBool b) = Inr (if b then ''true'' else ''false'')"
| "canonicalize (JNum q) = serializeNumber (JNum q)"
| "canonicalize JNaN = serializeNumber JNaN"
| "canonicalize (JStr s) = Inr (serializeString s)"
| "canonicalize (JBig i) = Inl (type_error ''BigInt cannot be canonicalized'')"
| "canonicalize (JArr vs) =
     (case map_result (\<lambda>v. if v = JUndef then Inr ''null'' else canonicalize v) vs of
        Inl e \<Rightarrow> Inl e
      | Inr items \<Rightarrow> Inr (''['' @ join '','' items @ '']''))"
| "canonicalize (JObj m) =
     (case map_result (\<lambda>(k, v). if v = JUndef then Inr None
           else (case canonicalize v of Inl e \<Rightarrow> Inl e | Inr s \<Rightarrow> Inr (Some (serializeString k @ '':'' @ s))))
         (sort_key fst m) of
        Inl e \<Rightarrow> Inl e
      | Inr members \<Rightarrow> Inr (''{'' @ join '','' (map the (filter (\<lambda>x. x \<noteq> None) members)) @ ''}''))"
| "canonicalize (JBytes bs) =
     Inr (''{'' @ join '','' (map (\<lambda>(k, q). serializeString k @ '':'' @ num_to_string q)
       (sort_key fst (index_members bs))) @ ''}'')"
| "canonicalize JUndef = Inl (type_error ''Cannot canonicalize value of type undefined'')"

section \<open>The specification: normal forms\<close>

text \<open>The values that are JSON: no bare undefined, no \<open>NaN\<close>, no big integers, no typed arrays, no repeated keys.\<close>

fun is_json :: "jv \<Rightarrow> bool" where
  "is_json JNull = True"
| "is_json (JBool b) = True"
| "is_json (JNum q) = True"
| "is_json (JStr s) = True"
| "is_json (JArr vs) = list_all (\<lambda>v. v = JUndef \<or> is_json v) vs"
| "is_json (JObj m) = (distinct (map fst m) \<and> list_all (\<lambda>(k, v). v = JUndef \<or> is_json v) m)"
| "is_json _ = False"

fun normal_form :: "jv \<Rightarrow> jv" where
  "normal_form (JArr vs) = JArr (map (\<lambda>v. if v = JUndef then JNull else normal_form v) vs)"
| "normal_form (JObj m) = JObj (map (\<lambda>(k, v). (k, normal_form v)) (filter (\<lambda>(k, v). v \<noteq> JUndef) (sort_key fst m)))"
| "normal_form v = v"

text \<open>The text of a value in normal form.\<close>

fun json_text :: "jv \<Rightarrow> string" where
  "json_text JNull = ''null''"
| "json_text (JBool b) = (if b then ''true'' else ''false'')"
| "json_text (JNum q) = (if q = 0 then ''0'' else num_to_string q)"
| "json_text (JStr s) = serializeString s"
| "json_text (JArr vs) = ''['' @ join '','' (map json_text vs) @ '']''"
| "json_text (JObj m) = ''{'' @ join '','' (map (\<lambda>(k, v). serializeString k @ '':'' @ json_text v) m) @ ''}''"
| "json_text _ = []"

text \<open>
  \<open>JSON.stringify\<close> itself, for values without big integers: undefined properties dropped, undefined elements and \<open>NaN\<close>
  printed as null, the order of properties kept.
\<close>

fun plain_form :: "jv \<Rightarrow> jv" where
  "plain_form (JArr vs) = JArr (map (\<lambda>v. if v = JUndef then JNull else plain_form v) vs)"
| "plain_form (JObj m) = JObj (map (\<lambda>(k, v). (k, plain_form v)) (filter (\<lambda>(k, v). v \<noteq> JUndef) m))"
| "plain_form JNaN = JNull"
| "plain_form v = v"

definition json_stringify :: "jv \<Rightarrow> string" where
  "json_stringify v = json_text (plain_form v)"

text \<open>Numbers whose decimals the model prints in full.\<close>

definition decimal_num :: "rat \<Rightarrow> bool" where
  "decimal_num q = (\<bar>q\<bar> < 10 ^ 21 \<and> (q = 0 \<or> 1 / 10 ^ 6 \<le> \<bar>q\<bar>) \<and> of_int \<lfloor>q * 10 ^ 15\<rfloor> = q * 10 ^ 15)"

fun decimal_nums :: "jv \<Rightarrow> bool" where
  "decimal_nums (JNum q) = decimal_num q"
| "decimal_nums (JArr vs) = list_all decimal_nums vs"
| "decimal_nums (JObj m) = list_all (\<lambda>(k, v). decimal_nums v) m"
| "decimal_nums v = True"

section \<open>Canonical text is the text of the normal form\<close>

lemma canonicalize_normal: "is_json v \<Longrightarrow> canonicalize v = Inr (json_text (normal_form v))"
proof (induction v rule: canonicalize.induct)
  case (7 vs)
  have "map_result (\<lambda>v. if v = JUndef then Inr ''null'' else canonicalize v) vs
      = Inr (map (\<lambda>v. json_text (if v = JUndef then JNull else normal_form v)) vs)"
    by (rule map_result_total) (use 7 in \<open>auto simp: list_all_iff\<close>)
  then show ?case by (simp add: o_def)
next
  case (8 m)
  have *: "map_result (\<lambda>(k, v). if v = JUndef then Inr None
        else (case canonicalize v of Inl e \<Rightarrow> Inl e | Inr s \<Rightarrow> Inr (Some (serializeString k @ '':'' @ s)))) (sort_key fst m)
      = Inr (map (\<lambda>(k, v). if v = JUndef then None
          else Some (serializeString k @ '':'' @ json_text (normal_form v))) (sort_key fst m))"
    by (rule map_result_total) (use 8 in \<open>auto simp: list_all_iff\<close>)
  have filter: "map the (filter (\<lambda>x. x \<noteq> None) (map (\<lambda>(k, v). if v = JUndef then None else Some (f k v)) xs))
      = map (\<lambda>(k, v). f k v) (filter (\<lambda>(k, v). v \<noteq> JUndef) xs)" for f :: "string \<Rightarrow> jv \<Rightarrow> string" and xs
    by (induction xs) auto
  show ?case unfolding canonicalize.simps * sum.case filter by (simp add: o_def split_def)
qed (auto simp: serializeNumber_def)

section \<open>The text determines the normal form\<close>

text \<open>A rest of a text that begins no value: nothing, or the end of an element or a member.\<close>

definition delimits :: "string \<Rightarrow> bool" where
  "delimits r = (case r of [] \<Rightarrow> True | c # _ \<Rightarrow> c \<in> {CHR '','', CHR '']'', CHR ''}''})"

text \<open>Reading back one escaped character.\<close>

fun read_char :: "string \<Rightarrow> char \<times> string" where
  "read_char (d # x) = (if d \<noteq> CHR 92 then (d, x) else
     (case x of
        e # y \<Rightarrow>
          if e = CHR ''u'' then
            (case y of _ # _ # h # l # z \<Rightarrow> (char_of (16 * the (hex_val h) + the (hex_val l)), z) | _ \<Rightarrow> (d, x))
          else if e = CHR ''b'' then (CHR 8, y)
          else if e = CHR ''t'' then (CHR 9, y)
          else if e = CHR ''n'' then (CHR 10, y)
          else if e = CHR ''f'' then (CHR 12, y)
          else if e = CHR ''r'' then (CHR 13, y)
          else (e, y)
      | [] \<Rightarrow> (d, x)))"
| "read_char [] = (CHR 48, [])"

lemma char_code_inverse: "char_of (char_code c) = c"
  by (simp add: char_code_def)

lemma char_code_is: "char_code c = n \<Longrightarrow> c = char_of n"
  using char_code_inverse [of c] by simp

lemma char_code_92: "char_code (CHR 92) = 92"
  by (simp add: char_code_def)

lemma char_literals:
  "char_of (34 :: nat) = CHR 34" "char_of (92 :: nat) = CHR 92" "char_of (8 :: nat) = CHR 8" "char_of (9 :: nat) = CHR 9"
  "char_of (10 :: nat) = CHR 10" "char_of (12 :: nat) = CHR 12" "char_of (13 :: nat) = CHR 13"
  by code_simp+

lemma read_escape: "read_char (escape_char c @ x) = (c, x)"
proof (cases "char_code c \<in> {34, 92, 8, 9, 10, 12, 13}")
  case True
  then show ?thesis
    by (auto simp: char_literals dest!: char_code_is) (simp_all add: escape_char_def char_code_def Let_def)
next
  case False
  show ?thesis
  proof (cases "char_code c < 32")
    case True
    then have "16 * (char_code c div 16) + char_code c mod 16 = char_code c" by simp
    then have "char_of (16 * (char_code c div 16) + char_code c mod 16) = c" by (simp only: char_code_inverse)
    then show ?thesis using True False by (simp add: escape_char_def Let_def)
  next
    case False
    then have "c \<noteq> CHR 92" using char_code_92 \<open>char_code c \<notin> _\<close> by auto
    then show ?thesis using False \<open>char_code c \<notin> _\<close> by (simp add: escape_char_def Let_def)
  qed
qed

lemma escape_prefix: "escape_char c @ x = escape_char c' @ y \<Longrightarrow> c = c' \<and> x = y"
  using read_escape by (metis prod.inject)

lemma escape_Cons: "\<exists>d x. escape_char c = d # x \<and> d \<noteq> CHR 34"
  by (auto simp: escape_char_def Let_def char_code_def)

lemma string_text_inject:
  "concat (map escape_char s) @ CHR 34 # r = concat (map escape_char s') @ CHR 34 # r' \<Longrightarrow> s = s' \<and> r = r'"
proof (induction s arbitrary: s')
  case Nil
  show ?case
  proof (cases s')
    case (Cons c t)
    then show ?thesis using Nil escape_Cons [of c] by auto
  qed (use Nil in simp)
next
  case (Cons c s)
  show ?case
  proof (cases s')
    case Nil
    then show ?thesis using Cons.prems escape_Cons [of c] by auto
  next
    case c': (Cons c' t)
    then have "escape_char c @ (concat (map escape_char s) @ CHR 34 # r) = escape_char c' @ (concat (map escape_char t) @ CHR 34 # r')"
      using Cons.prems by simp
    from escape_prefix [OF this] show ?thesis using Cons.IH [of t] c' by simp
  qed
qed

lemma serializeString_inject: "serializeString s @ r = serializeString s' @ r' \<longleftrightarrow> s = s' \<and> r = r'"
  using string_text_inject [of s r s' r'] by (auto simp: serializeString_def)

section \<open>Numbers\<close>

fun digits_fraction :: "string \<Rightarrow> rat" where
  "digits_fraction [] = 0"
| "digits_fraction (c # cs) = (of_nat (the (hex_val c)) + digits_fraction cs) / 10"

lemma fraction_digit: "0 \<le> q \<Longrightarrow> q < 1 \<Longrightarrow> nat \<lfloor>10 * q\<rfloor> < 10 \<and> of_nat (nat \<lfloor>10 * q\<rfloor>) = (of_int \<lfloor>10 * q\<rfloor> :: rat)"
  for q :: rat
  by (simp add: floor_less_iff nat_less_iff)

lemma digits_fraction_print:
  "0 \<le> q \<Longrightarrow> q < 1 \<Longrightarrow> q * 10 ^ n \<in> \<int> \<Longrightarrow> digits_fraction (frac_digits n q) = q"
proof (induction n arbitrary: q)
  case 0
  then show ?case by (auto elim: Ints_cases)
next
  case (Suc n)
  let ?r = "10 * q - of_int \<lfloor>10 * q\<rfloor>"
  have "?r * 10 ^ n = q * 10 ^ Suc n - of_int (\<lfloor>10 * q\<rfloor> * 10 ^ n)" by (simp add: algebra_simps)
  then have "?r * 10 ^ n \<in> \<int>" using Suc.prems(3) by (metis Ints_diff Ints_of_int)
  moreover have "0 \<le> ?r" "?r < 1" by linarith+
  ultimately have "digits_fraction (frac_digits n ?r) = ?r" using Suc.IH by blast
  moreover have "hex_val (hex_digit (nat \<lfloor>10 * q\<rfloor>)) = Some (nat \<lfloor>10 * q\<rfloor>)"
    using fraction_digit [OF Suc.prems(1,2)] by simp
  ultimately show ?case using fraction_digit [OF Suc.prems(1,2)] by simp
qed

lemma is_digit_hex_digit: "n < 10 \<Longrightarrow> is_digit (hex_digit n)"
  by (simp add: is_digit_def hex_digit_def char_code_def)

lemma frac_digits_digits: "0 \<le> q \<Longrightarrow> q < 1 \<Longrightarrow> list_all is_digit (frac_digits n q)"
proof (induction n arbitrary: q)
  case (Suc n)
  have "0 \<le> 10 * q - of_int \<lfloor>10 * q\<rfloor>" "10 * q - of_int \<lfloor>10 * q\<rfloor> < 1" by linarith+
  then show ?case using Suc fraction_digit [of q] by (simp add: is_digit_hex_digit)
qed simp

definition num_char :: "char \<Rightarrow> bool" where
  "num_char c = (is_digit c \<or> c = CHR ''-'' \<or> c = CHR ''.'')"

lemma takeWhile_prefix:
  "list_all P a \<Longrightarrow> list_all P b \<Longrightarrow> (\<And>c t. x = c # t \<Longrightarrow> \<not> P c) \<Longrightarrow> (\<And>c t. y = c # t \<Longrightarrow> \<not> P c) \<Longrightarrow>
    a @ x = b @ y \<Longrightarrow> a = b \<and> x = y"
proof (induction a arbitrary: b)
  case Nil
  then show ?case by (cases b) auto
next
  case (Cons c a)
  then show ?case by (cases b) auto
qed

lemma num_to_string_chars: "list_all num_char (num_to_string q)"
proof -
  have "list_all is_digit (frac_digits 15 (\<bar>q\<bar> - of_int \<lfloor>\<bar>q\<bar>\<rfloor>))" by (rule frac_digits_digits) linarith+
  then show ?thesis
    using nat_to_string_digits [of "nat \<lfloor>\<bar>q\<bar>\<rfloor>"] by (auto simp: num_to_string_def Let_def num_char_def list_all_iff)
qed

lemma num_to_string_nonempty: "num_to_string q \<noteq> []"
  by (simp add: num_to_string_def Let_def nat_to_string_nonempty)

lemma digit_not_sign: "is_digit c \<Longrightarrow> c \<noteq> CHR ''-'' \<and> c \<noteq> CHR ''.''"
  by (auto simp: is_digit_def char_code_def)

lemma abs_print_inject:
  assumes "0 \<le> a" "0 \<le> b" "a * 10 ^ 15 \<in> \<int>" "b * 10 ^ 15 \<in> \<int>"
    "nat_to_string (nat \<lfloor>a\<rfloor>) @ (if frac_digits 15 (a - of_int \<lfloor>a\<rfloor>) = [] then [] else CHR ''.'' # frac_digits 15 (a - of_int \<lfloor>a\<rfloor>))
      = nat_to_string (nat \<lfloor>b\<rfloor>) @ (if frac_digits 15 (b - of_int \<lfloor>b\<rfloor>) = [] then [] else CHR ''.'' # frac_digits 15 (b - of_int \<lfloor>b\<rfloor>))"
  shows "a = (b :: rat)"
proof -
  let ?f = "\<lambda>a :: rat. a - of_int \<lfloor>a\<rfloor>"
  let ?t = "\<lambda>a. if frac_digits 15 (?f a) = [] then [] else CHR ''.'' # frac_digits 15 (?f a)"
  have "nat_to_string (nat \<lfloor>a\<rfloor>) = nat_to_string (nat \<lfloor>b\<rfloor>) \<and> ?t a = ?t b"
    by (rule takeWhile_prefix [OF nat_to_string_digits nat_to_string_digits _ _ assms(5)])
      (use digit_not_sign in \<open>auto split: if_splits\<close>)
  then have i: "nat \<lfloor>a\<rfloor> = nat \<lfloor>b\<rfloor>" and f: "frac_digits 15 (?f a) = frac_digits 15 (?f b)"
    using parse_digits_print by (metis, auto split: if_splits)
  have "?f c * 10 ^ 15 \<in> \<int>" if "c * 10 ^ 15 \<in> \<int>" for c :: rat
  proof -
    have "?f c * 10 ^ 15 = c * 10 ^ 15 - of_int (\<lfloor>c\<rfloor> * 10 ^ 15)" by (simp add: algebra_simps)
    then show ?thesis using that by (metis Ints_diff Ints_of_int)
  qed
  then have "digits_fraction (frac_digits 15 (?f c)) = ?f c" if "c * 10 ^ 15 \<in> \<int>" for c
    using that by (intro digits_fraction_print) (auto simp: linorder_not_le, linarith)
  then have "?f a = ?f b" using f assms(3,4) by metis
  moreover have "\<lfloor>a\<rfloor> = \<lfloor>b\<rfloor>" using i assms(1,2) by (metis eq_nat_nat_iff zero_le_floor)
  ultimately show ?thesis by simp
qed

lemma num_to_string_inject:
  assumes "decimal_num q" "decimal_num q'" "num_to_string q = num_to_string q'"
  shows "q = q'"
proof -
  have ints: "\<bar>q\<bar> * 10 ^ 15 \<in> \<int>" "\<bar>q'\<bar> * 10 ^ 15 \<in> \<int>"
  proof -
    have "\<bar>r\<bar> * 10 ^ 15 \<in> \<int>" if "decimal_num r" for r
    proof -
      have "r * 10 ^ 15 \<in> \<int>" using that unfolding decimal_num_def by (metis Ints_of_int)
      then have "\<bar>r * 10 ^ 15\<bar> \<in> \<int>" by (rule Ints_abs)
      then show ?thesis by (simp add: abs_mult)
    qed
    then show "\<bar>q\<bar> * 10 ^ 15 \<in> \<int>" "\<bar>q'\<bar> * 10 ^ 15 \<in> \<int>" using assms(1,2) by auto
  qed
  have no_minus: "nat_to_string n @ t \<noteq> CHR ''-'' # u" for n t u
    using nat_to_string_digits [of n] digit_not_sign nat_to_string_nonempty [of n]
    by (cases "nat_to_string n") auto
  have sign: "q < 0 \<longleftrightarrow> q' < 0"
    using assms(3) no_minus no_minus [symmetric] no_minus [where t = "[]"] no_minus [where t = "[]", symmetric] by (auto simp: num_to_string_def Let_def split: if_splits)
  then have "\<bar>q\<bar> = \<bar>q'\<bar>"
    using assms(3) by (intro abs_print_inject [OF _ _ ints]) (auto simp: num_to_string_def Let_def split: if_splits)
  then show ?thesis using sign by auto
qed

section \<open>The text of a normal form is read back in one way\<close>

text \<open>Values as \<open>normal_form\<close> leaves them.\<close>

fun is_normal :: "jv \<Rightarrow> bool" where
  "is_normal JNull = True"
| "is_normal (JBool b) = True"
| "is_normal (JNum q) = decimal_num q"
| "is_normal (JStr s) = True"
| "is_normal (JArr vs) = list_all is_normal vs"
| "is_normal (JObj m) = list_all (\<lambda>(k, v). is_normal v) m"
| "is_normal _ = False"

lemma json_text_num [simp]: "json_text (JNum q) = num_to_string q"
proof -
  have "num_to_string 0 = ''0''" by code_simp
  then show ?thesis by simp
qed

declare json_text.simps(3) [simp del]

text \<open>The first character of a text tells the kind of the value.\<close>

fun text_kind :: "char \<Rightarrow> nat" where
  "text_kind c = (if c = CHR ''n'' then 1 else if c = CHR ''t'' then 2 else if c = CHR ''f'' then 3
     else if c = CHR 34 then 4 else if c = CHR ''['' then 5 else if c = CHR ''{'' then 6
     else if num_char c then 7 else 0)"

fun value_kind :: "jv \<Rightarrow> nat" where
  "value_kind JNull = 1"
| "value_kind (JBool b) = (if b then 2 else 3)"
| "value_kind (JStr s) = 4"
| "value_kind (JArr vs) = 5"
| "value_kind (JObj m) = 6"
| "value_kind (JNum q) = 7"
| "value_kind _ = 0"

lemma num_char_kind: "num_char c \<Longrightarrow> text_kind c = 7"
  by (auto simp: num_char_def is_digit_def char_code_def)

lemma json_text_head: "is_normal v \<Longrightarrow> \<exists>c t. json_text v = c # t \<and> text_kind c = value_kind v"
proof (cases v)
  case (JNum q)
  obtain c t where "num_to_string q = c # t" using num_to_string_nonempty by (cases "num_to_string q") auto
  moreover from this have "num_char c" using num_to_string_chars [of q] by simp
  ultimately show ?thesis using JNum num_char_kind by auto
qed (auto simp: serializeString_def)

lemma text_kind_delimiter: "c \<in> {CHR '','', CHR '']'', CHR ''}''} \<Longrightarrow> text_kind c = 0"
  by (auto simp: num_char_def is_digit_def char_code_def)

lemma head_not_delimiter: "is_normal v \<Longrightarrow> \<exists>c t. json_text v = c # t \<and> c \<notin> {CHR '','', CHR '']'', CHR ''}''}"
proof -
  assume v: "is_normal v"
  then have "value_kind v \<noteq> 0" by (cases v) auto
  then show ?thesis using json_text_head [OF v] text_kind_delimiter by metis
qed

lemma delimits_Cons: "delimits (CHR '','' # r)" "delimits (CHR '']'' # r)" "delimits (CHR ''}'' # r)" "delimits []"
  by (simp_all add: delimits_def)

lemma num_text_inject:
  assumes "decimal_num q" "decimal_num q'" "delimits r" "delimits r'" "num_to_string q @ r = num_to_string q' @ r'"
  shows "q = q' \<and> r = r'"
proof -
  have "\<not> num_char c" if "delimits (c # t)" for c t
    using that by (auto simp: delimits_def num_char_def is_digit_def char_code_def)
  then have "num_to_string q = num_to_string q' \<and> r = r'"
    using takeWhile_prefix [OF num_to_string_chars num_to_string_chars _ _ assms(5)] assms(3,4) by blast
  then show ?thesis using num_to_string_inject assms(1,2) by blast
qed

text \<open>Lists of elements, each printed by a function that can be read back, with the closing bracket.\<close>

lemma join_Cons: "join sep (x # xs) = x @ concat (map (\<lambda>y. sep @ y) xs)"
  by (simp add: join_def)

definition reads_back :: "('a \<Rightarrow> string) \<Rightarrow> ('a \<Rightarrow> bool) \<Rightarrow> 'a \<Rightarrow> bool" where
  "reads_back f P x = (\<forall>y r r'. P y \<longrightarrow> delimits r \<longrightarrow> delimits r' \<longrightarrow> f x @ r = f y @ r' \<longrightarrow> x = y \<and> r = r')"

lemma reads_backD:
  "reads_back f P x \<Longrightarrow> P y \<Longrightarrow> delimits r \<Longrightarrow> delimits r' \<Longrightarrow> f x @ r = f y @ r' \<Longrightarrow> x = y \<and> r = r'"
  unfolding reads_back_def by blast

definition elements_text :: "('a \<Rightarrow> string) \<Rightarrow> char \<Rightarrow> 'a list \<Rightarrow> string \<Rightarrow> string" where
  "elements_text f z xs r = concat (map (\<lambda>y. '','' @ f y) xs) @ z # r"

lemma elements_text_Cons: "elements_text f z (x # xs) r = CHR '','' # f x @ elements_text f z xs r"
  by (simp add: elements_text_def)

lemma elements_text_Nil: "elements_text f z [] r = z # r"
  by (simp add: elements_text_def)

lemma elements_text_delimits: "z \<in> {CHR '']'', CHR ''}''} \<Longrightarrow> delimits (elements_text f z xs r)"
  by (cases xs) (auto simp: elements_text_Cons elements_text_Nil delimits_def)

lemma join_elements: "join '','' (map f (x # xs)) @ z # r = f x @ elements_text f z xs r"
  by (simp add: join_def elements_text_def o_def)

lemma tail_inject:
  assumes "z \<in> {CHR '']'', CHR ''}''}"
  shows "\<forall>x \<in> set xs. reads_back f P x \<Longrightarrow> \<forall>y \<in> set ys. P y \<Longrightarrow>
    elements_text f z xs r = elements_text f z ys r' \<Longrightarrow> xs = ys \<and> r = r'"
proof (induction xs arbitrary: ys)
  case Nil
  then show ?case using assms by (cases ys) (auto simp: elements_text_Cons elements_text_Nil)
next
  case (Cons x xs)
  obtain y ys' where ys: "ys = y # ys'"
    using Cons.prems(3) assms by (cases ys) (auto simp: elements_text_Cons elements_text_Nil)
  have "f x @ elements_text f z xs r = f y @ elements_text f z ys' r'"
    using Cons.prems(3) by (simp add: ys elements_text_Cons)
  then have "x = y" "elements_text f z xs r = elements_text f z ys' r'"
    using reads_backD [of f P x y "elements_text f z xs r" "elements_text f z ys' r'"] Cons.prems(1,2) ys
      elements_text_delimits [OF assms] by auto
  then show ?case using Cons.IH [of ys'] Cons.prems(1,2) ys by auto
qed

lemma elements_inject:
  assumes "z \<in> {CHR '']'', CHR ''}''}" "\<forall>x \<in> set xs. reads_back f P x" "\<forall>y \<in> set ys. P y"
    "\<And>x. x \<in> set xs \<or> x \<in> set ys \<Longrightarrow> \<exists>c t. f x = c # t \<and> c \<noteq> z"
    "join '','' (map f xs) @ z # r = join '','' (map f ys) @ z # r'"
  shows "xs = ys \<and> r = r'"
proof (cases xs)
  case Nil
  have "ys = []"
  proof (rule ccontr)
    assume "ys \<noteq> []"
    then obtain y ys' where ys: "ys = y # ys'" by (cases ys) auto
    then have "z # r = f y @ elements_text f z ys' r'"
      using assms(5) join_elements [of f y ys' z r'] Nil by (simp add: join_def)
    then show False using assms(4) [of y] ys by auto
  qed
  then show ?thesis using assms(5) Nil by simp
next
  case (Cons x xs')
  then obtain c t where hd: "f x = c # t" "c \<noteq> z" using assms(4) [of x] by auto
  have "ys \<noteq> []"
    using assms(5) hd join_elements [of f x xs' z r] Cons by (auto simp: join_def)
  then obtain y ys' where ys: "ys = y # ys'" by (cases ys) auto
  then have "f x @ elements_text f z xs' r = f y @ elements_text f z ys' r'"
    using assms(5) join_elements [of f x xs' z r] join_elements [of f y ys' z r'] Cons by simp
  then have "x = y" "elements_text f z xs' r = elements_text f z ys' r'"
    using reads_backD [of f P x y "elements_text f z xs' r" "elements_text f z ys' r'"] assms(2,3) Cons ys
      elements_text_delimits [OF assms(1)] by auto
  then show ?thesis using tail_inject [OF assms(1), of xs' f P ys' r r'] assms(2,3) Cons ys by auto
qed

text \<open>The text of a value, read back.\<close>

lemma same_kind:
  assumes "is_normal v" "is_normal w" "json_text v @ r = json_text w @ r'"
  shows "value_kind v = value_kind w"
proof -
  obtain c t d u where "json_text v = c # t" "text_kind c = value_kind v" "json_text w = d # u" "text_kind d = value_kind w"
    using json_text_head [OF assms(1)] json_text_head [OF assms(2)] by blast
  then show ?thesis using assms(3) by (metis append_Cons list.inject)
qed

lemma reads_backI:
  assumes "is_normal v" "\<And>w r r'. is_normal w \<Longrightarrow> value_kind v = value_kind w \<Longrightarrow> delimits r \<Longrightarrow> delimits r' \<Longrightarrow>
    json_text v @ r = json_text w @ r' \<Longrightarrow> v = w \<and> r = r'"
  shows "reads_back json_text is_normal v"
  unfolding reads_back_def using assms same_kind [OF assms(1)] by blast

lemma leaf_reads_back:
  "reads_back json_text is_normal JNull" "reads_back json_text is_normal (JBool b)" "reads_back json_text is_normal (JStr s)"
proof -
  show "reads_back json_text is_normal JNull"
  proof (rule reads_backI)
    fix w r r' assume "value_kind JNull = value_kind w" "json_text JNull @ r = json_text w @ r'"
    then show "JNull = w \<and> r = r'" by (cases w) (auto split: if_splits)
  qed simp
  show "reads_back json_text is_normal (JBool b)"
  proof (rule reads_backI)
    fix w r r' assume "value_kind (JBool b) = value_kind w" "json_text (JBool b) @ r = json_text w @ r'"
    then show "JBool b = w \<and> r = r'" by (cases w) (auto split: if_splits)
  qed simp
  show "reads_back json_text is_normal (JStr s)"
  proof (rule reads_backI)
    fix w r r' assume "value_kind (JStr s) = value_kind w" "json_text (JStr s) @ r = json_text w @ r'"
    then show "JStr s = w \<and> r = r'" by (cases w) (auto simp: serializeString_inject split: if_splits)
  qed simp
qed

lemma json_text_reads_back: "is_normal v \<Longrightarrow> reads_back json_text is_normal v"
proof (induction v)
  case (JNum q)
  show ?case
    unfolding reads_back_def
  proof (intro allI impI)
    fix w r r'
    assume w: "is_normal w" "delimits r" "delimits r'" "json_text (JNum q) @ r = json_text w @ r'"
    then have "value_kind w = 7" using json_text_head [of w] json_text_head [OF JNum] by auto
    then obtain q' where "w = JNum q'" by (cases w) (auto split: if_splits)
    then show "JNum q = w \<and> r = r'" using num_text_inject [of q q' r r'] w JNum by simp
  qed
next
  case (JArr vs)
  show ?case
    unfolding reads_back_def
  proof (intro allI impI)
    fix w r r'
    assume w: "is_normal w" "delimits r" "delimits r'" "json_text (JArr vs) @ r = json_text w @ r'"
    then have "value_kind w = 5" using json_text_head [of w] by auto
    then obtain ws where ws: "w = JArr ws" by (cases w) (auto split: if_splits)
    have "vs = ws \<and> r = r'"
    proof (rule elements_inject [of "CHR '']''" vs json_text is_normal ws])
      show "\<forall>x \<in> set vs. reads_back json_text is_normal x" "\<forall>y \<in> set ws. is_normal y"
        using JArr w(1) ws by (auto simp: list_all_iff)
      show "\<exists>c t. json_text x = c # t \<and> c \<noteq> CHR '']''" if "x \<in> set vs \<or> x \<in> set ws" for x
        using head_not_delimiter [of x] that JArr.prems w(1) ws by (auto simp: list_all_iff)
      show "join '','' (map json_text vs) @ CHR '']'' # r = join '','' (map json_text ws) @ CHR '']'' # r'"
        using w(4) ws by simp
    qed simp
    then show "JArr vs = w \<and> r = r'" using ws by simp
  qed
next
  case (JObj m)
  let ?f = "\<lambda>(k, v). serializeString k @ '':'' @ json_text v"
  show ?case
    unfolding reads_back_def
  proof (intro allI impI)
    fix w r r'
    assume w: "is_normal w" "delimits r" "delimits r'" "json_text (JObj m) @ r = json_text w @ r'"
    then have "value_kind w = 6" using json_text_head [of w] by auto
    then obtain n where n: "w = JObj n" by (cases w) (auto split: if_splits)
    have "m = n \<and> r = r'"
    proof (rule elements_inject [of "CHR ''}''" m ?f "\<lambda>(k, v). is_normal v" n])
      show "\<forall>y \<in> set n. (\<lambda>(k, v). is_normal v) y"
        using w(1) n by (auto simp: list_all_iff)
      show "\<forall>x \<in> set m. reads_back ?f (\<lambda>(k, v). is_normal v) x"
      proof
        fix x assume x: "x \<in> set m"
        obtain k v where kv: "x = (k, v)" by (cases x)
        have "reads_back json_text is_normal v" using JObj x kv by (fastforce simp: list_all_iff)
        then show "reads_back ?f (\<lambda>(k, v). is_normal v) x"
          unfolding reads_back_def kv by (auto simp: serializeString_inject)
      qed
      show "\<exists>c t. ?f x = c # t \<and> c \<noteq> CHR ''}''" for x
        by (cases x) (simp add: serializeString_def)
      show "join '','' (map ?f m) @ CHR ''}'' # r = join '','' (map ?f n) @ CHR ''}'' # r'"
        using w(4) n by simp
    qed simp
    then show "JObj m = w \<and> r = r'" using n by simp
  qed
qed (auto intro: leaf_reads_back)

lemma json_text_inject: "is_normal v \<Longrightarrow> is_normal w \<Longrightarrow> json_text v = json_text w \<longleftrightarrow> v = w"
  using reads_backD [OF json_text_reads_back, of v w "[]" "[]"] delimits_Cons(4) by auto

lemma normal_form_is_normal: "is_json v \<Longrightarrow> decimal_nums v \<Longrightarrow> is_normal (normal_form v)"
proof (induction v rule: normal_form.induct)
  case (2 m)
  have "is_normal (normal_form w)" if "(k, w) \<in> set m" "w \<noteq> JUndef" for k w
    using 2 that by (fastforce simp: list_all_iff)
  then show ?case by (auto simp: list_all_iff)
qed (auto simp: list_all_iff)

lemma canonicalize_inject:
  "is_json v \<Longrightarrow> is_json w \<Longrightarrow> decimal_nums v \<Longrightarrow> decimal_nums w \<Longrightarrow> canonicalize v = canonicalize w \<longleftrightarrow> normal_form v = normal_form w"
  by (simp add: canonicalize_normal json_text_inject normal_form_is_normal)

section \<open>Properties\<close>



end
