(* ===== verification/Presentation.thy ===== *)
theory Presentation
  imports Jcs Signing
begin

text \<open>
  Models \<open>sdk/src/presentation.ts\<close>: presentations that disclose some of a credential's claims.

  The DID resolver, the check of a signature under a Stellar key, the base64url decoder and SHA-256 are fds of an
  environment; so is the locale-aware order of \<open>computeDisclosedClaimsHash\<close>. The clock and the random bytes of an
  identifier are arguments. The verifier is modelled on presentations of the declared type: what a field that is no array,
  or is missing, would give is not.
\<close>

section \<open>Data\<close>

record credential =
  c_id :: string
  c_subject :: string
  c_issuer :: string
  c_credentialType :: string
  c_claims :: "(string, string) jsmap"
  c_claimsHash :: string
  c_issuedAt :: int
  c_expiresAt :: int

record credential_subset =
  vs_context :: "string list"
  vs_type :: "string list"
  vs_id :: string
  vs_issuer :: string
  vs_subject :: "(string, string) jsmap"
  vs_credentialType :: string
  vs_claimsHash :: string
  vs_issuedAt :: int
  vs_expiresAt :: int

datatype proof_format = DataIntegrityProof | JwtProof2020

record presentation_proof =
  pp_type :: string
  pp_created :: int
  pp_proofPurpose :: string
  pp_cryptosuite :: string
  pp_verificationMethod :: "string option"
  pp_jws :: "string option"

record presentation =
  vp_context :: "string list"
  vp_type :: "string list"
  vp_id :: string
  vp_holder :: "string option"
  vp_credentials :: "credential_subset list"
  vp_proof :: "presentation_proof option"
  vp_created :: int
  vp_challenge :: "string option"
  vp_expiresAt :: "int option"

record create_options =
  co_skipProofVerification :: bool
  co_challenge :: "string option"
  co_expiresAt :: "int option"
  co_proofFormat :: "proof_format option"

definition no_options :: create_options where
  "no_options = \<lparr>co_skipProofVerification = False, co_challenge = None, co_expiresAt = None, co_proofFormat = None\<rparr>"

record presentation_env =
  pe_resolveDid :: "string \<Rightarrow> thrown + string"
  pe_keyVerify :: "string \<Rightarrow> byte list \<Rightarrow> byte list \<Rightarrow> thrown + bool"
  pe_base64url :: "string \<Rightarrow> byte list"

definition W3C_VC_CONTEXT_V2 :: string where
  "W3C_VC_CONTEXT_V2 = ''https://www.w3.org/ns/credentials/v2''"

definition did_of :: "string \<Rightarrow> string" where
  "did_of a = ''did:stellar:'' @ a"

section \<open>Creating\<close>

definition disclosed_claims :: "credential \<Rightarrow> string list \<Rightarrow> (string, string) jsmap" where
  "disclosed_claims c fds = fold (\<lambda>f m. case jm_get (c_claims c) f of Some v \<Rightarrow> jm_set f v m | None \<Rightarrow> m) fds []"

definition credential_subset_of :: "credential \<Rightarrow> string list \<Rightarrow> credential_subset" where
  "credential_subset_of c fds = \<lparr>vs_context = [W3C_VC_CONTEXT_V2], vs_type = [''VerifiableCredential''],
     vs_id = ''urn:credential:'' @ c_id c, vs_issuer = did_of (c_issuer c),
     vs_subject = jm_merge [(''id'', did_of (c_subject c))] (disclosed_claims c fds),
     vs_credentialType = c_credentialType c, vs_claimsHash = c_claimsHash c, vs_issuedAt = c_issuedAt c,
     vs_expiresAt = c_expiresAt c\<rparr>"

text \<open>The bytes the holder's signature is checked against.\<close>

definition proof_payload :: "credential \<Rightarrow> string list \<Rightarrow> string \<Rightarrow> byte list" where
  "proof_payload c fds holder = utf8_bytes (''{'' @ serializeString ''credentialId'' @ '':'' @ serializeString (c_id c) @ '',''
     @ serializeString ''fieldsToDisclose'' @ '':['' @ join '','' (map serializeString (sort fds)) @ ''],''
     @ serializeString ''holderAddress'' @ '':'' @ serializeString holder @ ''}'')"

definition check_proof :: "presentation_env \<Rightarrow> credential \<Rightarrow> string list \<Rightarrow> string \<Rightarrow> string \<Rightarrow> thrown + unit" where
  "check_proof E c fds holder jws =
     bind_result (pe_resolveDid E holder) (\<lambda>controller.
     bind_result (pe_keyVerify E controller (proof_payload c fds holder) (pe_base64url E jws)) (\<lambda>ok.
       if ok then Inr () else Inl (sdk_throw ''proof.jws signature is invalid for the holder's DID key'' INVALID_PROOF)))"

definition proof_block :: "create_options \<Rightarrow> int \<Rightarrow> string \<Rightarrow> string \<Rightarrow> presentation_proof" where
  "proof_block opts created holder jws = (let jwt = (co_proofFormat opts = Some JwtProof2020) in
     \<lparr>pp_type = (if jwt then ''JwtProof2020'' else ''DataIntegrityProof''), pp_created = created,
      pp_proofPurpose = ''authentication'', pp_cryptosuite = (if jwt then ''jwt-2020'' else ''eddsa-2022''),
      pp_verificationMethod = Some (did_of holder @ ''#key-1''), pp_jws = Some jws\<rparr>)"

definition createPresentation :: "presentation_env \<Rightarrow> byte list \<Rightarrow> int \<Rightarrow> credential \<Rightarrow> string list \<Rightarrow> string option
    \<Rightarrow> string option \<Rightarrow> create_options \<Rightarrow> thrown + presentation" where
  "createPresentation E random now c fds holder jws opts = (let
     h = (case holder of Some (x # xs) \<Rightarrow> Some (x # xs) | _ \<Rightarrow> None);
     vp = \<lparr>vp_context = [W3C_VC_CONTEXT_V2], vp_type = [''VerifiablePresentation''],
       vp_id = ''urn:presentation:'' @ to_hex random, vp_holder = map_option did_of h,
       vp_credentials = [credential_subset_of c fds], vp_proof = None, vp_created = now,
       vp_challenge = co_challenge opts, vp_expiresAt = co_expiresAt opts\<rparr>
   in case (jws, h) of
        (None, _) \<Rightarrow> Inr vp
      | (Some sig, None) \<Rightarrow> Inl (sdk_throw ''holderAddress is required when proofInput is provided'' INVALID_ARGUMENT)
      | (Some sig, Some a) \<Rightarrow>
          (let vp' = vp\<lparr>vp_proof := Some (proof_block opts now a sig)\<rparr> in
           if co_skipProofVerification opts then Inr vp'
           else bind_result (check_proof E c fds a sig) (\<lambda>_. Inr vp')))"

record presentation_template =
  pt_name :: string
  pt_fieldsToDisclose :: "string list"
  pt_proofFormat :: "proof_format option"
  pt_ttlMs :: "int option"

definition createPresentationFromTemplate :: "presentation_env \<Rightarrow> byte list \<Rightarrow> int \<Rightarrow> presentation_template \<Rightarrow> credential
    \<Rightarrow> string option \<Rightarrow> string option \<Rightarrow> create_options \<Rightarrow> thrown + presentation" where
  "createPresentationFromTemplate E random now tpl c holder jws opts = (let
     opts1 = opts\<lparr>co_proofFormat := (case co_proofFormat opts of Some f \<Rightarrow> Some f | None \<Rightarrow> pt_proofFormat tpl)\<rparr>;
     opts2 = (case (co_expiresAt opts1, pt_ttlMs tpl) of (None, Some ttl) \<Rightarrow> opts1\<lparr>co_expiresAt := Some (now + ttl)\<rparr> | _ \<Rightarrow> opts1)
   in createPresentation E random now c (pt_fieldsToDisclose tpl) holder jws opts2)"

text \<open>\<open>Array.from(new Set(...))\<close> keeps the first of each.\<close>

definition unique_fields :: "string list \<Rightarrow> string list" where
  "unique_fields fds = rev (remdups (rev fds))"

definition buildSelectivePresentation :: "presentation_env \<Rightarrow> byte list \<Rightarrow> int \<Rightarrow> credential \<Rightarrow> string list \<Rightarrow> string option
    \<Rightarrow> string option \<Rightarrow> create_options \<Rightarrow> thrown + presentation" where
  "buildSelectivePresentation E random now c attrs holder jws opts =
     createPresentation E random now c (unique_fields attrs) holder jws opts"

definition computeDisclosedClaimsHash :: "crypto \<Rightarrow> ((string, string) jsmap \<Rightarrow> (string, string) jsmap) \<Rightarrow> (string, string) jsmap \<Rightarrow> string" where
  "computeDisclosedClaimsHash C locale_sort claims = to_hex (sha256 C (utf8_bytes (''{'' @ join '',''
     (map (\<lambda>(k, v). serializeString k @ '':'' @ serializeString v) (locale_sort claims)) @ ''}'')))"

section \<open>Verifying\<close>

datatype verify_fail = INVALID_CONTEXT | INVALID_TYPE | MISSING_CREDENTIALS | INCOMPLETE_CREDENTIAL | MISSING_CLAIMS
  | CHALLENGE_MISMATCH | EXPIRED | INVALID_PROOF_BLOCK

fun check_credentials :: "credential_subset list \<Rightarrow> verify_fail option" where
  "check_credentials [] = None"
| "check_credentials (vc # vcs) =
     (if vs_id vc = [] \<or> vs_issuer vc = [] \<or> vs_claimsHash vc = [] \<or>
         (case jm_get (vs_subject vc) ''id'' of Some i \<Rightarrow> i = [] | None \<Rightarrow> True) then Some INCOMPLETE_CREDENTIAL
      else if jm_delete ''id'' (vs_subject vc) = [] then Some MISSING_CLAIMS
      else check_credentials vcs)"

definition verifyPresentation :: "int \<Rightarrow> presentation \<Rightarrow> string option \<Rightarrow> verify_fail option" where
  "verifyPresentation now vp challenge = (
     if W3C_VC_CONTEXT_V2 \<notin> set (vp_context vp) then Some INVALID_CONTEXT
     else if ''VerifiablePresentation'' \<notin> set (vp_type vp) then Some INVALID_TYPE
     else if vp_credentials vp = [] then Some MISSING_CREDENTIALS
     else case check_credentials (vp_credentials vp) of
       Some f \<Rightarrow> Some f
     | None \<Rightarrow>
       if challenge \<noteq> None \<and> vp_challenge vp \<noteq> challenge then Some CHALLENGE_MISMATCH
       else if (case vp_expiresAt vp of Some e \<Rightarrow> e > 0 \<and> now \<ge> e | None \<Rightarrow> False) then Some EXPIRED
       else case vp_proof vp of
         Some p \<Rightarrow>
           if pp_type p \<noteq> ''DataIntegrityProof'' \<and> pp_type p \<noteq> ''JwtProof2020'' then Some INVALID_PROOF_BLOCK
           else if (case pp_jws p of Some j \<Rightarrow> j = [] | None \<Rightarrow> True) then Some INVALID_PROOF_BLOCK
           else None
       | None \<Rightarrow> None)"

section \<open>Lemmas\<close>

lemma disclosed_step:
  "jm_get (fold (\<lambda>f m. case jm_get cl f of Some v \<Rightarrow> jm_set f v m | None \<Rightarrow> m) fds m) k =
     (if k \<in> set fds \<and> jm_get cl k \<noteq> None then jm_get cl k else jm_get m k)"
  by (induction fds arbitrary: m) (auto split: option.split)

lemma disclosed_get: "jm_get (disclosed_claims c fds) k = (if k \<in> set fds then jm_get (c_claims c) k else None)"
  by (simp add: disclosed_claims_def disclosed_step)

lemma disclosed_cong:
  "(\<And>f. f \<in> set fds \<Longrightarrow> jm_get (c_claims c) f = jm_get (c_claims c') f) \<Longrightarrow> disclosed_claims c fds = disclosed_claims c' fds"
  unfolding disclosed_claims_def by (rule fold_cong) auto

lemma jm_merge_Cons: "jm_merge m ((k, v) # n) = jm_merge (jm_set k v m) n"
  by (simp add: jm_merge_def)

lemma jm_merge_get: "jm_get (jm_merge m n) k = (case map_of (rev n) k of Some v \<Rightarrow> Some v | None \<Rightarrow> jm_get m k)"
  by (induction n arbitrary: m) (auto simp: jm_merge_Cons jm_merge_def[of _ "[]"] map_add_def split: option.split)

lemma subject_get:
  "jm_get (vs_subject (credential_subset_of c fds)) k = (case jm_get (disclosed_claims c fds) k of Some v \<Rightarrow> Some v
     | None \<Rightarrow> if k = ''id'' then Some (did_of (c_subject c)) else None)"
proof -
  have wf: "jm_wf (disclosed_claims c fds)"
  proof -
    have "jm_wf m \<Longrightarrow> jm_wf (fold (\<lambda>f m. case jm_get (c_claims c) f of Some v \<Rightarrow> jm_set f v m | None \<Rightarrow> m) fds m)" for m
      by (induction fds arbitrary: m) (auto split: option.split)
    then show ?thesis unfolding disclosed_claims_def by (meson jm_wf_empty)
  qed
  have "map_of (rev (disclosed_claims c fds)) k = jm_get (disclosed_claims c fds) k"
    using wf map_of_inject_set [of "rev (disclosed_claims c fds)" "disclosed_claims c fds"]
    by (simp add: jm_get_def jm_wf_def rev_map [symmetric])
  then show ?thesis by (simp add: credential_subset_of_def jm_merge_get split: option.split)
qed

lemma delete_empty_iff: "jm_delete k m = [] \<longleftrightarrow> (\<forall>k'. k' \<noteq> k \<longrightarrow> jm_get m k' = None)"
proof (induction m)
  case (Cons e m)
  then show ?case by (cases e) (auto simp: jm_delete_def)
qed (simp add: jm_delete_def)

lemma createPresentation_fields:
  "createPresentation E random now c fds holder jws opts = Inr vp \<Longrightarrow>
    vp_context vp = [W3C_VC_CONTEXT_V2] \<and> vp_type vp = [''VerifiablePresentation''] \<and>
    vp_credentials vp = [credential_subset_of c fds] \<and> vp_challenge vp = co_challenge opts \<and>
    vp_expiresAt vp = co_expiresAt opts \<and>
    (case vp_proof vp of None \<Rightarrow> jws = None | Some p \<Rightarrow> pp_type p \<in> {''DataIntegrityProof'', ''JwtProof2020''} \<and> pp_jws p = jws \<and> jws \<noteq> None)"
  by (auto simp: createPresentation_def Let_def proof_block_def bind_result_Inr_iff split: option.splits list.splits if_splits)

section \<open>Properties\<close>


definition trusting_env :: presentation_env where
  "trusting_env = \<lparr>pe_resolveDid = Inr, pe_keyVerify = (\<lambda>_ _ _. Inr True), pe_base64url = utf8_bytes\<rparr>"

definition kyc :: credential where
  "kyc = \<lparr>c_id = ''aa'', c_subject = ''GS'', c_issuer = ''GI'', c_credentialType = ''Kyc'',
     c_claims = [(''name'', ''Alice''), (''country'', ''US'')], c_claimsHash = ''ff'', c_issuedAt = 1, c_expiresAt = 0\<rparr>"


text \<open>
  A presentation tells nothing about the claims that were not chosen, beyond the credential's claims hash: two
  credentials that differ only in claims outside the chosen fields give the same presentation, or the same error; and
  the subject it carries has the subject's DID and the chosen claims, nothing else.
\<close>

theorem presentation_discloses_only_chosen:
  assumes "c' = c\<lparr>c_claims := cl\<rparr>" "\<And>f. f \<in> set fds \<Longrightarrow> jm_get cl f = jm_get (c_claims c) f"
  shows "createPresentation E random now c' fds holder jws opts = createPresentation E random now c fds holder jws opts \<and>
    (jm_get (vs_subject (credential_subset_of c fds)) k = Some v \<longrightarrow>
      k \<in> set fds \<and> jm_get (c_claims c) k = Some v \<or> k = ''id'' \<and> v = did_of (c_subject c))"
proof -
  have "disclosed_claims c' fds = disclosed_claims c fds"
    by (rule disclosed_cong) (simp add: assms)
  then have "credential_subset_of c' fds = credential_subset_of c fds" using assms(1) by (simp add: credential_subset_of_def)
  moreover have "check_proof E c' fds = check_proof E c fds"
    using assms(1) by (intro ext) (simp add: check_proof_def proof_payload_def)
  ultimately have "createPresentation E random now c' fds holder jws opts = createPresentation E random now c fds holder jws opts"
    unfolding createPresentation_def Let_def by (cases jws; cases holder) (simp_all split: list.split)
  then show ?thesis
    by (auto simp: subject_get disclosed_get split: option.splits if_splits)
qed

theorem presentation_discloses_only_chosen_witness:
  "createPresentation trusting_env [] 5 (kyc\<lparr>c_claims := [(''name'', ''Alice'')]\<rparr>) [''name''] None None no_options
    = createPresentation trusting_env [] 5 kyc [''name''] None None no_options"
  using presentation_discloses_only_chosen [of "kyc\<lparr>c_claims := [(''name'', ''Alice'')]\<rparr>" "[(''name'', ''Alice'')]" kyc "[''name'']"]
  by (simp add: kyc_def)

text \<open>
  The holder's signature does not bind the presentation: one that was accepted for a credential and fields is
  accepted for the same fields with any challenge, any expiry and at any time.
\<close>

theorem proof_binds_no_challenge:
  assumes "createPresentation E random now c fds holder (Some jws) opts = Inr vp" "co_skipProofVerification opts = False"
  shows "\<exists>vp'. createPresentation E random' now' c fds holder (Some jws)
      (opts\<lparr>co_challenge := challenge, co_expiresAt := expiry\<rparr>) = Inr vp' \<and> vp_challenge vp' = challenge \<and>
    vp_expiresAt vp' = expiry \<and> (\<exists>p. vp_proof vp' = Some p \<and> pp_jws p = Some jws)"
  using assms
  by (auto simp: createPresentation_def Let_def proof_block_def bind_result_Inr_iff split: option.splits list.splits)

theorem proof_binds_no_challenge_witness:
  "\<exists>vp'. createPresentation trusting_env [1] 99 kyc [''name''] (Some ''GH'') (Some ''c2ln'')
      (no_options\<lparr>co_challenge := Some ''other'', co_expiresAt := None\<rparr>) = Inr vp' \<and> vp_challenge vp' = Some ''other''"
proof -
  obtain vp where "createPresentation trusting_env [] 5 kyc [''name''] (Some ''GH'') (Some ''c2ln'') no_options = Inr vp"
    by (simp add: createPresentation_def Let_def check_proof_def trusting_env_def no_options_def)
  from proof_binds_no_challenge [OF this, where random' = "[1]" and now' = 99 and challenge = "Some ''other''" and expiry = None] show ?thesis
    by (auto simp: no_options_def)
qed

text \<open>A disclosed claim named \<open>id\<close> replaces the subject's DID in the presentation.\<close>

lemma id_claim_replaces_subject:
  "''id'' \<in> set fds \<Longrightarrow> jm_get (c_claims c) ''id'' = Some v \<Longrightarrow>
    jm_get (vs_subject (credential_subset_of c fds)) ''id'' = Some v"
  by (simp add: subject_get disclosed_get)

end
