(* ===== verification/IsoDate.thy ===== *)
theory IsoDate
  imports JsValue
begin

text \<open>
  \<open>Date.prototype.toISOString\<close> and \<open>Date.parse\<close>, as the ECMAScript standard computes them, for the times the code handles:
  milliseconds from 1970 to the end of 9999, and their text \<open>YYYY-MM-DDTHH:MM:SS.mmmZ\<close>. Other texts of dates are not
  modelled; \<open>None\<close> is an invalid date.
\<close>

section \<open>The calendar\<close>

definition ONE_DAY_MS :: nat where
  "ONE_DAY_MS = 86400000"

definition leap_year :: "nat \<Rightarrow> bool" where
  "leap_year y = (y mod 4 = 0 \<and> (y mod 100 \<noteq> 0 \<or> y mod 400 = 0))"

text \<open>Months count from 0, as in JavaScript.\<close>

definition month_days :: "nat \<Rightarrow> nat \<Rightarrow> nat" where
  "month_days y m = (if m = 1 then (if leap_year y then 29 else 28) else if m \<in> set [3, 5, 8, 10] then 30 else 31)"

lemma month_days_pos: "0 < month_days y m"
  by (simp add: month_days_def)

definition year_days :: "nat \<Rightarrow> nat" where
  "year_days y = (if leap_year y then 366 else 365)"

text \<open>\<open>DayFromYear\<close> of the standard, from 1970 on.\<close>

definition day_from_year :: "nat \<Rightarrow> nat" where
  "day_from_year y = 365 * (y - 1970) + (y - 1969) div 4 - (y - 1901) div 100 + (y - 1601) div 400"

lemma year_step:
  fixes a b c n :: nat
  assumes "b \<le> 365 * n + a" "q400 \<longrightarrow> q100" "q100 \<longrightarrow> q4"
  shows "365 * Suc n + (if q4 then Suc a else a) - (if q100 then Suc b else b) + (if q400 then Suc c else c)
    = 365 * n + a - b + c + (if q4 \<and> (\<not> q100 \<or> q400) then 366 else 365)"
  using assms by (cases q4; cases q100; cases q400) auto

lemma clock_total:
  fixes x :: nat
  shows "x div 3600000 * 3600000 + x div 60000 mod 60 * 60000 + x div 1000 mod 60 * 1000 + x mod 1000 = x"
proof -
  have "x div 60000 = x div 1000 div 60" "x div 3600000 = x div 60000 div 60"
    by (simp_all flip: div_mult2_eq)
  moreover note div_mult_mod_eq [of x 1000] div_mult_mod_eq [of "x div 1000" 60] div_mult_mod_eq [of "x div 60000" 60]
  ultimately show ?thesis by linarith
qed

lemma day_from_year_Suc:
  assumes "1970 \<le> y"
  shows "day_from_year (Suc y) = day_from_year y + year_days y"
proof -
  obtain n where y: "y = n + 1970" using assms le_Suc_ex by (metis add.commute)
  have m4: "(n + 1970) mod 4 = Suc (n + 1) mod 4" and m100: "(n + 1970) mod 100 = Suc (n + 69) mod 100"
    and m400: "(n + 1970) mod 400 = Suc (n + 369) mod 400"
    using mod_mult_self1 [of "n + 2" 492 4] mod_mult_self1 [of "n + 70" 19 100] mod_mult_self1 [of "n + 370" 4 400] by (simp_all add: add.commute)
  have "(n + 1970) mod 400 = 0 \<longrightarrow> (n + 1970) mod 100 = 0" "(n + 1970) mod 100 = 0 \<longrightarrow> (n + 1970) mod 4 = 0"
    using dvd_trans [of 100 400 "n + 1970"] dvd_trans [of 4 100 "n + 1970"] by (simp_all add: mod_eq_0_iff_dvd)
  moreover have "(n + 69) div 100 \<le> 365 * n + (n + 1) div 4" by linarith
  moreover have "day_from_year (Suc y) = 365 * Suc n + Suc (n + 1) div 4 - Suc (n + 69) div 100 + Suc (n + 369) div 400"
    "day_from_year y = 365 * n + (n + 1) div 4 - (n + 69) div 100 + (n + 369) div 400"
    by (simp_all add: y day_from_year_def add.commute)
  moreover have "year_days y = (if (n + 1970) mod 4 = 0 \<and> ((n + 1970) mod 100 \<noteq> 0 \<or> (n + 1970) mod 400 = 0) then 366 else 365)"
    by (simp only: y year_days_def leap_year_def)
  ultimately show ?thesis
    by (simp only: div_Suc [of "n + 1" 4, folded m4] div_Suc [of "n + 69" 100, folded m100] div_Suc [of "n + 369" 400, folded m400] year_step)
qed

lemma day_from_year_mono: "1970 \<le> y \<Longrightarrow> day_from_year y \<le> day_from_year (y + n)"
  by (induction n) (auto simp: day_from_year_Suc)

function year_loop :: "nat \<Rightarrow> nat \<Rightarrow> nat \<times> nat" where
  "year_loop y d = (if d < year_days y then (y, d) else year_loop (y + 1) (d - year_days y))"
  by pat_completeness auto
termination
  by (relation "measure snd") (auto simp: year_days_def split: if_splits)

function month_loop :: "nat \<Rightarrow> nat \<Rightarrow> nat \<Rightarrow> nat \<times> nat" where
  "month_loop y m d = (if d < month_days y m then (m, d) else month_loop y (m + 1) (d - month_days y m))"
  by pat_completeness auto
termination
  by (relation "measure (\<lambda>(y, m, d). d)") (auto simp: month_days_def split: if_splits)

declare year_loop.simps [simp del] month_loop.simps [simp del]

fun day_from_month :: "nat \<Rightarrow> nat \<Rightarrow> nat" where
  "day_from_month y 0 = 0"
| "day_from_month y (Suc m) = day_from_month y m + month_days y m"

lemma year_loop_spec:
  "1970 \<le> y \<Longrightarrow> year_loop y d = (y', r) \<Longrightarrow> 1970 \<le> y' \<and> r < year_days y' \<and> day_from_year y' + r = day_from_year y + d"
proof (induction y d rule: year_loop.induct)
  case (1 y d)
  show ?case
  proof (cases "d < year_days y")
    case True
    with "1.prems" show ?thesis by (subst (asm) year_loop.simps) auto
  next
    case False
    then have "year_loop (y + 1) (d - year_days y) = (y', r)"
      using "1.prems" by (subst (asm) year_loop.simps) simp
    with "1.IH" [OF False] "1.prems" False show ?thesis by (simp add: day_from_year_Suc)
  qed
qed

lemma month_loop_spec:
  "month_loop y m d = (m', r) \<Longrightarrow> r < month_days y m' \<and> day_from_month y m' + r = day_from_month y m + d"
proof (induction y m d rule: month_loop.induct)
  case (1 y m d)
  show ?case
  proof (cases "d < month_days y m")
    case True
    with "1.prems" show ?thesis by (subst (asm) month_loop.simps) auto
  next
    case False
    then have "month_loop y (m + 1) (d - month_days y m) = (m', r)"
      using "1.prems" by (subst (asm) month_loop.simps) simp
    with "1.IH" [OF False] False show ?thesis by simp
  qed
qed

lemma day_from_month_12: "day_from_month y 12 = year_days y"
  by (simp add: eval_nat_numeral month_days_def year_days_def)

lemma day_from_month_mono: "m \<le> m' \<Longrightarrow> day_from_month y m \<le> day_from_month y m'"
  by (rule lift_Suc_mono_le) auto

section \<open>Text\<close>

definition two :: "nat \<Rightarrow> string" where "two n = pad_left 2 (nat_to_string n)"
definition three :: "nat \<Rightarrow> string" where "three n = pad_left 3 (nat_to_string n)"
definition four :: "nat \<Rightarrow> string" where "four n = pad_left 4 (nat_to_string n)"

definition iso_string :: "nat \<Rightarrow> string" where
  "iso_string t = (case year_loop 1970 (t div ONE_DAY_MS) of (y, dy) \<Rightarrow> (case month_loop y 0 dy of (m, dm) \<Rightarrow>
     (let ms = t mod ONE_DAY_MS in
      four y @ ''-'' @ two (m + 1) @ ''-'' @ two (dm + 1) @ ''T'' @ two (ms div 3600000) @ '':'' @ two (ms div 60000 mod 60)
      @ '':'' @ two (ms div 1000 mod 60) @ ''.'' @ three (ms mod 1000) @ ''Z'')))"

definition digits_of :: "string \<Rightarrow> nat option" where
  "digits_of s = (if list_all js_digit s then Some (digits_value s) else None)"

definition date_parse :: "string \<Rightarrow> nat option" where
  "date_parse s = (if length s = 24 \<and> s ! 4 = CHR ''-'' \<and> s ! 7 = CHR ''-'' \<and> s ! 10 = CHR ''T'' \<and> s ! 13 = CHR '':''
       \<and> s ! 16 = CHR '':'' \<and> s ! 19 = CHR ''.'' \<and> s ! 23 = CHR ''Z'' then
     (case (digits_of (take 4 s), digits_of (take 2 (drop 5 s)), digits_of (take 2 (drop 8 s)), digits_of (take 2 (drop 11 s)),
            digits_of (take 2 (drop 14 s)), digits_of (take 2 (drop 17 s)), digits_of (take 3 (drop 20 s))) of
        (Some y, Some m, Some d, Some h, Some mi, Some sec, Some ms) \<Rightarrow>
          if 1970 \<le> y \<and> 1 \<le> m \<and> m \<le> 12 \<and> 1 \<le> d \<and> d \<le> month_days y (m - 1) \<and> h < 24 \<and> mi < 60 \<and> sec < 60
          then Some ((day_from_year y + day_from_month y (m - 1) + (d - 1)) * ONE_DAY_MS + h * 3600000 + mi * 60000 + sec * 1000 + ms)
          else None
      | _ \<Rightarrow> None) else None)"

text \<open>The first millisecond of the year 10000.\<close>

definition END_OF_TIME :: nat where
  "END_OF_TIME = 253402300800000"

lemma length_nat_to_string: "n < 10 ^ k \<Longrightarrow> 0 < k \<Longrightarrow> length (nat_to_string n) \<le> k"
proof (induction k arbitrary: n)
  case (Suc k)
  show ?case
  proof (cases "n < 10")
    case True
    then show ?thesis by (subst nat_to_string.simps) simp
  next
    case False
    then have "0 < k" using Suc.prems by (cases k) auto
    moreover have "n div 10 < 10 ^ k" using Suc.prems(1) by (simp add: less_mult_imp_div_less mult.commute)
    ultimately show ?thesis using Suc.IH [of "n div 10"] False by (subst nat_to_string.simps) simp
  qed
qed simp

lemma js_digit_is_digit': "js_digit c = is_digit c"
  by (auto simp: js_digit_def is_digit_def)

lemma digits_value_parse': "digits_value = parse_digits"
  by (simp add: fun_eq_iff digits_value_def parse_digits_def digit_val_def)

lemma parse_zeros: "parse_digits (replicate k CHR ''0'' @ ds) = parse_digits ds"
  by (induction k) (simp_all add: parse_digits_def digit_val_def char_code_def)

lemma padded:
  assumes "n < 10 ^ k" "0 < k"
  shows "length (pad_left k (nat_to_string n)) = k" "digits_of (pad_left k (nat_to_string n)) = Some n"
proof -
  show "length (pad_left k (nat_to_string n)) = k"
    using length_nat_to_string [OF assms] by (simp add: pad_left_def)
  have "list_all js_digit (pad_left k (nat_to_string n))"
    using nat_to_string_digits [of n] by (auto simp: pad_left_def js_digit_is_digit' is_digit_def char_code_def list_all_iff)
  then show "digits_of (pad_left k (nat_to_string n)) = Some n"
    by (simp add: digits_of_def digits_value_parse' pad_left_def parse_zeros)
qed

lemmas padded_2 = padded [of _ 2, folded two_def, simplified]
  and padded_3 = padded [of _ 3, folded three_def, simplified]
  and padded_4 = padded [of _ 4, folded four_def, simplified]

lemma length_2D: "length xs = 2 \<Longrightarrow> \<exists>a b. xs = [a, b]"
  and length_3D: "length xs = 3 \<Longrightarrow> \<exists>a b c. xs = [a, b, c]"
  and length_4D: "length xs = 4 \<Longrightarrow> \<exists>a b c d. xs = [a, b, c, d]"
  by (auto simp: eval_nat_numeral length_Suc_conv)

lemma date_parse_shape:
  assumes "length A = 4" "length B = 2" "length C = 2" "length D = 2" "length E = 2" "length F = 2" "length G = 3"
    "digits_of A = Some y" "digits_of B = Some m" "digits_of C = Some d" "digits_of D = Some h" "digits_of E = Some mi"
    "digits_of F = Some sec" "digits_of G = Some ms"
  shows "date_parse (A @ ''-'' @ B @ ''-'' @ C @ ''T'' @ D @ '':'' @ E @ '':'' @ F @ ''.'' @ G @ ''Z'') =
    (if 1970 \<le> y \<and> 1 \<le> m \<and> m \<le> 12 \<and> 1 \<le> d \<and> d \<le> month_days y (m - 1) \<and> h < 24 \<and> mi < 60 \<and> sec < 60
     then Some ((day_from_year y + day_from_month y (m - 1) + (d - 1)) * ONE_DAY_MS + h * 3600000 + mi * 60000 + sec * 1000 + ms)
     else None)"
proof -
  obtain a1 a2 a3 a4 b1 b2 c1 c2 d1 d2 e1 e2 f1 f2 g1 g2 g3 where
    "A = [a1, a2, a3, a4]" "B = [b1, b2]" "C = [c1, c2]" "D = [d1, d2]" "E = [e1, e2]" "F = [f1, f2]" "G = [g1, g2, g3]"
    using assms(1-7) by (metis length_2D length_3D length_4D)
  with assms(8-14) show ?thesis by (simp add: date_parse_def del: One_nat_def)
qed

theorem date_parse_iso:
  assumes "t < END_OF_TIME"
  shows "date_parse (iso_string t) = Some t"
proof -
  obtain y dy where y: "year_loop 1970 (t div ONE_DAY_MS) = (y, dy)" by fastforce
  obtain m dm where m: "month_loop y 0 dy = (m, dm)" by fastforce
  from year_loop_spec [OF order_refl y] have y1: "1970 \<le> y" "dy < year_days y" "day_from_year y + dy = t div ONE_DAY_MS"
    by (auto simp: day_from_year_def)
  from month_loop_spec [OF m] have m1: "dm < month_days y m" "day_from_month y m + dm = dy" by auto
  have "m < 12"
    using day_from_month_mono [of 12 m y] m1(2) y1(2) day_from_month_12 [of y] by linarith
  have "y < 10000"
  proof (rule ccontr)
    assume "\<not> y < 10000"
    then have "day_from_year 10000 \<le> day_from_year y"
      using day_from_year_mono [of 10000 "y - 10000"] by simp
    moreover have "t div ONE_DAY_MS < 2932897" using assms by (simp add: END_OF_TIME_def ONE_DAY_MS_def)
    moreover have "day_from_year 10000 = 2932897" by (simp add: day_from_year_def)
    ultimately show False using y1(3) by linarith
  qed
  let ?ms = "t mod ONE_DAY_MS"
  have "?ms < 86400000" by (simp add: ONE_DAY_MS_def)
  then have h: "?ms div 3600000 < 24" by (simp add: less_mult_imp_div_less)
  have "dm < 31" using m1(1) by (auto simp: month_days_def split: if_splits)
  have shape: "iso_string t = four y @ ''-'' @ two (m + 1) @ ''-'' @ two (dm + 1) @ ''T'' @ two (?ms div 3600000) @ '':''
      @ two (?ms div 60000 mod 60) @ '':'' @ two (?ms div 1000 mod 60) @ ''.'' @ three (?ms mod 1000) @ ''Z''"
    by (simp add: iso_string_def y m Let_def)
  have lens: "length (four y) = 4" "length (two (m + 1)) = 2" "length (two (dm + 1)) = 2" "length (two (?ms div 3600000)) = 2"
    "length (two (?ms div 60000 mod 60)) = 2" "length (two (?ms div 1000 mod 60)) = 2" "length (three (?ms mod 1000)) = 3"
    using \<open>y < 10000\<close> \<open>m < 12\<close> \<open>dm < 31\<close> h by (auto intro!: padded_2(1) padded_3(1) padded_4(1) intro: order_less_trans)
  have vals: "digits_of (four y) = Some y" "digits_of (two (m + 1)) = Some (m + 1)" "digits_of (two (dm + 1)) = Some (dm + 1)"
    "digits_of (two (?ms div 3600000)) = Some (?ms div 3600000)" "digits_of (two (?ms div 60000 mod 60)) = Some (?ms div 60000 mod 60)"
    "digits_of (two (?ms div 1000 mod 60)) = Some (?ms div 1000 mod 60)" "digits_of (three (?ms mod 1000)) = Some (?ms mod 1000)"
    using \<open>y < 10000\<close> \<open>m < 12\<close> \<open>dm < 31\<close> h by (auto intro!: padded_2(2) padded_3(2) padded_4(2) intro: order_less_trans)
  have total: "?ms div 3600000 * 3600000 + ?ms div 60000 mod 60 * 60000 + ?ms div 1000 mod 60 * 1000 + ?ms mod 1000 = ?ms"
    by (rule clock_total)
  have "t = t div ONE_DAY_MS * ONE_DAY_MS + ?ms" by simp
  then show ?thesis
    unfolding shape date_parse_shape [OF lens vals]
    using y1(1,3) \<open>m < 12\<close> m1 h total by (simp add: add.assoc)
qed

end
