(* ===== verification/Quota.thy ===== *)
theory Quota
  imports Signing IsoDate
begin

text \<open>
  Models \<open>server/src/quota.js\<close>: the tracker that counts the requests of a client against calendar days and months.

  Times are milliseconds since the epoch, not before it, and limits are natural numbers. \<open>Date.UTC\<close> is computed
  month by month from the epoch. The threshold callback is the list of notifications it gets; its own failures are only
  logged. The e-mail a notification turns into is not modelled.
\<close>

section \<open>Calendar\<close>

text \<open>The first month that starts after day \<open>d\<close>, from month \<open>m\<close> of year \<open>y\<close>, which starts at day \<open>start\<close>.\<close>

function month_after :: "nat \<Rightarrow> nat \<Rightarrow> nat \<Rightarrow> nat \<Rightarrow> nat" where
  "month_after d y m start = (let next_start = start + month_days y m in
     if d < next_start then next_start
     else if m = 11 then month_after d (y + 1) 0 next_start else month_after d y (m + 1) next_start)"
  by pat_completeness auto
termination
  by (relation "measure (\<lambda>(d, y, m, start). d + 1 - start)")
    (auto simp: Let_def month_days_pos not_less; insert month_days_pos; fastforce intro: diff_less_mono2)+

definition startOfNextUtcDay :: "nat \<Rightarrow> nat" where
  "startOfNextUtcDay now = (now div ONE_DAY_MS + 1) * ONE_DAY_MS"

definition startOfNextUtcMonth :: "nat \<Rightarrow> nat" where
  "startOfNextUtcMonth now = month_after (now div ONE_DAY_MS) 1970 0 0 * ONE_DAY_MS"

section \<open>State\<close>

record quota_tier =
  qt_name :: string
  qt_dailyLimit :: nat
  qt_monthlyLimit :: nat

definition QUOTA_TIERS :: "(string, quota_tier) jsmap" where
  "QUOTA_TIERS = [
     (''free'', \<lparr>qt_name = ''free'', qt_dailyLimit = 1000, qt_monthlyLimit = 20000\<rparr>),
     (''pro'', \<lparr>qt_name = ''pro'', qt_dailyLimit = 20000, qt_monthlyLimit = 400000\<rparr>),
     (''enterprise'', \<lparr>qt_name = ''enterprise'', qt_dailyLimit = 200000, qt_monthlyLimit = 4000000\<rparr>)]"

datatype overage_mode = Block | Allow

record tenant_override =
  to_tier :: "string option"
  to_dailyLimit :: "nat option"
  to_monthlyLimit :: "nat option"
  to_overageMode :: "overage_mode option"

datatype threshold = Eighty | Full

record usage =
  u_tier :: string
  u_dailyCount :: nat
  u_dailyResetAt :: nat
  u_monthlyCount :: nat
  u_monthlyResetAt :: nat
  u_notifiedDaily :: "threshold list"
  u_notifiedMonthly :: "threshold list"

record quota_config =
  qc_tiers :: "(string, quota_tier) jsmap"
  qc_overageMode :: overage_mode
  qc_notifies :: bool
  qc_maxBuckets :: nat
  qc_overrides :: "(string, tenant_override) jsmap"

type_synonym quota_state = "(string, usage) jsmap"

section \<open>Who is asking\<close>

text \<open>The parts of a request the tracker reads; a tenant may be named in five places, the first that is not nullish counts.\<close>

record quota_request =
  rq_tenants :: "string option list"
  rq_userTier :: "string option"
  rq_keyTier :: "string option"
  rq_headerTier :: "string option"
  rq_apiKeyId :: "string option"
  rq_authKeyId :: "string option"
  rq_forwarded :: "string option"
  rq_remote :: "string option"

definition resolveTenant :: "quota_request \<Rightarrow> string option" where
  "resolveTenant req = (case filter (\<lambda>t. t \<noteq> None) (rq_tenants req) of
     Some (c # cs) # _ \<Rightarrow> Some (c # cs) | _ \<Rightarrow> None)"

definition getTenantOverride :: "quota_config \<Rightarrow> string option \<Rightarrow> tenant_override option" where
  "getTenantOverride cfg tenant = (case tenant of None \<Rightarrow> None | Some t \<Rightarrow> jm_get (qc_overrides cfg) t)"

definition known_tier :: "quota_config \<Rightarrow> string option \<Rightarrow> string option" where
  "known_tier cfg t = (case t of Some (c # cs) \<Rightarrow>
     if jm_has (qc_tiers cfg) (to_lower (c # cs)) then Some (to_lower (c # cs)) else None | _ \<Rightarrow> None)"

definition resolveTier :: "quota_config \<Rightarrow> quota_request \<Rightarrow> string" where
  "resolveTier cfg req = (case known_tier cfg (case getTenantOverride cfg (resolveTenant req) of Some ov \<Rightarrow> to_tier ov | None \<Rightarrow> None) of
     Some t \<Rightarrow> t
   | None \<Rightarrow> (case known_tier cfg (rq_userTier req) of
       Some t \<Rightarrow> t
     | None \<Rightarrow> (case known_tier cfg (rq_keyTier req) of
         Some t \<Rightarrow> t
       | None \<Rightarrow> (case known_tier cfg (rq_headerTier req) of Some t \<Rightarrow> t | None \<Rightarrow> ''free''))))"

definition tier_record :: "quota_config \<Rightarrow> string \<Rightarrow> quota_tier" where
  "tier_record cfg t = (case jm_get (qc_tiers cfg) t of Some r \<Rightarrow> r | None \<Rightarrow> the (jm_get (qc_tiers cfg) ''free''))"

definition resolveLimits :: "quota_config \<Rightarrow> quota_request \<Rightarrow> string \<Rightarrow> quota_tier \<times> overage_mode" where
  "resolveLimits cfg req tierName = (let t = tier_record cfg tierName in
     case getTenantOverride cfg (resolveTenant req) of
       None \<Rightarrow> (t, qc_overageMode cfg)
     | Some ov \<Rightarrow> (\<lparr>qt_name = qt_name t,
          qt_dailyLimit = (case to_dailyLimit ov of Some n \<Rightarrow> n | None \<Rightarrow> qt_dailyLimit t),
          qt_monthlyLimit = (case to_monthlyLimit ov of Some n \<Rightarrow> n | None \<Rightarrow> qt_monthlyLimit t)\<rparr>,
        (case to_overageMode ov of Some m \<Rightarrow> m | None \<Rightarrow> qc_overageMode cfg)))"

definition truthy_string :: "string option \<Rightarrow> string option" where
  "truthy_string s = (case s of Some (c # cs) \<Rightarrow> Some (c # cs) | _ \<Rightarrow> None)"

definition getClientKey :: "quota_request \<Rightarrow> string" where
  "getClientKey req = (case resolveTenant req of
     Some t \<Rightarrow> ''tenant:'' @ t
   | None \<Rightarrow> (case truthy_string (rq_apiKeyId req) of
       Some k \<Rightarrow> ''key:'' @ k
     | None \<Rightarrow> (case truthy_string (rq_authKeyId req) of
         Some k \<Rightarrow> ''key:'' @ k
       | None \<Rightarrow> ''ip:'' @ (case truthy_string (rq_forwarded req) of
           Some f \<Rightarrow> js_trim (hd (js_split (CHR '','') f))
         | None \<Rightarrow> (case truthy_string (rq_remote req) of Some a \<Rightarrow> a | None \<Rightarrow> ''unknown'')))))"

section \<open>Counting\<close>

definition evictExpired :: "nat \<Rightarrow> quota_state \<Rightarrow> quota_state" where
  "evictExpired now s = filter (\<lambda>(k, u). \<not> now \<ge> u_monthlyResetAt u + ONE_DAY_MS) s"

definition fresh_usage :: "string \<Rightarrow> nat \<Rightarrow> usage" where
  "fresh_usage tierName now = \<lparr>u_tier = tierName, u_dailyCount = 0, u_dailyResetAt = startOfNextUtcDay now,
     u_monthlyCount = 0, u_monthlyResetAt = startOfNextUtcMonth now, u_notifiedDaily = [], u_notifiedMonthly = []\<rparr>"

definition roll_over :: "nat \<Rightarrow> usage \<Rightarrow> usage" where
  "roll_over now u0 = (let
     u1 = (if now \<ge> u_dailyResetAt u0
           then u0\<lparr>u_dailyCount := 0, u_dailyResetAt := startOfNextUtcDay now, u_notifiedDaily := []\<rparr> else u0)
   in if now \<ge> u_monthlyResetAt u1
      then u1\<lparr>u_monthlyCount := 0, u_monthlyResetAt := startOfNextUtcMonth now, u_notifiedMonthly := []\<rparr> else u1)"

definition getOrInitState :: "quota_config \<Rightarrow> string \<Rightarrow> string \<Rightarrow> nat \<Rightarrow> quota_state \<Rightarrow> usage \<times> quota_state" where
  "getOrInitState cfg key tierName now s = (let
     s1 = (case jm_get s key of
        Some u \<Rightarrow> s
      | None \<Rightarrow> jm_set key (fresh_usage tierName now) (if length s \<ge> qc_maxBuckets cfg then evictExpired now s else s));
     u = (roll_over now (the (jm_get s1 key)))\<lparr>u_tier := tierName\<rparr>
   in (u, jm_set key u s1))"

record period_usage =
  pu_limit :: nat
  pu_used :: nat
  pu_remaining :: nat
  pu_resetAt :: nat

definition ceil_div :: "nat \<Rightarrow> nat \<Rightarrow> nat" where
  "ceil_div a b = (a + b - 1) div b"

definition describe_usage :: "usage \<Rightarrow> quota_tier \<Rightarrow> string \<times> period_usage \<times> period_usage" where
  "describe_usage u t = (u_tier u,
     \<lparr>pu_limit = qt_dailyLimit t, pu_used = u_dailyCount u, pu_remaining = qt_dailyLimit t - u_dailyCount u,
      pu_resetAt = ceil_div (u_dailyResetAt u) 1000\<rparr>,
     \<lparr>pu_limit = qt_monthlyLimit t, pu_used = u_monthlyCount u, pu_remaining = qt_monthlyLimit t - u_monthlyCount u,
      pu_resetAt = ceil_div (u_monthlyResetAt u) 1000\<rparr>)"

definition peek_usage :: "quota_config \<Rightarrow> nat \<Rightarrow> quota_request \<Rightarrow> quota_state \<Rightarrow> (string \<times> period_usage \<times> period_usage) \<times> quota_state" where
  "peek_usage cfg now req s = (let tierName = resolveTier cfg req in
     case getOrInitState cfg (getClientKey req) tierName now s of
       (u, s') \<Rightarrow> (describe_usage u (fst (resolveLimits cfg req tierName)), s'))"

text \<open>A notification: key, period, threshold, and what was used of what limit.\<close>

datatype period = Daily | Monthly

type_synonym notification = "string \<times> period \<times> threshold \<times> nat \<times> nat"

definition reaches :: "nat \<Rightarrow> nat \<Rightarrow> threshold \<Rightarrow> bool" where
  "reaches used lmt th = (case th of Eighty \<Rightarrow> 10 * used \<ge> 8 * lmt | Full \<Rightarrow> used \<ge> lmt)"

definition due_thresholds :: "nat \<Rightarrow> nat \<Rightarrow> threshold list \<Rightarrow> threshold list" where
  "due_thresholds used lmt notified = (if lmt = 0 then [] else filter (\<lambda>th. reaches used lmt th \<and> th \<notin> set notified) [Eighty, Full])"

definition checkThresholds :: "quota_config \<Rightarrow> string \<Rightarrow> usage \<Rightarrow> quota_tier \<Rightarrow> notification list \<times> usage" where
  "checkThresholds cfg key u t = (if \<not> qc_notifies cfg then ([], u) else
     (let d = due_thresholds (u_dailyCount u) (qt_dailyLimit t) (u_notifiedDaily u);
          m = due_thresholds (u_monthlyCount u) (qt_monthlyLimit t) (u_notifiedMonthly u)
      in (map (\<lambda>th. (key, Daily, th, u_dailyCount u, qt_dailyLimit t)) d
            @ map (\<lambda>th. (key, Monthly, th, u_monthlyCount u, qt_monthlyLimit t)) m,
          u\<lparr>u_notifiedDaily := u_notifiedDaily u @ d, u_notifiedMonthly := u_notifiedMonthly u @ m\<rparr>)))"

record quota_result =
  qr_allowed :: bool
  qr_overage :: bool
  qr_scope :: "period option"
  qr_usage :: "string \<times> period_usage \<times> period_usage"

definition consume_quota :: "quota_config \<Rightarrow> nat \<Rightarrow> quota_request \<Rightarrow> quota_state \<Rightarrow> quota_result \<times> notification list \<times> quota_state" where
  "consume_quota cfg now req s = (let tierName = resolveTier cfg req; key = getClientKey req in
     case resolveLimits cfg req tierName of (t, mode) \<Rightarrow>
     (case getOrInitState cfg key tierName now s of (u, s1) \<Rightarrow>
       (let exceedsDaily = u_dailyCount u + 1 > qt_dailyLimit t;
            exceedsMonthly = u_monthlyCount u + 1 > qt_monthlyLimit t;
            overage = (exceedsDaily \<or> exceedsMonthly);
            blocked = (overage \<and> mode = Block);
            u1 = (if blocked then u else u\<lparr>u_dailyCount := u_dailyCount u + 1, u_monthlyCount := u_monthlyCount u + 1\<rparr>)
        in case checkThresholds cfg key u1 t of (ns, u2) \<Rightarrow>
          (\<lparr>qr_allowed = (\<not> blocked), qr_overage = overage,
             qr_scope = (if overage then Some (if exceedsDaily then Daily else Monthly) else None),
             qr_usage = describe_usage u2 t\<rparr>,
           ns, jm_set key u2 s1))))"

definition reset_quota :: "quota_state \<Rightarrow> quota_state" where
  "reset_quota s = []"

definition quota_stats :: "quota_config \<Rightarrow> quota_state \<Rightarrow> nat \<times> overage_mode \<times> nat" where
  "quota_stats cfg s = (length s, qc_overageMode cfg, length (qc_overrides cfg))"

definition pickQuotaBinding :: "period_usage \<Rightarrow> period_usage \<Rightarrow> period \<times> period_usage" where
  "pickQuotaBinding d m = (let
     fraction = (\<lambda>p. if pu_limit p > 0 then of_nat (pu_remaining p) / (of_nat (pu_limit p) :: rat) else 1)
   in if fraction d \<le> fraction m then (Daily, d) else (Monthly, m))"

section \<open>Calendar lemmas\<close>

lemma ONE_DAY_MS_pos: "0 < ONE_DAY_MS"
  by (simp add: ONE_DAY_MS_def)

lemma month_after_later: "d < month_after d y m start"
proof (induction d y m start rule: month_after.induct)
  case (1 d y m start)
  then show ?case by (subst month_after.simps) (simp add: Let_def)
qed

lemma next_day_iff: "startOfNextUtcDay now \<le> k * ONE_DAY_MS \<longleftrightarrow> now < k * ONE_DAY_MS"
proof -
  have "startOfNextUtcDay now \<le> k * ONE_DAY_MS \<longleftrightarrow> now div ONE_DAY_MS < k"
    unfolding startOfNextUtcDay_def mult_le_cancel2 using ONE_DAY_MS_pos by auto
  also have "\<dots> \<longleftrightarrow> now < k * ONE_DAY_MS"
    using ONE_DAY_MS_pos by (simp add: div_less_iff_less_mult)
  finally show ?thesis .
qed

lemma next_day_le: "ONE_DAY_MS dvd r \<Longrightarrow> startOfNextUtcDay now \<le> r \<longleftrightarrow> now < r"
  using next_day_iff by (metis dvd_def mult.commute)

lemma next_day_dvd [simp]: "ONE_DAY_MS dvd startOfNextUtcDay now" "ONE_DAY_MS dvd startOfNextUtcMonth now"
  by (simp_all add: startOfNextUtcDay_def startOfNextUtcMonth_def)

lemma next_day_later: "now < startOfNextUtcDay now"
  using next_day_le [of "startOfNextUtcDay now" now] by simp

lemma next_day_mono: "t \<le> t' \<Longrightarrow> startOfNextUtcDay t \<le> startOfNextUtcDay t'"
  by (simp add: startOfNextUtcDay_def div_le_mono)

lemma next_month_day: "startOfNextUtcDay now \<le> startOfNextUtcMonth now"
proof -
  have "now div ONE_DAY_MS + 1 \<le> month_after (now div ONE_DAY_MS) 1970 0 0"
    using month_after_later [of "now div ONE_DAY_MS" 1970 0 0] by simp
  then show ?thesis unfolding startOfNextUtcDay_def startOfNextUtcMonth_def by (rule mult_le_mono1)
qed

section \<open>The invariant of the usage records\<close>

text \<open>The day of a record has begun, its boundaries are those of days, and the month does not end before the day.\<close>

definition usage_ok :: "nat \<Rightarrow> usage \<Rightarrow> bool" where
  "usage_ok t u = (u_dailyResetAt u \<le> startOfNextUtcDay t \<and> u_dailyResetAt u \<le> u_monthlyResetAt u \<and>
     ONE_DAY_MS dvd u_dailyResetAt u \<and> ONE_DAY_MS dvd u_monthlyResetAt u)"

definition quota_inv :: "nat \<Rightarrow> quota_state \<Rightarrow> bool" where
  "quota_inv t s = (jm_wf s \<and> (\<forall>(k, u) \<in> set s. usage_ok t u))"

lemma quota_invD: "quota_inv t s \<Longrightarrow> jm_get s k = Some u \<Longrightarrow> usage_ok t u"
  unfolding quota_inv_def using jm_get_in by fastforce

lemma quota_invI: "jm_wf s \<Longrightarrow> (\<And>k u. jm_get s k = Some u \<Longrightarrow> usage_ok t u) \<Longrightarrow> quota_inv t s"
  unfolding quota_inv_def using jm_in_get by fastforce

lemma usage_ok_later: "usage_ok t u \<Longrightarrow> t \<le> t' \<Longrightarrow> usage_ok t' u"
  using next_day_mono by (fastforce simp: usage_ok_def)

lemma quota_inv_later: "quota_inv t s \<Longrightarrow> t \<le> t' \<Longrightarrow> quota_inv t' s"
  unfolding quota_inv_def using usage_ok_later by fastforce

lemma usage_ok_fresh: "usage_ok t (fresh_usage tn t)"
  using next_month_day by (simp add: usage_ok_def fresh_usage_def)

lemma roll_over_ok: "usage_ok t u \<Longrightarrow> usage_ok t (roll_over t u)"
  using next_month_day [of t] next_day_le [of "u_monthlyResetAt u" t]
  by (auto simp: usage_ok_def roll_over_def Let_def not_le)

lemma roll_over_daily:
  assumes "usage_ok t u"
  shows "u_dailyResetAt (roll_over t u) = startOfNextUtcDay t"
    and "u_dailyCount (roll_over t u) = (if u_dailyResetAt u = startOfNextUtcDay t then u_dailyCount u else 0)"
  using assms next_day_le [of "u_dailyResetAt u" t] next_day_later [of t]
  by (auto simp: usage_ok_def roll_over_def Let_def not_le)

text \<open>What is counted of a client's day, named by its end: nothing if its record is of an earlier day.\<close>

definition used_on :: "nat \<Rightarrow> string \<Rightarrow> quota_state \<Rightarrow> nat" where
  "used_on day key s = (case jm_get s key of None \<Rightarrow> 0 | Some u \<Rightarrow> if u_dailyResetAt u = day then u_dailyCount u else 0)"

lemma evicted_get:
  assumes "quota_inv t s"
  shows "jm_wf (evictExpired t s)" "quota_inv t (evictExpired t s)"
    "used_on (startOfNextUtcDay t) k (evictExpired t s) = used_on (startOfNextUtcDay t) k s"
proof -
  have wf: "jm_wf s" using assms by (simp add: quota_inv_def)
  then show "jm_wf (evictExpired t s)" by (simp add: evictExpired_def jm_wf_filter)
  then show "quota_inv t (evictExpired t s)"
    by (rule quota_invI) (auto simp: evictExpired_def jm_get_filter [OF wf] split: option.splits if_splits
        dest: quota_invD [OF assms])
  show "used_on (startOfNextUtcDay t) k (evictExpired t s) = used_on (startOfNextUtcDay t) k s"
    using quota_invD [OF assms, of k] next_day_later [of t]
    by (auto simp: used_on_def evictExpired_def jm_get_filter [OF wf] usage_ok_def split: option.splits)
qed

lemma getOrInitState_spec:
  assumes "quota_inv t s" "getOrInitState cfg key tn t s = (u, s')"
  shows "usage_ok t u" "u_dailyResetAt u = startOfNextUtcDay t" "u_dailyCount u = used_on (startOfNextUtcDay t) key s"
    "quota_inv t s'" "k \<noteq> key \<Longrightarrow> used_on (startOfNextUtcDay t) k s' = used_on (startOfNextUtcDay t) k s"
proof -
  define s0 where "s0 = (if length s \<ge> qc_maxBuckets cfg then evictExpired t s else s)"
  define s1 where "s1 = (case jm_get s key of Some u \<Rightarrow> s | None \<Rightarrow> jm_set key (fresh_usage tn t) s0)"
  define u1 where "u1 = the (jm_get s1 key)"
  have s0: "jm_wf s0" "quota_inv t s0" "\<And>k. used_on (startOfNextUtcDay t) k s0 = used_on (startOfNextUtcDay t) k s"
    using assms(1) evicted_get [OF assms(1)] by (auto simp: s0_def quota_inv_def)
  have s1: "quota_inv t s1" "jm_get s1 key = Some u1"
    "\<And>k. k \<noteq> key \<Longrightarrow> used_on (startOfNextUtcDay t) k s1 = used_on (startOfNextUtcDay t) k s"
    "(if u_dailyResetAt u1 = startOfNextUtcDay t then u_dailyCount u1 else 0) = used_on (startOfNextUtcDay t) key s"
  proof -
    show "quota_inv t s1"
      using assms(1) s0(1) quota_invD [OF s0(2)] usage_ok_fresh
      by (cases "jm_get s key") (auto simp: s1_def intro!: quota_invI split: if_splits)
    show "jm_get s1 key = Some u1" by (auto simp: u1_def s1_def split: option.split)
    show "used_on (startOfNextUtcDay t) k s1 = used_on (startOfNextUtcDay t) k s" if "k \<noteq> key" for k
      using s0(3) [of k] that by (auto simp: s1_def used_on_def split: option.splits)
    show "(if u_dailyResetAt u1 = startOfNextUtcDay t then u_dailyCount u1 else 0) = used_on (startOfNextUtcDay t) key s"
      by (auto simp: u1_def s1_def used_on_def fresh_usage_def split: option.split)
  qed
  have u: "u = (roll_over t u1)\<lparr>u_tier := tn\<rparr>" and s': "s' = jm_set key u s1"
  proof -
    have "getOrInitState cfg key tn t s = ((roll_over t u1)\<lparr>u_tier := tn\<rparr>, jm_set key ((roll_over t u1)\<lparr>u_tier := tn\<rparr>) s1)"
      unfolding getOrInitState_def Let_def u1_def s1_def s0_def ..
    then show "u = (roll_over t u1)\<lparr>u_tier := tn\<rparr>" "s' = jm_set key u s1" using assms(2) by auto
  qed
  have ok1: "usage_ok t u1" using quota_invD s1(1,2) by blast
  show "usage_ok t u" using roll_over_ok [OF ok1] by (simp add: u usage_ok_def)
  then show "quota_inv t s'"
    using s1(1) quota_invD [OF s1(1)] by (auto simp: s' quota_inv_def [of t s1] intro!: quota_invI split: if_splits)
  show "u_dailyResetAt u = startOfNextUtcDay t" "u_dailyCount u = used_on (startOfNextUtcDay t) key s"
    using roll_over_daily [OF ok1] s1(4) by (simp_all add: u)
  show "used_on (startOfNextUtcDay t) k s' = used_on (startOfNextUtcDay t) k s" if "k \<noteq> key"
    using s1(3) [OF that] that by (simp add: s' used_on_def)
qed

lemma checkThresholds_keeps:
  "checkThresholds cfg key u t = (ns, u') \<Longrightarrow>
    u_dailyCount u' = u_dailyCount u \<and> u_dailyResetAt u' = u_dailyResetAt u \<and> u_monthlyResetAt u' = u_monthlyResetAt u"
  by (auto simp: checkThresholds_def Let_def split: if_splits)

lemma consume_quota_spec:
  assumes "quota_inv t s" "consume_quota cfg t req s = (r, ns, s')" "resolveLimits cfg req (resolveTier cfg req) = (tr, mode)"
  shows "quota_inv t s'"
    "used_on (startOfNextUtcDay t) (getClientKey req) s' = used_on (startOfNextUtcDay t) (getClientKey req) s
       + (if qr_allowed r then 1 else 0)"
    "k \<noteq> getClientKey req \<Longrightarrow> used_on (startOfNextUtcDay t) k s' = used_on (startOfNextUtcDay t) k s"
    "mode = Block \<Longrightarrow> qr_allowed r \<Longrightarrow> used_on (startOfNextUtcDay t) (getClientKey req) s < qt_dailyLimit tr"
proof -
  obtain u s1 where g: "getOrInitState cfg (getClientKey req) (resolveTier cfg req) t s = (u, s1)" by fastforce
  note G = getOrInitState_spec [OF assms(1) g]
  let ?blocked = "(u_dailyCount u + 1 > qt_dailyLimit tr \<or> u_monthlyCount u + 1 > qt_monthlyLimit tr) \<and> mode = Block"
  define u1 where "u1 = (if ?blocked then u else u\<lparr>u_dailyCount := u_dailyCount u + 1, u_monthlyCount := u_monthlyCount u + 1\<rparr>)"
  obtain ms u2 where c: "checkThresholds cfg (getClientKey req) u1 tr = (ms, u2)" by fastforce
  have res: "qr_allowed r \<longleftrightarrow> \<not> ?blocked" "s' = jm_set (getClientKey req) u2 s1"
    using assms(2,3) g c by (auto simp: consume_quota_def Let_def u1_def)
  have u2: "u_dailyCount u2 = u_dailyCount u + (if qr_allowed r then 1 else 0)" "u_dailyResetAt u2 = startOfNextUtcDay t"
    "usage_ok t u2"
    using checkThresholds_keeps [OF c] G(1,2) res(1) by (auto simp: u1_def usage_ok_def checkThresholds_def)
  have inv1: "jm_wf s1" using G(4) by (simp add: quota_inv_def)
  then show "quota_inv t s'"
    using u2(3) quota_invD [OF G(4)] by (auto simp: res(2) intro!: quota_invI split: if_splits)
  show "used_on (startOfNextUtcDay t) (getClientKey req) s' = used_on (startOfNextUtcDay t) (getClientKey req) s
       + (if qr_allowed r then 1 else 0)"
    using u2(1,2) G(3) by (simp add: res(2) used_on_def [of _ _ "jm_set _ _ _"])
  show "used_on (startOfNextUtcDay t) k s' = used_on (startOfNextUtcDay t) k s" if "k \<noteq> getClientKey req"
    using G(5) [OF that] that by (simp add: res(2) used_on_def)
  show "used_on (startOfNextUtcDay t) (getClientKey req) s < qt_dailyLimit tr" if "mode = Block" "qr_allowed r"
    using that res(1) G(3) by auto
qed

section \<open>Properties\<close>

primrec quota_run :: "quota_config \<Rightarrow> (nat \<times> quota_request) list \<Rightarrow> quota_state \<Rightarrow> quota_result list" where
  "quota_run cfg [] s = []"
| "quota_run cfg (e # es) s = (case consume_quota cfg (fst e) (snd e) s of (r, _, s') \<Rightarrow> r # quota_run cfg es s')"

definition allowed_to :: "quota_config \<Rightarrow> string \<Rightarrow> (nat \<times> quota_request) list \<Rightarrow> quota_state \<Rightarrow> nat" where
  "allowed_to cfg key es s = length (filter (\<lambda>(e, r). getClientKey (snd e) = key \<and> qr_allowed r) (zip es (quota_run cfg es s)))"

text \<open>Requests on one day, in the order of time, from time \<open>t\<close> on.\<close>

fun same_day :: "nat \<Rightarrow> (nat \<times> quota_request) list \<Rightarrow> bool" where
  "same_day t [] = True"
| "same_day t ((t', _) # es) = (t \<le> t' \<and> startOfNextUtcDay t' = startOfNextUtcDay t \<and> same_day t' es)"

definition limited_to :: "quota_config \<Rightarrow> nat \<Rightarrow> quota_request \<Rightarrow> bool" where
  "limited_to cfg n req = (case resolveLimits cfg req (resolveTier cfg req) of (tr, mode) \<Rightarrow> qt_dailyLimit tr = n \<and> mode = Block)"

lemma allowed_to_bound:
  "quota_inv t s \<Longrightarrow> same_day t es \<Longrightarrow> \<forall>e \<in> set es. getClientKey (snd e) = key \<longrightarrow> limited_to cfg n (snd e) \<Longrightarrow>
    allowed_to cfg key es s \<le> n - used_on (startOfNextUtcDay t) key s"
proof (induction es arbitrary: t s)
  case Nil
  then show ?case by (simp add: allowed_to_def)
next
  case (Cons e es)
  obtain t' req where e: "e = (t', req)" by (cases e)
  obtain r ns s' where c: "consume_quota cfg t' req s = (r, ns, s')" by (metis prod_cases3)
  obtain tr mode where l: "resolveLimits cfg req (resolveTier cfg req) = (tr, mode)" by fastforce
  have day: "t \<le> t'" "startOfNextUtcDay t' = startOfNextUtcDay t" "same_day t' es" using Cons.prems(2) e by auto
  note C = consume_quota_spec [OF quota_inv_later [OF Cons.prems(1) day(1)] c l]
  have IH: "allowed_to cfg key es s' \<le> n - used_on (startOfNextUtcDay t) key s'"
    using Cons.IH [OF C(1) day(3)] Cons.prems(3) day(2) by simp
  have step: "allowed_to cfg key (e # es) s = (if getClientKey req = key \<and> qr_allowed r then 1 else 0) + allowed_to cfg key es s'"
    using c by (simp add: allowed_to_def e)
  show ?case
  proof (cases "getClientKey req = key")
    case True
    then have "qt_dailyLimit tr = n \<and> mode = Block" using Cons.prems(3) l e by (auto simp: limited_to_def)
    then show ?thesis using IH step C(2,4) True day(2) by (auto split: if_splits)
  next
    case False
    then show ?thesis using IH step C(3) [of key] day(2) by simp
  qed
qed

text \<open>
  A daily quota holds: on one calendar day no more requests of a client are let through than its daily limit, in
  blocking mode, with whatever requests of other clients, roll-overs and evictions in between.
\<close>

theorem daily_quota_holds:
  assumes "quota_inv t s" "same_day t es" "\<forall>e \<in> set es. getClientKey (snd e) = key \<longrightarrow> limited_to cfg n (snd e)"
  shows "allowed_to cfg key es s \<le> n"
  using allowed_to_bound [OF assms] by simp

definition default_quota :: quota_config where
  "default_quota = \<lparr>qc_tiers = QUOTA_TIERS, qc_overageMode = Block, qc_notifies = True, qc_maxBuckets = 10000, qc_overrides = []\<rparr>"

definition plain_request :: quota_request where
  "plain_request = \<lparr>rq_tenants = [], rq_userTier = None, rq_keyTier = None, rq_headerTier = None, rq_apiKeyId = Some ''k'',
     rq_authKeyId = None, rq_forwarded = None, rq_remote = None\<rparr>"

lemma free_lookup: "jm_get QUOTA_TIERS ''free'' = Some \<lparr>qt_name = ''free'', qt_dailyLimit = 1000, qt_monthlyLimit = 20000\<rparr>"
  by (simp add: QUOTA_TIERS_def)

theorem daily_quota_holds_witness:
  "allowed_to default_quota ''key:k'' [(5, plain_request), (7, plain_request)] [] \<le> 1000"
  by (rule daily_quota_holds [of 0])
    (simp_all add: quota_inv_def startOfNextUtcDay_def ONE_DAY_MS_def limited_to_def resolveLimits_def getTenantOverride_def
      resolveTenant_def plain_request_def resolveTier_def known_tier_def tier_record_def default_quota_def free_lookup)

text \<open>Whoever carries no key of a known tier picks a tier with a header of the request.\<close>

lemma header_picks_tier:
  assumes "getTenantOverride cfg (resolveTenant req) = None" "rq_userTier req = None" "rq_keyTier req = None"
    "rq_headerTier req = Some t" "t \<noteq> []" "jm_has (qc_tiers cfg) (to_lower t)"
  shows "resolveTier cfg req = to_lower t"
  using assms by (cases t) (auto simp: resolveTier_def known_tier_def)

text \<open>The bound on the number of clients does not bound it: a new client is added even when nothing can be evicted.\<close>

lemma clients_exceed_maxBuckets:
  assumes "jm_get s key = None" "qc_maxBuckets cfg \<le> length s" "evictExpired now s = s"
  shows "length (snd (getOrInitState cfg key tn now s)) = Suc (length s)"
  using assms by (simp add: getOrInitState_def Let_def length_jm_set jm_has_def)

end
