(* ===== verification/Webhooks.thy ===== *)
theory Webhooks
  imports Jcs Signing
begin

text \<open>
  Models \<open>sdk/src/server/webhooks.ts\<close>: the store of registrations, signing and verifying payloads, delivery with
  retries, and the dead-letter queue.

  The network is a function from the number of an attempt to the response or the error it ends in; the delivery returns
  the requests it made and the pauses it took beside its result. \<open>JSON.stringify\<close> prints the values of \<open>JsValue\<close> that are
  JSON. Random identifiers and the clock are arguments. The details of the error for a wrong event list (two arrays) are left out.
\<close>

section \<open>Registrations\<close>

datatype webhook_event = Credential_issued | Credential_revoked

fun event_text :: "webhook_event \<Rightarrow> string" where
  "event_text Credential_issued = ''credential.issued''"
| "event_text Credential_revoked = ''credential.revoked''"

definition WEBHOOK_EVENTS :: "string list" where
  "WEBHOOK_EVENTS = map event_text [Credential_issued, Credential_revoked]"

record registration =
  wr_id :: string
  wr_url :: string
  wr_secret :: string
  wr_events :: "string list"
  wr_createdAt :: int

type_synonym webhook_store = "(string, registration) jsmap"

definition insertWebhook :: "registration \<Rightarrow> webhook_store \<Rightarrow> thrown + webhook_store" where
  "insertWebhook r s = (if jm_has s (wr_id r) then
       Inl (SdkThrown (sdk_error_init (''webhook '' @ wr_id r @ '' already exists'')
         (empty_init\<lparr>init_code := Some ALREADY_EXISTS, init_details := Some [(''id'', DStr (wr_id r))]\<rparr>) None))
     else Inr (jm_set (wr_id r) r s))"

definition listWebhooks :: "webhook_store \<Rightarrow> registration list" where
  "listWebhooks s = jm_values s"

definition removeWebhook :: "string \<Rightarrow> webhook_store \<Rightarrow> bool \<times> webhook_store" where
  "removeWebhook i s = (jm_has s i, jm_delete i s)"

definition forEvent :: "string \<Rightarrow> webhook_store \<Rightarrow> registration list" where
  "forEvent e s = filter (\<lambda>r. e \<in> set (wr_events r)) (jm_values s)"

definition invalid_input :: "string \<Rightarrow> thrown" where
  "invalid_input m = SdkThrown (sdk_error_init m (empty_init\<lparr>init_code := Some INVALID_INPUT\<rparr>) None)"

definition registerWebhook :: "string \<Rightarrow> int \<Rightarrow> string \<Rightarrow> string \<Rightarrow> string list \<Rightarrow> webhook_store
    \<Rightarrow> thrown + registration \<times> webhook_store" where
  "registerWebhook i now url secret events s = (
     if \<not> (starts_with url ''http://'' \<or> starts_with url ''https://'') then Inl (invalid_input ''url must be http(s)'')
     else if length secret < 16 then Inl (invalid_input ''secret must be at least 16 characters'')
     else if events = [] \<or> \<not> list_all (\<lambda>e. e \<in> set WEBHOOK_EVENTS) events then
       Inl (invalid_input ''events must be a non-empty subset of WEBHOOK_EVENTS'')
     else (let r = \<lparr>wr_id = i, wr_url = url, wr_secret = secret, wr_events = events, wr_createdAt = now\<rparr> in
       bind_result (insertWebhook r s) (\<lambda>s'. Inr (r, s'))))"

section \<open>Signatures\<close>

definition signPayload :: "crypto \<Rightarrow> string \<Rightarrow> string \<Rightarrow> string" where
  "signPayload C secret bdy = to_hex (hmac256 C (utf8_bytes secret) (utf8_bytes bdy))"

definition verifySignature :: "crypto \<Rightarrow> string \<Rightarrow> string \<Rightarrow> string \<Rightarrow> bool" where
  "verifySignature C secret bdy signature = (let a = from_hex (signPayload C secret bdy); b = from_hex signature in
     if length a \<noteq> length b \<or> length a = 0 then False else a = b)"

section \<open>Delivery\<close>

record deliver_options =
  do_maxAttempts :: "nat option"
  do_baseDelayMs :: "rat option"
  do_maxDelayMs :: "rat option"

record webhook_request =
  wq_url :: string
  wq_headers :: "(string, string) jsmap"
  wq_body :: string

record delivery_attempt =
  da_attempt :: nat
  da_ok :: bool
  da_status :: "int option"
  da_error :: "string option"

record delivery =
  dl_ok :: bool
  dl_attempts :: "delivery_attempt list"
  dl_requests :: "webhook_request list"
  dl_pauses :: "int list"

definition backoffMs :: "nat \<Rightarrow> rat \<Rightarrow> rat \<Rightarrow> rat \<Rightarrow> int" where
  "backoffMs attempt base most jitter = \<lfloor>min most (base * 2 ^ attempt) * (1 + jitter)\<rfloor>"

definition webhook_body :: "webhook_event \<Rightarrow> string \<Rightarrow> jv \<Rightarrow> string" where
  "webhook_body e deliveryId payload = json_stringify (JObj [(''event'', JStr (event_text e)),
     (''deliveryId'', JStr deliveryId), (''data'', payload)])"

definition webhook_request_of :: "crypto \<Rightarrow> registration \<Rightarrow> webhook_event \<Rightarrow> jv \<Rightarrow> string \<Rightarrow> webhook_request" where
  "webhook_request_of C r e payload deliveryId = (let bdy = webhook_body e deliveryId payload in
     \<lparr>wq_url = wr_url r, wq_headers = [(''Content-Type'', ''application/json''),
        (''X-SorobanIdentity-Signature'', signPayload C (wr_secret r) bdy),
        (''X-SorobanIdentity-Event'', event_text e), (''X-SorobanIdentity-Delivery-Id'', deliveryId)],
      wq_body = bdy\<rparr>)"

text \<open>An answer: \<open>ok\<close> and the status, or what the fetcher threw. Client errors but 429 are final.\<close>

definition final_status :: "int \<Rightarrow> bool" where
  "final_status st = (st \<ge> 400 \<and> st < 500 \<and> st \<noteq> 429)"

definition attempt_of :: "nat \<Rightarrow> thrown + bool \<times> int \<Rightarrow> delivery_attempt" where
  "attempt_of n a = (case a of
     Inr (ok, st) \<Rightarrow> \<lparr>da_attempt = n, da_ok = ok, da_status = Some st, da_error = None\<rparr>
   | Inl err \<Rightarrow> \<lparr>da_attempt = n, da_ok = False, da_status = None, da_error = Some (err_message err)\<rparr>)"

function deliver_loop :: "nat \<Rightarrow> rat \<Rightarrow> rat \<Rightarrow> (nat \<Rightarrow> rat) \<Rightarrow> (nat \<Rightarrow> thrown + bool \<times> int) \<Rightarrow> webhook_request \<Rightarrow> nat
    \<Rightarrow> delivery \<Rightarrow> delivery" where
  "deliver_loop most base cap jitter answer q n d = (
     if n > most then d\<lparr>dl_ok := False\<rparr>
     else (let a = answer n;
               d1 = d\<lparr>dl_attempts := dl_attempts d @ [attempt_of n a], dl_requests := dl_requests d @ [q]\<rparr>
       in case a of
         Inr (True, st) \<Rightarrow> d1\<lparr>dl_ok := True\<rparr>
       | _ \<Rightarrow> if (case a of Inr (_, st) \<Rightarrow> final_status st | Inl _ \<Rightarrow> False) then d1\<lparr>dl_ok := False\<rparr>
           else deliver_loop most base cap jitter answer q (n + 1)
             (if n < most then d1\<lparr>dl_pauses := dl_pauses d1 @ [backoffMs (n - 1) base cap (jitter n)]\<rparr> else d1)))"
  by auto
termination
  by (relation "measure (\<lambda>(most, _, _, _, _, _, n, _). most + 1 - n)") auto

declare deliver_loop.simps [simp del]

definition orDefault :: "'a option \<Rightarrow> 'a \<Rightarrow> 'a" where
  "orDefault x y = (case x of Some v \<Rightarrow> v | None \<Rightarrow> y)"

definition deliver :: "crypto \<Rightarrow> deliver_options \<Rightarrow> (nat \<Rightarrow> rat) \<Rightarrow> (nat \<Rightarrow> thrown + bool \<times> int) \<Rightarrow> registration
    \<Rightarrow> webhook_event \<Rightarrow> jv \<Rightarrow> string \<Rightarrow> delivery" where
  "deliver C opts jitter answer r e payload deliveryId =
     deliver_loop (orDefault (do_maxAttempts opts) 5) (orDefault (do_baseDelayMs opts) 250) (orDefault (do_maxDelayMs opts) 8000)
       jitter answer (webhook_request_of C r e payload deliveryId) 1
       \<lparr>dl_ok = False, dl_attempts = [], dl_requests = [], dl_pauses = []\<rparr>"

section \<open>The dead-letter queue\<close>

record dlq_record =
  dq_deliveryId :: string
  dq_webhookId :: string
  dq_url :: string
  dq_event :: webhook_event
  dq_payload :: jv
  dq_attempts :: "delivery_attempt list"
  dq_failedAt :: int

definition safe_char :: "char \<Rightarrow> bool" where
  "safe_char c = (let n = char_code c in (65 \<le> n \<and> n \<le> 90) \<or> (97 \<le> n \<and> n \<le> 122) \<or> (48 \<le> n \<and> n \<le> 57) \<or> n = 95 \<or> n = 45)"

definition SAFE_DELIVERY_ID :: "string \<Rightarrow> bool" where
  "SAFE_DELIVERY_ID s = (s \<noteq> [] \<and> list_all safe_char s)"

text \<open>The file a record goes to, if it is written at all; what the file system makes of it is its own business.\<close>

definition dlq_file :: "string \<Rightarrow> dlq_record \<Rightarrow> thrown + string" where
  "dlq_file dlqPath rec = (if \<not> SAFE_DELIVERY_ID (dq_deliveryId rec)
     then Inl (SdkThrown (sdk_error_init ''deliveryId contains unsafe characters''
       (empty_init\<lparr>init_code := Some INVALID_INPUT, init_details := Some [(''deliveryId'', DStr (dq_deliveryId rec))]\<rparr>) None))
     else Inr (dlqPath @ ''/'' @ dq_deliveryId rec @ ''.json''))"

definition dlq_options :: "deliver_options \<Rightarrow> nat \<Rightarrow> deliver_options" where
  "dlq_options opts envMax = \<lparr>do_maxAttempts = Some (orDefault (do_maxAttempts opts) envMax),
     do_baseDelayMs = Some (orDefault (do_baseDelayMs opts) 1000), do_maxDelayMs = Some (orDefault (do_maxDelayMs opts) 32000)\<rparr>"

text \<open>The delivery and the records handed to the writer, whose failures are only logged.\<close>

definition deliver_dlq :: "crypto \<Rightarrow> deliver_options \<Rightarrow> nat \<Rightarrow> (nat \<Rightarrow> rat) \<Rightarrow> (nat \<Rightarrow> thrown + bool \<times> int) \<Rightarrow> int
    \<Rightarrow> registration \<Rightarrow> webhook_event \<Rightarrow> jv \<Rightarrow> string \<Rightarrow> delivery \<times> dlq_record list" where
  "deliver_dlq C opts envMax jitter answer failedAt r e payload deliveryId =
     (let d = deliver C (dlq_options opts envMax) jitter answer r e payload deliveryId in
      (d, if dl_ok d then [] else
        [\<lparr>dq_deliveryId = deliveryId, dq_webhookId = wr_id r, dq_url = wr_url r, dq_event = e, dq_payload = payload,
          dq_attempts = dl_attempts d, dq_failedAt = failedAt\<rparr>]))"

section \<open>Lemmas\<close>

definition conclusive :: "thrown + bool \<times> int \<Rightarrow> bool" where
  "conclusive a = (case a of Inr (ok, st) \<Rightarrow> ok \<or> st \<in> {400..499} - {429} | Inl _ \<Rightarrow> False)"

lemma conclusive_iff: "conclusive a \<longleftrightarrow> (case a of Inr (ok, st) \<Rightarrow> ok \<or> final_status st | Inl _ \<Rightarrow> False)"
  by (auto simp: conclusive_def final_status_def split: sum.splits)

definition accepted :: "thrown + bool \<times> int \<Rightarrow> bool" where
  "accepted a = (case a of Inr (ok, st) \<Rightarrow> ok | Inl _ \<Rightarrow> False)"

lemma deliver_loop_conclusive:
  "n \<le> most \<Longrightarrow> conclusive (answer n) \<Longrightarrow> deliver_loop most base cap jitter answer q n d =
    d\<lparr>dl_ok := accepted (answer n), dl_attempts := dl_attempts d @ [attempt_of n (answer n)], dl_requests := dl_requests d @ [q]\<rparr>"
  by (subst deliver_loop.simps) (auto simp: conclusive_iff accepted_def Let_def split: sum.splits bool.splits)

lemma deliver_loop_again:
  "n \<le> most \<Longrightarrow> \<not> conclusive (answer n) \<Longrightarrow> deliver_loop most base cap jitter answer q n d =
    deliver_loop most base cap jitter answer q (n + 1)
      (d\<lparr>dl_attempts := dl_attempts d @ [attempt_of n (answer n)], dl_requests := dl_requests d @ [q],
         dl_pauses := dl_pauses d @ (if n < most then [backoffMs (n - 1) base cap (jitter n)] else [])\<rparr>)"
  by (subst deliver_loop.simps) (auto simp: conclusive_iff Let_def split: sum.splits bool.splits)

lemma deliver_loop_over: "most < n \<Longrightarrow> deliver_loop most base cap jitter answer q n d = d\<lparr>dl_ok := False\<rparr>"
  by (subst deliver_loop.simps) simp

lemma deliver_loop_spec:
  "1 \<le> n \<Longrightarrow> n \<le> most \<Longrightarrow> \<exists>m. n \<le> m \<and> m \<le> most \<and> (\<forall>i. n \<le> i \<and> i < m \<longrightarrow> \<not> conclusive (answer i)) \<and>
    (m < most \<longrightarrow> conclusive (answer m)) \<and>
    deliver_loop most base cap jitter answer q n d =
      d\<lparr>dl_ok := accepted (answer m), dl_attempts := dl_attempts d @ map (\<lambda>i. attempt_of i (answer i)) [n..<m + 1],
        dl_requests := dl_requests d @ replicate (m + 1 - n) q,
        dl_pauses := dl_pauses d @ map (\<lambda>i. backoffMs (i - 1) base cap (jitter i)) [n..<m]\<rparr>"
proof (induction "most - n" arbitrary: n d)
  case 0
  then have n: "n = most" by simp
  have "\<not> conclusive (answer n) \<Longrightarrow> \<not> accepted (answer n)"
    by (auto simp: conclusive_iff accepted_def split: sum.splits)
  then show ?case
    by (intro exI [of _ n], cases "conclusive (answer n)")
      (auto simp: deliver_loop_conclusive deliver_loop_again deliver_loop_over n)
next
  case (Suc k)
  show ?case
  proof (cases "conclusive (answer n)")
    case True
    then show ?thesis using Suc.prems by (intro exI [of _ n]) (auto simp: deliver_loop_conclusive)
  next
    case False
    let ?d = "d\<lparr>dl_attempts := dl_attempts d @ [attempt_of n (answer n)], dl_requests := dl_requests d @ [q],
         dl_pauses := dl_pauses d @ (if n < most then [backoffMs (n - 1) base cap (jitter n)] else [])\<rparr>"
    obtain m where m: "n + 1 \<le> m" "m \<le> most" "\<forall>i. n + 1 \<le> i \<and> i < m \<longrightarrow> \<not> conclusive (answer i)"
      "m < most \<longrightarrow> conclusive (answer m)"
      "deliver_loop most base cap jitter answer q (n + 1) ?d =
        ?d\<lparr>dl_ok := accepted (answer m), dl_attempts := dl_attempts ?d @ map (\<lambda>i. attempt_of i (answer i)) [n + 1..<m + 1],
          dl_requests := dl_requests ?d @ replicate (m + 1 - (n + 1)) q,
          dl_pauses := dl_pauses ?d @ map (\<lambda>i. backoffMs (i - 1) base cap (jitter i)) [n + 1..<m]\<rparr>"
    proof -
      have "k = most - (n + 1)" "1 \<le> n + 1" "n + 1 \<le> most" using Suc.hyps(2) by auto
      from Suc.hyps(1) [OF this, of ?d] show ?thesis using that by blast
    qed
    have "n < most" using Suc.hyps(2) by simp
    moreover have "[n..<m + 1] = n # [n + 1..<m + 1]" "[n..<m] = n # [n + 1..<m]"
      "replicate (m + 1 - n) q = q # replicate (m + 1 - (n + 1)) q"
      using m(1) by (auto simp: upt_conv_Cons Suc_diff_le replicate_append_same)
    moreover have "\<forall>i. n \<le> i \<and> i < m \<longrightarrow> \<not> conclusive (answer i)"
      using m(3) False by (metis Suc_eq_plus1 Suc_leI le_neq_implies_less)
    ultimately show ?thesis
      using m(1,2,4,5) deliver_loop_again [where n = n and answer = answer, OF Suc.prems(2) False] by (intro exI [of _ m]) simp
  qed
qed

section \<open>Properties\<close>

text \<open>
  C15. A delivery with a budget of at least one makes at most that many attempts and stops at the first conclusive
  answer, which is a success or a client error other than 429; it succeeds exactly if the last answer was a success. It
  records every attempt, pauses by the backoff between attempts and not after the last, and sends the same request each
  time.
\<close>

theorem delivery_attempts:
  assumes "do_maxAttempts opts = Some most" "1 \<le> most"
  shows "\<exists>m. 1 \<le> m \<and> m \<le> most \<and> (\<forall>i. 1 \<le> i \<and> i < m \<longrightarrow> \<not> conclusive (answer i)) \<and> (m < most \<longrightarrow> conclusive (answer m)) \<and>
    deliver C opts jitter answer r e payload deliveryId =
      \<lparr>dl_ok = accepted (answer m), dl_attempts = map (\<lambda>i. attempt_of i (answer i)) [1..<m + 1],
       dl_requests = replicate m (webhook_request_of C r e payload deliveryId),
       dl_pauses = map (\<lambda>i. backoffMs (i - 1) (orDefault (do_baseDelayMs opts) 250) (orDefault (do_maxDelayMs opts) 8000) (jitter i)) [1..<m]\<rparr>"
  using deliver_loop_spec [of 1 most answer "orDefault (do_baseDelayMs opts) 250" "orDefault (do_maxDelayMs opts) 8000" jitter
      "webhook_request_of C r e payload deliveryId" "\<lparr>dl_ok = False, dl_attempts = [], dl_requests = [], dl_pauses = []\<rparr>"] assms
  by (simp add: deliver_def orDefault_def [of "Some most"])

definition some_hook :: registration where
  "some_hook = \<lparr>wr_id = ''w'', wr_url = ''https://x'', wr_secret = ''0123456789abcdef'', wr_events = [''credential.issued''], wr_createdAt = 0\<rparr>"

theorem delivery_attempts_witness:
  "\<exists>m \<le> 3. length (dl_requests (deliver plain_crypto \<lparr>do_maxAttempts = Some 3, do_baseDelayMs = None, do_maxDelayMs = None\<rparr>
     (\<lambda>_. 0) (\<lambda>i. if i = 1 then Inr (False, 503) else Inr (True, 200)) some_hook Credential_issued JNull ''d'')) = m"
proof -
  let ?opts = "\<lparr>do_maxAttempts = Some 3, do_baseDelayMs = None, do_maxDelayMs = None\<rparr>"
  have "do_maxAttempts ?opts = Some 3" "1 \<le> (3 :: nat)" by simp_all
  from delivery_attempts [OF this, of "\<lambda>i. if i = 1 then Inr (False, 503) else Inr (True, 200)" plain_crypto "\<lambda>_. 0" some_hook
      Credential_issued JNull "''d''"]
  obtain m where "m \<le> 3" "dl_requests (deliver plain_crypto ?opts (\<lambda>_. 0) (\<lambda>i. if i = 1 then Inr (False, 503) else Inr (True, 200))
      some_hook Credential_issued JNull ''d'') = replicate m (webhook_request_of plain_crypto some_hook Credential_issued JNull ''d'')"
    by (elim exE conjE) (rule that, assumption, simp only: delivery.select_convs)
  then show ?thesis by (metis length_replicate)
qed

text \<open>
  Every request a delivery sends carries a signature its receiver accepts: verifying the signature header against
  the body with the registered secret succeeds, given an HMAC that is not empty.
\<close>

theorem delivered_signature_verifies:
  assumes "\<And>k m. hmac256 C k m \<noteq> []" "q \<in> set (dl_requests (deliver C opts jitter answer r e payload deliveryId))"
  shows "wq_url q = wr_url r \<and> (\<exists>sig. jm_get (wq_headers q) ''X-SorobanIdentity-Signature'' = Some sig \<and>
    verifySignature C (wr_secret r) (wq_body q) sig)"
proof -
  let ?most = "orDefault (do_maxAttempts opts) 5"
  have "q = webhook_request_of C r e payload deliveryId"
  proof (cases "1 \<le> ?most")
    case True
    then show ?thesis
      using assms(2) deliver_loop_spec [of 1 ?most answer "orDefault (do_baseDelayMs opts) 250" "orDefault (do_maxDelayMs opts) 8000"
          jitter "webhook_request_of C r e payload deliveryId" "\<lparr>dl_ok = False, dl_attempts = [], dl_requests = [], dl_pauses = []\<rparr>"]
      by (auto simp: deliver_def)
  next
    case False
    then show ?thesis using assms(2) by (simp add: deliver_def deliver_loop_over)
  qed
  then show ?thesis
    using assms(1) by (simp add: webhook_request_of_def Let_def verifySignature_def signPayload_def)
qed

theorem delivered_signature_verifies_witness:
  "\<exists>sig. jm_get (wq_headers (webhook_request_of plain_crypto some_hook Credential_issued JNull ''d'')) ''X-SorobanIdentity-Signature''
    = Some sig \<and> verifySignature plain_crypto (wr_secret some_hook) (wq_body (webhook_request_of plain_crypto some_hook Credential_issued JNull ''d'')) sig"
proof -
  let ?d = "deliver plain_crypto \<lparr>do_maxAttempts = None, do_baseDelayMs = None, do_maxDelayMs = None\<rparr> (\<lambda>_. 0) (\<lambda>_. Inr (True, 200))
    some_hook Credential_issued JNull ''d''"
  have "webhook_request_of plain_crypto some_hook Credential_issued JNull ''d'' \<in> set (dl_requests ?d)"
    by (simp add: deliver_def orDefault_def deliver_loop_conclusive conclusive_def)
  from delivered_signature_verifies [OF plain_crypto_hmac this] show ?thesis by blast
qed

text \<open>
  A dead letter stays in its directory: the writer refuses every delivery identifier with a character outside letters,
  digits, underscore and hyphen, and otherwise writes a file directly in the directory, named after the identifier.
\<close>

theorem dead_letters_stay_inside:
  "(case dlq_file dir rec of
      Inl _ \<Rightarrow> \<not> SAFE_DELIVERY_ID (dq_deliveryId rec)
    | Inr f \<Rightarrow> SAFE_DELIVERY_ID (dq_deliveryId rec) \<and> f = dir @ ''/'' @ dq_deliveryId rec @ ''.json'' \<and>
        CHR ''/'' \<notin> set (dq_deliveryId rec @ ''.json'') \<and> CHR 92 \<notin> set (dq_deliveryId rec @ ''.json''))"
proof -
  have "\<not> safe_char (CHR ''/'')" "\<not> safe_char (CHR 92)" by code_simp+
  then show ?thesis by (auto simp: dlq_file_def SAFE_DELIVERY_ID_def list_all_iff)
qed

text \<open>The verifier reads hexadecimal digits up to the first pair that is none: a signature with anything behind it passes.\<close>

lemma signature_suffix_ignored:
  "hmac256 C (utf8_bytes secret) (utf8_bytes bdy) \<noteq> [] \<Longrightarrow> hex_val c = None \<Longrightarrow>
    verifySignature C secret bdy (signPayload C secret bdy @ c # rest)"
proof -
  have "from_hex (to_hex bs @ c # rest) = bs" if "hex_val c = None" for bs
    using that by (induction bs) (cases rest; auto simp: mult.commute)+
  then show "hmac256 C (utf8_bytes secret) (utf8_bytes bdy) \<noteq> [] \<Longrightarrow> hex_val c = None \<Longrightarrow>
      verifySignature C secret bdy (signPayload C secret bdy @ c # rest)"
    by (simp add: verifySignature_def signPayload_def)
qed

end
