(* ===== verification/Events.thy ===== *)
theory Events
  imports Jcs Client Machine
begin

text \<open>
  Models \<open>sdk/src/events.ts\<close>: decoding contract events, the bounded set of seen identifiers, the one-shot query, the
  subscription with its reconnects, and the interval-based listener.

  A subscription is a machine: its timer fires, the RPC node answers or fails, the caller unsubscribes. The parameter
  \<open>rpc\<close> says which answers the node may give to a query; the caller's handler may throw. A contract identifier is
  a string (the other form, a \<open>Contract\<close> object, is read with its \<open>contractId()\<close>). Console output is not modelled.
\<close>

section \<open>Events and filters\<close>

record raw_event =
  re_type :: string
  re_contractId :: string
  re_topic :: "scval list option"
  re_value :: "scval option"
  re_ledger :: nat
  re_txHash :: string
  re_id :: string

record contract_event =
  ce_type :: string
  ce_contractId :: string
  ce_topic :: "string list"
  ce_value :: jv
  ce_ledger :: nat
  ce_txHash :: string
  ce_eventId :: string

datatype topic_filter = FlatTopics "string list" | TopicMatrix "string list list"

definition buildTopicsFilter :: "topic_filter option \<Rightarrow> string list list option" where
  "buildTopicsFilter f = (case f of None \<Rightarrow> None | Some (FlatTopics ts) \<Rightarrow> Some [ts] | Some (TopicMatrix m) \<Rightarrow> Some m)"

text \<open>\<open>JSON.stringify\<close> throws on a big integer.\<close>

fun has_bigint :: "jv \<Rightarrow> bool" where
  "has_bigint (JBig i) = True"
| "has_bigint (JArr vs) = list_ex has_bigint vs"
| "has_bigint (JObj m) = list_ex (\<lambda>(k, v). has_bigint v) m"
| "has_bigint v = False"

definition stringify_topic :: "env \<Rightarrow> scval \<Rightarrow> thrown + string" where
  "stringify_topic env t = bind_result (e_scValToNative env (RScVal t)) (\<lambda>v.
     if has_bigint v then Inl (type_error ''Do not know how to serialize a BigInt'') else Inr (json_stringify v))"

definition parseRawEvent :: "env \<Rightarrow> raw_event \<Rightarrow> contract_event option" where
  "parseRawEvent env e = (if re_type e \<noteq> ''contract'' then None else
     (case map_result (stringify_topic env) (case re_topic e of Some ts \<Rightarrow> ts | None \<Rightarrow> []) of
        Inl err \<Rightarrow> None
      | Inr topics \<Rightarrow>
        (case (case re_value e of Some v \<Rightarrow> e_scValToNative env (RScVal v) | None \<Rightarrow> Inr (JObj [])) of
           Inl err \<Rightarrow> None
         | Inr v \<Rightarrow> Some \<lparr>ce_type = re_type e, ce_contractId = re_contractId e, ce_topic = topics, ce_value = v,
             ce_ledger = re_ledger e, ce_txHash = re_txHash e, ce_eventId = re_id e\<rparr>)))"

definition parse_all :: "env \<Rightarrow> raw_event list \<Rightarrow> contract_event list" where
  "parse_all env rs = List.map_filter (parseRawEvent env) rs"

record events_query =
  eq_startLedger :: "nat option"
  eq_contractId :: string
  eq_topics :: "string list list option"
  eq_limit :: nat

definition getEvents :: "env \<Rightarrow> (events_query \<Rightarrow> thrown + raw_event list option) \<Rightarrow> string \<Rightarrow> nat option \<Rightarrow> nat option
    \<Rightarrow> topic_filter option \<Rightarrow> thrown + contract_event list" where
  "getEvents env rpc contractId startLedger lmt flt =
     bind_result (rpc \<lparr>eq_startLedger = startLedger, eq_contractId = contractId, eq_topics = buildTopicsFilter flt,
       eq_limit = (case lmt of Some n \<Rightarrow> n | None \<Rightarrow> 100)\<rparr>) (\<lambda>r.
     Inr (case r of None \<Rightarrow> [] | Some rs \<Rightarrow> parse_all env rs))"

section \<open>The bounded set\<close>

definition MAX_SEEN_IDS :: nat where
  "MAX_SEEN_IDS = 10000"

definition seen_add :: "nat \<Rightarrow> string \<Rightarrow> string list \<Rightarrow> string list" where
  "seen_add maxSize i ids = (let ids' = (if length ids \<ge> maxSize then tl ids else ids) in
     if i \<in> set ids' then ids' else ids' @ [i])"

section \<open>The subscription\<close>

definition MAX_RECONNECT_RETRIES :: nat where
  "MAX_RECONNECT_RETRIES = 5"

datatype poll_phase = TimerSet | InFlight "nat option" | Ended

record subscription =
  sb_phase :: poll_phase
  sb_stopped :: bool
  sb_lastLedger :: nat
  sb_attempts :: nat
  sb_seen :: "string list"
  sb_delivered :: "contract_event list"

definition new_subscription :: subscription where
  "new_subscription = \<lparr>sb_phase = TimerSet, sb_stopped = False, sb_lastLedger = 0, sb_attempts = 0, sb_seen = [], sb_delivered = []\<rparr>"

text \<open>The timer fires: \<open>startLedger\<close> is undefined for ledger 0.\<close>

definition poll_begin :: "subscription \<Rightarrow> subscription" where
  "poll_begin s = (if sb_stopped s then s\<lparr>sb_phase := Ended\<rparr>
     else s\<lparr>sb_phase := InFlight (if sb_lastLedger s = 0 then None else Some (sb_lastLedger s))\<rparr>)"

text \<open>The loop over the new events; it ends early if the handler throws.\<close>

fun hand_over :: "(contract_event \<Rightarrow> thrown option) \<Rightarrow> contract_event list \<Rightarrow> string list \<Rightarrow> contract_event list
    \<Rightarrow> thrown option \<times> string list \<times> contract_event list" where
  "hand_over handler [] seen out_ids = (None, seen, out_ids)"
| "hand_over handler (e # es) seen out_ids = (let seen' = seen_add MAX_SEEN_IDS (ce_eventId e) seen in
     case handler e of
       Some err \<Rightarrow> (Some err, seen', out_ids @ [e])
     | None \<Rightarrow> hand_over handler es seen' (out_ids @ [e]))"

definition reschedule :: "subscription \<Rightarrow> subscription" where
  "reschedule s = s\<lparr>sb_phase := (if sb_stopped s then Ended else TimerSet)\<rparr>"

definition poll_failed :: "subscription \<Rightarrow> subscription" where
  "poll_failed s = (if sb_stopped s then s\<lparr>sb_phase := Ended\<rparr>
     else (let s1 = s\<lparr>sb_attempts := sb_attempts s + 1\<rparr> in
       if sb_attempts s1 > MAX_RECONNECT_RETRIES then s1\<lparr>sb_stopped := True, sb_phase := Ended\<rparr>
       else reschedule s1))"

definition poll_answered :: "env \<Rightarrow> (contract_event \<Rightarrow> thrown option) \<Rightarrow> raw_event list option \<Rightarrow> subscription \<Rightarrow> subscription" where
  "poll_answered env handler response s = (let
     events = filter (\<lambda>e. ce_eventId e \<notin> set (sb_seen s)) (parse_all env (case response of Some rs \<Rightarrow> rs | None \<Rightarrow> []))
   in case hand_over handler events (sb_seen s) (sb_delivered s) of (err, seen, out_ids) \<Rightarrow>
     (let s1 = s\<lparr>sb_seen := seen, sb_delivered := out_ids\<rparr> in
      case err of
        Some e \<Rightarrow> poll_failed s1
      | None \<Rightarrow> (let s2 = (if events \<noteq> [] then s1\<lparr>sb_lastLedger := Max (set (map ce_ledger events)) + 1\<rparr> else s1)
          in reschedule (s2\<lparr>sb_attempts := 0\<rparr>))))"

definition unsubscribe :: "subscription \<Rightarrow> subscription" where
  "unsubscribe s = s\<lparr>sb_stopped := True, sb_phase := (if sb_phase s = TimerSet then Ended else sb_phase s)\<rparr>"

datatype poll_input = Fires | Answers "raw_event list option" | Fails | Unsubscribes

inductive sub_step :: "env \<Rightarrow> (contract_event \<Rightarrow> thrown option) \<Rightarrow> (nat option \<Rightarrow> raw_event list option \<Rightarrow> bool)
    \<Rightarrow> subscription \<Rightarrow> poll_input \<Rightarrow> subscription \<Rightarrow> bool"
  for env handler rpc where
  sub_fires: "sb_phase s = TimerSet \<Longrightarrow> sub_step env handler rpc s Fires (poll_begin s)"
| sub_answers: "sb_phase s = InFlight st \<Longrightarrow> rpc st r \<Longrightarrow> sub_step env handler rpc s (Answers r) (poll_answered env handler r s)"
| sub_fails: "sb_phase s = InFlight st \<Longrightarrow> sub_step env handler rpc s Fails (poll_failed s)"
| sub_unsubscribes: "sub_step env handler rpc s Unsubscribes (unsubscribe s)"

inductive_simps sub_step_Fires [simp]: "sub_step env handler rpc s Fires s'"
inductive_simps sub_step_Answers [simp]: "sub_step env handler rpc s (Answers r) s'"
inductive_simps sub_step_Fails [simp]: "sub_step env handler rpc s Fails s'"
inductive_simps sub_step_Unsubscribes [simp]: "sub_step env handler rpc s Unsubscribes s'"

section \<open>The listener\<close>

record listener =
  ls_running :: bool
  ls_interval :: bool
  ls_lastLedger :: nat
  ls_seen :: "string list"
  ls_batches :: "contract_event list list"

definition new_listener :: listener where
  "new_listener = \<lparr>ls_running = False, ls_interval = False, ls_lastLedger = 0, ls_seen = [], ls_batches = []\<rparr>"

text \<open>\<open>start\<close> polls at once and sets the interval; the result says whether a poll was sent.\<close>

definition listener_start :: "listener \<Rightarrow> bool \<times> listener" where
  "listener_start l = (if ls_running l then (False, l) else (True, l\<lparr>ls_running := True, ls_interval := True\<rparr>))"

definition listener_stop :: "listener \<Rightarrow> listener" where
  "listener_stop l = l\<lparr>ls_running := False, ls_interval := False\<rparr>"

text \<open>A poll's answer; a throwing callback leaves the ledger unchanged, and is only logged.\<close>

definition listener_answer :: "env \<Rightarrow> (contract_event list \<Rightarrow> thrown option) \<Rightarrow> raw_event list option \<Rightarrow> listener \<Rightarrow> listener" where
  "listener_answer env callback response l = (case response of
     None \<Rightarrow> l
   | Some rs \<Rightarrow> (let events = filter (\<lambda>e. ce_eventId e \<notin> set (ls_seen l)) (parse_all env rs) in
       if events = [] then l
       else (let l1 = l\<lparr>ls_seen := fold (\<lambda>e. seen_add MAX_SEEN_IDS (ce_eventId e)) events (ls_seen l),
                        ls_batches := ls_batches l @ [events]\<rparr> in
         case callback events of
           Some err \<Rightarrow> l1
         | None \<Rightarrow> l1\<lparr>ls_lastLedger := Max (set (map ce_ledger events)) + 1\<rparr>)))"

section \<open>The bounded set stays bounded\<close>

lemma seen_add_length: "length ids \<le> n \<Longrightarrow> 0 < n \<Longrightarrow> length (seen_add n i ids) \<le> n"
  by (auto simp: seen_add_def Let_def)

lemma seen_add_distinct: "distinct ids \<Longrightarrow> distinct (seen_add n i ids)"
  by (auto simp: seen_add_def Let_def distinct_tl)

lemma seen_add_mem: "i \<in> set (seen_add n i ids)"
  by (auto simp: seen_add_def Let_def)

lemma hand_over_seen:
  "hand_over handler es seen ds = (err, seen', ds') \<Longrightarrow> length seen \<le> MAX_SEEN_IDS \<Longrightarrow> distinct seen
   \<Longrightarrow> length seen' \<le> MAX_SEEN_IDS \<and> distinct seen'"
proof (induction es arbitrary: seen ds)
  case (Cons e es)
  have "length (seen_add MAX_SEEN_IDS (ce_eventId e) seen) \<le> MAX_SEEN_IDS"
    using Cons.prems by (intro seen_add_length) (auto simp: MAX_SEEN_IDS_def)
  then show ?case
    using Cons seen_add_distinct [of seen] by (auto simp: Let_def split: option.splits)
qed simp

definition sub_consistent :: "subscription \<Rightarrow> bool" where
  "sub_consistent s \<longleftrightarrow> length (sb_seen s) \<le> MAX_SEEN_IDS \<and> distinct (sb_seen s)
     \<and> (sb_phase s = TimerSet \<longrightarrow> \<not> sb_stopped s)
     \<and> (sb_attempts s \<le> MAX_RECONNECT_RETRIES \<or> sb_stopped s \<and> sb_phase s = Ended)"

lemma consistent_new: "sub_consistent new_subscription"
  by (simp add: sub_consistent_def new_subscription_def)

lemma consistent_failed: "sub_consistent s \<Longrightarrow> sb_phase s = InFlight st \<Longrightarrow> sub_consistent (poll_failed s)"
  by (auto simp: sub_consistent_def poll_failed_def reschedule_def Let_def)

lemma consistent_answered:
  assumes "sub_consistent s" "sb_phase s = InFlight st"
  shows "sub_consistent (poll_answered env handler r s)"
proof -
  let ?es = "filter (\<lambda>e. ce_eventId e \<notin> set (sb_seen s)) (parse_all env (case r of Some rs \<Rightarrow> rs | None \<Rightarrow> []))"
  obtain err seen ds where h: "hand_over handler ?es (sb_seen s) (sb_delivered s) = (err, seen, ds)"
    by (metis prod_cases3)
  then have sn: "length seen \<le> MAX_SEEN_IDS" "distinct seen"
    using hand_over_seen [OF h] assms by (auto simp: sub_consistent_def)
  then have "sub_consistent (s\<lparr>sb_seen := seen, sb_delivered := ds\<rparr>)"
    using assms by (auto simp: sub_consistent_def)
  from consistent_failed [OF this] show ?thesis
    using h sn assms
    by (cases err) (auto simp: poll_answered_def Let_def sub_consistent_def reschedule_def)
qed

interpretation subscription: machine "\<lambda>s. s = new_subscription" "sub_step env handler rpc" sub_consistent
proof
  fix s e s'
  assume c: "sub_consistent s" and st: "sub_step env handler rpc s e s'"
  from st show "sub_consistent s'"
    by cases (use c consistent_failed consistent_answered in
      \<open>auto simp: sub_consistent_def poll_begin_def unsubscribe_def\<close>)
qed (simp add: consistent_new)

section \<open>What is delivered\<close>

text \<open>
  The documented behaviour of \<open>getEvents\<close>: an answer holds events from the requested ledger on, each once, and an
  identifier belongs to one event, so to one ledger.
\<close>

definition node_law :: "(nat option \<Rightarrow> raw_event list option \<Rightarrow> bool) \<Rightarrow> (string \<Rightarrow> nat) \<Rightarrow> bool" where
  "node_law rpc ledger_of \<longleftrightarrow> (\<forall>st rs. rpc st (Some rs) \<longrightarrow> distinct (map re_id rs)
     \<and> list_all (\<lambda>e. re_ledger e = ledger_of (re_id e) \<and> (case st of None \<Rightarrow> True | Some n \<Rightarrow> n \<le> re_ledger e)) rs)"

lemma parseRawEvent_fields:
  "parseRawEvent env e = Some c \<Longrightarrow> ce_eventId c = re_id e \<and> ce_ledger c = re_ledger e"
  by (auto simp: parseRawEvent_def split: if_splits sum.splits)

lemma parse_all_mem:
  "c \<in> set (parse_all env rs) \<Longrightarrow> \<exists>e \<in> set rs. ce_eventId c = re_id e \<and> ce_ledger c = re_ledger e"
  by (force simp: parse_all_def List.map_filter_def dest: parseRawEvent_fields)

lemma parse_all_distinct: "distinct (map re_id rs) \<Longrightarrow> distinct (map ce_eventId (parse_all env rs))"
proof (induction rs)
  case (Cons e rs)
  have "re_id e \<notin> ce_eventId ` set (parse_all env rs)"
    using Cons.prems by (auto dest!: parse_all_mem)
  then show ?case
    using Cons parseRawEvent_fields [of env e]
    by (auto simp: parse_all_def List.map_filter_def)
qed (simp add: parse_all_def List.map_filter_def)

lemma hand_over_all:
  "(\<And>e. handler e = None) \<Longrightarrow> hand_over handler es seen ds = (None, fold (\<lambda>e. seen_add MAX_SEEN_IDS (ce_eventId e)) es seen, ds @ es)"
  by (induction es arbitrary: seen ds) (auto simp: Let_def)

text \<open>The subscription asks from \<open>lastLedger\<close> on, and everything delivered lies below it.\<close>

definition sub_ordered :: "(string \<Rightarrow> nat) \<Rightarrow> subscription \<Rightarrow> bool" where
  "sub_ordered ledger_of s \<longleftrightarrow> distinct (map ce_eventId (sb_delivered s))
     \<and> list_all (\<lambda>e. ce_ledger e < sb_lastLedger s \<and> ce_ledger e = ledger_of (ce_eventId e)) (sb_delivered s)
     \<and> (\<forall>st. sb_phase s = InFlight st \<longrightarrow> st = (if sb_lastLedger s = 0 then None else Some (sb_lastLedger s)))"

text \<open>What a step adds to the delivered events: a batch from \<open>lastLedger\<close> on, each of them once.\<close>

lemma answered_batch:
  assumes law: "node_law rpc ledger_of" and quiet: "\<And>e. handler e = None"
    and o: "sub_ordered ledger_of s" and ph: "sb_phase s = InFlight st" and r: "rpc st r"
  obtains es where "sb_delivered (poll_answered env handler r s) = sb_delivered s @ es"
    "distinct (map ce_eventId es)"
    "list_all (\<lambda>e. sb_lastLedger s \<le> ce_ledger e \<and> ce_ledger e = ledger_of (ce_eventId e)) es"
    "list_all (\<lambda>e. ce_ledger e < sb_lastLedger (poll_answered env handler r s)) es"
    "sb_lastLedger s \<le> sb_lastLedger (poll_answered env handler r s)"
proof -
  let ?all = "parse_all env (case r of Some rs \<Rightarrow> rs | None \<Rightarrow> [])"
  let ?es = "filter (\<lambda>e. ce_eventId e \<notin> set (sb_seen s)) ?all"
  let ?s' = "poll_answered env handler r s"
  have s': "sb_delivered ?s' = sb_delivered s @ ?es"
      "sb_lastLedger ?s' = (if ?es \<noteq> [] then Max (set (map ce_ledger ?es)) + 1 else sb_lastLedger s)"
    by (simp_all add: poll_answered_def hand_over_all [OF quiet] reschedule_def Let_def)
  have st: "st = (if sb_lastLedger s = 0 then None else Some (sb_lastLedger s))"
    using o ph by (simp add: sub_ordered_def)
  have all: "distinct (map ce_eventId ?all)
      \<and> (\<forall>e \<in> set ?all. sb_lastLedger s \<le> ce_ledger e \<and> ce_ledger e = ledger_of (ce_eventId e))"
  proof (cases r)
    case None
    then show ?thesis by (simp add: parse_all_def List.map_filter_def)
  next
    case (Some rs)
    have "distinct (map re_id rs) \<and> list_all (\<lambda>e. re_ledger e = ledger_of (re_id e)
        \<and> (case st of None \<Rightarrow> True | Some n \<Rightarrow> n \<le> re_ledger e)) rs"
      using law r Some unfolding node_law_def by blast
    then have l: "distinct (map re_id rs)"
      "\<forall>e \<in> set rs. re_ledger e = ledger_of (re_id e) \<and> sb_lastLedger s \<le> re_ledger e"
      using st by (auto simp: list_all_iff split: if_splits)
    show ?thesis
      using l(2) parse_all_distinct [OF l(1)] Some by (auto dest!: parse_all_mem)
  qed
  have es: "distinct (map ce_eventId ?es)"
      "\<And>e. e \<in> set ?es \<Longrightarrow> sb_lastLedger s \<le> ce_ledger e \<and> ce_ledger e = ledger_of (ce_eventId e)"
    using all by (auto intro: distinct_map_filter)
  have top: "e \<in> set ?es \<Longrightarrow> ce_ledger e < sb_lastLedger ?s'" for e
    using Max_ge [of "set (map ce_ledger ?es)" "ce_ledger e"]
    by (simp add: s'(2) less_Suc_eq_le split: if_splits) (metis filter_empty_conv)
  have mono: "sb_lastLedger s \<le> sb_lastLedger ?s'"
  proof (cases ?es)
    case Nil
    then show ?thesis using s'(2) by simp
  next
    case (Cons e es')
    then have e: "e \<in> set ?es" by simp
    from es(2) [OF e] top [OF e] show ?thesis by linarith
  qed
  have "list_all (\<lambda>e. sb_lastLedger s \<le> ce_ledger e \<and> ce_ledger e = ledger_of (ce_eventId e)) ?es"
    unfolding list_all_iff by (intro ballI es(2))
  moreover have "list_all (\<lambda>e. ce_ledger e < sb_lastLedger ?s') ?es"
    unfolding list_all_iff by (intro ballI top)
  ultimately show ?thesis by (intro that [OF s'(1) es(1) _ _ mono])
qed

lemma ordered_answered:
  assumes law: "node_law rpc ledger_of" and quiet: "\<And>e. handler e = None"
    and o: "sub_ordered ledger_of s" and ph: "sb_phase s = InFlight st" and r: "rpc st r"
  shows "sub_ordered ledger_of (poll_answered env handler r s)"
proof -
  let ?s' = "poll_answered env handler r s"
  obtain es where es: "sb_delivered ?s' = sb_delivered s @ es" "distinct (map ce_eventId es)"
    "list_all (\<lambda>e. sb_lastLedger s \<le> ce_ledger e \<and> ce_ledger e = ledger_of (ce_eventId e)) es"
    "list_all (\<lambda>e. ce_ledger e < sb_lastLedger ?s') es" "sb_lastLedger s \<le> sb_lastLedger ?s'"
    using answered_batch [of rpc ledger_of handler s st r env] assms by blast
  have old: "\<forall>d \<in> set (sb_delivered s). ce_ledger d < sb_lastLedger s \<and> ce_ledger d = ledger_of (ce_eventId d)"
    using o unfolding sub_ordered_def list_all_iff by blast
  have new: "\<forall>e \<in> set es. sb_lastLedger s \<le> ce_ledger e \<and> ce_ledger e = ledger_of (ce_eventId e)
      \<and> ce_ledger e < sb_lastLedger ?s'"
    using es(3,4) unfolding list_all_iff by blast
  have "ce_eventId d \<noteq> ce_eventId e" if "d \<in> set (sb_delivered s)" "e \<in> set es" for d e
    using old new that by (metis linorder_not_less)
  then have d: "distinct (map ce_eventId (sb_delivered ?s'))"
    using o es(1,2) by (auto simp: sub_ordered_def)
  have b: "\<forall>d \<in> set (sb_delivered ?s'). ce_ledger d < sb_lastLedger ?s' \<and> ce_ledger d = ledger_of (ce_eventId d)"
    using old new es(1,5) by (metis Un_iff order_less_le_trans set_append)
  have "sb_phase ?s' \<noteq> InFlight st'" for st'
    by (simp add: poll_answered_def hand_over_all [OF quiet] reschedule_def Let_def)
  then show ?thesis
    unfolding sub_ordered_def list_all_iff by (intro conjI d b) blast
qed

lemma sub_ordered_same:
  assumes "sub_ordered ledger_of s" "sb_delivered s' = sb_delivered s" "sb_lastLedger s' = sb_lastLedger s"
    "\<And>st. sb_phase s' = InFlight st \<Longrightarrow> sb_phase s = sb_phase s' \<or> st = (if sb_lastLedger s = 0 then None else Some (sb_lastLedger s))"
  shows "sub_ordered ledger_of s' \<and> sb_lastLedger s \<le> sb_lastLedger s'
    \<and> (\<exists>es. sb_delivered s' = sb_delivered s @ es \<and> list_all (\<lambda>e. sb_lastLedger s \<le> ce_ledger e) es)"
proof (intro conjI exI [of _ "[]"])
  have "sb_phase s' = InFlight st \<Longrightarrow> st = (if sb_lastLedger s = 0 then None else Some (sb_lastLedger s))" for st
    using assms(1) assms(4) [of st] unfolding sub_ordered_def by metis
  then show "sub_ordered ledger_of s'"
    using assms(1-3) unfolding sub_ordered_def by metis
qed (use assms in simp_all)

lemma ordered_step:
  assumes "node_law rpc ledger_of" "\<And>e. handler e = None" "sub_ordered ledger_of s"
    "sub_step env handler rpc s e s'"
  shows "sub_ordered ledger_of s' \<and> sb_lastLedger s \<le> sb_lastLedger s'
    \<and> (\<exists>es. sb_delivered s' = sb_delivered s @ es \<and> list_all (\<lambda>e. sb_lastLedger s \<le> ce_ledger e) es)"
  using assms(4)
proof cases
  case (sub_answers st r)
  let ?s' = "poll_answered env handler r s"
  obtain es where es: "sb_delivered ?s' = sb_delivered s @ es" "distinct (map ce_eventId es)"
    "list_all (\<lambda>e. sb_lastLedger s \<le> ce_ledger e \<and> ce_ledger e = ledger_of (ce_eventId e)) es"
    "list_all (\<lambda>e. ce_ledger e < sb_lastLedger ?s') es" "sb_lastLedger s \<le> sb_lastLedger ?s'"
    by (rule answered_batch [OF assms(1-3) sub_answers(3,4), where env = env])
  from es(3) have "list_all (\<lambda>e. sb_lastLedger s \<le> ce_ledger e) es"
    unfolding list_all_iff by blast
  then show ?thesis
    unfolding sub_answers(2)
    by (intro conjI ordered_answered [OF assms(1-3) sub_answers(3,4)] es(5) exI [of _ es] es(1))
qed (rule sub_ordered_same [OF assms(3)]; simp add: poll_begin_def poll_failed_def unsubscribe_def reschedule_def Let_def split: if_splits)+

lemma ordered_exec:
  assumes "exec (sub_step env handler rpc) s es s'" "node_law rpc ledger_of" "\<And>e. handler e = None" "sub_ordered ledger_of s"
  shows "sub_ordered ledger_of s' \<and> sb_lastLedger s \<le> sb_lastLedger s'
    \<and> (\<exists>ds. sb_delivered s' = sb_delivered s @ ds \<and> list_all (\<lambda>e. sb_lastLedger s \<le> ce_ledger e) ds)"
  using assms(1,4)
proof (induction rule: exec.induct)
  case (exec_Cons s e s' es s'')
  from ordered_step [OF assms(2,3) exec_Cons.prems exec_Cons.hyps(1)] obtain ds where
    ds: "sub_ordered ledger_of s'" "sb_lastLedger s \<le> sb_lastLedger s'" "sb_delivered s' = sb_delivered s @ ds"
      "list_all (\<lambda>e. sb_lastLedger s \<le> ce_ledger e) ds" by blast
  from exec_Cons.IH [OF ds(1)] obtain ds' where
    "sub_ordered ledger_of s''" "sb_lastLedger s' \<le> sb_lastLedger s''" "sb_delivered s'' = sb_delivered s' @ ds'"
      "list_all (\<lambda>e. sb_lastLedger s' \<le> ce_ledger e) ds'" by blast
  with ds show ?case
    by (intro conjI exI [of _ "ds @ ds'"]) (auto simp: list_all_iff)
qed simp

lemma ordered_new: "sub_ordered ledger_of new_subscription"
  by (simp add: sub_ordered_def new_subscription_def)

definition demo_event :: "string \<Rightarrow> nat \<Rightarrow> raw_event" where
  "demo_event i n = \<lparr>re_type = ''contract'', re_contractId = ''C'', re_topic = None, re_value = None, re_ledger = n,
     re_txHash = ''h'', re_id = i\<rparr>"

definition demo_rpc :: "nat option \<Rightarrow> raw_event list option \<Rightarrow> bool" where
  "demo_rpc st r = (case r of None \<Rightarrow> False | Some rs \<Rightarrow> (case st of
     None \<Rightarrow> rs = [demo_event ''a'' 7] | Some n \<Rightarrow> n \<le> 9 \<and> rs = [demo_event ''b'' 9]))"

definition demo_ledger_of :: "string \<Rightarrow> nat" where
  "demo_ledger_of i = (if i = ''a'' then 7 else 9)"

definition demo_polled :: "nat \<Rightarrow> subscription" where
  "demo_polled n = (let answered = \<lambda>r s. poll_answered demo_env (\<lambda>e. None) (Some [r]) (poll_begin s);
      s1 = answered (demo_event ''a'' 7) new_subscription
    in if n = 0 then new_subscription else if n = 1 then s1 else answered (demo_event ''b'' 9) s1)"

lemma demo_law: "node_law demo_rpc demo_ledger_of"
  by (auto simp: node_law_def demo_rpc_def demo_ledger_of_def demo_event_def split: option.splits)

lemmas demo_poll = demo_polled_def Let_def poll_answered_def poll_begin_def parse_all_def parseRawEvent_def
  List.map_filter_def demo_event_def new_subscription_def seen_add_def MAX_SEEN_IDS_def reschedule_def

lemma demo_run:
  "exec (sub_step demo_env (\<lambda>e. None) demo_rpc) new_subscription [Fires, Answers (Some [demo_event ''a'' 7])] (demo_polled 1)"
  "exec (sub_step demo_env (\<lambda>e. None) demo_rpc) (demo_polled 1) [Fires, Answers (Some [demo_event ''b'' 9])] (demo_polled 2)"
  "map ce_eventId (sb_delivered (demo_polled 1)) = [''a'']"
  "map ce_eventId (sb_delivered (demo_polled 2)) = [''a'', ''b'']"
  "map ce_ledger (sb_delivered (demo_polled 2)) = [7, 9]"
  by (simp_all add: demo_poll demo_rpc_def)

text \<open>
  No event is handed to the handler twice: whatever answers, failures and cancellations happen in whatever order,
  the identifiers of the delivered events are distinct, if the handler never throws, the node answers a query with
  events from the requested ledger on, each once, and an identifier belongs to one ledger.
\<close>

theorem events_delivered_once:
  assumes "exec (sub_step env handler rpc) new_subscription es s"
    and "node_law rpc ledger_of" and "\<And>e. handler e = None"
  shows "distinct (map ce_eventId (sb_delivered s))"
  using ordered_exec [OF assms(1,2,3) ordered_new] by (simp add: sub_ordered_def)

theorem events_delivered_once_witness:
  "exec (sub_step demo_env (\<lambda>e. None) demo_rpc) new_subscription
     ([Fires, Answers (Some [demo_event ''a'' 7])] @ [Fires, Answers (Some [demo_event ''b'' 9])]) (demo_polled 2)
   \<and> map ce_eventId (sb_delivered (demo_polled 2)) = [''a'', ''b''] \<and> distinct (map ce_eventId (sb_delivered (demo_polled 2)))"
proof -
  have "exec (sub_step demo_env (\<lambda>e. None) demo_rpc) new_subscription
     ([Fires, Answers (Some [demo_event ''a'' 7])] @ [Fires, Answers (Some [demo_event ''b'' 9])]) (demo_polled 2)"
    unfolding exec_append using demo_run(1,2) by blast
  from this events_delivered_once [OF this demo_law refl] demo_run(4) show ?thesis by simp
qed

text \<open>
  What a page leaves out is lost: once an event of a ledger has been delivered, every event delivered later lies in
  a later ledger. The next query starts after the highest ledger seen, so the events of that ledger that did not fit in
  the answer (at most 100 are asked for) are never delivered, although the subscription goes on.
\<close>

theorem later_events_of_a_ledger_are_lost:
  assumes "exec (sub_step env handler rpc) new_subscription es s" and "exec (sub_step env handler rpc) s fs s'"
    and "node_law rpc ledger_of" and "\<And>e. handler e = None"
    and "e \<in> set (sb_delivered s)" and "d \<in> set (drop (length (sb_delivered s)) (sb_delivered s'))"
  shows "ce_ledger e < ce_ledger d"
proof -
  have s: "sub_ordered ledger_of s"
    using ordered_exec [OF assms(1,3,4) ordered_new] by blast
  from ordered_exec [OF assms(2,3,4) s] assms(6) have "sb_lastLedger s \<le> ce_ledger d"
    by (auto simp: list_all_iff)
  with s assms(5) show ?thesis
    by (fastforce simp: sub_ordered_def list_all_iff)
qed

theorem later_events_of_a_ledger_are_lost_witness:
  "\<exists>e d. e \<in> set (sb_delivered (demo_polled 1))
     \<and> d \<in> set (drop (length (sb_delivered (demo_polled 1))) (sb_delivered (demo_polled 2))) \<and> ce_ledger e < ce_ledger d"
proof -
  have m: "\<exists>e. e \<in> set (sb_delivered (demo_polled 1))"
    "\<exists>d. d \<in> set (drop (length (sb_delivered (demo_polled 1))) (sb_delivered (demo_polled 2)))"
    by (simp_all add: demo_poll)
  then obtain e d where ed: "e \<in> set (sb_delivered (demo_polled 1))"
    "d \<in> set (drop (length (sb_delivered (demo_polled 1))) (sb_delivered (demo_polled 2)))" by blast
  from ed later_events_of_a_ledger_are_lost [OF demo_run(1,2) demo_law refl ed] show ?thesis by blast
qed

section \<open>Giving up\<close>

lemma ended_stays: "sb_phase s = Ended \<Longrightarrow> sub_step env handler rpc s e s' \<Longrightarrow> sb_phase s' = Ended \<and> sb_delivered s' = sb_delivered s"
  by (cases e) (auto simp: unsubscribe_def)

interpretation ended: stable_machine "sub_step env handler rpc" "\<lambda>s. sb_phase s = Ended"
  by unfold_locales (use ended_stays in blast)

definition failed_polls :: "nat \<Rightarrow> poll_input list" where
  "failed_polls n = concat (replicate n [Fires, Fails])"

lemma one_failed_poll:
  assumes "sb_phase s = TimerSet" "\<not> sb_stopped s"
  shows "exec (sub_step env handler rpc) s [Fires, Fails] s' \<longleftrightarrow> s' = (if sb_attempts s < MAX_RECONNECT_RETRIES
     then s\<lparr>sb_attempts := sb_attempts s + 1\<rparr>
     else s\<lparr>sb_attempts := sb_attempts s + 1, sb_stopped := True, sb_phase := Ended\<rparr>)"
  using assms by (auto simp: poll_begin_def poll_failed_def reschedule_def Let_def)

lemma failed_polls_from:
  assumes "sb_phase s = TimerSet" "\<not> sb_stopped s" "sb_attempts s \<le> MAX_RECONNECT_RETRIES"
  shows "exec (sub_step env handler rpc) s (failed_polls n) s' \<longleftrightarrow>
    (if sb_attempts s + n \<le> MAX_RECONNECT_RETRIES then s' = s\<lparr>sb_attempts := sb_attempts s + n\<rparr>
     else sb_attempts s + n = MAX_RECONNECT_RETRIES + 1
       \<and> s' = s\<lparr>sb_attempts := sb_attempts s + n, sb_stopped := True, sb_phase := Ended\<rparr>)"
  using assms
proof (induction n arbitrary: s)
  case 0
  then show ?case by (auto simp: failed_polls_def)
next
  case (Suc n)
  let ?s1 = "if sb_attempts s < MAX_RECONNECT_RETRIES then s\<lparr>sb_attempts := sb_attempts s + 1\<rparr>
     else s\<lparr>sb_attempts := sb_attempts s + 1, sb_stopped := True, sb_phase := Ended\<rparr>"
  have "exec (sub_step env handler rpc) s (failed_polls (Suc n)) s'
      \<longleftrightarrow> exec (sub_step env handler rpc) ?s1 (failed_polls n) s'"
    unfolding failed_polls_def replicate_Suc concat.simps exec_append
    by (simp only: one_failed_poll [OF Suc.prems(1,2)] simp_thms ex_simps)
  also have "\<dots> \<longleftrightarrow> (if sb_attempts s + Suc n \<le> MAX_RECONNECT_RETRIES then s' = s\<lparr>sb_attempts := sb_attempts s + Suc n\<rparr>
     else sb_attempts s + Suc n = MAX_RECONNECT_RETRIES + 1
       \<and> s' = s\<lparr>sb_attempts := sb_attempts s + Suc n, sb_stopped := True, sb_phase := Ended\<rparr>)"
  proof (cases "sb_attempts s < MAX_RECONNECT_RETRIES")
    case True
    then show ?thesis
      using Suc.IH [of ?s1] Suc.prems by auto
  next
    case False
    then show ?thesis
      using Suc.prems(3) by (cases n) (auto simp: failed_polls_def)
  qed
  finally show ?case .
qed

text \<open>
  A subscription gives up after exactly six failed polls in a row: from a state waiting for its timer with no failure
  counted, five failures leave it waiting for its timer again, the sixth ends it, a seventh poll never happens, and an
  ended subscription delivers nothing whatever happens next.
\<close>

theorem subscription_gives_up:
  assumes "sb_phase s = TimerSet" "\<not> sb_stopped s" "sb_attempts s = 0"
  shows "((\<exists>s'. exec (sub_step env handler rpc) s (failed_polls n) s') \<longleftrightarrow> n \<le> MAX_RECONNECT_RETRIES + 1)
    \<and> (\<forall>s'. exec (sub_step env handler rpc) s (failed_polls n) s' \<longrightarrow>
          sb_phase s' = (if n = MAX_RECONNECT_RETRIES + 1 then Ended else TimerSet)
        \<and> (\<forall>es s''. n = MAX_RECONNECT_RETRIES + 1 \<and> exec (sub_step env handler rpc) s' es s'' \<longrightarrow> sb_delivered s'' = sb_delivered s))"
proof -
  note runs = failed_polls_from [OF assms(1,2), unfolded assms(3), of env handler rpc]
  have "(\<exists>s'. exec (sub_step env handler rpc) s (failed_polls n) s') \<longleftrightarrow> n \<le> MAX_RECONNECT_RETRIES + 1"
    by (cases "n \<le> MAX_RECONNECT_RETRIES") (auto simp: runs)
  moreover have "sb_phase s' = (if n = MAX_RECONNECT_RETRIES + 1 then Ended else TimerSet) \<and> sb_delivered s' = sb_delivered s"
    if "exec (sub_step env handler rpc) s (failed_polls n) s'" for s'
    using that assms by (auto simp: runs split: if_splits)
  moreover have "sb_delivered s'' = sb_delivered s'" if "exec (sub_step env handler rpc) s' es s''" "sb_phase s' = Ended" for s' es s''
    using that by (induction rule: exec.induct) (auto dest: ended_stays)
  ultimately show ?thesis by metis
qed

theorem subscription_gives_up_witness:
  "(\<exists>s'. exec (sub_step demo_env (\<lambda>e. None) demo_rpc) new_subscription (failed_polls 6) s')
   \<and> \<not> (\<exists>s'. exec (sub_step demo_env (\<lambda>e. None) demo_rpc) new_subscription (failed_polls 7) s')"
  using subscription_gives_up [of new_subscription demo_env "\<lambda>e. None" demo_rpc 6]
    subscription_gives_up [of new_subscription demo_env "\<lambda>e. None" demo_rpc 7]
  by (simp add: new_subscription_def MAX_RECONNECT_RETRIES_def)

section \<open>After unsubscribing\<close>

text \<open>\<open>unsubscribe()\<close> does not stop a poll in flight: its answer still reaches the handler.\<close>

lemma unsubscribed_still_delivers:
  "let s = poll_answered demo_env (\<lambda>e. None) (Some [demo_event ''a'' 7]) (unsubscribe (poll_begin new_subscription)) in
   sb_stopped s \<and> map ce_eventId (sb_delivered s) = [''a'']"
  by (simp add: demo_poll unsubscribe_def)

text \<open>An event with a big integer among its topics (any 64-bit or wider contract integer) is dropped.\<close>

lemma bigint_topic_drops_event:
  "re_topic e = Some [t] \<Longrightarrow> e_scValToNative env (RScVal t) = Inr (JBig i) \<Longrightarrow> parseRawEvent env e = None"
  by (simp add: parseRawEvent_def stringify_topic_def)

end
