(* ===== verification/JobQueue.thy ===== *)
theory JobQueue
  imports ContractArgs Machine "HOL-Library.List_Lexorder" "HOL-Library.Char_ord" "HOL-Library.Product_Lexorder"
begin

text \<open>
  Models \<open>server/src/job-queue.js\<close>: a queue of jobs kept in Redis, with priorities, delays and retries.

  An asynchronous method is a program: a sequence of Redis commands and handler calls, each of which continues with the
  time of its answer and the answer, or with what was thrown. So the methods are written once, in the order of the code,
  and run in two ways: one worker alone (\<open>run_prog\<close>) and many workers interleaved command by command (\<open>workers_step\<close>).
  Redis is modelled by its documented commands; the JSON text of a job is the job. Log lines and metrics are not modelled.
\<close>

section \<open>Redis\<close>

datatype job_status = Queued | InProcess | JobDone | Delayed | JobFailed

record job =
  j_id :: string
  j_type :: string
  j_data :: jv
  j_context :: "(string, string) jsmap"
  j_priority :: int
  j_attempts :: nat
  j_maxAttempts :: nat
  j_status :: job_status
  j_createdAt :: int
  j_updatedAt :: int
  j_scheduledAt :: int
  j_result :: "jv option"
  j_completedAt :: "int option"
  j_lastError :: "string option"
  j_error :: "string option"

datatype zset = Pending | Processing | Completed | Failed

text \<open>Job data with the time they expire, if any, and the sorted sets: members with their scores.\<close>

record redis =
  rd_jobs :: "(string, job \<times> int option) jsmap"
  rd_sets :: "zset \<Rightarrow> (string, rat) jsmap"

datatype command =
    PING
  | SET string job "int option"
  | GET string
  | ZADD zset rat string
  | ZREM zset string
  | ZFIRST zset
  | ZCARD zset

datatype reply = Done | Up bool | Stored "job option" | First "(string \<times> rat) option" | Card nat

text \<open>\<open>ZRANGE key 0 0 WITHSCORES\<close>: the member of least score, the least of them in the order of strings.\<close>

definition zfirst :: "(string, rat) jsmap \<Rightarrow> (string \<times> rat) option" where
  "zfirst m = (case sort_key (\<lambda>(i, sc). (sc, i)) m of [] \<Rightarrow> None | e # _ \<Rightarrow> Some e)"

definition set_of :: "zset \<Rightarrow> ((string, rat) jsmap \<Rightarrow> (string, rat) jsmap) \<Rightarrow> redis \<Rightarrow> redis" where
  "set_of z f s = s\<lparr>rd_sets := (rd_sets s)(z := f (rd_sets s z))\<rparr>"

fun redis_do :: "int \<Rightarrow> command \<Rightarrow> redis \<Rightarrow> reply \<times> redis" where
  "redis_do now PING s = (Up True, s)"
| "redis_do now (SET i j ttl) s = (Done, s\<lparr>rd_jobs := jm_set i (j, map_option (\<lambda>d. now + d) ttl) (rd_jobs s)\<rparr>)"
| "redis_do now (GET i) s = (Stored (case jm_get (rd_jobs s) i of
     Some (j, Some e) \<Rightarrow> if now < e then Some j else None
   | Some (j, None) \<Rightarrow> Some j
   | None \<Rightarrow> None), s)"
| "redis_do now (ZADD z sc i) s = (Done, set_of z (jm_set i sc) s)"
| "redis_do now (ZREM z i) s = (Done, set_of z (jm_delete i) s)"
| "redis_do now (ZFIRST z) s = (First (zfirst (rd_sets s z)), s)"
| "redis_do now (ZCARD z) s = (Card (length (rd_sets s z)), s)"

section \<open>Programs\<close>

datatype 'a prog =
    Ret "thrown + 'a"
  | Issue command "int \<Rightarrow> thrown + reply \<Rightarrow> 'a prog"
  | Call job "int \<Rightarrow> thrown + jv \<Rightarrow> 'a prog"

primrec pbind :: "'a prog \<Rightarrow> ('a \<Rightarrow> 'b prog) \<Rightarrow> 'b prog" where
  "pbind (Ret r) f = (case r of Inl e \<Rightarrow> Ret (Inl e) | Inr x \<Rightarrow> f x)"
| "pbind (Issue c k) f = Issue c (\<lambda>t r. pbind (k t r) f)"
| "pbind (Call j k) f = Call j (\<lambda>t r. pbind (k t r) f)"

primrec pcatch :: "'a prog \<Rightarrow> (thrown \<Rightarrow> 'a prog) \<Rightarrow> 'a prog" where
  "pcatch (Ret r) h = (case r of Inl e \<Rightarrow> h e | Inr x \<Rightarrow> Ret (Inr x))"
| "pcatch (Issue c k) h = Issue c (\<lambda>t r. pcatch (k t r) h)"
| "pcatch (Call j k) h = Call j (\<lambda>t r. pcatch (k t r) h)"

text \<open>A command and a handler call, with the time of the answer.\<close>

definition cmd :: "command \<Rightarrow> (int \<times> reply) prog" where
  "cmd c = Issue c (\<lambda>t r. Ret (map_sum id (Pair t) r))"

definition call_handler :: "job \<Rightarrow> (int \<times> jv) prog" where
  "call_handler j = Call j (\<lambda>t r. Ret (map_sum id (Pair t) r))"

definition finish :: "unit prog" where
  "finish = Ret (Inr ())"

section \<open>The queue\<close>

record queue_config =
  jq_maxRetries :: nat
  jq_retryBackoffMs :: rat
  jq_retryBackoffMultiplier :: rat
  jq_levels :: "(string, int) jsmap"
  jq_normal :: int
  jq_handlers :: "string list"

record job_options =
  jo_jobId :: "string option"
  jo_priority :: "string option"
  jo_delayMs :: "int option"
  jo_maxAttempts :: "nat option"

definition LEVEL_STEP :: rat where
  "LEVEL_STEP = 10 ^ 10"

definition job_score :: "int \<Rightarrow> rat \<Rightarrow> rat" where
  "job_score priority at_time = of_int (4 - priority) * LEVEL_STEP + at_time"

definition priority_of :: "queue_config \<Rightarrow> string option \<Rightarrow> int" where
  "priority_of cfg p = (case p of
     Some l \<Rightarrow> (case jm_get (jq_levels cfg) l of Some n \<Rightarrow> n | None \<Rightarrow> jq_normal cfg)
   | None \<Rightarrow> jq_normal cfg)"

definition new_job :: "queue_config \<Rightarrow> int \<Rightarrow> string \<Rightarrow> string \<Rightarrow> jv \<Rightarrow> (string, string) jsmap \<Rightarrow> job_options \<Rightarrow> job" where
  "new_job cfg now i ty dat ctx opts = \<lparr>j_id = i, j_type = ty, j_data = dat, j_context = ctx,
     j_priority = priority_of cfg (jo_priority opts), j_attempts = 0,
     j_maxAttempts = (case jo_maxAttempts opts of Some n \<Rightarrow> n | None \<Rightarrow> jq_maxRetries cfg + 1), j_status = Queued,
     j_createdAt = now, j_updatedAt = now,
     j_scheduledAt = now + (case jo_delayMs opts of Some d \<Rightarrow> d | None \<Rightarrow> 0),
     j_result = None, j_completedAt = None, j_lastError = None, j_error = None\<rparr>"

text \<open>\<open>fresh\<close> is the identifier the platform makes when none is given, \<open>ctx\<close> the request context.\<close>

definition addJob :: "queue_config \<Rightarrow> string \<Rightarrow> (string, string) jsmap \<Rightarrow> string \<Rightarrow> jv \<Rightarrow> job_options \<Rightarrow> string prog" where
  "addJob cfg fresh ctx ty dat opts = pbind (cmd PING) (\<lambda>(now, up).
     if up \<noteq> Up True then Ret (Inl (error_class ''Redis connection unavailable'')) else
     (let i = (case jo_jobId opts of Some x \<Rightarrow> x | None \<Rightarrow> fresh); j = new_job cfg now i ty dat ctx opts in
      pbind (cmd (SET i j (Some 86400000))) (\<lambda>_.
      pbind (cmd (ZADD Pending (job_score (j_priority j) (of_int (j_scheduledAt j))) i)) (\<lambda>_.
      Ret (Inr i)))))"

text \<open>The remainder of JavaScript: the sign of the dividend.\<close>

definition js_rem :: "rat \<Rightarrow> rat \<Rightarrow> rat" where
  "js_rem x y = (let r = \<bar>x\<bar> - y * of_int \<lfloor>\<bar>x\<bar> / y\<rfloor> in if x < 0 then - r else r)"

definition due :: "rat \<Rightarrow> int \<Rightarrow> bool" where
  "due score now = (\<lfloor>js_rem score LEVEL_STEP\<rfloor> \<le> now)"

definition getNextJob :: "string option prog" where
  "getNextJob = pbind (cmd PING) (\<lambda>(now, up).
     if up \<noteq> Up True then Ret (Inr None) else
     pbind (cmd (ZFIRST Pending)) (\<lambda>(_, r).
     case r of
       First (Some (i, score)) \<Rightarrow>
         if due score now then
           pbind (cmd (ZREM Pending i)) (\<lambda>_.
           pbind (cmd (ZADD Processing (of_int now) i)) (\<lambda>_.
           Ret (Inr (Some i))))
         else Ret (Inr None)
     | _ \<Rightarrow> Ret (Inr None)))"

definition moveJobToFailed :: "string \<Rightarrow> string \<Rightarrow> unit prog" where
  "moveJobToFailed i msg = pbind (cmd (GET i)) (\<lambda>(now, r). case r of
     Stored (Some j) \<Rightarrow>
       pbind (cmd (SET i (j\<lparr>j_status := JobFailed, j_updatedAt := now, j_error := Some msg\<rparr>) None)) (\<lambda>_.
       pbind (cmd (ZREM Processing i)) (\<lambda>_.
       pbind (cmd (ZADD Failed (of_int now) i)) (\<lambda>_. finish)))
   | _ \<Rightarrow> finish)"

definition backoff :: "queue_config \<Rightarrow> nat \<Rightarrow> rat" where
  "backoff cfg attempts = jq_retryBackoffMs cfg *
     (if attempts = 0 then 1 / jq_retryBackoffMultiplier cfg else jq_retryBackoffMultiplier cfg ^ (attempts - 1))"

definition processed :: "string \<Rightarrow> job \<Rightarrow> int \<Rightarrow> jv \<Rightarrow> unit prog" where
  "processed i j now v =
     pbind (cmd (SET i (j\<lparr>j_status := JobDone, j_result := Some v, j_completedAt := Some now, j_updatedAt := now\<rparr>) None)) (\<lambda>_.
     pbind (cmd (ZREM Processing i)) (\<lambda>_.
     pbind (cmd (ZADD Completed (of_int now) i)) (\<lambda>_. finish)))"

definition process_failed :: "queue_config \<Rightarrow> string \<Rightarrow> thrown \<Rightarrow> unit prog" where
  "process_failed cfg i err = pbind (cmd (GET i)) (\<lambda>(now, r). case r of
     Stored (Some j) \<Rightarrow>
       if j_attempts j < j_maxAttempts j then
         pbind (cmd (SET i (j\<lparr>j_status := Delayed, j_lastError := Some (err_message err), j_updatedAt := now\<rparr>) None)) (\<lambda>_.
         pbind (cmd (ZREM Processing i)) (\<lambda>_.
         pbind (cmd (ZADD Pending (job_score (j_priority j) (of_int now + backoff cfg (j_attempts j))) i)) (\<lambda>_. finish)))
       else moveJobToFailed i (err_message err)
   | _ \<Rightarrow> finish)"

text \<open>The handler and its timeout are one call; what it throws may be the timeout.\<close>

definition processJob :: "queue_config \<Rightarrow> string \<Rightarrow> unit prog" where
  "processJob cfg i = pcatch (pbind (cmd (GET i)) (\<lambda>(now, r). case r of
     Stored (Some j) \<Rightarrow>
       if j_type j \<notin> set (jq_handlers cfg) then moveJobToFailed i ''No handler registered''
       else (let j1 = j\<lparr>j_status := InProcess, j_updatedAt := now, j_attempts := j_attempts j + 1\<rparr> in
         pbind (cmd (SET i j1 None)) (\<lambda>_.
         pbind (call_handler j1) (\<lambda>(now, v). processed i j1 now v)))
   | _ \<Rightarrow> finish)) (process_failed cfg i)"

text \<open>One round of the processing loop; what it throws is logged, and the loop goes on.\<close>

definition worker_round :: "queue_config \<Rightarrow> unit prog" where
  "worker_round cfg = pcatch (pbind getNextJob (\<lambda>r. case r of Some i \<Rightarrow> processJob cfg i | None \<Rightarrow> finish)) (\<lambda>_. finish)"

definition getJobStatus :: "string \<Rightarrow> job option prog" where
  "getJobStatus i = pbind (cmd PING) (\<lambda>(now, up). if up \<noteq> Up True then Ret (Inr None) else
     pbind (cmd (GET i)) (\<lambda>(_, r). Ret (Inr (case r of Stored j \<Rightarrow> j | _ \<Rightarrow> None))))"

definition card_of :: "reply \<Rightarrow> nat" where
  "card_of r = (case r of Card n \<Rightarrow> n | _ \<Rightarrow> 0)"

definition getStats :: "(nat \<times> nat \<times> nat \<times> nat \<times> nat) option prog" where
  "getStats = pbind (cmd PING) (\<lambda>(_, up). if up \<noteq> Up True then Ret (Inr None) else
     pbind (cmd (ZCARD Pending)) (\<lambda>(_, a). pbind (cmd (ZCARD Processing)) (\<lambda>(_, b).
     pbind (cmd (ZCARD Completed)) (\<lambda>(_, c). pbind (cmd (ZCARD Failed)) (\<lambda>(_, d).
       Ret (Inr (Some (card_of a, card_of b, card_of c, card_of d, card_of a + card_of b + card_of c + card_of d))))))))"

section \<open>Running\<close>

text \<open>
  One worker alone, with Redis up: \<open>clock n\<close> is the time of the \<open>n\<close>-th answer, \<open>outcome n\<close> what the handler called there
  returns. The result ends with the jobs the handler was called with.
\<close>

primrec run_prog :: "'a prog \<Rightarrow> (nat \<Rightarrow> int) \<Rightarrow> (nat \<Rightarrow> thrown + jv) \<Rightarrow> nat \<Rightarrow> redis
    \<Rightarrow> (thrown + 'a) \<times> nat \<times> redis \<times> job list" where
  "run_prog (Ret r) clock outcome n s = (r, n, s, [])"
| "run_prog (Issue c k) clock outcome n s = (case redis_do (clock n) c s of (r, s') \<Rightarrow>
     run_prog (k (clock n) (Inr r)) clock outcome (n + 1) s')"
| "run_prog (Call j k) clock outcome n s = (case run_prog (k (clock n) (outcome n)) clock outcome (n + 1) s of
     (r, n', s', js) \<Rightarrow> (r, n', s', j # js))"

text \<open>Workers interleaved: each step is one command, one refused command or one handler outcome of one worker.\<close>

record workers =
  wk_redis :: redis
  wk_progs :: "unit prog list"
  wk_calls :: "(nat \<times> job) list"

datatype worker_event = Answered nat int | Refused nat int thrown | Returned nat int "thrown + jv" | NextRound nat

inductive workers_step :: "queue_config \<Rightarrow> workers \<Rightarrow> worker_event \<Rightarrow> workers \<Rightarrow> bool" for cfg where
  ws_answered: "w < length (wk_progs s) \<Longrightarrow> wk_progs s ! w = Issue c k \<Longrightarrow> redis_do t c (wk_redis s) = (r, s') \<Longrightarrow>
    workers_step cfg s (Answered w t) (s\<lparr>wk_redis := s', wk_progs := (wk_progs s)[w := k t (Inr r)]\<rparr>)"
| ws_refused: "w < length (wk_progs s) \<Longrightarrow> wk_progs s ! w = Issue c k \<Longrightarrow>
    workers_step cfg s (Refused w t e) (s\<lparr>wk_progs := (wk_progs s)[w := k t (Inl e)]\<rparr>)"
| ws_returned: "w < length (wk_progs s) \<Longrightarrow> wk_progs s ! w = Call j k \<Longrightarrow>
    workers_step cfg s (Returned w t res) (s\<lparr>wk_progs := (wk_progs s)[w := k t res], wk_calls := wk_calls s @ [(w, j)]\<rparr>)"
| ws_round: "w < length (wk_progs s) \<Longrightarrow> wk_progs s ! w = Ret x \<Longrightarrow>
    workers_step cfg s (NextRound w) (s\<lparr>wk_progs := (wk_progs s)[w := worker_round cfg]\<rparr>)"

text \<open>The step of an event, where it is enabled.\<close>

fun workers_do :: "queue_config \<Rightarrow> workers \<Rightarrow> worker_event \<Rightarrow> workers option" where
  "workers_do cfg s (Answered w t) = (if w < length (wk_progs s) then (case wk_progs s ! w of
     Issue c k \<Rightarrow> (case redis_do t c (wk_redis s) of (r, s') \<Rightarrow>
       Some (s\<lparr>wk_redis := s', wk_progs := (wk_progs s)[w := k t (Inr r)]\<rparr>))
   | _ \<Rightarrow> None) else None)"
| "workers_do cfg s (Refused w t e) = (if w < length (wk_progs s) then (case wk_progs s ! w of
     Issue c k \<Rightarrow> Some (s\<lparr>wk_progs := (wk_progs s)[w := k t (Inl e)]\<rparr>) | _ \<Rightarrow> None) else None)"
| "workers_do cfg s (Returned w t res) = (if w < length (wk_progs s) then (case wk_progs s ! w of
     Call j k \<Rightarrow> Some (s\<lparr>wk_progs := (wk_progs s)[w := k t res], wk_calls := wk_calls s @ [(w, j)]\<rparr>) | _ \<Rightarrow> None) else None)"
| "workers_do cfg s (NextRound w) = (if w < length (wk_progs s) then (case wk_progs s ! w of
     Ret x \<Rightarrow> Some (s\<lparr>wk_progs := (wk_progs s)[w := worker_round cfg]\<rparr>) | _ \<Rightarrow> None) else None)"

lemma workers_step_do: "workers_step cfg s e s' \<longleftrightarrow> workers_do cfg s e = Some s'"
proof
  show "workers_step cfg s e s' \<Longrightarrow> workers_do cfg s e = Some s'"
    by (induction rule: workers_step.induct) auto
  show "workers_do cfg s e = Some s' \<Longrightarrow> workers_step cfg s e s'"
    by (cases e) (auto split: if_splits prog.splits prod.splits intro: workers_step.intros)
qed

lemmas prog_defs = cmd_def call_handler_def finish_def getNextJob_def processJob_def processed_def process_failed_def
  moveJobToFailed_def worker_round_def

section \<open>Delays\<close>

lemma js_rem_less: "0 < y \<Longrightarrow> js_rem x y < y"
proof -
  assume y: "0 < y"
  have "\<bar>x\<bar> / y < of_int \<lfloor>\<bar>x\<bar> / y\<rfloor> + 1" by linarith
  then have "\<bar>x\<bar> < y * of_int \<lfloor>\<bar>x\<bar> / y\<rfloor> + y"
    using y by (simp add: pos_divide_less_eq algebra_simps)
  moreover have "y * of_int \<lfloor>\<bar>x\<bar> / y\<rfloor> \<le> \<bar>x\<bar>"
    using y of_int_floor_le [of "\<bar>x\<bar> / y"] by (metis mult.commute pos_le_divide_eq)
  ultimately show ?thesis using y by (auto simp: js_rem_def Let_def)
qed

lemma always_due:
  assumes "10 ^ 10 \<le> now"
  shows "due score now"
proof -
  have "js_rem score LEVEL_STEP < of_int (10 ^ 10)"
    using js_rem_less [of LEVEL_STEP score] by (simp add: LEVEL_STEP_def)
  then have "\<lfloor>js_rem score LEVEL_STEP\<rfloor> < 10 ^ 10" by (simp only: floor_less_iff)
  with assms show ?thesis unfolding due_def by linarith
qed

lemma zfirst_None: "zfirst m = None \<longleftrightarrow> m = []"
  by (auto simp: zfirst_def split: list.splits) (metis length_0_conv length_sort)

lemma zfirst_mem: "zfirst m = Some e \<Longrightarrow> e \<in> set m"
  by (auto simp: zfirst_def split: list.splits) (metis list.set_intros(1) set_sort)

lemma zfirst_least: "zfirst m = Some (i, sc) \<Longrightarrow> (k, sk) \<in> set m \<Longrightarrow> (sc, i) \<le> (sk, k)"
proof -
  assume f: "zfirst m = Some (i, sc)" and k: "(k, sk) \<in> set m"
  let ?f = "\<lambda>(i, sc). (sc, i)" and ?xs = "sort_key (\<lambda>(i, sc). (sc, i)) m"
  from f obtain rest where xs: "?xs = (i, sc) # rest" by (auto simp: zfirst_def split: list.splits)
  have "sorted (map ?f ?xs)" by simp
  moreover have "(k, sk) \<in> set ?xs" using k by simp
  ultimately show "(sc, i) \<le> (sk, k)" unfolding xs by auto
qed

text \<open>What a worker takes: the first of the pending jobs, at any time past April 1970.\<close>

lemma getNextJob_takes:
  assumes "zfirst (rd_sets s Pending) = Some (i, sc)"
  shows "run_prog getNextJob clock outcome n s = (if due sc (clock n)
    then (Inr (Some i), n + 4, set_of Processing (jm_set i (of_int (clock n))) (set_of Pending (jm_delete i) s), [])
    else (Inr None, n + 2, s, []))"
  using assms by (simp add: prog_defs)

lemma getNextJob_run:
  assumes "\<And>m. 10 ^ 10 \<le> clock m" "zfirst (rd_sets s Pending) = Some (i, sc)"
  shows "run_prog getNextJob clock outcome n s = (Inr (Some i), n + 4,
    set_of Processing (jm_set i (of_int (clock n))) (set_of Pending (jm_delete i) s), [])"
  using getNextJob_takes [OF assms(2)] always_due [OF assms(1)] by simp

lemma getNextJob_empty:
  assumes "rd_sets s Pending = []"
  shows "run_prog getNextJob clock outcome n s = (Inr None, n + 2, s, [])"
  using assms by (simp add: prog_defs zfirst_def)

text \<open>
  Delays are ignored: at any time after April 1970 a worker that finds a pending job takes one at once, whatever the
  delay the job was added with or the backoff of its retry. The score packs priority and time into one number in steps of
  10 ^ 10, but times in milliseconds are above 10 ^ 12, so the time read back from the score is always in the past.
\<close>

theorem job_delays_are_ignored:
  assumes "\<And>m. 10 ^ 10 \<le> clock m" "rd_sets s Pending \<noteq> []"
  shows "\<exists>i. i \<in> set (jm_keys (rd_sets s Pending)) \<and> fst (run_prog getNextJob clock outcome n s) = Inr (Some i)"
proof -
  obtain i sc where z: "zfirst (rd_sets s Pending) = Some (i, sc)"
    using assms(2) zfirst_None [of "rd_sets s Pending"] by auto
  then have "(i, sc) \<in> set (rd_sets s Pending)" by (rule zfirst_mem)
  then show ?thesis
    using getNextJob_run [OF assms(1) z] by (force simp: jm_keys_def)
qed

definition empty_redis :: redis where
  "empty_redis = \<lparr>rd_jobs = [], rd_sets = (\<lambda>z. [])\<rparr>"

definition plain_queue :: queue_config where
  "plain_queue = \<lparr>jq_maxRetries = 3, jq_retryBackoffMs = 1000, jq_retryBackoffMultiplier = 2,
     jq_levels = [(''low'', 0), (''normal'', 1), (''high'', 2), (''urgent'', 3)], jq_normal = 1, jq_handlers = [''issue'']\<rparr>"

definition delayed_by :: "int \<Rightarrow> job_options" where
  "delayed_by d = \<lparr>jo_jobId = Some ''j'', jo_priority = None, jo_delayMs = Some d, jo_maxAttempts = None\<rparr>"

text \<open>A queue with one job, added with a delay of a year.\<close>

definition year_ahead :: redis where
  "year_ahead = fst (snd (snd (run_prog (addJob plain_queue ''x'' [] ''issue'' JNull (delayed_by 31536000000)) (\<lambda>_. 1700000000000)
     (\<lambda>_. Inr JNull) 0 empty_redis)))"

lemma year_ahead_sets: "rd_sets year_ahead Pending = [(''j'', job_score 1 1731536000000)]"
  by (simp add: year_ahead_def addJob_def prog_defs plain_queue_def delayed_by_def new_job_def priority_of_def empty_redis_def set_of_def Let_def)

theorem job_delays_are_ignored_witness:
  "fst (run_prog getNextJob (\<lambda>_. 1700000000001) (\<lambda>_. Inr JNull) 0 year_ahead) = Inr (Some ''j'')"
  using job_delays_are_ignored [of "\<lambda>_. 1700000000001" year_ahead "\<lambda>_. Inr JNull" 0] by (simp add: year_ahead_sets jm_keys_def)

section \<open>Priorities\<close>

text \<open>
  The job a worker takes has the highest priority of the pending ones, and the earliest time among those, as long as
  the times of the pending jobs lie less than 10 ^ 10 milliseconds (115 days) apart.
\<close>

theorem highest_priority_first:
  assumes "\<And>m. 10 ^ 10 \<le> clock m"
    and "\<And>k sk. (k, sk) \<in> set (rd_sets s Pending) \<Longrightarrow> sk = job_score (prio k) (at_time k)"
    and "\<And>k l. k \<in> set (jm_keys (rd_sets s Pending)) \<Longrightarrow> l \<in> set (jm_keys (rd_sets s Pending)) \<Longrightarrow> at_time k - at_time l < 10 ^ 10"
    and "fst (run_prog getNextJob clock outcome n s) = Inr (Some i)" and "k \<in> set (jm_keys (rd_sets s Pending))"
  shows "i \<in> set (jm_keys (rd_sets s Pending)) \<and> prio k \<le> prio i \<and> (prio k = prio i \<longrightarrow> at_time i \<le> at_time k)"
proof -
  have "rd_sets s Pending \<noteq> []" using assms(5) by (auto simp: jm_keys_def)
  then obtain i' sc where z: "zfirst (rd_sets s Pending) = Some (i', sc)"
    using zfirst_None [of "rd_sets s Pending"] by auto
  with getNextJob_run [OF assms(1) z, where outcome = outcome and n = n] assms(4) have i: "zfirst (rd_sets s Pending) = Some (i, sc)" by simp
  have mem: "(i, sc) \<in> set (rd_sets s Pending)" by (rule zfirst_mem [OF i])
  then have ik: "i \<in> set (jm_keys (rd_sets s Pending))" by (force simp: jm_keys_def)
  obtain sk where k: "(k, sk) \<in> set (rd_sets s Pending)" using assms(5) by (auto simp: jm_keys_def)
  have le: "job_score (prio i) (at_time i) \<le> job_score (prio k) (at_time k)"
    using zfirst_least [OF i k] assms(2) [OF mem] assms(2) [OF k] by (auto simp: less_eq_prod_def)
  have "prio k \<le> prio i"
  proof (rule ccontr)
    assume "\<not> prio k \<le> prio i"
    then have "of_int (prio i + 1) \<le> (of_int (prio k) :: rat)" unfolding of_int_le_iff by linarith
    then have "of_int (prio i) + 1 \<le> (of_int (prio k) :: rat)" by simp
    with le assms(3) [OF ik assms(5)] assms(3) [OF assms(5) ik] show False
      by (simp add: job_score_def LEVEL_STEP_def algebra_simps)
  qed
  moreover have "prio k = prio i \<Longrightarrow> at_time i \<le> at_time k"
    using le by (simp add: job_score_def)
  ultimately show ?thesis using ik by blast
qed

definition two_jobs :: redis where
  "two_jobs = \<lparr>rd_jobs = [], rd_sets = (\<lambda>z. if z = Pending then [(''a'', job_score 1 5), (''b'', job_score 3 9)] else [])\<rparr>"

theorem highest_priority_first_witness:
  "fst (run_prog getNextJob (\<lambda>_. 1700000000000) (\<lambda>_. Inr JNull) 0 two_jobs) = Inr (Some ''b'')
   \<and> (if ''a'' = ''b'' then 3 else 1) \<le> (3 :: int)"
proof -
  have r: "fst (run_prog getNextJob (\<lambda>_. 1700000000000) (\<lambda>_. Inr JNull) 0 two_jobs) = Inr (Some ''b'')"
    by (simp add: prog_defs two_jobs_def zfirst_def always_due job_score_def LEVEL_STEP_def)
  show ?thesis
    using highest_priority_first [of "\<lambda>_. 1700000000000" two_jobs "\<lambda>k. if k = ''b'' then 3 else 1" "\<lambda>k. if k = ''b'' then 9 else 5"
        "\<lambda>_. Inr JNull" 0 "''b''" "''a''"] r
    by (simp add: two_jobs_def jm_keys_def)
qed

section \<open>One worker: every job is in one place\<close>

definition lies_in :: "redis \<Rightarrow> string \<Rightarrow> zset \<Rightarrow> bool" where
  "lies_in s i z = jm_has (rd_sets s z) i"

definition one_place :: "redis \<Rightarrow> bool" where
  "one_place s \<longleftrightarrow> (\<forall>z. jm_wf (rd_sets s z)) \<and> (\<forall>i z z'. lies_in s i z \<and> lies_in s i z' \<longrightarrow> z = z')"

definition known :: "redis \<Rightarrow> string \<Rightarrow> bool" where
  "known s i \<longleftrightarrow> (\<exists>z. lies_in s i z)"

text \<open>Moving a job from one set to another.\<close>

definition move :: "string \<Rightarrow> zset \<Rightarrow> zset \<Rightarrow> rat \<Rightarrow> redis \<Rightarrow> redis" where
  "move i z z' sc s = set_of z' (jm_set i sc) (set_of z (jm_delete i) s)"

lemma lies_in_jobs [simp]: "lies_in (s\<lparr>rd_jobs := x\<rparr>) i z = lies_in s i z"
  by (simp add: lies_in_def)

lemma one_place_jobs [simp]: "one_place (s\<lparr>rd_jobs := x\<rparr>) = one_place s"
  by (simp add: one_place_def)

lemma known_jobs [simp]: "known (s\<lparr>rd_jobs := x\<rparr>) i = known s i"
  by (simp add: known_def)

lemma lies_in_move: "z \<noteq> z' \<Longrightarrow> lies_in (move i z z' sc s) k y \<longleftrightarrow> (if k = i \<and> y = z then False else if k = i \<and> y = z' then True else lies_in s k y)"
  by (auto simp: lies_in_def move_def set_of_def jm_has_def)

lemma one_placeD: "one_place s \<Longrightarrow> lies_in s i z \<Longrightarrow> lies_in s i z' \<Longrightarrow> z = z'"
  unfolding one_place_def by iprover

lemma one_place_wf: "one_place s \<Longrightarrow> jm_wf (rd_sets s z)"
  unfolding one_place_def by iprover

lemma one_placeI:
  "(\<And>z. jm_wf (rd_sets s z)) \<Longrightarrow> (\<And>i z z'. lies_in s i z \<Longrightarrow> lies_in s i z' \<Longrightarrow> z = z') \<Longrightarrow> one_place s"
  unfolding one_place_def by iprover

lemma move_one_place:
  assumes "one_place s" "lies_in s i z" "z \<noteq> z'"
  shows "one_place (move i z z' sc s)"
proof (rule one_placeI)
  show "jm_wf (rd_sets (move i z z' sc s) y)" for y
    using one_place_wf [OF assms(1)] by (simp add: move_def set_of_def)
next
  fix k y y' assume k: "lies_in (move i z z' sc s) k y" "lies_in (move i z z' sc s) k y'"
  show "y = y'"
  proof (cases "k = i")
    case True
    have "x = z'" if "lies_in (move i z z' sc s) i x" for x
      using that one_placeD [OF assms(1,2), of x] unfolding lies_in_move [OF assms(3)] by metis
    from this [of y] this [of y'] k True show ?thesis by metis
  next
    case False
    with k have "lies_in s k y" "lies_in s k y'" by (simp_all add: lies_in_move [OF assms(3)])
    then show ?thesis by (rule one_placeD [OF assms(1)])
  qed
qed

lemma move_known:
  assumes "lies_in s i z" "z \<noteq> z'"
  shows "known (move i z z' sc s) k = known s k"
proof (cases "k = i")
  case True
  have "lies_in (move i z z' sc s) i z'" using assms(2) by (simp add: lies_in_move)
  with assms(1) True show ?thesis unfolding known_def by metis
next
  case False
  then show ?thesis by (simp add: known_def lies_in_move [OF assms(2)])
qed

lemma moved: "set_of z' (jm_set i sc) (set_of z (jm_delete i) s) = move i z z' sc s"
  by (simp add: move_def)

text \<open>The four ends of a job.\<close>

definition put :: "string \<Rightarrow> job \<Rightarrow> redis \<Rightarrow> redis" where
  "put i j s = s\<lparr>rd_jobs := jm_set i (j, None) (rd_jobs s)\<rparr>"

definition stored :: "int \<Rightarrow> redis \<Rightarrow> string \<Rightarrow> job option" where
  "stored now s i = (case jm_get (rd_jobs s) i of
     Some (j, Some e) \<Rightarrow> if now < e then Some j else None | Some (j, None) \<Rightarrow> Some j | None \<Rightarrow> None)"

lemma redis_do_GET: "redis_do now (GET i) s = (Stored (stored now s i), s)"
  by (simp add: stored_def)

lemma redis_do_SET: "redis_do now (SET i j None) s = (Done, put i j s)"
  by (simp add: put_def)

lemma stored_put [simp]: "stored now (put i j s) k = (if k = i then Some j else stored now s k)"
  by (simp add: stored_def put_def)

lemma put_put [simp]: "put i j (put i j' s) = put i j s"
proof -
  have "jm_set i x (jm_set i y m) = jm_set i x m" for x y and m :: "(string, job \<times> int option) jsmap"
    by (induction i y m rule: jm_set.induct) auto
  then show ?thesis by (simp add: put_def)
qed

lemma stored_set [simp]: "stored now (set_of z f s) i = stored now s i"
  by (simp add: stored_def set_of_def)

definition attempt :: "int \<Rightarrow> job \<Rightarrow> job" where
  "attempt now j = j\<lparr>j_status := InProcess, j_updatedAt := now, j_attempts := j_attempts j + 1\<rparr>"

lemmas job_run = prog_defs moved redis_do_GET redis_do_SET attempt_def Let_def

lemma processJob_gone:
  "stored (clock n) s i = None \<Longrightarrow> run_prog (processJob cfg i) clock outcome n s = (Inr (), n + 1, s, [])"
  by (simp add: job_run del: redis_do.simps(3))

lemma processJob_no_handler:
  "stored (clock n) s i = Some j \<Longrightarrow> stored (clock (n + 1)) s i = Some j \<Longrightarrow> j_type j \<notin> set (jq_handlers cfg) \<Longrightarrow>
   run_prog (processJob cfg i) clock outcome n s = (Inr (), n + 5, move i Processing Failed (of_int (clock (n + 1)))
     (put i (j\<lparr>j_status := JobFailed, j_updatedAt := clock (n + 1), j_error := Some ''No handler registered''\<rparr>) s), [])"
  by (simp add: job_run del: redis_do.simps(2,3))

lemma processJob_no_handler_gone:
  "stored (clock n) s i = Some j \<Longrightarrow> stored (clock (n + 1)) s i = None \<Longrightarrow> j_type j \<notin> set (jq_handlers cfg) \<Longrightarrow>
   run_prog (processJob cfg i) clock outcome n s = (Inr (), n + 2, s, [])"
  by (simp add: job_run eval_nat_numeral del: redis_do.simps(2,3))

lemma processJob_completes:
  "stored (clock n) s i = Some j \<Longrightarrow> j_type j \<in> set (jq_handlers cfg) \<Longrightarrow> outcome (n + 2) = Inr v \<Longrightarrow>
   run_prog (processJob cfg i) clock outcome n s = (Inr (), n + 6, move i Processing Completed (of_int (clock (n + 2)))
     (put i ((attempt (clock n) j)\<lparr>j_status := JobDone, j_result := Some v, j_completedAt := Some (clock (n + 2)), j_updatedAt := clock (n + 2)\<rparr>) s),
     [attempt (clock n) j])"
  by (simp add: job_run eval_nat_numeral del: redis_do.simps(2,3))

lemma processJob_retries:
  "stored (clock n) s i = Some j \<Longrightarrow> j_type j \<in> set (jq_handlers cfg) \<Longrightarrow> outcome (n + 2) = Inl err \<Longrightarrow> j_attempts j + 1 < j_maxAttempts j \<Longrightarrow>
   run_prog (processJob cfg i) clock outcome n s = (Inr (), n + 7,
     move i Processing Pending (job_score (j_priority j) (of_int (clock (n + 3)) + backoff cfg (j_attempts j + 1)))
       (put i ((attempt (clock n) j)\<lparr>j_status := Delayed, j_lastError := Some (err_message err), j_updatedAt := clock (n + 3)\<rparr>) s),
     [attempt (clock n) j])"
  by (simp add: job_run eval_nat_numeral del: redis_do.simps(2,3))

lemma processJob_fails:
  "stored (clock n) s i = Some j \<Longrightarrow> j_type j \<in> set (jq_handlers cfg) \<Longrightarrow> outcome (n + 2) = Inl err \<Longrightarrow> \<not> j_attempts j + 1 < j_maxAttempts j \<Longrightarrow>
   run_prog (processJob cfg i) clock outcome n s = (Inr (), n + 8, move i Processing Failed (of_int (clock (n + 4)))
     (put i ((attempt (clock n) j)\<lparr>j_status := JobFailed, j_updatedAt := clock (n + 4), j_error := Some (err_message err)\<rparr>) s),
     [attempt (clock n) j])"
  by (simp add: job_run eval_nat_numeral del: redis_do.simps(2,3))

lemma put_place [simp]: "one_place (put i j s) = one_place s" "known (put i j s) k = known s k" "lies_in (put i j s) k z = lies_in s k z"
  by (simp_all add: put_def)

lemma processJob_place:
  assumes "one_place s" "lies_in s i Processing" "run_prog (processJob cfg i) clock outcome n s = (r, n', s', js)"
  shows "r = Inr () \<and> one_place s' \<and> (\<forall>k. known s' k = known s k) \<and> length js \<le> 1"
proof (cases "stored (clock n) s i")
  case None
  with assms processJob_gone [where clock = clock and n = n, OF None] show ?thesis by auto
next
  case (Some j)
  note m = move_one_place [of "put i x s" i Processing for x] move_known [of "put i x s" i Processing for x]
  show ?thesis
  proof (cases "j_type j \<in> set (jq_handlers cfg)")
    case False
    show ?thesis
    proof (cases "stored (clock (n + 1)) s i")
      case None
      with processJob_no_handler_gone [where clock = clock and n = n, OF Some None False] assms(1-3) show ?thesis by auto
    next
      case again: (Some j')
      have "j' = j" using Some again by (auto simp: stored_def split: option.splits if_splits)
      with processJob_no_handler [where clock = clock and n = n, OF Some _ False] again assms(1-3) show ?thesis by (auto simp: m)
    qed
  next
    case h: True
    show ?thesis
    proof (cases "outcome (n + 2)")
      case (Inr v)
      with processJob_completes [where clock = clock and n = n and outcome = outcome, OF Some h Inr] assms(1-3) show ?thesis by (auto simp: m)
    next
      case (Inl err)
      with processJob_retries [where clock = clock and n = n and outcome = outcome, OF Some h Inl] processJob_fails [where clock = clock and n = n and outcome = outcome, OF Some h Inl] assms(1-3) show ?thesis
        by (cases "j_attempts j + 1 < j_maxAttempts j") (auto simp: m)
    qed
  qed
qed

lemma run_pbind:
  "run_prog (pbind p f) clock outcome n s = (case run_prog p clock outcome n s of
     (Inl e, n', s', js) \<Rightarrow> (Inl e, n', s', js)
   | (Inr x, n', s', js) \<Rightarrow> (case run_prog (f x) clock outcome n' s' of (r, n'', s'', js') \<Rightarrow> (r, n'', s'', js @ js')))"
proof (induction p arbitrary: n s)
  case (Ret r)
  then show ?case by (cases r) (auto split: prod.splits)
next
  case (Issue c k)
  note IH = Issue.IH [OF rangeI rangeI]
  show ?case by (auto simp: IH split: prod.splits)
next
  case (Call j k)
  note IH = Call.IH [OF rangeI rangeI]
  show ?case by (auto simp: IH split: prod.splits sum.splits)
qed

lemma run_pcatch:
  "run_prog (pcatch p h) clock outcome n s = (case run_prog p clock outcome n s of
     (Inr x, n', s', js) \<Rightarrow> (Inr x, n', s', js)
   | (Inl e, n', s', js) \<Rightarrow> (case run_prog (h e) clock outcome n' s' of (r, n'', s'', js') \<Rightarrow> (r, n'', s'', js @ js')))"
proof (induction p arbitrary: n s)
  case (Ret r)
  then show ?case by (cases r) (auto split: prod.splits)
next
  case (Issue c k)
  note IH = Issue.IH [OF rangeI rangeI]
  show ?case by (auto simp: IH split: prod.splits)
next
  case (Call j k)
  note IH = Call.IH [OF rangeI rangeI]
  show ?case by (auto simp: IH split: prod.splits sum.splits)
qed

lemma worker_round_place:
  assumes "one_place s" "run_prog (worker_round cfg) clock outcome n s = (r, n', s', js)"
  shows "r = Inr () \<and> one_place s' \<and> (\<forall>k. known s' k = known s k) \<and> length js \<le> 1"
proof (cases "zfirst (rd_sets s Pending)")
  case None
  with getNextJob_empty [where s = s and n = n and clock = clock and outcome = outcome] assms show ?thesis
    by (simp add: worker_round_def run_pcatch run_pbind zfirst_None finish_def)
next
  case (Some e)
  obtain i sc where e: "e = (i, sc)" by (cases e)
  note z = Some [unfolded e]
  have pend: "lies_in s i Pending"
    using zfirst_mem [OF z] by (auto simp: lies_in_def jm_has_iff jm_keys_def intro: rev_image_eqI)
  show ?thesis
  proof (cases "due sc (clock n)")
    case False
    with getNextJob_takes [OF z, where n = n and clock = clock and outcome = outcome] assms show ?thesis
      by (simp add: worker_round_def run_pcatch run_pbind finish_def)
  next
    case True
    let ?s1 = "move i Pending Processing (of_int (clock n)) s"
    obtain r1 n1 s2 js1 where p: "run_prog (processJob cfg i) clock outcome (n + 4) ?s1 = (r1, n1, s2, js1)"
      by (metis prod_cases4)
    have s1: "one_place ?s1" "lies_in ?s1 i Processing" "\<And>k. known ?s1 k = known s k"
      using move_one_place [OF assms(1) pend] move_known [OF pend] by (auto simp: lies_in_move)
    from processJob_place [OF s1(1,2) p]
    have p1: "r1 = Inr ()" "one_place s2" "\<And>k. known s2 k = known s k" "length js1 \<le> 1" by (auto simp: s1(3))
    have "run_prog (worker_round cfg) clock outcome n s = (Inr (), n1, s2, js1)"
      using getNextJob_takes [OF z, where n = n and clock = clock and outcome = outcome] True p p1(1)
      by (simp add: worker_round_def run_pcatch run_pbind moved)
    with p1 assms(2) show ?thesis by auto
  qed
qed

lemma addJob_place:
  assumes "one_place s" "\<not> known s i" "run_prog (addJob cfg fresh ctx ty dat opts) clock outcome n s = (Inr i, n', s', js)"
  shows "one_place s' \<and> (\<forall>k. known s' k \<longleftrightarrow> known s k \<or> k = i)"
proof -
  obtain sc j ttl where s': "s' = set_of Pending (jm_set i sc) (s\<lparr>rd_jobs := jm_set i (j, ttl) (rd_jobs s)\<rparr>)"
    using assms(3) by (auto simp: addJob_def prog_defs Let_def)
  have l: "lies_in s' k z \<longleftrightarrow> lies_in s k z \<or> (k = i \<and> z = Pending)" for k z
    by (auto simp: s' lies_in_def set_of_def jm_has_def)
  have "one_place s'"
  proof (rule one_placeI)
    show "jm_wf (rd_sets s' z)" for z
      using one_place_wf [OF assms(1)] by (simp add: s' set_of_def)
    fix k z z' assume "lies_in s' k z" "lies_in s' k z'"
    moreover have "\<not> lies_in s i y" for y using assms(2) by (auto simp: known_def)
    ultimately show "z = z'" unfolding l using one_placeD [OF assms(1), of k z z'] by metis
  qed
  moreover have "known s' k \<longleftrightarrow> known s k \<or> k = i" for k by (auto simp: known_def l)
  ultimately show ?thesis by blast
qed

text \<open>Histories of one worker: jobs are added under new identifiers and the worker makes its rounds.\<close>

datatype queue_event = Added string | Round

inductive queue_step :: "queue_config \<Rightarrow> redis \<Rightarrow> queue_event \<Rightarrow> redis \<Rightarrow> bool" for cfg where
  qs_added: "\<not> known s i \<Longrightarrow> run_prog (addJob cfg fresh ctx ty dat opts) clock outcome n s = (Inr i, n', s', js) \<Longrightarrow>
    queue_step cfg s (Added i) s'"
| qs_round: "run_prog (worker_round cfg) clock outcome n s = (r, n', s', js) \<Longrightarrow> queue_step cfg s Round s'"

inductive_cases queue_stepE: "queue_step cfg s e s'"

lemma empty_one_place: "one_place empty_redis" "\<not> known empty_redis i"
  by (simp_all add: one_place_def known_def lies_in_def empty_redis_def jm_has_def)

interpretation one_worker: machine "\<lambda>s. s = empty_redis" "queue_step cfg" one_place
proof
  fix s e s'
  assume "one_place s" "queue_step cfg s e s'"
  then show "one_place s'"
    by (auto elim!: queue_stepE dest: addJob_place worker_round_place)
qed (simp add: empty_one_place)

lemma queue_step_known:
  "queue_step cfg s e s' \<Longrightarrow> one_place s \<Longrightarrow> known s' i \<longleftrightarrow> known s i \<or> e = Added i"
  by (auto elim!: queue_stepE dest: addJob_place worker_round_place)



section \<open>Retries\<close>

primrec rounds :: "queue_config \<Rightarrow> (nat \<Rightarrow> int) \<Rightarrow> (nat \<Rightarrow> thrown + jv) \<Rightarrow> nat \<Rightarrow> nat \<Rightarrow> redis \<Rightarrow> redis \<times> job list" where
  "rounds cfg clock outcome 0 n s = (s, [])"
| "rounds cfg clock outcome (Suc k) n s = (case run_prog (worker_round cfg) clock outcome n s of (_, n', s', js) \<Rightarrow>
     (case rounds cfg clock outcome k n' s' of (s'', js') \<Rightarrow> (s'', js @ js')))"

lemma zfirst_single: "zfirst [(i, sc)] = Some (i, sc)"
  by (simp add: zfirst_def)

lemma failing_round:
  assumes "\<And>m. 10 ^ 10 \<le> clock m" "\<And>m. outcome m = Inl err" "rd_sets s Pending = [(i, sc)]"
    and "\<And>t. stored t s i = Some j" "j_type j \<in> set (jq_handlers cfg)"
  shows "run_prog (worker_round cfg) clock outcome n s = (if j_attempts j + 1 < j_maxAttempts j
    then (Inr (), n + 11, move i Processing Pending (job_score (j_priority j) (of_int (clock (n + 7)) + backoff cfg (j_attempts j + 1)))
       (put i ((attempt (clock (n + 4)) j)\<lparr>j_status := Delayed, j_lastError := Some (err_message err), j_updatedAt := clock (n + 7)\<rparr>)
         (move i Pending Processing (of_int (clock n)) s)), [attempt (clock (n + 4)) j])
    else (Inr (), n + 12, move i Processing Failed (of_int (clock (n + 8)))
       (put i ((attempt (clock (n + 4)) j)\<lparr>j_status := JobFailed, j_updatedAt := clock (n + 8), j_error := Some (err_message err)\<rparr>)
         (move i Pending Processing (of_int (clock n)) s)), [attempt (clock (n + 4)) j]))"
proof -
  have "stored t (move i Pending Processing x s) i = Some j" for t x
    using assms(4) by (simp add: move_def)
  note p = processJob_retries [where clock = clock and n = "n + 4" and outcome = outcome, OF this assms(5) assms(2)]
    processJob_fails [where clock = clock and n = "n + 4" and outcome = outcome, OF this assms(5) assms(2)]
  show ?thesis
    using getNextJob_run [where clock = clock and n = n and outcome = outcome, OF assms(1)] assms(3) p
    by (simp add: zfirst_single worker_round_def run_pcatch run_pbind moved eval_nat_numeral)
qed

lemma stored_move [simp]: "stored t (move i z z' sc s) k = stored t s k"
  by (simp add: move_def)

lemma move_sets:
  "rd_sets (move i z z' sc s) y = (if y = z' then jm_set i sc (if z' = z then jm_delete i (rd_sets s z) else rd_sets s z')
     else if y = z then jm_delete i (rd_sets s z) else rd_sets s y)"
  by (simp add: move_def set_of_def)

lemma put_sets [simp]: "rd_sets (put i j s) = rd_sets s"
  by (simp add: put_def)

lemma attempt_fields [simp]: "j_attempts (attempt t j) = Suc (j_attempts j)" "j_maxAttempts (attempt t j) = j_maxAttempts j"
  "j_type (attempt t j) = j_type j"
  by (simp_all add: attempt_def)

lemma upt_shift: "a < b \<Longrightarrow> [a..<b] = a # [Suc a..<b]"
  by (rule upt_conv_Cons)

lemma failing_rounds:
  assumes "\<And>m. 10 ^ 10 \<le> clock m" "\<And>m. outcome m = Inl err" "rd_sets s Pending = [(i, sc)]"
    "\<And>t. stored t s i = Some j" "j_type j \<in> set (jq_handlers cfg)" "0 < k" "j_attempts j + k \<le> j_maxAttempts j"
    "rounds cfg clock outcome k n s = (s', js)"
  shows "map j_attempts js = [j_attempts j + 1..<j_attempts j + k + 1] \<and>
    (\<exists>j'. (\<forall>t. stored t s' i = Some j') \<and> j_attempts j' = j_attempts j + k \<and>
      (if j_attempts j + k < j_maxAttempts j
       then (\<exists>sc'. rd_sets s' Pending = [(i, sc')]) \<and> j_status j' = Delayed
       else rd_sets s' Pending = [] \<and> lies_in s' i Failed \<and> j_status j' = JobFailed \<and> j_error j' = Some (err_message err)))"
  using assms(3-8)
proof (induction k arbitrary: n s sc j js)
  case (Suc k)
  note r = failing_round [where clock = clock and outcome = outcome and n = n, OF assms(1,2) Suc.prems(1,2,3)]
  show ?case
  proof (cases "j_attempts j + 1 < j_maxAttempts j")
    case True
    define sc1 where "sc1 = job_score (j_priority j) (of_int (clock (n + 7)) + backoff cfg (j_attempts j + 1))"
    define j1 where "j1 = (attempt (clock (n + 4)) j)\<lparr>j_status := Delayed, j_lastError := Some (err_message err), j_updatedAt := clock (n + 7)\<rparr>"
    define s1 where "s1 = move i Processing Pending sc1 (put i j1 (move i Pending Processing (of_int (clock n)) s))"
    from r True have r1: "run_prog (worker_round cfg) clock outcome n s = (Inr (), n + 11, s1, [attempt (clock (n + 4)) j])"
      by (simp add: s1_def j1_def sc1_def)
    have s1: "rd_sets s1 Pending = [(i, sc1)]" "\<And>t. stored t s1 i = Some j1"
      using Suc.prems(1) by (simp_all add: s1_def move_sets jm_delete_def)
    have j1: "j_type j1 \<in> set (jq_handlers cfg)" "j_attempts j1 = j_attempts j + 1" "j_maxAttempts j1 = j_maxAttempts j"
      "j_lastError j1 = Some (err_message err)" "j_status j1 = Delayed"
      using Suc.prems(3) by (simp_all add: j1_def)
    obtain js1 where js: "rounds cfg clock outcome k (n + 11) s1 = (s', js1)" "js = attempt (clock (n + 4)) j # js1"
      using Suc.prems(6) r1 by (auto split: prod.splits)
    show ?thesis
    proof (cases "k = 0")
      case True
      then show ?thesis using js s1 j1 \<open>j_attempts j + 1 < j_maxAttempts j\<close> by (simp split: if_splits)
    next
      case False
      then have "0 < k" "j_attempts j1 + k \<le> j_maxAttempts j1" using Suc.prems(5) j1 by auto
      from Suc.IH [OF s1 j1(1) this js(1)] False js(2) show ?thesis
        by (auto simp: j1 upt_shift [of "Suc (j_attempts j)"])
    qed
  next
    case False
    then have k: "k = 0" "j_attempts j + 1 = j_maxAttempts j" using Suc.prems(5) by auto
    with r False Suc.prems(6) show ?thesis
      using Suc.prems(1) by (auto simp: move_sets jm_delete_def lies_in_move attempt_def)
  qed
qed simp

text \<open>
  A job whose handler always fails runs once per round of the worker, with attempt numbers 1, 2, 3 and so on; while it
  has attempts left it is pending again after each, and with its last attempt it has failed with the handler's error.
\<close>

theorem failing_job_runs_maxAttempts_times:
  assumes "\<And>m. 10 ^ 10 \<le> clock m" "\<And>m. outcome m = Inl err" "rd_sets s Pending = [(i, sc)]"
    "\<And>t. stored t s i = Some j" "j_type j \<in> set (jq_handlers cfg)" "j_attempts j = 0" "0 < k" "k \<le> j_maxAttempts j"
    "rounds cfg clock outcome k n s = (s', js)"
  shows "map j_attempts js = [1..<k + 1] \<and>
    (\<exists>j'. (\<forall>t. stored t s' i = Some j') \<and> j_attempts j' = k \<and>
      (if k < j_maxAttempts j then (\<exists>sc'. rd_sets s' Pending = [(i, sc')]) \<and> j_status j' = Delayed
       else rd_sets s' Pending = [] \<and> lies_in s' i Failed \<and> j_status j' = JobFailed \<and> j_error j' = Some (err_message err)))"
  using failing_rounds [OF assms(1-5,7) _ assms(9)] assms(6,8) by auto

definition the_job :: job where
  "the_job = (new_job plain_queue 0 ''j'' ''issue'' JNull [] (delayed_by 0))\<lparr>j_maxAttempts := 2\<rparr>"

definition one_job :: redis where
  "one_job = put ''j'' the_job (set_of Pending (jm_set ''j'' 0) empty_redis)"

theorem failing_job_runs_maxAttempts_times_witness:
  "\<exists>s js. rounds plain_queue (\<lambda>_. 1700000000000) (\<lambda>_. Inl (error_class ''down'')) 2 0 one_job = (s, js)
     \<and> map j_attempts js = [1, 2] \<and> lies_in s ''j'' Failed"
proof -
  obtain s js where r: "rounds plain_queue (\<lambda>_. 1700000000000) (\<lambda>_. Inl (error_class ''down'')) 2 0 one_job = (s, js)"
    by fastforce
  have q: "rd_sets one_job Pending = [(''j'', 0)]" by (simp add: one_job_def set_of_def empty_redis_def)
  have "map j_attempts js = [1..<2 + 1] \<and> lies_in s ''j'' Failed"
    using failing_job_runs_maxAttempts_times [where clock = "\<lambda>_. 1700000000000" and outcome = "\<lambda>_. Inl (error_class ''down'')"
        and j = the_job and k = 2, OF _ _ q _ _ _ _ _ r]
    by (auto simp: one_job_def the_job_def new_job_def plain_queue_def)
  with r show ?thesis by (auto simp: upt_rec)
qed

section \<open>Two workers\<close>

text \<open>
  Two workers can run the same job at the same time: when both are between rounds, a job is pending and no other
  worker interferes, the commands of the two can interleave so that the handler is called twice with the job, both times
  with the same attempt number. Between reading the first pending job and removing it nothing stops another worker, and
  the answer of the removal is not looked at.
\<close>

theorem two_workers_run_the_same_job:
  assumes "a \<noteq> b" "a < length (wk_progs s)" "b < length (wk_progs s)" "wk_progs s ! a = Ret x" "wk_progs s ! b = Ret y"
    and "10 ^ 10 \<le> t" "zfirst (rd_sets (wk_redis s) Pending) = Some (i, sc)"
    and "stored t (wk_redis s) i = Some j" "j_type j \<in> set (jq_handlers cfg)"
  shows "\<exists>es s'. exec (workers_step cfg) s es s' \<and> wk_calls s' = wk_calls s @ [(a, attempt t j), (b, attempt t j)]"
proof -
  let ?es = "[NextRound a, NextRound b, Answered a t, Answered b t, Answered a t, Answered b t, Answered a t, Answered b t,
    Answered a t, Answered b t, Answered a t, Answered b t, Answered a t, Answered b t, Returned a t (Inr JNull), Returned b t (Inr JNull)]"
  have "\<exists>s'. exec (workers_step cfg) s ?es s' \<and> wk_calls s' = wk_calls s @ [(a, attempt t j), (b, attempt t j)]"
    using assms(1-5,7-9) always_due [OF assms(6)]
    by (simp add: workers_step_do job_run nth_list_update del: redis_do.simps(2,3))
  then show ?thesis by blast
qed

theorem two_workers_run_the_same_job_witness:
  "\<exists>es s'. exec (workers_step plain_queue) \<lparr>wk_redis = one_job, wk_progs = [finish, finish], wk_calls = []\<rparr> es s'
     \<and> wk_calls s' = [(0, attempt 1700000000000 the_job), (1, attempt 1700000000000 the_job)]"
  using two_workers_run_the_same_job [of 0 1 "\<lparr>wk_redis = one_job, wk_progs = [finish, finish], wk_calls = []\<rparr>" "Inr ()" "Inr ()"
      1700000000000 "''j''" 0 the_job plain_queue]
  by (simp add: finish_def one_job_def set_of_def empty_redis_def zfirst_single the_job_def new_job_def plain_queue_def)

end
