(* ===== verification/JsObject.thy ===== *)
theory JsObject
  imports JsValue
begin

text \<open>
  JavaScript objects with the operations the server code uses on them: reading a field, spreading an object into another,
  \<open>||\<close> and \<open>?.\<close>. Strings and arrays, whose spreading gives index keys, are not spread in the modelled code.
\<close>

type_synonym js_object = "(string, jv) jsmap"

definition fld :: "js_object \<Rightarrow> string \<Rightarrow> jv" where
  "fld m k = (case jm_get m k of Some v \<Rightarrow> v | None \<Rightarrow> JUndef)"

text \<open>\<open>...v\<close> in an object literal, for an object; other values spread nothing.\<close>

definition spread_into :: "jv \<Rightarrow> js_object \<Rightarrow> js_object" where
  "spread_into v m = (case v of JObj n \<Rightarrow> fold (\<lambda>(k, x). jm_set k x) n m | _ \<Rightarrow> m)"

text \<open>\<open>a || b\<close>, and \<open>v?.k\<close>\<close>

definition js_or :: "jv \<Rightarrow> jv \<Rightarrow> jv" where
  "js_or a b = (if js_truthy a then a else b)"

definition opt_prop :: "jv \<Rightarrow> string \<Rightarrow> jv" where
  "opt_prop v k = (case v of JObj m \<Rightarrow> fld m k | _ \<Rightarrow> JUndef)"

lemma fld_set [simp]: "fld (jm_set k v m) k' = (if k' = k then v else fld m k')"
  by (simp add: fld_def)

definition has_key :: "jv \<Rightarrow> string \<Rightarrow> bool" where
  "has_key v k = (case v of JObj n \<Rightarrow> jm_has n k | _ \<Rightarrow> False)"

lemma fld_fold_set: "k \<notin> fst ` set n \<Longrightarrow> fld (fold (\<lambda>(k, x). jm_set k x) n m) k = fld m k"
  by (induction n arbitrary: m) auto

lemma fld_spread: "\<not> has_key v k \<Longrightarrow> fld (spread_into v m) k = fld m k"
  by (cases v) (auto simp: spread_into_def has_key_def fld_fold_set jm_has_iff jm_keys_def)

lemma spread_object: "jm_wf m \<Longrightarrow> spread_into (JObj m) [] = m"
proof -
  have "jm_wf (n @ m) \<Longrightarrow> fold (\<lambda>(k, x). jm_set k x) m n = n @ m" for n
  proof (induction m arbitrary: n)
    case (Cons kv m)
    obtain k x where kv: "kv = (k, x)" by fastforce
    have "jm_set k x n = n @ [(k, x)]"
      using Cons.prems by (induction n) (auto simp: kv jm_wf_def)
    with Cons.IH [of "n @ [(k, x)]"] Cons.prems show ?case by (simp add: kv)
  qed simp
  from this [of "[]"] show "jm_wf m \<Longrightarrow> spread_into (JObj m) [] = m" by (simp add: spread_into_def)
qed

end
