(* ===== verification/EventLog.thy ===== *)
theory EventLog
  imports ContractArgs Machine IsoDate Jcs JsObject "HOL-Library.Multiset" "HOL-Library.List_Lexorder" "HOL-Library.Char_ord"
begin

text \<open>
  Models the event sourcing of the server, \<open>server/src/events/\<close>: \<open>event-schema.js\<close> (events, their validation and the
  upcasting of old versions), \<open>event-store.js\<close> (the append-only log with snapshots and retention) and \<open>event-replay.js\<close>
  (replay and projections).

  An event is a JavaScript object, so that spreading and upcasting read as in the code. A log file is a list of lines; a
  line is the event its JSON text denotes, or a corrupted line. Versions are numbers, payloads and metadata objects where
  they are present, dates as \<open>IsoDate\<close> says. The listeners of the event emitter and the live subscribers are not
  modelled; nothing they do flows back.
\<close>

text \<open>\<open>new Date(v)\<close>, from 1970 on; \<open>before\<close> is \<open><\<close> of two dates, which an invalid one makes false.\<close>

definition date_of :: "jv \<Rightarrow> nat option" where
  "date_of v = (case v of JStr s \<Rightarrow> date_parse s | JNum q \<Rightarrow> if 0 \<le> q then Some (nat \<lfloor>q\<rfloor>) else None | JNull \<Rightarrow> Some 0 | _ \<Rightarrow> None)"

definition before :: "jv \<Rightarrow> jv \<Rightarrow> bool" where
  "before v w = (case (date_of v, date_of w) of (Some a, Some b) \<Rightarrow> a < b | _ \<Rightarrow> False)"

section \<open>Events\<close>

definition EventTypes :: "string list" where
  "EventTypes = [''CredentialIssued'', ''CredentialRevoked'', ''CredentialSuspended'', ''CredentialRenewed'', ''CredentialVerified'',
     ''DIDCreated'', ''DIDUpdated'', ''DIDDeactivated'', ''ReputationUpdated'', ''TenantCreated'', ''TenantUpdated'']"

definition CredentialEventTypes :: "string list" where
  "CredentialEventTypes = [''CredentialIssued'', ''CredentialRevoked'', ''CredentialSuspended'', ''CredentialRenewed'', ''CredentialVerified'']"

definition CURRENT_EVENT_SCHEMA_VERSION :: rat where
  "CURRENT_EVENT_SCHEMA_VERSION = 2"

definition required_fields :: "string \<Rightarrow> string list" where
  "required_fields ty = (if ty = ''CredentialIssued'' then [''credentialId'', ''subject'', ''issuer'']
     else if ty \<in> set CredentialEventTypes then [''credentialId''] else [])"

text \<open>\<open>type.replace(/(Created|Issued|Revoked|Updated|Deactivated)/, '')\<close>\<close>

fun strip_verb :: "string \<Rightarrow> string" where
  "strip_verb [] = []"
| "strip_verb (c # s) = (case find (starts_with (c # s)) [''Created'', ''Issued'', ''Revoked'', ''Updated'', ''Deactivated''] of
     Some v \<Rightarrow> drop (length v) (c # s)
   | None \<Rightarrow> c # strip_verb s)"

definition createEvent :: "string \<Rightarrow> nat \<Rightarrow> string \<Rightarrow> string \<Rightarrow> string option \<Rightarrow> js_object \<Rightarrow> js_object \<Rightarrow> string \<Rightarrow> rat
    \<Rightarrow> thrown + js_object" where
  "createEvent uuid now ty aggregateId aggregateType payload metadata tenantId version = (
     if ty = [] then Inl (error_class ''Event type is required'')
     else if aggregateId = [] then Inl (error_class ''Aggregate ID is required'')
     else if ty \<notin> set EventTypes then Inl (error_class (''Unknown event type: '' @ ty))
     else case find (\<lambda>f. nullish (fld payload f)) (required_fields ty) of
       Some f \<Rightarrow> Inl (error_class (''Event '' @ ty @ '' requires payload field: '' @ f))
     | None \<Rightarrow> Inr [(''id'', JStr (''evt_'' @ uuid)), (''type'', JStr ty), (''aggregateId'', JStr aggregateId),
         (''aggregateType'', JStr (case aggregateType of Some (c # s) \<Rightarrow> c # s | _ \<Rightarrow> strip_verb ty)),
         (''tenantId'', JStr (if tenantId = [] then ''default'' else tenantId)), (''version'', JNum version),
         (''timestamp'', JStr (iso_string now)), (''payload'', JObj payload),
         (''metadata'', JObj (spread_into (JObj metadata) [(''traceId'', js_or (fld metadata ''traceId'') JNull),
            (''actor'', js_or (fld metadata ''actor'') (JStr ''system''))]))])"

section \<open>Upcasting\<close>

definition legacy_alias :: "jv \<Rightarrow> string option" where
  "legacy_alias ty = (case ty of JStr s \<Rightarrow> map_of [(''CredentialIssue'', ''CredentialIssued''), (''CredentialRevoke'', ''CredentialRevoked''),
     (''CredentialSuspend'', ''CredentialSuspended''), (''CredentialRenew'', ''CredentialRenewed''),
     (''CredentialVerify'', ''CredentialVerified'')] s | _ \<Rightarrow> None)"

definition meta_with :: "string \<Rightarrow> jv \<Rightarrow> jv \<Rightarrow> jv" where
  "meta_with k v md = (case md of JObj m \<Rightarrow> JObj (jm_set k v m) | _ \<Rightarrow> md)"

definition upcast_metadata :: "js_object \<Rightarrow> js_object" where
  "upcast_metadata u = (let
     md0 = (if js_truthy (fld u ''metadata'') then fld u ''metadata'' else JObj []);
     md1 = (if js_truthy (opt_prop md0 ''actor'') then md0 else meta_with ''actor'' (JStr ''system'') md0);
     md2 = (if opt_prop md1 ''traceId'' = JUndef then meta_with ''traceId'' JNull md1 else md1)
   in jm_set ''metadata'' md2 u)"

definition upcast_type :: "js_object \<Rightarrow> js_object" where
  "upcast_type u = (case legacy_alias (fld u ''type'') of Some t \<Rightarrow> jm_set ''type'' (JStr t) u | None \<Rightarrow> u)"

definition upcast_payload :: "js_object \<Rightarrow> js_object" where
  "upcast_payload u = (if (case fld u ''type'' of JStr t \<Rightarrow> t \<in> set CredentialEventTypes | _ \<Rightarrow> False)
        \<and> js_truthy (fld u ''payload'') \<and> \<not> js_truthy (opt_prop (fld u ''payload'') ''credentialId'') \<and> js_truthy (fld u ''aggregateId'')
      then jm_set ''payload'' (JObj (jm_set ''credentialId'' (fld u ''aggregateId'') (spread_into (fld u ''payload'') []))) u
      else u)"

text \<open>\<open>if (!m.tenantId) m.tenantId = 'default'\<close>\<close>

definition default_field :: "string \<Rightarrow> jv \<Rightarrow> js_object \<Rightarrow> js_object" where
  "default_field k d m = (if js_truthy (fld m k) then m else jm_set k d m)"

definition upcast_1 :: "js_object \<Rightarrow> js_object" where
  "upcast_1 event = upcast_payload (upcast_type (upcast_metadata
     (default_field ''tenantId'' (JStr ''default'') (jm_set ''version'' (JNum 2) event))))"

definition version_of :: "js_object \<Rightarrow> rat option" where
  "version_of e = (case fld e ''version'' of JNum q \<Rightarrow> if q = 0 then None else Some q | _ \<Rightarrow> None)"

definition version_or :: "rat \<Rightarrow> js_object \<Rightarrow> rat" where
  "version_or d e = (case version_of e of Some q \<Rightarrow> q | None \<Rightarrow> d)"

text \<open>The \<open>while\<close> loop. Without an upcaster the version just goes up by one.\<close>

definition next_version :: "rat \<Rightarrow> js_object \<Rightarrow> js_object" where
  "next_version version m = (if version = 1 then upcast_1 m else jm_set ''version'' (JNum (version + 1)) m)"

lemma fld_upcast_metadata [simp]: "k \<noteq> ''metadata'' \<Longrightarrow> fld (upcast_metadata u) k = fld u k"
  by (simp only: upcast_metadata_def Let_def fld_set if_False)

lemma fld_upcast_type [simp]: "k \<noteq> ''type'' \<Longrightarrow> fld (upcast_type u) k = fld u k"
  by (simp only: upcast_type_def fld_set if_False split: option.splits) simp

lemma fld_upcast_payload [simp]: "k \<noteq> ''payload'' \<Longrightarrow> fld (upcast_payload u) k = fld u k"
  by (simp only: upcast_payload_def fld_set if_False if_distrib [of "\<lambda>x. fld x k"] if_cancel)

lemma fld_default_field [simp]: "k \<noteq> k' \<Longrightarrow> fld (default_field k' d u) k = fld u k"
  by (simp only: default_field_def fld_set if_False if_distrib [of "\<lambda>x. fld x k"] if_cancel)

lemma version_upcast [simp]: "fld (upcast_1 m) ''version'' = JNum 2"
  by (simp add: upcast_1_def)

lemma version_next: "0 < v \<Longrightarrow> fld (next_version v m) ''version'' = JNum (v + 1)"
  by (auto simp: next_version_def)

lemma version_next_rank: "\<lceil>2 - version_or (v + 1) (next_version v m)\<rceil> < \<lceil>2 - v\<rceil>"
proof -
  have "version_or (v + 1) (next_version v m) = v + 1"
    by (auto simp: next_version_def version_or_def version_of_def)
  moreover have "\<lceil>2 - (v + 1)\<rceil> < \<lceil>2 - v\<rceil>" by linarith
  ultimately show ?thesis by simp
qed

function migrate_loop :: "rat \<Rightarrow> js_object \<Rightarrow> js_object" where
  "migrate_loop version m = (if version < CURRENT_EVENT_SCHEMA_VERSION
     then migrate_loop (version_or (version + 1) (next_version version m)) (next_version version m)
     else m)"
  by pat_completeness auto
termination
  by (relation "measure (\<lambda>(v, m). nat \<lceil>2 - v\<rceil>)") (simp_all add: CURRENT_EVENT_SCHEMA_VERSION_def version_next_rank)

declare migrate_loop.simps [simp del]

definition migrate :: "js_object \<Rightarrow> js_object" where
  "migrate event = default_field ''version'' (JNum CURRENT_EVENT_SCHEMA_VERSION) (default_field ''metadata'' (JObj [])
     (default_field ''tenantId'' (JStr ''default'') (migrate_loop (version_or 1 event) event)))"


lemma migrate_loop_done: "2 \<le> v \<Longrightarrow> migrate_loop v m = m"
  by (subst migrate_loop.simps) (simp add: CURRENT_EVENT_SCHEMA_VERSION_def)

definition kept_fields :: "string set" where
  "kept_fields = {''id'', ''aggregateId'', ''aggregateType'', ''timestamp'', ''sequence'', ''recordedAt''}"

lemma fld_upcast_1: "k \<in> kept_fields \<Longrightarrow> fld (upcast_1 m) k = fld m k"
  by (auto simp: kept_fields_def upcast_1_def)

lemma fld_migrate_loop: "k \<in> kept_fields \<Longrightarrow> fld (migrate_loop v m) k = fld m k"
proof (induction v m rule: migrate_loop.induct)
  case (1 v m)
  have "fld (next_version v m) k = fld m k"
    using 1(2) by (auto simp: next_version_def fld_upcast_1) (auto simp: kept_fields_def)
  with 1 show ?case
    by (subst migrate_loop.simps) simp
qed

lemma fld_migrate: "k \<in> kept_fields \<Longrightarrow> fld (migrate e) k = fld e k"
  unfolding migrate_def
  by (subst fld_default_field, force simp: kept_fields_def)+ (rule fld_migrate_loop)

lemmas fld_migrate_kept [simp] = fld_migrate [of "''aggregateId''", unfolded kept_fields_def, simplified]
  fld_migrate [of "''timestamp''", unfolded kept_fields_def, simplified]
  fld_migrate [of "''sequence''", unfolded kept_fields_def, simplified]

text \<open>After the loop the version is a number, and a current one.\<close>

lemma migrate_loop_version:
  assumes "version_or 1 m = v"
  shows "\<exists>w\<ge>2. fld (migrate_loop v m) ''version'' = JNum w"
  using assms
proof (induction v m rule: migrate_loop.induct)
  case (1 v m)
  let ?n = "next_version v m" and ?w = "version_or (v + 1) (next_version v m)"
  show ?case
  proof (cases "v < 2")
    case True
    have n: "fld ?n ''version'' = JNum (v + 1)" by (simp add: next_version_def)
    show ?thesis
    proof (cases "v + 1 = 0")
      case True
      then have w: "?w = 0" "migrate_loop ?w ?n = migrate_loop 1 (next_version 0 ?n)"
        by (auto simp: version_or_def version_of_def n) (subst migrate_loop.simps, simp add: next_version_def CURRENT_EVENT_SCHEMA_VERSION_def
          version_or_def version_of_def)
      have "migrate_loop 1 (next_version 0 ?n) = upcast_1 (next_version 0 ?n)"
        by (subst migrate_loop.simps)
          (simp add: CURRENT_EVENT_SCHEMA_VERSION_def version_or_def version_of_def next_version_def [of 1] migrate_loop_done)
      with w True \<open>v < 2\<close> show ?thesis
        by (subst migrate_loop.simps) (simp add: CURRENT_EVENT_SCHEMA_VERSION_def)
    next
      case False
      then have "version_or 1 ?n = ?w" by (simp add: version_or_def version_of_def n)
      then show ?thesis
        using 1(1) True by (subst migrate_loop.simps) (simp add: CURRENT_EVENT_SCHEMA_VERSION_def)
    qed
  next
    case False
    then have "fld m ''version'' = JNum v"
      using 1(2) by (auto simp: version_or_def version_of_def split: jv.splits if_splits option.splits)
    with False show ?thesis by (simp add: migrate_loop_done)
  qed
qed

lemma default_field_id: "js_truthy (fld m k) \<Longrightarrow> default_field k d m = m"
  by (simp add: default_field_def)

lemma fld_default_same: "js_truthy d \<Longrightarrow> js_truthy (fld (default_field k d m) k)"
  by (simp add: default_field_def)

lemma migrate_fields:
  "\<exists>w\<ge>2. fld (migrate e) ''version'' = JNum w" "js_truthy (fld (migrate e) ''tenantId'')" "js_truthy (fld (migrate e) ''metadata'')"
proof -
  obtain w where w: "2 \<le> w" "fld (migrate_loop (version_or 1 e) e) ''version'' = JNum w"
    using migrate_loop_version by blast
  then show "\<exists>w\<ge>2. fld (migrate e) ''version'' = JNum w"
    unfolding migrate_def by (intro exI [of _ w]) (subst default_field_id; simp)
  show "js_truthy (fld (migrate e) ''tenantId'')" "js_truthy (fld (migrate e) ''metadata'')"
    unfolding migrate_def by (simp_all add: fld_default_same)
qed

lemma migrate_current:
  assumes "fld e ''version'' = JNum w" "2 \<le> w" "js_truthy (fld e ''tenantId'')" "js_truthy (fld e ''metadata'')"
  shows "migrate e = e"
proof -
  have "migrate_loop (version_or 1 e) e = e"
    using assms(1,2) by (simp add: version_or_def version_of_def migrate_loop_done)
  with assms show ?thesis
    by (simp add: migrate_def default_field_id)
qed

lemma migrate_idem [simp]: "migrate (migrate e) = migrate e"
  using migrate_fields [of e] by (auto intro: migrate_current)


section \<open>The store\<close>

text \<open>A big integer has no JSON text.\<close>

fun unserializable :: "jv \<Rightarrow> bool" where
  "unserializable (JObj m) = (\<exists>(k, v) \<in> set m. unserializable v)"
| "unserializable (JArr vs) = (\<exists>v \<in> set vs. unserializable v)"
| "unserializable (JBig i) = True"
| "unserializable v = False"

definition as_object :: "jv \<Rightarrow> js_object" where
  "as_object v = (case v of JObj m \<Rightarrow> m | _ \<Rightarrow> [])"

record snapshot =
  sn_state :: jv
  sn_version :: jv
  sn_updatedAt :: string

text \<open>
  A line of the log file is \<open>None\<close> when it is not JSON text of an object. A file that does not exist yet reads as an
  empty one. \<open>archives\<close> are the files of the archive directory.
\<close>

record event_store =
  st_log :: "js_object option list"
  st_snapshots :: "(string, snapshot) jsmap"
  st_archives :: "js_object list list"
  st_retentionDays :: nat
  st_sequence :: rat
  st_subscribers :: nat
  st_lastAppendAt :: "nat option"

text \<open>A new process over the same files.\<close>

definition restart :: "event_store \<Rightarrow> event_store" where
  "restart st = st\<lparr>st_sequence := 0, st_subscribers := 0, st_lastAppendAt := None\<rparr>"

text \<open>The record as \<open>append\<close> writes it; a big integer in it cannot be serialised, after the sequence number is taken.\<close>

definition stored_event :: "nat \<Rightarrow> rat \<Rightarrow> js_object \<Rightarrow> js_object" where
  "stored_event now n event = jm_set ''recordedAt'' (JStr (iso_string now)) (jm_set ''sequence'' (JNum n) event)"

definition append_event :: "nat \<Rightarrow> js_object \<Rightarrow> event_store \<Rightarrow> (thrown + js_object) \<times> event_store" where
  "append_event now event st = (let n = st_sequence st + 1; stored = stored_event now n event in
     if unserializable (JObj stored) then (Inl (type_error ''Do not know how to serialize a BigInt''), st\<lparr>st_sequence := n\<rparr>)
     else (Inr stored, st\<lparr>st_sequence := n, st_log := st_log st @ [Some (as_object (plain_form (JObj stored)))],
             st_lastAppendAt := Some now\<rparr>))"

text \<open>The filters of \<open>getEvents\<close>: an empty string filters nothing.\<close>

definition passes :: "string option \<Rightarrow> string option \<Rightarrow> jv \<Rightarrow> js_object \<Rightarrow> bool" where
  "passes aggregateId tenantId fromTimestamp event =
    ((case aggregateId of Some (c # s) \<Rightarrow> fld event ''aggregateId'' = JStr (c # s) | _ \<Rightarrow> True)
     \<and> (case tenantId of Some (c # s) \<Rightarrow> fld event ''tenantId'' = JStr (c # s) | _ \<Rightarrow> True)
     \<and> (js_truthy fromTimestamp \<longrightarrow> \<not> before (fld event ''timestamp'') fromTimestamp))"

definition events_of :: "event_store \<Rightarrow> js_object list" where
  "events_of st = map migrate (List.map_filter id (st_log st))"

text \<open>\<open>event.sequence\<close> where it is a number\<close>

definition event_number :: "js_object \<Rightarrow> rat option" where
  "event_number event = (case fld event ''sequence'' of JNum q \<Rightarrow> Some q | _ \<Rightarrow> None)"

definition see_sequence :: "js_object \<Rightarrow> rat \<Rightarrow> rat" where
  "see_sequence event n = (case event_number event of Some q \<Rightarrow> if n < q then q else n | None \<Rightarrow> n)"

definition readEvents :: "string option \<Rightarrow> string option \<Rightarrow> jv \<Rightarrow> event_store \<Rightarrow> js_object list \<times> event_store" where
  "readEvents aggregateId tenantId fromTimestamp st = (let events = filter (passes aggregateId tenantId fromTimestamp) (events_of st)
     in (events, st\<lparr>st_sequence := fold see_sequence events (st_sequence st)\<rparr>))"

text \<open>The events \<open>streamFrom\<close> hands to its handler, in order.\<close>

definition streamFrom :: "rat \<Rightarrow> event_store \<Rightarrow> js_object list \<times> event_store" where
  "streamFrom sequence st = (case readEvents None None JNull st of (events, st') \<Rightarrow>
     (sort_key (\<lambda>e. the (event_number e)) (filter (\<lambda>e. case event_number e of Some q \<Rightarrow> sequence < q | None \<Rightarrow> False) events), st'))"

record store_metrics =
  eventCount :: nat
  m_sequence :: rat
  subscriberCount :: nat
  lastAppendAt :: "string option"
  lastEventTimestamp :: jv
  eventLagMs :: int

definition getMetrics :: "nat \<Rightarrow> event_store \<Rightarrow> store_metrics \<times> event_store" where
  "getMetrics now st = (case readEvents None None JNull st of (events, st') \<Rightarrow>
     (\<lparr>eventCount = length events, m_sequence = st_sequence st', subscriberCount = st_subscribers st',
       lastAppendAt = (case st_lastAppendAt st' of Some t \<Rightarrow> if t = 0 then None else Some (iso_string t) | None \<Rightarrow> None),
       lastEventTimestamp = (if events = [] then JNull else fld (last events) ''timestamp''),
       eventLagMs = (if events = [] then 0 else case date_of (fld (last events) ''timestamp'') of
          Some t \<Rightarrow> if t = 0 then 0 else int now - int t | None \<Rightarrow> 0)\<rparr>, st'))"

definition getSnapshot :: "string \<Rightarrow> event_store \<Rightarrow> snapshot option" where
  "getSnapshot aggregateId st = jm_get (st_snapshots st) aggregateId"

definition saveSnapshot :: "nat \<Rightarrow> string \<Rightarrow> jv \<Rightarrow> jv \<Rightarrow> event_store \<Rightarrow> event_store" where
  "saveSnapshot now aggregateId state version st = st\<lparr>st_snapshots := jm_set aggregateId
     \<lparr>sn_state = plain_form state, sn_version = plain_form version, sn_updatedAt = iso_string now\<rparr> (st_snapshots st)\<rparr>"

text \<open>
  \<open>runRetentionArchive\<close> is two steps, since other handlers run while it waits for the files: it reads and partitions the
  events, then writes the archive and rewrites the log.
\<close>

definition expired :: "nat \<Rightarrow> event_store \<Rightarrow> js_object \<Rightarrow> bool" where
  "expired now st evt = (case date_of (fld evt ''timestamp'') of
     Some t \<Rightarrow> int t < int now - int (st_retentionDays st) * 24 * 60 * 60 * 1000 | None \<Rightarrow> False)"

definition archive_read :: "nat \<Rightarrow> event_store \<Rightarrow> (js_object list \<times> js_object list) \<times> event_store" where
  "archive_read now st = (case readEvents None None JNull st of (events, st') \<Rightarrow>
     ((filter (expired now st) events, filter (\<lambda>e. \<not> expired now st e) events), st'))"

definition archive_write :: "js_object list \<times> js_object list \<Rightarrow> event_store \<Rightarrow> event_store" where
  "archive_write ps st = (case ps of (toArchive, toKeep) \<Rightarrow>
     if toArchive = [] then st
     else st\<lparr>st_archives := st_archives st @ [toArchive], st_log := map Some toKeep\<rparr>)"

definition runRetentionArchive :: "nat \<Rightarrow> event_store \<Rightarrow> (nat \<times> nat) \<times> event_store" where
  "runRetentionArchive now st = (case archive_read now st of ((toArchive, toKeep), st') \<Rightarrow>
     ((length toArchive, length toKeep), archive_write (toArchive, toKeep) st'))"

section \<open>Replay\<close>

definition reason_of :: "js_object \<Rightarrow> jv" where
  "reason_of event = js_or (opt_prop (fld event ''payload'') ''reason'') (JStr ''unspecified'')"

definition with_fields :: "(string \<times> jv) list \<Rightarrow> js_object \<Rightarrow> js_object" where
  "with_fields kvs m = fold (\<lambda>(k, v). jm_set k v) kvs m"

text \<open>
  \<open>null\<close> is \<open>None\<close>. \<open>EventTypes.CREDENTIAL_RESUMED\<close> does not exist, so its case is that of an event whose type is
  \<open>undefined\<close>.
\<close>

definition applyCredentialEvent :: "js_object option \<Rightarrow> js_object \<Rightarrow> js_object option" where
  "applyCredentialEvent state event = (let ts = fld event ''timestamp''; payload = fld event ''payload'' in
     if fld event ''type'' = JStr ''CredentialIssued'' then
       Some (with_fields [(''revoked'', JBool False), (''suspended'', JBool False), (''verified'', JBool False),
           (''createdAt'', ts), (''updatedAt'', ts)]
         (spread_into payload [(''id'', fld event ''aggregateId''), (''tenant_id'', fld event ''tenantId'')]))
     else if fld event ''type'' = JStr ''CredentialRevoked'' then
       map_option (with_fields [(''revoked'', JBool True), (''revokedAt'', ts), (''revocationReason'', reason_of event),
         (''updatedAt'', ts)]) state
     else if fld event ''type'' = JStr ''CredentialSuspended'' then
       map_option (with_fields [(''suspended'', JBool True), (''suspendedAt'', ts), (''suspensionReason'', reason_of event),
         (''updatedAt'', ts)]) state
     else if fld event ''type'' = JUndef then
       map_option (with_fields [(''suspended'', JBool False), (''resumedAt'', ts), (''updatedAt'', ts)]) state
     else if fld event ''type'' = JStr ''CredentialRenewed'' then
       map_option (\<lambda>s. with_fields [(''renewedAt'', ts), (''expiresAt'', js_or (opt_prop payload ''expiresAt'') (fld s ''expiresAt'')),
         (''updatedAt'', ts)] (spread_into payload s)) state
     else if fld event ''type'' = JStr ''CredentialVerified'' then
       map_option (with_fields [(''verified'', JBool True), (''verifiedAt'', ts), (''lastVerification'', js_or payload (JObj [])),
         (''updatedAt'', ts)]) state
     else state)"

definition applyDidEvent :: "js_object option \<Rightarrow> js_object \<Rightarrow> thrown + js_object option" where
  "applyDidEvent state event = (let ts = fld event ''timestamp''; payload = fld event ''payload'' in
     if fld event ''type'' = JStr ''DIDCreated'' then
       bind_result (js_prop payload ''controller'') (\<lambda>c. bind_result (js_prop payload ''metadata'') (\<lambda>md.
         Inr (Some [(''id'', fld event ''aggregateId''), (''controller'', c), (''metadata'', js_or md (JObj [])),
           (''active'', JBool True), (''createdAt'', ts), (''updatedAt'', ts)])))
     else if fld event ''type'' = JStr ''DIDUpdated'' then
       (case state of None \<Rightarrow> Inr None | Some s \<Rightarrow> bind_result (js_prop payload ''metadata'') (\<lambda>md.
          Inr (Some (with_fields [(''metadata'', JObj (spread_into md (spread_into (fld s ''metadata'') []))), (''updatedAt'', ts)] s))))
     else if fld event ''type'' = JStr ''DIDDeactivated'' then
       Inr (map_option (with_fields [(''active'', JBool False), (''deactivatedAt'', ts), (''updatedAt'', ts)]) state)
     else Inr state)"

text \<open>The state a replay starts from, and the time from which it reads events.\<close>

definition replay_base :: "string \<Rightarrow> event_store \<Rightarrow> js_object option \<times> jv" where
  "replay_base aggregateId st = (case getSnapshot aggregateId st of
     Some sn \<Rightarrow> (Some (spread_into (sn_state sn) []), JStr (sn_updatedAt sn)) | None \<Rightarrow> (None, JNull))"

definition apply_all :: "js_object list \<Rightarrow> js_object option \<Rightarrow> js_object option" where
  "apply_all events state = foldl applyCredentialEvent state events"

definition reconstructCredential :: "string \<Rightarrow> event_store \<Rightarrow> js_object option \<times> event_store" where
  "reconstructCredential credentialId st = (case replay_base credentialId st of (state, fromTimestamp) \<Rightarrow>
     (case readEvents (Some credentialId) None fromTimestamp st of (events, st') \<Rightarrow> (apply_all events state, st')))"

fun apply_did_all :: "js_object list \<Rightarrow> js_object option \<Rightarrow> thrown + js_object option" where
  "apply_did_all [] state = Inr state"
| "apply_did_all (e # es) state = bind_result (applyDidEvent state e) (apply_did_all es)"

definition reconstructDid :: "string \<Rightarrow> event_store \<Rightarrow> (thrown + js_object option) \<times> event_store" where
  "reconstructDid did st = (case replay_base did st of (state, fromTimestamp) \<Rightarrow>
     (case readEvents (Some did) None fromTimestamp st of (events, st') \<Rightarrow> (apply_did_all events state, st')))"

section \<open>Projections\<close>

datatype projection =
    CurrentCredentials "(jv, js_object) jsmap"
  | CredentialAuditLog "js_object list"

definition current_apply :: "js_object \<Rightarrow> (jv, js_object) jsmap \<Rightarrow> (jv, js_object) jsmap" where
  "current_apply event credentials = (let aggregateId = fld event ''aggregateId'' in
     case applyCredentialEvent (jm_get credentials aggregateId) event of
       Some next_state \<Rightarrow> jm_set aggregateId next_state credentials | None \<Rightarrow> credentials)"

definition audit_entry :: "js_object \<Rightarrow> js_object" where
  "audit_entry event = map (\<lambda>k. (k, fld event k)) [''id'', ''type'', ''aggregateId'', ''tenantId'', ''payload'', ''timestamp'', ''version'']"

definition audit_list :: "string option \<Rightarrow> js_object list \<Rightarrow> js_object list" where
  "audit_list aggregateId es = (case aggregateId of Some (c # s) \<Rightarrow> filter (\<lambda>e. fld e ''aggregateId'' = JStr (c # s)) es | _ \<Rightarrow> es)"

fun projection_apply :: "js_object \<Rightarrow> projection \<Rightarrow> projection" where
  "projection_apply event (CurrentCredentials m) = CurrentCredentials (current_apply event m)"
| "projection_apply event (CredentialAuditLog es) = CredentialAuditLog (es @ [audit_entry event])"

fun projection_clear :: "projection \<Rightarrow> projection" where
  "projection_clear (CurrentCredentials m) = CurrentCredentials []"
| "projection_clear (CredentialAuditLog es) = CredentialAuditLog []"

type_synonym projections = "(string, projection) jsmap"

definition dispatch :: "js_object \<Rightarrow> projections \<Rightarrow> projections" where
  "dispatch event ps = map (\<lambda>(name, p). (name, projection_apply event p)) ps"

definition rebuild :: "string option \<Rightarrow> event_store \<Rightarrow> projections \<Rightarrow> projections \<times> event_store" where
  "rebuild aggregateId st ps = (case readEvents aggregateId None JNull st of (events, st') \<Rightarrow>
     (fold dispatch events (map (\<lambda>(name, p). (name, projection_clear p)) ps), st'))"

text \<open>\<open>CurrentCredentialsProjection.get\<close> of a manager's projection\<close>

definition current_credential :: "string \<Rightarrow> string \<Rightarrow> projections \<Rightarrow> js_object option" where
  "current_credential name credentialId ps = (case jm_get ps name of
     Some (CurrentCredentials m) \<Rightarrow> jm_get m (JStr credentialId) | _ \<Rightarrow> None)"

section \<open>Facts about replay\<close>

lemma apply_all_append: "apply_all (es @ fs) s = apply_all fs (apply_all es s)"
  by (simp add: apply_all_def)

lemma apply_all_simps [simp]:
  "apply_all [] s = s" "apply_all (e # es) s = apply_all es (applyCredentialEvent s e)"
  by (simp_all add: apply_all_def)

text \<open>An event never takes a state away.\<close>

lemma applyCredentialEvent_Some: "\<exists>s'. applyCredentialEvent (Some s) event = Some s'"
  by (simp add: applyCredentialEvent_def Let_def)

lemma current_get:
  "jm_get (current_apply event m) k =
     (if k = fld event ''aggregateId'' then applyCredentialEvent (jm_get m k) event else jm_get m k)"
proof (cases "applyCredentialEvent (jm_get m (fld event ''aggregateId'')) event")
  case None
  then have "jm_get m (fld event ''aggregateId'') = None"
    using applyCredentialEvent_Some by (metis not_None_eq)
  with None show ?thesis by (simp add: current_apply_def)
qed (simp add: current_apply_def)

lemma current_fold:
  "jm_get (fold current_apply es m) k = apply_all (filter (\<lambda>e. fld e ''aggregateId'' = k) es) (jm_get m k)"
  by (induction es arbitrary: m) (auto simp: current_get)

lemma jm_get_map_values: "jm_get (map (\<lambda>(k, v). (k, f v)) m) k = map_option f (jm_get m k)"
  by (induction m) auto

lemma dispatch_fold:
  "jm_get (fold dispatch es ps) name = map_option (fold projection_apply es) (jm_get ps name)"
  by (induction es arbitrary: ps) (simp_all add: dispatch_def jm_get_map_values option.map_comp comp_def option.map_id)

lemma projection_fold:
  "fold projection_apply es (CurrentCredentials m) = CurrentCredentials (fold current_apply es m)"
  "fold projection_apply es (CredentialAuditLog l) = CredentialAuditLog (l @ map audit_entry es)"
  by (induction es arbitrary: m l) auto

lemma current_rebuild:
  assumes "jm_get ps name = Some (CurrentCredentials m)"
  shows "current_credential name credentialId (fst (rebuild agg st ps))
    = apply_all (filter (\<lambda>e. fld e ''aggregateId'' = JStr credentialId) (fst (readEvents agg None JNull st))) None"
proof -
  have "jm_get (fst (rebuild agg st ps)) name
    = Some (CurrentCredentials (fold current_apply (fst (readEvents agg None JNull st)) []))"
    by (simp add: rebuild_def case_prod_beta dispatch_fold assms projection_fold jm_get_map_values)
  then show ?thesis by (simp add: current_credential_def current_fold)
qed

lemma readEvents_fst: "fst (readEvents agg ten from st) = filter (passes agg ten from) (events_of st)"
  by (simp add: readEvents_def Let_def)

lemma passes_all [simp]: "passes None None JNull e"
  by (simp add: passes_def)

lemma passes_aggregate: "credentialId \<noteq> [] \<Longrightarrow> passes (Some credentialId) None JNull = (\<lambda>e. fld e ''aggregateId'' = JStr credentialId)"
  by (cases credentialId) (simp_all add: passes_def fun_eq_iff)

lemma reconstructCredential_fst:
  "fst (reconstructCredential credentialId st) = apply_all (filter (passes (Some credentialId) None (snd (replay_base credentialId st)))
     (events_of st)) (fst (replay_base credentialId st))"
  by (simp add: reconstructCredential_def case_prod_beta readEvents_fst)

text \<open>
  C17. The two read paths of a credential agree: after \<open>rebuild\<close>, the read model of current credentials holds for a
  credential exactly what \<open>reconstructCredential\<close> computes for it from the log, when no snapshot of it was saved.
\<close>

theorem projection_agrees_with_replay:
  assumes "jm_get ps name = Some (CurrentCredentials m)" and "credentialId \<noteq> ''''" and "getSnapshot credentialId st = None"
  shows "current_credential name credentialId (fst (rebuild None st ps)) = fst (reconstructCredential credentialId st)"
  using assms by (simp add: current_rebuild reconstructCredential_fst readEvents_fst replay_base_def passes_aggregate)

definition ev :: "string \<Rightarrow> string \<Rightarrow> nat \<Rightarrow> js_object \<Rightarrow> js_object" where
  "ev ty aggregateId t payload = [(''type'', JStr ty), (''aggregateId'', JStr aggregateId), (''tenantId'', JStr ''t''),
     (''version'', JNum 2), (''timestamp'', JStr (iso_string t)), (''payload'', JObj payload), (''metadata'', JObj [])]"

definition demo_store :: event_store where
  "demo_store = \<lparr>st_log = [Some (ev ''CredentialIssued'' ''c'' 1000 []), None, Some (ev ''CredentialRevoked'' ''c'' 2000 [])],
     st_snapshots = [], st_archives = [], st_retentionDays = 90, st_sequence = 0, st_subscribers = 0, st_lastAppendAt = None\<rparr>"

theorem projection_agrees_with_replay_witness:
  "current_credential ''current'' ''c'' (fst (rebuild None demo_store [(''current'', CurrentCredentials [])]))
    = fst (reconstructCredential ''c'' demo_store)"
  by (rule projection_agrees_with_replay) (simp_all add: demo_store_def getSnapshot_def)

section \<open>What later events keep\<close>

lemma fld_with_fields: "k \<notin> fst ` set kvs \<Longrightarrow> fld (with_fields kvs m) k = fld m k"
  by (simp add: with_fields_def fld_fold_set)

text \<open>A flag of the state is lifted by a new issuance, and by a renewal whose payload has a field of its name.\<close>

definition overwrites :: "string \<Rightarrow> js_object \<Rightarrow> bool" where
  "overwrites k event = (fld event ''type'' = JStr ''CredentialIssued''
     \<or> fld event ''type'' = JStr ''CredentialRenewed'' \<and> has_key (fld event ''payload'') k)"

lemma flag_kept:
  assumes "k \<in> {''revoked'', ''suspended''}" "fld s k = JBool True" "\<not> overwrites k event"
    and "k = ''suspended'' \<longrightarrow> fld event ''type'' \<noteq> JUndef"
  shows "\<exists>s'. applyCredentialEvent (Some s) event = Some s' \<and> fld s' k = JBool True"
proof -
  consider "fld event ''type'' = JStr ''CredentialRenewed''" | "fld event ''type'' \<noteq> JStr ''CredentialRenewed''" by blast
  then show ?thesis
  proof cases
    case 1
    with assms have "\<not> has_key (fld event ''payload'') k" by (simp add: overwrites_def)
    with 1 assms(1,2) show ?thesis
      by (auto simp: applyCredentialEvent_def Let_def fld_with_fields fld_spread)
  next
    case 2
    with assms show ?thesis
      by (auto simp: applyCredentialEvent_def Let_def overwrites_def with_fields_def)
  qed
qed

lemma flag_sticks:
  assumes "k \<in> {''revoked'', ''suspended''}" "fld s k = JBool True"
    and "\<forall>e \<in> set es. \<not> overwrites k e \<and> (k = ''suspended'' \<longrightarrow> fld e ''type'' \<noteq> JUndef)"
  shows "\<exists>s'. apply_all es (Some s) = Some s' \<and> fld s' k = JBool True"
  using assms
proof (induction es arbitrary: s)
  case (Cons e es)
  then obtain s1 where "applyCredentialEvent (Some s) e = Some s1" "fld s1 k = JBool True"
    using flag_kept [of k s e] by auto
  with Cons.IH [of s1] Cons.prems show ?case by simp
qed simp

lemma apply_all_Some: "\<exists>s'. apply_all es (Some s) = Some s'"
proof (induction es arbitrary: s)
  case (Cons e es)
  obtain s1 where "applyCredentialEvent (Some s) e = Some s1" using applyCredentialEvent_Some by blast
  with Cons show ?case by simp
qed simp

lemma apply_all_issued:
  assumes "e \<in> set es" "fld e ''type'' = JStr ''CredentialIssued''"
  shows "\<exists>s. apply_all es s0 = Some s"
proof -
  obtain xs ys where es: "es = xs @ e # ys" using assms(1) by (meson split_list)
  obtain s1 where "applyCredentialEvent (apply_all xs s0) e = Some s1"
    using assms(2) by (simp add: applyCredentialEvent_def Let_def)
  with apply_all_Some show ?thesis by (simp add: es apply_all_append)
qed

lemma apply_all_not_issued: "\<forall>e \<in> set es. fld e ''type'' \<noteq> JStr ''CredentialIssued'' \<Longrightarrow> apply_all es None = None"
  by (induction es) (auto simp: applyCredentialEvent_def Let_def)

lemma reconstruct_no_snapshot:
  assumes "credentialId \<noteq> ''''" "getSnapshot credentialId st = None"
  shows "fst (reconstructCredential credentialId st) = apply_all (fst (readEvents (Some credentialId) None JNull st)) None"
  using assms by (simp add: reconstructCredential_fst readEvents_fst replay_base_def)

text \<open>
  C18. Revocation sticks: when the log of a credential has an issuance and later a revocation, and nothing after it issues
  the credential anew or renews it with a payload that has a field \<open>revoked\<close> of its own, the replayed state is revoked,
  whatever else follows.
\<close>

theorem revocation_sticks:
  assumes "credentialId \<noteq> ''''" and "getSnapshot credentialId st = None"
    and "fst (readEvents (Some credentialId) None JNull st) = earlier @ r # later"
    and "i \<in> set earlier" and "fld i ''type'' = JStr ''CredentialIssued''"
    and "fld r ''type'' = JStr ''CredentialRevoked''" and "\<forall>e \<in> set later. \<not> overwrites ''revoked'' e"
  shows "\<exists>s. fst (reconstructCredential credentialId st) = Some s \<and> fld s ''revoked'' = JBool True"
proof -
  obtain s0 where s0: "apply_all earlier None = Some s0" using apply_all_issued assms(4,5) by blast
  define s1 where "s1 = the (applyCredentialEvent (Some s0) r)"
  have s1: "applyCredentialEvent (Some s0) r = Some s1" "fld s1 ''revoked'' = JBool True"
    using assms(6) by (simp_all add: s1_def applyCredentialEvent_def Let_def with_fields_def)
  show ?thesis
    using flag_sticks [of "''revoked''" s1 later] assms(7) s1
    by (simp add: reconstruct_no_snapshot assms(1-3) apply_all_append s0)
qed

theorem revocation_sticks_witness:
  "\<exists>s. fst (reconstructCredential ''c'' demo_store) = Some s \<and> fld s ''revoked'' = JBool True"
  by (rule revocation_sticks [where earlier = "[ev ''CredentialIssued'' ''c'' 1000 []]" and later = "[]"
      and i = "ev ''CredentialIssued'' ''c'' 1000 []" and r = "ev ''CredentialRevoked'' ''c'' 2000 []"])
    (simp_all add: demo_store_def getSnapshot_def readEvents_def events_of_def List.map_filter_def ev_def fld_def
      migrate_current passes_def)

text \<open>
  A renewal whose payload has a field \<open>revoked\<close> puts that value into the state: it takes a revocation back.
\<close>

theorem renewal_takes_revocation_back:
  "fld event ''type'' = JStr ''CredentialRenewed'' \<Longrightarrow> fld event ''payload'' = JObj [(''revoked'', v)]
    \<Longrightarrow> \<exists>s'. applyCredentialEvent (Some s) event = Some s' \<and> fld s' ''revoked'' = v"
  by (simp add: applyCredentialEvent_def Let_def with_fields_def spread_into_def)

theorem renewal_takes_revocation_back_witness:
  "\<exists>s'. applyCredentialEvent (Some [(''revoked'', JBool True)])
     (ev ''CredentialRenewed'' ''c'' 1 [(''revoked'', JBool False)]) = Some s' \<and> fld s' ''revoked'' = JBool False"
  by (rule renewal_takes_revocation_back) (simp_all add: ev_def fld_def)

text \<open>
  No event that \<open>createEvent\<close> makes ends a suspension: \<open>EventTypes\<close> has no \<open>CREDENTIAL_RESUMED\<close>, so after a
  suspension the state stays suspended through any events of the known types, but for a new issuance or a renewal whose
  payload has a field \<open>suspended\<close>.
\<close>

theorem suspension_is_never_lifted:
  assumes "fld s ''suspended'' = JBool True"
    and "\<forall>e \<in> set es. (\<exists>t \<in> set EventTypes. fld e ''type'' = JStr t) \<and> \<not> overwrites ''suspended'' e"
  shows "\<exists>s'. apply_all es (Some s) = Some s' \<and> fld s' ''suspended'' = JBool True"
  using assms flag_sticks [of "''suspended''" s es] by fastforce

theorem suspension_is_never_lifted_witness:
  "\<exists>s'. apply_all [ev ''CredentialVerified'' ''c'' 5 []] (Some [(''suspended'', JBool True)]) = Some s'
     \<and> fld s' ''suspended'' = JBool True"
  by (rule suspension_is_never_lifted) (simp_all add: ev_def fld_def EventTypes_def overwrites_def)

section \<open>Snapshots\<close>

lemma map_filter_append: "List.map_filter f (xs @ ys) = List.map_filter f xs @ List.map_filter f ys"
  by (simp add: List.map_filter_def)

lemma events_of_append: "events_of (st\<lparr>st_log := st_log st @ es\<rparr>) = events_of st @ map migrate (List.map_filter id es)"
  by (simp add: events_of_def map_filter_append)

lemma events_of_snapshot [simp]: "events_of (saveSnapshot now c s v st) = events_of st"
  by (simp add: events_of_def saveSnapshot_def)

lemma iso_string_truthy: "js_truthy (JStr (iso_string t))"
  by (simp add: iso_string_def Let_def split: prod.splits)

lemma before_iso:
  "t < END_OF_TIME \<Longrightarrow> u < END_OF_TIME \<Longrightarrow> before (JStr (iso_string t)) (JStr (iso_string u)) \<longleftrightarrow> t < u"
  by (simp only: before_def date_of_def jv.case date_parse_iso option.case prod.case)

text \<open>
  Snapshots do not change what replay computes: save as a snapshot the state that replay gives at some time, then let the
  log grow by any lines. If the events up to the snapshot are stamped before its time and the later ones not before it,
  replay from the snapshot gives the state that a replay of the whole log would give.
\<close>

theorem snapshot_replay_agrees:
  assumes "credentialId \<noteq> ''''" and "getSnapshot credentialId st = None"
    and "fst (reconstructCredential credentialId st) = Some s" and "jm_wf s" and "plain_form (JObj s) = JObj s"
    and "now < END_OF_TIME"
    and "\<forall>e \<in> set (events_of st). \<exists>t < now. fld e ''timestamp'' = JStr (iso_string t)"
    and "\<forall>e. Some e \<in> set lines \<longrightarrow> (\<exists>t \<ge> now. t < END_OF_TIME \<and> fld e ''timestamp'' = JStr (iso_string t))"
  shows "fst (reconstructCredential credentialId ((saveSnapshot now credentialId (JObj s) v st)\<lparr>st_log := st_log st @ lines\<rparr>))
    = fst (reconstructCredential credentialId (st\<lparr>st_log := st_log st @ lines\<rparr>))"
proof -
  let ?new = "map migrate (List.map_filter id lines)"
  let ?st2 = "(saveSnapshot now credentialId (JObj s) v st)\<lparr>st_log := st_log st @ lines\<rparr>"
  let ?mine = "\<lambda>e. fld e ''aggregateId'' = JStr credentialId"
  have ev2: "events_of ?st2 = events_of st @ ?new"
    by (simp add: events_of_def saveSnapshot_def map_filter_append)
  have base: "replay_base credentialId ?st2 = (Some s, JStr (iso_string now))"
    using assms(4,5) by (simp add: replay_base_def getSnapshot_def saveSnapshot_def spread_object)
  have "\<not> passes (Some credentialId) None (JStr (iso_string now)) e" if e: "e \<in> set (events_of st)" for e
  proof -
    obtain t where t: "t < now" "fld e ''timestamp'' = JStr (iso_string t)" using bspec [OF assms(7) e] by iprover
    then have "before (fld e ''timestamp'') (JStr (iso_string now))"
      using assms(6) by (simp add: before_iso)
    then show ?thesis by (simp add: passes_def iso_string_truthy del: js_truthy.simps)
  qed
  then have old: "filter (passes (Some credentialId) None (JStr (iso_string now))) (events_of st) = []"
    by (simp add: filter_empty_conv)
  have late: "\<not> before (fld e ''timestamp'') (JStr (iso_string now))" if e: "e \<in> set ?new" for e
  proof -
    obtain e0 where e0: "e = migrate e0" "Some e0 \<in> set lines"
      using e by (auto simp: List.map_filter_def)
    with assms(8) obtain t where "now \<le> t" "t < END_OF_TIME" "fld e0 ''timestamp'' = JStr (iso_string t)" by iprover
    with assms(6) show ?thesis
      by (simp add: e0 before_iso)
  qed
  then have new: "filter (passes (Some credentialId) None (JStr (iso_string now))) ?new = filter ?mine ?new"
    using assms(1) by (intro filter_cong) (auto simp: passes_def split: list.splits)
  have "apply_all (filter ?mine (events_of st)) None = Some s"
    using assms(1-3) by (simp add: reconstruct_no_snapshot readEvents_fst passes_aggregate)
  moreover have "getSnapshot credentialId (st\<lparr>st_log := st_log st @ lines\<rparr>) = None"
    using assms(2) by (simp add: getSnapshot_def)
  ultimately show ?thesis
    using assms(1) by (simp add: reconstructCredential_fst [of _ ?st2] base ev2 old new apply_all_append
        reconstruct_no_snapshot readEvents_fst passes_aggregate events_of_append)
qed

theorem snapshot_replay_agrees_witness:
  "fst (reconstructCredential ''c'' ((saveSnapshot 3000 ''c'' (JObj (the (fst (reconstructCredential ''c'' demo_store)))) JNull demo_store)
       \<lparr>st_log := st_log demo_store @ [Some (ev ''CredentialVerified'' ''c'' 4000 [])]\<rparr>))
    = fst (reconstructCredential ''c'' (demo_store\<lparr>st_log := st_log demo_store @ [Some (ev ''CredentialVerified'' ''c'' 4000 [])]\<rparr>))"
proof (rule snapshot_replay_agrees)
  have d: "events_of demo_store = [ev ''CredentialIssued'' ''c'' 1000 [], ev ''CredentialRevoked'' ''c'' 2000 []]"
    by (simp add: demo_store_def events_of_def List.map_filter_def ev_def fld_def migrate_current)
  then show "\<forall>e \<in> set (events_of demo_store). \<exists>t < 3000. fld e ''timestamp'' = JStr (iso_string t)"
    by (auto simp: ev_def fld_def intro: exI [of _ 1000] exI [of _ 2000])
  have r: "fst (reconstructCredential ''c'' demo_store) = Some [(''id'', JStr ''c''), (''tenant_id'', JStr ''t''),
      (''revoked'', JBool True), (''suspended'', JBool False), (''verified'', JBool False),
      (''createdAt'', JStr (iso_string 1000)), (''updatedAt'', JStr (iso_string 2000)), (''revokedAt'', JStr (iso_string 2000)),
      (''revocationReason'', JStr ''unspecified'')]"
    by (subst reconstruct_no_snapshot) (simp_all add: readEvents_fst d passes_aggregate, simp_all add: demo_store_def getSnapshot_def ev_def fld_def applyCredentialEvent_def
      Let_def with_fields_def spread_into_def reason_of_def opt_prop_def js_or_def)
  show "fst (reconstructCredential ''c'' demo_store) = Some (the (fst (reconstructCredential ''c'' demo_store)))"
    "jm_wf (the (fst (reconstructCredential ''c'' demo_store)))"
    "plain_form (JObj (the (fst (reconstructCredential ''c'' demo_store)))) = JObj (the (fst (reconstructCredential ''c'' demo_store)))"
    by (simp_all add: r jm_wf_def)
qed (auto simp: demo_store_def getSnapshot_def END_OF_TIME_def ev_def fld_def intro: exI [of _ 4000])

section \<open>Sequence numbers\<close>

definition sequences :: "event_store \<Rightarrow> rat list" where
  "sequences st = List.map_filter event_number (events_of st)"

datatype store_op =
    Append nat js_object
  | Read "string option" "string option" jv
  | Snapshot nat string jv jv
  | Archive nat

text \<open>The operations of a store one after the other, each running to its end.\<close>

fun store_do :: "store_op \<Rightarrow> event_store \<Rightarrow> event_store" where
  "store_do (Append now event) st = snd (append_event now event st)"
| "store_do (Read aggregateId tenantId fromTimestamp) st = snd (readEvents aggregateId tenantId fromTimestamp st)"
| "store_do (Snapshot now aggregateId state version) st = saveSnapshot now aggregateId state version st"
| "store_do (Archive now) st = snd (runRetentionArchive now st)"

definition store_step :: "event_store \<Rightarrow> store_op \<Rightarrow> event_store \<Rightarrow> bool" where
  "store_step st op st' \<longleftrightarrow> st' = store_do op st"

definition sequenced :: "event_store \<Rightarrow> bool" where
  "sequenced st \<longleftrightarrow> sorted_wrt (<) (sequences st) \<and> (\<forall>q \<in> set (sequences st). q \<le> st_sequence st)"

lemma fld_plain_form:
  "fld m k \<noteq> JUndef \<Longrightarrow> fld (as_object (plain_form (JObj m))) k = plain_form (fld m k)"
  by (induction m) (auto simp: as_object_def fld_def split: if_splits)

lemma sequence_stored: "fld (as_object (plain_form (JObj (stored_event now n e)))) ''sequence'' = JNum n"
proof -
  have "fld (stored_event now n e) ''sequence'' = JNum n" by (simp add: stored_event_def)
  then show ?thesis by (simp add: fld_plain_form del: plain_form.simps(1,2))
qed

lemma see_sequence_le: "n \<le> fold see_sequence es n"
proof (induction es arbitrary: n)
  case (Cons e es)
  have "n \<le> see_sequence e n" by (auto simp: see_sequence_def split: option.splits)
  with Cons [of "see_sequence e n"] show ?case by simp
qed simp

lemma set_map_filter: "set (List.map_filter f xs) = {y. \<exists>x \<in> set xs. f x = Some y}"
  by (induction xs) (auto simp: List.map_filter_simps split: option.splits)

lemma sorted_map_filter: "sorted_wrt R (List.map_filter f xs) \<Longrightarrow> sorted_wrt R (List.map_filter f (filter P xs))"
  by (induction xs) (auto simp: List.map_filter_simps set_map_filter split: option.splits)

lemma sequences_sub:
  "events_of st' = filter P (events_of st) \<Longrightarrow> st_sequence st \<le> st_sequence st' \<Longrightarrow> sequenced st \<Longrightarrow> sequenced st'"
proof -
  assume e: "events_of st' = filter P (events_of st)" and le: "st_sequence st \<le> st_sequence st'" and s: "sequenced st"
  then show "sequenced st'"
    unfolding sequenced_def sequences_def e by (auto intro: sorted_map_filter simp: set_map_filter)
qed

lemma migrate_filter: "map migrate (filter P (events_of st)) = filter P (events_of st)"
  by (rule map_idI) (auto simp: events_of_def)

lemma events_of_archive_write:
  "events_of (archive_write (a, k) st) = (if a = [] then events_of st else map migrate k)"
  by (simp add: events_of_def archive_write_def List.map_filter_def comp_def)

lemma archive_read_simps:
  "fst (archive_read now st) = (filter (expired now st) (events_of st), filter (\<lambda>e. \<not> expired now st e) (events_of st))"
  "snd (archive_read now st) = st\<lparr>st_sequence := fold see_sequence (events_of st) (st_sequence st)\<rparr>"
  by (simp_all add: archive_read_def readEvents_def Let_def)

lemma events_of_sequence [simp]: "events_of (st\<lparr>st_sequence := n\<rparr>) = events_of st"
  by (simp add: events_of_def)

lemma events_of_archive:
  "events_of (snd (runRetentionArchive now st)) = filter (\<lambda>e. \<not> expired now st e) (events_of st)"
  by (auto simp: runRetentionArchive_def case_prod_beta archive_read_simps events_of_archive_write migrate_filter
      filter_empty_conv filter_id_conv)

lemma archive_sequence: "st_sequence st \<le> st_sequence (snd (runRetentionArchive now st))"
  by (simp add: runRetentionArchive_def case_prod_beta archive_read_simps archive_write_def see_sequence_le)

lemma sequenced_step:
  assumes s: "sequenced st"
  shows "sequenced (store_do op st)"
proof (cases op)
  case (Append now event)
  show ?thesis
  proof (cases "unserializable (JObj (stored_event now (st_sequence st + 1) event))")
    case True
    show ?thesis
      by (rule sequences_sub [of _ "\<lambda>e. True" st]) (use s True in \<open>simp_all add: Append append_event_def Let_def\<close>)
  next
    case False
    then have "sequences (store_do op st) = sequences st @ [st_sequence st + 1]"
      by (simp add: Append append_event_def Let_def sequences_def events_of_def map_filter_append sequence_stored event_number_def List.map_filter_def del: plain_form.simps)
    moreover have "st_sequence (store_do op st) = st_sequence st + 1"
      using False by (simp add: Append append_event_def Let_def)
    moreover have "q < st_sequence st + 1" if "q \<in> set (sequences st)" for q
      using that s by (force simp: sequenced_def)
    ultimately show ?thesis
      using s unfolding sequenced_def by (simp add: sorted_wrt_append less_imp_le)
  qed
next
  case (Read a t f)
  show ?thesis
    by (rule sequences_sub [of _ "\<lambda>e. True" st]) (use s in \<open>simp_all add: Read readEvents_def Let_def see_sequence_le\<close>)
next
  case (Snapshot n a v w)
  show ?thesis
    by (rule sequences_sub [of _ "\<lambda>e. True" st]) (use s in \<open>simp_all add: Snapshot\<close>, simp add: saveSnapshot_def)
next
  case (Archive n)
  show ?thesis
    by (rule sequences_sub [of _ "\<lambda>e. \<not> expired n st e" st])
      (use s in \<open>simp_all add: Archive events_of_archive archive_sequence\<close>)
qed

interpretation log: machine "\<lambda>st. st_log st = []" store_step sequenced
  by unfold_locales (auto simp: store_step_def sequenced_step, simp add: sequenced_def sequences_def events_of_def List.map_filter_def)

lemma exec_store: "exec store_step st ops st' \<longleftrightarrow> st' = fold store_do ops st"
  by (induction ops arbitrary: st) (auto simp: store_step_def)

text \<open>
  Sequence numbers order the log: starting from an empty log, whatever operations follow (appends, reads with any
  filter, snapshots, archiving), the sequence numbers of the readable events go strictly up, and none is above the store's counter.
\<close>

theorem sequence_numbers_increase:
  assumes "st_log st = []"
  shows "sorted_wrt (<) (sequences (fold store_do ops st)) \<and> (\<forall>q \<in> set (sequences (fold store_do ops st)). q \<le> st_sequence (fold store_do ops st))"
  using log.reachable_inv [of st ops "fold store_do ops st"] assms by (simp add: exec_store sequenced_def)

definition empty_store :: event_store where
  "empty_store = demo_store\<lparr>st_log := []\<rparr>"

theorem sequence_numbers_increase_witness:
  "sorted_wrt (<) (sequences (fold store_do [Append 1 [], Read None None JNull, Append 2 []] empty_store))"
  by (rule sequence_numbers_increase [THEN conjunct1]) (simp add: empty_store_def)

lemma sequences_append:
  "\<not> unserializable (JObj (stored_event now (st_sequence st + 1) e)) \<Longrightarrow>
     sequences (snd (append_event now e st)) = sequences st @ [st_sequence st + 1]"
  by (simp add: append_event_def Let_def sequences_def events_of_def map_filter_append sequence_stored event_number_def List.map_filter_def
      del: plain_form.simps unserializable.simps)

text \<open>
  A new process starts its counter at 0 and \<open>init\<close> does not read the log: the first event appended before a read takes
  the number 1, which the log may already hold.
\<close>

theorem restart_reuses_sequence_numbers:
  assumes "\<not> unserializable (JObj (stored_event now 1 event))"
  shows "sequences (snd (append_event now event (restart st))) = sequences st @ [1]"
  using sequences_append [of now "restart st" event] assms
  by (simp add: restart_def sequences_def events_of_def del: unserializable.simps)

theorem restart_reuses_sequence_numbers_witness:
  "sequences (snd (append_event 5 [] (restart (snd (append_event 4 [] empty_store)))))
     = sequences (snd (append_event 4 [] empty_store)) @ [1]"
  by (rule restart_reuses_sequence_numbers) (simp add: stored_event_def)

text \<open>
  What a resuming consumer gets: on a log whose numbers go up, \<open>streamFrom\<close> hands over exactly the numbered events after the
  given one, in the order of the log.
\<close>

lemma sorted_numbered:
  "sorted_wrt (<) (List.map_filter event_number es) \<Longrightarrow>
     sorted (map (\<lambda>e. the (event_number e)) (filter (\<lambda>e. case event_number e of Some q \<Rightarrow> n < q | None \<Rightarrow> False) es))"
  by (induction es) (auto simp: List.map_filter_simps set_map_filter less_imp_le split: option.splits)

lemma stream_in_log_order:
  "sequenced st \<Longrightarrow> fst (streamFrom n st) = filter (\<lambda>e. case event_number e of Some q \<Rightarrow> n < q | None \<Rightarrow> False) (events_of st)"
  by (simp add: streamFrom_def case_prod_beta readEvents_fst sequenced_def sequences_def sorted_numbered sort_key_id_if_sorted)

section \<open>Retention\<close>

text \<open>
  Archiving moves events and loses none: what was readable before is, as a multiset, what the new archive file holds
  together with what is still readable, the counts returned are those of the two, and no event past the retention period stays.
\<close>

theorem archive_conserves_events:
  "\<exists>new. st_archives (snd (runRetentionArchive now st)) = st_archives st @ new
     \<and> mset (events_of st) = mset (concat new) + mset (events_of (snd (runRetentionArchive now st)))
     \<and> fst (runRetentionArchive now st) = (length (concat new), length (events_of (snd (runRetentionArchive now st))))
     \<and> filter (expired now st) (events_of (snd (runRetentionArchive now st))) = []"
  by (rule exI [of _ "let a = filter (expired now st) (events_of st) in if a = [] then [] else [a]"])
    (simp add: events_of_archive Let_def, auto simp: runRetentionArchive_def case_prod_beta archive_read_simps archive_write_def filter_empty_conv filter_id_conv
      simp flip: mset_filter)

text \<open>
  Archiving takes no lock: an event appended while it works, after its read and before its rewriting of the log, is
  acknowledged to the caller and then gone, from the log and from the archives.
\<close>

theorem append_during_archive_is_lost:
  assumes "archive_read now st = (moved, st1)" and "fst moved \<noteq> []" and "append_event t event st1 = (Inr stored, st2)"
  shows "st_log (archive_write moved st2) = st_log (archive_write moved st1) \<and> st_archives (archive_write moved st2) = st_archives (archive_write moved st1)"
proof -
  have "st_archives st2 = st_archives st1"
    using assms(3) by (auto simp: append_event_def Let_def split: if_splits)
  with assms(2) show ?thesis by (cases moved) (simp add: archive_write_def)
qed

lemma demo_events: "events_of demo_store = [ev ''CredentialIssued'' ''c'' 1000 [], ev ''CredentialRevoked'' ''c'' 2000 []]"
  by (simp add: demo_store_def events_of_def List.map_filter_def ev_def fld_def migrate_current)

lemma demo_expired: "n \<in> {1000, 2000} \<Longrightarrow> expired (90 * ONE_DAY_MS + 1500) demo_store (ev ty c n p) \<longleftrightarrow> n = 1000"
  by (auto simp: expired_def ev_def fld_def date_of_def date_parse_iso END_OF_TIME_def demo_store_def ONE_DAY_MS_def)

theorem append_during_archive_is_lost_witness:
  "st_log (archive_write ([ev ''CredentialIssued'' ''c'' 1000 []], [ev ''CredentialRevoked'' ''c'' 2000 []])
        (snd (append_event (90 * ONE_DAY_MS + 1600) [] (snd (archive_read (90 * ONE_DAY_MS + 1500) demo_store)))))
      = st_log (archive_write ([ev ''CredentialIssued'' ''c'' 1000 []], [ev ''CredentialRevoked'' ''c'' 2000 []])
        (snd (archive_read (90 * ONE_DAY_MS + 1500) demo_store)))
    \<and> st_archives (archive_write ([ev ''CredentialIssued'' ''c'' 1000 []], [ev ''CredentialRevoked'' ''c'' 2000 []])
        (snd (append_event (90 * ONE_DAY_MS + 1600) [] (snd (archive_read (90 * ONE_DAY_MS + 1500) demo_store)))))
      = st_archives (archive_write ([ev ''CredentialIssued'' ''c'' 1000 []], [ev ''CredentialRevoked'' ''c'' 2000 []])
        (snd (archive_read (90 * ONE_DAY_MS + 1500) demo_store)))"
proof (rule append_during_archive_is_lost)
  show "archive_read (90 * ONE_DAY_MS + 1500) demo_store = (([ev ''CredentialIssued'' ''c'' 1000 []], [ev ''CredentialRevoked'' ''c'' 2000 []]),
      snd (archive_read (90 * ONE_DAY_MS + 1500) demo_store))"
    by (rule prod_eqI) (simp_all add: archive_read_simps demo_events demo_expired)
  show "append_event (90 * ONE_DAY_MS + 1600) [] (snd (archive_read (90 * ONE_DAY_MS + 1500) demo_store))
     = (Inr (stored_event (90 * ONE_DAY_MS + 1600) (st_sequence (snd (archive_read (90 * ONE_DAY_MS + 1500) demo_store)) + 1) []),
        snd (append_event (90 * ONE_DAY_MS + 1600) [] (snd (archive_read (90 * ONE_DAY_MS + 1500) demo_store))))"
    by (simp add: append_event_def Let_def stored_event_def)
qed simp

text \<open>
  A credential whose issuance was archived is no longer known: replay gives \<open>null\<close> for it, though its later events,
  a revocation among them, are still in the log.
\<close>

theorem archived_issuance_is_forgotten:
  assumes "credentialId \<noteq> ''''" and "getSnapshot credentialId st = None"
    and "\<forall>e \<in> set (events_of st). fld e ''aggregateId'' = JStr credentialId \<longrightarrow> fld e ''type'' = JStr ''CredentialIssued'' \<longrightarrow> expired now st e"
  shows "fst (reconstructCredential credentialId (snd (runRetentionArchive now st))) = None"
proof -
  have "getSnapshot credentialId (snd (runRetentionArchive now st)) = None"
    using assms(2) by (simp add: getSnapshot_def runRetentionArchive_def case_prod_beta archive_read_simps archive_write_def)
  then show ?thesis
    using assms(1,3) by (simp add: reconstruct_no_snapshot readEvents_fst passes_aggregate events_of_archive)
      (auto intro!: apply_all_not_issued)
qed

theorem archived_issuance_is_forgotten_witness:
  "fst (reconstructCredential ''c'' (snd (runRetentionArchive (90 * ONE_DAY_MS + 1500) demo_store))) = None"
proof (rule archived_issuance_is_forgotten)
  show "\<forall>e \<in> set (events_of demo_store). fld e ''aggregateId'' = JStr ''c'' \<longrightarrow> fld e ''type'' = JStr ''CredentialIssued''
      \<longrightarrow> expired (90 * ONE_DAY_MS + 1500) demo_store e"
    by (simp add: demo_events demo_expired) (simp add: ev_def fld_def)
qed (simp_all add: demo_store_def getSnapshot_def)

section \<open>Queries\<close>

text \<open>
  \<open>event-routes.js\<close>: the filter of the stream and of the long poll, what a long poll with \<open>since_id\<close> answers at once, and
  the query and replay routes. An absent parameter is \<open>None\<close>; \<open>requestTenant\<close> is \<open>req.tenantId\<close>.
\<close>

definition str_or :: "string option \<Rightarrow> string option \<Rightarrow> string option" where
  "str_or a b = (case a of Some (c # s) \<Rightarrow> Some (c # s) | _ \<Rightarrow> b)"

definition route_matches :: "string option \<Rightarrow> string option \<Rightarrow> js_object \<Rightarrow> bool" where
  "route_matches tenantFilter typeFilter event =
    ((case tenantFilter of Some (c # s) \<Rightarrow> fld event ''tenantId'' = JStr (c # s) \<or> c # s = ''all'' | _ \<Rightarrow> True)
     \<and> (case typeFilter of Some (c # s) \<Rightarrow> fld event ''type'' = JStr (c # s) | _ \<Rightarrow> True))"

definition longpoll_pending :: "string option \<Rightarrow> string option \<Rightarrow> string \<Rightarrow> event_store \<Rightarrow> js_object list \<times> event_store" where
  "longpoll_pending tenantFilter typeFilter sinceId st = (case readEvents None tenantFilter JNull st of (events, st') \<Rightarrow>
     (filter (\<lambda>e. route_matches tenantFilter typeFilter e
        \<and> (case fld e ''id'' of JStr i \<Rightarrow> i \<noteq> [] \<and> sinceId < i | _ \<Rightarrow> False)) events, st'))"

datatype event_reply =
    EventPage nat "js_object list"
  | ReplayState string string js_object
  | EventFailure nat string

definition query_events :: "string option \<Rightarrow> string option \<Rightarrow> string option \<Rightarrow> string option \<Rightarrow> event_store \<Rightarrow> event_reply \<times> event_store" where
  "query_events aggregateId tenant requestTenant fromTimestamp st =
    (case readEvents aggregateId (str_or tenant requestTenant) (case fromTimestamp of Some s \<Rightarrow> JStr s | None \<Rightarrow> JNull) st of
       (events, st') \<Rightarrow> (EventPage (length events) events, st'))"

definition query_replay :: "string option \<Rightarrow> string option \<Rightarrow> event_store \<Rightarrow> event_reply \<times> event_store" where
  "query_replay ty aggregateId st = (let aggregateType = the (str_or ty (Some ''credential'')) in
     case aggregateId of Some (c # s) \<Rightarrow>
       (case (if aggregateType = ''did'' then reconstructDid (c # s) st
              else (case reconstructCredential (c # s) st of (state, st') \<Rightarrow> (Inr state, st'))) of
          (Inl err, st') \<Rightarrow> (EventFailure 500 ''ReplayError'', st')
        | (Inr None, st') \<Rightarrow> (EventFailure 404 ''AggregateNotFound'', st')
        | (Inr (Some state), st') \<Rightarrow> (ReplayState (c # s) aggregateType state, st'))
     | _ \<Rightarrow> (EventFailure 400 ''MissingAggregateId'', st))"

text \<open>
  A long poll with \<open>since_id\<close> does not answer the events after that one: ids are random, and it compares them as texts.
  Whatever the order of two events in the log, the one is answered as new exactly if its id is the greater text.
\<close>

theorem longpoll_compares_random_ids:
  assumes "events_of st = [e1, e2]" and "fld e1 ''id'' = JStr i1" and "fld e2 ''id'' = JStr i2" and "i1 \<noteq> ''''" and "i2 \<noteq> ''''"
  shows "fst (longpoll_pending None None i1 st) = (if i1 < i2 then [e2] else []) \<and> fst (longpoll_pending None None i2 st) = (if i2 < i1 then [e1] else [])"
  using assms by (simp add: longpoll_pending_def case_prod_beta readEvents_fst route_matches_def)

theorem longpoll_compares_random_ids_witness:
  "fst (longpoll_pending None None ''evt_9'' (demo_store\<lparr>st_log := [Some (jm_set ''id'' (JStr ''evt_9'') (ev ''CredentialIssued'' ''c'' 1000 [])),
       Some (jm_set ''id'' (JStr ''evt_3'') (ev ''CredentialRevoked'' ''c'' 2000 []))]\<rparr>))
     = (if ''evt_9'' < ''evt_3'' then [jm_set ''id'' (JStr ''evt_3'') (ev ''CredentialRevoked'' ''c'' 2000 [])] else [])
   \<and> fst (longpoll_pending None None ''evt_3'' (demo_store\<lparr>st_log := [Some (jm_set ''id'' (JStr ''evt_9'') (ev ''CredentialIssued'' ''c'' 1000 [])),
       Some (jm_set ''id'' (JStr ''evt_3'') (ev ''CredentialRevoked'' ''c'' 2000 []))]\<rparr>))
     = (if ''evt_3'' < ''evt_9'' then [jm_set ''id'' (JStr ''evt_9'') (ev ''CredentialIssued'' ''c'' 1000 [])] else [])"
  by (rule longpoll_compares_random_ids) (simp_all add: events_of_def List.map_filter_def ev_def fld_def migrate_current)

end
