(* ===== verification/Base58.thy ===== *)
theory Base58
  imports JsValue
begin

text \<open>
  Models \<open>base58btcEncode\<close> and \<open>base58btcDecode\<close> of \<open>server/src/vc-jsonld.js\<close>: the conversion of a byte string to the base
  of 58 characters and back, digit by digit as the code does it, with the leading zero bytes written as the character 1.

  Digits are natural numbers, the least significant first. The carries stay below \<open>256 * 58 + 256\<close>, so the 32-bit
  operations of the code (\<open>| 0\<close>, \<open>& 0xff\<close>, \<open>>>= 8\<close>) are division and remainder.
\<close>

section \<open>The program\<close>

definition BASE58_ALPHABET :: string where
  "BASE58_ALPHABET = ''123456789ABCDEFGHJKLMNPQRSTUVWXYZabcdefghijkmnopqrstuvwxyz''"

text \<open>\<open>while (carry > 0) { digits.push(carry % base); carry = carry / base }\<close>, for the bases 58 and 256\<close>

function push_carry :: "nat \<Rightarrow> nat \<Rightarrow> nat list" where
  "push_carry b carry = (if carry = 0 \<or> b < 2 then [] else carry mod b # push_carry b (carry div b))"
  by pat_completeness auto
termination
  by (relation "measure snd") auto

declare push_carry.simps [simp del]

text \<open>The inner loop: every digit is multiplied by \<open>m\<close>, the carry added, and the new digit taken in base \<open>b\<close>.\<close>

fun absorb :: "nat \<Rightarrow> nat \<Rightarrow> nat \<Rightarrow> nat list \<Rightarrow> nat list" where
  "absorb m b carry [] = push_carry b carry"
| "absorb m b carry (d # ds) = (carry + d * m) mod b # absorb m b ((carry + d * m) div b) ds"

definition convert_digits :: "nat \<Rightarrow> nat \<Rightarrow> nat list \<Rightarrow> nat list" where
  "convert_digits m b xs = foldl (\<lambda>ds x. absorb m b x ds) [0] xs"

definition base58btcEncode :: "byte list \<Rightarrow> string" where
  "base58btcEncode bytes = (if bytes = [] then ''''
     else let leadingZeros = length (takeWhile (\<lambda>b. b = 0) bytes);
       digits = convert_digits 256 58 (map unat (drop leadingZeros bytes))
     in replicate leadingZeros (CHR ''1'') @ map (\<lambda>d. BASE58_ALPHABET ! d) (rev digits))"

fun char_index :: "char \<Rightarrow> string \<Rightarrow> nat option" where
  "char_index c [] = None"
| "char_index c (d # s) = (if c = d then Some 0 else map_option Suc (char_index c s))"

definition base58_digit :: "char \<Rightarrow> thrown + nat" where
  "base58_digit c = (case char_index c BASE58_ALPHABET of
     None \<Rightarrow> Inl (ErrorThrown ''Error'' (''Invalid base58 character: '' @ [c])) | Some d \<Rightarrow> Inr d)"

definition base58btcDecode :: "string \<Rightarrow> thrown + byte list" where
  "base58btcDecode v = (let leadingOnes = length (takeWhile (\<lambda>c. c = CHR ''1'') v) in
     bind_result (map_result base58_digit (drop leadingOnes v)) (\<lambda>digits.
       Inr (replicate leadingOnes 0 @ map word_of_nat (rev (convert_digits 58 256 digits)))))"

section \<open>Values of digit lists\<close>

fun digits_val :: "nat \<Rightarrow> nat list \<Rightarrow> nat" where
  "digits_val b [] = 0"
| "digits_val b (d # ds) = d + b * digits_val b ds"

definition digits_ok :: "nat \<Rightarrow> nat list \<Rightarrow> bool" where
  "digits_ok b ds \<longleftrightarrow> (\<forall>d \<in> set ds. d < b)"

text \<open>No superfluous zero at the significant end.\<close>

definition no_top_zero :: "nat list \<Rightarrow> bool" where
  "no_top_zero ds \<longleftrightarrow> (ds = [] \<or> last ds \<noteq> 0)"

lemma digits_val_append: "digits_val b (xs @ ys) = digits_val b xs + b ^ length xs * digits_val b ys"
  by (induction xs) (simp_all add: algebra_simps)

lemma push_carry_spec:
  "2 \<le> b \<Longrightarrow> digits_val b (push_carry b c) = c \<and> digits_ok b (push_carry b c) \<and> no_top_zero (push_carry b c)
     \<and> (push_carry b c = [] \<longleftrightarrow> c = 0)"
proof (induction b c rule: push_carry.induct)
  case (1 b c)
  show ?case
  proof (cases "c = 0")
    case False
    then have "push_carry b c = c mod b # push_carry b (c div b)"
      using 1(2) by (subst push_carry.simps) simp
    moreover have "c div b = 0 \<Longrightarrow> c mod b \<noteq> 0"
      using False by (metis div_mult_mod_eq add_0 mult_0)
    ultimately show ?thesis
      using 1 False by (auto simp: digits_ok_def no_top_zero_def)
  qed (subst (1 2 3 4) push_carry.simps, simp add: digits_ok_def no_top_zero_def)
qed

lemma absorb_spec:
  assumes "2 \<le> b"
  shows "digits_val b (absorb m b c ds) = c + m * digits_val b ds" and "digits_ok b (absorb m b c ds)"
proof -
  show "digits_val b (absorb m b c ds) = c + m * digits_val b ds"
  proof (induction ds arbitrary: c)
    case (Cons d ds)
    have "(c + d * m) mod b + b * ((c + d * m) div b) = c + d * m" by simp
    with Cons show ?case by (simp add: algebra_simps)
  qed (simp add: push_carry_spec assms)
  show "digits_ok b (absorb m b c ds)"
    using assms by (induction ds arbitrary: c) (simp_all add: push_carry_spec, simp add: digits_ok_def)
qed

lemma absorb_top:
  "2 \<le> b \<Longrightarrow> 0 < m \<Longrightarrow> no_top_zero ds \<Longrightarrow> no_top_zero (absorb m b c ds)"
proof (induction ds arbitrary: c)
  case (Cons d ds)
  have ds: "no_top_zero ds" "ds = [] \<Longrightarrow> d \<noteq> 0" using Cons.prems(3) by (auto simp: no_top_zero_def split: if_splits)
  have ih: "no_top_zero (absorb m b ((c + d * m) div b) ds)" using Cons ds(1) by blast
  show ?case
  proof (cases "absorb m b ((c + d * m) div b) ds = []")
    case True
    then have "ds = []" by (cases ds) auto
    with True have "(c + d * m) div b = 0" using push_carry_spec [of b "(c + d * m) div b"] Cons.prems(1) by simp
    moreover have "c + d * m \<noteq> 0" using ds(2) \<open>ds = []\<close> Cons.prems(2) by simp
    ultimately have "(c + d * m) mod b \<noteq> 0" by (metis div_mult_mod_eq add_0 mult_0)
    with True show ?thesis by (simp add: no_top_zero_def)
  next
    case False
    with ih show ?thesis by (simp add: no_top_zero_def)
  qed
qed (simp add: push_carry_spec)

lemma digits_val_zero: "digits_val b zs = 0 \<Longrightarrow> digits_ok b zs \<Longrightarrow> \<forall>d \<in> set zs. d = 0"
proof (induction zs)
  case (Cons z zs)
  then have "0 < b" "digits_ok b zs" by (auto simp: digits_ok_def)
  with Cons show ?case by simp
qed simp

lemma digits_val_0: "digits_val b zs = 0 \<Longrightarrow> digits_ok b zs \<Longrightarrow> no_top_zero zs \<Longrightarrow> zs = []"
  using digits_val_zero [of b zs] by (metis last_in_set no_top_zero_def)

lemma digits_unique:
  "digits_ok b xs \<Longrightarrow> digits_ok b ys \<Longrightarrow> no_top_zero xs \<Longrightarrow> no_top_zero ys \<Longrightarrow> digits_val b xs = digits_val b ys \<Longrightarrow> xs = ys"
proof (induction xs arbitrary: ys)
  case Nil
  then show ?case using digits_val_0 [of b ys] by simp
next
  case (Cons x xs)
  then have "ys \<noteq> []" using digits_val_0 [of b "x # xs"] by auto
  then obtain y ys' where ys: "ys = y # ys'" by (cases ys) auto
  have lt: "x < b" "y < b" using Cons.prems by (auto simp: ys digits_ok_def)
  have eq: "x + b * digits_val b xs = y + b * digits_val b ys'" using Cons.prems by (simp add: ys)
  have "x = y" using eq lt by (metis mod_less mod_mult_self2)
  with eq lt have "digits_val b xs = digits_val b ys'" by simp
  moreover have "no_top_zero xs" "no_top_zero ys'"
    using Cons.prems by (auto simp: ys no_top_zero_def split: if_splits)
  ultimately show ?case
    using Cons \<open>x = y\<close> by (auto simp: ys digits_ok_def)
qed

lemma convert_snoc: "convert_digits m b (xs @ [x]) = absorb m b x (convert_digits m b xs)"
  by (simp add: convert_digits_def)

lemma convert_val: "2 \<le> b \<Longrightarrow> digits_val b (convert_digits m b xs) = digits_val m (rev xs)"
  by (induction xs rule: rev_induct) (simp_all add: convert_snoc absorb_spec(1), simp add: convert_digits_def)

lemma convert_ok: "2 \<le> b \<Longrightarrow> digits_ok b (convert_digits m b xs)"
  by (cases xs rule: rev_cases) (simp_all add: convert_snoc absorb_spec(2), simp add: convert_digits_def digits_ok_def)

text \<open>Without leading zeros the result has none either.\<close>

lemma convert_top:
  assumes "2 \<le> b" "0 < m" "xs \<noteq> []" "hd xs \<noteq> 0"
  shows "no_top_zero (convert_digits m b xs)"
  using assms(3,4)
proof (induction xs rule: rev_induct)
  case (snoc x xs)
  show ?case
  proof (cases "xs = []")
    case True
    then have e: "convert_digits m b (xs @ [x]) = x mod b # push_carry b (x div b)" "x \<noteq> 0"
      using snoc.prems by (simp_all add: convert_digits_def)
    moreover have "x div b = 0 \<Longrightarrow> x mod b \<noteq> 0" using e(2) by (metis div_mult_mod_eq add_0 mult_0)
    ultimately show ?thesis
      using push_carry_spec [OF assms(1), of "x div b"] by (auto simp: no_top_zero_def)
  next
    case False
    with snoc have "no_top_zero (convert_digits m b xs)" by simp
    then show ?thesis using absorb_top assms(1,2) by (simp add: convert_snoc)
  qed
qed simp

text \<open>Converting to one base and back gives the digits.\<close>

lemma convert_back:
  assumes "2 \<le> b" "2 \<le> m" "digits_ok m (rev xs)" "xs \<noteq> []" "hd xs \<noteq> 0"
  shows "convert_digits b m (rev (convert_digits m b xs)) = rev xs"
proof (rule digits_unique)
  have top: "no_top_zero (convert_digits m b xs)" using convert_top assms by simp
  have top': "no_top_zero (rev xs)" using assms(4,5) by (simp add: no_top_zero_def last_rev)
  have "digits_val m (rev xs) \<noteq> 0" using digits_val_0 assms(3,4) top' by (metis rev_is_Nil_conv)
  then have "digits_val b (convert_digits m b xs) \<noteq> 0" using convert_val assms(1) by simp
  then have "convert_digits m b xs \<noteq> []" by auto
  then show "no_top_zero (convert_digits b m (rev (convert_digits m b xs)))"
    using top assms(1,2) by (intro convert_top) (auto simp: no_top_zero_def hd_rev)
  show "digits_val m (convert_digits b m (rev (convert_digits m b xs))) = digits_val m (rev xs)"
    using convert_val assms(1,2) by simp
  show "digits_ok m (convert_digits b m (rev (convert_digits m b xs)))" using convert_ok assms(2) by simp
  show "no_top_zero (rev xs)" by (rule top')
qed (rule assms(3))

section \<open>The alphabet\<close>

lemma char_index_nth: "distinct s \<Longrightarrow> i < length s \<Longrightarrow> char_index (s ! i) s = Some i"
proof (induction s arbitrary: i)
  case (Cons d s)
  then show ?case by (cases i) auto
qed simp

lemma alphabet: "distinct BASE58_ALPHABET" "length BASE58_ALPHABET = 58" "BASE58_ALPHABET ! 0 = CHR ''1''"
  by code_simp+

lemma base58_digit_nth: "d < 58 \<Longrightarrow> base58_digit (BASE58_ALPHABET ! d) = Inr d"
  by (simp add: base58_digit_def char_index_nth alphabet)

lemma map_base58_digit: "digits_ok 58 ds \<Longrightarrow> map_result base58_digit (map (\<lambda>d. BASE58_ALPHABET ! d) ds) = Inr ds"
  by (induction ds) (simp_all add: digits_ok_def base58_digit_nth)

lemma nth_not_1: "d < 58 \<Longrightarrow> d \<noteq> 0 \<Longrightarrow> BASE58_ALPHABET ! d \<noteq> CHR ''1''"
  using nth_eq_iff_index_eq [OF alphabet(1), of d 0] alphabet by simp

section \<open>Round trips\<close>

lemma decode_text:
  assumes "t \<noteq> [] \<Longrightarrow> hd t \<noteq> CHR ''1''" "map_result base58_digit t = Inr ds"
  shows "base58btcDecode (replicate z (CHR ''1'') @ t) = Inr (replicate z 0 @ map word_of_nat (rev (convert_digits 58 256 ds)))"
proof -
  have "takeWhile (\<lambda>c. c = CHR ''1'') t = []" using assms(1) by (cases t) auto
  then have "takeWhile (\<lambda>c. c = CHR ''1'') (replicate z (CHR ''1'') @ t) = replicate z (CHR ''1'')"
    by (simp add: takeWhile_append)
  then show ?thesis by (simp add: base58btcDecode_def Let_def assms(2))
qed

lemma split_zeros: "bs = replicate (length (takeWhile (\<lambda>b. b = 0) bs)) 0 @ dropWhile (\<lambda>b. b = 0) bs"
proof -
  have "takeWhile (\<lambda>b. b = 0) bs = replicate (length (takeWhile (\<lambda>b. b = 0) bs)) 0"
    by (induction bs) auto
  then show ?thesis by (metis takeWhile_dropWhile_id)
qed

lemma encode_decode:
  assumes "\<exists>b \<in> set bs. b \<noteq> 0"
  shows "base58btcDecode (base58btcEncode bs) = Inr bs"
proof -
  define z where "z = length (takeWhile (\<lambda>b. b = 0) bs)"
  define rest where "rest = dropWhile (\<lambda>b. b = 0) bs"
  have bs: "bs = replicate z 0 @ rest" using split_zeros by (simp add: z_def rest_def)
  have rest: "rest \<noteq> []" "hd rest \<noteq> 0"
    using assms hd_dropWhile [of "\<lambda>b. b = 0" bs] by (auto simp: rest_def dropWhile_eq_Nil_conv)
  let ?xs = "map unat rest"
  let ?ds = "convert_digits 256 58 ?xs"
  have ok: "digits_ok 256 (rev ?xs)"
    using unsigned_less [where 'b = 8 and 'a = nat] by (auto simp: digits_ok_def)
  have hd0: "hd ?xs \<noteq> 0" using rest by (simp add: hd_map unat_eq_0)
  have conv: "convert_digits 58 256 (rev ?ds) = rev ?xs"
    using convert_back [OF _ _ ok] rest hd0 by simp
  have "no_top_zero ?ds" using convert_top rest hd0 by simp
  moreover have dok: "digits_ok 58 ?ds" by (rule convert_ok) simp
  ultimately have top: "rev ?ds \<noteq> [] \<Longrightarrow> BASE58_ALPHABET ! hd (rev ?ds) \<noteq> CHR ''1''"
    using last_in_set [of ?ds] nth_not_1 [of "last ?ds"] by (simp add: no_top_zero_def hd_rev digits_ok_def)
  have "drop z bs = rest" "bs \<noteq> []" using assms by (auto simp: rest_def z_def dropWhile_eq_drop)
  then have "base58btcEncode bs = replicate z (CHR ''1'') @ map (\<lambda>d. BASE58_ALPHABET ! d) (rev ?ds)"
    by (simp add: base58btcEncode_def Let_def z_def [symmetric])
  moreover have "base58btcDecode (replicate z (CHR ''1'') @ map (\<lambda>d. BASE58_ALPHABET ! d) (rev ?ds))
      = Inr (replicate z 0 @ map word_of_nat (rev (convert_digits 58 256 (rev ?ds))))"
  proof (rule decode_text)
    show "map_result base58_digit (map (\<lambda>d. BASE58_ALPHABET ! d) (rev ?ds)) = Inr (rev ?ds)"
      using dok by (intro map_base58_digit) (simp add: digits_ok_def)
    assume "map (\<lambda>d. BASE58_ALPHABET ! d) (rev ?ds) \<noteq> []"
    then have "rev ?ds \<noteq> []" by simp
    with top show "hd (map (\<lambda>d. BASE58_ALPHABET ! d) (rev ?ds)) \<noteq> CHR ''1''" by (metis hd_map)
  qed
  moreover have "map word_of_nat (rev (rev ?xs)) = rest" by (simp add: comp_def)
  ultimately show ?thesis
    by (simp only: conv bs [symmetric])
qed

lemma encode_zeros: "0 < n \<Longrightarrow> base58btcDecode (base58btcEncode (replicate n 0)) = Inr (replicate (n + 2) 0)"
proof -
  assume n: "0 < n"
  have "base58btcEncode (replicate n 0) = replicate (Suc n) (CHR ''1'') @ []"
    using n by (simp add: base58btcEncode_def takeWhile_replicate Let_def convert_digits_def alphabet replicate_append_same)
  moreover have "base58btcDecode (replicate (Suc n) (CHR ''1'') @ []) = Inr (replicate (Suc n) 0 @ [0])"
    by (subst decode_text [where ds = "[]"]) (simp_all add: convert_digits_def)
  ultimately show ?thesis by (simp add: replicate_append_same)
qed

text \<open>
  C21. The base58 round trip: decoding gives back the encoded bytes exactly if one of them is not 0. Bytes that are all 0 come
  back longer, two more for a non-empty string and one for the empty one.
\<close>

theorem base58_round_trip:
  "(base58btcDecode (base58btcEncode bs) = Inr bs) = (\<exists>b \<in> set bs. b \<noteq> 0)"
proof (cases "\<exists>b \<in> set bs. b \<noteq> 0")
  case False
  then have bs: "bs = replicate (length bs) 0" by (induction bs) auto
  show ?thesis
  proof (cases "bs = []")
    case True
    have "base58btcDecode ([] :: string) = Inr [0]" by code_simp
    with True show ?thesis by (simp add: base58btcEncode_def)
  next
    case False
    then have "base58btcDecode (base58btcEncode bs) = Inr (replicate (length bs + 2) 0)"
      by (subst bs) (rule encode_zeros, simp)
    moreover have "replicate (length bs + 2) 0 \<noteq> bs" by (metis length_replicate add_eq_self_zero zero_neq_numeral)
    ultimately show ?thesis using \<open>\<not> (\<exists>b \<in> set bs. b \<noteq> 0)\<close> by simp
  qed
qed (simp add: encode_decode)

end
