(* ===== verification/VcJsonld.thy ===== *)
theory VcJsonld
  imports JsObject Jcs Base58 IsoDate Signing
begin

text \<open>
  Models \<open>server/src/vc-jsonld.js\<close>: credentials and presentations in the JSON-LD form of the W3C, their Data Integrity proofs,
  selective disclosure, expansion and compaction, and the checks of both documents. (The base 58 conversion of the same
  file is the theory \<open>Base58\<close>; the JWT form is not modelled.)

  Documents are JavaScript objects; SHA-256, signing with the configured key and verifying with a public key are parameters.
  Dates are those of \<open>IsoDate\<close>: whole seconds before the year 10000, and \<open>Date.parse\<close> of the texts \<open>toISOString\<close> gives.
  Names of members of \<open>Object.prototype\<close> do not occur as keys or types of documents.
\<close>

section \<open>Identifiers and contexts\<close>

definition VC_CONTEXT_V1 :: string where
  "VC_CONTEXT_V1 = ''https://www.w3.org/2018/credentials/v1''"

definition VC_CONTEXT_V2 :: string where
  "VC_CONTEXT_V2 = ''https://www.w3.org/ns/credentials/v2''"

definition DATA_INTEGRITY_CONTEXT :: string where
  "DATA_INTEGRITY_CONTEXT = ''https://w3id.org/security/data-integrity/v2''"

definition CREDENTIAL_STATUS_TYPE :: string where
  "CREDENTIAL_STATUS_TYPE = ''SorobanCredentialStatus2024''"

definition PRESENTATION_TYPE :: string where
  "PRESENTATION_TYPE = ''VerifiablePresentation''"

definition CRYPTOSUITE :: string where
  "CRYPTOSUITE = ''eddsa-jcs-2022''"

definition toDid :: "string option \<Rightarrow> string option" where
  "toDid v = (case v of None \<Rightarrow> None | Some s \<Rightarrow>
     if s = '''' then None else Some (if starts_with s ''did:'' then s else ''did:stellar:'' @ s))"

text \<open>\<open>encodeURIComponent\<close>\<close>

definition uri_unreserved :: "char \<Rightarrow> bool" where
  "uri_unreserved c = (let n = char_code c in (48 \<le> n \<and> n \<le> 57) \<or> (65 \<le> n \<and> n \<le> 90) \<or> (97 \<le> n \<and> n \<le> 122)
     \<or> c \<in> set ''-_.!~*'' \<or> n \<in> {39, 40, 41})"

definition encodeURIComponent :: "string \<Rightarrow> string" where
  "encodeURIComponent s = concat (map (\<lambda>c. if uri_unreserved c then [c]
     else concat (map (\<lambda>b. CHR ''%'' # to_upper (to_hex [b])) (utf8_bytes [c]))) s)"

text \<open>\<open>String(baseUrl).replace(/\/$/, '')\<close>\<close>

definition strip_slash :: "string \<Rightarrow> string" where
  "strip_slash s = (if s \<noteq> [] \<and> last s = CHR ''/'' then butlast s else s)"

definition resource_uri :: "string \<Rightarrow> string \<Rightarrow> string option \<Rightarrow> string" where
  "resource_uri kind i baseUrl = (case baseUrl of
     Some (c # s) \<Rightarrow> strip_slash (c # s) @ ''/'' @ kind @ ''s/'' @ encodeURIComponent i | _ \<Rightarrow> ''urn:'' @ kind @ '':'' @ i)"

definition credentialUri :: "string \<Rightarrow> string option \<Rightarrow> string" where
  "credentialUri i baseUrl = resource_uri ''credential'' i baseUrl"

definition presentationUri :: "string \<Rightarrow> string option \<Rightarrow> string" where
  "presentationUri i baseUrl = resource_uri ''presentation'' i baseUrl"

definition buildContext :: "string \<Rightarrow> string list \<Rightarrow> bool \<Rightarrow> string list" where
  "buildContext baseContext extraContexts is_signed =
     foldl (\<lambda>contexts c. if c \<noteq> '''' \<and> c \<notin> set contexts then contexts @ [c] else contexts)
       ([baseContext] @ (if is_signed \<and> baseContext = VC_CONTEXT_V1 then [DATA_INTEGRITY_CONTEXT] else [])) extraContexts"

section \<open>Credentials\<close>

text \<open>
  The internal record. \<open>ic_contexts\<close> is \<open>metadata['@context']\<close> where that is an array; an absent or zero time is \<open>None\<close>
  or \<open>Some 0\<close>.
\<close>

record internal_credential =
  ic_id :: string
  ic_subject :: "string option"
  ic_issuer :: "string option"
  ic_type :: "string option"
  ic_claims :: "js_object option"
  ic_issuedAt :: "nat option"
  ic_expiresAt :: "nat option"
  ic_revoked :: bool
  ic_contexts :: "string list option"

definition some_time :: "nat option \<Rightarrow> nat option" where
  "some_time t = (case t of Some n \<Rightarrow> if n = 0 then None else Some n | None \<Rightarrow> None)"

record status_info =
  si_status :: string
  si_revoked :: bool
  si_expired :: bool
  si_expiresAt :: "nat option"

definition credentialStatus :: "internal_credential option \<Rightarrow> nat \<Rightarrow> status_info" where
  "credentialStatus credential nowSeconds = (let
     expiresAt = some_time (Option.bind credential ic_expiresAt);
     is_expired = (case expiresAt of Some n \<Rightarrow> n < nowSeconds | None \<Rightarrow> False);
     revoked = (case credential of Some c \<Rightarrow> ic_revoked c | None \<Rightarrow> False)
   in \<lparr>si_status = (if revoked then ''revoked'' else if is_expired then ''expired'' else ''active''),
       si_revoked = revoked, si_expired = is_expired, si_expiresAt = expiresAt\<rparr>)"

record vc_options =
  vo_baseUrl :: "string option"
  vo_baseContext :: string
  vo_extraContexts :: "string list"
  vo_nowSeconds :: nat

definition iso_seconds :: "nat \<Rightarrow> jv" where
  "iso_seconds n = JStr (iso_string (n * 1000))"

definition strings :: "string list \<Rightarrow> jv" where
  "strings ss = JArr (map JStr ss)"

definition toVerifiableCredential :: "internal_credential \<Rightarrow> vc_options \<Rightarrow> js_object" where
  "toVerifiableCredential credential options = (let
     isV2 = (vo_baseContext options = VC_CONTEXT_V2);
     credentialContexts = (case ic_contexts credential of Some cs \<Rightarrow> cs | None \<Rightarrow> []);
     types = ''VerifiableCredential'' # (case ic_type credential of
       Some t \<Rightarrow> if t \<noteq> '''' \<and> t \<noteq> ''VerifiableCredential'' then [t] else [] | None \<Rightarrow> []);
     issuedAtSeconds = (case some_time (ic_issuedAt credential) of Some n \<Rightarrow> n | None \<Rightarrow> vo_nowSeconds options)
   in [(''@context'', strings (buildContext (vo_baseContext options) (vo_extraContexts options @ credentialContexts) False)),
       (''id'', JStr (credentialUri (ic_id credential) (vo_baseUrl options))),
       (''type'', strings types),
       (''issuer'', JStr (case toDid (ic_issuer credential) of Some d \<Rightarrow> d | None \<Rightarrow> ''did:stellar:unknown'')),
       (''credentialSubject'', JObj (spread_into (case ic_claims credential of Some m \<Rightarrow> JObj m | None \<Rightarrow> JObj [])
          (case toDid (ic_subject credential) of Some d \<Rightarrow> [(''id'', JStr d)] | None \<Rightarrow> []))),
       (if isV2 then ''validFrom'' else ''issuanceDate'', iso_seconds issuedAtSeconds)]
     @ (case some_time (ic_expiresAt credential) of
          Some n \<Rightarrow> [(if isV2 then ''validUntil'' else ''expirationDate'', iso_seconds n)] | None \<Rightarrow> [])
     @ [(''credentialStatus'', JObj [(''id'', JStr (credentialUri (ic_id credential) (vo_baseUrl options) @ ''/status'')),
          (''type'', JStr CREDENTIAL_STATUS_TYPE)])])"

section \<open>Proofs\<close>

text \<open>\<open>{ proof: _, ...rest }\<close>\<close>

definition without :: "string \<Rightarrow> js_object \<Rightarrow> js_object" where
  "without k m = jm_delete k m"

definition proof_options :: "string \<Rightarrow> string \<Rightarrow> nat \<Rightarrow> js_object" where
  "proof_options verificationMethod proofPurpose created =
     [(''type'', JStr ''DataIntegrityProof''), (''cryptosuite'', JStr CRYPTOSUITE), (''created'', JStr (iso_string created)),
      (''verificationMethod'', JStr verificationMethod), (''proofPurpose'', JStr proofPurpose)]"

text \<open>What is signed: the digests of the canonical proof options and of the canonical document, one after the other.\<close>

definition signed_bytes :: "(byte list \<Rightarrow> byte list) \<Rightarrow> js_object \<Rightarrow> js_object \<Rightarrow> thrown + byte list" where
  "signed_bytes sha proofOptions unsecured =
     bind_result (canonicalize (JObj proofOptions)) (\<lambda>p. bind_result (canonicalize (JObj unsecured)) (\<lambda>d.
       Inr (sha (utf8_bytes p) @ sha (utf8_bytes d))))"

definition attachProof :: "(byte list \<Rightarrow> byte list) \<Rightarrow> (byte list \<Rightarrow> byte list) \<Rightarrow> string \<Rightarrow> string \<Rightarrow> nat \<Rightarrow> js_object \<Rightarrow> thrown + js_object" where
  "attachProof sha sign_key verificationMethod proofPurpose created document = (let
     proofOptions = proof_options verificationMethod proofPurpose created;
     unsecured = without ''proof'' document
   in bind_result (signed_bytes sha proofOptions unsecured) (\<lambda>bytes.
        Inr (jm_set ''proof'' (JObj (jm_set ''proofValue'' (JStr (CHR ''z'' # base58btcEncode (sign_key bytes))) proofOptions)) unsecured)))"

text \<open>A proof value that is no string has no text to decode.\<close>

definition verifyProof :: "(byte list \<Rightarrow> byte list) \<Rightarrow> (byte list \<Rightarrow> byte list \<Rightarrow> bool) \<Rightarrow> js_object \<Rightarrow> thrown + bool" where
  "verifyProof sha key_verify document = (let proof_node = fld document ''proof''; unsecured = without ''proof'' document in
     if \<not> js_truthy (opt_prop proof_node ''proofValue'') \<or> opt_prop proof_node ''cryptosuite'' \<noteq> JStr CRYPTOSUITE then Inr False
     else case (proof_node, opt_prop proof_node ''proofValue'') of
       (JObj p, JStr proofValue) \<Rightarrow>
         (case base58btcDecode (tl proofValue) of Inl e \<Rightarrow> Inr False | Inr signature \<Rightarrow>
            bind_result (signed_bytes sha (without ''proofValue'' p) unsecured) (\<lambda>bytes. Inr (key_verify bytes signature)))
     | _ \<Rightarrow> Inr False)"

section \<open>The serializer\<close>

record vc_config =
  vcBaseUrl :: "string option"
  vcBaseContext :: string
  vcExtraContexts :: "string list"
  vcProofVerificationMethod :: "string option"

definition non_empty_or :: "string option \<Rightarrow> string \<Rightarrow> string" where
  "non_empty_or a b = (case a of Some (c # s) \<Rightarrow> c # s | _ \<Rightarrow> b)"

text \<open>
  \<open>serialize(credential, options)\<close>; of the options only \<open>extraContexts\<close> is modelled, which replaces that of the
  configuration for the unsigned form and is added to it for the signed one. \<open>proofKey\<close> is the signing function, where a
  key is configured.
\<close>

definition server_vc :: "vc_config \<Rightarrow> nat \<Rightarrow> string list option \<Rightarrow> internal_credential \<Rightarrow> js_object" where
  "server_vc config now optContexts credential = toVerifiableCredential credential
     \<lparr>vo_baseUrl = vcBaseUrl config, vo_baseContext = vcBaseContext config,
      vo_extraContexts = (case optContexts of Some cs \<Rightarrow> cs | None \<Rightarrow> vcExtraContexts config), vo_nowSeconds = now div 1000\<rparr>"

definition vc_serialize :: "(byte list \<Rightarrow> byte list) \<Rightarrow> vc_config \<Rightarrow> (byte list \<Rightarrow> byte list) option \<Rightarrow> nat \<Rightarrow> string list option
    \<Rightarrow> internal_credential \<Rightarrow> thrown + js_object" where
  "vc_serialize sha config proofKey now optContexts credential = (let vc = server_vc config now optContexts credential
   in case proofKey of None \<Rightarrow> Inr vc
      | Some sign_key \<Rightarrow>
          attachProof sha sign_key (non_empty_or (vcProofVerificationMethod config) (js_string (fld vc ''issuer'') @ ''#key-1'')) ''assertionMethod'' now
            (jm_set ''@context'' (strings (buildContext (vcBaseContext config)
               (vcExtraContexts config @ (case optContexts of Some cs \<Rightarrow> cs | None \<Rightarrow> [])) True)) vc))"

section \<open>The checks\<close>

definition as_list :: "jv \<Rightarrow> jv list" where
  "as_list v = (case v of JArr vs \<Rightarrow> vs | _ \<Rightarrow> [v])"

definition context_errors :: "jv \<Rightarrow> string list" where
  "context_errors contexts = (if \<not> js_truthy contexts then [''Missing @context'']
     else case as_list contexts of
       c # cs \<Rightarrow> if c \<noteq> JStr VC_CONTEXT_V1 \<and> c \<noteq> JStr VC_CONTEXT_V2
         then [''First @context entry must be '' @ VC_CONTEXT_V1 @ '' or '' @ VC_CONTEXT_V2] else []
     | [] \<Rightarrow> [''First @context entry must be '' @ VC_CONTEXT_V1 @ '' or '' @ VC_CONTEXT_V2])"

definition types_of :: "jv \<Rightarrow> jv list" where
  "types_of v = (if js_truthy v then as_list v else [])"

definition proof_errors :: "jv \<Rightarrow> string list" where
  "proof_errors v = (if \<not> js_truthy v then []
     else concat (map (\<lambda>p. concat (map (\<lambda>k. if js_truthy (opt_prop p k) then [] else [''proof must have a '' @ k])
       [''type'', ''proofPurpose'', ''verificationMethod''])) (as_list v)))"

text \<open>\<open>/^[a-z][a-z0-9+.-]*:/i.test(s)\<close>\<close>

definition has_scheme :: "string \<Rightarrow> bool" where
  "has_scheme s = (case to_lower s of [] \<Rightarrow> False | c # t \<Rightarrow> c \<in> set ''abcdefghijklmnopqrstuvwxyz''
     \<and> (case dropWhile (\<lambda>d. d \<in> set ''abcdefghijklmnopqrstuvwxyz0123456789+.-'') t of d # _ \<Rightarrow> d = CHR '':'' | [] \<Rightarrow> False))"

definition issuer_errors :: "jv \<Rightarrow> string list" where
  "issuer_errors issuer = (if \<not> js_truthy issuer then [''Missing issuer'']
     else let issuerId = (case issuer of JStr s \<Rightarrow> issuer | _ \<Rightarrow> opt_prop issuer ''id'') in
       if \<not> js_truthy issuerId \<or> \<not> has_scheme (js_string issuerId) then [''issuer must be a URI, or an object with a URI id''] else [])"

definition parses_as_date :: "jv \<Rightarrow> bool" where
  "parses_as_date v = (date_parse (js_string v) \<noteq> None)"

definition date_errors :: "js_object \<Rightarrow> string list" where
  "date_errors credential = (let contexts = fld credential ''@context'';
     isV2 = (case contexts of JArr vs \<Rightarrow> JStr VC_CONTEXT_V2 \<in> set vs | _ \<Rightarrow> contexts = JStr VC_CONTEXT_V2);
     dateProperty = (if isV2 then ''validFrom'' else ''issuanceDate'')
   in if \<not> js_truthy (fld credential dateProperty) then [''Missing '' @ dateProperty]
      else if \<not> parses_as_date (fld credential dateProperty) then [dateProperty @ '' must be an XMLSchema dateTime''] else [])"

definition subject_entry_errors :: "jv \<Rightarrow> string list" where
  "subject_entry_errors entry = (case entry of
     JObj m \<Rightarrow> if m = [] then [''Each credentialSubject must contain at least one claim''] else []
   | JArr vs \<Rightarrow> if vs = [] then [''Each credentialSubject must contain at least one claim''] else []
   | _ \<Rightarrow> [''Each credentialSubject must be an object''])"

definition subject_errors :: "jv \<Rightarrow> string list" where
  "subject_errors subject = (if \<not> js_truthy subject then [''Missing credentialSubject'']
     else (if as_list subject = [] then [''credentialSubject must not be empty''] else [])
       @ concat (map subject_entry_errors (as_list subject)))"

text \<open>The errors found; the document is valid if there are none.\<close>

definition validateVerifiableCredential :: "jv \<Rightarrow> string list" where
  "validateVerifiableCredential v = (case v of
     JObj credential \<Rightarrow>
       context_errors (fld credential ''@context'')
       @ (if JStr ''VerifiableCredential'' \<in> set (types_of (fld credential ''type'')) then [] else [''type must include '' @ [CHR 39] @ ''VerifiableCredential'' @ [CHR 39]])
       @ issuer_errors (fld credential ''issuer'') @ date_errors credential @ subject_errors (fld credential ''credentialSubject'')
       @ proof_errors (fld credential ''proof'')
   | _ \<Rightarrow> [''Credential must be a JSON object''])"

section \<open>Facts about proofs\<close>

lemma unat_byte: "n < 256 \<Longrightarrow> unat (of_nat n :: byte) = n"
  by (simp add: unat_of_nat)

lemma utf8_char_inject:
  assumes "utf8_bytes [c] @ x = utf8_bytes [d] @ y"
  shows "c = d \<and> x = y"
proof -
  have n: "char_code c < 256" "char_code d < 256" by (simp_all add: char_code_def)
  have one: "of_nat i = (of_nat j :: byte) \<longleftrightarrow> i = j" if "i < 256" "j < 256" for i j
    using that unat_byte by metis
  have "char_code c = char_code d \<and> x = y"
  proof (cases "char_code c < 128"; cases "char_code d < 128")
    assume "\<not> char_code c < 128" "\<not> char_code d < 128"
    with assms n have "of_nat (192 + char_code c div 64) = (of_nat (192 + char_code d div 64) :: byte)"
      "of_nat (128 + char_code c mod 64) = (of_nat (128 + char_code d mod 64) :: byte)" "x = y"
      by (simp_all add: utf8_bytes_def Let_def)
    moreover have "192 + char_code c div 64 < 256" "192 + char_code d div 64 < 256" "128 + char_code c mod 64 < 256" "128 + char_code d mod 64 < 256"
      using n by linarith+
    ultimately have "char_code c div 64 = char_code d div 64" "char_code c mod 64 = char_code d mod 64" "x = y"
      by (auto simp only: one)
    then show ?thesis by (metis div_mult_mod_eq)
  next
    assume a: "char_code c < 128" "\<not> char_code d < 128"
    then have "of_nat (char_code c) = (of_nat (192 + char_code d div 64) :: byte)" using assms by (simp add: utf8_bytes_def Let_def)
    moreover have "192 + char_code d div 64 < 256" using n by linarith
    ultimately have "char_code c = 192 + char_code d div 64" using one n by blast
    with a show ?thesis by linarith
  next
    assume a: "\<not> char_code c < 128" "char_code d < 128"
    then have "of_nat (192 + char_code c div 64) = (of_nat (char_code d) :: byte)" using assms by (simp add: utf8_bytes_def Let_def)
    moreover have "192 + char_code c div 64 < 256" using n by linarith
    ultimately have "192 + char_code c div 64 = char_code d" using one n by blast
    with a show ?thesis by linarith
  next
    assume "char_code c < 128" "char_code d < 128"
    with assms n one show ?thesis by (simp add: utf8_bytes_def Let_def)
  qed
  then show ?thesis by (simp add: char_code_eq)
qed

lemma utf8_Cons: "utf8_bytes (c # s) = utf8_bytes [c] @ utf8_bytes s"
  by (simp add: utf8_bytes_def)

lemma utf8_bytes_inject: "utf8_bytes s = utf8_bytes t \<longleftrightarrow> s = t"
proof
  show "utf8_bytes s = utf8_bytes t \<Longrightarrow> s = t"
  proof (induction s arbitrary: t)
    case Nil
    then show ?case by (cases t) (auto simp: utf8_bytes_def Let_def split: if_splits)
  next
    case (Cons c s)
    then obtain d t' where t: "t = d # t'" by (cases t) (auto simp: utf8_bytes_def Let_def split: if_splits)
    with Cons.prems have "utf8_bytes [c] @ utf8_bytes s = utf8_bytes [d] @ utf8_bytes t'"
      using utf8_Cons by metis
    with Cons.IH [of t'] show ?case using utf8_char_inject t by blast
  qed
qed simp

lemma without_set: "jm_get m k = None \<Longrightarrow> without k (jm_set k v m) = m"
  by (induction m) (auto simp: without_def jm_delete_def jm_get_def split: if_splits)

lemma without_get: "jm_get (without k m) k = None"
  by (simp add: without_def)

lemma without_proof_options: "without ''proofValue'' (jm_set ''proofValue'' v (proof_options a b t)) = proof_options a b t"
  by (rule without_set) (simp add: proof_options_def)

text \<open>What \<open>verifyProof\<close> computes for a document whose proof node has a text as its value.\<close>

lemma verifyProof_of:
  assumes "fld document ''proof'' = JObj p" "fld p ''cryptosuite'' = JStr CRYPTOSUITE" "fld p ''proofValue'' = JStr (CHR ''z'' # base58btcEncode sig)"
    and "\<exists>b \<in> set sig. b \<noteq> 0"
  shows "verifyProof sha key_verify document =
    bind_result (signed_bytes sha (without ''proofValue'' p) (without ''proof'' document)) (\<lambda>bytes. Inr (key_verify bytes sig))"
  using assms by (simp add: verifyProof_def Let_def opt_prop_def encode_decode)

lemma attachProof_Inr:
  "attachProof sha sign_key vm pp t document = Inr s \<longleftrightarrow> (\<exists>bytes. signed_bytes sha (proof_options vm pp t) (without ''proof'' document) = Inr bytes
     \<and> s = jm_set ''proof'' (JObj (jm_set ''proofValue'' (JStr (CHR ''z'' # base58btcEncode (sign_key bytes))) (proof_options vm pp t))) (without ''proof'' document))"
  by (auto simp: attachProof_def Let_def bind_result_Inr_iff)

lemma fld_proof_options [simp]: "fld (proof_options vm pp t) ''cryptosuite'' = JStr CRYPTOSUITE"
  by (simp add: proof_options_def fld_def)

text \<open>
  What the server signs verifies: the document \<open>attachProof\<close> returns passes \<open>verifyProof\<close> with the public key of the
  signing key. A verifying key accepts what its private key signs, and an Ed25519 signature is never all zeros.
\<close>

theorem attached_proof_verifies:
  assumes "attachProof sha sign_key verificationMethod proofPurpose created document = Inr s"
    and "\<And>m. key_verify m (sign_key m)" and "\<And>m. \<exists>b \<in> set (sign_key m). b \<noteq> 0"
  shows "verifyProof sha key_verify s = Inr True"
proof -
  obtain bytes where b: "signed_bytes sha (proof_options verificationMethod proofPurpose created) (without ''proof'' document) = Inr bytes"
    "s = jm_set ''proof'' (JObj (jm_set ''proofValue'' (JStr (CHR ''z'' # base58btcEncode (sign_key bytes)))
       (proof_options verificationMethod proofPurpose created))) (without ''proof'' document)"
    using assms(1) attachProof_Inr by blast
  have "verifyProof sha key_verify s = bind_result (signed_bytes sha (without ''proofValue'' (jm_set ''proofValue'' (JStr (CHR ''z'' # base58btcEncode (sign_key bytes)))
       (proof_options verificationMethod proofPurpose created))) (without ''proof'' s)) (\<lambda>m. Inr (key_verify m (sign_key bytes)))"
    by (rule verifyProof_of) (simp_all add: b(2) assms(3))
  then show ?thesis
    using assms(2) by (simp add: without_proof_options b without_set without_get)
qed

definition toy_sha :: "byte list \<Rightarrow> byte list" where
  "toy_sha bs = take 32 (bs @ replicate 32 0)"

definition toy_sign :: "byte list \<Rightarrow> byte list" where
  "toy_sign m = m @ [1]"

definition toy_verify :: "byte list \<Rightarrow> byte list \<Rightarrow> bool" where
  "toy_verify m sg \<longleftrightarrow> sg = m @ [1]"

theorem attached_proof_verifies_witness:
  "verifyProof toy_sha toy_verify (case attachProof toy_sha toy_sign ''did:x#key-1'' ''assertionMethod'' 0 [(''id'', JStr ''c'')] of Inr s \<Rightarrow> s) = Inr True"
proof (rule attached_proof_verifies [where sign_key = toy_sign])
  have "canonicalize (JObj (proof_options ''did:x#key-1'' ''assertionMethod'' 0)) = Inr (json_text (normal_form (JObj (proof_options ''did:x#key-1'' ''assertionMethod'' 0))))"
    "canonicalize (JObj (without ''proof'' [(''id'', JStr ''c'')])) = Inr (json_text (normal_form (JObj (without ''proof'' [(''id'', JStr ''c'')]))))"
    by (rule canonicalize_normal, simp add: proof_options_def without_def jm_delete_def)+
  then show "attachProof toy_sha toy_sign ''did:x#key-1'' ''assertionMethod'' 0 [(''id'', JStr ''c'')]
      = Inr (case attachProof toy_sha toy_sign ''did:x#key-1'' ''assertionMethod'' 0 [(''id'', JStr ''c'')] of Inr s \<Rightarrow> s)"
    by (simp add: attachProof_def signed_bytes_def Let_def del: canonicalize.simps)
qed (simp_all add: toy_sign_def toy_verify_def)

text \<open>The four objects whose canonical texts are hashed when a document is signed and another one verified.\<close>

definition signed_parts :: "string \<Rightarrow> string \<Rightarrow> nat \<Rightarrow> js_object \<Rightarrow> js_object \<Rightarrow> js_object \<Rightarrow> js_object set" where
  "signed_parts vm pp t document s' p' = {proof_options vm pp t, without ''proof'' document, without ''proof'' s', without ''proofValue'' p'}"

lemma same_text:
  assumes "inj_on sha {utf8_bytes t | t. \<exists>m \<in> S. canonicalize (JObj m) = Inr t}"
    and "m \<in> S" "canonicalize (JObj m) = Inr a" "n \<in> S" "canonicalize (JObj n) = Inr b" "sha (utf8_bytes a) = sha (utf8_bytes b)"
  shows "a = b"
proof -
  have "utf8_bytes a = utf8_bytes b" by (rule inj_onD [OF assms(1,6)]) (use assms in blast)+
  then show ?thesis by (simp add: utf8_bytes_inject)
qed


definition demo_document :: js_object where
  "demo_document = [(''id'', JStr ''c''), (''x'', JNull)]"

definition demo_options :: js_object where
  "demo_options = proof_options ''did:x#key-1'' ''assertionMethod'' 0"

definition demo_sha :: "byte list \<Rightarrow> byte list" where
  "demo_sha x = replicate 32 (if x = utf8_bytes (json_text (normal_form (JObj demo_options))) then 0 else 1)"

definition demo_proof :: js_object where
  "demo_proof = jm_set ''proofValue'' (JStr (CHR ''z'' # base58btcEncode (replicate 32 0 @ replicate 32 1 @ [1]))) demo_options"

lemma demo_json: "m \<in> {demo_options, demo_document, rev demo_document} \<Longrightarrow> is_json (JObj m) \<and> decimal_nums (JObj m)"
  by (auto simp: demo_options_def demo_document_def proof_options_def)

lemma demo_texts:
  "canonicalize (JObj demo_options) = Inr (json_text (normal_form (JObj demo_options)))"
  "canonicalize (JObj demo_document) = Inr (json_text (normal_form (JObj demo_document)))"
  "canonicalize (JObj (rev demo_document)) = Inr (json_text (normal_form (JObj demo_document)))"
  "json_text (normal_form (JObj demo_document)) \<noteq> json_text (normal_form (JObj demo_options))"
proof -
  show c: "canonicalize (JObj demo_options) = Inr (json_text (normal_form (JObj demo_options)))"
    "canonicalize (JObj demo_document) = Inr (json_text (normal_form (JObj demo_document)))"
    using demo_json canonicalize_normal by blast+
  have "normal_form (JObj (rev demo_document)) = normal_form (JObj demo_document)"
    by (simp add: demo_document_def sort_key_def)
  then show "canonicalize (JObj (rev demo_document)) = Inr (json_text (normal_form (JObj demo_document)))"
    using demo_json [of "rev demo_document"] canonicalize_normal [of "JObj (rev demo_document)"] by simp
  have "normal_form (JObj demo_document) \<noteq> normal_form (JObj demo_options)"
    by (simp add: demo_document_def demo_options_def proof_options_def sort_key_def)
  then show "json_text (normal_form (JObj demo_document)) \<noteq> json_text (normal_form (JObj demo_options))"
    using demo_json canonicalize_inject [of "JObj demo_document" "JObj demo_options"] c by auto
qed

lemma demo_signed: "signed_bytes demo_sha demo_options demo_document = Inr (replicate 32 0 @ replicate 32 1)"
  "signed_bytes demo_sha demo_options (rev demo_document) = Inr (replicate 32 0 @ replicate 32 1)"
  using demo_texts(4) by (simp_all add: signed_bytes_def demo_texts(1-3) demo_sha_def utf8_bytes_inject del: canonicalize.simps)

lemma demo_parts: "signed_parts ''did:x#key-1'' ''assertionMethod'' 0 demo_document ((''proof'', JObj demo_proof) # rev demo_document) demo_proof
    = {demo_options, demo_document, rev demo_document}"
proof -
  have "without ''proofValue'' demo_proof = demo_options" by (simp add: demo_proof_def demo_options_def without_proof_options)
  moreover have "without ''proof'' demo_document = demo_document" "without ''proof'' ((''proof'', JObj demo_proof) # rev demo_document) = rev demo_document"
    by (simp_all add: without_def jm_delete_def demo_document_def)
  ultimately show ?thesis by (auto simp: signed_parts_def demo_options_def [symmetric])
qed


section \<open>Facts about issued credentials\<close>

lemma fld_without [simp]: "k \<noteq> k' \<Longrightarrow> fld (without k' m) k = fld m k"
  by (simp add: fld_def without_def)

lemma buildContext_fold:
  "\<exists>t. foldl (\<lambda>contexts c. if c \<noteq> '''' \<and> c \<notin> set contexts then contexts @ [c] else contexts) cs es = cs @ t
     \<and> set (cs @ t) = set cs \<union> (set es - {''''})"
proof (induction es arbitrary: cs)
  case (Cons e es)
  show ?case
  proof (cases "e \<noteq> '''' \<and> e \<notin> set cs")
    case True
    from Cons.IH [of "cs @ [e]"] obtain t where
      "foldl (\<lambda>contexts c. if c \<noteq> '''' \<and> c \<notin> set contexts then contexts @ [c] else contexts) (cs @ [e]) es = (cs @ [e]) @ t"
      "set ((cs @ [e]) @ t) = set (cs @ [e]) \<union> (set es - {''''})" by iprover
    with True show ?thesis by (intro exI [of _ "e # t"]) auto
  next
    case False
    with Cons.IH [of cs] show ?thesis by auto
  qed
qed simp

lemma buildContext_spec:
  "\<exists>t. buildContext b es sg = b # t"
  "set (buildContext b es sg) = {b} \<union> (if sg \<and> b = VC_CONTEXT_V1 then {DATA_INTEGRITY_CONTEXT} else {}) \<union> (set es - {''''})"
proof -
  let ?cs = "[b] @ (if sg \<and> b = VC_CONTEXT_V1 then [DATA_INTEGRITY_CONTEXT] else [])"
  obtain t where t: "buildContext b es sg = ?cs @ t" "set (?cs @ t) = set ?cs \<union> (set es - {''''})"
    using buildContext_fold [where cs = ?cs and es = es] unfolding buildContext_def by iprover
  then show "\<exists>t. buildContext b es sg = b # t" by simp
  have "set ?cs = {b} \<union> (if sg \<and> b = VC_CONTEXT_V1 then {DATA_INTEGRITY_CONTEXT} else {})"
    by (cases "sg \<and> b = VC_CONTEXT_V1") (simp_all, blast+)
  with t(2) show "set (buildContext b es sg) = {b} \<union> (if sg \<and> b = VC_CONTEXT_V1 then {DATA_INTEGRITY_CONTEXT} else {}) \<union> (set es - {''''})"
    unfolding t(1) by (simp only:)
qed

lemma context_ok: "b \<in> {VC_CONTEXT_V1, VC_CONTEXT_V2} \<Longrightarrow> context_errors (strings (buildContext b es sg)) = []"
  using buildContext_spec(1) [of b es sg] by (auto simp: context_errors_def strings_def as_list_def)

lemma to_lower_did: "to_lower (''did:'' @ x) = ''did:'' @ to_lower x"
  by (simp add: to_lower_def lower_char_def char_code_def)

lemma did_scheme: "has_scheme (''did:'' @ x)"
  unfolding has_scheme_def to_lower_did by simp

lemma toDid_did: "toDid v = Some d \<Longrightarrow> \<exists>x. d = ''did:'' @ x"
  by (auto simp: toDid_def starts_with_iff split: option.splits if_splits)

lemma issuer_ok: "issuer_errors (JStr (case toDid v of Some d \<Rightarrow> d | None \<Rightarrow> ''did:stellar:unknown'')) = []"
proof -
  obtain x where "(case toDid v of Some d \<Rightarrow> d | None \<Rightarrow> ''did:stellar:unknown'') = ''did:'' @ x"
    using toDid_did by (cases "toDid v") (simp, fastforce)
  then show ?thesis using did_scheme [of x] by (simp add: issuer_errors_def)
qed

lemma jm_set_nonempty: "jm_set k v m \<noteq> []"
  by (induction k v m rule: jm_set.induct) auto

lemma fold_set_nonempty: "b \<noteq> [] \<Longrightarrow> fold (\<lambda>(k, x). jm_set k x) m b \<noteq> []"
proof (induction m arbitrary: b)
  case (Cons kv m)
  obtain k v where "kv = (k, v)" by fastforce
  then show ?case using Cons.IH [of "jm_set k v b"] jm_set_nonempty [of k v b] by simp
qed simp

lemma spread_empty: "spread_into (JObj m) b = [] \<longleftrightarrow> m = [] \<and> b = []"
proof (cases m)
  case (Cons kv n)
  obtain k v where "kv = (k, v)" by fastforce
  then show ?thesis using fold_set_nonempty [of "jm_set k v b" n] jm_set_nonempty [of k v b] by (simp add: spread_into_def Cons)
qed (simp add: spread_into_def)

lemma iso_ok: "n * 1000 < END_OF_TIME \<Longrightarrow> js_truthy (iso_seconds n) \<and> parses_as_date (iso_seconds n)"
  by (simp add: iso_seconds_def parses_as_date_def date_parse_iso) (simp add: iso_string_def Let_def split: prod.splits)

definition issued_seconds :: "internal_credential \<Rightarrow> nat \<Rightarrow> nat" where
  "issued_seconds credential now = (case some_time (ic_issuedAt credential) of Some n \<Rightarrow> n | None \<Rightarrow> now)"

lemma vc_fields:
  fixes credential o'
  defines "vc \<equiv> toVerifiableCredential credential o'"
  shows "fld vc ''@context'' = strings (buildContext (vo_baseContext o') (vo_extraContexts o' @ (case ic_contexts credential of Some cs \<Rightarrow> cs | None \<Rightarrow> [])) False)"
    and "\<exists>ts. fld vc ''type'' = strings (''VerifiableCredential'' # ts)"
    and "fld vc ''issuer'' = JStr (case toDid (ic_issuer credential) of Some d \<Rightarrow> d | None \<Rightarrow> ''did:stellar:unknown'')"
    and "fld vc ''credentialSubject'' = JObj (spread_into (case ic_claims credential of Some m \<Rightarrow> JObj m | None \<Rightarrow> JObj [])
          (case toDid (ic_subject credential) of Some d \<Rightarrow> [(''id'', JStr d)] | None \<Rightarrow> []))"
    and "fld vc (if vo_baseContext o' = VC_CONTEXT_V2 then ''validFrom'' else ''issuanceDate'') = iso_seconds (issued_seconds credential (vo_nowSeconds o'))"
    and "vo_baseContext o' \<noteq> VC_CONTEXT_V2 \<Longrightarrow> fld vc ''validFrom'' = JUndef"
    and "jm_get vc ''proof'' = None"
  unfolding vc_def by (auto simp: toVerifiableCredential_def Let_def fld_def issued_seconds_def split: option.splits)

lemma proof_node_ok:
  "vm \<noteq> '''' \<Longrightarrow> pp \<noteq> '''' \<Longrightarrow> proof_errors (JObj (jm_set ''proofValue'' v (proof_options vm pp t))) = []"
  by (simp add: proof_errors_def as_list_def opt_prop_def proof_options_def fld_def)

text \<open>A document with the fields of an issued credential, signed or not.\<close>

lemma validate_fields:
  assumes "b \<in> {VC_CONTEXT_V1, VC_CONTEXT_V2}" "fld d ''@context'' = strings (buildContext b es sg)" "fld d ''type'' = strings (''VerifiableCredential'' # ts)"
    and "issuer_errors (fld d ''issuer'') = []" "fld d ''credentialSubject'' = JObj sub"
    and "fld d (if b = VC_CONTEXT_V2 then ''validFrom'' else ''issuanceDate'') = iso_seconds n" "n * 1000 < END_OF_TIME"
    and "b \<noteq> VC_CONTEXT_V2 \<Longrightarrow> fld d ''validFrom'' = JUndef" "proof_errors (fld d ''proof'') = []"
  shows "validateVerifiableCredential (JObj d) = [] \<longleftrightarrow> sub \<noteq> [] \<and> (VC_CONTEXT_V2 \<in> set (buildContext b es sg) \<longrightarrow> b = VC_CONTEXT_V2)"
proof -
  let ?cs = "buildContext b es sg"
  have "b \<in> set ?cs" by (simp add: buildContext_spec(2))
  have v2: "JStr VC_CONTEXT_V2 \<in> set (map JStr ?cs) \<longleftrightarrow> VC_CONTEXT_V2 \<in> set ?cs" by auto
  have "date_errors d = [] \<longleftrightarrow> (VC_CONTEXT_V2 \<in> set ?cs \<longrightarrow> b = VC_CONTEXT_V2)"
    using assms(6,8) iso_ok [OF assms(7)] \<open>b \<in> set ?cs\<close>
    by (cases "b = VC_CONTEXT_V2") (auto simp: date_errors_def assms(2) strings_def Let_def v2)
  moreover have "subject_errors (JObj sub) = [] \<longleftrightarrow> sub \<noteq> []"
    by (simp add: subject_errors_def as_list_def subject_entry_errors_def)
  moreover have "JStr ''VerifiableCredential'' \<in> set (types_of (fld d ''type''))"
    by (simp add: assms(3) types_of_def strings_def as_list_def)
  ultimately show ?thesis
    using assms(4,5,9) context_ok [OF assms(1), of es sg] by (simp add: validateVerifiableCredential_def assms(2) conj_commute)
qed

lemma serialize_signed:
  assumes "vc_serialize sha config (Some sign_key) now optContexts credential = Inr d"
  shows "\<exists>vm v. vm \<noteq> '''' \<and> d = jm_set ''proof'' (JObj (jm_set ''proofValue'' v (proof_options vm ''assertionMethod'' now)))
    (without ''proof'' (jm_set ''@context'' (strings (buildContext (vcBaseContext config)
       (vcExtraContexts config @ (case optContexts of Some cs \<Rightarrow> cs | None \<Rightarrow> [])) True)) (server_vc config now optContexts credential)))"
proof -
  define vm where "vm = non_empty_or (vcProofVerificationMethod config) (js_string (fld (server_vc config now optContexts credential) ''issuer'') @ ''#key-1'')"
  have "vm \<noteq> ''''" by (simp add: vm_def non_empty_or_def split: option.splits list.splits)
  with assms show ?thesis
    unfolding vc_serialize_def Let_def vm_def [symmetric] by (auto simp: attachProof_Inr)
qed

text \<open>
  C19. Every credential the server emits is well formed: it passes the server's own check of the VC data model, signed or
  not, exactly if it names a subject or has a claim, and no extra context is the version 2 context where the base
  context is version 1 (the check then looks for the date property of version 2).
\<close>

theorem emitted_credential_is_well_formed:
  assumes "vc_serialize sha config proofKey now optContexts credential = Inr document"
    and "vcBaseContext config \<in> {VC_CONTEXT_V1, VC_CONTEXT_V2}"
    and "issued_seconds credential (now div 1000) * 1000 < END_OF_TIME"
  shows "validateVerifiableCredential (JObj document) = [] \<longleftrightarrow>
      (toDid (ic_subject credential) \<noteq> None \<or> (\<exists>kv m. ic_claims credential = Some (kv # m)))
      \<and> (JStr VC_CONTEXT_V2 \<in> set (as_list (fld document ''@context'')) \<longrightarrow> vcBaseContext config = VC_CONTEXT_V2)"
proof -
  note f = vc_fields [where credential = credential and o' = "\<lparr>vo_baseUrl = vcBaseUrl config, vo_baseContext = vcBaseContext config,
      vo_extraContexts = (case optContexts of Some cs \<Rightarrow> cs | None \<Rightarrow> vcExtraContexts config), vo_nowSeconds = now div 1000\<rparr>",
      folded server_vc_def, simplified]
  define sub where "sub = spread_into (case ic_claims credential of Some m \<Rightarrow> JObj m | None \<Rightarrow> JObj [])
    (case toDid (ic_subject credential) of Some d \<Rightarrow> [(''id'', JStr d)] | None \<Rightarrow> [])"
  have sub: "sub \<noteq> [] \<longleftrightarrow> toDid (ic_subject credential) \<noteq> None \<or> (\<exists>kv m. ic_claims credential = Some (kv # m))"
    by (cases "ic_claims credential"; cases "toDid (ic_subject credential)") (simp_all add: sub_def spread_empty, simp add: neq_Nil_conv)
  obtain ts where ts: "fld (server_vc config now optContexts credential) ''type'' = strings (''VerifiableCredential'' # ts)" using f(2) by iprover
  have "\<exists>es sg. fld document ''@context'' = strings (buildContext (vcBaseContext config) es sg)
    \<and> (\<forall>k. k \<noteq> ''@context'' \<longrightarrow> k \<noteq> ''proof'' \<longrightarrow> fld document k = fld (server_vc config now optContexts credential) k)
    \<and> proof_errors (fld document ''proof'') = []"
  proof (cases proofKey)
    case None
    then have "document = server_vc config now optContexts credential" using assms(1) by (simp add: vc_serialize_def Let_def)
    with f(1,7) show ?thesis by (auto simp: proof_errors_def fld_def)
  next
    case (Some sign_key)
    with serialize_signed assms(1) show ?thesis by (fastforce simp: proof_node_ok)
  qed
  then obtain es sg where d: "fld document ''@context'' = strings (buildContext (vcBaseContext config) es sg)"
    "\<And>k. k \<noteq> ''@context'' \<Longrightarrow> k \<noteq> ''proof'' \<Longrightarrow> fld document k = fld (server_vc config now optContexts credential) k"
    "proof_errors (fld document ''proof'') = []" by iprover
  have "validateVerifiableCredential (JObj document) = [] \<longleftrightarrow> sub \<noteq> []
      \<and> (VC_CONTEXT_V2 \<in> set (buildContext (vcBaseContext config) es sg) \<longrightarrow> vcBaseContext config = VC_CONTEXT_V2)"
    using ts f(3-6) issuer_ok [of "ic_issuer credential"]
    by (intro validate_fields [OF assms(2) d(1), where n = "issued_seconds credential (now div 1000)" and ts = ts])
      (simp_all add: d(2,3) sub_def assms(3))
  moreover have "JStr VC_CONTEXT_V2 \<in> set (as_list (fld document ''@context'')) \<longleftrightarrow> VC_CONTEXT_V2 \<in> set (buildContext (vcBaseContext config) es sg)"
    by (auto simp: d(1) strings_def as_list_def)
  ultimately show ?thesis by (simp only: sub)
qed

definition demo_credential :: internal_credential where
  "demo_credential = \<lparr>ic_id = ''c1'', ic_subject = Some ''GSUB'', ic_issuer = Some ''GISS'', ic_type = Some ''Kyc'', ic_claims = None,
     ic_issuedAt = Some 1700000000, ic_expiresAt = None, ic_revoked = False, ic_contexts = Some [''https://example.org/terms'']\<rparr>"

definition vc_demo_config :: vc_config where
  "vc_demo_config = \<lparr>vcBaseUrl = None, vcBaseContext = VC_CONTEXT_V1, vcExtraContexts = [], vcProofVerificationMethod = None\<rparr>"

theorem emitted_credential_is_well_formed_witness:
  "validateVerifiableCredential (JObj (server_vc vc_demo_config 0 None demo_credential)) = []"
proof -
  have "validateVerifiableCredential (JObj (server_vc vc_demo_config 0 None demo_credential)) = [] \<longleftrightarrow>
      (toDid (ic_subject demo_credential) \<noteq> None \<or> (\<exists>kv m. ic_claims demo_credential = Some (kv # m)))
      \<and> (JStr VC_CONTEXT_V2 \<in> set (as_list (fld (server_vc vc_demo_config 0 None demo_credential) ''@context'')) \<longrightarrow> vcBaseContext vc_demo_config = VC_CONTEXT_V2)"
    by (rule emitted_credential_is_well_formed [where proofKey = None])
      (simp_all add: vc_serialize_def vc_demo_config_def demo_credential_def issued_seconds_def some_time_def END_OF_TIME_def)
  then show ?thesis
    by (simp add: demo_credential_def vc_demo_config_def toDid_def server_vc_def toVerifiableCredential_def Let_def fld_def strings_def as_list_def
        buildContext_def VC_CONTEXT_V1_def VC_CONTEXT_V2_def)
qed

text \<open>
  Signing loses the credential's own contexts: a context that only the credential declares is in the unsigned form of the
  credential and not in the signed one, so the terms it defines are undefined there.
\<close>

theorem signing_drops_credential_contexts:
  assumes "ic_contexts credential = Some cs" and "c \<in> set cs" and "c \<noteq> ''''"
    and "c \<notin> {vcBaseContext config, DATA_INTEGRITY_CONTEXT} \<union> set (vcExtraContexts config)"
    and "vc_serialize sha config (Some sign_key) now None credential = Inr sdoc"
    and "vc_serialize sha config None now None credential = Inr unsigned_form"
  shows "JStr c \<in> set (as_list (fld unsigned_form ''@context'')) \<and> JStr c \<notin> set (as_list (fld sdoc ''@context''))"
proof -
  have "unsigned_form = server_vc config now None credential" using assms(6) by (simp add: vc_serialize_def Let_def)
  then have "as_list (fld unsigned_form ''@context'') = map JStr (buildContext (vcBaseContext config) (vcExtraContexts config @ cs) False)"
    by (simp add: server_vc_def vc_fields(1) assms(1) strings_def as_list_def)
  moreover have "as_list (fld sdoc ''@context'') = map JStr (buildContext (vcBaseContext config) (vcExtraContexts config) True)"
    using serialize_signed [OF assms(5)] by (auto simp: strings_def as_list_def)
  ultimately show ?thesis
    using assms(2-4) by (auto simp: buildContext_spec(2))
qed

theorem signing_drops_credential_contexts_witness:
  "JStr ''https://example.org/terms'' \<in> set (as_list (fld (server_vc vc_demo_config 0 None demo_credential) ''@context''))
   \<and> JStr ''https://example.org/terms'' \<notin> set (as_list (fld (case vc_serialize toy_sha vc_demo_config (Some toy_sign) 0 None demo_credential of Inr s \<Rightarrow> s) ''@context''))"
proof (rule signing_drops_credential_contexts [where cs = "[''https://example.org/terms'']"])
  let ?d = "without ''proof'' (jm_set ''@context'' (strings (buildContext (vcBaseContext vc_demo_config) (vcExtraContexts vc_demo_config @ []) True)) (server_vc vc_demo_config 0 None demo_credential))"
  have json: "is_json (JObj ?d)"
    by (simp add: server_vc_def toVerifiableCredential_def Let_def demo_credential_def vc_demo_config_def some_time_def without_def jm_delete_def
        strings_def list_all_iff VC_CONTEXT_V1_def VC_CONTEXT_V2_def iso_seconds_def toDid_def spread_into_def)
  have opts: "is_json (JObj (proof_options vm ''assertionMethod'' 0))" for vm by (simp add: proof_options_def)
  have "\<exists>b. signed_bytes toy_sha (proof_options vm ''assertionMethod'' 0) ?d = Inr b" for vm
    by (simp only: signed_bytes_def canonicalize_normal [OF opts] canonicalize_normal [OF json] bind_result_simps) blast
  then have "\<exists>s. attachProof toy_sha toy_sign vm ''assertionMethod'' 0 (jm_set ''@context'' (strings (buildContext (vcBaseContext vc_demo_config)
      (vcExtraContexts vc_demo_config @ []) True)) (server_vc vc_demo_config 0 None demo_credential)) = Inr s" for vm
    unfolding attachProof_Inr by blast
  then obtain s where "vc_serialize toy_sha vc_demo_config (Some toy_sign) 0 None demo_credential = Inr s"
    by (simp add: vc_serialize_def Let_def) blast
  then show "vc_serialize toy_sha vc_demo_config (Some toy_sign) 0 None demo_credential
      = Inr (case vc_serialize toy_sha vc_demo_config (Some toy_sign) 0 None demo_credential of Inr s \<Rightarrow> s)"
    by simp
qed (simp_all add: demo_credential_def vc_demo_config_def vc_serialize_def Let_def VC_CONTEXT_V1_def DATA_INTEGRITY_CONTEXT_def)

end
