(* ===== verification/VcPresentation.thy ===== *)
theory VcPresentation
  imports VcJsonld
begin

text \<open>
  Models the second part of \<open>server/src/vc-jsonld.js\<close>: verifiable presentations, selective disclosure, templates, the end to
  end check of a presentation, and expansion and compaction. The JWT form of presentations is not modelled.
\<close>

section \<open>Presentations\<close>

record vp_options =
  po_id :: "string option"
  po_holder :: "string option"
  po_challenge :: "string option"
  po_domain :: "string option"
  po_baseUrl :: "string option"
  po_baseContext :: string
  po_extraContexts :: "string list"
  po_expiresAt :: "nat option"
  po_nowSeconds :: nat

text \<open>The argument \<open>presentation\<close>; \<open>ps_credentials\<close> is \<open>None\<close> when \<open>verifiableCredential\<close> is no array.\<close>

record presentation_source =
  ps_credentials :: "jv list option"
  ps_holder :: "string option"
  ps_expiresAt :: "nat option"

definition normalizePresentedCredential :: "jv \<Rightarrow> jv" where
  "normalizePresentedCredential c = (case c of JStr s \<Rightarrow> JObj [(''id'', JStr s)] | _ \<Rightarrow> c)"

definition or_else :: "'a option \<Rightarrow> 'a option \<Rightarrow> 'a option" where
  "or_else a b = (case a of Some x \<Rightarrow> Some x | None \<Rightarrow> b)"

definition opt_member :: "string \<Rightarrow> string option \<Rightarrow> js_object" where
  "opt_member k v = (case v of Some (c # s) \<Rightarrow> [(k, JStr (c # s))] | _ \<Rightarrow> [])"

definition toVerifiablePresentation :: "presentation_source \<Rightarrow> vp_options \<Rightarrow> js_object" where
  "toVerifiablePresentation presentation options = (let
     isV2 = (po_baseContext options = VC_CONTEXT_V2);
     credentials = (case ps_credentials presentation of Some cs \<Rightarrow> map normalizePresentedCredential cs | None \<Rightarrow> []);
     expiry = some_time (or_else (po_expiresAt options) (ps_expiresAt presentation))
   in [(''@context'', strings (buildContext (po_baseContext options) (po_extraContexts options) False)),
       (''type'', strings [PRESENTATION_TYPE])]
     @ (case po_id options of Some (c # s) \<Rightarrow> [(''id'', JStr (presentationUri (c # s) (po_baseUrl options)))] | _ \<Rightarrow> [])
     @ opt_member ''holder'' (toDid (or_else (po_holder options) (ps_holder presentation)))
     @ opt_member ''challenge'' (po_challenge options) @ opt_member ''domain'' (po_domain options)
     @ [(''verifiableCredential'', JArr credentials)]
     @ (case expiry of Some n \<Rightarrow> [(if isV2 then ''validUntil'' else ''expirationDate'', iso_seconds n)] | None \<Rightarrow> [])
     @ (if isV2 then [(''validFrom'', iso_seconds (po_nowSeconds options))] else []))"

section \<open>Selective disclosure\<close>

definition disclose_members :: "string list \<Rightarrow> js_object \<Rightarrow> js_object" where
  "disclose_members keep m = filter (\<lambda>(k, v). k = ''id'' \<or> k \<in> set keep) m"

definition disclose_entry :: "string list \<Rightarrow> jv \<Rightarrow> jv" where
  "disclose_entry keep entry = (case entry of
     JObj m \<Rightarrow> JObj (disclose_members keep m)
   | JArr vs \<Rightarrow> JObj (disclose_members keep (map (\<lambda>(i, v). (nat_to_string i, v)) (enumerate 0 vs)))
   | _ \<Rightarrow> entry)"

text \<open>The credential is an object or no object at all; arrays are not passed.\<close>

definition selectivelyDisclose :: "jv \<Rightarrow> string list \<Rightarrow> thrown + js_object" where
  "selectivelyDisclose credential claims = (case credential of
     JObj m \<Rightarrow> (let subject = fld m ''credentialSubject'' in
       Inr (jm_set ''credentialSubject'' (case subject of JArr vs \<Rightarrow> JArr (map (disclose_entry claims) vs) | _ \<Rightarrow> disclose_entry claims subject)
         (without ''proof'' m)))
   | _ \<Rightarrow> Inl (error_class ''Credential must be an object''))"

section \<open>The checks\<close>

definition presented_errors :: "jv \<Rightarrow> string list" where
  "presented_errors credentials = (case credentials of
     JUndef \<Rightarrow> []
   | JArr vs \<Rightarrow> concat (map (\<lambda>entry. case entry of
        JStr s \<Rightarrow> []
      | JObj m \<Rightarrow> map (\<lambda>e. ''verifiableCredential: '' @ e) (validateVerifiableCredential entry)
      | JArr ws \<Rightarrow> map (\<lambda>e. ''verifiableCredential: '' @ e) (validateVerifiableCredential entry)
      | _ \<Rightarrow> [''Each verifiableCredential must be an object or a URI string'']) vs)
   | _ \<Rightarrow> [''verifiableCredential must be an array''])"

definition expiry_errors :: "jv \<Rightarrow> nat \<Rightarrow> string list" where
  "expiry_errors expiry nowSeconds = (if \<not> js_truthy expiry then []
     else case date_parse (js_string expiry) of
       None \<Rightarrow> [''expirationDate must be an XMLSchema dateTime'']
     | Some t \<Rightarrow> if t div 1000 < nowSeconds then [''Presentation has expired''] else [])"

definition binding_errors :: "string \<Rightarrow> string option \<Rightarrow> jv \<Rightarrow> string list" where
  "binding_errors name expected actual = (case expected of
     Some (c # s) \<Rightarrow> if actual \<noteq> JStr (c # s) then [''Presentation '' @ name @ '' does not match''] else [] | _ \<Rightarrow> [])"

definition validateVerifiablePresentation :: "jv \<Rightarrow> string option \<Rightarrow> string option \<Rightarrow> nat \<Rightarrow> string list" where
  "validateVerifiablePresentation v expectedChallenge expectedDomain nowSeconds = (case v of
     JObj p \<Rightarrow>
       context_errors (fld p ''@context'')
       @ (if JStr PRESENTATION_TYPE \<in> set (types_of (fld p ''type'')) then [] else [''type must include '' @ [CHR 39] @ PRESENTATION_TYPE @ [CHR 39]])
       @ presented_errors (fld p ''verifiableCredential'')
       @ expiry_errors (js_coalesce (fld p ''expirationDate'') (fld p ''validUntil'')) nowSeconds
       @ binding_errors ''challenge'' expectedChallenge (fld p ''challenge'') @ binding_errors ''domain'' expectedDomain (fld p ''domain'')
       @ proof_errors (fld p ''proof'')
   | _ \<Rightarrow> [''Presentation must be a JSON object''])"

text \<open>\<open>publicKey\<close> is the verifying function of the key, where one is given.\<close>

definition vc_verifyPresentation :: "(byte list \<Rightarrow> byte list) \<Rightarrow> jv \<Rightarrow> (byte list \<Rightarrow> byte list \<Rightarrow> bool) option \<Rightarrow> string option \<Rightarrow> string option \<Rightarrow> nat
    \<Rightarrow> thrown + string list" where
  "vc_verifyPresentation sha presentation publicKey expectedChallenge expectedDomain nowSeconds = (let
     errors = validateVerifiablePresentation presentation expectedChallenge expectedDomain nowSeconds
   in case presentation of
       JObj p \<Rightarrow> if \<not> js_truthy (fld p ''proof'') then Inr errors
         else (case publicKey of
           None \<Rightarrow> Inr (errors @ [''A public key is required to verify the presentation proof''])
         | Some key_verify \<Rightarrow> bind_result (verifyProof sha key_verify p) (\<lambda>ok. Inr (if ok then errors else errors @ [''Invalid presentation proof''])))
     | _ \<Rightarrow> Inr errors)"

section \<open>Templates\<close>

record vp_template =
  tp_requiredClaims :: "(string, string list) jsmap"
  tp_holder :: "string option"
  tp_challenge :: "string option"
  tp_domain :: "string option"
  tp_baseContext :: "string option"
  tp_extraContexts :: "string list option"
  tp_expiresAt :: "nat option"
  tp_types :: "string list"

text \<open>\<open>credential?.name\<close>, which is \<open>undefined\<close> also for other values\<close>

definition required_of :: "(string, string list) jsmap \<Rightarrow> jv \<Rightarrow> string list option" where
  "required_of requiredClaims credential = (let types = as_list (opt_prop credential ''type'') in
     case List.map_filter (\<lambda>t. jm_get requiredClaims (js_string t)) types of r # _ \<Rightarrow> Some r | [] \<Rightarrow> None)"

text \<open>\<open>claim in (subject ?? {})\<close>: a primitive subject throws.\<close>

definition claim_in :: "string \<Rightarrow> jv \<Rightarrow> thrown + bool" where
  "claim_in claim subject = (case subject of
     JObj m \<Rightarrow> Inr (jm_has m claim)
   | JUndef \<Rightarrow> Inr False
   | JNull \<Rightarrow> Inr False
   | JArr vs \<Rightarrow> Inr (claim \<in> set (map nat_to_string [0..<length vs]))
   | _ \<Rightarrow> Inl (type_error ''Cannot use 'in' operator to search for a claim''))"

definition first_subject :: "jv \<Rightarrow> jv" where
  "first_subject subject = (case subject of JArr [] \<Rightarrow> JUndef | JArr (v # vs) \<Rightarrow> v | _ \<Rightarrow> subject)"

definition check_required :: "(string, string list) jsmap \<Rightarrow> jv \<Rightarrow> thrown + jv" where
  "check_required requiredClaims credential = (case required_of requiredClaims credential of
     None \<Rightarrow> Inr credential
   | Some required \<Rightarrow>
       bind_result (js_prop credential ''credentialSubject'') (\<lambda>subject.
       bind_result (map_result (\<lambda>claim. claim_in claim (first_subject subject)) required) (\<lambda>present.
         let missing = map fst (filter (\<lambda>(claim, p). \<not> p) (zip required present)) in
         if missing \<noteq> [] then Inl (error_class (''Credential '' @ js_string (js_coalesce (opt_prop credential ''id'') (JStr ''(anonymous)''))
             @ '' is missing required claims: '' @ join '', '' missing))
         else Inr credential)))"

text \<open>\<open>presentationFromTemplate(template, credentials)\<close>, without options of the caller\<close>

definition presentationFromTemplate :: "vp_template \<Rightarrow> jv list \<Rightarrow> nat \<Rightarrow> thrown + js_object" where
  "presentationFromTemplate template credentials nowSeconds =
     bind_result (map_result (check_required (tp_requiredClaims template)) credentials) (\<lambda>included.
       let presentation = toVerifiablePresentation \<lparr>ps_credentials = Some included, ps_holder = None, ps_expiresAt = None\<rparr>
         \<lparr>po_id = None, po_holder = tp_holder template, po_challenge = tp_challenge template, po_domain = tp_domain template, po_baseUrl = None,
          po_baseContext = (case tp_baseContext template of Some c \<Rightarrow> c | None \<Rightarrow> VC_CONTEXT_V1),
          po_extraContexts = (case tp_extraContexts template of Some cs \<Rightarrow> cs | None \<Rightarrow> []), po_expiresAt = tp_expiresAt template,
          po_nowSeconds = nowSeconds\<rparr>
       in Inr (jm_set ''type'' (strings (foldl (\<lambda>types t. if t \<noteq> PRESENTATION_TYPE \<and> t \<notin> set types then types @ [t] else types)
            [PRESENTATION_TYPE] (tp_types template))) presentation))"

section \<open>Expansion and compaction\<close>

definition TERM_IRIS :: "(string \<times> string) list" where
  "TERM_IRIS = [(''id'', ''@id''), (''type'', ''@type''),
     (''VerifiableCredential'', ''https://www.w3.org/2018/credentials#VerifiableCredential''),
     (''issuer'', ''https://www.w3.org/2018/credentials#issuer''),
     (''issuanceDate'', ''https://www.w3.org/2018/credentials#issuanceDate''),
     (''expirationDate'', ''https://www.w3.org/2018/credentials#expirationDate''),
     (''validFrom'', ''https://www.w3.org/ns/credentials#validFrom''),
     (''validUntil'', ''https://www.w3.org/ns/credentials#validUntil''),
     (''credentialSubject'', ''https://www.w3.org/2018/credentials#credentialSubject''),
     (''credentialStatus'', ''https://www.w3.org/2018/credentials#credentialStatus''),
     (''proof'', ''https://w3id.org/security#proof'')]"

definition to_iri :: "string \<Rightarrow> string" where
  "to_iri k = (case map_of TERM_IRIS k of Some i \<Rightarrow> i | None \<Rightarrow> k)"

definition to_term :: "string \<Rightarrow> string" where
  "to_term i = (case map_of (map (\<lambda>(t, i). (i, t)) TERM_IRIS) i of Some t \<Rightarrow> t | None \<Rightarrow> i)"

text \<open>Types are strings; another value is left alone.\<close>

definition on_string :: "(string \<Rightarrow> string) \<Rightarrow> jv \<Rightarrow> jv" where
  "on_string f v = (case v of JStr s \<Rightarrow> JStr (f s) | _ \<Rightarrow> v)"

fun expand_value :: "jv \<Rightarrow> jv" where
  "expand_value (JObj m) = JObj (fold (\<lambda>(k, v). jm_set k v) (map (\<lambda>(k, v).
      (to_iri k, if k = ''type'' then JArr (map (on_string to_iri) (as_list v)) else if k = ''id'' then v else expand_value v))
      (filter (\<lambda>(k, v). k \<noteq> ''@context'') m)) [])"
| "expand_value v = v"

definition expandCredential :: "js_object \<Rightarrow> js_object" where
  "expandCredential credential = (case expand_value (JObj credential) of JObj m \<Rightarrow> m | _ \<Rightarrow> [])"

definition one_or_all :: "jv list \<Rightarrow> jv" where
  "one_or_all types = (case types of [t] \<Rightarrow> t | _ \<Rightarrow> JArr types)"

fun compact_value :: "jv \<Rightarrow> jv" where
  "compact_value (JObj m) = JObj (fold (\<lambda>(k, v). jm_set k v) (map (\<lambda>(k, v).
      (to_term k, if k = ''@id'' then v else if k = ''@type'' then one_or_all (map (on_string to_term) (as_list v)) else compact_value v)) m) [])"
| "compact_value v = v"

definition compactCredential :: "js_object \<Rightarrow> jv \<Rightarrow> js_object" where
  "compactCredential expanded ctx = spread_into (compact_value (JObj expanded)) [(''@context'', ctx)]"

section \<open>What an accepted presentation guarantees\<close>

text \<open>
  A presentation that \<open>vc_verifyPresentation\<close> accepts without errors carries the challenge and the domain that the verifier
  expects, has not expired, contains only references and well-formed credentials, and, if it has a proof, this verifies
  with the given key.
\<close>

theorem accepted_presentation_checks:
  assumes "vc_verifyPresentation sha (JObj p) publicKey expectedChallenge expectedDomain nowSeconds = Inr []"
  shows "(expectedChallenge \<in> {None, Some ''''} \<or> fld p ''challenge'' = JStr (the expectedChallenge))
    \<and> (expectedDomain \<in> {None, Some ''''} \<or> fld p ''domain'' = JStr (the expectedDomain))
    \<and> expiry_errors (js_coalesce (fld p ''expirationDate'') (fld p ''validUntil'')) nowSeconds = []
    \<and> presented_errors (fld p ''verifiableCredential'') = []
    \<and> (fld p ''proof'' \<in> {v. \<not> js_truthy v} \<or> (\<exists>key_verify. publicKey = Some key_verify \<and> verifyProof sha key_verify p = Inr True))"
proof -
  have v: "validateVerifiablePresentation (JObj p) expectedChallenge expectedDomain nowSeconds = []"
    "\<not> js_truthy (fld p ''proof'') \<or> (\<exists>key_verify. publicKey = Some key_verify \<and> verifyProof sha key_verify p = Inr True)"
    using assms by (auto simp: vc_verifyPresentation_def Let_def bind_result_Inr_iff split: if_splits option.splits)
  then have b: "binding_errors ''challenge'' expectedChallenge (fld p ''challenge'') = []" "binding_errors ''domain'' expectedDomain (fld p ''domain'') = []"
    and rest: "expiry_errors (js_coalesce (fld p ''expirationDate'') (fld p ''validUntil'')) nowSeconds = []"
      "presented_errors (fld p ''verifiableCredential'') = []"
    by (simp_all add: validateVerifiablePresentation_def)
  have bound: "e \<in> {None, Some ''''} \<or> actual = JStr (the e)" if "binding_errors name e actual = []" for name e actual
    using that by (auto simp: binding_errors_def split: option.splits list.splits if_splits)
  show ?thesis using bound [OF b(1)] bound [OF b(2)] rest v(2) by blast
qed

definition demo_presentation :: js_object where
  "demo_presentation = [(''@context'', strings [VC_CONTEXT_V1]), (''type'', strings [PRESENTATION_TYPE]), (''holder'', JStr ''did:stellar:GH''),
     (''challenge'', JStr ''n1''), (''verifiableCredential'', JArr [JStr ''urn:credential:c1''])]"

lemma demo_presentation_ok: "validateVerifiablePresentation (JObj demo_presentation) (Some ''n1'') None 0 = []"
  by (simp add: validateVerifiablePresentation_def demo_presentation_def fld_def context_errors_def as_list_def strings_def types_of_def
      presented_errors_def expiry_errors_def js_coalesce_def nullish_def binding_errors_def proof_errors_def)

theorem accepted_presentation_checks_witness:
  "fld demo_presentation ''challenge'' = JStr ''n1''"
  using accepted_presentation_checks [of toy_sha demo_presentation None "Some ''n1''" None 0] demo_presentation_ok
  by (simp add: vc_verifyPresentation_def Let_def) (simp add: demo_presentation_def fld_def)

text \<open>
  Nothing makes a proof mandatory: from any accepted presentation, signed or not, one obtains an accepted one with another
  holder by removing the proof, even where the verifier gives a public key.
\<close>

theorem holder_can_be_replaced:
  assumes "vc_verifyPresentation sha (JObj p) publicKey expectedChallenge expectedDomain nowSeconds = Inr []"
  shows "vc_verifyPresentation sha (JObj (jm_set ''holder'' other (without ''proof'' p))) publicKey' expectedChallenge expectedDomain nowSeconds = Inr []"
proof -
  have v: "validateVerifiablePresentation (JObj p) expectedChallenge expectedDomain nowSeconds = []"
    using assms by (auto simp: vc_verifyPresentation_def Let_def bind_result_Inr_iff split: if_splits option.splits)
  have np: "fld (without ''proof'' p) ''proof'' = JUndef" by (simp add: fld_def without_def)
  show ?thesis
    using v np by (simp add: vc_verifyPresentation_def Let_def validateVerifiablePresentation_def proof_errors_def)
qed

theorem holder_can_be_replaced_witness:
  "vc_verifyPresentation toy_sha (JObj (jm_set ''holder'' (JStr ''did:stellar:THIEF'') (without ''proof'' demo_presentation))) (Some toy_verify) (Some ''n1'') None 0 = Inr []"
  by (rule holder_can_be_replaced [where publicKey = None])
    (use demo_presentation_ok in \<open>simp add: vc_verifyPresentation_def Let_def\<close>, simp add: demo_presentation_def fld_def)

section \<open>Facts about disclosure and templates\<close>

lemma fld_filter: "fld (filter (\<lambda>(k, v). P k) m) k = (if P k then fld m k else JUndef)"
  by (induction m) (auto simp: fld_def)

text \<open>
  Selective disclosure keeps of the subject its \<open>id\<close> and the chosen claims, with their values, and nothing else; the proof,
  which no longer covers the document, is dropped, and every other member is kept.
\<close>

theorem disclosure_keeps_only_chosen:
  assumes "fld c ''credentialSubject'' = JObj m"
  shows "\<exists>d s. selectivelyDisclose (JObj c) claims = Inr d \<and> fld d ''credentialSubject'' = JObj s \<and> fld d ''proof'' = JUndef
    \<and> (\<lambda>k. fld s k) = (\<lambda>k. if k = ''id'' \<or> k \<in> set claims then fld m k else JUndef)
    \<and> (\<lambda>k. if k \<in> {''proof'', ''credentialSubject''} then JUndef else fld d k) = (\<lambda>k. if k \<in> {''proof'', ''credentialSubject''} then JUndef else fld c k)"
proof -
  have "fld (disclose_members claims m) k = (if k = ''id'' \<or> k \<in> set claims then fld m k else JUndef)" for k
    unfolding disclose_members_def by (rule fld_filter)
  moreover have "fld (without ''proof'' c) ''proof'' = JUndef" by (simp add: fld_def without_def)
  ultimately show ?thesis
    by (auto simp: selectivelyDisclose_def Let_def assms disclose_entry_def fun_eq_iff)
qed

definition demo_subject :: js_object where
  "demo_subject = [(''id'', JStr ''s''), (''age'', JNum 30), (''name'', JStr ''x'')]"

theorem disclosure_keeps_only_chosen_witness:
  "\<exists>d s. selectivelyDisclose (JObj [(''id'', JStr ''c''), (''credentialSubject'', JObj demo_subject), (''proof'', JStr ''p'')]) [''age''] = Inr d
     \<and> fld d ''credentialSubject'' = JObj s \<and> fld s ''name'' = JUndef \<and> fld s ''age'' = JNum 30"
proof -
  have "fld [(''id'', JStr ''c''), (''credentialSubject'', JObj demo_subject), (''proof'', JStr ''p'')] ''credentialSubject'' = JObj demo_subject"
    by (simp add: fld_def)
  from disclosure_keeps_only_chosen [OF this, of "[''age'']"] obtain d s where
    d: "selectivelyDisclose (JObj [(''id'', JStr ''c''), (''credentialSubject'', JObj demo_subject), (''proof'', JStr ''p'')]) [''age''] = Inr d"
      "fld d ''credentialSubject'' = JObj s" "(\<lambda>k. fld s k) = (\<lambda>k. if k = ''id'' \<or> k \<in> set [''age''] then fld demo_subject k else JUndef)" by iprover
  have "fld s ''name'' = JUndef" "fld s ''age'' = JNum 30"
    using fun_cong [OF d(3), of "''name''"] fun_cong [OF d(3), of "''age''"] by (simp_all add: demo_subject_def fld_def)
  with d(1,2) show ?thesis by iprover
qed

lemma fld_Cons: "fld ((k, v) # m) k' = (if k = k' then v else fld m k')"
  by (simp add: fld_def)

lemma fld_append: "jm_get xs k = None \<Longrightarrow> fld (xs @ ys) k = fld ys k"
  by (simp add: fld_def jm_get_def map_add_def)

lemma opt_member_other: "k \<noteq> k' \<Longrightarrow> jm_get (opt_member k v) k' = None"
  by (simp add: opt_member_def split: option.splits list.splits)

lemma presented_credentials:
  "fld (toVerifiablePresentation p o') ''verifiableCredential''
    = JArr (case ps_credentials p of Some cs \<Rightarrow> map normalizePresentedCredential cs | None \<Rightarrow> [])"
proof -
  have i: "jm_get (case po_id o' of Some (c # s) \<Rightarrow> [(''id'', f c s)] | _ \<Rightarrow> []) ''verifiableCredential'' = None" for f :: "char \<Rightarrow> string \<Rightarrow> jv"
    by (simp split: option.splits list.splits)
  show ?thesis
    by (simp add: toVerifiablePresentation_def Let_def fld_Cons fld_append opt_member_other i)
qed

definition has_required :: "(string, string list) jsmap \<Rightarrow> jv \<Rightarrow> bool" where
  "has_required req c = (case required_of req c of None \<Rightarrow> True
     | Some required \<Rightarrow> (case js_prop c ''credentialSubject'' of Inl e \<Rightarrow> False
        | Inr subject \<Rightarrow> list_all (\<lambda>claim. claim_in claim (first_subject subject) = Inr True) required))"

lemma map_result_all_true:
  "map_result f xs = Inr ps \<Longrightarrow> map fst (filter (\<lambda>(x, p). \<not> p) (zip xs ps)) = [] \<longleftrightarrow> list_all (\<lambda>x. f x = Inr True) xs"
proof (induction xs arbitrary: ps)
  case (Cons x xs)
  then obtain p qs where "f x = Inr p" "map_result f xs = Inr qs" "ps = p # qs"
    by (cases "f x"; cases "map_result f xs") auto
  with Cons.IH [of qs] show ?case by (cases p) auto
qed simp

lemma map_result_when_true: "list_all (\<lambda>x. f x = Inr True) xs \<Longrightarrow> \<exists>ps. map_result f xs = Inr ps"
  by (induction xs) auto

lemma check_required_iff: "check_required req c = Inr c' \<longleftrightarrow> c' = c \<and> has_required req c"
proof (cases "required_of req c")
  case (Some required)
  show ?thesis
  proof (cases "js_prop c ''credentialSubject''")
    case (Inr subject)
    let ?f = "\<lambda>claim. claim_in claim (first_subject subject)"
    show ?thesis
    proof (cases "map_result ?f required")
      case (Inl e)
      with map_result_when_true [of ?f required] have "\<not> list_all (\<lambda>x. ?f x = Inr True) required" by auto
      with Inl Inr Some show ?thesis by (simp add: check_required_def has_required_def)
    next
      case (Inr ps)
      with map_result_all_true [OF this] \<open>js_prop c ''credentialSubject'' = Inr subject\<close> Some show ?thesis
        by (auto simp: check_required_def has_required_def Let_def)
    qed
  qed (simp add: check_required_def has_required_def Some)
qed (auto simp: check_required_def has_required_def)

lemma map_result_iff:
  assumes "\<And>x y. f x = Inr y \<longleftrightarrow> y = x \<and> P x"
  shows "map_result f xs = Inr ys \<longleftrightarrow> ys = xs \<and> list_all P xs"
proof (induction xs arbitrary: ys)
  case (Cons x xs)
  show ?case
  proof (cases "f x")
    case (Inl e)
    then have "\<not> P x" using assms [of x x] by auto
    with Inl show ?thesis by simp
  next
    case (Inr y)
    then have "y = x" "P x" using assms by auto
    with Inr Cons show ?thesis by (cases "map_result f xs") auto
  qed
qed auto

text \<open>
  A template makes a presentation exactly if every credential has the claims its type requires, and then the presentation
  contains all of them, in order, and no others; otherwise it throws.
\<close>

theorem template_presents_iff_claims_present:
  "(\<exists>vp. presentationFromTemplate template credentials now = Inr vp
      \<and> fld vp ''verifiableCredential'' = JArr (map normalizePresentedCredential credentials))
    = list_all (has_required (tp_requiredClaims template)) credentials"
proof -
  have m: "map_result (check_required (tp_requiredClaims template)) credentials = Inr ys
    \<longleftrightarrow> ys = credentials \<and> list_all (has_required (tp_requiredClaims template)) credentials" for ys
    by (rule map_result_iff) (rule check_required_iff)
  show ?thesis
  proof (cases "map_result (check_required (tp_requiredClaims template)) credentials")
    case (Inl e)
    then have "\<not> list_all (has_required (tp_requiredClaims template)) credentials" using m [of credentials] by auto
    with Inl show ?thesis by (simp add: presentationFromTemplate_def)
  next
    case (Inr ys)
    then have "ys = credentials" "list_all (has_required (tp_requiredClaims template)) credentials" using m by auto
    with Inr show ?thesis by (simp add: presentationFromTemplate_def Let_def presented_credentials)
  qed
qed

section \<open>Expansion and compaction are inverse\<close>

definition iris :: "string set" where
  "iris = snd ` set TERM_IRIS"

definition plain_type :: "jv \<Rightarrow> bool" where
  "plain_type v = (case v of JStr s \<Rightarrow> s \<notin> iris | _ \<Rightarrow> False)"

text \<open>
  Documents as the server writes them: term keys, no repeated keys, no nested contexts, types as one text or as a list of at
  least two.
\<close>

fun in_terms :: "jv \<Rightarrow> bool" where
  "in_terms (JObj m) = (distinct (map fst m) \<and> list_all (\<lambda>(k, v). k \<notin> iris \<and> k \<noteq> ''@context''
     \<and> (if k = ''type'' then (case v of JArr vs \<Rightarrow> list_all plain_type vs \<and> 2 \<le> length vs | _ \<Rightarrow> plain_type v)
        else k = ''id'' \<or> in_terms v)) m)"
| "in_terms v = True"

lemma iris_values: "iris = {''@id'', ''@type'', ''https://www.w3.org/2018/credentials#VerifiableCredential'', ''https://www.w3.org/2018/credentials#issuer'',
    ''https://www.w3.org/2018/credentials#issuanceDate'', ''https://www.w3.org/2018/credentials#expirationDate'', ''https://www.w3.org/ns/credentials#validFrom'',
    ''https://www.w3.org/ns/credentials#validUntil'', ''https://www.w3.org/2018/credentials#credentialSubject'',
    ''https://www.w3.org/2018/credentials#credentialStatus'', ''https://w3id.org/security#proof''}"
  by (simp add: iris_def TERM_IRIS_def)

lemma term_tables: "distinct (map fst TERM_IRIS)" "distinct (map snd TERM_IRIS)" "map fst (map (\<lambda>(t, i). (i, t)) TERM_IRIS) = map snd TERM_IRIS"
  by (code_simp, code_simp, simp add: case_prod_beta comp_def)

lemma to_term_to_iri: "k \<notin> iris \<Longrightarrow> to_term (to_iri k) = k"
proof (cases "map_of TERM_IRIS k")
  case None
  assume "k \<notin> iris"
  then have "map_of (map (\<lambda>(t, i). (i, t)) TERM_IRIS) k = None"
    by (auto simp: map_of_eq_None_iff iris_def image_def)
  with None show ?thesis by (simp add: to_iri_def to_term_def)
next
  case (Some i)
  then have "(i, k) \<in> set (map (\<lambda>(t, i). (i, t)) TERM_IRIS)" by (auto dest: map_of_SomeD)
  moreover have "distinct (map fst (map (\<lambda>(t, i). (i, t)) TERM_IRIS))"
    unfolding term_tables(3) by (rule term_tables(2))
  ultimately have "map_of (map (\<lambda>(t, i). (i, t)) TERM_IRIS) i = Some k"
    using map_of_is_SomeI by fast
  with Some show ?thesis by (simp add: to_iri_def to_term_def)
qed

lemma to_iri_special: "k \<notin> iris \<Longrightarrow> (to_iri k = ''@id'' \<longleftrightarrow> k = ''id'') \<and> (to_iri k = ''@type'' \<longleftrightarrow> k = ''type'')"
  using to_term_to_iri [of k] by (auto simp: to_iri_def to_term_def TERM_IRIS_def split: if_splits)

lemma fold_set_wf: "jm_wf (m :: js_object) \<Longrightarrow> fold (\<lambda>(k, v). jm_set k v) m [] = m"
  using spread_object [of m] by (simp add: spread_into_def)
lemma types_back:
  "plain_type v \<Longrightarrow> on_string to_term (on_string to_iri v) = v"
  by (cases v) (auto simp: plain_type_def on_string_def to_term_to_iri)

lemma type_value_back:
  assumes "case v of JArr vs \<Rightarrow> list_all plain_type vs \<and> 2 \<le> length vs | _ \<Rightarrow> plain_type v"
  shows "one_or_all (map (on_string to_term) (map (on_string to_iri) (as_list v))) = v"
proof (cases "\<exists>vs. v = JArr vs")
  case True
  then obtain vs where v: "v = JArr vs" ..
  have "map (on_string to_term) (map (on_string to_iri) vs) = vs"
    using assms by (simp add: v list_all_iff map_idI types_back)
  moreover have "one_or_all vs = JArr vs" using assms by (auto simp: v one_or_all_def split: list.splits)
  ultimately show ?thesis by (simp add: v as_list_def)
next
  case False
  then have "plain_type v" "as_list v = [v]" using assms by (auto simp: as_list_def split: jv.splits)
  then show ?thesis by (simp add: types_back one_or_all_def)
qed

lemma compact_expand: "in_terms v \<Longrightarrow> compact_value (expand_value v) = v"
proof (induction v rule: expand_value.induct)
  case (1 m)
  define ex where "ex = map (\<lambda>(k, v). (to_iri k, if k = ''type'' then JArr (map (on_string to_iri) (as_list v)) else if k = ''id'' then v else expand_value v)) m"
  have keys: "\<forall>k \<in> set (map fst m). k \<notin> iris \<and> k \<noteq> ''@context''" and dist: "distinct (map fst m)"
    using 1(2) by (auto simp: list_all_iff)
  then have f: "filter (\<lambda>(k, v). k \<noteq> ''@context'') m = m" by (auto simp: filter_id_conv)
  have "inj_on to_iri (set (map fst m))"
    using keys to_term_to_iri by (metis inj_onI)
  then have "distinct (map to_iri (map fst m))" using dist unfolding distinct_map [of to_iri] by simp
  moreover have "map fst ex = map to_iri (map fst m)" by (simp add: ex_def case_prod_beta comp_def)
  ultimately have wf: "jm_wf ex" by (simp add: jm_wf_def)
  have e: "expand_value (JObj m) = JObj ex"
    using fold_set_wf [OF wf] by (simp add: f ex_def)
  let ?g = "\<lambda>(k, v). (to_term k, if k = ''@id'' then v else if k = ''@type'' then one_or_all (map (on_string to_term) (as_list v)) else compact_value v)"
  have "?g (to_iri k, if k = ''type'' then JArr (map (on_string to_iri) (as_list v)) else if k = ''id'' then v else expand_value v) = (k, v)"
    if mem: "(k, v) \<in> set m" for k v
  proof -
    have k: "k \<notin> iris" "k = ''type'' \<Longrightarrow> case v of JArr vs \<Rightarrow> list_all plain_type vs \<and> 2 \<le> length vs | _ \<Rightarrow> plain_type v"
      "k \<noteq> ''type'' \<Longrightarrow> k \<noteq> ''id'' \<Longrightarrow> in_terms v"
      using 1(2) mem by (auto simp: list_all_iff)
    show ?thesis
    proof (cases "k = ''type''")
      case True
      have i: "to_iri ''type'' = ''@type''" by code_simp
      have t: "to_term ''@type'' = ''type''" by code_simp
      show ?thesis using type_value_back [OF k(2) [OF True]] by (simp add: True i t as_list_def)
    next
      case False
      show ?thesis
      proof (cases "k = ''id''")
        case True
        have i: "to_iri ''id'' = ''@id''" by code_simp
        have t: "to_term ''@id'' = ''id''" by code_simp
        show ?thesis by (simp add: True i t)
      next
        case nid: False
        have "compact_value (expand_value v) = v"
          using 1(1) [of "(k, v)" k v] mem f False nid k(3) by simp
        with False nid show ?thesis
          using to_iri_special [OF k(1)] to_term_to_iri [OF k(1)] by simp
      qed
    qed
  qed
  then have "map ?g ex = m"
    unfolding ex_def map_map by (intro map_idI) auto
  moreover have "jm_wf m" using dist by (simp add: jm_wf_def)
  ultimately show ?case unfolding e by (simp add: fold_set_wf)
qed simp_all


text \<open>
  C22. Expansion loses nothing: compacting the expansion of a document written in the server's terms gives the document back,
  but for the context, which is the given one.
\<close>

theorem compact_expand_round_trip:
  assumes "in_terms (JObj document)"
  shows "compactCredential (expandCredential document) ctx = (''@context'', ctx) # document"
proof -
  have c: "compact_value (JObj (expandCredential document)) = JObj document"
  proof -
    obtain m where "expand_value (JObj document) = JObj m" by simp
    then show ?thesis using compact_expand [OF assms] by (simp add: expandCredential_def)
  qed
  have wf: "jm_wf ((''@context'', ctx) # document)"
    using assms by (auto simp: jm_wf_def list_all_iff)
  have "fold (\<lambda>(k, v). jm_set k v) document [(''@context'', ctx)] = fold (\<lambda>(k, v). jm_set k v) ((''@context'', ctx) # document) []" by simp
  also have "\<dots> = (''@context'', ctx) # document" by (rule fold_set_wf [OF wf])
  finally show ?thesis unfolding compactCredential_def c spread_into_def by (simp only: jv.case)
qed

theorem compact_expand_round_trip_witness:
  "compactCredential (expandCredential [(''id'', JStr ''urn:credential:1''), (''type'', strings [''VerifiableCredential'', ''Kyc'']),
      (''credentialSubject'', JObj [(''id'', JStr ''did:stellar:G''), (''type'', JStr ''Person'')])]) JNull
    = [(''@context'', JNull), (''id'', JStr ''urn:credential:1''), (''type'', strings [''VerifiableCredential'', ''Kyc'']),
      (''credentialSubject'', JObj [(''id'', JStr ''did:stellar:G''), (''type'', JStr ''Person'')])]"
  by (rule compact_expand_round_trip) (simp add: iris_values strings_def plain_type_def)

end
