(* ===== verification/Resp.thy ===== *)
theory Resp
  imports Signing Machine
begin

text \<open>
  Models \<open>server/src/redis-client.js\<close>: the RESP encoder and the incremental parser, and the client that matches replies to
  the commands in flight.

  A text is the list of its UTF-8 bytes, so that \<open>Buffer.byteLength\<close> is its length. An incomplete buffer is \<open>More\<close>; a
  reply whose length is no number, or a negative one but \<open>-1\<close>, is never sent by a Redis server: the model marks it
  \<open>Malformed\<close> and says nothing of it.

  The specification is the protocol itself: \<open>wire\<close>, the replies a server may send, with their texts and values.
\<close>

section \<open>The codec\<close>

datatype resp_value = RText string | RNull | RNum "int option" | RError string | RArr "resp_value list"

datatype 'a parsed = More | Malformed | Parsed 'a string

definition CRLF :: string where
  "CRLF = [CHR 13, CHR 10]"

definition encodeCommand :: "string list \<Rightarrow> string" where
  "encodeCommand args = CHR ''*'' # nat_to_string (length args) @ CRLF
     @ concat (map (\<lambda>v. CHR ''$'' # nat_to_string (length v) @ CRLF @ v @ CRLF) args)"

text \<open>\<open>buffer.indexOf(CRLF)\<close>: what stands before the first line end, and what after it.\<close>

fun split_line :: "string \<Rightarrow> (string \<times> string) option" where
  "split_line (c # d # s) = (if c = CHR 13 \<and> d = CHR 10 then Some ([], s)
     else map_option (\<lambda>(a, b). (c # a, b)) (split_line (d # s)))"
| "split_line _ = None"

text \<open>The loop over the items of an array, with the parser of an item.\<close>

primrec parse_items :: "(string \<Rightarrow> 'a parsed) \<Rightarrow> nat \<Rightarrow> string \<Rightarrow> 'a list parsed" where
  "parse_items p 0 s = Parsed [] s"
| "parse_items p (Suc n) s = (case p s of
     Parsed v r \<Rightarrow> (case parse_items p n r of Parsed vs r' \<Rightarrow> Parsed (v # vs) r' | More \<Rightarrow> More | Malformed \<Rightarrow> Malformed)
   | More \<Rightarrow> More | Malformed \<Rightarrow> Malformed)"

text \<open>\<open>parseReply\<close>, with a bound on the nesting of arrays; \<open>parseReply\<close> takes the length of the buffer, which no nesting exceeds.\<close>

fun parse_nested :: "nat \<Rightarrow> string \<Rightarrow> resp_value parsed" where
  "parse_nested 0 s = More"
| "parse_nested (Suc depth) s = (case s of [] \<Rightarrow> More | ty # _ \<Rightarrow> (case split_line s of None \<Rightarrow> More
   | Some (before_end, after_line) \<Rightarrow> (let line = tl before_end in
       if ty = CHR ''+'' then Parsed (RText line) after_line
       else if ty = CHR ''-'' then Parsed (RError line) after_line
       else if ty = CHR '':'' then Parsed (RNum (parse_int line)) after_line
       else if ty = CHR ''$'' then
         (case parse_int line of None \<Rightarrow> Malformed | Some n \<Rightarrow>
            if n = -1 then Parsed RNull after_line
            else if n < 0 then Malformed
            else if length after_line < nat n + 2 then More
            else Parsed (RText (take (nat n) after_line)) (drop (nat n + 2) after_line))
       else if ty = CHR ''*'' then
         (case parse_int line of None \<Rightarrow> Parsed (RArr []) after_line | Some n \<Rightarrow>
            if n = -1 then Parsed RNull after_line
            else (case parse_items (parse_nested depth) (nat n) after_line of
                Parsed vs r \<Rightarrow> Parsed (RArr vs) r | More \<Rightarrow> More | Malformed \<Rightarrow> Malformed))
       else Parsed (RError (''Unsupported RESP type: '' @ [ty])) after_line)))"

definition parseReply :: "string \<Rightarrow> resp_value parsed" where
  "parseReply buffer = parse_nested (length buffer) buffer"

section \<open>The client\<close>

text \<open>
  The part of the client between \<open>connect\<close> and the loss of the socket: the commands in flight, in order, the bytes read and
  not yet parsed, and how each command was settled. Commands are numbered by the caller.
\<close>

datatype settled = Resolved resp_value | Rejected string

record redis_client =
  rc_connected :: bool
  rc_buffer :: string
  rc_pending :: "nat list"
  rc_settled :: "(nat \<times> settled) list"

definition settle_reply :: "resp_value \<Rightarrow> settled" where
  "settle_reply v = (case v of RError e \<Rightarrow> Rejected e | _ \<Rightarrow> Resolved v)"

text \<open>\<open>command(args)\<close>: what is written to the socket, if anything\<close>

definition send_command :: "nat \<Rightarrow> string list \<Rightarrow> redis_client \<Rightarrow> string option \<times> redis_client" where
  "send_command i args c = (if \<not> rc_connected c then (None, c\<lparr>rc_settled := rc_settled c @ [(i, Rejected ''Redis is not connected'')]\<rparr>)
     else (Some (encodeCommand args), c\<lparr>rc_pending := rc_pending c @ [i]\<rparr>))"

text \<open>The \<open>while\<close> loop of \<open>_onData\<close>\<close>

fun drain :: "nat list \<Rightarrow> string \<Rightarrow> (nat \<times> settled) list \<times> nat list \<times> string" where
  "drain [] buffer = ([], [], buffer)"
| "drain (i # is) buffer = (case parseReply buffer of
     Parsed v r \<Rightarrow> (case drain is r of (out, is', buffer') \<Rightarrow> ((i, settle_reply v) # out, is', buffer'))
   | _ \<Rightarrow> ([], i # is, buffer))"

definition onData :: "string \<Rightarrow> redis_client \<Rightarrow> redis_client" where
  "onData chunk c = (case drain (rc_pending c) (rc_buffer c @ chunk) of (out, is, buffer) \<Rightarrow>
     c\<lparr>rc_settled := rc_settled c @ out, rc_pending := is, rc_buffer := buffer\<rparr>)"

definition timeout_message :: "nat \<Rightarrow> string" where
  "timeout_message ms = ''Redis command timed out after '' @ nat_to_string ms @ ''ms''"

definition onTimeout :: "nat \<Rightarrow> nat \<Rightarrow> redis_client \<Rightarrow> redis_client" where
  "onTimeout ms i c = (if i \<in> set (rc_pending c) then c\<lparr>rc_pending := remove1 i (rc_pending c),
     rc_settled := rc_settled c @ [(i, Rejected (timeout_message ms))]\<rparr> else c)"

definition onSocketFailure :: "string \<Rightarrow> redis_client \<Rightarrow> redis_client" where
  "onSocketFailure err c = (if \<not> rc_connected c \<and> rc_pending c = [] then c
     else c\<lparr>rc_connected := False, rc_buffer := [], rc_pending := [], rc_settled := rc_settled c @ map (\<lambda>i. (i, Rejected err)) (rc_pending c)\<rparr>)"

text \<open>The arguments of the commands, and what \<open>setNx\<close> makes of the outcome.\<close>

definition set_args :: "string \<Rightarrow> string \<Rightarrow> bool \<Rightarrow> rat option \<Rightarrow> string list" where
  "set_args key v nx ttlMs = [''SET'', key, v] @ (if nx then [''NX''] else [])
     @ (case ttlMs of Some t \<Rightarrow> if 0 < t then [''PX'', int_to_string \<lfloor>t\<rfloor>] else [] | None \<Rightarrow> [])"

definition setNx_result :: "settled \<Rightarrow> bool" where
  "setNx_result outcome = (outcome = Resolved (RText ''OK''))"

definition del_args :: "string list \<Rightarrow> string list option" where
  "del_args keys = (if keys = [] then None else Some (''DEL'' # keys))"

text \<open>
  \<open>scanKeys\<close>: \<open>answer cursor\<close> is the reply of \<open>SCAN\<close>; the loop ends when the cursor is 0 again, with \<open>fuel\<close> rounds at most
  in the model. A reply that is no pair of a cursor and keys does not come from a Redis server.
\<close>

primrec scanKeys :: "nat \<Rightarrow> (string \<Rightarrow> string \<times> string list) \<Rightarrow> string \<Rightarrow> string list option" where
  "scanKeys 0 answer cursor = None"
| "scanKeys (Suc fuel) answer cursor = (case answer cursor of (next_cursor, keys) \<Rightarrow>
     if next_cursor = ''0'' then Some keys else map_option (\<lambda>ks. keys @ ks) (scanKeys fuel answer next_cursor))"

section \<open>Connecting\<close>

text \<open>Attempt \<open>n\<close> of \<open>_connectWithRetry\<close> succeeds or fails; the result is the outcome and the delays waited.\<close>

definition retry_delay :: "rat \<Rightarrow> rat \<Rightarrow> nat \<Rightarrow> rat" where
  "retry_delay maxMs baseMs attempt = min maxMs (baseMs * 2 ^ (attempt - 1))"

fun connect_loop :: "nat \<Rightarrow> rat \<Rightarrow> rat \<Rightarrow> (nat \<Rightarrow> string option) \<Rightarrow> nat \<Rightarrow> string option \<Rightarrow> (string + nat) \<times> rat list" where
  "connect_loop 0 maxMs baseMs open_socket attempt lastError =
     (Inl (case lastError of Some e \<Rightarrow> e | None \<Rightarrow> ''Redis connection failed''), [])"
| "connect_loop (Suc left) maxMs baseMs open_socket attempt lastError = (case open_socket attempt of
     None \<Rightarrow> (Inr attempt, [])
   | Some e \<Rightarrow> (case connect_loop left maxMs baseMs open_socket (attempt + 1) (Some e) of (r, ds) \<Rightarrow>
       (r, (if left = 0 then [] else [retry_delay maxMs baseMs attempt]) @ ds)))"

definition connectWithRetry :: "nat \<Rightarrow> rat \<Rightarrow> rat \<Rightarrow> (nat \<Rightarrow> string option) \<Rightarrow> (string + nat) \<times> rat list" where
  "connectWithRetry max_tries maxMs baseMs open_socket = connect_loop max_tries maxMs baseMs open_socket 1 None"

section \<open>The protocol\<close>

datatype wire = WSimple string | WError string | WInt int | WBulk string | WNil | WArr "wire list" | WNilArr

fun wire_text :: "wire \<Rightarrow> string" where
  "wire_text (WSimple s) = CHR ''+'' # s @ CRLF"
| "wire_text (WError s) = CHR ''-'' # s @ CRLF"
| "wire_text (WInt i) = CHR '':'' # int_to_string i @ CRLF"
| "wire_text (WBulk s) = CHR ''$'' # nat_to_string (length s) @ CRLF @ s @ CRLF"
| "wire_text WNil = ''$-1'' @ CRLF"
| "wire_text (WArr ws) = CHR ''*'' # nat_to_string (length ws) @ CRLF @ concat (map wire_text ws)"
| "wire_text WNilArr = ''*-1'' @ CRLF"

fun wire_value :: "wire \<Rightarrow> resp_value" where
  "wire_value (WSimple s) = RText s"
| "wire_value (WError s) = RError s"
| "wire_value (WInt i) = RNum (Some i)"
| "wire_value (WBulk s) = RText s"
| "wire_value WNil = RNull"
| "wire_value (WArr ws) = RArr (map wire_value ws)"
| "wire_value WNilArr = RNull"

text \<open>Lines contain no carriage return; the bytes of a bulk string are arbitrary.\<close>

fun wire_ok :: "wire \<Rightarrow> bool" where
  "wire_ok (WSimple s) = (CHR 13 \<notin> set s)"
| "wire_ok (WError s) = (CHR 13 \<notin> set s)"
| "wire_ok (WArr ws) = list_all wire_ok ws"
| "wire_ok w = True"

fun wire_depth :: "wire \<Rightarrow> nat" where
  "wire_depth (WArr ws) = Suc (Max (set (0 # map wire_depth ws)))"
| "wire_depth w = 1"

lemma split_line_end: "CHR 13 \<notin> set s \<Longrightarrow> split_line (s @ CRLF @ t) = Some (s, t)"
  unfolding CRLF_def
proof (induction s)
  case (Cons c s)
  then show ?case by (cases s) auto
qed simp

lemma split_line_short:
  assumes "CHR 13 \<notin> set s" "length p < length s + 2" "\<exists>q. s @ CRLF @ t = p @ q"
  shows "split_line p = None"
  using assms
proof (induction s arbitrary: p)
  case Nil
  then show ?case by (cases p rule: split_line.cases) (auto simp: CRLF_def)
next
  case (Cons c s)
  show ?case
  proof (cases p)
    case p: (Cons d p')
    then have "split_line p' = None" using Cons by auto
    moreover have "d \<noteq> CHR 13" using Cons.prems p by auto
    ultimately show ?thesis by (cases p') (simp_all add: p)
  qed simp
qed

lemma no_return: "CHR 13 \<notin> set (int_to_string i)" "CHR 13 \<notin> set (nat_to_string n)"
proof -
  show n: "CHR 13 \<notin> set (nat_to_string n)" for n
    using nat_to_string_js_digits [of "CHR 13" n] by (auto simp: js_digit_def char_code_def)
  show "CHR 13 \<notin> set (int_to_string i)" using n by (simp add: int_to_string_def)
qed

lemma parse_int_nat: "parse_int (nat_to_string n) = Some (int n)"
  using parse_int_print [of "int n"] by (simp add: int_to_string_def)

text \<open>The first line of a reply, and what a parser sees of it.\<close>

definition starts_line :: "char \<Rightarrow> string \<Rightarrow> string \<Rightarrow> bool" where
  "starts_line ty line s \<longleftrightarrow> (\<exists>t. s = ty # line @ CRLF @ t)"

lemma split_first: "CHR 13 \<notin> set (ty # line) \<Longrightarrow> split_line (ty # line @ CRLF @ t) = Some (ty # line, t)"
  using split_line_end [of "ty # line" t] by simp

lemma parse_items_append:
  assumes "\<And>w r. w \<in> set ws \<Longrightarrow> p (f w @ r) = Parsed (g w) r"
  shows "parse_items p (length ws) (concat (map f ws) @ r) = Parsed (map g ws) r"
  using assms by (induction ws) simp_all

lemma depth_pos: "0 < wire_depth w"
  by (cases w) simp_all

lemma wire_depth_arr: "wire_depth (WArr ws) \<le> d \<Longrightarrow> \<exists>d'. d = Suc d' \<and> (\<forall>w \<in> set ws. wire_depth w \<le> d')"
  by (cases d) simp_all

lemma parse_wire:
  "wire_ok w \<Longrightarrow> wire_depth w \<le> d \<Longrightarrow> parse_nested d (wire_text w @ r) = Parsed (wire_value w) r"
proof (induction w arbitrary: d r)
  case (WArr ws)
  obtain d' where d: "d = Suc d'" "\<forall>w \<in> set ws. wire_depth w \<le> d'"
    using wire_depth_arr [OF WArr.prems(2)] by blast
  have "parse_items (parse_nested d') (length ws) (concat (map wire_text ws) @ r) = Parsed (map wire_value ws) r"
    using WArr d(2) by (intro parse_items_append) (simp add: list_all_iff)
  then show ?case
    using split_first [of "CHR ''*''" "nat_to_string (length ws)"] no_return(2) by (simp add: d(1) parse_int_nat)
next
  case (WBulk s)
  then obtain d' where "d = Suc d'" by (cases d) auto
  then show ?case
    using split_first [of "CHR ''$''" "nat_to_string (length s)"] no_return(2) by (simp add: parse_int_nat) (simp add: CRLF_def)
next
  case (WSimple s)
  then obtain d' where "d = Suc d'" by (cases d) auto
  then show ?case using split_first [of "CHR ''+''" s] WSimple by simp
next
  case (WError s)
  then obtain d' where "d = Suc d'" by (cases d) auto
  then show ?case using split_first [of "CHR ''-''" s] WError by simp
next
  case (WInt i)
  then obtain d' where "d = Suc d'" by (cases d) auto
  then show ?case using split_first [of "CHR '':''" "int_to_string i"] no_return(1) by simp
next
  case WNil
  then obtain d' where "d = Suc d'" by (cases d) auto
  moreover have "parse_int ''-1'' = Some (-1)" by code_simp
  ultimately show ?case using split_first [of "CHR ''$''" "''-1''"] by simp
next
  case WNilArr
  then obtain d' where "d = Suc d'" by (cases d) auto
  moreover have "parse_int ''-1'' = Some (-1)" by code_simp
  ultimately show ?case using split_first [of "CHR ''*''" "''-1''"] by simp
qed

lemma depth_length: "wire_depth w \<le> length (wire_text w)"
proof (induction w)
  case (WArr ws)
  have "w \<in> set ws \<Longrightarrow> length (wire_text w) \<le> length (concat (map wire_text ws))" for w
    by (induction ws) auto
  with WArr have le: "\<forall>w \<in> set ws. wire_depth w \<le> length (concat (map wire_text ws))"
    by (meson le_trans)
  have "Max (set (0 # map wire_depth ws)) \<le> length (concat (map wire_text ws))"
    using le by (subst Max_le_iff) simp_all
  then have "wire_depth (WArr ws) \<le> Suc (length (concat (map wire_text ws)))"
    by (simp only: wire_depth.simps Suc_le_mono)
  then show ?case by (rule le_trans) (simp add: CRLF_def)
qed (simp_all add: CRLF_def)

lemma parseReply_wire: "wire_ok w \<Longrightarrow> parseReply (wire_text w @ r) = Parsed (wire_value w) r"
  using parse_wire [of w "length (wire_text w @ r)" r] depth_length [of w] by (simp add: parseReply_def)

text \<open>With less depth a reply is at worst not recognised.\<close>

lemma parse_items_any:
  assumes "\<And>w r. w \<in> set ws \<Longrightarrow> p (f w @ r) \<in> {More, Parsed (g w) r}"
  shows "parse_items p (length ws) (concat (map f ws) @ r) \<in> {More, Parsed (map g ws) r}"
  using assms
proof (induction ws)
  case (Cons w ws)
  have "p (f w @ concat (map f ws) @ r) \<in> {More, Parsed (g w) (concat (map f ws) @ r)}" using Cons.prems by simp
  moreover have "parse_items p (length ws) (concat (map f ws) @ r) \<in> {More, Parsed (map g ws) r}" using Cons by simp
  ultimately show ?case by auto
qed simp

lemma parse_wire_flat:
  assumes "wire_ok w" "wire_depth w = 1"
  shows "parse_nested d (wire_text w @ r) \<in> {More, Parsed (wire_value w) r}"
proof (cases d)
  case (Suc d')
  with assms(2) have "wire_depth w \<le> d" by simp
  then show ?thesis using parse_wire assms(1) by blast
qed simp

lemma parse_wire_any: "wire_ok w \<Longrightarrow> parse_nested d (wire_text w @ r) \<in> {More, Parsed (wire_value w) r}"
proof (induction w arbitrary: d r)
  case (WArr ws)
  show ?case
  proof (cases d)
    case (Suc d')
    have "parse_items (parse_nested d') (length ws) (concat (map wire_text ws) @ r) \<in> {More, Parsed (map wire_value ws) r}"
      using WArr by (intro parse_items_any) (auto simp: list_all_iff)
    then show ?thesis
      using split_first [of "CHR ''*''" "nat_to_string (length ws)"] no_return(2) by (auto simp: Suc parse_int_nat)
  qed simp
qed (rule parse_wire_flat; simp)+

text \<open>An incomplete reply is recognised as such, wherever it is cut.\<close>

lemma parse_items_short:
  assumes "\<And>w r. w \<in> set ws \<Longrightarrow> p (f w @ r) \<in> {More, Parsed (g w) r}"
    and "\<And>w q r. w \<in> set ws \<Longrightarrow> f w = q @ r \<Longrightarrow> r \<noteq> [] \<Longrightarrow> p q = More"
    and "concat (map f ws) = q @ r" "r \<noteq> []"
  shows "parse_items p (length ws) q = More"
  using assms
proof (induction ws arbitrary: q)
  case (Cons w ws)
  show ?case
  proof (cases "length q < length (f w)")
    case True
    then obtain r' where "f w = q @ r'" "r' \<noteq> []"
      using Cons.prems(3) by (metis append_eq_append_conv_if append_take_drop_id concat.simps(2) drop_eq_Nil leD list.simps(9))
    then have "p q = More" using Cons.prems(2) [of w q r'] by simp
    then show ?thesis by simp
  next
    case False
    then obtain q' where q: "q = f w @ q'"
      using Cons.prems(3) by (metis append_eq_append_conv_if append_take_drop_id concat.simps(2) leI list.simps(9))
    have "parse_items p (length ws) q' = More"
    proof (rule Cons.IH)
      show "concat (map f ws) = q' @ r" using Cons.prems(3) q by simp
      show "v \<in> set ws \<Longrightarrow> p (f v @ r) \<in> {More, Parsed (g v) r}" for v r using Cons.prems(1) [of v r] by simp
      show "v \<in> set ws \<Longrightarrow> f v = q @ r \<Longrightarrow> r \<noteq> [] \<Longrightarrow> p q = More" for v q r using Cons.prems(2) [of v q r] by simp
    qed (rule Cons.prems(4))
    with q Cons.prems(1) [of w q'] show ?thesis by auto
  qed
qed simp

lemma parse_short_line:
  assumes "CHR 13 \<notin> set (ty # line)" "ty # line @ CRLF @ t = q @ r" "length q < length line + 3"
  shows "parse_nested d q = More"
proof -
  have "split_line q = None"
    using split_line_short [OF assms(1), of q t] assms(2,3) by auto
  then show ?thesis by (cases d) (auto split: list.splits)
qed

lemma long_prefix:
  assumes "ty # line @ CRLF @ t = q @ r" "\<not> length q < length line + 3"
  obtains q' where "q = ty # line @ CRLF @ q'" "t = q' @ r"
proof -
  have len: "length (ty # line @ CRLF) \<le> length q" using assms(2) by (simp add: CRLF_def)
  have e: "(ty # line @ CRLF) @ t = q @ r" using assms(1) by simp
  with len obtain q' where "q = (ty # line @ CRLF) @ q'" by (metis append_eq_append_conv_if append_take_drop_id)
  with e that show ?thesis by simp
qed

lemma proper_prefix: "ty # s @ CRLF = q @ r \<Longrightarrow> r \<noteq> [] \<Longrightarrow> length q < length s + 3"
proof -
  assume "ty # s @ CRLF = q @ r" "r \<noteq> []"
  then have "length (ty # s @ CRLF) = length q + length r" "0 < length r" by simp_all
  then show ?thesis by (cases r) (simp_all add: CRLF_def)
qed

lemma wire_short:
  "wire_ok w \<Longrightarrow> wire_text w = q @ r \<Longrightarrow> r \<noteq> [] \<Longrightarrow> parse_nested d q = More"
proof (induction w arbitrary: d q r)
  case (WArr ws)
  let ?l = "nat_to_string (length ws)"
  have cr: "CHR 13 \<notin> set (CHR ''*'' # ?l)" using no_return(2) by simp
  show ?case
  proof (cases "length q < length ?l + 3")
    case True
    then show ?thesis using parse_short_line [OF cr] WArr.prems(2) by simp
  next
    case False
    with WArr.prems(2) obtain q' where q: "q = CHR ''*'' # ?l @ CRLF @ q'" "concat (map wire_text ws) = q' @ r"
      by (metis long_prefix wire_text.simps(6))
    have "parse_items (parse_nested d') (length ws) q' = More" for d'
    proof (rule parse_items_short [OF _ _ q(2) WArr.prems(3)])
      show "w \<in> set ws \<Longrightarrow> parse_nested d' (wire_text w @ r) \<in> {More, Parsed (wire_value w) r}" for w r
        using WArr.prems(1) by (intro parse_wire_any) (auto simp: list_all_iff)
      show "w \<in> set ws \<Longrightarrow> wire_text w = q @ r \<Longrightarrow> r \<noteq> [] \<Longrightarrow> parse_nested d' q = More" for w q r
        using WArr.IH [of w q r d'] WArr.prems(1) by (auto simp: list_all_iff)
    qed
    then show ?thesis using split_first [OF cr, of q'] by (cases d) (simp_all add: q(1) parse_int_nat)
  qed
next
  case (WBulk s)
  let ?l = "nat_to_string (length s)"
  have cr: "CHR 13 \<notin> set (CHR ''$'' # ?l)" using no_return(2) by simp
  show ?case
  proof (cases "length q < length ?l + 3")
    case True
    then show ?thesis using parse_short_line [OF cr] WBulk.prems(2) by simp
  next
    case False
    with WBulk.prems(2) obtain q' where q: "q = CHR ''$'' # ?l @ CRLF @ q'" "s @ CRLF = q' @ r"
      by (metis long_prefix wire_text.simps(4))
    have "length q' < length s + 2" using arg_cong [OF q(2), of length] WBulk.prems(3) by (simp add: CRLF_def)
    then show ?thesis using split_first [OF cr, of q'] by (cases d) (simp_all add: q(1) parse_int_nat)
  qed
next
  case (WSimple s)
  then have "length q < length s + 3" using proper_prefix by simp
  with WSimple show ?case by (intro parse_short_line [of "CHR ''+''" s "[]"]) auto
next
  case (WError s)
  then have "length q < length s + 3" using proper_prefix by simp
  with WError show ?case by (intro parse_short_line [of "CHR ''-''" s "[]"]) auto
next
  case (WInt i)
  then have "length q < length (int_to_string i) + 3" using proper_prefix by simp
  with WInt no_return(1) show ?case by (intro parse_short_line [of "CHR '':''" "int_to_string i" "[]"]) auto
next
  case WNil
  then have "length q < length ''-1'' + 3" using proper_prefix [of "CHR ''$''" "''-1''" q r] by simp
  with WNil show ?case by (intro parse_short_line [of "CHR ''$''" "''-1''" "[]"]) auto
next
  case WNilArr
  then have "length q < length ''-1'' + 3" using proper_prefix [of "CHR ''*''" "''-1''" q r] by simp
  with WNilArr show ?case by (intro parse_short_line [of "CHR ''*''" "''-1''" "[]"]) auto
qed

lemma parseReply_short: "wire_ok w \<Longrightarrow> wire_text w = q @ r \<Longrightarrow> r \<noteq> [] \<Longrightarrow> parseReply q = More"
  by (simp add: parseReply_def wire_short)


lemma small_numbers: "nat_to_string 2 = ''2''" "nat_to_string (Suc (Suc 0)) = ''2''" "int_to_string 5 = ''5''"
  by code_simp+


text \<open>A command is an array of bulk strings, so the same parser reads it back.\<close>

lemma command_parses_back: "parseReply (encodeCommand args) = Parsed (RArr (map RText args)) []"
proof -
  have "encodeCommand args = wire_text (WArr (map WBulk args))"
    by (simp add: encodeCommand_def comp_def)
  then show ?thesis
    using parseReply_wire [of "WArr (map WBulk args)" "[]"] by (simp add: comp_def list_all_iff)
qed

section \<open>Matching replies to commands\<close>

lemma drain_append:
  assumes "length is = length ws" "list_all wire_ok ws" "concat (map wire_text ws) = s @ t @ u"
  shows "drain is (s @ t) = (case drain is s of (out1, is1, b1) \<Rightarrow> (case drain is1 (b1 @ t) of (out2, is2, b2) \<Rightarrow> (out1 @ out2, is2, b2)))"
  using assms
proof (induction "is" ws arbitrary: s rule: list_induct2)
  case (Cons i "is" w ws)
  show ?case
  proof (cases "length s < length (wire_text w)")
    case True
    then obtain r where "wire_text w = s @ r" "r \<noteq> []"
      using Cons.prems(2) by (metis append_eq_append_conv_if append_take_drop_id concat.simps(2) drop_eq_Nil leD list.simps(9))
    then have "parseReply s = More" using Cons.prems(1) parseReply_short [of w s r] by simp
    then show ?thesis by (simp split: prod.splits)
  next
    case False
    then obtain s' where s: "s = wire_text w @ s'"
      using Cons.prems(2) by (metis append_eq_append_conv_if append_take_drop_id concat.simps(2) leI list.simps(9))
    then have ih: "drain is (s' @ t) = (case drain is s' of (out1, is1, b1) \<Rightarrow> (case drain is1 (b1 @ t) of (out2, is2, b2) \<Rightarrow> (out1 @ out2, is2, b2)))"
      using Cons by simp
    have p: "parseReply s = Parsed (wire_value w) s'" "parseReply (s @ t) = Parsed (wire_value w) (s' @ t)"
      using Cons.prems(1) parseReply_wire [of w s'] parseReply_wire [of w "s' @ t"] by (simp_all add: s)
    show ?thesis by (simp add: p ih split: prod.splits)
  qed
qed simp

lemma drain_all:
  "length is = length ws \<Longrightarrow> list_all wire_ok ws \<Longrightarrow>
     drain is (concat (map wire_text ws)) = (zip is (map (\<lambda>w. settle_reply (wire_value w)) ws), [], [])"
  by (induction "is" ws rule: list_induct2) (simp_all add: parseReply_wire)

text \<open>
  C30. However the network cuts the stream of replies into chunks, every command in flight gets its own reply: feeding the
  chunks one after the other settles the commands in the order they were sent with the replies in the order they came.
\<close>

theorem replies_reach_their_commands:
  assumes "rc_pending c = is" and "rc_buffer c = ''''" and "length is = length ws" and "list_all wire_ok ws"
    and "concat chunks = concat (map wire_text ws)"
  shows "fold onData chunks c = c\<lparr>rc_pending := [], rc_settled := rc_settled c @ zip is (map (\<lambda>w. settle_reply (wire_value w)) ws)\<rparr>"
proof -
  have "fold onData cs c = onData (concat cs) c" if "\<exists>u. concat (map wire_text ws) = concat cs @ u" "cs \<noteq> []" for cs
    using that
  proof (induction cs rule: rev_induct)
    case (snoc ch cs)
    show ?case
    proof (cases "cs = []")
      case False
      with snoc have ih: "fold onData cs c = onData (concat cs) c" by auto
      obtain u where "concat (map wire_text ws) = concat cs @ ch @ u" using snoc.prems(1) by auto
      with drain_append [OF assms(3,4), of "concat cs" ch u]
      have "onData ch (onData (concat cs) c) = onData (concat cs @ ch) c" by (simp add: onData_def assms(1,2) split: prod.splits)
      then show ?thesis by (simp add: ih)
    qed simp
  qed simp
  moreover have "fold onData [] c = onData (concat []) c" if "ws = []"
    using that assms(1-3) by (simp add: onData_def)
  moreover have "ws = []" if "chunks = []"
  proof (rule ccontr)
    assume "ws \<noteq> []"
    then obtain w ws' where "ws = w # ws'" by (cases ws) auto
    then show False using assms(5) that by (cases w) (auto simp: CRLF_def)
  qed
  ultimately have "fold onData chunks c = onData (concat chunks) c" using assms(5) by (cases "chunks = []") auto
  then show ?thesis
    using drain_all [OF assms(3,4)] by (simp add: onData_def assms(1,2,5))
qed

definition two_in_flight :: redis_client where
  "two_in_flight = \<lparr>rc_connected = True, rc_buffer = [], rc_pending = [7, 8], rc_settled = []\<rparr>"

theorem replies_reach_their_commands_witness:
  "fold onData [''+O'', ''K'', [CHR 13], CHR 10 # '':5'' @ CRLF] two_in_flight
    = two_in_flight\<lparr>rc_pending := [], rc_settled := rc_settled two_in_flight @ zip [7, 8] (map (\<lambda>w. settle_reply (wire_value w)) [WSimple ''OK'', WInt 5])\<rparr>"
  by (rule replies_reach_their_commands) (simp_all add: two_in_flight_def CRLF_def small_numbers)



section \<open>Connecting with retries\<close>

lemma connect_loop_spec:
  "fst (connect_loop left maxMs baseMs open_socket attempt e) = Inr n \<longleftrightarrow>
     attempt \<le> n \<and> n < attempt + left \<and> open_socket n = None \<and> (\<forall>m. attempt \<le> m \<and> m < n \<longrightarrow> open_socket m \<noteq> None)"
proof (induction left arbitrary: attempt e)
  case (Suc left)
  show ?case
  proof (cases "open_socket attempt")
    case None
    have "n = attempt" if "attempt \<le> n" "\<forall>m. attempt \<le> m \<and> m < n \<longrightarrow> open_socket m \<noteq> None"
      using that None by (metis le_neq_implies_less order_refl)
    with None show ?thesis by auto
  next
    case (Some x)
    have "(\<forall>m. attempt \<le> m \<and> m < n \<longrightarrow> open_socket m \<noteq> None) \<longleftrightarrow> (\<forall>m. attempt + 1 \<le> m \<and> m < n \<longrightarrow> open_socket m \<noteq> None)"
      using Some by (metis Suc_eq_plus1 Suc_leI le_neq_implies_less option.distinct(1) Suc_leD)
    moreover have "open_socket n = None \<Longrightarrow> attempt \<le> n \<longleftrightarrow> attempt + 1 \<le> n" using Some by (metis Suc_eq_plus1 Suc_leI Suc_leD le_neq_implies_less option.distinct(1))
    ultimately show ?thesis using Suc.IH [of "attempt + 1" "Some x"] Some by (auto split: prod.splits)
  qed
qed simp

lemma connect_delays: "length (snd (connect_loop left maxMs baseMs open_socket attempt e)) \<le> left - 1"
proof (induction left arbitrary: attempt e)
  case (Suc left)
  show ?case
  proof (cases "open_socket attempt")
    case (Some x)
    with Suc [of "attempt + 1" "Some x"] show ?thesis by (cases "left = 0") (auto split: prod.splits)
  qed simp
qed simp

end
