(* ===== verification/ServerKeys.thy ===== *)
theory ServerKeys
  imports Signing IsoDate Machine
begin

text \<open>
  Models \<open>server/src/api-keys.js\<close>: the API keys of the server, which are scoped, expire, are revoked, rotated and carry a
  signing secret. Every operation runs in one piece once the store is loaded. The random values are arguments: the eight bytes
  of an identifier, the 32 bytes of a key and of a signing secret. Days and times are whole numbers. Failures of the file are
  not modelled: \<open>load\<close> reads what \<open>persist\<close> wrote.

  The specification is the collection of records alone: the index by hash must not show in the answers.
\<close>

section \<open>The store\<close>

record server_key =
  vk_id :: string
  vk_name :: string
  vk_owner :: string
  vk_keyPrefix :: string
  vk_hashedKey :: string
  vk_signingSecret :: string
  vk_scopes :: "string list"
  vk_tier :: string
  vk_status :: string
  vk_createdAt :: int
  vk_expiresAt :: "int option"
  vk_lastUsedAt :: "int option"
  vk_revokedAt :: "int option"
  vk_rotatedAt :: "int option"

record key_service =
  vs_keys :: "(string, server_key) jsmap"
  vs_byHash :: "(string, string) jsmap"

definition new_ApiKeyService :: key_service where
  "new_ApiKeyService = \<lparr>vs_keys = [], vs_byHash = []\<rparr>"

definition server_hashApiKey :: "crypto \<Rightarrow> string \<Rightarrow> string" where
  "server_hashApiKey C rawKey = to_hex (sha256 C (utf8_bytes rawKey))"

text \<open>A restart: the records are read back and the index is built from them.\<close>

definition key_index :: "(string, server_key) jsmap \<Rightarrow> (string, string) jsmap" where
  "key_index m = fold (\<lambda>(_, r) ix. if vk_hashedKey r \<noteq> [] then jm_set (vk_hashedKey r) (vk_id r) ix else ix) m []"

definition load_keys :: "key_service \<Rightarrow> key_service" where
  "load_keys s = (let m = fold (\<lambda>(_, r). jm_set (vk_id r) r) (vs_keys s) [] in \<lparr>vs_keys = m, vs_byHash = key_index (vs_keys s)\<rparr>)"

section \<open>The operations\<close>

record issue_request =
  iq_name :: string
  iq_owner :: string
  iq_scopes :: "string list"
  iq_tier :: string
  iq_expiresInDays :: "int option"

definition day_ms :: int where
  "day_ms = 24 * 60 * 60 * 1000"

text \<open>\<open>days ? now + days * 24 * 60 * 60 * 1000 : otherwise\<close>\<close>

definition expiry_after :: "int option \<Rightarrow> int \<Rightarrow> int option \<Rightarrow> int option" where
  "expiry_after days now otherwise = (case days of Some d \<Rightarrow> if d \<noteq> 0 then Some (now + d * day_ms) else otherwise | None \<Rightarrow> otherwise)"

definition raw_key :: "byte list \<Rightarrow> string" where
  "raw_key bs = ''sk_'' @ to_hex bs"

text \<open>The key, its signing secret and the record; the answer to the caller repeats fields of the record.\<close>

definition issueKey :: "crypto \<Rightarrow> byte list \<Rightarrow> byte list \<Rightarrow> byte list \<Rightarrow> int \<Rightarrow> issue_request \<Rightarrow> key_service
    \<Rightarrow> (string \<times> server_key) \<times> key_service" where
  "issueKey C idBytes keyBytes secretBytes now rq s = (let
     i = ''key_'' @ to_hex idBytes; rawKey = raw_key keyBytes; h = server_hashApiKey C rawKey;
     r = \<lparr>vk_id = i, vk_name = iq_name rq, vk_owner = iq_owner rq, vk_keyPrefix = take 7 rawKey @ ''...'', vk_hashedKey = h,
       vk_signingSecret = ''ss_'' @ to_hex secretBytes, vk_scopes = iq_scopes rq,
       vk_tier = (if iq_tier rq = [] then ''free'' else iq_tier rq), vk_status = ''active'', vk_createdAt = now,
       vk_expiresAt = expiry_after (iq_expiresInDays rq) now None, vk_lastUsedAt = None, vk_revokedAt = None, vk_rotatedAt = None\<rparr>
   in ((rawKey, r), \<lparr>vs_keys = jm_set i r (vs_keys s), vs_byHash = jm_set h i (vs_byHash s)\<rparr>))"

text \<open>\<open>record.expiresAt && record.expiresAt < now\<close>\<close>

definition key_expired :: "server_key \<Rightarrow> int \<Rightarrow> bool" where
  "key_expired r now = (case vk_expiresAt r of Some t \<Rightarrow> t \<noteq> 0 \<and> t < now | None \<Rightarrow> False)"

definition validateKey :: "crypto \<Rightarrow> string \<Rightarrow> int \<Rightarrow> key_service \<Rightarrow> server_key option \<times> key_service" where
  "validateKey C rawKey now s = (if rawKey = [] then (None, s)
     else case jm_get (vs_byHash s) (server_hashApiKey C rawKey) of
       None \<Rightarrow> (None, s)
     | Some i \<Rightarrow> if i = [] then (None, s) else (case jm_get (vs_keys s) i of
         None \<Rightarrow> (None, s)
       | Some r \<Rightarrow> if vk_status r \<noteq> ''active'' \<or> key_expired r now then (None, s)
           else (let r' = r\<lparr>vk_lastUsedAt := Some now\<rparr> in (Some r', s\<lparr>vs_keys := jm_set i r' (vs_keys s)\<rparr>))))"

text \<open>What is shown of a key: everything but its hash and its signing secret.\<close>

record key_info =
  ki_id :: string
  ki_name :: string
  ki_owner :: string
  ki_keyPrefix :: string
  ki_hasSigningSecret :: bool
  ki_scopes :: "string list"
  ki_tier :: string
  ki_status :: string
  ki_createdAt :: string
  ki_expiresAt :: "string option"
  ki_lastUsedAt :: "string option"

definition iso_or_null :: "int option \<Rightarrow> string option" where
  "iso_or_null t = (case t of Some n \<Rightarrow> if n \<noteq> 0 then Some (iso_string (nat n)) else None | None \<Rightarrow> None)"

definition key_info_of :: "server_key \<Rightarrow> key_info" where
  "key_info_of r = \<lparr>ki_id = vk_id r, ki_name = vk_name r, ki_owner = vk_owner r, ki_keyPrefix = vk_keyPrefix r,
     ki_hasSigningSecret = (vk_signingSecret r \<noteq> []), ki_scopes = vk_scopes r, ki_tier = vk_tier r, ki_status = vk_status r,
     ki_createdAt = iso_string (nat (vk_createdAt r)), ki_expiresAt = iso_or_null (vk_expiresAt r), ki_lastUsedAt = iso_or_null (vk_lastUsedAt r)\<rparr>"

definition service_listKeys :: "key_service \<Rightarrow> key_info list" where
  "service_listKeys s = map key_info_of (jm_values (vs_keys s))"

definition getKey :: "string \<Rightarrow> key_service \<Rightarrow> key_info option" where
  "getKey i s = map_option key_info_of (jm_get (vs_keys s) i)"

definition getSigningSecret :: "string \<Rightarrow> key_service \<Rightarrow> string option" where
  "getSigningSecret i s = (case jm_get (vs_keys s) i of
     Some r \<Rightarrow> if vk_status r \<noteq> ''active'' then None else Some (vk_signingSecret r) | None \<Rightarrow> None)"

definition revokeKey :: "string \<Rightarrow> int \<Rightarrow> key_service \<Rightarrow> bool \<times> key_service" where
  "revokeKey i now s = (case jm_get (vs_keys s) i of None \<Rightarrow> (False, s)
   | Some r \<Rightarrow> (True, \<lparr>vs_keys = jm_set i (r\<lparr>vk_status := ''revoked'', vk_revokedAt := Some now\<rparr>) (vs_keys s),
       vs_byHash = jm_delete (vk_hashedKey r) (vs_byHash s)\<rparr>))"

definition deleteKey :: "string \<Rightarrow> key_service \<Rightarrow> bool \<times> key_service" where
  "deleteKey i s = (case jm_get (vs_keys s) i of None \<Rightarrow> (False, s)
   | Some r \<Rightarrow> (True, \<lparr>vs_keys = jm_delete i (vs_keys s), vs_byHash = jm_delete (vk_hashedKey r) (vs_byHash s)\<rparr>))"

definition rotateKey :: "crypto \<Rightarrow> string \<Rightarrow> byte list \<Rightarrow> byte list \<Rightarrow> int option \<Rightarrow> int \<Rightarrow> key_service
    \<Rightarrow> (string \<times> server_key) option \<times> key_service" where
  "rotateKey C i keyBytes secretBytes days now s = (case jm_get (vs_keys s) i of None \<Rightarrow> (None, s)
   | Some r \<Rightarrow> (let rawKey = raw_key keyBytes; h = server_hashApiKey C rawKey;
       r' = r\<lparr>vk_signingSecret := ''ss_'' @ to_hex secretBytes, vk_hashedKey := h, vk_keyPrefix := take 7 rawKey @ ''...'',
         vk_status := ''active'', vk_rotatedAt := Some now, vk_expiresAt := expiry_after days now (vk_expiresAt r)\<rparr>
     in (Some (rawKey, r'), \<lparr>vs_keys = jm_set i r' (vs_keys s), vs_byHash = jm_set h i (jm_delete (vk_hashedKey r) (vs_byHash s))\<rparr>)))"

section \<open>The index agrees with the records\<close>

datatype key_event =
    Issued "byte list" "byte list" "byte list" int issue_request
  | Validated string int
  | Revoked string int
  | Deleted string
  | Rotated string "byte list" "byte list" "int option" int
  | Reloaded

fun keys_do :: "crypto \<Rightarrow> key_event \<Rightarrow> key_service \<Rightarrow> key_service" where
  "keys_do C (Issued idBytes keyBytes secretBytes now rq) s = snd (issueKey C idBytes keyBytes secretBytes now rq s)"
| "keys_do C (Validated rawKey now) s = snd (validateKey C rawKey now s)"
| "keys_do C (Revoked i now) s = snd (revokeKey i now s)"
| "keys_do C (Deleted i) s = snd (deleteKey i s)"
| "keys_do C (Rotated i keyBytes secretBytes days now) s = snd (rotateKey C i keyBytes secretBytes days now s)"
| "keys_do C Reloaded s = load_keys s"

text \<open>The random values are new: an unused identifier, and a key whose hash is not empty and not among the known ones.\<close>

definition unused_hash :: "string \<Rightarrow> key_service \<Rightarrow> bool" where
  "unused_hash h s \<longleftrightarrow> h \<noteq> [] \<and> list_all (\<lambda>r. vk_hashedKey r \<noteq> h) (jm_values (vs_keys s))"

fun draws_new :: "crypto \<Rightarrow> key_service \<Rightarrow> key_event \<Rightarrow> bool" where
  "draws_new C s (Issued idBytes keyBytes secretBytes now rq) \<longleftrightarrow>
     \<not> jm_has (vs_keys s) (''key_'' @ to_hex idBytes) \<and> unused_hash (server_hashApiKey C (raw_key keyBytes)) s"
| "draws_new C s (Rotated i keyBytes secretBytes days now) \<longleftrightarrow> unused_hash (server_hashApiKey C (raw_key keyBytes)) s"
| "draws_new C s e = True"

inductive key_step :: "crypto \<Rightarrow> key_service \<Rightarrow> key_event \<Rightarrow> key_service \<Rightarrow> bool" for C where
  key_step: "draws_new C s e \<Longrightarrow> key_step C s e (keys_do C e s)"

inductive_cases key_stepE: "key_step C s e s'"

definition keys_consistent :: "key_service \<Rightarrow> bool" where
  "keys_consistent s \<longleftrightarrow> jm_wf (vs_keys s)
     \<and> (\<forall>i r. jm_get (vs_keys s) i = Some r \<longrightarrow> vk_id r = i \<and> i \<noteq> [] \<and> vk_hashedKey r \<noteq> [])
     \<and> (\<forall>i r j q. jm_get (vs_keys s) i = Some r \<and> jm_get (vs_keys s) j = Some q \<and> vk_hashedKey r = vk_hashedKey q \<longrightarrow> i = j)
     \<and> (\<forall>h i. jm_get (vs_byHash s) h = Some i \<longrightarrow> (\<exists>r. jm_get (vs_keys s) i = Some r \<and> vk_hashedKey r = h))
     \<and> (\<forall>i r. jm_get (vs_keys s) i = Some r \<and> vk_status r = ''active'' \<longrightarrow> jm_get (vs_byHash s) (vk_hashedKey r) = Some i)"

lemma unused_hash_get: "unused_hash h s \<Longrightarrow> jm_get (vs_keys s) i = Some r \<Longrightarrow> vk_hashedKey r \<noteq> h"
  by (auto simp: unused_hash_def list_all_iff jm_values_def dest!: jm_get_in)

lemma consistentD:
  assumes "keys_consistent s"
  shows "jm_wf (vs_keys s)" "jm_get (vs_keys s) i = Some r \<Longrightarrow> vk_id r = i \<and> i \<noteq> [] \<and> vk_hashedKey r \<noteq> []"
    "jm_get (vs_keys s) i = Some r \<Longrightarrow> jm_get (vs_keys s) j = Some q \<Longrightarrow> vk_hashedKey r = vk_hashedKey q \<Longrightarrow> i = j"
    "jm_get (vs_byHash s) h = Some i \<Longrightarrow> \<exists>r. jm_get (vs_keys s) i = Some r \<and> vk_hashedKey r = h"
    "jm_get (vs_keys s) i = Some r \<Longrightarrow> vk_status r = ''active'' \<Longrightarrow> jm_get (vs_byHash s) (vk_hashedKey r) = Some i"
  using assms unfolding keys_consistent_def by blast+

text \<open>One update of a record and of the index keeps them consistent.\<close>

lemma consistentI:
  assumes "jm_wf (vs_keys s)" "\<And>i r. jm_get (vs_keys s) i = Some r \<Longrightarrow> vk_id r = i \<and> i \<noteq> [] \<and> vk_hashedKey r \<noteq> []"
    "\<And>i r j q. jm_get (vs_keys s) i = Some r \<Longrightarrow> jm_get (vs_keys s) j = Some q \<Longrightarrow> vk_hashedKey r = vk_hashedKey q \<Longrightarrow> i = j"
    "\<And>h i. jm_get (vs_byHash s) h = Some i \<Longrightarrow> \<exists>r. jm_get (vs_keys s) i = Some r \<and> vk_hashedKey r = h"
    "\<And>i r. jm_get (vs_keys s) i = Some r \<Longrightarrow> vk_status r = ''active'' \<Longrightarrow> jm_get (vs_byHash s) (vk_hashedKey r) = Some i"
  shows "keys_consistent s"
  using assms unfolding keys_consistent_def by blast

text \<open>The index without the hash of the record that is replaced or removed.\<close>

definition unindexed :: "string \<Rightarrow> key_service \<Rightarrow> (string, string) jsmap" where
  "unindexed i s = (case jm_get (vs_keys s) i of Some q \<Rightarrow> jm_delete (vk_hashedKey q) (vs_byHash s) | None \<Rightarrow> vs_byHash s)"

lemma unindexed_get:
  assumes "keys_consistent s"
  shows "jm_get (unindexed i s) h = Some j \<longleftrightarrow> j \<noteq> i \<and> jm_get (vs_byHash s) h = Some j"
proof (cases "jm_get (vs_keys s) i")
  case None
  then have "jm_get (vs_byHash s) h \<noteq> Some i" using consistentD(4) [OF assms, of h i] by auto
  then show ?thesis using None by (auto simp: unindexed_def)
next
  case (Some q)
  show ?thesis
  proof (cases "h = vk_hashedKey q")
    case True
    then have "\<not> (j \<noteq> i \<and> jm_get (vs_byHash s) h = Some j)"
      using consistentD(4) [OF assms, of h j] consistentD(3) [OF assms _ Some] by blast
    moreover have "jm_get (unindexed i s) h = None" using True Some by (simp add: unindexed_def)
    ultimately show ?thesis by simp
  next
    case False
    then have "jm_get (vs_byHash s) h \<noteq> Some i" using consistentD(4) [OF assms, of h i] Some by auto
    with False Some show ?thesis by (auto simp: unindexed_def)
  qed
qed

lemma consistent_put:
  assumes "keys_consistent s" "vk_id r = i" "i \<noteq> []" "unused_hash (vk_hashedKey r) s"
  shows "keys_consistent \<lparr>vs_keys = jm_set i r (vs_keys s), vs_byHash = jm_set (vk_hashedKey r) i (unindexed i s)\<rparr>"
proof (rule consistentI)
  note c = consistentD [OF assms(1)]
  have new: "vk_hashedKey q \<noteq> vk_hashedKey r" if "jm_get (vs_keys s) j = Some q" for j q using unused_hash_get assms(4) that by blast
  have new': "jm_get (vs_byHash s) (vk_hashedKey r) = None" using c(4) new by (cases "jm_get (vs_byHash s) (vk_hashedKey r)") auto
  show "\<exists>r'. jm_get (vs_keys \<lparr>vs_keys = jm_set i r (vs_keys s), vs_byHash = jm_set (vk_hashedKey r) i (unindexed i s)\<rparr>) j = Some r' \<and> vk_hashedKey r' = h"
    if "jm_get (vs_byHash \<lparr>vs_keys = jm_set i r (vs_keys s), vs_byHash = jm_set (vk_hashedKey r) i (unindexed i s)\<rparr>) h = Some j" for h j
    using that c(4) [of h j] unindexed_get [OF assms(1), of i h j] by (auto split: if_splits)
  show "jm_get (vs_byHash \<lparr>vs_keys = jm_set i r (vs_keys s), vs_byHash = jm_set (vk_hashedKey r) i (unindexed i s)\<rparr>) (vk_hashedKey q) = Some j"
    if "jm_get (vs_keys \<lparr>vs_keys = jm_set i r (vs_keys s), vs_byHash = jm_set (vk_hashedKey r) i (unindexed i s)\<rparr>) j = Some q" "vk_status q = ''active''" for j q
    using that c(5) [of j q] new [of j q] unindexed_get [OF assms(1), of i "vk_hashedKey q" j] by (auto split: if_splits)
  show "jm_wf (vs_keys \<lparr>vs_keys = jm_set i r (vs_keys s), vs_byHash = jm_set (vk_hashedKey r) i (unindexed i s)\<rparr>)" using c(1) by simp
  show "vk_id q = j \<and> j \<noteq> [] \<and> vk_hashedKey q \<noteq> []"
    if "jm_get (vs_keys \<lparr>vs_keys = jm_set i r (vs_keys s), vs_byHash = jm_set (vk_hashedKey r) i (unindexed i s)\<rparr>) j = Some q" for j q
    using that c(2) [of j q] assms(2-4) by (simp add: unused_hash_def split: if_splits)
  show "j = k" if "jm_get (vs_keys \<lparr>vs_keys = jm_set i r (vs_keys s), vs_byHash = jm_set (vk_hashedKey r) i (unindexed i s)\<rparr>) j = Some q"
    "jm_get (vs_keys \<lparr>vs_keys = jm_set i r (vs_keys s), vs_byHash = jm_set (vk_hashedKey r) i (unindexed i s)\<rparr>) k = Some q'"
    "vk_hashedKey q = vk_hashedKey q'" for j q k q'
    using that new [of j q] new [of k q'] c(3) [of j q k q'] by (simp split: if_splits)
qed

text \<open>A record is changed in place, without becoming active and keeping its hash, and its hash may leave the index.\<close>

lemma consistent_remove:
  assumes "keys_consistent s"
  shows "keys_consistent \<lparr>vs_keys = jm_delete i (vs_keys s), vs_byHash = unindexed i s\<rparr>"
  using consistentD [OF assms] unindexed_get [OF assms, of i]
  by (intro consistentI) (auto split: if_splits)

lemma consistent_revoke:
  assumes "keys_consistent s" "jm_get (vs_keys s) i = Some r" "vk_id q = i" "vk_hashedKey q = vk_hashedKey r" "vk_status q \<noteq> ''active''"
  shows "keys_consistent \<lparr>vs_keys = jm_set i q (vs_keys s), vs_byHash = unindexed i s\<rparr>"
  using consistentD [OF assms(1)] unindexed_get [OF assms(1), of i] assms(2-)
  by (intro consistentI) (auto split: if_splits)

lemma consistent_touch:
  assumes "keys_consistent s" "jm_get (vs_keys s) i = Some r" "vk_id q = i" "vk_hashedKey q = vk_hashedKey r" "vk_status q = vk_status r"
  shows "keys_consistent (s\<lparr>vs_keys := jm_set i q (vs_keys s)\<rparr>)"
proof (rule consistentI)
  note c = consistentD [OF assms(1)]
  show "\<exists>r'. jm_get (vs_keys (s\<lparr>vs_keys := jm_set i q (vs_keys s)\<rparr>)) j = Some r' \<and> vk_hashedKey r' = h"
    if "jm_get (vs_byHash (s\<lparr>vs_keys := jm_set i q (vs_keys s)\<rparr>)) h = Some j" for h j
    using that c(4) [of h j] assms(2,4) by auto
qed (use consistentD [OF assms(1)] assms(2-) in \<open>auto split: if_splits\<close>)

subsection \<open>A restart\<close>

lemma reload_wf: "jm_wf acc \<Longrightarrow> jm_wf (fold (\<lambda>(_, r). jm_set (vk_id r) r) m acc)"
  by (induction m arbitrary: acc) auto

lemma reload_get:
  assumes "jm_wf m" "\<forall>(i, r) \<in> set m. vk_id r = i"
  shows "jm_get (fold (\<lambda>(_, r). jm_set (vk_id r) r) m acc) k = (case jm_get m k of Some r \<Rightarrow> Some r | None \<Rightarrow> jm_get acc k)"
  using assms
proof (induction m arbitrary: acc)
  case (Cons e m)
  obtain i r where e: "e = (i, r)" by (cases e)
  have "jm_get m i = None" using Cons.prems(1) e by (cases "jm_get m i") (auto simp: jm_wf_def image_iff dest!: jm_get_in)
  then show ?case using Cons e by (auto simp: jm_wf_def split: option.splits)
qed simp

lemma index_sound: "jm_get (fold (\<lambda>(_, r) ix. if vk_hashedKey r \<noteq> [] then jm_set (vk_hashedKey r) (vk_id r) ix else ix) m acc) h = Some j
    \<Longrightarrow> (\<exists>(i, r) \<in> set m. vk_id r = j \<and> vk_hashedKey r = h) \<or> jm_get acc h = Some j"
proof (induction m arbitrary: acc)
  case (Cons e m)
  obtain i r where e: "e = (i, r)" by (cases e)
  show ?case using Cons.IH Cons.prems e by (fastforce split: if_splits)
qed simp

lemma index_keeps: "jm_get acc h \<noteq> None \<Longrightarrow>
    jm_get (fold (\<lambda>(_, r) ix. if vk_hashedKey r \<noteq> [] then jm_set (vk_hashedKey r) (vk_id r) ix else ix) m acc) h \<noteq> None"
  by (induction m arbitrary: acc) (auto split: prod.splits)

lemma index_complete: "(i, r) \<in> set m \<Longrightarrow> vk_hashedKey r \<noteq> [] \<Longrightarrow>
    jm_get (fold (\<lambda>(_, r) ix. if vk_hashedKey r \<noteq> [] then jm_set (vk_hashedKey r) (vk_id r) ix else ix) m acc) (vk_hashedKey r) \<noteq> None"
proof (induction m arbitrary: acc)
  case (Cons e m)
  show ?case
  proof (cases "(i, r) = e")
    case True
    then have "jm_get (jm_set (vk_hashedKey r) (vk_id r) acc) (vk_hashedKey r) \<noteq> None" by simp
    from index_keeps [OF this] show ?thesis using True [symmetric] Cons.prems(2) by simp
  next
    case False
    then have "(i, r) \<in> set m" using Cons.prems(1) by auto
    then show ?thesis using Cons.IH Cons.prems(2) by (cases e) simp
  qed
qed simp

lemma consistent_reload: "keys_consistent s \<Longrightarrow> keys_consistent (load_keys s)"
proof -
  assume s: "keys_consistent s"
  note c = consistentD [OF s]
  have ids: "\<forall>(i, r) \<in> set (vs_keys s). vk_id r = i" using c(2) jm_in_get [OF c(1)] by blast
  have keys [simp]: "jm_get (vs_keys (load_keys s)) k = jm_get (vs_keys s) k" for k
    using reload_get [OF c(1) ids, of "[]"] by (simp add: load_keys_def split: option.splits)
  have sound: "\<exists>r. jm_get (vs_keys s) j = Some r \<and> vk_hashedKey r = h" if "jm_get (vs_byHash (load_keys s)) h = Some j" for h j
    using index_sound [of "vs_keys s" "[]" h j] that jm_in_get [OF c(1)] ids by (fastforce simp: load_keys_def key_index_def)
  have complete: "jm_get (vs_byHash (load_keys s)) (vk_hashedKey r) = Some i" if "jm_get (vs_keys s) i = Some r" for i r
  proof -
    have "jm_get (vs_byHash (load_keys s)) (vk_hashedKey r) \<noteq> None"
      using index_complete [OF jm_get_in [OF that]] c(2) [OF that] by (simp add: load_keys_def key_index_def)
    then obtain j where j: "jm_get (vs_byHash (load_keys s)) (vk_hashedKey r) = Some j" by blast
    then show ?thesis using sound [OF j] c(3) [OF _ that] by auto
  qed
  show ?thesis
  proof (rule consistentI)
    show "jm_wf (vs_keys (load_keys s))" using reload_wf [of "[]" "vs_keys s"] by (simp add: load_keys_def)
  qed (use c(2) c(3) sound complete in auto)
qed

subsection \<open>Every operation keeps the index\<close>

lemma consistent_validate: "keys_consistent s \<Longrightarrow> keys_consistent (snd (validateKey C rawKey now s))"
proof -
  assume c: "keys_consistent s"
  have "keys_consistent (s\<lparr>vs_keys := jm_set i (r\<lparr>vk_lastUsedAt := Some now\<rparr>) (vs_keys s)\<rparr>)" if "jm_get (vs_keys s) i = Some r" for i r
    using consistent_touch [OF c that] consistentD(2) [OF c that] by simp
  with c show ?thesis by (auto simp: validateKey_def Let_def split: option.splits)
qed

lemma consistent_issue:
  assumes "keys_consistent s" "draws_new C s (Issued idBytes keyBytes secretBytes now rq)"
  shows "keys_consistent (snd (issueKey C idBytes keyBytes secretBytes now rq s))"
proof -
  let ?i = "''key_'' @ to_hex idBytes"
  let ?r = "snd (fst (issueKey C idBytes keyBytes secretBytes now rq s))"
  have "unindexed ?i s = vs_byHash s" using assms(2) by (simp add: unindexed_def jm_has_def)
  moreover have "keys_consistent \<lparr>vs_keys = jm_set ?i ?r (vs_keys s), vs_byHash = jm_set (vk_hashedKey ?r) ?i (unindexed ?i s)\<rparr>"
    using assms by (intro consistent_put) (simp_all add: issueKey_def Let_def)
  ultimately show ?thesis by (simp add: issueKey_def Let_def)
qed

lemma consistent_rotate:
  assumes "keys_consistent s" "draws_new C s (Rotated i keyBytes secretBytes days now)"
  shows "keys_consistent (snd (rotateKey C i keyBytes secretBytes days now s))"
proof (cases "jm_get (vs_keys s) i")
  case (Some r)
  obtain q where q: "snd (rotateKey C i keyBytes secretBytes days now s)
      = \<lparr>vs_keys = jm_set i q (vs_keys s), vs_byHash = jm_set (vk_hashedKey q) i (unindexed i s)\<rparr>"
    "vk_hashedKey q = server_hashApiKey C (raw_key keyBytes)" "vk_id q = vk_id r"
    by (simp add: rotateKey_def Some Let_def unindexed_def)
  show ?thesis unfolding q(1)
    using assms q(2,3) consistentD(2) [OF assms(1) Some] by (intro consistent_put) simp_all
qed (use assms in \<open>simp add: rotateKey_def\<close>)

lemma consistent_step: "keys_consistent s \<Longrightarrow> key_step C s e s' \<Longrightarrow> keys_consistent s'"
proof (erule key_stepE)
  assume c: "keys_consistent s" and s': "s' = keys_do C e s" and d: "draws_new C s e"
  show "keys_consistent s'"
  proof (cases e)
    case (Revoked i now)
    with c show ?thesis
      using consistent_revoke [OF c, of i _ "_\<lparr>vk_status := ''revoked'', vk_revokedAt := Some now\<rparr>"] consistentD(2) [OF c, of i]
      by (auto simp: s' revokeKey_def unindexed_def split: option.splits)
  next
    case (Deleted i)
    with c show ?thesis using consistent_remove [OF c, of i] by (auto simp: s' deleteKey_def unindexed_def split: option.splits)
  qed (use c d in \<open>simp_all add: s' consistent_issue consistent_rotate consistent_validate consistent_reload\<close>)
qed

interpretation keys: machine "\<lambda>s. s = new_ApiKeyService" "key_step C" keys_consistent
  by unfold_locales (simp add: keys_consistent_def new_ApiKeyService_def, rule consistent_step)

section \<open>What the service promises\<close>

definition accepts :: "crypto \<Rightarrow> string \<Rightarrow> int \<Rightarrow> server_key \<Rightarrow> bool" where
  "accepts C rawKey now r \<longleftrightarrow> vk_hashedKey r = server_hashApiKey C rawKey \<and> vk_status r = ''active'' \<and> \<not> key_expired r now"

lemma validate_spec:
  assumes c: "keys_consistent s" and "rawKey \<noteq> []"
  shows "fst (validateKey C rawKey now s) = map_option (\<lambda>r. r\<lparr>vk_lastUsedAt := Some now\<rparr>) (find (accepts C rawKey now) (jm_values (vs_keys s)))"
proof (cases "find (accepts C rawKey now) (jm_values (vs_keys s))")
  case None
  then have "\<not> accepts C rawKey now r" if "r \<in> set (jm_values (vs_keys s))" for r
    using that by (simp add: find_None_iff)
  then have no: "\<not> accepts C rawKey now r" if "jm_get (vs_keys s) i = Some r" for i r
    using that jm_values_iff [OF consistentD(1) [OF c], of r] by blast
  show ?thesis
  proof (cases "jm_get (vs_byHash s) (server_hashApiKey C rawKey)")
    case (Some i)
    from consistentD(4) [OF c Some] obtain r where r: "jm_get (vs_keys s) i = Some r" "vk_hashedKey r = server_hashApiKey C rawKey" by blast
    with no [OF r(1)] have "vk_status r \<noteq> ''active'' \<or> key_expired r now" by (simp add: accepts_def)
    then show ?thesis using Some r(1) None by (simp add: validateKey_def)
  qed (simp add: validateKey_def None)
next
  case (Some r)
  then have "r \<in> set (jm_values (vs_keys s))" and a: "accepts C rawKey now r" by (auto simp: find_Some_iff)
  then obtain i where i: "jm_get (vs_keys s) i = Some r" using jm_values_iff [OF consistentD(1) [OF c]] by blast
  then have "jm_get (vs_byHash s) (server_hashApiKey C rawKey) = Some i" "i \<noteq> []"
    using consistentD(5) [OF c i] consistentD(2) [OF c i] a by (simp_all add: accepts_def)
  with i a Some assms(2) show ?thesis by (simp add: validateKey_def accepts_def Let_def)
qed

text \<open>
  C27. The index by hash never shows: in every state the service reaches, a key is accepted exactly if some record carries its
  hash, is active and has not expired, and the answer is that record.
\<close>

theorem keys_refine_records:
  assumes "exec (key_step C) new_ApiKeyService es s" and "rawKey \<noteq> ''''"
  shows "fst (validateKey C rawKey now s) = map_option (\<lambda>r. r\<lparr>vk_lastUsedAt := Some now\<rparr>) (find (accepts C rawKey now) (jm_values (vs_keys s)))"
  using validate_spec keys.reachable_inv [OF refl assms(1)] assms(2) by blast

definition keys_crypto :: crypto where
  "keys_crypto = \<lparr>sha256 = (\<lambda>bs. bs), hmac256 = (\<lambda>k m. k @ m)\<rparr>"

definition demo_issue :: issue_request where
  "demo_issue = \<lparr>iq_name = ''ci'', iq_owner = ''ops'', iq_scopes = [''credentials:read''], iq_tier = '''', iq_expiresInDays = Some 1\<rparr>"

definition demo_keys :: key_service where
  "demo_keys = keys_do keys_crypto (Issued [1] [2] [3] 1000 demo_issue) new_ApiKeyService"

lemma demo_keys_reached: "exec (key_step keys_crypto) new_ApiKeyService [Issued [1] [2] [3] 1000 demo_issue] demo_keys"
proof -
  have "draws_new keys_crypto new_ApiKeyService (Issued [1] [2] [3] 1000 demo_issue)" by code_simp
  then have "key_step keys_crypto new_ApiKeyService (Issued [1] [2] [3] 1000 demo_issue) demo_keys"
    unfolding demo_keys_def by (rule key_step)
  then show ?thesis by simp
qed

theorem keys_refine_records_witness:
  "fst (validateKey keys_crypto ''sk_02'' 2000 demo_keys)
    = map_option (\<lambda>r. r\<lparr>vk_lastUsedAt := Some 2000\<rparr>) (find (accepts keys_crypto ''sk_02'' 2000) (jm_values (vs_keys demo_keys)))
   \<and> map_option vk_owner (fst (validateKey keys_crypto ''sk_02'' 2000 demo_keys)) = Some ''ops''"
proof -
  have "map_option vk_owner (fst (validateKey keys_crypto ''sk_02'' 2000 demo_keys)) = Some ''ops''" by code_simp
  with keys_refine_records [OF demo_keys_reached, of "''sk_02''" 2000] show ?thesis by simp
qed

fun draws_key :: "crypto \<Rightarrow> string \<Rightarrow> key_event \<Rightarrow> bool" where
  "draws_key C h (Issued idBytes keyBytes secretBytes now rq) \<longleftrightarrow> server_hashApiKey C (raw_key keyBytes) = h"
| "draws_key C h (Rotated i keyBytes secretBytes days now) \<longleftrightarrow> server_hashApiKey C (raw_key keyBytes) = h"
| "draws_key C h e = False"

definition key_dead :: "string \<Rightarrow> key_service \<Rightarrow> bool" where
  "key_dead h s \<longleftrightarrow> keys_consistent s \<and> (\<forall>i r. jm_get (vs_keys s) i = Some r \<and> vk_hashedKey r = h \<longrightarrow> vk_status r \<noteq> ''active'')"

lemma key_dead_put:
  "key_dead h s \<Longrightarrow> keys_consistent s' \<Longrightarrow> (\<And>i r. jm_get (vs_keys s') i = Some r \<Longrightarrow> jm_get (vs_keys s) i = Some r
     \<or> vk_status r \<noteq> ''active'' \<or> vk_hashedKey r \<noteq> h \<or> (\<exists>q. jm_get (vs_keys s) i = Some q \<and> vk_hashedKey r = vk_hashedKey q \<and> vk_status r = vk_status q))
   \<Longrightarrow> key_dead h s'"
  unfolding key_dead_def by metis

lemma reload_keys: "keys_consistent s \<Longrightarrow> jm_get (vs_keys (load_keys s)) i = jm_get (vs_keys s) i"
proof -
  assume c: "keys_consistent s"
  have "\<forall>(i, r) \<in> set (vs_keys s). vk_id r = i" using consistentD(2) [OF c] jm_in_get [OF consistentD(1) [OF c]] by blast
  then show ?thesis using reload_get [OF consistentD(1) [OF c], of "[]"] by (simp add: load_keys_def split: option.splits)
qed

lemma key_dead_step:
  assumes "key_dead h s" "key_step C s e s'" "\<not> draws_key C h e"
  shows "key_dead h s'"
proof -
  have c: "keys_consistent s" using assms(1) by (simp add: key_dead_def)
  have c': "keys_consistent s'" using consistent_step c assms(2) by blast
  have s': "s' = keys_do C e s" using assms(2) by (auto elim: key_stepE)
  show ?thesis
    by (rule key_dead_put [OF assms(1) c'], cases e)
      (use assms(3) in \<open>auto simp: s' issueKey_def validateKey_def revokeKey_def deleteKey_def rotateKey_def reload_keys [OF c] Let_def split: option.splits if_splits\<close>)
qed

interpretation dead_key: stable_machine "\<lambda>s e s'. key_step C s e s' \<and> \<not> draws_key C h e" "key_dead h"
  by unfold_locales (blast intro: key_dead_step)

lemma key_dead_refused: "key_dead (server_hashApiKey C rawKey) s \<Longrightarrow> fst (validateKey C rawKey now s) = None"
proof (cases "rawKey = []")
  case False
  assume d: "key_dead (server_hashApiKey C rawKey) s"
  then have c: "keys_consistent s" by (simp add: key_dead_def)
  have "\<not> accepts C rawKey now r" if "r \<in> set (jm_values (vs_keys s))" for r
    using d that jm_values_iff [OF consistentD(1) [OF c], of r] by (auto simp: key_dead_def accepts_def)
  then have "find (accepts C rawKey now) (jm_values (vs_keys s)) = None" by (simp add: find_None_iff)
  then show ?thesis using validate_spec [OF c False] by simp
qed (simp add: validateKey_def)

text \<open>
  C28. A key that was revoked, deleted or rotated authenticates nobody any more, whatever happens afterwards, restarts included,
  unless its hash is drawn anew.
\<close>

theorem retired_key_stays_dead:
  assumes "exec (key_step C) new_ApiKeyService past s" and "jm_get (vs_keys s) i = Some r"
    and "vk_hashedKey r = server_hashApiKey C rawKey"
    and "e \<in> {Revoked i t, Deleted i, Rotated i keyBytes secretBytes days t}" and "key_step C s e s'"
    and "exec (\<lambda>s e s'. key_step C s e s' \<and> \<not> draws_key C (server_hashApiKey C rawKey) e) s' es s''"
  shows "fst (validateKey C rawKey now s'') = None"
proof -
  have c: "keys_consistent s" using keys.reachable_inv [OF refl assms(1)] .
  have c': "keys_consistent s'" using consistent_step c assms(5) by blast
  have s': "s' = keys_do C e s" and new: "draws_new C s e" using assms(5) by (auto elim: key_stepE)
  have "key_dead (server_hashApiKey C rawKey) s'"
  proof -
    have only: "j = i" if "jm_get (vs_keys s) j = Some q" "vk_hashedKey q = server_hashApiKey C rawKey" for j q
      using consistentD(3) [OF c that(1) assms(2)] that(2) assms(3) by simp
    have gone: "vk_status q \<noteq> ''active''" if q: "jm_get (vs_keys s') j = Some q" "vk_hashedKey q = server_hashApiKey C rawKey" for j q
      using assms(4)
    proof (elim insertE emptyE)
      assume "e = Revoked i t"
      then show ?thesis using q only [of j q] assms(2) by (auto simp: s' revokeKey_def split: if_splits)
    next
      assume "e = Deleted i"
      then show ?thesis using q only [of j q] assms(2) by (simp add: s' deleteKey_def split: if_splits)
    next
      assume e: "e = Rotated i keyBytes secretBytes days t"
      then have "server_hashApiKey C (raw_key keyBytes) \<noteq> server_hashApiKey C rawKey"
        using new unused_hash_get [OF _ assms(2), of "server_hashApiKey C (raw_key keyBytes)"] assms(3) by simp
      with e show ?thesis using q only [of j q] assms(2) by (auto simp: s' rotateKey_def Let_def split: if_splits)
    qed
    then show ?thesis using c' by (auto simp: key_dead_def)
  qed
  from key_dead_refused [OF dead_key.exec_stable [OF assms(6) this]] show ?thesis .
qed

definition demo_id :: string where
  "demo_id = ''key_01''"

definition revoked_keys :: key_service where
  "revoked_keys = keys_do keys_crypto (Revoked demo_id 5000) demo_keys"

theorem retired_key_stays_dead_witness:
  "fst (validateKey keys_crypto ''sk_02'' 9000 (keys_do keys_crypto Reloaded revoked_keys)) = None"
proof -
  obtain r where r: "jm_get (vs_keys demo_keys) demo_id = Some r" "vk_hashedKey r = server_hashApiKey keys_crypto ''sk_02''"
  proof -
    have "map_option vk_hashedKey (jm_get (vs_keys demo_keys) demo_id) = Some (server_hashApiKey keys_crypto ''sk_02'')" by code_simp
    then show ?thesis using that by auto
  qed
  have "key_step keys_crypto demo_keys (Revoked demo_id 5000) revoked_keys"
    unfolding revoked_keys_def by (rule key_step) simp
  moreover have "key_step keys_crypto revoked_keys Reloaded (keys_do keys_crypto Reloaded revoked_keys)"
    by (rule key_step) simp
  ultimately show ?thesis
    using retired_key_stays_dead [OF demo_keys_reached r, of "Revoked demo_id 5000" 5000 "[]" "[]" None revoked_keys "[Reloaded]"] by simp
qed

text \<open>
  Rotation brings a revoked key back: it gives out a new key for the revoked identifier, with its scopes, and that key is
  accepted at once, although the record still says when it was revoked.
\<close>

theorem rotation_reactivates_revoked_key:
  assumes "jm_get (vs_keys s) i = Some r" and "vk_status r = ''revoked''" and "i \<noteq> ''''" and "vk_expiresAt r = None"
  shows "(case rotateKey C i keyBytes secretBytes None now s of (Some (newKey, q), s') \<Rightarrow>
      vk_status q = ''active'' \<and> vk_revokedAt q = vk_revokedAt r \<and> vk_scopes q = vk_scopes r
        \<and> fst (validateKey C newKey now s') = Some (q\<lparr>vk_lastUsedAt := Some now\<rparr>)
    | (None, s') \<Rightarrow> False)"
  using assms by (simp add: rotateKey_def Let_def validateKey_def raw_key_def key_expired_def expiry_after_def)

theorem rotation_reactivates_revoked_key_witness:
  "(case rotateKey keys_crypto ''key_01'' [7] [8] None 9000
      (keys_do keys_crypto (Revoked ''key_01'' 5000) (keys_do keys_crypto (Issued [1] [2] [3] 1000 (demo_issue\<lparr>iq_expiresInDays := None\<rparr>)) new_ApiKeyService))
    of (Some (newKey, q), s') \<Rightarrow> newKey = ''sk_07'' \<and> vk_status q = ''active'' \<and> fst (validateKey keys_crypto newKey 9000 s') \<noteq> None
    | (None, s') \<Rightarrow> False)"
proof -
  let ?s = "keys_do keys_crypto (Revoked ''key_01'' 5000) (keys_do keys_crypto (Issued [1] [2] [3] 1000 (demo_issue\<lparr>iq_expiresInDays := None\<rparr>)) new_ApiKeyService)"
  obtain r where r: "jm_get (vs_keys ?s) ''key_01'' = Some r" "vk_status r = ''revoked''" "vk_expiresAt r = None"
  proof -
    have "map_option (\<lambda>r. (vk_status r, vk_expiresAt r)) (jm_get (vs_keys ?s) ''key_01'') = Some (''revoked'', None)" by code_simp
    then show ?thesis using that by auto
  qed
  have new: "map_option fst (fst (rotateKey keys_crypto ''key_01'' [7] [8] None 9000 ?s)) = Some ''sk_07''" by code_simp
  show ?thesis
    using rotation_reactivates_revoked_key [OF r(1,2) _ r(3), where C = keys_crypto and keyBytes = "[7]" and secretBytes = "[8]" and now = 9000] new
    by (simp split: prod.splits option.splits)
qed

end
