(* ===== verification/JsText.thy ===== *)
theory JsText
  imports Signing JsValue
begin

text \<open>The words of a text, as several services of the server split it.\<close>

text \<open>\<open>s.split(/\s+/).filter(Boolean)\<close>\<close>

function js_words :: "string \<Rightarrow> string list" where
  "js_words [] = []"
| "js_words (c # s) = (if js_space c then js_words s
     else (c # takeWhile (\<lambda>x. \<not> js_space x) s) # js_words (dropWhile (\<lambda>x. \<not> js_space x) s))"
  by pat_completeness auto
termination by (relation "measure length") (auto simp: le_imp_less_Suc length_dropWhile_le)

end
