(* ===== verification/OAuth.thy ===== *)
theory OAuth
  imports JsText Machine
begin

text \<open>
  Models \<open>server/src/oauth.js\<close>: the authorization server, with its clients, authorization codes, access and refresh
  tokens. Each operation runs in one piece between its \<open>await\<close>s, so each is a function of the service; the clock is read
  several times, and each reading is an argument. The random part of an identifier, a secret, a code or a token is an
  argument, with its prefix already written. A missing parameter is \<open>None\<close>.

  Failures to read or write the store file are not modelled: what \<open>persist\<close> writes is what \<open>load\<close> reads after a restart.
\<close>

section \<open>Scopes\<close>

definition API_SCOPES :: "string list" where
  "API_SCOPES = [''credentials:read'', ''credentials:write'', ''admin:read'', ''admin:write'', ''webhooks:read'',
     ''webhooks:write'', ''analytics:read'', ''metrics:read'', ''*'']"

definition OAUTH_GRANT_TYPES :: "string list" where
  "OAUTH_GRANT_TYPES = [''authorization_code'', ''refresh_token'']"

text \<open>\<open>[...new Set(xs)]\<close>\<close>

fun unique :: "'a list \<Rightarrow> 'a list" where
  "unique [] = []"
| "unique (x # xs) = x # filter (\<lambda>y. y \<noteq> x) (unique xs)"

definition parseScope :: "string option \<Rightarrow> string list" where
  "parseScope scope = (case scope of None \<Rightarrow> [] | Some s \<Rightarrow> unique (js_words s))"

text \<open>\<open>const x = xs.find(p); if (x) ...\<close>: the text that is found, unless it is empty.\<close>

definition truthy_find :: "(string \<Rightarrow> bool) \<Rightarrow> string list \<Rightarrow> string option" where
  "truthy_find p xs = (case find p xs of Some x \<Rightarrow> if x = [] then None else Some x | None \<Rightarrow> None)"

text \<open>\<open>x ?? ''\<close>\<close>

definition or_empty :: "string option \<Rightarrow> string" where
  "or_empty x = (case x of Some s \<Rightarrow> s | None \<Rightarrow> [])"

section \<open>The service\<close>

record oauth_config =
  oc_authCodeTtlMs :: int
  oc_accessTokenTtlMs :: int
  oc_refreshTokenTtlMs :: int

record oauth_client =
  cl_clientId :: string
  cl_hashedSecret :: string
  cl_name :: string
  cl_redirectUris :: "string list"
  cl_scopes :: "string list"
  cl_grantTypes :: "string list"
  cl_status :: string
  cl_createdAt :: int

record auth_code =
  ac_code :: string
  ac_clientId :: string
  ac_redirectUri :: string
  ac_scope :: string
  ac_subject :: "string option"
  ac_expiresAt :: int
  ac_used :: bool

datatype token_kind = AccessToken | RefreshToken

record oauth_token =
  tk_hashedToken :: string
  tk_clientId :: string
  tk_scope :: string
  tk_subject :: "string option"
  tk_tokenType :: token_kind
  tk_issuedAt :: int
  tk_expiresAt :: int
  tk_revoked :: bool

record oauth_service =
  oa_clients :: "(string, oauth_client) jsmap"
  oa_authCodes :: "(string, auth_code) jsmap"
  oa_accessTokens :: "(string, oauth_token) jsmap"
  oa_refreshTokens :: "(string, oauth_token) jsmap"

definition new_OAuthService :: oauth_service where
  "new_OAuthService = \<lparr>oa_clients = [], oa_authCodes = [], oa_accessTokens = [], oa_refreshTokens = []\<rparr>"

text \<open>\<open>OAuthError(code, description, status)\<close>\<close>

datatype oauth_error = OAuthError string string nat

definition hashToken :: "crypto \<Rightarrow> string \<Rightarrow> string" where
  "hashToken C raw = to_hex (sha256 C (utf8_bytes raw))"

definition timingSafeEqualStrings :: "string \<Rightarrow> string \<Rightarrow> bool" where
  "timingSafeEqualStrings a b = (utf8_bytes a = utf8_bytes b)"

definition pruneExpired :: "int \<Rightarrow> oauth_service \<Rightarrow> oauth_service" where
  "pruneExpired now s = s\<lparr>oa_authCodes := filter (\<lambda>(_, r). \<not> ac_expiresAt r < now) (oa_authCodes s)\<rparr>"

text \<open>What a restart keeps: the codes are not written to the store.\<close>

definition reloaded :: "oauth_service \<Rightarrow> oauth_service" where
  "reloaded s = s\<lparr>oa_authCodes := []\<rparr>"

section \<open>Clients\<close>

record client_registration =
  rg_name :: "string option"
  rg_redirectUris :: "string list"
  rg_scopes :: "string list"
  rg_grantTypes :: "string list"

definition registerClient :: "crypto \<Rightarrow> string \<Rightarrow> string \<Rightarrow> int \<Rightarrow> client_registration \<Rightarrow> oauth_service
    \<Rightarrow> (oauth_error + oauth_client) \<times> oauth_service" where
  "registerClient C clientId rawSecret now rg s =
     (if rg_redirectUris rg = [] then (Inl (OAuthError ''invalid_request'' ''At least one redirect_uri is required.'' 400), s)
      else case truthy_find (\<lambda>g. g \<notin> set OAUTH_GRANT_TYPES) (rg_grantTypes rg) of
        Some g \<Rightarrow> (Inl (OAuthError ''invalid_request'' (''Unsupported grant_type: '' @ g) 400), s)
      | None \<Rightarrow> (case truthy_find (\<lambda>x. x \<notin> set API_SCOPES) (rg_scopes rg) of
        Some x \<Rightarrow> (Inl (OAuthError ''invalid_scope'' (''Unknown scope: '' @ x) 400), s)
      | None \<Rightarrow> (let r = \<lparr>cl_clientId = clientId, cl_hashedSecret = hashToken C rawSecret,
            cl_name = (case rg_name rg of Some n \<Rightarrow> if n = [] then ''unnamed-client'' else n | None \<Rightarrow> ''unnamed-client''),
            cl_redirectUris = rg_redirectUris rg,
            cl_scopes = (if rg_scopes rg \<noteq> [] then rg_scopes rg else [''credentials:read'']),
            cl_grantTypes = rg_grantTypes rg, cl_status = ''active'', cl_createdAt = now\<rparr>
          in (Inr r, s\<lparr>oa_clients := jm_set clientId r (oa_clients s)\<rparr>))))"

definition getClient :: "string option \<Rightarrow> oauth_service \<Rightarrow> oauth_client option" where
  "getClient i s = Option.bind i (jm_get (oa_clients s))"

definition requireClient :: "crypto \<Rightarrow> string option \<Rightarrow> string option \<Rightarrow> oauth_service \<Rightarrow> oauth_error + oauth_client" where
  "requireClient C i secret s = (case getClient i s of
     None \<Rightarrow> Inl (OAuthError ''invalid_client'' ''Unknown or inactive client.'' 401)
   | Some c \<Rightarrow> if cl_status c \<noteq> ''active'' then Inl (OAuthError ''invalid_client'' ''Unknown or inactive client.'' 401)
       else if \<not> timingSafeEqualStrings (hashToken C (or_empty secret)) (cl_hashedSecret c)
       then Inl (OAuthError ''invalid_client'' ''Client authentication failed.'' 401)
       else Inr c)"

section \<open>The authorization code grant\<close>

record authorize_request =
  az_clientId :: "string option"
  az_redirectUri :: string
  az_scope :: "string option"
  az_subject :: "string option"
  az_ownerScopes :: "string list"

definition effective_scopes :: "authorize_request \<Rightarrow> oauth_client \<Rightarrow> string list" where
  "effective_scopes rq c = (let requested = parseScope (az_scope rq) in if requested \<noteq> [] then requested else cl_scopes c)"

text \<open>The checks of \<open>authorize\<close>, in their order\<close>

definition authorize_check :: "authorize_request \<Rightarrow> oauth_service \<Rightarrow> oauth_error + oauth_client" where
  "authorize_check rq s = (case getClient (az_clientId rq) s of
     None \<Rightarrow> Inl (OAuthError ''invalid_client'' ''Unknown or inactive client.'' 400)
   | Some c \<Rightarrow>
       if cl_status c \<noteq> ''active'' then Inl (OAuthError ''invalid_client'' ''Unknown or inactive client.'' 400)
       else if az_redirectUri rq \<notin> set (cl_redirectUris c)
       then Inl (OAuthError ''invalid_request'' ''redirect_uri is not registered for this client.'' 400)
       else if ''authorization_code'' \<notin> set (cl_grantTypes c)
       then Inl (OAuthError ''unauthorized_client'' ''Client is not authorized to use the authorization_code grant.'' 400)
       else (case truthy_find (\<lambda>x. ''*'' \<notin> set (cl_scopes c) \<and> x \<notin> set (cl_scopes c)) (effective_scopes rq c) of
         Some x \<Rightarrow> Inl (OAuthError ''invalid_scope'' (''Scope '' @ [CHR 39] @ x @ [CHR 39] @ '' is not registered for this client.'') 400)
       | None \<Rightarrow> (case truthy_find (\<lambda>x. ''*'' \<notin> set (az_ownerScopes rq) \<and> x \<notin> set (az_ownerScopes rq)) (effective_scopes rq c) of
         Some x \<Rightarrow> Inl (OAuthError ''invalid_scope'' (''Approving identity does not hold scope '' @ [CHR 39] @ x @ [CHR 39] @ ''.'') 403)
       | None \<Rightarrow> Inr c)))"

text \<open>\<open>t1\<close> is the clock when the expired codes are dropped, \<open>t2\<close> when the new one is dated.\<close>

definition authorize :: "oauth_config \<Rightarrow> string \<Rightarrow> int \<Rightarrow> int \<Rightarrow> authorize_request \<Rightarrow> oauth_service
    \<Rightarrow> (oauth_error + string) \<times> oauth_service" where
  "authorize cfg newCode t1 t2 rq s = (let s1 = pruneExpired t1 s in case authorize_check rq s1 of
     Inl e \<Rightarrow> (Inl e, s1)
   | Inr c \<Rightarrow> (Inr newCode, s1\<lparr>oa_authCodes := jm_set newCode
       \<lparr>ac_code = newCode, ac_clientId = or_empty (az_clientId rq), ac_redirectUri = az_redirectUri rq,
        ac_scope = join '' '' (effective_scopes rq c), ac_subject = az_subject rq,
        ac_expiresAt = t2 + oc_authCodeTtlMs cfg, ac_used = False\<rparr> (oa_authCodes s1)\<rparr>))"

section \<open>Tokens\<close>

record token_response =
  tr_access_token :: string
  tr_expires_in :: int
  tr_refresh_token :: string
  tr_scope :: string

definition new_token :: "crypto \<Rightarrow> string \<Rightarrow> string \<Rightarrow> string \<Rightarrow> string option \<Rightarrow> token_kind \<Rightarrow> int \<Rightarrow> int \<Rightarrow> oauth_token" where
  "new_token C raw clientId scope subject kind now ttl = \<lparr>tk_hashedToken = hashToken C raw, tk_clientId = clientId, tk_scope = scope,
     tk_subject = subject, tk_tokenType = kind, tk_issuedAt = now, tk_expiresAt = now + ttl, tk_revoked = False\<rparr>"

text \<open>\<open>atk\<close> and \<open>rtk\<close> are the tokens drawn.\<close>

definition issueTokenPair :: "crypto \<Rightarrow> oauth_config \<Rightarrow> string \<Rightarrow> string \<Rightarrow> int \<Rightarrow> string \<Rightarrow> string \<Rightarrow> string option \<Rightarrow> oauth_service
    \<Rightarrow> token_response \<times> oauth_service" where
  "issueTokenPair C cfg atk rtk now clientId scope subject s =
     (\<lparr>tr_access_token = atk, tr_expires_in = oc_accessTokenTtlMs cfg div 1000, tr_refresh_token = rtk, tr_scope = scope\<rparr>,
      s\<lparr>oa_accessTokens := jm_set (hashToken C atk) (new_token C atk clientId scope subject AccessToken now (oc_accessTokenTtlMs cfg)) (oa_accessTokens s),
        oa_refreshTokens := jm_set (hashToken C rtk) (new_token C rtk clientId scope subject RefreshToken now (oc_refreshTokenTtlMs cfg)) (oa_refreshTokens s)\<rparr>)"

record token_request =
  tq_code :: "string option"
  tq_clientId :: "string option"
  tq_clientSecret :: "string option"
  tq_redirectUri :: "string option"
  tq_refreshToken :: "string option"
  tq_scope :: "string option"

text \<open>The checks of the code, \<open>t2\<close> being the clock when its expiry is tested.\<close>

definition code_check :: "int \<Rightarrow> token_request \<Rightarrow> oauth_service \<Rightarrow> oauth_error + auth_code" where
  "code_check t2 rq s = (case Option.bind (tq_code rq) (jm_get (oa_authCodes s)) of
     None \<Rightarrow> Inl (OAuthError ''invalid_grant'' ''Authorization code is invalid, expired, or already used.'' 400)
   | Some r \<Rightarrow>
       if ac_used r \<or> ac_expiresAt r < t2
       then Inl (OAuthError ''invalid_grant'' ''Authorization code is invalid, expired, or already used.'' 400)
       else if Some (ac_clientId r) \<noteq> tq_clientId rq \<or> Some (ac_redirectUri r) \<noteq> tq_redirectUri rq
       then Inl (OAuthError ''invalid_grant'' ''Authorization code does not match client_id or redirect_uri.'' 400)
       else Inr r)"

definition exchangeAuthorizationCode :: "crypto \<Rightarrow> oauth_config \<Rightarrow> string \<Rightarrow> string \<Rightarrow> int \<Rightarrow> int \<Rightarrow> int \<Rightarrow> token_request \<Rightarrow> oauth_service
    \<Rightarrow> (oauth_error + token_response) \<times> oauth_service" where
  "exchangeAuthorizationCode C cfg atk rtk t1 t2 t3 rq s = (let s1 = pruneExpired t1 s in
     case requireClient C (tq_clientId rq) (tq_clientSecret rq) s1 of
       Inl e \<Rightarrow> (Inl e, s1)
     | Inr c \<Rightarrow> (case code_check t2 rq s1 of
         Inl e \<Rightarrow> (Inl e, s1)
       | Inr r \<Rightarrow> (case issueTokenPair C cfg atk rtk t3 (or_empty (tq_clientId rq)) (ac_scope r) (ac_subject r)
              (s1\<lparr>oa_authCodes := jm_delete (or_empty (tq_code rq)) (oa_authCodes s1)\<rparr>) of (res, s2) \<Rightarrow> (Inr res, s2))))"

definition refresh_check :: "crypto \<Rightarrow> int \<Rightarrow> token_request \<Rightarrow> oauth_service \<Rightarrow> oauth_error + oauth_token" where
  "refresh_check C t1 rq s = (case jm_get (oa_refreshTokens s) (hashToken C (or_empty (tq_refreshToken rq))) of
     None \<Rightarrow> Inl (OAuthError ''invalid_grant'' ''Refresh token is invalid, expired, or revoked.'' 400)
   | Some r \<Rightarrow>
       if tk_revoked r \<or> tk_expiresAt r < t1 then Inl (OAuthError ''invalid_grant'' ''Refresh token is invalid, expired, or revoked.'' 400)
       else if Some (tk_clientId r) \<noteq> tq_clientId rq
       then Inl (OAuthError ''invalid_grant'' ''Refresh token does not belong to this client.'' 400)
       else Inr r)"

text \<open>The scope of the refreshed pair: what is asked for, if anything is, within what was granted.\<close>

definition refreshed_scope :: "string option \<Rightarrow> string \<Rightarrow> oauth_error + string" where
  "refreshed_scope scope granted = (if or_empty scope = [] then Inr granted
     else case truthy_find (\<lambda>x. x \<notin> set (parseScope (Some granted))) (parseScope scope) of
       Some x \<Rightarrow> Inl (OAuthError ''invalid_scope'' (''Cannot widen scope with '' @ [CHR 39] @ x @ [CHR 39] @ '' on refresh.'') 400)
     | None \<Rightarrow> Inr (join '' '' (parseScope scope)))"

definition exchangeRefreshToken :: "crypto \<Rightarrow> oauth_config \<Rightarrow> string \<Rightarrow> string \<Rightarrow> int \<Rightarrow> int \<Rightarrow> token_request \<Rightarrow> oauth_service
    \<Rightarrow> (oauth_error + token_response) \<times> oauth_service" where
  "exchangeRefreshToken C cfg atk rtk t1 t2 rq s = (case requireClient C (tq_clientId rq) (tq_clientSecret rq) s of
     Inl e \<Rightarrow> (Inl e, s)
   | Inr c \<Rightarrow> (case refresh_check C t1 rq s of
       Inl e \<Rightarrow> (Inl e, s)
     | Inr r \<Rightarrow> (case refreshed_scope (tq_scope rq) (tk_scope r) of
         Inl e \<Rightarrow> (Inl e, s)
       | Inr scope \<Rightarrow> (case issueTokenPair C cfg atk rtk t2 (or_empty (tq_clientId rq)) scope (tk_subject r)
            (s\<lparr>oa_refreshTokens := jm_set (hashToken C (or_empty (tq_refreshToken rq))) (r\<lparr>tk_revoked := True\<rparr>) (oa_refreshTokens s)\<rparr>)
            of (res, s2) \<Rightarrow> (Inr res, s2)))))"

section \<open>Introspection, revocation and authentication\<close>

record introspection =
  in_scope :: string
  in_client_id :: string
  in_token_type :: string
  in_exp :: int
  in_iat :: int
  in_sub :: "string option"

text \<open>\<open>if (clientId) await this._requireClient(...)\<close>\<close>

definition optional_client :: "crypto \<Rightarrow> string option \<Rightarrow> string option \<Rightarrow> oauth_service \<Rightarrow> oauth_error option" where
  "optional_client C i secret s = (if or_empty i = [] then None
     else case requireClient C i secret s of Inl e \<Rightarrow> Some e | Inr c \<Rightarrow> None)"

definition find_token :: "string \<Rightarrow> oauth_service \<Rightarrow> oauth_token option" where
  "find_token h s = (case jm_get (oa_accessTokens s) h of Some r \<Rightarrow> Some r | None \<Rightarrow> jm_get (oa_refreshTokens s) h)"

text \<open>The answer \<open>{ active: false }\<close> is \<open>None\<close>.\<close>

definition introspect :: "crypto \<Rightarrow> int \<Rightarrow> string \<Rightarrow> string option \<Rightarrow> string option \<Rightarrow> oauth_service \<Rightarrow> oauth_error + introspection option" where
  "introspect C now tok i secret s = (case optional_client C i secret s of Some e \<Rightarrow> Inl e | None \<Rightarrow>
     (case find_token (hashToken C tok) s of None \<Rightarrow> Inr None | Some r \<Rightarrow>
        if tk_revoked r \<or> tk_expiresAt r < now then Inr None
        else Inr (Some \<lparr>in_scope = tk_scope r, in_client_id = tk_clientId r,
          in_token_type = (if tk_tokenType r = RefreshToken then ''refresh_token'' else ''Bearer''),
          in_exp = tk_expiresAt r div 1000, in_iat = tk_issuedAt r div 1000, in_sub = tk_subject r\<rparr>)))"

definition revoke_in :: "string \<Rightarrow> (string, oauth_token) jsmap \<Rightarrow> (string, oauth_token) jsmap" where
  "revoke_in h m = (case jm_get m h of None \<Rightarrow> m | Some r \<Rightarrow> if tk_revoked r then m else jm_set h (r\<lparr>tk_revoked := True\<rparr>) m)"

definition revoke :: "crypto \<Rightarrow> string \<Rightarrow> string option \<Rightarrow> string option \<Rightarrow> oauth_service \<Rightarrow> oauth_error option \<times> oauth_service" where
  "revoke C tok i secret s = (case optional_client C i secret s of Some e \<Rightarrow> (Some e, s) | None \<Rightarrow>
     (let h = hashToken C tok in
       (None, s\<lparr>oa_accessTokens := revoke_in h (oa_accessTokens s), oa_refreshTokens := revoke_in h (oa_refreshTokens s)\<rparr>)))"

text \<open>What \<open>requireAuth\<close> learns of a token: the client, the scopes and the subject.\<close>

record oauth_grant =
  og_id :: string
  og_scopes :: "string list"
  og_subject :: "string option"

definition validateAccessToken :: "crypto \<Rightarrow> int \<Rightarrow> string \<Rightarrow> oauth_service \<Rightarrow> oauth_grant option" where
  "validateAccessToken C now raw s = (if raw = [] then None else case jm_get (oa_accessTokens s) (hashToken C raw) of
     None \<Rightarrow> None
   | Some r \<Rightarrow> if tk_revoked r \<or> tk_expiresAt r < now then None
       else Some \<lparr>og_id = tk_clientId r, og_scopes = parseScope (Some (tk_scope r)), og_subject = tk_subject r\<rparr>)"

section \<open>Histories\<close>

text \<open>What happens to the service, with the random values drawn and the readings of the clock.\<close>

datatype oauth_event =
    Registers string string int client_registration
  | Approves string int int authorize_request
  | Exchanges string string int int int token_request
  | Refreshes string string int int token_request
  | Revokes string "string option" "string option"
  | Restarts

fun oauth_do :: "crypto \<Rightarrow> oauth_config \<Rightarrow> oauth_event \<Rightarrow> oauth_service \<Rightarrow> oauth_service" where
  "oauth_do C cfg (Registers i secret now rg) s = snd (registerClient C i secret now rg s)"
| "oauth_do C cfg (Approves newCode t1 t2 rq) s = snd (authorize cfg newCode t1 t2 rq s)"
| "oauth_do C cfg (Exchanges atk rtk t1 t2 t3 rq) s = snd (exchangeAuthorizationCode C cfg atk rtk t1 t2 t3 rq s)"
| "oauth_do C cfg (Refreshes atk rtk t1 t2 rq) s = snd (exchangeRefreshToken C cfg atk rtk t1 t2 rq s)"
| "oauth_do C cfg (Revokes tok i secret) s = snd (revoke C tok i secret s)"
| "oauth_do C cfg Restarts s = reloaded s"

definition oauth_run :: "crypto \<Rightarrow> oauth_config \<Rightarrow> oauth_event list \<Rightarrow> oauth_service" where
  "oauth_run C cfg es = fold (oauth_do C cfg) es new_OAuthService"

section \<open>Scopes come from an approval\<close>

definition inside :: "string list \<Rightarrow> string list \<Rightarrow> bool" where
  "inside scopes held \<longleftrightarrow> ''*'' \<in> set held \<or> set scopes \<subseteq> set held"

text \<open>The event that approves \<open>scopes\<close> for a client on behalf of a subject, and the one that registered the client for them.\<close>

fun approves :: "string \<Rightarrow> string option \<Rightarrow> string list \<Rightarrow> oauth_event \<Rightarrow> bool" where
  "approves i subject scopes (Approves newCode t1 t2 rq) \<longleftrightarrow>
     az_clientId rq = Some i \<and> az_subject rq = subject \<and> inside scopes (az_ownerScopes rq)"
| "approves i subject scopes e = False"

fun registers :: "string \<Rightarrow> string list \<Rightarrow> oauth_event \<Rightarrow> bool" where
  "registers i scopes (Registers j secret now rg) \<longleftrightarrow>
     j = i \<and> inside scopes (if rg_scopes rg \<noteq> [] then rg_scopes rg else [''credentials:read''])"
| "registers i scopes e = False"

fun names_scopes :: "oauth_event \<Rightarrow> bool" where
  "names_scopes (Registers i secret now rg) \<longleftrightarrow> [] \<notin> set (rg_scopes rg)"
| "names_scopes e = True"

definition scope_granted :: "oauth_event list \<Rightarrow> string \<Rightarrow> string option \<Rightarrow> string \<Rightarrow> bool" where
  "scope_granted es i subject scope \<longleftrightarrow>
     list_ex (approves i subject (parseScope (Some scope))) es \<and> list_ex (registers i (parseScope (Some scope))) es"

lemma list_ex_mono: "list_ex P xs \<Longrightarrow> (\<And>x. P x \<Longrightarrow> Q x) \<Longrightarrow> list_ex Q xs"
  by (auto simp: list_ex_iff)

lemma inside_mono: "inside scopes held \<Longrightarrow> set scopes' \<subseteq> set scopes \<Longrightarrow> inside scopes' held"
  by (auto simp: inside_def)

lemma scope_granted_narrow:
  assumes "scope_granted es i subject scope" "set (parseScope (Some scope')) \<subseteq> set (parseScope (Some scope))"
  shows "scope_granted es i subject scope'"
proof -
  have "approves i subject (parseScope (Some scope)) e \<Longrightarrow> approves i subject (parseScope (Some scope')) e" for e
    using inside_mono [OF _ assms(2)] by (cases e) auto
  moreover have "registers i (parseScope (Some scope)) e \<Longrightarrow> registers i (parseScope (Some scope')) e" for e
    using inside_mono [OF _ assms(2)] by (cases e) auto
  ultimately show ?thesis using assms(1) list_ex_mono unfolding scope_granted_def by metis
qed

lemma scope_granted_append: "scope_granted es i subject scope \<Longrightarrow> scope_granted (es @ fs) i subject scope"
  by (simp add: scope_granted_def)

subsection \<open>The scope of a code is printed and read back\<close>

lemma set_unique [simp]: "set (unique xs) = set xs"
  by (induction xs) auto

lemma js_words_clean: "w \<in> set (js_words s) \<Longrightarrow> w \<noteq> [] \<and> list_all (\<lambda>c. \<not> js_space c) w"
proof (induction s rule: js_words.induct)
  case (2 c s)
  show ?case
  proof (cases "js_space c")
    case False
    moreover have "list_all (\<lambda>x. \<not> js_space x) (takeWhile (\<lambda>x. \<not> js_space x) s)"
      by (auto simp: list_all_iff dest: set_takeWhileD)
    ultimately show ?thesis using 2 by auto
  qed (use 2 in simp)
qed simp

lemma js_words_append_space:
  assumes "list_all (\<lambda>c. \<not> js_space c) w" "js_space c"
  shows "js_words (w @ c # s) = (if w = [] then js_words s else w # js_words s)"
proof (cases w)
  case (Cons d w')
  with assms have "takeWhile (\<lambda>x. \<not> js_space x) (w' @ c # s) = w'" "dropWhile (\<lambda>x. \<not> js_space x) (w' @ c # s) = c # s"
    by (simp_all add: list_all_iff)
  with assms Cons show ?thesis by simp
qed (use assms in simp)

lemma js_words_word: "list_all (\<lambda>c. \<not> js_space c) w \<Longrightarrow> js_words w = (if w = [] then [] else [w])"
  by (cases w) (simp_all add: list_all_iff takeWhile_eq_all_conv [THEN iffD2] dropWhile_eq_Nil_conv [THEN iffD2])

lemma js_words_join:
  "(\<And>w. w \<in> set ws \<Longrightarrow> list_all (\<lambda>c. \<not> js_space c) w) \<Longrightarrow> js_words (join '' '' ws) = filter (\<lambda>w. w \<noteq> []) ws"
proof (induction ws)
  case (Cons w ws)
  have space: "js_space (CHR '' '')" by code_simp
  show ?case
  proof (cases ws)
    case Nil
    then show ?thesis using Cons.prems js_words_word by (simp add: join_def)
  next
    case (Cons v vs)
    then have "join '' '' (w # ws) = w @ CHR '' '' # join '' '' ws" by (simp add: join_def)
    then show ?thesis using js_words_append_space [OF _ space] Cons.IH Cons.prems by simp
  qed
qed (simp add: join_def)

lemma parse_join: "(\<And>w. w \<in> set ws \<Longrightarrow> list_all (\<lambda>c. \<not> js_space c) w) \<Longrightarrow> set (parseScope (Some (join '' '' ws))) = set ws - {[]}"
  by (auto simp: parseScope_def js_words_join)

lemma parsed_clean: "w \<in> set (parseScope scope) \<Longrightarrow> w \<noteq> [] \<and> list_all (\<lambda>c. \<not> js_space c) w"
  using js_words_clean by (auto simp: parseScope_def split: option.splits)

lemma api_scopes_clean: "w \<in> set API_SCOPES \<Longrightarrow> w \<noteq> [] \<and> list_all (\<lambda>c. \<not> js_space c) w"
proof -
  have "list_all (\<lambda>w. w \<noteq> [] \<and> list_all (\<lambda>c. \<not> js_space c) w) API_SCOPES" by code_simp
  then show "w \<in> set API_SCOPES \<Longrightarrow> ?thesis" by (simp add: list_all_iff)
qed

lemma truthy_find_None:
  assumes "truthy_find p xs = None" "[] \<notin> set xs"
  shows "\<forall>x \<in> set xs. \<not> p x"
proof -
  have "find p xs = None"
  proof (cases "find p xs")
    case (Some x)
    then have "x \<in> set xs" by (auto simp: find_Some_iff)
    with Some assms show ?thesis by (auto simp: truthy_find_def split: if_splits)
  qed
  then show ?thesis by (simp add: find_None_iff)
qed

subsection \<open>The invariant\<close>

definition client_known :: "oauth_event list \<Rightarrow> string \<Rightarrow> oauth_client \<Rightarrow> bool" where
  "client_known es i c \<longleftrightarrow> set (cl_scopes c) \<subseteq> set API_SCOPES
     \<and> (\<forall>scopes. inside scopes (cl_scopes c) \<longrightarrow> list_ex (registers i scopes) es)"

definition token_granted :: "oauth_event list \<Rightarrow> oauth_token \<Rightarrow> bool" where
  "token_granted es r = scope_granted es (tk_clientId r) (tk_subject r) (tk_scope r)"

definition descends :: "oauth_event list \<Rightarrow> oauth_service \<Rightarrow> bool" where
  "descends es s \<longleftrightarrow>
     (\<forall>i c. jm_get (oa_clients s) i = Some c \<longrightarrow> client_known es i c)
   \<and> (\<forall>k r. jm_get (oa_authCodes s) k = Some r \<longrightarrow> scope_granted es (ac_clientId r) (ac_subject r) (ac_scope r))
   \<and> (\<forall>h r. jm_get (oa_accessTokens s) h = Some r \<longrightarrow> token_granted es r)
   \<and> (\<forall>h r. jm_get (oa_refreshTokens s) h = Some r \<longrightarrow> token_granted es r)"

lemma descends_mono: "descends es s \<Longrightarrow> descends (es @ fs) s"
  by (fastforce simp: descends_def client_known_def token_granted_def intro: scope_granted_append)

lemma jm_get_filter_some: "jm_get (filter p m) k = Some v \<Longrightarrow> jm_wf m \<Longrightarrow> jm_get m k = Some v"
  by (auto simp: jm_get_filter split: option.splits if_splits)

definition oauth_wf :: "oauth_service \<Rightarrow> bool" where
  "oauth_wf s = jm_wf (oa_authCodes s)"

lemma pruned: "oauth_wf s \<Longrightarrow> oauth_wf (pruneExpired now s)"
  "oauth_wf s \<Longrightarrow> jm_get (oa_authCodes (pruneExpired now s)) k = Some r \<Longrightarrow> jm_get (oa_authCodes s) k = Some r"
  "oa_clients (pruneExpired now s) = oa_clients s" "oa_accessTokens (pruneExpired now s) = oa_accessTokens s"
  "oa_refreshTokens (pruneExpired now s) = oa_refreshTokens s"
  by (auto simp: oauth_wf_def pruneExpired_def jm_wf_filter dest: jm_get_filter_some)

lemma descends_prune: "oauth_wf s \<Longrightarrow> descends es s \<Longrightarrow> descends es (pruneExpired now s)"
  unfolding descends_def by (auto simp: pruned(3-5) dest: pruned(2))

lemma descends_register:
  assumes "descends es s" "[] \<notin> set (rg_scopes rg)"
  shows "descends (es @ [Registers i secret now rg]) (snd (registerClient C i secret now rg s))"
proof -
  have known: "client_known (es @ [Registers i secret now rg]) i c"
    if "cl_scopes c = (if rg_scopes rg \<noteq> [] then rg_scopes rg else [''credentials:read''])"
      "truthy_find (\<lambda>x. x \<notin> set API_SCOPES) (rg_scopes rg) = None" for c
  proof -
    have "''credentials:read'' \<in> set API_SCOPES" by (simp add: API_SCOPES_def)
    then have "set (cl_scopes c) \<subseteq> set API_SCOPES"
      using truthy_find_None [OF that(2) assms(2)] that(1) by (auto split: if_splits)
    moreover have "registers i scopes (Registers i secret now rg) = inside scopes (cl_scopes c)" for scopes
      by (simp only: registers.simps that(1)) simp
    ultimately show ?thesis by (simp add: client_known_def)
  qed
  have d: "descends (es @ [Registers i secret now rg]) s" using descends_mono [OF assms(1)] .
  show ?thesis
    using d unfolding registerClient_def
    by (auto simp: Let_def descends_def split: option.splits intro!: known)
qed

lemma authorize_check_Inr:
  assumes "authorize_check rq s = Inr c"
  shows "\<exists>i. az_clientId rq = Some i \<and> jm_get (oa_clients s) i = Some c"
    and "az_redirectUri rq \<in> set (cl_redirectUris c)"
    and "truthy_find (\<lambda>x. ''*'' \<notin> set (cl_scopes c) \<and> x \<notin> set (cl_scopes c)) (effective_scopes rq c) = None"
    and "truthy_find (\<lambda>x. ''*'' \<notin> set (az_ownerScopes rq) \<and> x \<notin> set (az_ownerScopes rq)) (effective_scopes rq c) = None"
  using assms unfolding authorize_check_def getClient_def
  by (auto split: option.splits if_splits bind_splits simp: bind_eq_Some_conv)

lemma effective_clean:
  assumes "set (cl_scopes c) \<subseteq> set API_SCOPES" "w \<in> set (effective_scopes rq c)"
  shows "w \<noteq> [] \<and> list_all (\<lambda>x. \<not> js_space x) w"
  using assms parsed_clean api_scopes_clean by (auto simp: effective_scopes_def Let_def split: if_splits)

lemma descends_authorize:
  assumes "descends es s" "oauth_wf s"
  shows "descends (es @ [Approves newCode t1 t2 rq]) (snd (authorize cfg newCode t1 t2 rq s))"
proof -
  let ?s = "pruneExpired t1 s" let ?es = "es @ [Approves newCode t1 t2 rq]"
  have d: "descends ?es ?s" using descends_mono descends_prune assms by blast
  have "scope_granted ?es (or_empty (az_clientId rq)) (az_subject rq) (join '' '' (effective_scopes rq c))"
    if check: "authorize_check rq ?s = Inr c" for c
  proof -
    note facts = authorize_check_Inr [OF check]
    obtain i where i: "az_clientId rq = Some i" "jm_get (oa_clients ?s) i = Some c" using facts(1) by blast
    then have known: "client_known ?es i c" using d by (simp add: descends_def)
    then have clean: "w \<in> set (effective_scopes rq c) \<Longrightarrow> w \<noteq> [] \<and> list_all (\<lambda>x. \<not> js_space x) w" for w
      using effective_clean [of c w rq] by (simp only: client_known_def) blast
    then have ne: "[] \<notin> set (effective_scopes rq c)" by blast
    have parsed: "set (parseScope (Some (join '' '' (effective_scopes rq c)))) = set (effective_scopes rq c)"
      using parse_join [of "effective_scopes rq c"] clean ne by auto
    have "inside (parseScope (Some (join '' '' (effective_scopes rq c)))) (cl_scopes c)"
      "inside (parseScope (Some (join '' '' (effective_scopes rq c)))) (az_ownerScopes rq)"
      using truthy_find_None [OF facts(3) ne] truthy_find_None [OF facts(4) ne] parsed by (auto simp: inside_def)
    then show ?thesis
      using known i(1) by (simp add: scope_granted_def client_known_def or_empty_def)
  qed
  then show ?thesis
    using d by (auto simp: authorize_def Let_def descends_def split: sum.splits)
qed

lemma descends_issue:
  assumes "descends es s" "scope_granted es i subject scope"
  shows "descends es (snd (issueTokenPair C cfg atk rtk now i scope subject s))"
  using assms by (auto simp: issueTokenPair_def descends_def token_granted_def new_token_def)

lemma descends_exchange:
  assumes "descends es s" "oauth_wf s"
  shows "descends es (snd (exchangeAuthorizationCode C cfg atk rtk t1 t2 t3 rq s))"
proof -
  let ?s = "pruneExpired t1 s" let ?s' = "?s\<lparr>oa_authCodes := jm_delete (or_empty (tq_code rq)) (oa_authCodes ?s)\<rparr>"
  have d: "descends es ?s" using descends_prune assms by blast
  then have d': "descends es ?s'" by (simp add: descends_def)
  have g: "scope_granted es (or_empty (tq_clientId rq)) (ac_subject r) (ac_scope r)" if "code_check t2 rq ?s = Inr r" for r
  proof -
    from that obtain k where "jm_get (oa_authCodes ?s) k = Some r" "tq_clientId rq = Some (ac_clientId r)"
      by (auto simp: code_check_def bind_eq_Some_conv split: option.splits if_splits)
    with d show ?thesis by (auto simp: descends_def or_empty_def)
  qed
  have "descends es (snd (issueTokenPair C cfg atk rtk t3 (or_empty (tq_clientId rq)) (ac_scope r) (ac_subject r) ?s'))"
    if "code_check t2 rq ?s = Inr r" for r
    using descends_issue [OF d' g [OF that]] .
  with d show ?thesis by (auto simp: exchangeAuthorizationCode_def Let_def split: sum.splits prod.splits)
qed

lemma refreshed_narrows: "refreshed_scope scope old = Inr sc \<Longrightarrow> set (parseScope (Some sc)) \<subseteq> set (parseScope (Some old))"
proof -
  assume r: "refreshed_scope scope old = Inr sc"
  show ?thesis
  proof (cases "or_empty scope = []")
    case False
    with r have none: "truthy_find (\<lambda>x. x \<notin> set (parseScope (Some old))) (parseScope scope) = None"
      and sc: "sc = join '' '' (parseScope scope)"
      by (auto simp: refreshed_scope_def split: option.splits)
    have "set (parseScope (Some sc)) \<subseteq> set (parseScope scope)"
      using parse_join [of "parseScope scope"] parsed_clean [of _ scope] sc by blast
    moreover have "[] \<notin> set (parseScope scope)" using parsed_clean [of "[]" scope] by blast
    ultimately show ?thesis using truthy_find_None [OF none] by blast
  qed (use r in \<open>simp add: refreshed_scope_def\<close>)
qed

lemma descends_refresh:
  assumes "descends es s"
  shows "descends es (snd (exchangeRefreshToken C cfg atk rtk t1 t2 rq s))"
proof -
  let ?h = "hashToken C (or_empty (tq_refreshToken rq))"
  have "descends es (snd (issueTokenPair C cfg atk rtk t2 (or_empty (tq_clientId rq)) sc (tk_subject r)
      (s\<lparr>oa_refreshTokens := jm_set ?h (r\<lparr>tk_revoked := True\<rparr>) (oa_refreshTokens s)\<rparr>)))"
    if "refresh_check C t1 rq s = Inr r" "refreshed_scope (tq_scope rq) (tk_scope r) = Inr sc" for r sc
  proof (rule descends_issue)
    have r: "jm_get (oa_refreshTokens s) ?h = Some r" "tq_clientId rq = Some (tk_clientId r)"
      using that(1) by (auto simp: refresh_check_def split: option.splits if_splits)
    then have g: "token_granted es r" using assms by (simp add: descends_def)
    then show "descends es (s\<lparr>oa_refreshTokens := jm_set ?h (r\<lparr>tk_revoked := True\<rparr>) (oa_refreshTokens s)\<rparr>)"
      using assms by (simp add: descends_def token_granted_def)
    show "scope_granted es (or_empty (tq_clientId rq)) (tk_subject r) sc"
      using scope_granted_narrow [OF _ refreshed_narrows [OF that(2)]] g r(2) by (simp add: token_granted_def or_empty_def)
  qed
  with assms show ?thesis by (auto simp: exchangeRefreshToken_def split: sum.splits prod.splits) fastforce
qed

lemma revoke_in_get: "jm_get (revoke_in h m) k =
    (if k = h then map_option (\<lambda>r. r\<lparr>tk_revoked := True\<rparr>) (jm_get m h) else jm_get m k)"
  by (auto simp: revoke_in_def split: option.splits)

lemma token_granted_revoked [simp]: "token_granted es (r\<lparr>tk_revoked := b\<rparr>) = token_granted es r"
  by (simp add: token_granted_def)

lemma descends_revoke: "descends es s \<Longrightarrow> descends es (snd (revoke C tok i secret s))"
  by (auto simp: revoke_def Let_def descends_def revoke_in_get split: option.splits if_splits)

lemma descends_step:
  assumes "descends es s" "oauth_wf s" "names_scopes e"
  shows "descends (es @ [e]) (oauth_do C cfg e s)"
  using assms
proof (cases e)
  case Restarts
  with descends_mono [OF assms(1)] show ?thesis by (simp add: descends_def reloaded_def)
qed (use assms descends_mono in \<open>simp_all add: descends_register descends_authorize descends_exchange descends_refresh descends_revoke\<close>)

lemma oauth_wf_step: "oauth_wf s \<Longrightarrow> oauth_wf (oauth_do C cfg e s)"
  by (cases e) (auto simp: oauth_wf_def registerClient_def authorize_def exchangeAuthorizationCode_def exchangeRefreshToken_def
    revoke_def reloaded_def issueTokenPair_def pruneExpired_def Let_def jm_wf_filter split: sum.splits option.splits prod.splits)

text \<open>The service with its history is a machine, and what it has granted descends from the history.\<close>

definition history_step :: "crypto \<Rightarrow> oauth_config \<Rightarrow> oauth_event list \<times> oauth_service \<Rightarrow> oauth_event \<Rightarrow> oauth_event list \<times> oauth_service \<Rightarrow> bool" where
  "history_step C cfg hs e hs' \<longleftrightarrow> hs' = (fst hs @ [e], oauth_do C cfg e (snd hs))"

definition history_inv :: "oauth_event list \<times> oauth_service \<Rightarrow> bool" where
  "history_inv hs \<longleftrightarrow> oauth_wf (snd hs) \<and> (list_all names_scopes (fst hs) \<longrightarrow> descends (fst hs) (snd hs))"

interpretation oauth: machine "\<lambda>hs. hs = ([], new_OAuthService)" "history_step C cfg" history_inv
  by unfold_locales (auto simp: history_step_def history_inv_def oauth_wf_step descends_step, auto simp: oauth_wf_def new_OAuthService_def descends_def)

lemma exec_history: "exec (history_step C cfg) (h, s) es (h @ es, fold (oauth_do C cfg) es s)"
  by (induction es arbitrary: h s) (auto simp: history_step_def, metis append.assoc append_Cons append_Nil)

lemma oauth_run_descends: "list_all names_scopes es \<Longrightarrow> descends es (oauth_run C cfg es)"
  using oauth.reachable_inv [OF refl exec_history [of C cfg "[]" new_OAuthService es]]
  by (simp add: history_inv_def oauth_run_def)

lemma accepted_token_granted:
  assumes "list_all names_scopes es" and "validateAccessToken C now raw (oauth_run C cfg es) = Some g"
  shows "list_ex (approves (og_id g) (og_subject g) (og_scopes g)) es" "list_ex (registers (og_id g) (og_scopes g)) es"
proof -
  obtain r where r: "jm_get (oa_accessTokens (oauth_run C cfg es)) (hashToken C raw) = Some r"
    "og_id g = tk_clientId r" "og_subject g = tk_subject r" "og_scopes g = parseScope (Some (tk_scope r))"
    using assms(2) by (auto simp: validateAccessToken_def split: option.splits if_splits)
  with oauth_run_descends [OF assms(1)] have "token_granted es r" by (auto simp: descends_def)
  then show "list_ex (approves (og_id g) (og_subject g) (og_scopes g)) es" "list_ex (registers (og_id g) (og_scopes g)) es"
    by (simp_all add: token_granted_def scope_granted_def r)
qed

text \<open>
  C25. No token carries a scope that nobody approved: if no client was registered with an empty scope name, then for every access
  token the server accepts there was an approval, for the same client and on behalf of the same subject, by an identity that
  held every scope of the token (or the wildcard), and the client was registered for these scopes (or for the wildcard).
\<close>

theorem tokens_within_approval:
  assumes "list_all names_scopes es"
    and "validateAccessToken C now raw (oauth_run C cfg es) = Some g"
  shows "list_ex (approves (og_id g) (og_subject g) (og_scopes g)) es \<and> list_ex (registers (og_id g) (og_scopes g)) es"
  using accepted_token_granted [OF assms] by blast

definition oauth_crypto :: crypto where
  "oauth_crypto = \<lparr>sha256 = (\<lambda>bs. bs), hmac256 = (\<lambda>k m. k @ m)\<rparr>"

definition oauth_ttls :: oauth_config where
  "oauth_ttls = \<lparr>oc_authCodeTtlMs = 60000, oc_accessTokenTtlMs = 3600000, oc_refreshTokenTtlMs = 86400000\<rparr>"

definition demo_registration :: client_registration where
  "demo_registration = \<lparr>rg_name = None, rg_redirectUris = [''u''], rg_scopes = [''admin:read'', ''metrics:read''], rg_grantTypes = OAUTH_GRANT_TYPES\<rparr>"

definition demo_approval :: authorize_request where
  "demo_approval = \<lparr>az_clientId = Some ''c'', az_redirectUri = ''u'', az_scope = None, az_subject = Some ''key_1'',
     az_ownerScopes = [''metrics:read'', ''admin:read'']\<rparr>"

definition demo_request :: token_request where
  "demo_request = \<lparr>tq_code = Some ''ac'', tq_clientId = Some ''c'', tq_clientSecret = Some ''s'', tq_redirectUri = Some ''u'',
     tq_refreshToken = Some ''r1'', tq_scope = None\<rparr>"

definition demo_history :: "oauth_event list" where
  "demo_history = [Registers ''c'' ''s'' 0 demo_registration, Approves ''ac'' 10 10 demo_approval,
     Exchanges ''a1'' ''r1'' 20 20 20 demo_request]"

theorem tokens_within_approval_witness:
  "list_ex (approves ''c'' (Some ''key_1'') [''admin:read'', ''metrics:read'']) demo_history
     \<and> list_ex (registers ''c'' [''admin:read'', ''metrics:read'']) demo_history"
proof -
  have "validateAccessToken oauth_crypto 30 ''a1'' (oauth_run oauth_crypto oauth_ttls demo_history) = Some \<lparr>og_id = ''c'',
      og_scopes = [''admin:read'', ''metrics:read''], og_subject = Some ''key_1''\<rparr>" by code_simp
  moreover have "list_all names_scopes demo_history" by code_simp
  ultimately show ?thesis using tokens_within_approval [of demo_history oauth_crypto 30 "''a1''" oauth_ttls] by simp
qed

section \<open>Codes and tokens are used once\<close>

fun draws_code :: "string \<Rightarrow> oauth_event \<Rightarrow> bool" where
  "draws_code k (Approves newCode t1 t2 rq) \<longleftrightarrow> newCode = k"
| "draws_code k e = False"

fun draws_token :: "crypto \<Rightarrow> string \<Rightarrow> oauth_event \<Rightarrow> bool" where
  "draws_token C h (Exchanges atk rtk t1 t2 t3 rq) \<longleftrightarrow> h \<in> {hashToken C atk, hashToken C rtk}"
| "draws_token C h (Refreshes atk rtk t1 t2 rq) \<longleftrightarrow> h \<in> {hashToken C atk, hashToken C rtk}"
| "draws_token C h e = False"

definition code_gone :: "string \<Rightarrow> oauth_service \<Rightarrow> bool" where
  "code_gone k s \<longleftrightarrow> oauth_wf s \<and> jm_get (oa_authCodes s) k = None"

definition dead :: "(string, oauth_token) jsmap \<Rightarrow> string \<Rightarrow> bool" where
  "dead m h \<longleftrightarrow> (case jm_get m h of None \<Rightarrow> True | Some r \<Rightarrow> tk_revoked r)"

lemma filter_get_None: "jm_wf m \<Longrightarrow> jm_get m k = None \<Longrightarrow> jm_get (filter p m) k = None"
  by (simp add: jm_get_filter)

lemma code_gone_step: "code_gone k s \<Longrightarrow> \<not> draws_code k e \<Longrightarrow> code_gone k (oauth_do C cfg e s)"
proof -
  assume g: "code_gone k s" and "\<not> draws_code k e"
  moreover have "oauth_wf (oauth_do C cfg e s)" using g oauth_wf_step by (simp add: code_gone_def)
  ultimately show ?thesis
    by (cases e) (auto simp: code_gone_def oauth_wf_def registerClient_def authorize_def exchangeAuthorizationCode_def
      exchangeRefreshToken_def revoke_def reloaded_def issueTokenPair_def pruneExpired_def Let_def filter_get_None
      split: sum.splits option.splits prod.splits)
qed

lemma dead_revoke: "dead m h \<Longrightarrow> dead (revoke_in k m) h" "dead (revoke_in h m) h"
  by (auto simp: dead_def revoke_in_get split: option.splits)

lemma dead_set: "dead m h \<Longrightarrow> k \<noteq> h \<or> tk_revoked r \<Longrightarrow> dead (jm_set k r m) h"
  by (auto simp: dead_def)

lemma dead_step:
  assumes "\<not> draws_token C h e"
  shows "dead (oa_accessTokens s) h \<Longrightarrow> dead (oa_accessTokens (oauth_do C cfg e s)) h"
    and "dead (oa_refreshTokens s) h \<Longrightarrow> dead (oa_refreshTokens (oauth_do C cfg e s)) h"
  using assms by (cases e; auto simp: registerClient_def authorize_def exchangeAuthorizationCode_def
      exchangeRefreshToken_def revoke_def reloaded_def issueTokenPair_def pruneExpired_def Let_def dead_revoke intro!: dead_set
      split: sum.splits option.splits prod.splits)+

text \<open>Three conditions no event ends, unless it draws the code or the token anew.\<close>

interpretation used_code: stable_machine "\<lambda>s e s'. \<not> draws_code k e \<and> s' = oauth_do C cfg e s" "code_gone k"
  by unfold_locales (simp add: code_gone_step)

interpretation dead_access: stable_machine "\<lambda>s e s'. \<not> draws_token C h e \<and> s' = oauth_do C cfg e s" "\<lambda>s. dead (oa_accessTokens s) h"
  by unfold_locales (simp add: dead_step)

interpretation dead_refresh: stable_machine "\<lambda>s e s'. \<not> draws_token C h e \<and> s' = oauth_do C cfg e s" "\<lambda>s. dead (oa_refreshTokens s) h"
  by unfold_locales (simp add: dead_step)

lemma exec_restricted: "list_all (\<lambda>e. \<not> P e) es \<Longrightarrow> exec (\<lambda>s e s'. \<not> P e \<and> s' = oauth_do C cfg e s) s es (fold (oauth_do C cfg) es s)"
  by (induction es arbitrary: s) auto

lemma code_used: "fst (exchangeAuthorizationCode C cfg atk rtk t1 t2 t3 rq s) = Inr res \<Longrightarrow> oauth_wf s \<Longrightarrow>
    code_gone (or_empty (tq_code rq)) (snd (exchangeAuthorizationCode C cfg atk rtk t1 t2 t3 rq s))"
  by (auto simp: exchangeAuthorizationCode_def Let_def issueTokenPair_def code_gone_def oauth_wf_def pruneExpired_def jm_wf_filter
    split: sum.splits)

lemma gone_code_refused: "code_gone (or_empty (tq_code rq)) s \<Longrightarrow> isl (fst (exchangeAuthorizationCode C cfg atk rtk t1 t2 t3 rq s))"
  by (cases "tq_code rq") (auto simp: exchangeAuthorizationCode_def Let_def issueTokenPair_def code_gone_def oauth_wf_def pruneExpired_def
    code_check_def or_empty_def filter_get_None split: sum.splits)

lemma oauth_run_wf: "oauth_wf (oauth_run C cfg es)"
  using oauth.reachable_inv [OF refl exec_history [of C cfg "[]" new_OAuthService es]]
  by (simp add: history_inv_def oauth_run_def)

text \<open>
  An authorization code buys one pair of tokens: after an exchange that succeeded no later exchange of the same code does,
  whatever happens in between, as long as no approval draws the same code again.
\<close>

theorem authorization_code_used_once:
  assumes "fst (exchangeAuthorizationCode C cfg atk rtk t1 t2 t3 rq (oauth_run C cfg past)) = Inr res"
    and "tq_code rq' = tq_code rq" and "list_all (\<lambda>e. \<not> draws_code (or_empty (tq_code rq)) e) es"
  shows "isl (fst (exchangeAuthorizationCode C cfg atk' rtk' u1 u2 u3 rq'
    (fold (oauth_do C cfg) es (snd (exchangeAuthorizationCode C cfg atk rtk t1 t2 t3 rq (oauth_run C cfg past))))))"
  using used_code.exec_stable [OF exec_restricted [OF assms(3)] code_used [OF assms(1) oauth_run_wf]]
  by (simp add: gone_code_refused assms(2))

theorem authorization_code_used_once_witness:
  "isl (fst (exchangeAuthorizationCode oauth_crypto oauth_ttls ''a2'' ''r2'' 30 30 30 demo_request
    (fold (oauth_do oauth_crypto oauth_ttls) [Approves ''ac2'' 25 25 demo_approval]
      (snd (exchangeAuthorizationCode oauth_crypto oauth_ttls ''a1'' ''r1'' 20 20 20 demo_request
        (oauth_run oauth_crypto oauth_ttls (take 2 demo_history)))))))"
proof -
  have ok: "fst (exchangeAuthorizationCode oauth_crypto oauth_ttls ''a1'' ''r1'' 20 20 20 demo_request
      (oauth_run oauth_crypto oauth_ttls (take 2 demo_history))) = Inr \<lparr>tr_access_token = ''a1'', tr_expires_in = 3600,
        tr_refresh_token = ''r1'', tr_scope = ''admin:read metrics:read''\<rparr>" by code_simp
  show ?thesis by (rule authorization_code_used_once [OF ok refl]) (simp add: demo_request_def or_empty_def)
qed

lemma rotated_dead:
  assumes "fst (exchangeRefreshToken C cfg atk rtk t1 t2 rq s) = Inr res"
    and "hashToken C rtk \<noteq> hashToken C (or_empty (tq_refreshToken rq))"
  shows "dead (oa_refreshTokens (snd (exchangeRefreshToken C cfg atk rtk t1 t2 rq s))) (hashToken C (or_empty (tq_refreshToken rq)))"
  using assms by (auto simp: exchangeRefreshToken_def issueTokenPair_def dead_def split: sum.splits)

lemma dead_refresh_refused:
  "dead (oa_refreshTokens s) (hashToken C (or_empty (tq_refreshToken rq))) \<Longrightarrow> isl (fst (exchangeRefreshToken C cfg atk rtk t1 t2 rq s))"
  by (auto simp: exchangeRefreshToken_def refresh_check_def dead_def issueTokenPair_def split: sum.splits option.splits if_splits)

text \<open>
  A refresh token is good for one exchange: once it has been rotated no later exchange of it succeeds, unless a new token
  with the same hash is drawn.
\<close>

theorem refresh_token_used_once:
  assumes "fst (exchangeRefreshToken C cfg atk rtk t1 t2 rq s) = Inr res"
    and "hashToken C rtk \<noteq> hashToken C (or_empty (tq_refreshToken rq))"
    and "tq_refreshToken rq' = tq_refreshToken rq"
    and "list_all (\<lambda>e. \<not> draws_token C (hashToken C (or_empty (tq_refreshToken rq))) e) es"
  shows "isl (fst (exchangeRefreshToken C cfg atk' rtk' u1 u2 rq'
    (fold (oauth_do C cfg) es (snd (exchangeRefreshToken C cfg atk rtk t1 t2 rq s)))))"
  using dead_refresh.exec_stable [OF exec_restricted [OF assms(4)] rotated_dead [OF assms(1,2)]]
  by (simp add: dead_refresh_refused assms(3))

theorem refresh_token_used_once_witness:
  "isl (fst (exchangeRefreshToken oauth_crypto oauth_ttls ''a3'' ''r3'' 40 40 demo_request
    (fold (oauth_do oauth_crypto oauth_ttls) [Restarts]
      (snd (exchangeRefreshToken oauth_crypto oauth_ttls ''a2'' ''r2'' 30 30 demo_request (oauth_run oauth_crypto oauth_ttls demo_history))))))"
proof -
  have ok: "fst (exchangeRefreshToken oauth_crypto oauth_ttls ''a2'' ''r2'' 30 30 demo_request
      (oauth_run oauth_crypto oauth_ttls demo_history)) = Inr \<lparr>tr_access_token = ''a2'', tr_expires_in = 3600,
        tr_refresh_token = ''r2'', tr_scope = ''admin:read metrics:read''\<rparr>" by code_simp
  have "hashToken oauth_crypto ''r2'' \<noteq> hashToken oauth_crypto (or_empty (tq_refreshToken demo_request))" by code_simp
  then show ?thesis by (rule refresh_token_used_once [OF ok _ refl]) simp
qed

lemma revoked_dead:
  assumes "fst (revoke C tok i secret s) = None"
  shows "dead (oa_accessTokens (snd (revoke C tok i secret s))) (hashToken C tok)"
    and "dead (oa_refreshTokens (snd (revoke C tok i secret s))) (hashToken C tok)"
  using assms by (auto simp: revoke_def Let_def dead_revoke split: option.splits)

text \<open>
  C26. A revoked token is dead for good: after a revocation that succeeded the token authenticates no request, introspection
  reports it inactive, and no refresh accepts it, unless a new token with the same hash is drawn.
\<close>

theorem revoked_token_stays_dead:
  assumes "fst (revoke C tok i secret s) = None" and "list_all (\<lambda>e. \<not> draws_token C (hashToken C tok) e) es"
  shows "validateAccessToken C now tok (fold (oauth_do C cfg) es (snd (revoke C tok i secret s))) = None
    \<and> introspect C now tok None None (fold (oauth_do C cfg) es (snd (revoke C tok i secret s))) = Inr None
    \<and> isl (fst (exchangeRefreshToken C cfg atk rtk t1 t2 (rq\<lparr>tq_refreshToken := Some tok\<rparr>) (fold (oauth_do C cfg) es (snd (revoke C tok i secret s)))))"
proof -
  let ?s = "fold (oauth_do C cfg) es (snd (revoke C tok i secret s))"
  have a: "dead (oa_accessTokens ?s) (hashToken C tok)"
    using dead_access.exec_stable [OF exec_restricted [OF assms(2)] revoked_dead(1) [OF assms(1)]] .
  have r: "dead (oa_refreshTokens ?s) (hashToken C tok)"
    using dead_refresh.exec_stable [OF exec_restricted [OF assms(2)] revoked_dead(2) [OF assms(1)]] .
  have "isl (fst (exchangeRefreshToken C cfg atk rtk t1 t2 (rq\<lparr>tq_refreshToken := Some tok\<rparr>) ?s))"
    using r by (intro dead_refresh_refused) (simp add: or_empty_def)
  with a r show ?thesis
    by (auto simp: validateAccessToken_def introspect_def optional_client_def find_token_def or_empty_def dead_def split: option.splits)
qed

theorem revoked_token_stays_dead_witness:
  "validateAccessToken oauth_crypto 50 ''a1'' (fold (oauth_do oauth_crypto oauth_ttls) [Restarts]
      (snd (revoke oauth_crypto ''a1'' (Some ''c'') (Some ''s'') (oauth_run oauth_crypto oauth_ttls demo_history)))) = None
    \<and> introspect oauth_crypto 50 ''a1'' None None (fold (oauth_do oauth_crypto oauth_ttls) [Restarts]
      (snd (revoke oauth_crypto ''a1'' (Some ''c'') (Some ''s'') (oauth_run oauth_crypto oauth_ttls demo_history)))) = Inr None
    \<and> isl (fst (exchangeRefreshToken oauth_crypto oauth_ttls ''a2'' ''r2'' 50 50 (demo_request\<lparr>tq_refreshToken := Some ''a1''\<rparr>)
      (fold (oauth_do oauth_crypto oauth_ttls) [Restarts]
        (snd (revoke oauth_crypto ''a1'' (Some ''c'') (Some ''s'') (oauth_run oauth_crypto oauth_ttls demo_history))))))"
proof -
  have "fst (revoke oauth_crypto ''a1'' (Some ''c'') (Some ''s'') (oauth_run oauth_crypto oauth_ttls demo_history)) = None" by code_simp
  then show ?thesis by (rule revoked_token_stays_dead) simp
qed

section \<open>What the checks miss\<close>

text \<open>Revocation does not look at whose token it is: any client that authenticates revokes the tokens of all others.\<close>

lemma any_client_revokes:
  "requireClient C i secret s = Inr c \<Longrightarrow> revoke C tok i secret s = revoke C tok None None s"
  by (simp add: revoke_def optional_client_def or_empty_def)

text \<open>
  An empty scope name disables the checks of scopes: \<open>find\<close> returns it, and as a condition it counts as nothing found. A
  client whose first registered scope is the empty name is approved by anyone for all its scopes, the wildcard included.
\<close>

theorem empty_scope_disables_the_checks:
  assumes "getClient (az_clientId rq) s = Some c" and "cl_status c = ''active''" and "az_redirectUri rq \<in> set (cl_redirectUris c)"
    and "''authorization_code'' \<in> set (cl_grantTypes c)" and "parseScope (az_scope rq) = []"
    and "cl_scopes c = [] # rest" and "[] \<notin> set (az_ownerScopes rq)"
  shows "authorize_check rq s = Inr c"
proof -
  have eff: "effective_scopes rq c = cl_scopes c" using assms(5) by (simp add: effective_scopes_def)
  have "find (\<lambda>x. ''*'' \<notin> set (cl_scopes c) \<and> x \<notin> set (cl_scopes c)) (cl_scopes c) = None"
    by (simp add: find_None_iff)
  moreover have "truthy_find (\<lambda>x. ''*'' \<notin> set (az_ownerScopes rq) \<and> x \<notin> set (az_ownerScopes rq)) (cl_scopes c) = None"
    using assms(6,7) find_None_iff [of "\<lambda>x. False" rest] by (auto simp: truthy_find_def split: option.splits)
  ultimately show ?thesis using assms(1-4) by (simp add: authorize_check_def eff truthy_find_def)
qed

definition unnamed_history :: "oauth_event list" where
  "unnamed_history = [Registers ''c'' ''s'' 0 (demo_registration\<lparr>rg_scopes := [[], ''*'']\<rparr>)]"

theorem empty_scope_disables_the_checks_witness:
  "map_sum id cl_scopes (authorize_check demo_approval (oauth_run oauth_crypto oauth_ttls unnamed_history)) = Inr [[], ''*'']"
proof -
  obtain c where c: "getClient (az_clientId demo_approval) (oauth_run oauth_crypto oauth_ttls unnamed_history) = Some c"
    "cl_status c = ''active''" "cl_redirectUris c = [''u'']" "cl_grantTypes c = OAUTH_GRANT_TYPES" "cl_scopes c = [[], ''*'']"
  proof -
    have "map_option (\<lambda>c. (cl_status c, cl_redirectUris c, cl_grantTypes c, cl_scopes c))
      (getClient (az_clientId demo_approval) (oauth_run oauth_crypto oauth_ttls unnamed_history))
        = Some (''active'', [''u''], OAUTH_GRANT_TYPES, [[], ''*''])" by code_simp
    then show ?thesis using that by auto
  qed
  have "authorize_check demo_approval (oauth_run oauth_crypto oauth_ttls unnamed_history) = Inr c"
    by (rule empty_scope_disables_the_checks [OF c(1,2) _ _ _ c(5)])
      (simp_all add: c demo_approval_def OAUTH_GRANT_TYPES_def parseScope_def)
  then show ?thesis by (simp add: c(5))
qed

end
