(* ===== verification/IpAllow.thy ===== *)
theory IpAllow
  imports ApiKeys
begin

unbundle bit_operations_syntax

text \<open>
  Models \<open>server/src/ip-whitelist.js\<close>: the allowlist of client addresses for the admin endpoints, with IPv4 and IPv6 ranges.

  Node's \<open>net.isIP\<close> is a parameter: it says whether a text is an IPv4 address (4), an IPv6 address (6) or neither (0). The
  arithmetic on addresses is on \<open>BigInt\<close>s, hence on natural numbers. What \<open>BigInt\<close> would refuse, \<open>isIP\<close> has refused before.
\<close>

section \<open>Addresses\<close>

record ip =
  ip_version :: nat
  ip_bits :: nat
  ip_value :: nat

definition strip_brackets :: "string \<Rightarrow> string" where
  "strip_brackets s = (if take 1 s = ''['' \<and> s \<noteq> [] \<and> last s = CHR '']'' then butlast (tl s) else s)"

text \<open>\<open>address.replace(/%[^%]+$/, "")\<close>\<close>

definition strip_zone :: "string \<Rightarrow> string" where
  "strip_zone s = (let z = takeWhile (\<lambda>c. c \<noteq> CHR ''%'') (rev s) in
     if z \<noteq> [] \<and> CHR ''%'' \<in> set s then rev (drop (length z + 1) (rev s)) else s)"

definition octet :: "string \<Rightarrow> nat" where
  "octet s = (case js_number s of Some q \<Rightarrow> nat \<lfloor>q\<rfloor> | None \<Rightarrow> 0)"

definition octets_value :: "nat list \<Rightarrow> nat" where
  "octets_value os = foldl (\<lambda>r oc. push_bit 8 r OR oc) 0 os"

fun nat_to_hex :: "nat \<Rightarrow> string" where
  "nat_to_hex n = (if n < 16 then [hex_digit n] else nat_to_hex (n div 16) @ [hex_digit (n mod 16)])"

declare nat_to_hex.simps [simp del]

definition hex_number :: "string \<Rightarrow> nat" where
  "hex_number s = foldl (\<lambda>v c. 16 * v + (case hex_val c of Some d \<Rightarrow> d | None \<Rightarrow> 0)) 0 s"

text \<open>The last group of an IPv6 address when it is written as four decimal octets: \<open>/(?:^|:)(\d{1,3}(?:\.\d{1,3}){3})$/\<close>\<close>

definition dotted_quad :: "string \<Rightarrow> bool" where
  "dotted_quad s = (let ds = js_split (CHR ''.'') s in
     length ds = 4 \<and> list_all (\<lambda>d. list_all js_digit d \<and> 1 \<le> length d \<and> length d \<le> 3) ds)"

definition expand_quad :: "string \<Rightarrow> string" where
  "expand_quad s = (let t = rev (takeWhile (\<lambda>c. c \<noteq> CHR '':'') (rev s)) in
     if dotted_quad t
     then (let os = map octet (js_split (CHR ''.'') t) in
        take (length s - length t) s @ nat_to_hex (push_bit 8 (os ! 0) OR os ! 1) @ '':'' @ nat_to_hex (push_bit 8 (os ! 2) OR os ! 3))
     else s)"

text \<open>\<open>expanded.split("::")\<close>\<close>

fun split_double :: "string \<Rightarrow> string list" where
  "split_double (a # b # s) = (if a = CHR '':'' \<and> b = CHR '':'' then [] # split_double s
     else (case split_double (b # s) of h # t \<Rightarrow> (a # h) # t | [] \<Rightarrow> []))"
| "split_double s = [s]"

definition groups_of :: "string \<Rightarrow> string list" where
  "groups_of half = (if half = [] then [] else js_split (CHR '':'') half)"

definition add_group :: "nat \<Rightarrow> string \<Rightarrow> nat" where
  "add_group r g = push_bit 16 r OR hex_number (if g = [] then ''0'' else g)"

definition parse_v6 :: "string \<Rightarrow> ip option" where
  "parse_v6 address = (let halves = split_double (expand_quad (to_lower address));
     left = groups_of (hd halves); right = (if 1 < length halves then groups_of (halves ! 1) else []);
     missing = 8 - int (length left) - int (length right) in
     if missing < 0 \<or> (length halves = 1 \<and> missing \<noteq> 0) then None
     else (let groups = left @ replicate (nat missing) ''0'' @ right;
        v = foldl add_group 0 groups in
        if drop_bit 32 v = 65535 then Some \<lparr>ip_version = 4, ip_bits = 32, ip_value = v AND 4294967295\<rparr>
        else Some \<lparr>ip_version = 6, ip_bits = 128, ip_value = v\<rparr>))"

definition parseAddress :: "(string \<Rightarrow> nat) \<Rightarrow> string \<Rightarrow> ip option" where
  "parseAddress isIP s = (let address = strip_zone (strip_brackets (js_trim s)) in
     if isIP address = 4 then Some \<lparr>ip_version = 4, ip_bits = 32, ip_value = octets_value (map octet (js_split (CHR ''.'') address))\<rparr>
     else if isIP address \<noteq> 6 then None else parse_v6 address)"

section \<open>Ranges\<close>

definition parseRange :: "(string \<Rightarrow> nat) \<Rightarrow> string \<Rightarrow> (ip \<times> nat) option" where
  "parseRange isIP s = (let parts = js_split (CHR ''/'') s in
     if 2 < length parts then None
     else (case parseAddress isIP (hd parts) of None \<Rightarrow> None | Some a \<Rightarrow>
       (case (if length parts = 1 then Some (of_nat (ip_bits a)) else js_number (parts ! 1)) of None \<Rightarrow> None | Some p \<Rightarrow>
          if \<not> js_is_integer p \<or> p < 0 \<or> of_nat (ip_bits a) < p then None else Some (a, nat \<lfloor>p\<rfloor>))))"

definition matchesRange :: "ip \<Rightarrow> ip \<times> nat \<Rightarrow> bool" where
  "matchesRange a rg = (case rg of (r, prefix) \<Rightarrow> ip_version a = ip_version r
     \<and> drop_bit (ip_bits a - prefix) (ip_value a) = drop_bit (ip_bits a - prefix) (ip_value r))"

definition getClientAddress :: "(string \<Rightarrow> nat) \<Rightarrow> bool \<Rightarrow> string option \<Rightarrow> string \<Rightarrow> string" where
  "getClientAddress isIP trustProxy forwarded peer = (case forwarded of
     Some f \<Rightarrow> (let firstHop = js_trim (hd (js_split (CHR '','') f)) in
       if trustProxy \<and> js_trim f \<noteq> [] \<and> parseAddress isIP firstHop \<noteq> None then firstHop else peer)
   | None \<Rightarrow> peer)"

definition isIpAllowed :: "(string \<Rightarrow> nat) \<Rightarrow> string \<Rightarrow> string list \<Rightarrow> bool" where
  "isIpAllowed isIP address allowlist = (case parseAddress isIP address of None \<Rightarrow> False | Some client \<Rightarrow>
     list_ex (\<lambda>entry. case parseRange isIP (js_trim entry) of Some rg \<Rightarrow> matchesRange client rg | None \<Rightarrow> False) allowlist)"

definition isAdminIpAllowed :: "(string \<Rightarrow> nat) \<Rightarrow> bool \<Rightarrow> string list \<Rightarrow> bool \<Rightarrow> string option \<Rightarrow> string \<Rightarrow> bool" where
  "isAdminIpAllowed isIP required allowlist trustProxy forwarded peer =
     (if allowlist = [] then \<not> required else isIpAllowed isIP (getClientAddress isIP trustProxy forwarded peer) allowlist)"

section \<open>What is in a range\<close>

lemma drop_bit_interval: "drop_bit k (x :: nat) = drop_bit k y \<longleftrightarrow> drop_bit k y * 2 ^ k \<le> x \<and> x < (drop_bit k y + 1) * 2 ^ k"
proof -
  have "drop_bit k x = drop_bit k y \<longleftrightarrow> x div 2 ^ k = y div 2 ^ k" by (simp add: drop_bit_eq_div)
  also have "\<dots> \<longleftrightarrow> y div 2 ^ k \<le> x div 2 ^ k \<and> x div 2 ^ k < y div 2 ^ k + 1" by auto
  also have "\<dots> \<longleftrightarrow> y div 2 ^ k * 2 ^ k \<le> x \<and> x < (y div 2 ^ k + 1) * 2 ^ k"
    by (simp only: less_eq_div_iff_mult_less_eq div_less_iff_less_mult zero_less_power zero_less_numeral)
  finally show ?thesis by (simp add: drop_bit_eq_div)
qed

text \<open>
  A CIDR entry admits exactly the addresses of its block: with a prefix of \<open>p\<close> bits, those of the same version from the first
  address of the block, the range's with its last bits cleared, on, and fewer than \<open>2 ^ (bits - p)\<close> after it.
\<close>

theorem cidr_admits_its_block:
  assumes "parseAddress isIP address = Some a" and "parseRange isIP (js_trim entry) = Some (r, p)"
  shows "isIpAllowed isIP address [entry] \<longleftrightarrow> ip_version a = ip_version r
    \<and> drop_bit (ip_bits a - p) (ip_value r) * 2 ^ (ip_bits a - p) \<le> ip_value a
    \<and> ip_value a < (drop_bit (ip_bits a - p) (ip_value r) + 1) * 2 ^ (ip_bits a - p)"
  using assms by (simp add: isIpAllowed_def matchesRange_def drop_bit_interval)

section \<open>Reading addresses\<close>

definition dotted :: "nat \<Rightarrow> nat \<Rightarrow> nat \<Rightarrow> nat \<Rightarrow> string" where
  "dotted a b c d = nat_to_string a @ CHR ''.'' # nat_to_string b @ CHR ''.'' # nat_to_string c @ CHR ''.'' # nat_to_string d"

lemma js_number_print: "js_number (nat_to_string n) = Some (of_nat n)"
proof -
  obtain c cs where cs: "nat_to_string n = c # cs" using nat_to_string_nonempty by (cases "nat_to_string n") auto
  have digits: "list_all js_digit (nat_to_string n)" by (auto simp: list_all_iff dest: nat_to_string_js_digits)
  then have plain: "\<not> js_space (hd (nat_to_string n))" "\<not> js_space (last (nat_to_string n))" "c \<noteq> CHR ''-''" "c \<noteq> CHR ''+''"
    using js_digit_plain nat_to_string_nonempty [of n] cs by (auto simp: list_all_iff dest: last_in_set hd_in_set)
  have "takeWhile js_digit (nat_to_string n) = nat_to_string n" "dropWhile js_digit (nat_to_string n) = []"
    using digits by (simp_all add: list_all_iff takeWhile_eq_all_conv dropWhile_eq_Nil_conv)
  moreover have "js_trim (nat_to_string n) = nat_to_string n" using js_trim_id nat_to_string_nonempty plain by blast
  moreover have val: "digits_value (nat_to_string n) = n" "digits_value [] = 0"
    by (simp add: digits_value_parse, simp add: digits_value_def)
  ultimately show ?thesis
    using plain(3,4) cs by (simp add: js_number_def parse_unsigned_def parse_exponent_def digits_value_parse split: list.splits)
qed

lemma octet_print [simp]: "octet (nat_to_string n) = n"
  by (simp add: octet_def js_number_print)

lemma number_plain: "c \<in> set (nat_to_string n) \<Longrightarrow> c \<noteq> CHR ''.'' \<and> c \<noteq> CHR '':'' \<and> c \<noteq> CHR ''%'' \<and> c \<noteq> CHR ''['' \<and> c \<noteq> CHR '']''
    \<and> c \<noteq> CHR ''/'' \<and> \<not> js_space c \<and> lower_char c = c"
  using nat_to_string_js_digits [of c n] by (auto simp: js_digit_def js_space_def char_code_def lower_char_def)

lemma number_no_dot [simp]: "CHR ''.'' \<notin> set (nat_to_string n)" "CHR '':'' \<notin> set (nat_to_string n)"
  "CHR ''%'' \<notin> set (nat_to_string n)" "CHR ''/'' \<notin> set (nat_to_string n)"
  using number_plain by blast+

lemma split_dotted: "js_split (CHR ''.'') (dotted a b c d) = map nat_to_string [a, b, c, d]"
  by (simp add: dotted_def js_split_first js_split_absent)

lemma or_shift: "y < 2 ^ k \<Longrightarrow> push_bit k x OR y = 2 ^ k * x + (y :: nat)"
proof -
  assume y: "y < 2 ^ k"
  have "push_bit k x AND y = 0"
  proof (rule bit_eqI)
    fix n
    have "\<not> bit y n" if "k \<le> n"
    proof -
      have "y < 2 ^ n" by (rule order.strict_trans2 [OF y]) (rule power_increasing [OF that], simp)
      then show ?thesis by (simp add: bit_iff_odd)
    qed
    then show "bit (push_bit k x AND y) n = bit (0 :: nat) n" by (auto simp: bit_and_iff bit_push_bit_iff)
  qed
  then have "push_bit k x + y = push_bit k x OR y" by (rule disjunctive_add_eq_or)
  then show ?thesis by (simp add: push_bit_eq_mult mult.commute)
qed

lemma small_number: "n < 256 \<Longrightarrow> 1 \<le> length (nat_to_string n) \<and> length (nat_to_string n) \<le> 3"
proof -
  assume n: "n < 256"
  have "length (nat_to_string n) \<le> 3"
    using n by (subst nat_to_string.simps, subst nat_to_string.simps, subst nat_to_string.simps) simp
  then show ?thesis using nat_to_string_nonempty [of n] by (cases "nat_to_string n") auto
qed

lemma address_trims:
  assumes "s \<noteq> []" "\<not> js_space (hd s)" "\<not> js_space (last s)" "hd s \<noteq> CHR ''[''" "CHR ''%'' \<notin> set s"
  shows "strip_zone (strip_brackets (js_trim s)) = s"
proof -
  have "take 1 s \<noteq> ''[''" using assms(1,4) by (cases s) auto
  then show ?thesis using js_trim_id [OF assms(1-3)] assms(5) by (simp add: strip_brackets_def strip_zone_def Let_def)
qed

lemma number_ends: "\<not> js_space (hd (nat_to_string n))" "\<not> js_space (last (nat_to_string n))" "hd (nat_to_string n) \<noteq> CHR ''[''"
  using number_plain [OF hd_in_set] number_plain [OF last_in_set] nat_to_string_nonempty [of n] by blast+

lemma dotted_ends: "dotted a b c d \<noteq> []" "\<not> js_space (hd (dotted a b c d))" "\<not> js_space (last (dotted a b c d))"
  "hd (dotted a b c d) \<noteq> CHR ''[''" "CHR ''%'' \<notin> set (dotted a b c d)" "CHR '':'' \<notin> set (dotted a b c d)"
  using number_ends nat_to_string_nonempty by (simp_all add: dotted_def hd_append)

lemma octets_value_four:
  assumes "b < 256" "c < 256" "d < 256"
  shows "octets_value [a, b, c, d] = ((a * 256 + b) * 256 + c) * 256 + d"
  using assms or_shift [of _ 8] by (simp add: octets_value_def mult.commute)

definition ipv4 :: "nat \<Rightarrow> nat \<Rightarrow> nat \<Rightarrow> nat \<Rightarrow> ip" where
  "ipv4 a b c d = \<lparr>ip_version = 4, ip_bits = 32, ip_value = ((a * 256 + b) * 256 + c) * 256 + d\<rparr>"

lemma parse_dotted:
  assumes "isIP (dotted a b c d) = 4" "a < 256" "b < 256" "c < 256" "d < 256"
  shows "parseAddress isIP (dotted a b c d) = Some (ipv4 a b c d)"
proof -
  have "map octet (js_split (CHR ''.'') (dotted a b c d)) = [a, b, c, d]" by (simp add: split_dotted)
  then show ?thesis
    using octets_value_four [OF assms(3-5), of a] address_trims [OF dotted_ends(1-5)] assms(1)
    by (simp add: parseAddress_def Let_def ipv4_def)
qed

subsection \<open>IPv4 addresses inside IPv6\<close>

lemma hex_digit_plain: "n < 16 \<Longrightarrow> hex_digit n \<noteq> CHR '':''"
  by (auto simp: hex_digit_def char_code_def split: if_splits dest: arg_cong [where f = char_code])

lemma nat_to_hex_print: "hex_number (nat_to_hex n) = n \<and> nat_to_hex n \<noteq> [] \<and> CHR '':'' \<notin> set (nat_to_hex n)"
proof (induction n rule: nat_to_hex.induct)
  case (1 n)
  have digit: "n mod 16 < 16" by simp
  show ?case
  proof (cases "n < 16")
    case True
    then show ?thesis using hex_digit_plain [OF True] by (subst (1 2 3) nat_to_hex.simps) (simp add: hex_number_def)
  next
    case False
    then have step: "nat_to_hex n = nat_to_hex (n div 16) @ [hex_digit (n mod 16)]" by (subst nat_to_hex.simps) simp
    have "hex_number (nat_to_hex n) = 16 * hex_number (nat_to_hex (n div 16)) + n mod 16"
      using hex_val_hex_digit [OF digit] by (simp add: step hex_number_def)
    with 1 [OF False] hex_digit_plain [OF digit] step show ?thesis by simp
  qed
qed

lemma last_group: "CHR '':'' \<notin> set t \<Longrightarrow> rev (takeWhile (\<lambda>c. c \<noteq> CHR '':'') (rev (s @ CHR '':'' # t))) = t"
  by (simp add: takeWhile_append)

lemma lower_fixed: "list_all (\<lambda>c. lower_char c = c) s \<Longrightarrow> to_lower s = s"
  by (induction s) (simp_all add: to_lower_def)

lemma add_zeros: "foldl add_group 0 (replicate n ''0'' @ gs) = foldl add_group 0 gs"
proof (induction n)
  case (Suc n)
  have "hex_number ''0'' = 0" by code_simp
  with Suc show ?case by (simp add: add_group_def)
qed simp

lemma add_group_print: "n < 2 ^ 16 \<Longrightarrow> add_group r (nat_to_hex n) = r * 2 ^ 16 + n"
  using nat_to_hex_print [of n] or_shift [of n 16 r] by (simp add: add_group_def mult.commute)

lemma parse_v6_right:
  assumes "split_double (expand_quad (to_lower s)) = [[], half]" "groups_of half = gs" "length gs \<le> 8"
    "v = foldl add_group 0 (replicate (8 - length gs) ''0'' @ gs)" "drop_bit 32 v = 65535"
  shows "parse_v6 s = Some \<lparr>ip_version = 4, ip_bits = 32, ip_value = v AND 4294967295\<rparr>"
proof -
  have n: "nat (8 - int (length gs)) = 8 - length gs" by simp
  have empty: "groups_of [] = []" by (simp add: groups_of_def)
  show ?thesis
    unfolding parse_v6_def Let_def assms(1)
    using assms(3,5) by (simp add: assms(2) empty n assms(4) del: foldl_append)
qed

lemma split_double_single: "CHR '':'' \<notin> set s \<Longrightarrow> split_double s = [s]"
  by (induction s rule: split_double.induct) auto

lemma split_double_colon:
  "CHR '':'' \<notin> set s \<Longrightarrow> t \<noteq> [] \<Longrightarrow> hd t \<noteq> CHR '':'' \<Longrightarrow> split_double t = [t] \<Longrightarrow> split_double (s @ CHR '':'' # t) = [s @ CHR '':'' # t]"
proof (induction s)
  case Nil
  then show ?case by (cases t) auto
next
  case (Cons x s)
  then show ?case by (cases s) auto
qed

text \<open>
  An IPv4 address written inside an IPv6 address, the way a dual-stack socket reports it, is read as that IPv4 address, so that
  the IPv4 entries of the allowlist apply to it.
\<close>

theorem mapped_address_is_its_ipv4:
  assumes "isIP (dotted a b c d) = 4" and "isIP (''::ffff:'' @ dotted a b c d) = 6"
    and "a < 256" and "b < 256" and "c < 256" and "d < 256"
  shows "parseAddress isIP (''::ffff:'' @ dotted a b c d) = Some (ipv4 a b c d)
    \<and> parseAddress isIP (dotted a b c d) = Some (ipv4 a b c d)"
proof -
  let ?s = "''::ffff:'' @ dotted a b c d"
  let ?h = "a * 256 + b" and ?l = "c * 256 + d"
  note ends = dotted_ends [of a b c d]
  have lower: "to_lower ?s = ?s"
    by (rule lower_fixed) (auto simp: dotted_def list_all_iff lower_char_def char_code_def Let_def dest: number_plain)
  have t: "rev (takeWhile (\<lambda>c. c \<noteq> CHR '':'') (rev ?s)) = dotted a b c d"
    using last_group [OF ends(6), of "''::ffff''"] by simp
  have quad: "dotted_quad (dotted a b c d)"
    using small_number assms(3-6) nat_to_string_js_digits by (auto simp: dotted_quad_def split_dotted list_all_iff)
  have hl: "push_bit 8 a OR b = ?h" "push_bit 8 c OR d = ?l" using or_shift [of _ 8] assms(4,6) by (simp_all add: mult.commute)
  have expand: "expand_quad ?s = ''::ffff:'' @ nat_to_hex ?h @ '':'' @ nat_to_hex ?l"
    unfolding expand_quad_def t using quad by (simp add: split_dotted hl)
  let ?r = "''ffff'' @ CHR '':'' # nat_to_hex ?h @ CHR '':'' # nat_to_hex ?l"
  have hex: "nat_to_hex n \<noteq> []" "CHR '':'' \<notin> set (nat_to_hex n)" "hex_number (nat_to_hex n) = n" for n
    using nat_to_hex_print by blast+
  have hd_hex: "hd (nat_to_hex n @ s) \<noteq> CHR '':''" for n s using hex(1,2) [of n] by (cases "nat_to_hex n") auto
  have double: "split_double ?r = [?r]"
    using hd_hex [of ?h] hd_hex [of ?l "[]"] hex(1) by (intro split_double_colon split_double_single) (simp_all add: hex)
  have halves: "split_double (expand_quad ?s) = [[], ?r]"
  proof -
    have e: "expand_quad ?s = ''::'' @ ?r" unfolding expand by simp
    have d: "split_double (''::'' @ ?r) = [] # split_double ?r" by simp
    show ?thesis unfolding e d double by (rule refl)
  qed
  have groups: "groups_of ?r = [''ffff'', nat_to_hex ?h, nat_to_hex ?l]"
    using hex(2) by (simp add: groups_of_def js_split_first js_split_absent)
  have bound: "?h < 2 ^ 16" "?l < 2 ^ 16" using assms(3-6) by simp_all
  let ?v = "foldl add_group 0 (replicate 5 ''0'' @ [''ffff'', nat_to_hex ?h, nat_to_hex ?l])"
  have ffff: "add_group 0 ''ffff'' = 65535"
    by (simp add: add_group_def hex_number_def hex_val_def char_code_def Let_def)
  have v: "?v = (65535 * 2 ^ 16 + ?h) * 2 ^ 16 + ?l"
    unfolding add_zeros foldl.simps ffff by (simp only: add_group_print bound)
  have "drop_bit 32 ?v = 65535"
    unfolding v using bound by (simp add: drop_bit_eq_div)
  moreover have "?v AND 4294967295 = ?h * 2 ^ 16 + ?l"
  proof -
    have "(4294967295 :: nat) = mask 32" by (simp add: mask_eq_exp_minus_1)
    then have "?v AND 4294967295 = ?v mod 2 ^ 32" by (simp only: take_bit_eq_mask [symmetric] take_bit_eq_mod)
    also have "?v mod 2 ^ 32 = ((?h * 2 ^ 16 + ?l) + 65535 * 2 ^ 32) mod 2 ^ 32" unfolding v by (intro arg_cong2 [where f = "(mod)"]) simp_all
    also have "\<dots> = (?h * 2 ^ 16 + ?l) mod 2 ^ 32" by (rule mod_mult_self1)
    also have "\<dots> = ?h * 2 ^ 16 + ?l" using bound by (intro mod_less) simp
    finally show ?thesis .
  qed
  moreover have "parse_v6 ?s = Some \<lparr>ip_version = 4, ip_bits = 32, ip_value = ?v AND 4294967295\<rparr>"
  proof (rule parse_v6_right [OF _ groups])
    show "split_double (expand_quad (to_lower ?s)) = [[], ?r]" unfolding lower by (rule halves)
    show "drop_bit 32 ?v = 65535" by (rule calculation(1))
  qed simp_all
  ultimately have "parse_v6 ?s = Some (ipv4 a b c d)"
    by (simp only: ipv4_def) simp
  then show ?thesis
    using parse_dotted assms address_trims [of ?s] ends by (simp add: parseAddress_def Let_def js_space_def char_code_def)
qed

text \<open>What Node answers for the addresses of the examples.\<close>

definition example_isIP :: "string \<Rightarrow> nat" where
  "example_isIP s = (if CHR '':'' \<in> set s then 6 else if dotted_quad s then 4 else 0)"

lemma example_isIP_values: "a < 256 \<Longrightarrow> b < 256 \<Longrightarrow> c < 256 \<Longrightarrow> d < 256 \<Longrightarrow> example_isIP (dotted a b c d) = 4"
  "example_isIP (''::ffff:'' @ s) = 6"
  using small_number nat_to_string_js_digits dotted_ends(6) by (auto simp: example_isIP_def dotted_quad_def split_dotted list_all_iff)

theorem mapped_address_is_its_ipv4_witness:
  "parseAddress example_isIP (''::ffff:'' @ dotted 203 0 113 8) = Some (ipv4 203 0 113 8)
    \<and> parseAddress example_isIP (dotted 203 0 113 8) = Some (ipv4 203 0 113 8)"
  by (rule mapped_address_is_its_ipv4) ((rule example_isIP_values; simp)+, simp_all)

section \<open>Ranges without a prefix\<close>

lemma range_entry: "js_trim (dotted a b c d @ CHR ''/'' # s) = dotted a b c d @ CHR ''/'' # s"
  "js_split (CHR ''/'') (dotted a b c d @ CHR ''/'' # s) = dotted a b c d # js_split (CHR ''/'') s"
  if "s = [] \<or> \<not> js_space (last s)"
proof -
  have "\<not> js_space (CHR ''/'')" by code_simp
  then show "js_trim (dotted a b c d @ CHR ''/'' # s) = dotted a b c d @ CHR ''/'' # s"
    using that dotted_ends [of a b c d] by (intro js_trim_id) auto
  have "CHR ''/'' \<notin> set (dotted a b c d)" by (simp add: dotted_def)
  then show "js_split (CHR ''/'') (dotted a b c d @ CHR ''/'' # s) = dotted a b c d # js_split (CHR ''/'') s"
    by (rule js_split_first)
qed

text \<open>
  An entry that ends in a slash admits every IPv4 client: the missing prefix is read as the number 0, since \<open>Number("")\<close> is 0.
\<close>

theorem empty_prefix_admits_every_ipv4:
  assumes "isIP (dotted a b c d) = 4" and "a < 256" and "b < 256" and "c < 256" and "d < 256"
    and "isIP (dotted a' b' c' d') = 4" and "a' < 256" and "b' < 256" and "c' < 256" and "d' < 256"
  shows "isIpAllowed isIP (dotted a' b' c' d') [dotted a b c d @ ''/'']"
proof -
  have "js_number [] = Some 0" by code_simp
  then have entry: "parseRange isIP (js_trim (dotted a b c d @ ''/'')) = Some (ipv4 a b c d, 0)"
    using range_entry [of "[]" a b c d] parse_dotted [of isIP a b c d] assms(1-5) by (simp add: parseRange_def Let_def js_is_integer_def ipv4_def)
  have small: "((w * 256 + x) * 256 + y) * 256 + z < 2 ^ 32" if "w < 256" "x < 256" "y < 256" "z < 256" for w x y z :: nat
    using that by simp
  have "drop_bit 32 (ip_value (ipv4 a b c d)) = 0" "drop_bit 32 (ip_value (ipv4 a' b' c' d')) = 0"
    using small [OF assms(2-5)] small [OF assms(7-10)] by (simp_all add: ipv4_def drop_bit_eq_div)
  then show ?thesis
    using entry parse_dotted [of isIP a' b' c' d'] assms(6-10) by (simp add: isIpAllowed_def matchesRange_def) (simp add: ipv4_def)
qed

theorem empty_prefix_admits_every_ipv4_witness:
  "isIpAllowed example_isIP (dotted 203 0 113 8) [dotted 10 0 0 1 @ ''/'']"
  by (rule empty_prefix_admits_every_ipv4) (simp_all add: example_isIP_values)

theorem cidr_admits_its_block_witness:
  "isIpAllowed example_isIP (dotted 10 1 2 3) [dotted 10 1 0 0 @ ''/16''] \<longleftrightarrow> ip_version (ipv4 10 1 2 3) = ip_version (ipv4 10 1 0 0)
    \<and> drop_bit (ip_bits (ipv4 10 1 2 3) - 16) (ip_value (ipv4 10 1 0 0)) * 2 ^ (ip_bits (ipv4 10 1 2 3) - 16) \<le> ip_value (ipv4 10 1 2 3)
    \<and> ip_value (ipv4 10 1 2 3) < (drop_bit (ip_bits (ipv4 10 1 2 3) - 16) (ip_value (ipv4 10 1 0 0)) + 1) * 2 ^ (ip_bits (ipv4 10 1 2 3) - 16)"
proof (rule cidr_admits_its_block)
  show "parseAddress example_isIP (dotted 10 1 2 3) = Some (ipv4 10 1 2 3)" by (rule parse_dotted) (simp_all add: example_isIP_values)
  have n: "js_number ''16'' = Some 16" "js_split (CHR ''/'') ''16'' = [''16'']" "\<not> js_space (last ''16'')" by code_simp+
  have "parseAddress example_isIP (dotted 10 1 0 0) = Some (ipv4 10 1 0 0)" by (rule parse_dotted) (simp_all add: example_isIP_values)
  then show "parseRange example_isIP (js_trim (dotted 10 1 0 0 @ ''/16'')) = Some (ipv4 10 1 0 0, 16)"
    using range_entry [of "''16''" 10 1 0 0] n by (simp add: parseRange_def Let_def js_is_integer_def ipv4_def)
qed

end
