(* ===== verification/HttpAuth.thy ===== *)
theory HttpAuth
  imports ServerKeys OAuth IpAllow
begin

text \<open>
  Models the authentication of requests in \<open>server/src/http-utils.js\<close>: \<open>requireAuth\<close>, which composes the address allowlist, the
  API keys, the OAuth tokens and the admin key, and the CORS headers. The key service and the OAuth service are those the
  server installs at start. The path is the one of the parsed URL, empty when the URL does not parse; a text is the list of
  its UTF-8 bytes, as in the services.
\<close>

section \<open>Authentication\<close>

record auth_config =
  ah_adminApiKey :: "string option"
  ah_adminIpAllowlist :: "string list"
  ah_adminIpAllowlistRequired :: bool
  ah_trustProxy :: bool

record http_request =
  hr_pathname :: string
  hr_apiKey :: "string option"
  hr_authorization :: "string option"
  hr_userTier :: "string option"
  hr_forwardedFor :: "string option"
  hr_peer :: string

record auth_services =
  as_keys :: key_service
  as_oauth :: oauth_service

text \<open>What \<open>requireAuth\<close> leaves in the request, or the status and code of its refusal.\<close>

datatype auth_outcome =
    Authorized (au_id: "string option") (au_scopes: "string list") (au_tier: string)
  | Denied nat string

definition timingSafeCompare :: "string \<Rightarrow> string \<Rightarrow> bool" where
  "timingSafeCompare supplied expected = (take (length expected) (supplied @ replicate (length expected) (CHR 0x00)) = expected
     \<and> length supplied = length expected)"

text \<open>\<open>authorization.replace(/^Bearer\s+/i, "")\<close>\<close>

definition strip_bearer :: "string \<Rightarrow> string" where
  "strip_bearer s = (let r = drop 6 s in
     if to_lower (take 6 s) = ''bearer'' \<and> r \<noteq> [] \<and> js_space (hd r) then dropWhile js_space r else s)"

definition request_token :: "http_request \<Rightarrow> string" where
  "request_token q = (if or_empty (hr_apiKey q) \<noteq> [] then or_empty (hr_apiKey q)
     else case hr_authorization q of Some a \<Rightarrow> strip_bearer a | None \<Rightarrow> [])"

definition isAdminRequest :: "http_request \<Rightarrow> string list \<Rightarrow> bool" where
  "isAdminRequest q required \<longleftrightarrow> hr_pathname q = ''/admin'' \<or> take 7 (hr_pathname q) = ''/admin/''
     \<or> list_ex (\<lambda>s. take 6 s = ''admin:'') required"

definition hasAllScopes :: "string list \<Rightarrow> string list \<Rightarrow> bool" where
  "hasAllScopes scopes required \<longleftrightarrow> list_all (\<lambda>r. ''*'' \<in> set scopes \<or> r \<in> set scopes) required"

text \<open>The checks of scopes, which are the same three times; they are skipped when none is required.\<close>

definition check_scopes :: "string option \<Rightarrow> string list \<Rightarrow> string \<Rightarrow> string list \<Rightarrow> auth_outcome" where
  "check_scopes i scopes tier required =
     (if required \<noteq> [] \<and> \<not> hasAllScopes scopes required then Denied 403 ''INSUFFICIENT_SCOPE'' else Authorized i scopes tier)"

definition tier_names :: "string list" where
  "tier_names = [''free'', ''pro'', ''enterprise'']"

text \<open>The admin key, \<open>key\<close>, \<open>key:tier\<close>, \<open>key:scopes\<close> or \<open>key:tier:scopes\<close>.\<close>

definition admin_key_outcome :: "string \<Rightarrow> http_request \<Rightarrow> string \<Rightarrow> string list \<Rightarrow> auth_outcome" where
  "admin_key_outcome adminKey q tok required = (let
     parts = js_split (CHR '':'') tok;
     tierOnly = (length parts = 2 \<and> to_lower (parts ! 1) \<in> set tier_names);
     header = to_lower (or_empty (hr_userTier q));
     tier = (if tierOnly \<or> 3 \<le> length parts then to_lower (parts ! 1) else if header \<noteq> [] then header else ''free'');
     scopes = (if length parts = 2 \<and> \<not> tierOnly then js_split (CHR '','') (parts ! 1)
       else if 3 \<le> length parts then js_split (CHR '','') (parts ! 2) else [])
   in if \<not> timingSafeCompare (hd parts) adminKey then Denied 401 ''UNAUTHORIZED''
      else if length parts = 1 \<or> tierOnly then Authorized None [''*''] tier
      else check_scopes None scopes tier required)"

definition requireAuth :: "crypto \<Rightarrow> (string \<Rightarrow> nat) \<Rightarrow> auth_config \<Rightarrow> http_request \<Rightarrow> string list \<Rightarrow> int \<Rightarrow> auth_services
    \<Rightarrow> auth_outcome \<times> auth_services" where
  "requireAuth C isIP cfg q required now s =
     (if isAdminRequest q required
        \<and> \<not> isAdminIpAllowed isIP (ah_adminIpAllowlistRequired cfg) (ah_adminIpAllowlist cfg) (ah_trustProxy cfg) (hr_forwardedFor q) (hr_peer q)
      then (if ah_adminIpAllowlist cfg = [] \<and> ah_adminIpAllowlistRequired cfg
        then Denied 503 ''ADMIN_IP_ALLOWLIST_NOT_CONFIGURED'' else Denied 403 ''ADMIN_IP_NOT_ALLOWED'', s)
      else let tok = request_token q in
      if tok = [] then (Denied 401 ''UNAUTHORIZED'', s)
      else case validateKey C tok now (as_keys s) of
        (Some r, ks) \<Rightarrow> (check_scopes (Some (vk_id r)) (vk_scopes r) (if vk_tier r = [] then ''free'' else vk_tier r) required, s\<lparr>as_keys := ks\<rparr>)
      | (None, ks) \<Rightarrow> (case validateAccessToken C now tok (as_oauth s) of
          Some g \<Rightarrow> (check_scopes (Some (og_id g)) (if og_scopes g \<noteq> [] then og_scopes g else [''*'']) ''oauth'' required, s)
        | None \<Rightarrow> (if or_empty (ah_adminApiKey cfg) = [] then (Denied 503 ''SERVICE_UNAVAILABLE'', s)
            else (admin_key_outcome (or_empty (ah_adminApiKey cfg)) q tok required, s))))"

definition requireAdmin :: "crypto \<Rightarrow> (string \<Rightarrow> nat) \<Rightarrow> auth_config \<Rightarrow> http_request \<Rightarrow> int \<Rightarrow> auth_services \<Rightarrow> auth_outcome \<times> auth_services" where
  "requireAdmin C isIP cfg q now s = requireAuth C isIP cfg q [] now s"

section \<open>Cross-origin requests\<close>

record cors_config =
  co_allowedOrigins :: "string list"
  co_credentials :: bool
  co_exposedHeaders :: "string list"
  co_methods :: "string list"
  co_allowedHeaders :: "string list"
  co_maxAge :: int

definition getAllowedOrigin :: "string option \<Rightarrow> string list \<Rightarrow> bool \<Rightarrow> string option" where
  "getAllowedOrigin origin allowed credentials = (if allowed = [] then None
     else if ''*'' \<in> set allowed then (if \<not> credentials then Some ''*'' else origin)
     else if or_empty origin \<noteq> [] \<and> or_empty origin \<in> set allowed then origin else None)"

text \<open>The headers that are set, and whether the request is a preflight.\<close>

definition setCorsHeaders :: "string \<Rightarrow> string option \<Rightarrow> cors_config \<Rightarrow> (string \<times> string) list \<times> bool" where
  "setCorsHeaders httpMethod origin cfg = (let
     allowed = or_empty (getAllowedOrigin origin (co_allowedOrigins cfg) (co_credentials cfg));
     h1 = (if allowed = [] then [] else [(''Access-Control-Allow-Origin'', allowed)]
        @ (if co_credentials cfg \<and> allowed \<noteq> ''*'' then [(''Access-Control-Allow-Credentials'', ''true'')] else []));
     h2 = (if ''*'' \<notin> set (co_allowedOrigins cfg) \<or> co_credentials cfg then [(''Vary'', ''Origin'')] else []);
     h3 = (if co_exposedHeaders cfg = [] then [] else [(''Access-Control-Expose-Headers'', join '', '' (co_exposedHeaders cfg))])
   in if httpMethod = ''OPTIONS''
      then (h1 @ h2 @ h3 @ [(''Access-Control-Allow-Methods'', join '', '' (co_methods cfg)),
          (''Access-Control-Allow-Headers'', join '', '' (co_allowedHeaders cfg)), (''Access-Control-Max-Age'', int_to_string (co_maxAge cfg))], True)
      else (h1 @ h2 @ h3, False))"

section \<open>What authentication guarantees\<close>

lemma timingSafeCompare_iff: "timingSafeCompare supplied expected \<longleftrightarrow> supplied = expected"
  by (auto simp: timingSafeCompare_def)

lemma covers_required: "check_scopes i scopes tier required = Authorized j scopes' tier' \<Longrightarrow> hasAllScopes scopes' required \<and> scopes' = scopes \<and> j = i"
  by (cases "required = []") (auto simp: check_scopes_def hasAllScopes_def split: if_splits)

text \<open>Who vouches for the scopes: an active API key, an OAuth token, or the admin key.\<close>

definition vouched :: "crypto \<Rightarrow> auth_config \<Rightarrow> string \<Rightarrow> int \<Rightarrow> auth_services \<Rightarrow> string list \<Rightarrow> bool" where
  "vouched C cfg tok now s scopes \<longleftrightarrow>
     (case fst (validateKey C tok now (as_keys s)) of
       Some r \<Rightarrow> scopes = vk_scopes r
     | None \<Rightarrow> (case validateAccessToken C now tok (as_oauth s) of
         Some g \<Rightarrow> scopes = (if og_scopes g \<noteq> [] then og_scopes g else [''*''])
       | None \<Rightarrow> or_empty (ah_adminApiKey cfg) \<noteq> [] \<and> hd (js_split (CHR '':'') tok) = or_empty (ah_adminApiKey cfg)))"

definition address_passes :: "(string \<Rightarrow> nat) \<Rightarrow> auth_config \<Rightarrow> http_request \<Rightarrow> string list \<Rightarrow> bool" where
  "address_passes isIP cfg q required = (if isAdminRequest q required
     then isAdminIpAllowed isIP (ah_adminIpAllowlistRequired cfg) (ah_adminIpAllowlist cfg) (ah_trustProxy cfg) (hr_forwardedFor q) (hr_peer q)
     else True)"

lemma admin_key_sound:
  assumes "admin_key_outcome adminKey q tok required = Authorized i scopes tier"
  shows "hasAllScopes scopes required" "hd (js_split (CHR '':'') tok) = adminKey"
proof -
  have all: "hasAllScopes [''*''] required" by (simp add: hasAllScopes_def list_all_iff)
  show "hd (js_split (CHR '':'') tok) = adminKey"
    using assms by (auto simp: admin_key_outcome_def Let_def timingSafeCompare_iff split: if_splits)
  show "hasAllScopes scopes required"
    using assms all by (auto simp: admin_key_outcome_def Let_def split: if_splits dest!: covers_required)
qed

lemma requireAuth_passed:
  assumes "address_passes isIP cfg q required" "request_token q \<noteq> []"
  shows "requireAuth C isIP cfg q required now s = (case validateKey C (request_token q) now (as_keys s) of
        (Some r, ks) \<Rightarrow> (check_scopes (Some (vk_id r)) (vk_scopes r) (if vk_tier r = [] then ''free'' else vk_tier r) required, s\<lparr>as_keys := ks\<rparr>)
      | (None, ks) \<Rightarrow> (case validateAccessToken C now (request_token q) (as_oauth s) of
          Some g \<Rightarrow> (check_scopes (Some (og_id g)) (if og_scopes g \<noteq> [] then og_scopes g else [''*'']) ''oauth'' required, s)
        | None \<Rightarrow> (if or_empty (ah_adminApiKey cfg) = [] then (Denied 503 ''SERVICE_UNAVAILABLE'', s)
            else (admin_key_outcome (or_empty (ah_adminApiKey cfg)) q (request_token q) required, s))))"
  using assms by (auto simp: requireAuth_def address_passes_def Let_def split: if_splits)

text \<open>
  C23. Whatever \<open>requireAuth\<close> lets through is authenticated and authorized: the request carries a credential, an admin request
  comes from an allowed address, the credential vouches for the scopes the request is given, and these cover the required ones.
\<close>

theorem authorized_requests_are_vouched:
  assumes "fst (requireAuth C isIP cfg q required now s) = Authorized i scopes tier"
  shows "hasAllScopes scopes required \<and> request_token q \<noteq> [] \<and> address_passes isIP cfg q required
    \<and> vouched C cfg (request_token q) now s scopes"
proof -
  have pass: "address_passes isIP cfg q required" "request_token q \<noteq> []"
    using assms by (auto simp: requireAuth_def address_passes_def Let_def split: if_splits)
  note r = requireAuth_passed [OF this]
  have "hasAllScopes scopes required \<and> vouched C cfg (request_token q) now s scopes"
  proof (cases "validateKey C (request_token q) now (as_keys s)")
    case (Pair k ks)
    show ?thesis
    proof (cases k)
      case (Some key)
      with Pair have "validateKey C (request_token q) now (as_keys s) = (Some key, ks)" by simp
      then show ?thesis using assms unfolding r by (auto simp: vouched_def dest!: covers_required)
    next
      case None
      with Pair have v: "validateKey C (request_token q) now (as_keys s) = (None, ks)" by simp
      show ?thesis
      proof (cases "validateAccessToken C now (request_token q) (as_oauth s)")
        case (Some g)
        then show ?thesis using assms v unfolding r by (auto simp: vouched_def split: if_splits dest!: covers_required)
      next
        case None
        then show ?thesis using assms v unfolding r
          by (auto simp: vouched_def split: if_splits dest: admin_key_sound)
      qed
    qed
  qed
  with pass show ?thesis by blast
qed

definition open_config :: auth_config where
  "open_config = \<lparr>ah_adminApiKey = Some ''adm'', ah_adminIpAllowlist = [], ah_adminIpAllowlistRequired = False, ah_trustProxy = False\<rparr>"

definition request_with :: "string \<Rightarrow> http_request" where
  "request_with tok = \<lparr>hr_pathname = ''/credentials'', hr_apiKey = None, hr_authorization = Some (''Bearer '' @ tok), hr_userTier = None,
     hr_forwardedFor = None, hr_peer = ''''\<rparr>"

definition demo_auth :: auth_services where
  "demo_auth = \<lparr>as_keys = new_ApiKeyService, as_oauth = oauth_run oauth_crypto oauth_ttls demo_history\<rparr>"

theorem authorized_requests_are_vouched_witness:
  "vouched oauth_crypto open_config ''a1'' 30 demo_auth [''admin:read'', ''metrics:read'']"
proof -
  have "fst (requireAuth oauth_crypto example_isIP open_config (request_with ''a1'') [''metrics:read''] 30 demo_auth)
      = Authorized (Some ''c'') [''admin:read'', ''metrics:read''] ''oauth''" by code_simp
  moreover have "request_token (request_with ''a1'') = ''a1''" by code_simp
  ultimately show ?thesis using authorized_requests_are_vouched by fastforce
qed

section \<open>A blank scope\<close>

lemma refreshed_blank: "refreshed_scope (Some '' '') old = Inr []"
proof -
  have "parseScope (Some '' '') = []" by code_simp
  then show ?thesis by (simp add: refreshed_scope_def or_empty_def truthy_find_def join_def)
qed

text \<open>
  C24. Any OAuth client makes itself an administrator: it refreshes its token asking for a blank scope. The blank widens nothing, so
  the refresh succeeds and gives a token without scopes, and a token without scopes authenticates as one with the wildcard:
  it is let through whatever scopes an endpoint requires.
\<close>

theorem blank_refresh_gives_every_scope:
  assumes "requireClient C (tq_clientId rq) (tq_clientSecret rq) oa = Inr c" and "refresh_check C t1 rq oa = Inr r"
    and "tq_scope rq = Some '' ''" and "now \<le> t2 + oc_accessTokenTtlMs ttls"
    and "request_token q = atk" and "atk \<noteq> ''''" and "jm_get (vs_byHash ks) (server_hashApiKey C atk) = None"
    and "address_passes isIP cfg q required"
  shows "fst (requireAuth C isIP cfg q required now \<lparr>as_keys = ks, as_oauth = snd (exchangeRefreshToken C ttls atk rtk t1 t2 rq oa)\<rparr>)
    = Authorized (tq_clientId rq) [''*''] ''oauth''"
proof -
  have cid: "tq_clientId rq = Some (tk_clientId r)" using assms(2) by (auto simp: refresh_check_def split: option.splits if_splits)
  have "validateAccessToken C now atk (snd (exchangeRefreshToken C ttls atk rtk t1 t2 rq oa))
      = Some \<lparr>og_id = tk_clientId r, og_scopes = [], og_subject = tk_subject r\<rparr>"
    using assms(1-4,6) cid
    by (simp add: exchangeRefreshToken_def issueTokenPair_def refreshed_blank validateAccessToken_def new_token_def parseScope_def or_empty_def)
  moreover have "validateKey C atk now ks = (None, ks)" using assms(6,7) by (simp add: validateKey_def)
  moreover have "check_scopes i [''*''] tier required = Authorized i [''*''] tier" for i tier
    by (simp add: check_scopes_def hasAllScopes_def list_all_iff)
  ultimately show ?thesis
    using assms(5,6) cid requireAuth_passed [OF assms(8)] by simp
qed

theorem blank_refresh_gives_every_scope_witness:
  "fst (requireAuth oauth_crypto example_isIP open_config (request_with ''a2'') [''admin:write''] 50 \<lparr>as_keys = new_ApiKeyService,
      as_oauth = snd (exchangeRefreshToken oauth_crypto oauth_ttls ''a2'' ''r2'' 40 40 (demo_request\<lparr>tq_scope := Some '' ''\<rparr>)
        (oauth_run oauth_crypto oauth_ttls demo_history))\<rparr>) = Authorized (Some ''c'') [''*''] ''oauth''"
proof -
  let ?rq = "demo_request\<lparr>tq_scope := Some '' ''\<rparr>" and ?oa = "oauth_run oauth_crypto oauth_ttls demo_history"
  have "\<not> isl (requireClient oauth_crypto (tq_clientId ?rq) (tq_clientSecret ?rq) ?oa)"
    "\<not> isl (refresh_check oauth_crypto 40 ?rq ?oa)" by code_simp+
  then obtain c r where ok: "requireClient oauth_crypto (tq_clientId ?rq) (tq_clientSecret ?rq) ?oa = Inr c"
    "refresh_check oauth_crypto 40 ?rq ?oa = Inr r" unfolding isl_def by (metis sumE)
  have t: "request_token (request_with ''a2'') = ''a2''" by code_simp
  have "address_passes example_isIP open_config (request_with ''a2'') [''admin:write'']" by code_simp
  with ok t blank_refresh_gives_every_scope [of oauth_crypto ?rq ?oa c 40 r 50 40 oauth_ttls "request_with ''a2''" "''a2''" new_ApiKeyService]
  show ?thesis by (simp add: oauth_ttls_def new_ApiKeyService_def demo_request_def)
qed

section \<open>What the CORS headers allow\<close>

text \<open>
  A page may read answers with the user's credentials only if its origin is configured, or if the wildcard is: then every origin
  is answered by name, credentials included.
\<close>

theorem credentialed_cors:
  assumes "(''Access-Control-Allow-Credentials'', ''true'') \<in> set (fst (setCorsHeaders httpMethod origin cfg))"
  shows "(''Access-Control-Allow-Origin'', or_empty origin) \<in> set (fst (setCorsHeaders httpMethod origin cfg))
    \<and> co_credentials cfg \<and> (or_empty origin \<in> set (co_allowedOrigins cfg) \<or> ''*'' \<in> set (co_allowedOrigins cfg))"
  using assms by (auto simp: setCorsHeaders_def getAllowedOrigin_def Let_def or_empty_def split: if_splits option.splits)

theorem credentialed_cors_witness:
  "(''Access-Control-Allow-Origin'', ''https://evil.example'') \<in> set (fst (setCorsHeaders ''GET'' (Some ''https://evil.example'')
    \<lparr>co_allowedOrigins = [''*''], co_credentials = True, co_exposedHeaders = [], co_methods = [], co_allowedHeaders = [], co_maxAge = 0\<rparr>))"
proof -
  let ?cfg = "\<lparr>co_allowedOrigins = [''*''], co_credentials = True, co_exposedHeaders = [], co_methods = [], co_allowedHeaders = [], co_maxAge = 0\<rparr>"
  have "(''Access-Control-Allow-Credentials'', ''true'') \<in> set (fst (setCorsHeaders ''GET'' (Some ''https://evil.example'') ?cfg))" by code_simp
  from credentialed_cors [OF this] show ?thesis by (simp add: or_empty_def)
qed

end
