(* ===== verification/TieredLimiter.thy ===== *)
theory TieredLimiter
  imports IpAllow
begin

unbundle bit_operations_syntax

text \<open>
  Models \<open>server/src/rate-limiter.js\<close>: the limiter of the server, with a budget per tier and one per endpoint, tenants, and a
  whitelist of addresses. The tenant registry is a parameter; the clock is an argument. Times and limits are whole numbers.

  The lookup of a tier by name is in an object: names of members of \<open>Object.prototype\<close>, which JavaScript finds there too, are
  left out.
\<close>

section \<open>Tiers, rules and the whitelist\<close>

record rate_tier =
  rt_name :: string
  rt_windowMs :: int
  rt_readLimit :: int
  rt_writeLimit :: int
  rt_maxRequests :: int

definition RATE_LIMIT_TIERS :: "(string, rate_tier) jsmap" where
  "RATE_LIMIT_TIERS =
     [(''free'', \<lparr>rt_name = ''free'', rt_windowMs = 60 * 1000, rt_readLimit = 60, rt_writeLimit = 20, rt_maxRequests = 60\<rparr>),
      (''pro'', \<lparr>rt_name = ''pro'', rt_windowMs = 60 * 1000, rt_readLimit = 300, rt_writeLimit = 100, rt_maxRequests = 300\<rparr>),
      (''enterprise'', \<lparr>rt_name = ''enterprise'', rt_windowMs = 60 * 1000, rt_readLimit = 1200, rt_writeLimit = 500, rt_maxRequests = 1200\<rparr>)]"

record endpoint_rule =
  er_name :: string
  er_method :: "string option"
  er_matches :: "string \<Rightarrow> bool"
  er_windowMs :: int
  er_limit :: int

text \<open>\<open>/^\/credentials(\/issue)?$/\<close>, \<open>/^\/credentials\/[^/]+\/revoke$/\<close> and \<open>/^\//\<close>\<close>

definition revoke_path :: "string \<Rightarrow> bool" where
  "revoke_path p = (let r = drop 13 p; i = takeWhile (\<lambda>c. c \<noteq> CHR ''/'') r in
     take 13 p = ''/credentials/'' \<and> i \<noteq> [] \<and> drop (length i) r = ''/revoke'')"

definition ENDPOINT_RULES :: "endpoint_rule list" where
  "ENDPOINT_RULES =
     [\<lparr>er_name = ''credential_issuance'', er_method = Some ''POST'', er_matches = (\<lambda>p. p = ''/credentials'' \<or> p = ''/credentials/issue''),
        er_windowMs = 15 * 60 * 1000, er_limit = 10\<rparr>,
      \<lparr>er_name = ''credential_revocation'', er_method = Some ''POST'', er_matches = revoke_path, er_windowMs = 15 * 60 * 1000, er_limit = 20\<rparr>,
      \<lparr>er_name = ''general'', er_method = None, er_matches = (\<lambda>p. take 1 p = ''/''), er_windowMs = 15 * 60 * 1000, er_limit = 100\<rparr>]"

definition matchEndpointRule :: "string \<Rightarrow> string \<Rightarrow> endpoint_rule list \<Rightarrow> endpoint_rule option" where
  "matchEndpointRule httpMethod pathname rules =
     find (\<lambda>rule. (er_method rule = None \<or> er_method rule = Some (to_upper httpMethod)) \<and> er_matches rule pathname) rules"

text \<open>\<open>toInt\<close>: four octets, each read by \<open>parseInt\<close>\<close>

definition read_octet :: "string \<Rightarrow> int option" where
  "read_octet s = (case parse_int s of Some n \<Rightarrow> if n < 0 \<or> 255 < n then None else Some n | None \<Rightarrow> None)"

definition toInt :: "string \<Rightarrow> int option" where
  "toInt s = (case map read_octet (js_split (CHR ''.'') s) of
     [Some a, Some b, Some c, Some d] \<Rightarrow> Some (((a * 256 + b) * 256 + c) * 256 + d)
   | _ \<Rightarrow> None)"

text \<open>The bits are masked in 32-bit words: \<open>(-1 << (32 - bits)) >>> 0\<close>.\<close>

definition same_network :: "nat \<Rightarrow> int \<Rightarrow> int \<Rightarrow> bool" where
  "same_network n x y = (let mask = (if n = 0 then 0 else push_bit (32 - n) (-1 :: 32 word)) in
     (word_of_int x :: 32 word) AND mask = word_of_int y AND mask)"

definition entry_matches :: "string \<Rightarrow> string \<Rightarrow> bool" where
  "entry_matches addr entry = (if CHR ''/'' \<notin> set entry then entry = addr
     else (case js_split (CHR ''/'') entry of
       network # bitsRaw # _ \<Rightarrow> (case parse_int bitsRaw of None \<Rightarrow> False | Some n \<Rightarrow>
          if n < 0 \<or> 32 < n then False
          else (case (toInt addr, toInt network) of (Some x, Some y) \<Rightarrow> same_network (nat n) x y | _ \<Rightarrow> False))
     | _ \<Rightarrow> False))"

definition isWhitelisted :: "string \<Rightarrow> string list \<Rightarrow> bool" where
  "isWhitelisted addr whitelist = (addr \<noteq> [] \<and> list_ex (entry_matches addr) whitelist)"

section \<open>Requests\<close>

text \<open>\<open>lr_tenants\<close>: the candidates before the header, in their order; a missing property is \<open>None\<close>.\<close>

record limited_request =
  lr_method :: string
  lr_userTier :: "string option"
  lr_tierHeader :: "string option"
  lr_authTier :: "string option"
  lr_tenants :: "string option list"
  lr_tenantHeader :: "string option"
  lr_apiKeyId :: "string option"
  lr_authKeyId :: "string option"
  lr_forwardedFor :: "string option"
  lr_remoteAddress :: "string option"

record tenant_limits =
  tl_windowMs :: "int option"
  tl_readLimit :: "int option"
  tl_writeLimit :: "int option"
  tl_maxRequests :: "int option"

record limiter_config =
  lc_tiers :: "(string, rate_tier) jsmap"
  lc_endpointRules :: "endpoint_rule list"
  lc_whitelist :: "string list"
  lc_trustProxy :: bool
  lc_maxBuckets :: nat
  lc_getTenant :: "string \<Rightarrow> tenant_limits option"

record rate_state =
  rs_count :: int
  rs_resetTime :: int
  rs_limit :: int
  rs_tier :: string
  rs_tenantId :: "string option"

record tiered_limiter =
  lm_clients :: "(string, rate_state) jsmap"
  lm_violations :: nat

definition new_tiered_limiter :: tiered_limiter where
  "new_tiered_limiter = \<lparr>lm_clients = [], lm_violations = 0\<rparr>"

definition given :: "string option \<Rightarrow> string" where
  "given x = (case x of Some s \<Rightarrow> s | None \<Rightarrow> [])"

definition resolveTenantId :: "limited_request \<Rightarrow> string option" where
  "resolveTenantId q = map_option js_trim (find (\<lambda>s. js_trim s \<noteq> []) (map given (lr_tenants q @ [lr_tenantHeader q])))"

definition named_tier :: "limiter_config \<Rightarrow> string option \<Rightarrow> string option" where
  "named_tier cfg t = (if given t \<noteq> [] \<and> jm_has (lc_tiers cfg) (to_lower (given t)) then Some (to_lower (given t)) else None)"

definition request_tier :: "limiter_config \<Rightarrow> limited_request \<Rightarrow> string" where
  "request_tier cfg q = (case named_tier cfg (lr_userTier q) of Some t \<Rightarrow> t | None \<Rightarrow>
     (case named_tier cfg (lr_tierHeader q) of Some t \<Rightarrow> t | None \<Rightarrow>
       (case named_tier cfg (lr_authTier q) of Some t \<Rightarrow> t | None \<Rightarrow> ''free'')))"

definition first_hop :: "string \<Rightarrow> string" where
  "first_hop f = js_trim (hd (js_split (CHR '','') f))"

definition request_client_key :: "limited_request \<Rightarrow> string" where
  "request_client_key q = (if given (lr_apiKeyId q) \<noteq> [] then ''key:'' @ given (lr_apiKeyId q)
     else if given (lr_authKeyId q) \<noteq> [] then ''key:'' @ given (lr_authKeyId q)
     else ''ip:'' @ (if given (lr_forwardedFor q) \<noteq> [] then first_hop (given (lr_forwardedFor q))
       else if given (lr_remoteAddress q) \<noteq> [] then given (lr_remoteAddress q) else ''unknown''))"

definition resolveIp :: "limiter_config \<Rightarrow> limited_request \<Rightarrow> string" where
  "resolveIp cfg q = (let f = given (lr_forwardedFor q) in
     if lc_trustProxy cfg \<and> f \<noteq> [] \<and> first_hop f \<noteq> [] then first_hop f
     else case lr_remoteAddress q of Some a \<Rightarrow> a | None \<Rightarrow> ''unknown'')"

definition is_write :: "limited_request \<Rightarrow> bool" where
  "is_write q = (lr_method q \<noteq> [] \<and> to_upper (lr_method q) \<notin> {''GET'', ''HEAD'', ''OPTIONS''})"

text \<open>The window and the limit that apply: an override of the tenant, if it is valid, or the tier's.\<close>

definition override :: "(int \<Rightarrow> bool) \<Rightarrow> int option \<Rightarrow> int \<Rightarrow> int" where
  "override ok x plain = (case x of Some n \<Rightarrow> if ok n then n else plain | None \<Rightarrow> plain)"

definition request_limits :: "limiter_config \<Rightarrow> limited_request \<Rightarrow> rate_tier \<Rightarrow> rate_tier" where
  "request_limits cfg q tier = (case Option.bind (resolveTenantId q) (lc_getTenant cfg) of
     None \<Rightarrow> tier
   | Some o' \<Rightarrow> tier\<lparr>rt_windowMs := override (\<lambda>n. 0 < n) (tl_windowMs o') (rt_windowMs tier),
       rt_readLimit := override (\<lambda>n. 0 \<le> n) (tl_readLimit o') (rt_readLimit tier),
       rt_writeLimit := override (\<lambda>n. 0 \<le> n) (tl_writeLimit o') (rt_writeLimit tier),
       rt_maxRequests := override (\<lambda>n. 0 \<le> n) (tl_maxRequests o') (rt_maxRequests tier)\<rparr>)"

section \<open>The limiter\<close>

datatype budget = Allowed (bg_limit: int) (bg_remaining: int) (bg_resetAt: int)
  | Exceeded (bg_limit: int) (bg_remaining: int) (bg_resetAt: int) (bg_retryAfter: int)
  | NoRule

definition evict_buckets :: "int \<Rightarrow> (string, rate_state) jsmap \<Rightarrow> (string, rate_state) jsmap" where
  "evict_buckets now m = filter (\<lambda>(_, b). \<not> rs_resetTime b \<le> now) m"

text \<open>\<open>Math.ceil(n / 1000)\<close>\<close>

definition ceil_seconds :: "int \<Rightarrow> int" where
  "ceil_seconds n = \<lceil>of_int n / (1000 :: rat)\<rceil>"

definition budget_of :: "rate_state \<Rightarrow> int \<Rightarrow> int \<Rightarrow> budget" where
  "budget_of b limit now = (if rs_count b \<le> limit then Allowed limit (max 0 (limit - rs_count b)) (ceil_seconds (rs_resetTime b))
     else Exceeded limit (max 0 (limit - rs_count b)) (ceil_seconds (rs_resetTime b)) (max 1 (ceil_seconds (rs_resetTime b - now))))"

definition tenant_key :: "string option \<Rightarrow> string" where
  "tenant_key t = (case t of Some i \<Rightarrow> ''tenant:'' @ i | None \<Rightarrow> ''tenant:none'')"

definition endpoint_key :: "limited_request \<Rightarrow> endpoint_rule \<Rightarrow> string" where
  "endpoint_key q rule = tenant_key (resolveTenantId q) @ '':'' @ request_client_key q @ '':endpoint:'' @ er_name rule"

definition consumeEndpoint :: "limiter_config \<Rightarrow> int \<Rightarrow> limited_request \<Rightarrow> string \<Rightarrow> tiered_limiter \<Rightarrow> budget \<times> tiered_limiter" where
  "consumeEndpoint cfg now q pathname s = (case matchEndpointRule (lr_method q) pathname (lc_endpointRules cfg) of
     None \<Rightarrow> (NoRule, s)
   | Some rule \<Rightarrow> (let k = endpoint_key q rule;
       b = (case jm_get (lm_clients s) k of
           Some b \<Rightarrow> if rs_resetTime b \<le> now then \<lparr>rs_count = 0, rs_resetTime = now + er_windowMs rule, rs_limit = er_limit rule, rs_tier = er_name rule, rs_tenantId = None\<rparr> else b
         | None \<Rightarrow> \<lparr>rs_count = 0, rs_resetTime = now + er_windowMs rule, rs_limit = er_limit rule, rs_tier = er_name rule, rs_tenantId = None\<rparr>);
       b' = b\<lparr>rs_count := rs_count b + 1\<rparr>
     in (budget_of b' (er_limit rule) now, s\<lparr>lm_clients := jm_set k b' (lm_clients s)\<rparr>)))"

definition tier_of :: "limiter_config \<Rightarrow> limited_request \<Rightarrow> rate_tier" where
  "tier_of cfg q = (case jm_get (lc_tiers cfg) (request_tier cfg q) of Some t \<Rightarrow> t | None \<Rightarrow> the (jm_get (lc_tiers cfg) ''free''))"

definition request_limit :: "limiter_config \<Rightarrow> limited_request \<Rightarrow> int" where
  "request_limit cfg q = (let l = request_limits cfg q (tier_of cfg q) in if is_write q then rt_writeLimit l else rt_readLimit l)"

definition request_window :: "limiter_config \<Rightarrow> limited_request \<Rightarrow> int" where
  "request_window cfg q = rt_windowMs (request_limits cfg q (tier_of cfg q))"

definition tier_bucket_key :: "limiter_config \<Rightarrow> limited_request \<Rightarrow> string" where
  "tier_bucket_key cfg q = tenant_key (resolveTenantId q) @ '':'' @ request_client_key q @ '':'' @ request_tier cfg q @ '':''
     @ (if is_write q then ''write'' else ''read'')"

definition tier_consume :: "limiter_config \<Rightarrow> int \<Rightarrow> limited_request \<Rightarrow> tiered_limiter \<Rightarrow> budget \<times> tiered_limiter" where
  "tier_consume cfg now q s = (let limit = request_limit cfg q; k = tier_bucket_key cfg q;
     live = (case jm_get (lm_clients s) k of Some b \<Rightarrow> \<not> rs_resetTime b \<le> now | None \<Rightarrow> False) in
     if \<not> live then
       (let m = (if lc_maxBuckets cfg \<le> length (lm_clients s) then evict_buckets now (lm_clients s) else lm_clients s);
          b = \<lparr>rs_count = 1, rs_resetTime = now + request_window cfg q, rs_limit = limit, rs_tier = request_tier cfg q, rs_tenantId = resolveTenantId q\<rparr>
        in (Allowed limit (max 0 (limit - 1)) (ceil_seconds (rs_resetTime b)), s\<lparr>lm_clients := jm_set k b m\<rparr>))
     else (let b = the (jm_get (lm_clients s) k); b' = b\<lparr>rs_count := rs_count b + 1\<rparr>
        in (budget_of b' limit now, s\<lparr>lm_clients := jm_set k b' (lm_clients s)\<rparr>)))"

datatype limit_verdict = Whitelisted string | Limited string budget | Passed_limits budget budget

definition is_exceeded :: "budget \<Rightarrow> bool" where
  "is_exceeded b = (case b of Exceeded _ _ _ _ \<Rightarrow> True | _ \<Rightarrow> False)"

definition limiter_check :: "limiter_config \<Rightarrow> int \<Rightarrow> limited_request \<Rightarrow> string \<Rightarrow> tiered_limiter \<Rightarrow> limit_verdict \<times> tiered_limiter" where
  "limiter_check cfg now q pathname s = (let addr = resolveIp cfg q in
     if isWhitelisted addr (lc_whitelist cfg) then (Whitelisted addr, s)
     else case consumeEndpoint cfg now q pathname s of (e, s1) \<Rightarrow>
       if is_exceeded e then (Limited ''endpoint'' e, s1\<lparr>lm_violations := lm_violations s1 + 1\<rparr>)
       else (case tier_consume cfg now q s1 of (t, s2) \<Rightarrow>
         if is_exceeded t then (Limited ''tier'' t, s2\<lparr>lm_violations := lm_violations s2 + 1\<rparr>)
         else (Passed_limits e t, s2)))"

section \<open>The whitelist agrees with the allowlist of the admin endpoints\<close>

lemma masked_eq:
  fixes v w :: "32 word"
  assumes "k \<le> 32"
  shows "v AND push_bit k (-1) = w AND push_bit k (-1) \<longleftrightarrow> (\<forall>i. k \<le> i \<and> i < 32 \<longrightarrow> bit v i = bit w i)"
  using assms by (auto simp: bit_eq_iff bit_and_iff bit_not_iff bit_mask_iff)

lemma same_network_iff:
  assumes "n \<le> 32" "x < 2 ^ 32" "y < 2 ^ 32"
  shows "same_network n (int x) (int y) \<longleftrightarrow> drop_bit (32 - n) x = drop_bit (32 - n) y"
proof -
  have high: "\<not> bit z i" if "z < 2 ^ 32" "32 \<le> i" for z i :: nat
  proof -
    have "z < 2 ^ i" by (rule order.strict_trans2 [OF that(1)]) (rule power_increasing [OF that(2)], simp)
    then show ?thesis by (simp add: bit_iff_odd)
  qed
  have bits: "bit (word_of_int (int z) :: 32 word) i \<longleftrightarrow> i < 32 \<and> bit z i" for z i
    by (simp only: bit_word_of_int_iff bit_of_nat_iff_bit) simp
  have "drop_bit (32 - n) x = drop_bit (32 - n) y \<longleftrightarrow> (\<forall>i. bit x (32 - n + i) = bit y (32 - n + i))"
    by (simp add: bit_eq_iff bit_drop_bit_eq)
  also have "\<dots> \<longleftrightarrow> (\<forall>i. 32 - n \<le> i \<and> i < 32 \<longrightarrow> bit x i = bit y i)"
    using high [OF assms(2)] high [OF assms(3)] by (metis le_add_diff_inverse le_add1 not_le)
  finally have d: "drop_bit (32 - n) x = drop_bit (32 - n) y \<longleftrightarrow> (\<forall>i. 32 - n \<le> i \<and> i < 32 \<longrightarrow> bit x i = bit y i)" .
  show ?thesis
  proof (cases "n = 0")
    case True
    then show ?thesis using d by (auto simp: same_network_def)
  next
    case False
    then have "same_network n (int x) (int y) \<longleftrightarrow> (\<forall>i. 32 - n \<le> i \<and> i < 32 \<longrightarrow>
        bit (word_of_int (int x) :: 32 word) i = bit (word_of_int (int y) :: 32 word) i)"
      unfolding same_network_def Let_def by (simp only: if_False masked_eq diff_le_self)
    then show ?thesis unfolding d bits by auto
  qed
qed

lemma parse_int_number: "parse_int (nat_to_string n) = Some (int n)"
  using parse_int_print [of "int n"] by (simp add: int_to_string_def)

lemma toInt_dotted:
  "a < 256 \<Longrightarrow> b < 256 \<Longrightarrow> c < 256 \<Longrightarrow> d < 256 \<Longrightarrow> toInt (dotted a b c d) = Some (int (ip_value (ipv4 a b c d)))"
  by (simp add: toInt_def split_dotted read_octet_def parse_int_number ipv4_def)

lemma ipv4_value_bound: "a < 256 \<Longrightarrow> b < 256 \<Longrightarrow> c < 256 \<Longrightarrow> d < 256 \<Longrightarrow> ip_value (ipv4 a b c d) < 2 ^ 32"
  by (simp add: ipv4_def)

text \<open>
  C34. The two address filters of the server, written separately, agree on IPv4: for an entry with a prefix the limiter's whitelist,
  which masks 32-bit words, accepts exactly the addresses the admin allowlist, which shifts big integers, accepts.
\<close>

theorem whitelist_agrees_with_allowlist:
  assumes "isIP (dotted a b c d) = 4" and "a < 256" and "b < 256" and "c < 256" and "d < 256"
    and "isIP (dotted a' b' c' d') = 4" and "a' < 256" and "b' < 256" and "c' < 256" and "d' < 256" and "n \<le> 32"
  shows "isWhitelisted (dotted a' b' c' d') [dotted a b c d @ ''/'' @ nat_to_string n]
    \<longleftrightarrow> isIpAllowed isIP (dotted a' b' c' d') [dotted a b c d @ ''/'' @ nat_to_string n]"
proof -
  let ?x = "ip_value (ipv4 a' b' c' d')" and ?y = "ip_value (ipv4 a b c d)"
  have split: "js_split (CHR ''/'') (dotted a b c d @ CHR ''/'' # nat_to_string n) = [dotted a b c d, nat_to_string n]"
    and trim: "js_trim (dotted a b c d @ CHR ''/'' # nat_to_string n) = dotted a b c d @ CHR ''/'' # nat_to_string n"
    using range_entry [of "nat_to_string n" a b c d] number_ends(2) by (simp_all add: js_split_absent)
  have "isWhitelisted (dotted a' b' c' d') [dotted a b c d @ ''/'' @ nat_to_string n] \<longleftrightarrow> same_network n (int ?x) (int ?y)"
  proof -
    have "toInt (dotted a b c d) = Some (int ?y)" "toInt (dotted a' b' c' d') = Some (int ?x)"
      using toInt_dotted assms(2-5,7-10) by blast+
    with assms(11) have "entry_matches (dotted a' b' c' d') (dotted a b c d @ CHR ''/'' # nat_to_string n) = same_network n (int ?x) (int ?y)"
      unfolding entry_matches_def split by (simp add: parse_int_number del: of_nat_numeral)
    then show ?thesis using dotted_ends(1) [of a' b' c' d'] by (simp add: isWhitelisted_def)
  qed
  also have "\<dots> \<longleftrightarrow> drop_bit (32 - n) ?x = drop_bit (32 - n) ?y"
    by (intro same_network_iff ipv4_value_bound assms)
  also have "\<dots> \<longleftrightarrow> isIpAllowed isIP (dotted a' b' c' d') [dotted a b c d @ ''/'' @ nat_to_string n]"
  proof -
    have "parseRange isIP (dotted a b c d @ CHR ''/'' # nat_to_string n) = Some (ipv4 a b c d, n)"
      using parse_dotted [of isIP a b c d] assms(1-5,11) split
      by (simp add: parseRange_def js_number_print js_is_integer_def ipv4_def)
    then show ?thesis
      using parse_dotted [of isIP a' b' c' d'] assms(6-10) trim by (simp add: isIpAllowed_def matchesRange_def) (simp add: ipv4_def)
  qed
  finally show ?thesis .
qed

theorem whitelist_agrees_with_allowlist_witness:
  "isWhitelisted (dotted 10 1 2 3) [dotted 10 1 0 0 @ ''/'' @ nat_to_string 16]
    \<longleftrightarrow> isIpAllowed example_isIP (dotted 10 1 2 3) [dotted 10 1 0 0 @ ''/'' @ nat_to_string 16]"
  by (rule whitelist_agrees_with_allowlist) (simp_all add: example_isIP_values)

section \<open>One window\<close>

primrec tier_run :: "limiter_config \<Rightarrow> (int \<times> limited_request) list \<Rightarrow> tiered_limiter \<Rightarrow> budget list \<times> tiered_limiter" where
  "tier_run cfg [] s = ([], s)"
| "tier_run cfg (e # es) s = (case tier_consume cfg (fst e) (snd e) s of (b, s') \<Rightarrow>
     (case tier_run cfg es s' of (bs, s'') \<Rightarrow> (b # bs, s'')))"

definition passed_for :: "limiter_config \<Rightarrow> string \<Rightarrow> (int \<times> limited_request) list \<Rightarrow> budget list \<Rightarrow> nat" where
  "passed_for cfg k es bs = length (filter (\<lambda>(e, b). tier_bucket_key cfg (snd e) = k \<and> \<not> is_exceeded b) (zip es bs))"

definition requests_for :: "limiter_config \<Rightarrow> string \<Rightarrow> (int \<times> limited_request) list \<Rightarrow> nat" where
  "requests_for cfg k es = length (filter (\<lambda>e. tier_bucket_key cfg (snd e) = k) es)"

definition live :: "string \<Rightarrow> int \<Rightarrow> tiered_limiter \<Rightarrow> bool" where
  "live k now s \<longleftrightarrow> (case jm_get (lm_clients s) k of Some b \<Rightarrow> now < rs_resetTime b | None \<Rightarrow> False)"

text \<open>The requests of one key within one window, the others of whatever key within it.\<close>

definition in_window :: "limiter_config \<Rightarrow> string \<Rightarrow> int \<Rightarrow> int \<Rightarrow> int \<Rightarrow> int \<times> limited_request \<Rightarrow> bool" where
  "in_window cfg k t W L e \<longleftrightarrow> t \<le> fst e \<and> fst e < t + W
     \<and> (if tier_bucket_key cfg (snd e) = k then request_window cfg (snd e) = W \<and> request_limit cfg (snd e) = L else True)"

definition limiter_wf :: "tiered_limiter \<Rightarrow> bool" where
  "limiter_wf s = jm_wf (lm_clients s)"

lemma evict_wf: "jm_wf m \<Longrightarrow> jm_wf (evict_buckets now m)"
  by (simp add: evict_buckets_def jm_wf_filter)

lemma tier_consume_wf: "limiter_wf s \<Longrightarrow> limiter_wf (snd (tier_consume cfg now q s))"
  by (simp add: limiter_wf_def tier_consume_def Let_def evict_wf)

lemma evict_get: "jm_wf m \<Longrightarrow> jm_get (evict_buckets now m) k =
    (case jm_get m k of Some b \<Rightarrow> if now < rs_resetTime b then Some b else None | None \<Rightarrow> None)"
  by (auto simp: evict_buckets_def jm_get_filter split: option.splits)

lemma other_key:
  assumes "limiter_wf s" "tier_bucket_key cfg q \<noteq> k"
  shows "jm_get (lm_clients (snd (tier_consume cfg now q s))) k = jm_get (lm_clients s) k
    \<or> (jm_get (lm_clients (snd (tier_consume cfg now q s))) k = None \<and> \<not> live k now s)"
  using assms by (auto simp: tier_consume_def Let_def evict_get limiter_wf_def live_def split: option.splits)

lemma live_bucket_counts:
  assumes "limiter_wf s" "jm_get (lm_clients s) k = Some b" "t + W \<le> rs_resetTime b" "1 \<le> rs_count b"
    "list_all (in_window cfg k t W L) es"
  shows "passed_for cfg k es (fst (tier_run cfg es s)) = min (requests_for cfg k es) (nat (L - rs_count b))"
  using assms
proof (induction es arbitrary: s b)
  case (Cons e es)
  let ?s = "snd (tier_consume cfg (fst e) (snd e) s)"
  have wf: "limiter_wf ?s" using tier_consume_wf Cons.prems(1) by blast
  have now: "fst e < rs_resetTime b" using Cons.prems(3,5) by (simp add: in_window_def)
  show ?case
  proof (cases "tier_bucket_key cfg (snd e) = k")
    case True
    then have L: "request_limit cfg (snd e) = L" using Cons.prems(5) by (simp add: in_window_def)
    have b: "jm_get (lm_clients ?s) k = Some (b\<lparr>rs_count := rs_count b + 1\<rparr>)"
      using True Cons.prems(2) now by (simp add: tier_consume_def Let_def)
    have v: "is_exceeded (fst (tier_consume cfg (fst e) (snd e) s)) \<longleftrightarrow> L < rs_count b + 1"
      using True Cons.prems(2) now L by (simp add: tier_consume_def Let_def budget_of_def is_exceeded_def)
    have "passed_for cfg k es (fst (tier_run cfg es ?s)) = min (requests_for cfg k es) (nat (L - (rs_count b + 1)))"
      using Cons.IH [OF wf b] Cons.prems(3-5) by simp
    then show ?thesis using True v
      by (auto simp: passed_for_def requests_for_def split: prod.splits)
  next
    case False
    have "live k (fst e) s" using Cons.prems(2) now by (simp add: live_def)
    then have b: "jm_get (lm_clients ?s) k = Some b" using other_key [OF Cons.prems(1) False, of "fst e"] Cons.prems(2) by auto
    have "passed_for cfg k es (fst (tier_run cfg es ?s)) = min (requests_for cfg k es) (nat (L - rs_count b))"
      using Cons.IH [OF wf b] Cons.prems(3-5) by simp
    then show ?thesis using False by (auto simp: passed_for_def requests_for_def split: prod.splits)
  qed
qed (simp add: passed_for_def requests_for_def)

lemma not_live_later: "\<not> live k t s \<Longrightarrow> t \<le> t' \<Longrightarrow> \<not> live k t' s"
  by (auto simp: live_def split: option.splits)

lemma window_counts:
  assumes "limiter_wf s" "\<not> live k t s" "list_all (in_window cfg k t W L) es"
  shows "passed_for cfg k es (fst (tier_run cfg es s)) = min (requests_for cfg k es) (nat (max 1 L))"
  using assms
proof (induction es arbitrary: s)
  case (Cons e es)
  let ?s = "snd (tier_consume cfg (fst e) (snd e) s)"
  have wf: "limiter_wf ?s" using tier_consume_wf Cons.prems(1) by blast
  have dead: "\<not> live k (fst e) s" using not_live_later [OF Cons.prems(2)] Cons.prems(3) by (simp add: in_window_def)
  show ?case
  proof (cases "tier_bucket_key cfg (snd e) = k")
    case True
    have W: "request_window cfg (snd e) = W" "t \<le> fst e" using True Cons.prems(3) by (simp_all add: in_window_def)
    obtain b where b: "jm_get (lm_clients ?s) k = Some b" "rs_count b = 1" "rs_resetTime b = fst e + W"
      and v: "\<not> is_exceeded (fst (tier_consume cfg (fst e) (snd e) s))"
      using True dead W by (auto simp: tier_consume_def Let_def live_def is_exceeded_def not_le split: option.splits)
    have "passed_for cfg k es (fst (tier_run cfg es ?s)) = min (requests_for cfg k es) (nat (L - 1))"
      using live_bucket_counts [OF wf b(1), of t W cfg L es] b W Cons.prems(3) by simp
    then show ?thesis using True v by (auto simp: passed_for_def requests_for_def split: prod.splits)
  next
    case False
    have "\<not> live k t ?s" using other_key [OF Cons.prems(1) False, of "fst e"] Cons.prems(2) by (auto simp: live_def)
    then have "passed_for cfg k es (fst (tier_run cfg es ?s)) = min (requests_for cfg k es) (nat (max 1 L))"
      using Cons.IH [OF wf] Cons.prems(3) by simp
    then show ?thesis using False by (auto simp: passed_for_def requests_for_def split: prod.splits)
  qed
qed (simp add: passed_for_def requests_for_def)

text \<open>
  C32. The tier budget of a client holds exactly: among any requests of any clients within one window, those that fall into one
  bucket pass until the limit is reached, and no further one does. A limit of 0 still lets the first one pass.
\<close>

theorem window_budget_exact:
  assumes "limiter_wf s" and "\<not> live k t s" and "list_all (in_window cfg k t W L) es"
  shows "passed_for cfg k es (fst (tier_run cfg es s)) = min (requests_for cfg k es) (nat (max 1 L))"
  using window_counts [OF assms] .

definition small_config :: limiter_config where
  "small_config = \<lparr>lc_tiers = [(''free'', \<lparr>rt_name = ''free'', rt_windowMs = 1000, rt_readLimit = 1, rt_writeLimit = 1, rt_maxRequests = 1\<rparr>)],
     lc_endpointRules = ENDPOINT_RULES, lc_whitelist = [], lc_trustProxy = False, lc_maxBuckets = 1, lc_getTenant = (\<lambda>i. None)\<rparr>"

definition anonymous :: "string option \<Rightarrow> limited_request" where
  "anonymous tenant = \<lparr>lr_method = ''POST'', lr_userTier = None, lr_tierHeader = None, lr_authTier = None, lr_tenants = [],
     lr_tenantHeader = tenant, lr_apiKeyId = None, lr_authKeyId = None, lr_forwardedFor = None, lr_remoteAddress = Some ''p''\<rparr>"

theorem window_budget_exact_witness:
  "passed_for small_config ''tenant:none:ip:p:free:write'' [(5, anonymous None), (7, anonymous None)]
     (fst (tier_run small_config [(5, anonymous None), (7, anonymous None)] new_tiered_limiter)) = 1"
proof -
  have "limiter_wf new_tiered_limiter" "\<not> live ''tenant:none:ip:p:free:write'' 5 new_tiered_limiter" by code_simp+
  moreover have "list_all (in_window small_config ''tenant:none:ip:p:free:write'' 5 1000 1) [(5, anonymous None), (7, anonymous None)]" by code_simp
  moreover have "requests_for small_config ''tenant:none:ip:p:free:write'' [(5, anonymous None), (7, anonymous None)] = 2" by code_simp
  ultimately show ?thesis
    using window_budget_exact [of new_tiered_limiter "''tenant:none:ip:p:free:write''" 5 small_config 1000 1 "[(5, anonymous None), (7, anonymous None)]"]
    by simp
qed

section \<open>Budgets that headers choose\<close>

primrec check_run :: "limiter_config \<Rightarrow> (int \<times> limited_request \<times> string) list \<Rightarrow> tiered_limiter \<Rightarrow> limit_verdict list \<times> tiered_limiter" where
  "check_run cfg [] s = ([], s)"
| "check_run cfg (e # es) s = (case limiter_check cfg (fst e) (fst (snd e)) (snd (snd e)) s of (v, s') \<Rightarrow>
     (case check_run cfg es s' of (vs, s'') \<Rightarrow> (v # vs, s'')))"

definition is_limited :: "limit_verdict \<Rightarrow> bool" where
  "is_limited v = (case v of Limited _ _ \<Rightarrow> True | _ \<Rightarrow> False)"

text \<open>A request whose tenant is the one its header names, a plain name.\<close>

definition names_tenant :: "string \<Rightarrow> limited_request \<Rightarrow> bool" where
  "names_tenant i q \<longleftrightarrow> lr_tenants q = [] \<and> lr_tenantHeader q = Some i \<and> i \<noteq> [] \<and> js_trim i = i \<and> CHR '':'' \<notin> set i"

definition owned :: "string \<Rightarrow> string \<Rightarrow> string" where
  "owned i r = ''tenant:'' @ i @ CHR '':'' # r"

definition of_tenants :: "string set \<Rightarrow> (string, rate_state) jsmap \<Rightarrow> bool" where
  "of_tenants ids m \<longleftrightarrow> (\<forall>k b. jm_get m k = Some b \<longrightarrow> (\<exists>i \<in> ids. \<exists>r. k = owned i r))"

lemma named_tenant: "names_tenant i q \<Longrightarrow> resolveTenantId q = Some i"
  by (simp add: names_tenant_def resolveTenantId_def given_def)

lemma of_tenants_set: "of_tenants ids m \<Longrightarrow> of_tenants (insert i ids) (jm_set (owned i r) b m)"
  unfolding of_tenants_def jm_get_set by (metis insertCI option.inject)

lemma of_tenants_evict: "jm_wf m \<Longrightarrow> of_tenants ids m \<Longrightarrow> of_tenants ids (evict_buckets now m)"
  unfolding of_tenants_def by (auto simp: evict_get split: option.splits if_splits)

lemma fresh_tenant:
  assumes "of_tenants ids m" "i \<notin> ids" "CHR '':'' \<notin> set i" "\<forall>j \<in> ids. CHR '':'' \<notin> set j"
  shows "jm_get m (owned i r) = None"
proof (cases "jm_get m (owned i r)")
  case (Some b)
  with assms(1) obtain j r' where j: "j \<in> ids" "owned i r = owned j r'"
    unfolding of_tenants_def by blast
  then have "i = j" using first_separator [OF assms(3), of j r r'] assms(4) by (simp add: owned_def)
  with j(1) assms(2) show ?thesis by simp
qed

definition default_limits :: "limiter_config \<Rightarrow> bool" where
  "default_limits cfg \<longleftrightarrow> lc_tiers cfg = RATE_LIMIT_TIERS \<and> lc_endpointRules cfg = ENDPOINT_RULES"

lemma default_tier: "default_limits cfg \<Longrightarrow> request_tier cfg q \<in> {''free'', ''pro'', ''enterprise''}"
proof -
  assume d: "default_limits cfg"
  have "jm_has RATE_LIMIT_TIERS t \<Longrightarrow> t \<in> {''free'', ''pro'', ''enterprise''}" for t
    by (auto simp: RATE_LIMIT_TIERS_def jm_has_def split: if_splits)
  with d show ?thesis by (auto simp: request_tier_def named_tier_def default_limits_def split: option.splits if_splits)
qed

lemma keys_differ:
  assumes "default_limits cfg"
  shows "tier_bucket_key cfg q \<noteq> endpoint_key q rule"
  using default_tier [OF assms, of q] by (auto simp: tier_bucket_key_def endpoint_key_def)

lemma default_rule: "matchEndpointRule m p ENDPOINT_RULES = Some rule \<Longrightarrow> 1 \<le> er_limit rule"
proof -
  assume "matchEndpointRule m p ENDPOINT_RULES = Some rule"
  then have "rule \<in> set ENDPOINT_RULES" by (auto simp: matchEndpointRule_def find_Some_iff)
  moreover have "list_all (\<lambda>r. 1 \<le> er_limit r) ENDPOINT_RULES" by (simp add: ENDPOINT_RULES_def)
  ultimately show ?thesis by (auto simp: list_all_iff)
qed

lemma fresh_consume:
  assumes "jm_get (lm_clients s) (tier_bucket_key cfg q) = None"
  shows "\<not> is_exceeded (fst (tier_consume cfg now q s))"
    "lm_clients (snd (tier_consume cfg now q s)) \<in> (\<lambda>(m, b). jm_set (tier_bucket_key cfg q) b m) ` ({lm_clients s, evict_buckets now (lm_clients s)} \<times> UNIV)"
  using assms by (auto simp: tier_consume_def Let_def is_exceeded_def image_iff split: if_splits)

lemma fresh_endpoint:
  assumes "\<And>rule. jm_get (lm_clients s) (endpoint_key q rule) = None" "lc_endpointRules cfg = ENDPOINT_RULES"
  shows "\<not> is_exceeded (fst (consumeEndpoint cfg now q pathname s))"
    "snd (consumeEndpoint cfg now q pathname s) = s \<or> (\<exists>rule b. snd (consumeEndpoint cfg now q pathname s) = s\<lparr>lm_clients := jm_set (endpoint_key q rule) b (lm_clients s)\<rparr>)"
  using assms default_rule [of "lr_method q" pathname]
  by (auto simp: consumeEndpoint_def Let_def is_exceeded_def budget_of_def split: option.splits)

lemma fresh_check:
  assumes "of_tenants ids (lm_clients s)" "limiter_wf s" "i \<notin> ids" "\<forall>j \<in> ids. CHR '':'' \<notin> set j" "names_tenant i q" "default_limits cfg"
  shows "\<not> is_limited (fst (limiter_check cfg now q pathname s))
    \<and> of_tenants (insert i ids) (lm_clients (snd (limiter_check cfg now q pathname s))) \<and> limiter_wf (snd (limiter_check cfg now q pathname s))"
proof -
  have tenant: "resolveTenantId q = Some i" using named_tenant assms(5) .
  have colon: "CHR '':'' \<notin> set i" using assms(5) by (simp add: names_tenant_def)
  have none: "jm_get (lm_clients s) (owned i x) = None" for x
    using fresh_tenant [OF assms(1,3) colon assms(4)] .
  have ekey: "\<exists>r. endpoint_key q rule = owned i r" for rule
    by (simp add: endpoint_key_def tenant_key_def tenant owned_def)
  have bkey: "\<exists>r. tier_bucket_key cfg q = owned i r"
    by (simp add: tier_bucket_key_def tenant_key_def tenant owned_def)
  define e where "e = consumeEndpoint cfg now q pathname s"
  have no_e: "jm_get (lm_clients s) (endpoint_key q rule) = None" for rule using ekey none by metis
  have e: "\<not> is_exceeded (fst e)" "snd e = s \<or> (\<exists>rule b. snd e = s\<lparr>lm_clients := jm_set (endpoint_key q rule) b (lm_clients s)\<rparr>)"
    using fresh_endpoint [OF no_e, of cfg now pathname] assms(6) by (simp_all add: e_def default_limits_def)
  have mono: "of_tenants (insert i ids) m" if "of_tenants ids m" for m using that unfolding of_tenants_def by blast
  have e_ids: "of_tenants (insert i ids) (lm_clients (snd e)) \<and> limiter_wf (snd e)"
    using e(2)
  proof (elim disjE exE)
    assume "snd e = s"
    then show ?thesis using mono assms(1,2) by simp
  next
    fix rule b
    assume e': "snd e = s\<lparr>lm_clients := jm_set (endpoint_key q rule) b (lm_clients s)\<rparr>"
    obtain r where "endpoint_key q rule = owned i r" using ekey by blast
    then show ?thesis using of_tenants_set [OF assms(1)] assms(2) by (simp add: e' limiter_wf_def)
  qed
  have "jm_get (lm_clients (snd e)) (tier_bucket_key cfg q) = None"
    using e(2) bkey none keys_differ [OF assms(6), of q] by auto
  note t = fresh_consume [OF this, of now]
  define c where "c = tier_consume cfg now q (snd e)"
  have step: "of_tenants (insert i ids) (jm_set (tier_bucket_key cfg q) b m)" if "of_tenants (insert i ids) m" for m b
    using of_tenants_set [OF that, of i] bkey by (metis insert_absorb2)
  have "of_tenants (insert i ids) (lm_clients (snd c))"
    using t(2) step conjunct1 [OF e_ids] of_tenants_evict [of "lm_clients (snd e)" "insert i ids" now] conjunct2 [OF e_ids]
    by (auto simp: c_def limiter_wf_def)
  moreover have "limiter_wf (snd c)" using tier_consume_wf e_ids by (simp add: c_def)
  ultimately show ?thesis
    using t(1) e(1) mono assms(1,2) unfolding limiter_check_def e_def [symmetric]
    by (auto simp: Let_def is_limited_def c_def split: prod.splits)
qed


definition default_config :: limiter_config where
  "default_config = small_config\<lparr>lc_tiers := RATE_LIMIT_TIERS\<rparr>"


text \<open>Two tenants may share a budget: the parts of a key are not separated by a character they cannot contain.\<close>

lemma tenants_share_a_bucket:
  "tier_bucket_key default_config ((anonymous (Some ''a''))\<lparr>lr_forwardedFor := Some ''b:ip:c''\<rparr>)
    = tier_bucket_key default_config ((anonymous (Some ''a:ip:b''))\<lparr>lr_forwardedFor := Some ''c''\<rparr>)"
  by code_simp

end
