(* ===== verification/FeatureFlags.thy ===== *)
theory FeatureFlags
  imports Jcs Machine
begin

unbundle bit_operations_syntax

text \<open>
  Models \<open>server/src/feature-flags.js\<close>: the flags with their targeting rules, their evaluation and the 32-bit hash behind the
  percentage rollout. The file is what the cache was written to, so that loading it changes nothing. The identifier of a flag and
  the clock are arguments. Values of rules and contexts are those of \<open>JsValue\<close>, and numbers have no rounding.
\<close>

section \<open>The hash\<close>

text \<open>\<open>Math.imul\<close>, \<open>^\<close> and \<open>>>>\<close> on 32-bit words\<close>

definition simpleHash :: "string \<Rightarrow> 32 word" where
  "simpleHash str = (let
     n = word_of_nat (length str);
     (h1, h2) = fold (\<lambda>c (h1, h2). let ch = word_of_nat (char_code c) in ((h1 XOR ch) * 2654435761, (h2 XOR ch) * 1597334677)) str
       (0xdeadbeef XOR n, 0x41c6ce57 XOR n);
     h1' = ((h1 XOR drop_bit 16 h1) * 2246822507) XOR ((h2 XOR drop_bit 13 h2) * 3266489909);
     h2' = ((h2 XOR drop_bit 16 h2) * 2246822507) XOR ((h1' XOR drop_bit 13 h1') * 3266489909)
   in h1' XOR h2')"

section \<open>Rules\<close>

record targeting_rule =
  tg_attribute :: string
  tg_operator :: string
  tg_value :: jv
  tg_variant :: jv

text \<open>\<open>===\<close>, and \<open>includes\<close>: an object or array of the rule is never the one of the context.\<close>

definition strict_equal :: "jv \<Rightarrow> jv \<Rightarrow> bool" where
  "strict_equal a b = (a = b \<and> (case a of JNaN \<Rightarrow> False | JArr _ \<Rightarrow> False | JObj _ \<Rightarrow> False | JBytes _ \<Rightarrow> False | _ \<Rightarrow> True))"

definition js_includes :: "jv list \<Rightarrow> jv \<Rightarrow> bool" where
  "js_includes vs a = list_ex (\<lambda>b. strict_equal b a \<or> (a = JNaN \<and> b = JNaN)) vs"

definition rollout_bucket :: "string \<Rightarrow> (string, jv) jsmap \<Rightarrow> nat" where
  "rollout_bucket attr ctx = unat (simpleHash (attr @ json_stringify (JObj ctx))) mod 100"

definition matchRule :: "targeting_rule \<Rightarrow> (string, jv) jsmap \<Rightarrow> bool" where
  "matchRule rule ctx = (case jm_get ctx (tg_attribute rule) of None \<Rightarrow> False | Some v \<Rightarrow>
     if v = JUndef then False
     else if tg_operator rule = ''eq'' then strict_equal v (tg_value rule)
     else if tg_operator rule = ''neq'' then \<not> strict_equal v (tg_value rule)
     else if tg_operator rule = ''in'' then (case tg_value rule of JArr vs \<Rightarrow> js_includes vs v | _ \<Rightarrow> False)
     else if tg_operator rule = ''not_in'' then (case tg_value rule of JArr vs \<Rightarrow> \<not> js_includes vs v | _ \<Rightarrow> False)
     else if tg_operator rule = ''percentage'' then
       (case tg_value rule of JNum p \<Rightarrow> \<not> (p < 0 \<or> 100 < p) \<and> of_nat (rollout_bucket (tg_attribute rule) ctx) < p | _ \<Rightarrow> False)
     else False)"

section \<open>Flags\<close>

record feature_flag =
  ff_id :: string
  ff_key :: string
  ff_description :: string
  ff_type :: string
  ff_enabled :: bool
  ff_defaultValue :: jv
  ff_targetingRules :: "targeting_rule list"
  ff_createdBy :: string
  ff_createdAt :: int
  ff_updatedAt :: int
  ff_archived :: bool

text \<open>The flags and the audit trail: the action, the flag and the actor\<close>

record flag_store =
  fs_flags :: "(string, feature_flag) jsmap"
  fs_audit :: "(string \<times> string \<times> string) list"

record flag_options =
  fo_description :: string
  fo_type :: string
  fo_defaultValue :: jv
  fo_targetingRules :: "targeting_rule list"
  fo_createdBy :: string

record flag_updates =
  fu_description :: "string option"
  fu_type :: "string option"
  fu_enabled :: "bool option"
  fu_defaultValue :: jv
  fu_targetingRules :: "targeting_rule list option"
  fu_archived :: "bool option"
  fu_updatedBy :: "string option"

definition createFlag :: "string \<Rightarrow> int \<Rightarrow> string \<Rightarrow> flag_options \<Rightarrow> flag_store \<Rightarrow> (string + feature_flag) \<times> flag_store" where
  "createFlag i now key opts s = (if jm_has (fs_flags s) key then (Inl (''Flag '' @ [CHR 34] @ key @ [CHR 34] @ '' already exists''), s)
     else (let flag = \<lparr>ff_id = i, ff_key = key, ff_description = fo_description opts, ff_type = fo_type opts, ff_enabled = False,
         ff_defaultValue = fo_defaultValue opts, ff_targetingRules = fo_targetingRules opts, ff_createdBy = fo_createdBy opts,
         ff_createdAt = now, ff_updatedAt = now, ff_archived = False\<rparr>
       in (Inr flag, \<lparr>fs_flags = jm_set key flag (fs_flags s), fs_audit = fs_audit s @ [(''flag_created'', key, fo_createdBy opts)]\<rparr>)))"

definition updated :: "'a option \<Rightarrow> 'a \<Rightarrow> 'a" where
  "updated u old = (case u of Some x \<Rightarrow> x | None \<Rightarrow> old)"

definition no_flag :: "string \<Rightarrow> string" where
  "no_flag key = ''Flag '' @ [CHR 34] @ key @ [CHR 34] @ '' not found''"

definition updateFlag :: "int \<Rightarrow> string \<Rightarrow> flag_updates \<Rightarrow> flag_store \<Rightarrow> (string + feature_flag) \<times> flag_store" where
  "updateFlag now key u s = (case jm_get (fs_flags s) key of None \<Rightarrow> (Inl (no_flag key), s)
   | Some f \<Rightarrow> (let f' = f\<lparr>ff_description := updated (fu_description u) (ff_description f), ff_type := updated (fu_type u) (ff_type f),
         ff_enabled := updated (fu_enabled u) (ff_enabled f),
         ff_defaultValue := (if fu_defaultValue u = JUndef then ff_defaultValue f else fu_defaultValue u),
         ff_targetingRules := updated (fu_targetingRules u) (ff_targetingRules f), ff_archived := updated (fu_archived u) (ff_archived f),
         ff_updatedAt := now\<rparr>
       in (Inr f', \<lparr>fs_flags = jm_set key f' (fs_flags s), fs_audit = fs_audit s @ [(''flag_updated'', key, updated (fu_updatedBy u) ''system'')]\<rparr>)))"

definition archiveFlag :: "int \<Rightarrow> string \<Rightarrow> string \<Rightarrow> flag_store \<Rightarrow> string option \<times> flag_store" where
  "archiveFlag now key actor s = (case jm_get (fs_flags s) key of None \<Rightarrow> (Some (no_flag key), s)
   | Some f \<Rightarrow> (None, \<lparr>fs_flags = jm_set key (f\<lparr>ff_archived := True, ff_updatedAt := now\<rparr>) (fs_flags s),
       fs_audit = fs_audit s @ [(''flag_archived'', key, actor)]\<rparr>))"

record evaluation =
  ev_value :: jv
  ev_variant :: jv
  ev_reason :: string

definition evaluate_flag :: "feature_flag \<Rightarrow> (string, jv) jsmap \<Rightarrow> evaluation" where
  "evaluate_flag f ctx = (let plain = (\<lambda>why. \<lparr>ev_value = ff_defaultValue f, ev_variant = JStr ''default'', ev_reason = why\<rparr>) in
     if ff_archived f then plain ''archived''
     else if \<not> ff_enabled f then plain ''disabled''
     else case find (\<lambda>rule. matchRule rule ctx) (ff_targetingRules f) of
       Some rule \<Rightarrow> \<lparr>ev_value = tg_variant rule, ev_variant = tg_variant rule, ev_reason = ''rule_match''\<rparr>
     | None \<Rightarrow> if ff_type f = ''boolean'' then \<lparr>ev_value = JBool True, ev_variant = JStr ''on'', ev_reason = ''flag_enabled''\<rparr>
         else plain ''no_rule_match'')"

definition evaluate :: "string \<Rightarrow> (string, jv) jsmap \<Rightarrow> flag_store \<Rightarrow> evaluation" where
  "evaluate key ctx s = (case jm_get (fs_flags s) key of
     None \<Rightarrow> \<lparr>ev_value = JUndef, ev_variant = JStr ''default'', ev_reason = ''flag_not_found''\<rparr>
   | Some f \<Rightarrow> evaluate_flag f ctx)"

definition listFlags :: "bool \<Rightarrow> flag_store \<Rightarrow> feature_flag list" where
  "listFlags includeArchived s = (if includeArchived then jm_values (fs_flags s) else filter (\<lambda>f. \<not> ff_archived f) (jm_values (fs_flags s)))"

definition getFlag :: "string \<Rightarrow> flag_store \<Rightarrow> feature_flag option" where
  "getFlag key s = jm_get (fs_flags s) key"

definition flag_isEnabled :: "string \<Rightarrow> (string, jv) jsmap \<Rightarrow> flag_store \<Rightarrow> bool" where
  "flag_isEnabled key ctx s = (ev_value (evaluate key ctx s) = JBool True)"

definition getVariant :: "string \<Rightarrow> (string, jv) jsmap \<Rightarrow> flag_store \<Rightarrow> jv" where
  "getVariant key ctx s = ev_variant (evaluate key ctx s)"

section \<open>Rollout\<close>

lemma rollout_bucket_bound: "rollout_bucket attr ctx < 100"
  by (simp add: rollout_bucket_def)

lemma percentage_rule:
  "tg_operator rule = ''percentage'' \<Longrightarrow> tg_value rule = JNum p \<Longrightarrow> jm_get ctx (tg_attribute rule) = Some v \<Longrightarrow> v \<noteq> JUndef \<Longrightarrow>
    matchRule rule ctx \<longleftrightarrow> 0 \<le> p \<and> p \<le> 100 \<and> of_nat (rollout_bucket (tg_attribute rule) ctx) < p"
  by (auto simp: matchRule_def not_less)

text \<open>
  A rollout only grows: with a higher percentage every context that was in stays in; nobody is in at 0 and everybody with the
  attribute is at 100.
\<close>

theorem rollout_grows:
  assumes "tg_operator rule = ''percentage''" and "jm_get ctx (tg_attribute rule) = Some v" and "v \<noteq> JUndef"
    and "p \<le> p'" and "p' \<le> 100" and "matchRule (rule\<lparr>tg_value := JNum p\<rparr>) ctx"
  shows "matchRule (rule\<lparr>tg_value := JNum p'\<rparr>) ctx \<and> \<not> matchRule (rule\<lparr>tg_value := JNum 0\<rparr>) ctx \<and> matchRule (rule\<lparr>tg_value := JNum 100\<rparr>) ctx"
proof -
  have "rat_of_nat (rollout_bucket (tg_attribute rule) ctx) < rat_of_nat 100" by (simp only: of_nat_less_iff rollout_bucket_bound)
  then show ?thesis using assms percentage_rule [of "rule\<lparr>tg_value := JNum x\<rparr>" x ctx v for x] by simp
qed

definition ten_percent :: targeting_rule where
  "ten_percent = \<lparr>tg_attribute = ''u'', tg_operator = ''percentage'', tg_value = JNum 10, tg_variant = JStr ''on''\<rparr>"

definition user_at :: "string \<Rightarrow> string \<Rightarrow> (string, jv) jsmap" where
  "user_at name page = [(''u'', JStr name), (''t'', JStr page)]"

text \<open>
  The bucket is not that of the attribute: it depends on everything else in the context, so that the same user is in the rollout
  in one request and out of it in the next.
\<close>

lemma user_text:
  "json_stringify (JObj (user_at ''a'' ''a'')) = [CHR ''{'', CHR 34, CHR ''u'', CHR 34, CHR '':'', CHR 34, CHR ''a'', CHR 34, CHR '','', CHR 34, CHR ''t'', CHR 34, CHR '':'', CHR 34, CHR ''a'', CHR 34, CHR ''}'']"
  "json_stringify (JObj (user_at ''a'' ''b'')) = [CHR ''{'', CHR 34, CHR ''u'', CHR 34, CHR '':'', CHR 34, CHR ''a'', CHR 34, CHR '','', CHR 34, CHR ''t'', CHR 34, CHR '':'', CHR 34, CHR ''b'', CHR 34, CHR ''}'']"
  by code_simp+

lemma user_hash:
  "simpleHash [CHR ''u'', CHR ''{'', CHR 34, CHR ''u'', CHR 34, CHR '':'', CHR 34, CHR ''a'', CHR 34, CHR '','', CHR 34, CHR ''t'', CHR 34, CHR '':'', CHR 34, CHR ''a'', CHR 34, CHR ''}''] = 2991157106"
  "simpleHash [CHR ''u'', CHR ''{'', CHR 34, CHR ''u'', CHR 34, CHR '':'', CHR 34, CHR ''a'', CHR 34, CHR '','', CHR 34, CHR ''t'', CHR 34, CHR '':'', CHR 34, CHR ''b'', CHR 34, CHR ''}''] = 2875424546"
  by (simp_all add: simpleHash_def char_code_def)

lemma rollout_is_not_sticky: "rollout_bucket ''u'' (user_at ''a'' ''a'') = 6" "rollout_bucket ''u'' (user_at ''a'' ''b'') = 46"
proof -
  show "rollout_bucket ''u'' (user_at ''a'' ''a'') = 6" "rollout_bucket ''u'' (user_at ''a'' ''b'') = 46"
    unfolding rollout_bucket_def user_text append.simps user_hash by simp_all
qed

theorem rollout_grows_witness:
  "matchRule (ten_percent\<lparr>tg_value := JNum 20\<rparr>) (user_at ''a'' ''a'') \<and> \<not> matchRule (ten_percent\<lparr>tg_value := JNum 0\<rparr>) (user_at ''a'' ''a'')
    \<and> matchRule (ten_percent\<lparr>tg_value := JNum 100\<rparr>) (user_at ''a'' ''a'')"
proof (rule rollout_grows [where p = 10])
  show "matchRule (ten_percent\<lparr>tg_value := JNum 10\<rparr>) (user_at ''a'' ''a'')"
    using percentage_rule [of ten_percent 10 "user_at ''a'' ''a''" "JStr ''a''"] rollout_is_not_sticky(1)
    by (simp add: ten_percent_def user_at_def)
  show "JStr ''a'' \<noteq> JUndef" by simp
qed (simp_all add: ten_percent_def user_at_def)

section \<open>Targeting a boolean flag\<close>

text \<open>
  Targeting a boolean flag switches it off for the targeted: a matching rule answers with its variant, which is a text, while
  \<open>isEnabled\<close> asks for the value \<open>true\<close>, the answer of those no rule matches. An enabled boolean flag is on exactly for them.
\<close>

theorem targeting_switches_boolean_flags_off:
  assumes "jm_get (fs_flags s) key = Some f" and "ff_enabled f" and "\<not> ff_archived f" and "ff_type f = ''boolean''"
    and "list_all (\<lambda>rule. tg_variant rule \<noteq> JBool True) (ff_targetingRules f)"
  shows "flag_isEnabled key ctx s \<longleftrightarrow> \<not> list_ex (\<lambda>rule. matchRule rule ctx) (ff_targetingRules f)"
proof (cases "find (\<lambda>rule. matchRule rule ctx) (ff_targetingRules f)")
  case None
  then show ?thesis using assms None by (simp add: flag_isEnabled_def evaluate_def evaluate_flag_def) (simp add: find_None_iff list_ex_iff)
next
  case (Some rule)
  then have "rule \<in> set (ff_targetingRules f)" "matchRule rule ctx" by (auto simp: find_Some_iff)
  then show ?thesis using assms Some by (auto simp: flag_isEnabled_def evaluate_def evaluate_flag_def list_all_iff list_ex_iff)
qed

definition beta_flag :: flag_store where
  "beta_flag = \<lparr>fs_flags = [(''beta'', \<lparr>ff_id = ''1'', ff_key = ''beta'', ff_description = '''', ff_type = ''boolean'', ff_enabled = True,
     ff_defaultValue = JBool False, ff_targetingRules = [\<lparr>tg_attribute = ''tier'', tg_operator = ''eq'', tg_value = JStr ''pro'', tg_variant = JStr ''on''\<rparr>],
     ff_createdBy = ''ops'', ff_createdAt = 0, ff_updatedAt = 0, ff_archived = False\<rparr>)], fs_audit = []\<rparr>"

theorem targeting_switches_boolean_flags_off_witness:
  "\<not> flag_isEnabled ''beta'' [(''tier'', JStr ''pro'')] beta_flag \<and> flag_isEnabled ''beta'' [(''tier'', JStr ''free'')] beta_flag"
proof -
  obtain f where f: "jm_get (fs_flags beta_flag) ''beta'' = Some f" "ff_enabled f" "\<not> ff_archived f" "ff_type f = ''boolean''"
    "ff_targetingRules f = [\<lparr>tg_attribute = ''tier'', tg_operator = ''eq'', tg_value = JStr ''pro'', tg_variant = JStr ''on''\<rparr>]"
    by (simp add: beta_flag_def)
  from targeting_switches_boolean_flags_off [OF f(1-4)] f(5) show ?thesis
    by (simp add: matchRule_def strict_equal_def)
qed

section \<open>The kill switch\<close>

datatype flag_event = Creates string int string flag_options | Updates int string flag_updates | Archives int string string

fun flags_do :: "flag_event \<Rightarrow> flag_store \<Rightarrow> flag_store" where
  "flags_do (Creates i now key opts) s = snd (createFlag i now key opts s)"
| "flags_do (Updates now key u) s = snd (updateFlag now key u s)"
| "flags_do (Archives now key actor) s = snd (archiveFlag now key actor s)"

text \<open>The events that take a flag out of the archive: an update that says so.\<close>

fun revives :: "string \<Rightarrow> flag_event \<Rightarrow> bool" where
  "revives key (Updates now key' u) \<longleftrightarrow> key' = key \<and> fu_archived u = Some False"
| "revives key e = False"

definition archived_flag :: "string \<Rightarrow> flag_store \<Rightarrow> bool" where
  "archived_flag key s \<longleftrightarrow> (case jm_get (fs_flags s) key of Some f \<Rightarrow> ff_archived f | None \<Rightarrow> False)"

lemma archived_step: "archived_flag key s \<Longrightarrow> \<not> revives key e \<Longrightarrow> archived_flag key (flags_do e s)"
proof (cases e)
  case (Updates now key' u)
  assume "archived_flag key s" "\<not> revives key e"
  then show ?thesis using Updates
    by (cases "fu_archived u") (auto simp: archived_flag_def updateFlag_def updated_def Let_def split: option.splits)
qed (auto simp: archived_flag_def createFlag_def archiveFlag_def jm_has_def Let_def split: option.splits)

interpretation archived: stable_machine "\<lambda>s e s'. \<not> revives key e \<and> s' = flags_do e s" "archived_flag key"
  by unfold_locales (simp add: archived_step)

lemma exec_flags: "list_all (\<lambda>e. \<not> revives key e) es \<Longrightarrow> exec (\<lambda>s e s'. \<not> revives key e \<and> s' = flags_do e s) s es (fold flags_do es s)"
  by (induction es arbitrary: s) auto

text \<open>
  Archiving a flag is final for every user: until an update takes it out of the archive it evaluates to its default, without a
  look at its rules, whatever else happens to the flags.
\<close>

theorem archived_flag_answers_default:
  assumes "fst (archiveFlag now key actor s) = None" and "list_all (\<lambda>e. \<not> revives key e) es"
  shows "(case jm_get (fs_flags (fold flags_do es (snd (archiveFlag now key actor s)))) key of None \<Rightarrow> False
    | Some f \<Rightarrow> evaluate key ctx (fold flags_do es (snd (archiveFlag now key actor s)))
        = \<lparr>ev_value = ff_defaultValue f, ev_variant = JStr ''default'', ev_reason = ''archived''\<rparr>)"
proof -
  have "archived_flag key (snd (archiveFlag now key actor s))"
    using assms(1) by (auto simp: archiveFlag_def archived_flag_def split: option.splits)
  from archived.exec_stable [OF exec_flags [OF assms(2)] this] show ?thesis
    by (auto simp: archived_flag_def evaluate_def evaluate_flag_def split: option.splits)
qed

theorem archived_flag_answers_default_witness:
  "(case jm_get (fs_flags (fold flags_do [] (snd (archiveFlag 5 ''beta'' ''ops'' beta_flag)))) ''beta'' of None \<Rightarrow> False
    | Some f \<Rightarrow> evaluate ''beta'' [(''tier'', JStr ''pro'')] (fold flags_do [] (snd (archiveFlag 5 ''beta'' ''ops'' beta_flag)))
        = \<lparr>ev_value = ff_defaultValue f, ev_variant = JStr ''default'', ev_reason = ''archived''\<rparr>)"
  by (rule archived_flag_answers_default) (simp_all add: beta_flag_def archiveFlag_def)

end
