(* ===== verification/DidCache.thy ===== *)
theory DidCache
  imports Jcs JsObject Machine
begin

text \<open>
  Models \<open>server/src/did-cache.js\<close>: the cache of resolved DID documents in Redis, which stops asking a Redis that fails and
  reconnects in the background.

  Redis is a store of texts with expiry times; whether it answers an operation is an argument of the operation, and the end of a
  background reconnection is an event. A text is kept as the value it parses to, \<open>Corrupt\<close> if it does not parse. The metrics
  registry, which repeats the statistics, and the derived hit rate are not modelled.
\<close>

section \<open>Keys\<close>

definition KEY_PREFIX :: string where "KEY_PREFIX = ''did:doc:''"
definition META_PREFIX :: string where "META_PREFIX = ''did:meta:''"

definition didMethod :: "string \<Rightarrow> string" where
  "didMethod v = (if \<not> starts_with v ''did:'' then ''stellar'' else takeWhile (\<lambda>c. c \<noteq> CHR '':'') (drop 4 v))"

definition didCacheKey :: "string \<Rightarrow> string" where
  "didCacheKey v = (if starts_with v ''did:stellar:'' then KEY_PREFIX @ drop 12 v else KEY_PREFIX @ v)"

definition didMetaKey :: "string \<Rightarrow> string" where
  "didMetaKey v = META_PREFIX @ drop (length KEY_PREFIX) (didCacheKey v)"

section \<open>The cache\<close>

datatype cached_text = Json jv | Corrupt

record cache_stats =
  ct_hits :: nat
  ct_misses :: nat
  ct_errors :: nat
  ct_sets :: nat
  ct_invalidations :: nat

record did_cache =
  dc_enabled :: bool
  dc_ttlMs :: int
  dc_failureThreshold :: nat
  dc_available :: bool
  dc_consecutiveFailures :: nat
  dc_stats :: cache_stats
  dc_resolverGeneration :: nat
  dc_reconnecting :: bool
  dc_redis :: "(string, cached_text \<times> int option) jsmap"

definition new_DidCache :: "bool \<Rightarrow> int \<Rightarrow> nat \<Rightarrow> did_cache" where
  "new_DidCache enabled ttlMs threshold = \<lparr>dc_enabled = enabled, dc_ttlMs = ttlMs, dc_failureThreshold = threshold, dc_available = False,
     dc_consecutiveFailures = 0, dc_stats = \<lparr>ct_hits = 0, ct_misses = 0, ct_errors = 0, ct_sets = 0, ct_invalidations = 0\<rparr>,
     dc_resolverGeneration = 0, dc_reconnecting = False, dc_redis = []\<rparr>"

definition connect_cache :: "bool \<Rightarrow> did_cache \<Rightarrow> bool \<times> did_cache" where
  "connect_cache ok c = (if \<not> dc_enabled c then (False, c)
     else if ok then (True, c\<lparr>dc_available := True, dc_consecutiveFailures := 0\<rparr>) else (False, c\<lparr>dc_available := False\<rparr>))"

definition cache_usable :: "did_cache \<Rightarrow> bool" where
  "cache_usable c \<longleftrightarrow> dc_enabled c \<and> dc_available c \<and> dc_consecutiveFailures c < dc_failureThreshold c"

definition count_stats :: "(cache_stats \<Rightarrow> cache_stats) \<Rightarrow> did_cache \<Rightarrow> did_cache" where
  "count_stats f c = c\<lparr>dc_stats := f (dc_stats c)\<rparr>"

text \<open>At exactly the threshold the cache is switched off and a reconnection is started.\<close>

definition record_failure :: "did_cache \<Rightarrow> did_cache" where
  "record_failure c = (let n = dc_consecutiveFailures c + 1;
     c1 = (count_stats (\<lambda>t. t\<lparr>ct_errors := ct_errors t + 1\<rparr>) c)\<lparr>dc_consecutiveFailures := n\<rparr> in
     if n = dc_failureThreshold c then c1\<lparr>dc_available := False, dc_reconnecting := True\<rparr> else c1)"

text \<open>The end of \<open>_reconnect\<close>\<close>

definition reconnect_ends :: "bool \<Rightarrow> did_cache \<Rightarrow> did_cache" where
  "reconnect_ends ok c = (if \<not> dc_reconnecting c then c
     else if ok then c\<lparr>dc_reconnecting := False, dc_available := True, dc_consecutiveFailures := 0\<rparr> else c\<lparr>dc_reconnecting := False\<rparr>)"

definition redis_get :: "int \<Rightarrow> string \<Rightarrow> (string, cached_text \<times> int option) jsmap \<Rightarrow> cached_text option" where
  "redis_get now k r = (case jm_get r k of None \<Rightarrow> None
   | Some (v, e) \<Rightarrow> (case e of Some t \<Rightarrow> if t \<le> now then None else Some v | None \<Rightarrow> Some v))"

definition redis_del :: "string list \<Rightarrow> (string, cached_text \<times> int option) jsmap \<Rightarrow> (string, cached_text \<times> int option) jsmap" where
  "redis_del ks r = fold jm_delete ks r"

definition invalidate_did :: "bool \<Rightarrow> string \<Rightarrow> did_cache \<Rightarrow> bool \<times> did_cache" where
  "invalidate_did ok did c = (if \<not> dc_enabled c then (False, c)
     else if ok then (True, count_stats (\<lambda>t. t\<lparr>ct_invalidations := ct_invalidations t + 1\<rparr>) (c\<lparr>dc_redis := jm_delete (didCacheKey did) (dc_redis c)\<rparr>))
     else (False, record_failure c))"

text \<open>A corrupt entry is dropped in the background: \<open>ok'\<close> is whether Redis answers that.\<close>

definition getEntry :: "bool \<Rightarrow> bool \<Rightarrow> int \<Rightarrow> string \<Rightarrow> did_cache \<Rightarrow> (jv \<times> jv) option \<times> did_cache" where
  "getEntry ok ok' now did c = (if \<not> cache_usable c then (None, c)
     else if \<not> ok then (None, record_failure c)
     else case redis_get now (didCacheKey did) (dc_redis c) of
       None \<Rightarrow> (None, count_stats (\<lambda>t. t\<lparr>ct_misses := ct_misses t + 1\<rparr>) c)
     | Some raw \<Rightarrow> (let c1 = count_stats (\<lambda>t. t\<lparr>ct_hits := ct_hits t + 1\<rparr>) (c\<lparr>dc_consecutiveFailures := 0\<rparr>) in
         case raw of
           Json v \<Rightarrow> (if has_key v ''document'' then (Some (opt_prop v ''document'', js_coalesce (opt_prop v ''meta'') (JObj [])), c1)
             else (Some (v, JObj []), c1))
         | Corrupt \<Rightarrow> (None, snd (invalidate_did ok' did (count_stats (\<lambda>t. t\<lparr>ct_misses := ct_misses t + 1\<rparr>) c1)))))"

definition cache_get :: "bool \<Rightarrow> bool \<Rightarrow> int \<Rightarrow> string \<Rightarrow> did_cache \<Rightarrow> jv option \<times> did_cache" where
  "cache_get ok ok' now did c = (case getEntry ok ok' now did c of (e, c') \<Rightarrow> (map_option fst e, c'))"

definition cache_entry :: "int \<Rightarrow> string \<Rightarrow> jv \<Rightarrow> jv \<Rightarrow> did_cache \<Rightarrow> jv" where
  "cache_entry now did doc meta c = JObj [(''document'', doc), (''meta'', JObj (spread_into meta
     [(''method'', JStr (didMethod did)), (''resolverGeneration'', JNum (of_nat (dc_resolverGeneration c))), (''resolvedAt'', JNum (of_int now))]))]"

definition cache_set :: "bool \<Rightarrow> int \<Rightarrow> string \<Rightarrow> jv \<Rightarrow> int \<Rightarrow> jv \<Rightarrow> did_cache \<Rightarrow> bool \<times> did_cache" where
  "cache_set ok now did doc ttl meta c = (if \<not> cache_usable c \<or> nullish doc then (False, c)
     else if \<not> ok then (False, record_failure c)
     else (True, count_stats (\<lambda>t. t\<lparr>ct_sets := ct_sets t + 1\<rparr>) (c\<lparr>dc_consecutiveFailures := 0,
       dc_redis := jm_set (didCacheKey did) (Json (plain_form (cache_entry now did doc meta c)), if 0 < ttl then Some (now + ttl) else None) (dc_redis c)\<rparr>)))"

text \<open>The flushes: \<open>SCAN\<close> and \<open>DEL\<close> may fail each. \<open>wanted\<close> selects the keys.\<close>

definition live_keys :: "int \<Rightarrow> did_cache \<Rightarrow> string list" where
  "live_keys now c = filter (\<lambda>k. starts_with k KEY_PREFIX \<and> redis_get now k (dc_redis c) \<noteq> None) (jm_keys (dc_redis c))"

definition flush_keys :: "(string \<Rightarrow> bool) \<Rightarrow> bool \<Rightarrow> bool \<Rightarrow> int \<Rightarrow> did_cache \<Rightarrow> nat \<times> did_cache" where
  "flush_keys wanted ok ok' now c = (if \<not> cache_usable c then (0, c)
     else if \<not> ok then (0, record_failure c)
     else (let ks = filter wanted (live_keys now c) in
       if ks = [] then (0, c)
       else if \<not> ok' then (0, record_failure c)
       else (length ks, count_stats (\<lambda>t. t\<lparr>ct_invalidations := ct_invalidations t + length ks\<rparr>) (c\<lparr>dc_redis := redis_del ks (dc_redis c)\<rparr>))))"

definition invalidateAll :: "bool \<Rightarrow> bool \<Rightarrow> int \<Rightarrow> did_cache \<Rightarrow> nat \<times> did_cache" where
  "invalidateAll = flush_keys (\<lambda>k. True)"

definition key_method :: "string \<Rightarrow> string" where
  "key_method k = (let i = drop (length KEY_PREFIX) k in didMethod (if starts_with i ''did:'' then i else ''did:stellar:'' @ i))"

definition invalidateMethod :: "string \<Rightarrow> bool \<Rightarrow> bool \<Rightarrow> int \<Rightarrow> did_cache \<Rightarrow> nat \<times> did_cache" where
  "invalidateMethod m = flush_keys (\<lambda>k. key_method k = m)"

definition onResolverPluginsChanged :: "bool \<Rightarrow> bool \<Rightarrow> int \<Rightarrow> did_cache \<Rightarrow> nat \<times> did_cache" where
  "onResolverPluginsChanged ok ok' now c = invalidateAll ok ok' now (c\<lparr>dc_resolverGeneration := dc_resolverGeneration c + 1\<rparr>)"

definition onFallbackChainChanged :: "bool \<Rightarrow> bool \<Rightarrow> int \<Rightarrow> did_cache \<Rightarrow> nat \<times> did_cache" where
  "onFallbackChainChanged ok ok' now c = invalidateAll ok ok' now (c\<lparr>dc_resolverGeneration := dc_resolverGeneration c + 1\<rparr>)"

text \<open>\<open>warm\<close>: each DID with whether Redis answers the write, and what its resolution gave, \<open>None\<close> for nothing or an error.\<close>

primrec warm_loop :: "int \<Rightarrow> (string \<times> bool \<times> jv option) list \<Rightarrow> did_cache \<Rightarrow> nat \<times> nat \<times> did_cache" where
  "warm_loop now [] c = (0, 0, c)"
| "warm_loop now (e # es) c = (case e of (did, ok, doc) \<Rightarrow> (case doc of
     Some d \<Rightarrow> if js_truthy d then (case warm_loop now es (snd (cache_set ok now did d (dc_ttlMs c) (JObj []) c)) of (w, f, c') \<Rightarrow> (w + 1, f, c'))
       else (case warm_loop now es c of (w, f, c') \<Rightarrow> (w, f + 1, c'))
   | None \<Rightarrow> (case warm_loop now es c of (w, f, c') \<Rightarrow> (w, f + 1, c'))))"

definition warm :: "int \<Rightarrow> (string \<times> bool \<times> jv option) list \<Rightarrow> did_cache \<Rightarrow> (nat \<times> nat \<times> nat) \<times> did_cache" where
  "warm now es c = (if \<not> cache_usable c \<or> es = [] then ((0, 0, length es), c)
     else (case warm_loop now es c of (w, f, c') \<Rightarrow> ((w, f, 0), c')))"

definition close_cache :: "did_cache \<Rightarrow> did_cache" where
  "close_cache c = c\<lparr>dc_available := False\<rparr>"

section \<open>Reading back\<close>

text \<open>Two names of one document: a Stellar DID and its bare address.\<close>

definition same_document :: "string \<Rightarrow> string \<Rightarrow> bool" where
  "same_document a b \<longleftrightarrow> didCacheKey a = didCacheKey b"

lemma stellar_alias: "same_document (''did:stellar:'' @ a) a" if "\<not> starts_with a ''did:stellar:''"
  using that by (simp add: same_document_def didCacheKey_def starts_with_iff)

lemma other_methods_do_not_collide:
  "\<not> starts_with a ''did:stellar:'' \<Longrightarrow> \<not> starts_with b ''did:stellar:'' \<Longrightarrow> same_document a b \<longleftrightarrow> a = b"
  by (simp add: same_document_def didCacheKey_def)

lemma entry_reads_back:
  "plain_form (cache_entry now did doc meta c) = JObj [(''document'', plain_form doc), (''meta'', m)] \<longleftrightarrow> m = plain_form (JObj (spread_into meta
     [(''method'', JStr (didMethod did)), (''resolverGeneration'', JNum (of_nat (dc_resolverGeneration c))), (''resolvedAt'', JNum (of_int now))]))"
  if "doc \<noteq> JUndef"
  using that by (auto simp: cache_entry_def)

text \<open>
  A document that was cached is read back, under either of its names, as JSON renders it, until its time to live is over, and
  not a millisecond longer.
\<close>

theorem cached_document_reads_back:
  assumes "fst (cache_set True now did doc ttl meta c)" and "0 < ttl" and "same_document did did'"
  shows "fst (cache_get True ok' later did' (snd (cache_set True now did doc ttl meta c)))
    = (if later < now + ttl then Some (plain_form doc) else None)"
proof -
  let ?c = "snd (cache_set True now did doc ttl meta c)"
  have u: "cache_usable c" "doc \<noteq> JUndef" using assms(1) by (auto simp: cache_set_def nullish_def split: if_splits)
  then have "cache_usable ?c" by (auto simp: cache_set_def count_stats_def cache_usable_def nullish_def)
  moreover have "redis_get later (didCacheKey did') (dc_redis ?c)
      = (if later < now + ttl then Some (Json (plain_form (cache_entry now did doc meta c))) else None)"
    using assms(1-3) u by (auto simp: cache_set_def redis_get_def count_stats_def same_document_def split: if_splits)
  moreover obtain m where "plain_form (cache_entry now did doc meta c) = JObj [(''document'', plain_form doc), (''meta'', m)]"
    using entry_reads_back [OF u(2), of now did meta c] by blast
  ultimately show ?thesis
    by (auto simp: cache_get_def getEntry_def Let_def has_key_def jm_has_def opt_prop_def fld_def)
qed

definition running :: did_cache where
  "running = snd (connect_cache True (new_DidCache True 60000 3))"

theorem cached_document_reads_back_witness:
  "fst (cache_get True True 100 ''GA'' (snd (cache_set True 7 ''did:stellar:GA'' (JStr ''doc'') 1000 (JObj []) running))) = Some (JStr ''doc'')"
proof -
  have "fst (cache_set True 7 ''did:stellar:GA'' (JStr ''doc'') 1000 (JObj []) running)"
    by (simp add: running_def connect_cache_def new_DidCache_def cache_set_def cache_usable_def nullish_def)
  moreover have "same_document ''did:stellar:GA'' ''GA''" by code_simp
  ultimately show ?thesis using cached_document_reads_back [of 7 "''did:stellar:GA''" "JStr ''doc''" 1000 "JObj []" running "''GA''" True 100] by simp
qed

section \<open>Histories\<close>

datatype cache_event =
    Gets bool bool int string
  | Sets bool int string jv int jv
  | Invalidates bool string
  | FlushesAll bool bool int
  | FlushesMethod string bool bool int
  | PluginsChange bool bool int
  | FallbackChanges bool bool int
  | Warms int "(string \<times> bool \<times> jv option) list"
  | ReconnectEnds bool

fun cache_do :: "cache_event \<Rightarrow> did_cache \<Rightarrow> did_cache" where
  "cache_do (Gets ok ok' now did) c = snd (cache_get ok ok' now did c)"
| "cache_do (Sets ok now did doc ttl meta) c = snd (cache_set ok now did doc ttl meta c)"
| "cache_do (Invalidates ok did) c = snd (invalidate_did ok did c)"
| "cache_do (FlushesAll ok ok' now) c = snd (invalidateAll ok ok' now c)"
| "cache_do (FlushesMethod m ok ok' now) c = snd (invalidateMethod m ok ok' now c)"
| "cache_do (PluginsChange ok ok' now) c = snd (onResolverPluginsChanged ok ok' now c)"
| "cache_do (FallbackChanges ok ok' now) c = snd (onFallbackChainChanged ok ok' now c)"
| "cache_do (Warms now es) c = snd (warm now es c)"
| "cache_do (ReconnectEnds ok) c = reconnect_ends ok c"

text \<open>Whether an event may write the entry of a DID.\<close>

fun may_write :: "string \<Rightarrow> cache_event \<Rightarrow> bool" where
  "may_write did (Sets ok now did' doc ttl meta) \<longleftrightarrow> same_document did did'"
| "may_write did (Warms now es) \<longleftrightarrow> list_ex (\<lambda>(did', _). same_document did did') es"
| "may_write did e = False"

definition no_entry :: "string \<Rightarrow> did_cache \<Rightarrow> bool" where
  "no_entry did c \<longleftrightarrow> jm_get (dc_redis c) (didCacheKey did) = None"

lemma redis_record_failure [simp]: "dc_redis (record_failure c) = dc_redis c" "dc_redis (count_stats f c) = dc_redis c"
  by (simp_all add: record_failure_def count_stats_def Let_def)

lemma redis_del_none: "jm_get r k = None \<Longrightarrow> jm_get (redis_del ks r) k = None"
  unfolding redis_del_def by (induction ks arbitrary: r) auto

lemma no_entry_invalidate: "no_entry did c \<Longrightarrow> no_entry did (snd (invalidate_did ok did' c))"
  by (simp add: no_entry_def invalidate_did_def)

lemma no_entry_flush: "no_entry did c \<Longrightarrow> no_entry did (snd (flush_keys wanted ok ok' now c))"
  by (simp add: no_entry_def flush_keys_def redis_del_none Let_def)

lemma no_entry_set: "no_entry did c \<Longrightarrow> \<not> same_document did did' \<Longrightarrow> no_entry did (snd (cache_set ok now did' doc ttl meta c))"
  by (auto simp: no_entry_def cache_set_def same_document_def)

lemma no_entry_warm: "no_entry did c \<Longrightarrow> \<not> list_ex (\<lambda>(did', _). same_document did did') es \<Longrightarrow> no_entry did (snd (snd (warm_loop now es c)))"
proof (induction es arbitrary: c)
  case (Cons e es)
  obtain did' ok doc where e: "e = (did', ok, doc)" by (cases e)
  have rest: "no_entry did (snd (snd (warm_loop now es c')))" if "no_entry did c'" for c' using Cons.IH [OF that] Cons.prems(2) by simp
  have "no_entry did (snd (cache_set ok now did' d ttl meta c))" for d ttl meta
    using no_entry_set [OF Cons.prems(1)] Cons.prems(2) e by simp
  then show ?case using rest Cons.prems(1) by (simp add: e case_prod_beta split: option.splits)
qed simp

lemma no_entry_get: "no_entry did c \<Longrightarrow> no_entry did (snd (cache_get ok ok' now did' c))"
  by (auto simp: cache_get_def getEntry_def Let_def no_entry_def invalidate_did_def split: prod.splits option.splits cached_text.splits if_splits)

lemma no_entry_step: "no_entry did c \<Longrightarrow> \<not> may_write did e \<Longrightarrow> no_entry did (cache_do e c)"
proof (cases e)
  case (Warms now es)
  assume "no_entry did c" "\<not> may_write did e"
  then show ?thesis using Warms no_entry_warm by (simp add: warm_def case_prod_beta)
next
  case (ReconnectEnds ok)
  assume "no_entry did c"
  then show ?thesis using ReconnectEnds by (simp add: no_entry_def reconnect_ends_def)
next
  case (PluginsChange ok ok' now)
  assume "no_entry did c"
  then have "no_entry did (c\<lparr>dc_resolverGeneration := dc_resolverGeneration c + 1\<rparr>)" by (simp add: no_entry_def)
  then show ?thesis using PluginsChange no_entry_flush by (simp add: onResolverPluginsChanged_def invalidateAll_def)
next
  case (FallbackChanges ok ok' now)
  assume "no_entry did c"
  then have "no_entry did (c\<lparr>dc_resolverGeneration := dc_resolverGeneration c + 1\<rparr>)" by (simp add: no_entry_def)
  then show ?thesis using FallbackChanges no_entry_flush by (simp add: onFallbackChainChanged_def invalidateAll_def)
qed (simp_all add: no_entry_get no_entry_set no_entry_invalidate no_entry_flush invalidateAll_def invalidateMethod_def)

interpretation dropped: stable_machine "\<lambda>c e c'. \<not> may_write did e \<and> c' = cache_do e c" "no_entry did"
  by unfold_locales (simp add: no_entry_step)

lemma exec_cache: "list_all (\<lambda>e. \<not> P e) es \<Longrightarrow> exec (\<lambda>c e c'. \<not> P e \<and> c' = cache_do e c) c es (fold cache_do es c)"
  by (induction es arbitrary: c) auto

lemma no_entry_missed: "no_entry did c \<Longrightarrow> fst (cache_get ok ok' now did c) = None"
  by (simp add: cache_get_def getEntry_def no_entry_def redis_get_def)

text \<open>
  Once a document was invalidated and Redis answered, no read gives it again, under either name, until it is written again:
  whatever the cache does meanwhile, outages and reconnections included.
\<close>

theorem invalidated_document_is_gone:
  assumes "fst (invalidate_did True did c)" and "list_all (\<lambda>e. \<not> may_write did e) es"
  shows "fst (cache_get ok ok' now did (fold cache_do es (snd (invalidate_did True did c)))) = None"
proof -
  have "no_entry did (snd (invalidate_did True did c))"
    using assms(1) by (simp add: invalidate_did_def no_entry_def split: if_splits)
  from dropped.exec_stable [OF exec_cache [OF assms(2)] this] show ?thesis by (rule no_entry_missed)
qed

theorem invalidated_document_is_gone_witness:
  "fst (cache_get True True 9 ''GA'' (fold cache_do [Gets False True 8 ''GA'', ReconnectEnds True] (snd (invalidate_did True ''GA''
      (snd (cache_set True 7 ''GA'' (JStr ''doc'') 1000 (JObj []) running)))))) = None"
proof (rule invalidated_document_is_gone)
  show "fst (invalidate_did True ''GA'' (snd (cache_set True 7 ''GA'' (JStr ''doc'') 1000 (JObj []) running)))" by code_simp
qed simp

section \<open>What an outage leaves behind\<close>

text \<open>
  A change of the resolvers during an outage is lost: the flush is skipped because the cache is not usable, and after the
  reconnection the document resolved under the old configuration is served again. Its generation is stored with it, but no read
  looks at it.
\<close>

theorem outage_keeps_stale_documents:
  assumes "cache_usable c" and "dc_failureThreshold c = 1"
    and "redis_get now (didCacheKey did) (dc_redis c) = Some (Json (JObj [(''document'', doc), (''meta'', meta)]))"
  shows "(let c1 = snd (cache_get False ok' now' other c);
              c2 = snd (onResolverPluginsChanged True True now' c1);
              c3 = reconnect_ends True c2
          in dc_resolverGeneration c3 = dc_resolverGeneration c + 1 \<and> fst (cache_get True ok' now did c3) = Some doc)"
  using assms
  by (simp add: Let_def cache_get_def getEntry_def record_failure_def count_stats_def onResolverPluginsChanged_def invalidateAll_def
    flush_keys_def cache_usable_def reconnect_ends_def has_key_def jm_has_def opt_prop_def fld_def)

definition fragile :: did_cache where
  "fragile = snd (cache_set True 7 ''GA'' (JStr ''old'') 60000 (JObj []) (snd (connect_cache True (new_DidCache True 60000 1))))"

theorem outage_keeps_stale_documents_witness:
  "(let c1 = snd (cache_get False True 8 ''GB'' fragile);
        c2 = snd (onResolverPluginsChanged True True 8 c1);
        c3 = reconnect_ends True c2
    in dc_resolverGeneration c3 = dc_resolverGeneration fragile + 1 \<and> fst (cache_get True True 9 ''GA'' c3) = Some (JStr ''old''))"
proof (rule outage_keeps_stale_documents)
  show "cache_usable fragile" "dc_failureThreshold fragile = 1" by code_simp+
  show "redis_get 9 (didCacheKey ''GA'') (dc_redis fragile) = Some (Json (JObj [(''document'', JStr ''old''),
      (''meta'', JObj [(''method'', JStr ''stellar''), (''resolverGeneration'', JNum 0), (''resolvedAt'', JNum 7)])]))" by code_simp
qed

text \<open>Switched off for good: no reconnection is under way and none will be started.\<close>

definition switched_off :: "did_cache \<Rightarrow> bool" where
  "switched_off c \<longleftrightarrow> \<not> dc_available c \<and> \<not> dc_reconnecting c \<and> dc_failureThreshold c \<le> dc_consecutiveFailures c"

lemma off_unusable: "switched_off c \<Longrightarrow> \<not> cache_usable c"
  by (simp add: switched_off_def cache_usable_def)

lemma off_flush: "switched_off c \<Longrightarrow> flush_keys wanted ok ok' now c = (0, c)"
  by (simp add: flush_keys_def off_unusable)

lemma switched_off_step: "switched_off c \<Longrightarrow> switched_off (cache_do e c)"
proof (cases e)
  case (Invalidates ok did)
  assume "switched_off c"
  then show ?thesis using Invalidates
    by (simp add: switched_off_def invalidate_did_def record_failure_def count_stats_def Let_def)
next
  case (PluginsChange ok ok' now)
  assume "switched_off c"
  then have "switched_off (c\<lparr>dc_resolverGeneration := dc_resolverGeneration c + 1\<rparr>)" by (simp add: switched_off_def)
  then show ?thesis using PluginsChange by (simp add: onResolverPluginsChanged_def invalidateAll_def off_flush)
next
  case (FallbackChanges ok ok' now)
  assume "switched_off c"
  then have "switched_off (c\<lparr>dc_resolverGeneration := dc_resolverGeneration c + 1\<rparr>)" by (simp add: switched_off_def)
  then show ?thesis using FallbackChanges by (simp add: onFallbackChainChanged_def invalidateAll_def off_flush)
qed (simp_all add: off_unusable off_flush cache_get_def getEntry_def cache_set_def warm_def invalidateAll_def invalidateMethod_def reconnect_ends_def switched_off_def)

interpretation off: stable_machine "\<lambda>c e c'. \<not> False \<and> c' = cache_do e c" switched_off
  by unfold_locales (simp add: switched_off_step)

text \<open>
  One failed reconnection switches the cache off for good: at the threshold of failures it is taken out of use and one
  reconnection is tried; when that fails nothing tries again, and every read is a miss, even when Redis is back.
\<close>

theorem failed_reconnection_is_final:
  assumes "dc_enabled c" and "dc_available c" and "dc_consecutiveFailures c + 1 = dc_failureThreshold c" and "cache_usable c"
  shows "fst (cache_get ok ok' now did (fold cache_do es (reconnect_ends False (snd (cache_get False True now' did' c))))) = None"
proof -
  have "switched_off (reconnect_ends False (snd (cache_get False True now' did' c)))"
    using assms by (simp add: cache_get_def getEntry_def record_failure_def count_stats_def reconnect_ends_def switched_off_def Let_def)
  moreover have "exec (\<lambda>c e c'. \<not> False \<and> c' = cache_do e c) c es (fold cache_do es c)" for c
    using exec_cache [of "\<lambda>e. False"] by (simp add: list_all_iff)
  ultimately have "switched_off (fold cache_do es (reconnect_ends False (snd (cache_get False True now' did' c))))"
    using off.exec_stable by blast
  then show ?thesis by (simp add: cache_get_def getEntry_def off_unusable)
qed

theorem failed_reconnection_is_final_witness:
  "fst (cache_get True True 99 ''GA'' (fold cache_do [Sets True 50 ''GA'' (JStr ''new'') 60000 (JObj [])]
    (reconnect_ends False (snd (cache_get False True 8 ''GA'' fragile))))) = None"
proof (rule failed_reconnection_is_final)
  show "dc_enabled fragile" "dc_available fragile" "dc_consecutiveFailures fragile + 1 = dc_failureThreshold fragile" "cache_usable fragile"
    by code_simp+
qed

end
