(* ===== verification/Cron.thy ===== *)
theory Cron
  imports IsoDate JsText Machine
begin

text \<open>
  Models \<open>server/src/cron.js\<close>: cron expressions, the search for the next minute they name, and the jobs that run at these
  minutes.

  The local time of the server is UTC: the minutes since 1970 give a date by the calendar of \<open>IsoDate\<close>. Months and days of the week
  may be given by name; names of members of \<open>Object.prototype\<close>, which the lookup finds too, are left out. A job keeps its
  timer; the timers that wait in the event loop are part of its state, since one the job no longer knows of still fires.
\<close>

section \<open>Expressions\<close>

record field_range =
  fr_name :: string
  fr_min :: int
  fr_max :: int

definition FIELD_RANGES :: "field_range list" where
  "FIELD_RANGES = [\<lparr>fr_name = ''minute'', fr_min = 0, fr_max = 59\<rparr>, \<lparr>fr_name = ''hour'', fr_min = 0, fr_max = 23\<rparr>,
     \<lparr>fr_name = ''dayOfMonth'', fr_min = 1, fr_max = 31\<rparr>, \<lparr>fr_name = ''month'', fr_min = 1, fr_max = 12\<rparr>,
     \<lparr>fr_name = ''dayOfWeek'', fr_min = 0, fr_max = 6\<rparr>]"

definition MONTH_ALIASES :: "(string \<times> int) list" where
  "MONTH_ALIASES = [(''jan'', 1), (''feb'', 2), (''mar'', 3), (''apr'', 4), (''may'', 5), (''jun'', 6),
     (''jul'', 7), (''aug'', 8), (''sep'', 9), (''oct'', 10), (''nov'', 11), (''dec'', 12)]"

definition DAY_ALIASES :: "(string \<times> int) list" where
  "DAY_ALIASES = [(''sun'', 0), (''mon'', 1), (''tue'', 2), (''wed'', 3), (''thu'', 4), (''fri'', 5), (''sat'', 6)]"

definition quoted :: "string \<Rightarrow> string" where
  "quoted s = [CHR 34] @ s @ [CHR 34]"

definition resolveAlias :: "string \<Rightarrow> string \<Rightarrow> string + int" where
  "resolveAlias token fieldName = (let named = (if fieldName = ''month'' then map_of MONTH_ALIASES (to_lower token)
       else if fieldName = ''dayOfWeek'' then map_of DAY_ALIASES (to_lower token) else None) in
     case named of Some n \<Rightarrow> Inr n
     | None \<Rightarrow> (case parse_int token of Some n \<Rightarrow> Inr n
         | None \<Rightarrow> Inl (''Invalid cron value '' @ quoted token @ '' in '' @ fieldName @ '' field'')))"

text \<open>The loop over one range; \<open>dow\<close> says whether the field is the day of the week, in which 7 is 0. The step is positive.\<close>

function fill_range :: "bool \<Rightarrow> int \<Rightarrow> int \<Rightarrow> int \<Rightarrow> int list \<Rightarrow> int list" where
  "fill_range dow v last_value step allowed = (if step < 1 \<or> last_value < v then allowed
     else fill_range dow (v + step) last_value step (List.insert (if dow \<and> v = 7 then 0 else v) allowed))"
  by pat_completeness auto
termination by (relation "measure (\<lambda>(_, v, e, _, _). nat (e + 1 - v))") auto

declare fill_range.simps [simp del]

definition range_bounds :: "field_range \<Rightarrow> string \<Rightarrow> string \<Rightarrow> string \<Rightarrow> string + int \<times> int" where
  "range_bounds f part rangePart stepPart = (if rangePart = ''*'' then Inr (fr_min f, fr_max f)
     else if CHR ''-'' \<in> set rangePart then
       (case js_split (CHR ''-'') rangePart of
          lo # hi # _ \<Rightarrow> bind_result (resolveAlias lo (fr_name f)) (\<lambda>a. bind_result (resolveAlias hi (fr_name f)) (\<lambda>b. Inr (a, b)))
        | _ \<Rightarrow> Inl [])
     else bind_result (resolveAlias rangePart (fr_name f)) (\<lambda>a.
       Inr (a, if stepPart = ''1'' \<and> CHR ''/'' \<notin> set part then a else fr_max f)))"

definition parse_part :: "field_range \<Rightarrow> string \<Rightarrow> int list \<Rightarrow> string + int list" where
  "parse_part f part allowed = (let ws = js_split (CHR ''/'') part; rangePart = hd ws;
       stepPart = (case tl ws of w # _ \<Rightarrow> w | [] \<Rightarrow> ''1'') in
     case parse_int stepPart of
       None \<Rightarrow> Inl (''Invalid cron step '' @ quoted stepPart @ '' in '' @ fr_name f @ '' field'')
     | Some step \<Rightarrow> if step < 1 then Inl (''Invalid cron step '' @ quoted stepPart @ '' in '' @ fr_name f @ '' field'')
       else bind_result (range_bounds f part rangePart stepPart) (\<lambda>(a, b).
         if a < fr_min f \<or> (if fr_name f = ''dayOfWeek'' then 7 else fr_max f) < b \<or> b < a
         then Inl (''Cron '' @ fr_name f @ '' field out of range: '' @ quoted part @ '' (expected '' @ int_to_string (fr_min f)
           @ ''-'' @ int_to_string (fr_max f) @ '')'')
         else Inr (fill_range (fr_name f = ''dayOfWeek'') a b step allowed)))"

primrec parse_parts :: "field_range \<Rightarrow> string list \<Rightarrow> int list \<Rightarrow> string + int list" where
  "parse_parts f [] allowed = Inr allowed"
| "parse_parts f (p # ps) allowed = bind_result (parse_part f p allowed) (parse_parts f ps)"

definition parseField :: "string \<Rightarrow> field_range \<Rightarrow> string + int list" where
  "parseField raw f = parse_parts f (js_split (CHR '','') raw) []"

record cron =
  cr_minute :: "int list"
  cr_hour :: "int list"
  cr_dayOfMonth :: "int list"
  cr_month :: "int list"
  cr_dayOfWeek :: "int list"

text \<open>\<open>s.trim().split(/\s+/)\<close>\<close>

definition cron_words :: "string \<Rightarrow> string list" where
  "cron_words s = (if js_trim s = [] then [[]] else js_words (js_trim s))"

definition parseCronExpression :: "string \<Rightarrow> string + cron" where
  "parseCronExpression expression = (let ws = cron_words expression in
     if length ws \<noteq> 5 then Inl (''Cron expression must have 5 fields, received '' @ nat_to_string (length ws) @ '': '' @ quoted expression)
     else bind_result (map_result (\<lambda>(w, f). parseField w f) (zip ws FIELD_RANGES)) (\<lambda>vs.
       Inr \<lparr>cr_minute = vs ! 0, cr_hour = vs ! 1, cr_dayOfMonth = vs ! 2, cr_month = vs ! 3, cr_dayOfWeek = vs ! 4\<rparr>))"

section \<open>Dates\<close>

text \<open>A minute: its date, with months from 1 as the code uses them, and its day of the week. 1970-01-01 was a Thursday.\<close>

definition minute_of :: "nat \<Rightarrow> int" where "minute_of t = int (t mod 60)"
definition hour_of :: "nat \<Rightarrow> int" where "hour_of t = int (t div 60 mod 24)"
definition weekday_of :: "nat \<Rightarrow> int" where "weekday_of t = int ((t div 1440 + 4) mod 7)"

definition calendar_date :: "nat \<Rightarrow> nat \<times> nat \<times> nat" where
  "calendar_date day = (case year_loop 1970 day of (y, dy) \<Rightarrow> (case month_loop y 0 dy of (m, dm) \<Rightarrow> (y, m + 1, dm + 1)))"

definition month_of :: "nat \<Rightarrow> int" where "month_of t = int (fst (snd (calendar_date (t div 1440))))"
definition monthday_of :: "nat \<Rightarrow> int" where "monthday_of t = int (snd (snd (calendar_date (t div 1440))))"

definition cronMatches :: "cron \<Rightarrow> nat \<Rightarrow> bool" where
  "cronMatches c t = (let
     domRestricted = (length (cr_dayOfMonth c) \<noteq> 31);
     dowRestricted = (length (cr_dayOfWeek c) \<noteq> 7);
     domMatch = (monthday_of t \<in> set (cr_dayOfMonth c));
     dowMatch = (weekday_of t \<in> set (cr_dayOfWeek c));
     dayMatch = (if domRestricted \<and> dowRestricted then domMatch \<or> dowMatch else domMatch \<and> dowMatch)
   in minute_of t \<in> set (cr_minute c) \<and> hour_of t \<in> set (cr_hour c) \<and> month_of t \<in> set (cr_month c) \<and> dayMatch)"

definition maxIterations :: nat where
  "maxIterations = 4 * 366 * 24 * 60"

primrec search_minutes :: "cron \<Rightarrow> nat \<Rightarrow> nat \<Rightarrow> nat option" where
  "search_minutes c 0 t = None"
| "search_minutes c (Suc n) t = (if cronMatches c t then Some t else search_minutes c n (t + 1))"

text \<open>Times in milliseconds; the cursor starts at the next full minute.\<close>

definition nextRunAt :: "cron \<Rightarrow> nat \<Rightarrow> nat option" where
  "nextRunAt c now = map_option (\<lambda>t. t * 60000) (search_minutes c maxIterations (now div 60000 + 1))"

section \<open>Parsed schedules\<close>

definition field_ok :: "field_range \<Rightarrow> int list \<Rightarrow> bool" where
  "field_ok f xs \<longleftrightarrow> xs \<noteq> [] \<and> distinct xs \<and> set xs \<subseteq> {fr_min f..fr_max f}"

definition schedule_ok :: "cron \<Rightarrow> bool" where
  "schedule_ok c \<longleftrightarrow> field_ok (FIELD_RANGES ! 0) (cr_minute c) \<and> field_ok (FIELD_RANGES ! 1) (cr_hour c)
     \<and> field_ok (FIELD_RANGES ! 2) (cr_dayOfMonth c) \<and> field_ok (FIELD_RANGES ! 3) (cr_month c) \<and> field_ok (FIELD_RANGES ! 4) (cr_dayOfWeek c)"

lemma fill_range_ok:
  assumes "distinct allowed" and "set allowed \<subseteq> {lo..hi}" and "lo \<le> v" and "dow \<Longrightarrow> lo = 0 \<and> hi = 6" and "e \<le> (if dow then 7 else hi)"
  shows "distinct (fill_range dow v e step allowed) \<and> set (fill_range dow v e step allowed) \<subseteq> {lo..hi}
    \<and> set allowed \<subseteq> set (fill_range dow v e step allowed)"
  using assms
proof (induction dow v e step allowed rule: fill_range.induct)
  case (1 dow v e step allowed)
  show ?case
  proof (cases "step < 1 \<or> e < v")
    case True
    then show ?thesis using "1.prems" by (simp add: fill_range.simps [of dow v])
  next
    case False
    let ?a = "List.insert (if dow \<and> v = 7 then 0 else v) allowed"
    have "set ?a \<subseteq> {lo..hi}" using "1.prems" False by (auto split: if_splits)
    from "1.IH" [OF False _ this] "1.prems" False
    show ?thesis by (subst (1 2 3) fill_range.simps) (auto simp: distinct_insert)
  qed
qed

lemma insert_not_Nil: "List.insert x xs \<noteq> []"
  by (auto simp: List.insert_def)

lemma fill_range_nonempty: "1 \<le> step \<Longrightarrow> v \<le> e \<Longrightarrow> distinct allowed \<Longrightarrow> fill_range dow v e step allowed \<noteq> []"
proof -
  have "allowed \<noteq> [] \<Longrightarrow> fill_range dow v e step allowed \<noteq> []" for v allowed
  proof (induction dow v e step allowed rule: fill_range.induct)
    case (1 dow v e step allowed)
    show ?case
    proof (cases "step < 1 \<or> e < v")
      case True
      then show ?thesis using "1.prems" by (subst fill_range.simps) simp
    next
      case False
      from "1.IH" [OF this insert_not_Nil] show ?thesis using False by (subst fill_range.simps) (simp split: if_splits)
    qed
  qed
  then show "1 \<le> step \<Longrightarrow> v \<le> e \<Longrightarrow> distinct allowed \<Longrightarrow> fill_range dow v e step allowed \<noteq> []"
    by (subst fill_range.simps) (simp add: insert_not_Nil)
qed

definition highest :: "field_range \<Rightarrow> int" where
  "highest f = (if fr_name f = ''dayOfWeek'' then 7 else fr_max f)"

lemma parse_part_ok:
  assumes "parse_part f part allowed = Inr xs" and "distinct allowed" and "set allowed \<subseteq> {fr_min f..fr_max f}"
    and "fr_name f = ''dayOfWeek'' \<Longrightarrow> fr_min f = 0 \<and> fr_max f = 6"
  shows "field_ok f xs"
proof -
  obtain a b step where "1 \<le> step" "fr_min f \<le> a" "b \<le> highest f" "a \<le> b" and xs: "xs = fill_range (fr_name f = ''dayOfWeek'') a b step allowed"
    using assms(1) by (auto intro: that simp: not_less parse_part_def Let_def bind_result_Inr_iff highest_def split: option.splits if_splits prod.splits)
  then show ?thesis
    using fill_range_ok [OF assms(2,3), of a "fr_name f = ''dayOfWeek''" b step] fill_range_nonempty [of step a b allowed] assms(2,4)
    by (auto simp: field_ok_def highest_def)
qed

lemma parse_parts_ok:
  "parse_parts f ps allowed = Inr xs \<Longrightarrow> distinct allowed \<Longrightarrow> set allowed \<subseteq> {fr_min f..fr_max f} \<Longrightarrow> ps \<noteq> [] \<or> allowed \<noteq> []
   \<Longrightarrow> (fr_name f = ''dayOfWeek'' \<Longrightarrow> fr_min f = 0 \<and> fr_max f = 6) \<Longrightarrow> field_ok f xs"
proof (induction ps arbitrary: allowed)
  case (Cons p ps)
  then obtain ys where ys: "parse_part f p allowed = Inr ys" "parse_parts f ps ys = Inr xs" by (auto simp: bind_result_Inr_iff)
  from parse_part_ok [OF ys(1) Cons.prems(2,3)] Cons.prems(5) have "field_ok f ys" by blast
  then show ?case using Cons.IH [OF ys(2)] Cons.prems(5) by (simp add: field_ok_def)
qed (simp add: field_ok_def)

lemma js_split_nonempty: "js_split c s \<noteq> []"
  by (induction s) (auto split: list.splits)

lemma parseField_ok: "parseField raw f = Inr xs \<Longrightarrow> f \<in> set FIELD_RANGES \<Longrightarrow> field_ok f xs"
  unfolding parseField_def by (rule parse_parts_ok) (auto simp: FIELD_RANGES_def js_split_nonempty)

text \<open>
  A schedule that parses is well formed: each of its fields names at least one value, each at most once, and only values of its
  range, Sunday always as 0.
\<close>

theorem parsed_schedule_is_well_formed:
  assumes "parseCronExpression expression = Inr c"
  shows "schedule_ok c"
proof -
  obtain vs where vs: "length (cron_words expression) = 5" "map_result (\<lambda>(w, f). parseField w f) (zip (cron_words expression) FIELD_RANGES) = Inr vs"
      and c: "c = \<lparr>cr_minute = vs ! 0, cr_hour = vs ! 1, cr_dayOfMonth = vs ! 2, cr_month = vs ! 3, cr_dayOfWeek = vs ! 4\<rparr>"
    using assms by (auto simp: parseCronExpression_def Let_def bind_result_Inr_iff split: if_splits)
  have "length FIELD_RANGES = 5" by (simp add: FIELD_RANGES_def)
  then have "field_ok (FIELD_RANGES ! i) (vs ! i)" if "i < 5" for i
    using map_result_nth [OF vs(2), of i] vs(1) that by (intro parseField_ok [of "cron_words expression ! i"]) auto
  then show ?thesis by (simp add: c schedule_ok_def)
qed

theorem parsed_schedule_is_well_formed_witness:
  "schedule_ok \<lparr>cr_minute = [0], cr_hour = [2], cr_dayOfMonth = [1], cr_month = [12, 11, 10, 9, 8, 7, 6, 5, 4, 3, 2, 1], cr_dayOfWeek = [6, 5, 4, 3, 2, 1, 0]\<rparr>"
  by (rule parsed_schedule_is_well_formed [of "''0 2 1 * *''"]) code_simp

section \<open>Dates\<close>

lemma year_loop_date:
  assumes "1970 \<le> y" "r < year_days y"
  shows "year_loop 1970 (day_from_year y + r) = (y, r)"
proof -
  obtain y' r' where l: "year_loop 1970 (day_from_year y + r) = (y', r')" by fastforce
  from year_loop_spec [OF order_refl l]
  have l': "1970 \<le> y'" "r' < year_days y'" "day_from_year y' + r' = day_from_year y + r" by (simp_all add: day_from_year_def)
  have "\<not> y' < y" using day_from_year_mono [of "Suc y'" "y - Suc y'"] day_from_year_Suc [OF l'(1)] l' by auto
  moreover have "\<not> y < y'" using day_from_year_mono [of "Suc y" "y' - Suc y"] day_from_year_Suc [OF assms(1)] assms l' by auto
  ultimately show ?thesis using l l'(3) by simp
qed

lemma month_loop_date:
  assumes "r < month_days y m"
  shows "month_loop y 0 (day_from_month y m + r) = (m, r)"
proof -
  obtain m' r' where l: "month_loop y 0 (day_from_month y m + r) = (m', r')" by fastforce
  from month_loop_spec [OF l] have l': "r' < month_days y m'" "day_from_month y m' + r' = day_from_month y m + r" by auto
  have "\<not> m' < m" using day_from_month_mono [of "Suc m'" m y] l' by auto
  moreover have "\<not> m < m'" using day_from_month_mono [of "Suc m" m' y] assms l' by auto
  ultimately show ?thesis using l l'(2) by simp
qed

lemma date_of_date:
  assumes "1970 \<le> y" "m < 12" "d < month_days y m"
  shows "calendar_date (day_from_year y + day_from_month y m + d) = (y, m + 1, d + 1)"
proof -
  have "day_from_month y m + d < year_days y"
    using assms(2,3) day_from_month_mono [of "Suc m" 12 y] day_from_month_12 [of y] by simp
  from year_loop_date [OF assms(1) this] show ?thesis using month_loop_date [OF assms(3)] by (simp add: calendar_date_def add.assoc)
qed

lemma date_of_spec:
  assumes "calendar_date day = (y, m, d)"
  shows "1970 \<le> y" "1 \<le> m" "m \<le> 12" "1 \<le> d" "d \<le> month_days y (m - 1)" "day = day_from_year y + day_from_month y (m - 1) + (d - 1)"
proof -
  obtain dy m0 d0 where l: "year_loop 1970 day = (y, dy)" "month_loop y 0 dy = (m0, d0)" "m = m0 + 1" "d = d0 + 1"
    using assms by (auto simp: calendar_date_def split: prod.splits)
  from year_loop_spec [OF order_refl l(1)] have y: "1970 \<le> y" "dy < year_days y" "day_from_year y + dy = day" by (simp_all add: day_from_year_def)
  from month_loop_spec [OF l(2)] have m: "d0 < month_days y m0" "day_from_month y m0 + d0 = dy" by auto
  then have "m0 < 12" using day_from_month_mono [of 12 m0 y] day_from_month_12 [of y] y(2) by linarith
  then show "1970 \<le> y" "1 \<le> m" "m \<le> 12" "1 \<le> d" "d \<le> month_days y (m - 1)" "day = day_from_year y + day_from_month y (m - 1) + (d - 1)"
    using y m l(3,4) by auto
qed

section \<open>The search\<close>

lemma search_minutes_Some:
  "search_minutes c n t = Some u \<longleftrightarrow> t \<le> u \<and> u < t + n \<and> cronMatches c u \<and> (\<forall>v. t \<le> v \<longrightarrow> v < u \<longrightarrow> \<not> cronMatches c v)"
proof (induction n arbitrary: t)
  case (Suc n)
  show ?case
  proof (cases "cronMatches c t")
    case True
    then show ?thesis by (cases "t = u") auto
  next
    case False
    have ge: "t \<le> v \<longleftrightarrow> v = t \<or> Suc t \<le> v" for v by auto
    have all: "(\<forall>v. t \<le> v \<longrightarrow> v < u \<longrightarrow> \<not> cronMatches c v) \<longleftrightarrow> (\<forall>v. t + 1 \<le> v \<longrightarrow> v < u \<longrightarrow> \<not> cronMatches c v)"
      using False by (auto simp: ge)
    have e: "t \<le> u \<and> u < t + Suc n \<and> cronMatches c u \<longleftrightarrow> t + 1 \<le> u \<and> u < t + 1 + n \<and> cronMatches c u"
      using False by (cases "t = u") auto
    have step: "search_minutes c (Suc n) t = search_minutes c n (t + 1)" using False by simp
    show ?thesis using e unfolding step Suc.IH all by blast
  qed
qed auto

lemma search_minutes_finds:
  assumes "cronMatches c w" "t \<le> w" "w < t + n"
  shows "\<exists>u. search_minutes c n t = Some u"
proof -
  have "\<exists>u. (t \<le> u \<and> cronMatches c u) \<and> (\<forall>v. v < u \<longrightarrow> \<not> (t \<le> v \<and> cronMatches c v))"
    using exists_least_iff [of "\<lambda>u. t \<le> u \<and> cronMatches c u"] assms by blast
  then obtain u where u: "t \<le> u" "cronMatches c u" "\<forall>v. v < u \<longrightarrow> \<not> (t \<le> v \<and> cronMatches c v)" by blast
  moreover have "u \<le> w" using u(3) assms by (meson not_le)
  ultimately show ?thesis using assms(3) by (intro exI [of _ u]) (auto simp: search_minutes_Some)
qed

lemma nextRunAt_minute: "nextRunAt c (t * 60000) = map_option (\<lambda>u. u * 60000) (search_minutes c maxIterations (t + 1))"
  by (simp add: nextRunAt_def)

text \<open>From any later time before the run it names, the search names the same run.\<close>

lemma next_run_later:
  assumes "nextRunAt c now = Some t" "now \<le> x" "x < t"
  shows "nextRunAt c x = Some t"
proof -
  obtain u where u: "search_minutes c maxIterations (now div 60000 + 1) = Some u" "t = u * 60000"
    using assms(1) by (auto simp: nextRunAt_def)
  have "now div 60000 \<le> x div 60000" using assms(2) by (rule div_le_mono)
  moreover have "x div 60000 < u" using assms(3) u(2) by (simp add: less_mult_imp_div_less)
  ultimately have "search_minutes c maxIterations (x div 60000 + 1) = Some u"
    using u(1) by (auto simp: search_minutes_Some)
  then show ?thesis by (simp add: nextRunAt_def u(2))
qed

text \<open>Whether a schedule names a day that every year has.\<close>

definition names_common_day :: "cron \<Rightarrow> bool" where
  "names_common_day c = list_ex (\<lambda>m. list_ex (\<lambda>d. d \<le> int (month_days 2001 (nat m - 1))) (cr_dayOfMonth c)) (cr_month c)"

lemma month_days_common: "month_days 2001 m \<le> month_days y m" "28 \<le> month_days y m"
  by (auto simp: month_days_def leap_year_def)

lemma all_of_range: "distinct xs \<Longrightarrow> set xs \<subseteq> {lo..hi} \<Longrightarrow> int (length xs) = hi - lo + 1 \<Longrightarrow> set xs = {lo..hi}"
  by (rule card_subset_eq) (auto simp: distinct_card)

lemma weekday_within:
  assumes "0 \<le> w" "w < (7::int)"
  shows "\<exists>k<7. int ((day + k + 4) mod 7) = w"
proof -
  let ?k = "nat ((w - int day - 4) mod 7)"
  have "int ((day + ?k + 4) mod 7) = (int day + (w - int day - 4) mod 7 + 4) mod 7" by (simp add: zmod_int)
  also have "\<dots> = (int day + (w - int day - 4) + 4) mod 7" by (metis mod_add_left_eq mod_add_right_eq)
  also have "\<dots> = w" using assms by simp
  finally show ?thesis by (intro exI [of _ ?k]) (simp add: nat_less_iff)
qed

text \<open>In any year there is a day such a schedule allows.\<close>

lemma day_allowed:
  assumes "schedule_ok c" and "length (cr_dayOfWeek c) \<noteq> 7 \<or> names_common_day c" and "1970 \<le> y"
  shows "\<exists>day. day_from_year y \<le> day \<and> day < day_from_year (Suc y) \<and>
    (\<forall>t. t div 1440 = day \<and> minute_of t \<in> set (cr_minute c) \<and> hour_of t \<in> set (cr_hour c) \<longrightarrow> cronMatches c t)"
proof -
  have dom: "distinct (cr_dayOfMonth c)" "set (cr_dayOfMonth c) \<subseteq> {1..31}" and mon: "cr_month c \<noteq> []" "set (cr_month c) \<subseteq> {1..12}"
    and dow: "cr_dayOfWeek c \<noteq> []" "distinct (cr_dayOfWeek c)" "set (cr_dayOfWeek c) \<subseteq> {0..6}"
    using assms(1) by (auto simp: schedule_ok_def field_ok_def FIELD_RANGES_def)
  have year: "day_from_month y (Suc m) \<le> year_days y" if "m < 12" for m
    using day_from_month_mono [of "Suc m" 12 y] day_from_month_12 [of y] that by simp
  have known: "cronMatches c t" if t: "t div 1440 = day_from_year y + day_from_month y m + k" "m < 12" "k < month_days y m"
      "int (m + 1) \<in> set (cr_month c)" "minute_of t \<in> set (cr_minute c)" "hour_of t \<in> set (cr_hour c)"
      and day: "if length (cr_dayOfWeek c) \<noteq> 7 then weekday_of t \<in> set (cr_dayOfWeek c) else int (k + 1) \<in> set (cr_dayOfMonth c)" for t m k
  proof -
    have d: "month_of t = int (m + 1)" "monthday_of t = int (k + 1)"
      using date_of_date [OF assms(3) t(2,3)] t(1) by (simp_all add: month_of_def monthday_of_def)
    have "k < 31" using t(3) by (auto simp: month_days_def split: if_splits)
    then have "int (k + 1) \<in> {1..31}" by simp
    then have full: "length (cr_dayOfMonth c) = 31 \<Longrightarrow> int (k + 1) \<in> set (cr_dayOfMonth c)"
      using all_of_range [OF dom] by (simp del: of_nat_add)
    have "weekday_of t \<in> {0..6}" by (simp add: weekday_of_def)
    then have "length (cr_dayOfWeek c) = 7 \<Longrightarrow> weekday_of t \<in> set (cr_dayOfWeek c)"
      using all_of_range [OF dow(2,3)] by simp
    with full show ?thesis using t(4-6) day by (auto simp: cronMatches_def Let_def d simp del: of_nat_add split: if_splits)
  qed
  show ?thesis
  proof (cases "length (cr_dayOfWeek c) = 7")
    case True
    then obtain mm dd where md: "mm \<in> set (cr_month c)" "dd \<in> set (cr_dayOfMonth c)" "dd \<le> int (month_days 2001 (nat mm - 1))"
      using assms(2) by (auto simp: names_common_day_def list_ex_iff)
    define m k where "m = nat mm - 1" "k = nat dd - 1"
    have "1 \<le> mm" "mm \<le> 12" "1 \<le> dd" using mon(2) dom(2) md(1,2) by auto
    then have mk: "m < 12" "int (m + 1) = mm" "int (k + 1) = dd" "k < month_days y m"
      using md(3) month_days_common(1) [of m y] by (simp_all add: m_k_def) linarith
    show ?thesis
      using known [OF _ mk(1,4)] year [OF mk(1)] mk md(1,2) True
      by (intro exI [of _ "day_from_year y + day_from_month y m + k"]) (auto simp: day_from_year_Suc [OF assms(3)])
  next
    case False
    obtain mm w where md: "mm \<in> set (cr_month c)" "w \<in> set (cr_dayOfWeek c)" using mon(1) dow(1) by (meson hd_in_set)
    define m where "m = nat mm - 1"
    have m: "m < 12" "int (m + 1) = mm" using mon(2) md(1) by (auto simp: m_def subset_iff)
    have "0 \<le> w" "w < 7" using dow(3) md(2) by (auto simp: subset_iff)
    then obtain k where k: "k < 7" "int ((day_from_year y + day_from_month y m + k + 4) mod 7) = w"
      using weekday_within [of w "day_from_year y + day_from_month y m"] by blast
    have "k < month_days y m" using k(1) month_days_common(2) [of y m] by simp
    then show ?thesis
      using known [OF _ m(1), of _ k] year [OF m(1)] m md k False
      by (intro exI [of _ "day_from_year y + day_from_month y m + k"]) (auto simp: day_from_year_Suc [OF assms(3)] weekday_of_def)
  qed
qed

lemma minute_of_day:
  assumes "h < 24" "mi < 60"
  shows "(day * 1440 + h * 60 + mi) div 1440 = day" "minute_of (day * 1440 + h * 60 + mi) = int mi" "hour_of (day * 1440 + h * 60 + mi) = int h"
proof -
  have split: "day * 1440 + h * 60 + mi = 60 * (24 * day + h) + mi" by simp
  have "(60 * (24 * day + h) + mi) div 60 = 24 * day + h" using assms by simp
  then have "(day * 1440 + h * 60 + mi) div 60 = 24 * day + h" by (simp only: split)
  moreover have "x div 1440 = x div 60 div 24" for x :: nat by (simp flip: div_mult2_eq)
  moreover from calculation have "(day * 1440 + h * 60 + mi) div 1440 = (24 * day + h) div 24"
    by simp
  ultimately show "(day * 1440 + h * 60 + mi) div 1440 = day" "hour_of (day * 1440 + h * 60 + mi) = int h"
    using assms by (simp_all add: hour_of_def)
  have "(60 * (24 * day + h) + mi) mod 60 = mi" using assms(2) by (simp only: mod_mult_self4 mod_less)
  then show "minute_of (day * 1440 + h * 60 + mi) = int mi" unfolding minute_of_def split by simp
qed

text \<open>
  C35. The search is exact and always finds a run: for every schedule that parses and either restricts the day of the week or names a
  day that every year has, from any time on, the time it gives is the first full minute after that time the schedule names, and the
  four years it looks ahead are enough.
\<close>

theorem next_run_is_the_first_match:
  assumes "parseCronExpression expression = Inr c" and "length (cr_dayOfWeek c) \<noteq> 7 \<or> names_common_day c"
  shows "\<exists>t. nextRunAt c now = Some (t * 60000) \<and> now < t * 60000 \<and> cronMatches c t
    \<and> (\<forall>v. now < v * 60000 \<and> v < t \<longrightarrow> \<not> cronMatches c v)"
proof -
  let ?t0 = "now div 60000"
  obtain y r where l: "year_loop 1970 (?t0 div 1440) = (y, r)" by fastforce
  from year_loop_spec [OF order_refl l] have y: "1970 \<le> y" "r < year_days y" "day_from_year y + r = ?t0 div 1440"
    by (simp_all add: day_from_year_def)
  note ok = parsed_schedule_is_well_formed [OF assms(1)]
  obtain day where day: "day_from_year (Suc y) \<le> day" "day < day_from_year (Suc (Suc y))"
      "\<forall>t. t div 1440 = day \<and> minute_of t \<in> set (cr_minute c) \<and> hour_of t \<in> set (cr_hour c) \<longrightarrow> cronMatches c t"
    using day_allowed [OF ok assms(2), of "Suc y"] y(1) by auto
  obtain mi h where mh: "mi \<in> set (cr_minute c)" "h \<in> set (cr_hour c)"
    using ok by (metis field_ok_def hd_in_set schedule_ok_def)
  then have range: "0 \<le> mi" "mi < 60" "0 \<le> h" "h < 24"
    using ok by (auto simp: schedule_ok_def field_ok_def FIELD_RANGES_def)
  define w where "w = day * 1440 + nat h * 60 + nat mi"
  have "cronMatches c w"
    using day(3) minute_of_day [of "nat h" "nat mi" day] mh range by (auto simp: w_def)
  moreover have "?t0 + 1 \<le> w"
  proof -
    have "?t0 div 1440 < day" using y day(1) by (simp add: day_from_year_Suc)
    then have "?t0 < day * 1440" by (simp add: less_mult_imp_div_less div_less_iff_less_mult)
    then show ?thesis by (simp add: w_def)
  qed
  moreover have "w < ?t0 + 1 + maxIterations"
  proof -
    have "day < ?t0 div 1440 + 732"
      using day(2) y by (simp add: day_from_year_Suc year_days_def split: if_splits)
    then have "day * 1440 + 1440 \<le> (?t0 div 1440) * 1440 + 732 * 1440" by simp
    moreover have "(?t0 div 1440) * 1440 \<le> ?t0" by simp
    moreover have "nat h * 60 + nat mi < 1440" using range by linarith
    ultimately show ?thesis by (simp add: w_def maxIterations_def)
  qed
  ultimately obtain u where u: "search_minutes c maxIterations (?t0 + 1) = Some u" using search_minutes_finds by blast
  have after: "now < v * 60000 \<longleftrightarrow> ?t0 + 1 \<le> v" for v
    by (simp add: Suc_le_eq div_less_iff_less_mult)
  show ?thesis using u after by (intro exI [of _ u]) (auto simp: nextRunAt_def search_minutes_Some)
qed

theorem next_run_is_the_first_match_witness:
  "\<exists>t. nextRunAt \<lparr>cr_minute = [0], cr_hour = [2], cr_dayOfMonth = [1], cr_month = [12, 11, 10, 9, 8, 7, 6, 5, 4, 3, 2, 1],
     cr_dayOfWeek = [6, 5, 4, 3, 2, 1, 0]\<rparr> 1000 = Some (t * 60000) \<and> 1000 < t * 60000"
proof -
  let ?c = "\<lparr>cr_minute = [0], cr_hour = [2], cr_dayOfMonth = [1], cr_month = [12, 11, 10, 9, 8, 7, 6, 5, 4, 3, 2, 1],
     cr_dayOfWeek = [6, 5, 4, 3, 2, 1, 0 :: int]\<rparr>"
  have "parseCronExpression ''0 2 1 * *'' = Inr ?c" "names_common_day ?c" by code_simp+
  then show ?thesis using next_run_is_the_first_match [of "''0 2 1 * *''" ?c 1000] by blast
qed

section \<open>Jobs\<close>

text \<open>\<open>cj_waiting\<close>: the timers of the job that wait in the event loop, with the times they fire at; \<open>cj_runs\<close>: when the task was started.\<close>

record cron_job =
  cj_parsed :: cron
  cj_timer :: "nat option"
  cj_running :: bool
  cj_nextRun :: "nat option"
  cj_waiting :: "(nat \<times> nat) list"
  cj_fresh :: nat
  cj_runs :: "nat list"

definition new_CronJob :: "string \<Rightarrow> string + cron_job" where
  "new_CronJob expression = bind_result (parseCronExpression expression) (\<lambda>c. Inr \<lparr>cj_parsed = c, cj_timer = None, cj_running = False,
     cj_nextRun = None, cj_waiting = [], cj_fresh = 0, cj_runs = []\<rparr>)"

text \<open>\<open>setTimeout\<close>: a delay that does not fit 31 bits is 1 millisecond, and so is one below 1.\<close>

definition timeout_delay :: "nat \<Rightarrow> nat" where
  "timeout_delay d = (if d < 1 \<or> 2147483647 < d then 1 else d)"

text \<open>The clock is read for the search and again for the delay.\<close>

definition schedule :: "nat \<Rightarrow> nat \<Rightarrow> cron_job \<Rightarrow> cron_job" where
  "schedule now now' j = (case nextRunAt (cj_parsed j) now of None \<Rightarrow> j
   | Some t \<Rightarrow> j\<lparr>cj_nextRun := Some t, cj_timer := Some (cj_fresh j), cj_fresh := cj_fresh j + 1,
       cj_waiting := cj_waiting j @ [(cj_fresh j, now' + timeout_delay (t - now'))]\<rparr>)"

definition cron_start :: "nat \<Rightarrow> nat \<Rightarrow> cron_job \<Rightarrow> cron_job" where
  "cron_start now now' j = (if cj_timer j \<noteq> None then j else schedule now now' j)"

definition cron_run :: "nat \<Rightarrow> nat \<Rightarrow> cron_job \<Rightarrow> cron_job" where
  "cron_run now now' j = (if cj_running j then schedule now now' j else j\<lparr>cj_running := True, cj_runs := cj_runs j @ [now]\<rparr>)"

definition timer_fires :: "nat \<Rightarrow> nat \<Rightarrow> nat \<Rightarrow> cron_job \<Rightarrow> cron_job" where
  "timer_fires i now now' j = cron_run now now' (j\<lparr>cj_waiting := filter (\<lambda>(i', _). i' \<noteq> i) (cj_waiting j), cj_timer := None\<rparr>)"

text \<open>The task settles, with or without an error: the \<open>finally\<close> of \<open>run\<close>.\<close>

definition task_ends :: "nat \<Rightarrow> nat \<Rightarrow> cron_job \<Rightarrow> cron_job" where
  "task_ends now now' j = schedule now now' (j\<lparr>cj_running := False\<rparr>)"

definition cron_stop :: "cron_job \<Rightarrow> cron_job" where
  "cron_stop j = (let j' = (case cj_timer j of Some i \<Rightarrow> j\<lparr>cj_waiting := filter (\<lambda>(i', _). i' \<noteq> i) (cj_waiting j)\<rparr> | None \<Rightarrow> j) in
     j'\<lparr>cj_timer := None, cj_nextRun := None\<rparr>)"

datatype cron_event = Starts nat nat | Fires nat nat nat | TaskEnds nat nat | Stops

inductive cron_step :: "cron_job \<Rightarrow> cron_event \<Rightarrow> cron_job \<Rightarrow> bool" where
  step_start: "cron_step j (Starts now now') (cron_start now now' j)"
| step_fire: "(i, due) \<in> set (cj_waiting j) \<Longrightarrow> due \<le> now \<Longrightarrow> cron_step j (Fires i now now') (timer_fires i now now' j)"
| step_end: "cj_running j \<Longrightarrow> cron_step j (TaskEnds now now') (task_ends now now' j)"
| step_stop: "cron_step j Stops (cron_stop j)"

inductive_cases cron_stepE: "cron_step j e j'"

definition monthly_billing :: cron where
  "monthly_billing = \<lparr>cr_minute = [0], cr_hour = [2], cr_dayOfMonth = [1], cr_month = [12, 11, 10, 9, 8, 7, 6, 5, 4, 3, 2, 1],
     cr_dayOfWeek = [6, 5, 4, 3, 2, 1, 0]\<rparr>"

definition monthlyBillingJob :: cron_job where
  "monthlyBillingJob = (case new_CronJob ''0 2 1 * *'' of Inr j \<Rightarrow> j)"

lemma billing_schedule: "cj_parsed monthlyBillingJob = monthly_billing"
  by code_simp

section \<open>A run that is far away\<close>

text \<open>Each timer fires when it is due, and the task takes no time.\<close>

primrec firing_rounds :: "nat \<Rightarrow> nat \<Rightarrow> cron_event list" where
  "firing_rounds now 0 = []"
| "firing_rounds now (Suc n) = firing_rounds now n @ [Fires n (now + n + 1) (now + n + 1), TaskEnds (now + n + 1) (now + n + 1)]"

lemma fire_far:
  assumes "\<not> cj_running j" "cj_waiting j = [(n, now)]" 
  shows "cron_step j (Fires n now now) (j\<lparr>cj_waiting := [], cj_timer := None, cj_running := True, cj_runs := cj_runs j @ [now]\<rparr>)"
  using step_fire [of n now j now now] assms by (simp add: timer_fires_def cron_run_def)

lemma schedule_far:
  assumes "nextRunAt (cj_parsed j) now = Some t" "now + 2147483647 < t"
  shows "schedule now now j = j\<lparr>cj_nextRun := Some t, cj_timer := Some (cj_fresh j), cj_fresh := cj_fresh j + 1,
    cj_waiting := cj_waiting j @ [(cj_fresh j, now + 1)]\<rparr>"
  using assms by (simp add: schedule_def timeout_delay_def)

text \<open>
  A run more than 2147483647 milliseconds away is not waited for: its timer fires after one millisecond. A job that is started
  then runs its task at once, and again every millisecond, as long as the next run stays that far away.
\<close>

lemma far_run_starts_at_once:
  assumes "new_CronJob expression = Inr j" and "nextRunAt (cj_parsed j) now = Some t" and "now + n + 2147483647 < t"
  shows "\<exists>j'. exec cron_step j (Starts now now # firing_rounds now n) j' \<and> cj_runs j' = map (\<lambda>i. now + i + 1) [0..<n]"
proof -
  have j: "cj_timer j = None" "\<not> cj_running j" "cj_waiting j = []" "cj_fresh j = 0" "cj_runs j = []"
    using assms(1) by (auto simp: new_CronJob_def bind_result_Inr_iff)
  have next_run: "nextRunAt (cj_parsed j) (now + k) = Some t" if "k \<le> n" for k
    using next_run_later [OF assms(2), of "now + k"] assms(3) that by simp
  have "\<exists>j'. exec cron_step j (Starts now now # firing_rounds now k) j' \<and> cj_runs j' = map (\<lambda>i. now + i + 1) [0..<k] \<and> cj_parsed j' = cj_parsed j
      \<and> \<not> cj_running j' \<and> cj_waiting j' = [(k, now + k + 1)] \<and> cj_fresh j' = k + 1" if "k \<le> n" for k
    using that
  proof (induction k)
    case 0
    have "cron_start now now j = schedule now now j" by (simp add: cron_start_def j)
    moreover have "cron_step j (Starts now now) (cron_start now now j)" by (rule step_start)
    ultimately show ?case
      using schedule_far [of j now t] next_run [of 0] assms(3) j by (intro exI [of _ "schedule now now j"]) simp
  next
    case (Suc k)
    then obtain j1 where j1: "exec cron_step j (Starts now now # firing_rounds now k) j1" "cj_runs j1 = map (\<lambda>i. now + i + 1) [0..<k]"
        "cj_parsed j1 = cj_parsed j" "\<not> cj_running j1" "cj_waiting j1 = [(k, now + k + 1)]" "cj_fresh j1 = k + 1"
      by auto
    let ?now = "now + k + 1"
    let ?j2 = "j1\<lparr>cj_waiting := [], cj_timer := None, cj_running := True, cj_runs := cj_runs j1 @ [?now]\<rparr>"
    have fire: "cron_step j1 (Fires k ?now ?now) ?j2" by (rule fire_far [OF j1(4,5)])
    have ends: "cron_step ?j2 (TaskEnds ?now ?now) (task_ends ?now ?now ?j2)" by (rule step_end) simp
    have after: "task_ends ?now ?now ?j2 = ?j2\<lparr>cj_running := False, cj_nextRun := Some t, cj_timer := Some (k + 1), cj_fresh := k + 2,
        cj_waiting := [(k + 1, ?now + 1)]\<rparr>"
      using schedule_far [of "?j2\<lparr>cj_running := False\<rparr>" ?now t] next_run [of "k + 1"] Suc.prems assms(3) j1(3,6)
      by (simp add: task_ends_def)
    have "exec cron_step j (Starts now now # firing_rounds now (Suc k)) (task_ends ?now ?now ?j2)"
      using j1(1) fire ends by (auto simp: exec_append)
    moreover have "cj_runs (task_ends ?now ?now ?j2) = map (\<lambda>i. now + i + 1) [0..<Suc k]"
      "cj_parsed (task_ends ?now ?now ?j2) = cj_parsed j" "\<not> cj_running (task_ends ?now ?now ?j2)"
      "cj_waiting (task_ends ?now ?now ?j2) = [(Suc k, now + Suc k + 1)]" "cj_fresh (task_ends ?now ?now ?j2) = Suc k + 1"
      unfolding after using j1(2,3) by simp_all
    ultimately show ?case by blast
  qed
  from this [of n] show ?thesis by blast
qed

lemma clock_minute: "hour_of v = 2 \<Longrightarrow> minute_of v = 0 \<Longrightarrow> v = v div 1440 * 1440 + 120"
proof -
  assume "hour_of v = 2" "minute_of v = 0"
  then have a: "v div 60 mod 24 = 2" "v mod 60 = 0" by (simp_all add: hour_of_def minute_of_def)
  have "v div 1440 = v div 60 div 24" by (simp flip: div_mult2_eq)
  with a show ?thesis using div_mult_mod_eq [of v 60] div_mult_mod_eq [of "v div 60" 24] by linarith
qed

definition month_start :: "nat \<Rightarrow> nat \<Rightarrow> nat" where
  "month_start y m = day_from_year y + day_from_month y m"

text \<open>Billing runs at 02:00 of the first of each month: the run after that of a month is that of the next one.\<close>

lemma next_billing:
  assumes "1970 \<le> y" "m < 12"
  shows "nextRunAt monthly_billing ((month_start y m * 1440 + 120) * 60000) = Some (((month_start y m + month_days y m) * 1440 + 120) * 60000)"
proof -
  let ?d = "month_start y m" and ?n = "month_days y m"
  have n: "28 \<le> ?n" "?n \<le> 31" using month_days_common(2) [of y m] by (auto simp: month_days_def)
  have first: "snd (snd (calendar_date (?d + ?n))) = 1"
  proof (cases "m < 11")
    case True
    then have "calendar_date (day_from_year y + day_from_month y (Suc m) + 0) = (y, Suc m + 1, 0 + 1)"
      by (intro date_of_date [OF assms(1)]) (simp_all add: month_days_pos)
    then show ?thesis by (simp add: month_start_def add.assoc)
  next
    case False
    then have "m = 11" using assms(2) by simp
    then have "?d + ?n = day_from_year (Suc y)"
      using day_from_month_12 [of y] by (simp add: month_start_def day_from_year_Suc [OF assms(1)] eval_nat_numeral)
    moreover have "calendar_date (day_from_year (Suc y) + day_from_month (Suc y) 0 + 0) = (Suc y, 0 + 1, 0 + 1)"
      using assms(1) by (intro date_of_date) (simp_all add: month_days_pos)
    ultimately show ?thesis by simp
  qed
  have inside: "snd (snd (calendar_date (?d + k))) = k + 1" if "k < ?n" for k
    using date_of_date [OF assms(1,2) that] by (simp add: month_start_def)
  have all: "month_of t \<in> set (cr_month monthly_billing)" "weekday_of t \<in> set (cr_dayOfWeek monthly_billing)" for t
  proof -
    obtain y' m' d' where "calendar_date (t div 1440) = (y', m', d')" by (cases "calendar_date (t div 1440)") auto
    then have "int m' \<in> {1..12}" "month_of t = int m'" using date_of_spec(2,3) [of "t div 1440" y' m' d'] by (simp_all add: month_of_def)
    moreover have "i \<in> {1..12} \<Longrightarrow> i \<in> set (cr_month monthly_billing)" for i
      by (simp add: monthly_billing_def) arith
    ultimately show "month_of t \<in> set (cr_month monthly_billing)" by (simp only:)
    have "weekday_of t \<in> {0..6}" by (simp add: weekday_of_def)
    moreover have "i \<in> {0..6} \<Longrightarrow> i \<in> set (cr_dayOfWeek monthly_billing)" for i
      by (simp add: monthly_billing_def) arith
    ultimately show "weekday_of t \<in> set (cr_dayOfWeek monthly_billing)" by (simp only:)
  qed
  have names: "cronMatches monthly_billing t \<longleftrightarrow> minute_of t = 0 \<and> hour_of t = 2 \<and> snd (snd (calendar_date (t div 1440))) = 1" for t
    using all [of t] by (auto simp: cronMatches_def monthly_billing_def monthday_of_def)
  have "cronMatches monthly_billing ((?d + ?n) * 1440 + 120)"
    using minute_of_day [of 2 0 "?d + ?n"] first by (simp add: names)
  moreover have "\<not> cronMatches monthly_billing v" if v: "?d * 1440 + 120 < v" "v < (?d + ?n) * 1440 + 120" for v
  proof
    assume "cronMatches monthly_billing v"
    then have c: "v = v div 1440 * 1440 + 120" "snd (snd (calendar_date (v div 1440))) = 1" using clock_minute by (auto simp: names)
    have "v div 1440 * 1440 < (?d + ?n) * 1440" "?d * 1440 < v div 1440 * 1440" using c(1) v by linarith+
    then have "?d < v div 1440" "v div 1440 < ?d + ?n" by simp_all
    then have "v div 1440 = ?d + (v div 1440 - ?d)" "0 < v div 1440 - ?d" "v div 1440 - ?d < ?n" by linarith+
    then obtain k where "v div 1440 = ?d + k" "0 < k" "k < ?n" by blast
    then show False using inside [of k] c(2) by simp
  qed
  ultimately have "search_minutes monthly_billing maxIterations (?d * 1440 + 120 + 1) = Some ((?d + ?n) * 1440 + 120)"
    using n by (auto simp: search_minutes_Some maxIterations_def)
  then show ?thesis by (simp only: nextRunAt_minute option.map)
qed



text \<open>A restricted day of the week, or a day every year has, is needed: the 29th of February is not found from 2096 on.\<close>

definition leap_days :: cron where
  "leap_days = monthly_billing\<lparr>cr_dayOfMonth := [29], cr_month := [2]\<rparr>"

lemma leap_days_parsed: "parseCronExpression ''0 2 29 2 *'' = Inr leap_days"
  by code_simp

theorem leap_day_of_2104_is_out_of_reach:
  "nextRunAt leap_days (((day_from_year 2096 + 59) * 1440 + 120) * 60000) = None"
proof -
  let ?d = "day_from_year 2096 + 59"
  have "\<not> cronMatches leap_days v" if v: "?d * 1440 + 120 < v" "v < ?d * 1440 + 121 + maxIterations" for v
  proof
    assume "cronMatches leap_days v"
    then have c: "v = v div 1440 * 1440 + 120" "month_of v = 2" "monthday_of v = 29"
      using clock_minute by (auto simp: cronMatches_def leap_days_def monthly_billing_def Let_def)
    obtain y m d where md: "calendar_date (v div 1440) = (y, m, d)" by (cases "calendar_date (v div 1440)") auto
    note date = date_of_spec [OF md]
    have "m = 2" "d = 29" using c(2,3) by (simp_all add: month_of_def monthday_of_def md)
    then have y: "leap_year y" "v div 1440 = day_from_year y + 59"
      using date(5,6) by (auto simp: month_days_def split: if_splits)
    have d: "?d < v div 1440" "v div 1440 \<le> ?d + 1464" using v c(1) by (simp_all add: maxIterations_def)
    then have far: "day_from_year 2096 < day_from_year y" "day_from_year y \<le> day_from_year 2096 + 1464" using y(2) by simp_all
    have far_end: "day_from_year 2096 + 1464 < day_from_year 2101" by (simp add: day_from_year_def)
    have "day_from_year a \<le> day_from_year b" if "1970 \<le> a" "a \<le> b" for a b
      using day_from_year_mono [of a "b - a"] that by simp
    note mono = this
    have "2096 < y" using mono [of y 2096] date(1) far(1) by (cases "y \<le> 2096") simp_all
    moreover have "y < 2101" using mono [of 2101 y] far(2) far_end by (cases "2101 \<le> y") simp_all
    ultimately have "y \<in> {2097, 2098, 2099, 2100}" by auto
    then show False using y(1) by (auto simp: leap_year_def)
  qed
  then have "search_minutes leap_days maxIterations (?d * 1440 + 120 + 1) = None"
    using search_minutes_Some [of leap_days maxIterations "?d * 1440 + 120 + 1"]
    by (cases "search_minutes leap_days maxIterations (?d * 1440 + 120 + 1)") auto
  then show ?thesis by (simp only: nextRunAt_minute option.map)
qed

section \<open>Stopping\<close>

text \<open>What holds when a job is not started while its task runs: at most one timer waits, and the job knows it.\<close>

definition one_chain :: "cron_job \<Rightarrow> bool" where
  "one_chain j \<longleftrightarrow> (case cj_timer j of None \<Rightarrow> cj_waiting j = [] | Some i \<Rightarrow> \<not> cj_running j \<and> map fst (cj_waiting j) = [i])"

lemma schedule_one_chain: "\<not> cj_running j \<Longrightarrow> cj_waiting j = [] \<Longrightarrow> cj_timer j = None \<Longrightarrow> one_chain (schedule now now' j)"
  by (simp add: schedule_def one_chain_def split: option.split)

lemma one_chain_step:
  assumes "one_chain j" and "cron_step j e j'" and "cj_running j \<longrightarrow> \<not> (\<exists>now now'. e = Starts now now')"
  shows "one_chain j'"
  using assms(2)
proof (cases rule: cron_step.cases)
  case (step_start now now')
  then show ?thesis using assms(1,3) schedule_one_chain [of j now now'] by (auto simp: cron_start_def one_chain_def split: option.splits)
next
  case (step_fire i due now now')
  then obtain k where "cj_timer j = Some k" "\<not> cj_running j" "map fst (cj_waiting j) = [k]"
    using assms(1) by (auto simp: one_chain_def split: option.splits)
  moreover from this have "i = k" using step_fire by (auto simp: map_eq_Cons_conv)
  ultimately show ?thesis using step_fire by (auto simp: timer_fires_def cron_run_def one_chain_def map_eq_Cons_conv)
next
  case (step_end now now')
  then show ?thesis using assms(1) schedule_one_chain [of "j\<lparr>cj_running := False\<rparr>" now now']
    by (auto simp: task_ends_def one_chain_def split: option.splits)
next
  case step_stop
  then show ?thesis using assms(1) by (auto simp: cron_stop_def one_chain_def map_eq_Cons_conv Let_def split: option.splits)
qed

text \<open>Events in which no start falls into a run of the task.\<close>

definition quiet_step :: "cron_job \<Rightarrow> cron_event \<Rightarrow> cron_job \<Rightarrow> bool" where
  "quiet_step j e j' \<longleftrightarrow> cron_step j e j' \<and> (cj_running j \<longrightarrow> \<not> (\<exists>now now'. e = Starts now now'))"

interpretation chain: machine "\<lambda>j. \<exists>expression. new_CronJob expression = Inr j" quiet_step one_chain
proof unfold_locales
  show "\<exists>expression. new_CronJob expression = Inr j \<Longrightarrow> one_chain j" for j
    by (auto simp: one_chain_def new_CronJob_def bind_result_Inr_iff)
  show "one_chain j \<Longrightarrow> quiet_step j e j' \<Longrightarrow> one_chain j'" for j e j'
    unfolding quiet_step_def using one_chain_step by blast
qed

definition silent :: "cron_job \<Rightarrow> bool" where
  "silent j \<longleftrightarrow> cj_waiting j = [] \<and> \<not> cj_running j \<and> cj_timer j = None"

definition is_start :: "cron_event \<Rightarrow> bool" where
  "is_start e = (case e of Starts _ _ \<Rightarrow> True | _ \<Rightarrow> False)"

interpretation stopped: stable_machine "\<lambda>j e j'. cron_step j e j' \<and> \<not> is_start e" "\<lambda>j. silent j \<and> cj_runs j = runs"
  by unfold_locales (auto simp: is_start_def silent_def cron_stop_def Let_def elim!: cron_stepE)

text \<open>
  A job that is never started while its task runs has at most one timer, so a stop between two runs is final: the task is not run
  again unless the job is started.
\<close>

theorem stop_between_runs_is_final:
  assumes "new_CronJob expression = Inr j0" and "exec quiet_step j0 es j" and "\<not> cj_running j"
    and "exec (\<lambda>j e j'. cron_step j e j' \<and> \<not> is_start e) (cron_stop j) es' j'"
  shows "length (cj_waiting j) \<le> 1 \<and> cj_runs j' = cj_runs j \<and> cj_waiting j' = []"
proof -
  have "one_chain j" using chain.reachable_inv assms(1,2) by blast
  then have "length (cj_waiting j) \<le> 1" "silent (cron_stop j) \<and> cj_runs (cron_stop j) = cj_runs j"
    using assms(3) by (auto simp: one_chain_def silent_def cron_stop_def Let_def map_eq_Cons_conv split: option.splits)
  moreover from stopped.exec_stable [OF assms(4) this(2)] have "silent j' \<and> cj_runs j' = cj_runs j" .
  ultimately show ?thesis by (simp add: silent_def)
qed

text \<open>
  A stop during a run does not stop the job: as soon as the task ends it is scheduled again, and no further stop was asked for.
\<close>

theorem stop_during_a_run_is_lost:
  assumes "cj_running j" and "nextRunAt (cj_parsed j) now = Some t"
  shows "\<exists>j'. exec cron_step j [Stops, TaskEnds now now'] j' \<and> \<not> cj_running j' \<and> cj_nextRun j' = Some t
    \<and> (\<exists>i. cj_timer j' = Some i \<and> (i, now' + timeout_delay (t - now')) \<in> set (cj_waiting j'))"
proof -
  let ?j = "task_ends now now' (cron_stop j)"
  have "cj_parsed (cron_stop j) = cj_parsed j" "cj_running (cron_stop j)"
    using assms(1) by (auto simp: cron_stop_def Let_def split: option.split)
  then have "exec cron_step j [Stops, TaskEnds now now'] ?j" "\<not> cj_running ?j" "cj_nextRun ?j = Some t"
      "cj_timer ?j = Some (cj_fresh (cron_stop j))" "(cj_fresh (cron_stop j), now' + timeout_delay (t - now')) \<in> set (cj_waiting ?j)"
    using assms(2) step_stop [of j] step_end [of "cron_stop j" now now'] by (auto simp: task_ends_def schedule_def)
  then show ?thesis by blast
qed

end
