(* ===== verification/ConnPool.thy ===== *)
theory ConnPool
  imports Machine "HOL-Library.Multiset"
begin

text \<open>
  Models \<open>server/src/connection-pool.js\<close>. Its operations are asynchronous: each is cut at its \<open>await\<close>s, and what is left of it is a
  task that is resumed with the outcome of what it waited for, in any order with the others.

  The factory and the health check of a connection are arguments, as is the clock. \<open>initialize\<close> is taken in one piece, since it runs
  before the pool is used. A sweep that is under way when the pool is drained, which goes on over the old array, is not modelled, nor
  are the metrics registry and the log.
\<close>

section \<open>Connections and the pool\<close>

record conn =
  co_id :: string
  co_createdAt :: int
  co_lastUsedAt :: int
  co_healthy :: bool
  co_healthCheck :: bool

datatype pool_task =
    AcquireChecks conn
  | AcquireCreates
  | ReleaseCloses conn
  | ReleaseChecks conn
  | Sweeps nat conn "conn list"
  | SweepCloses "conn list"
  | Drains

record conn_pool =
  cp_name :: string
  cp_maxPoolSize :: int
  cp_idleTimeoutMs :: int
  cp_maxConnectionAgeMs :: int
  cp_recycleThreshold :: rat
  cp_leakThresholdMs :: int
  cp_connections :: "(string, conn) jsmap"
  cp_available :: "conn list"
  cp_inUse :: "string list"
  cp_totalConnections :: int
  cp_activeConnections :: nat
  cp_idleConnections :: nat
  cp_totalRequests :: nat
  cp_totalReleases :: nat
  cp_totalErrors :: nat
  cp_leakDetectedCount :: nat
  cp_closed :: bool
  cp_tasks :: "(nat, pool_task) jsmap"
  cp_results :: "(nat \<times> (string + conn)) list"

definition new_pool :: "string \<Rightarrow> int \<Rightarrow> int \<Rightarrow> int \<Rightarrow> rat \<Rightarrow> int \<Rightarrow> conn_pool" where
  "new_pool name maxSize idle maxAge recycle leak = \<lparr>cp_name = name, cp_maxPoolSize = maxSize, cp_idleTimeoutMs = idle,
     cp_maxConnectionAgeMs = maxAge, cp_recycleThreshold = recycle, cp_leakThresholdMs = leak, cp_connections = [], cp_available = [],
     cp_inUse = [], cp_totalConnections = 0, cp_activeConnections = 0, cp_idleConnections = 0, cp_totalRequests = 0, cp_totalReleases = 0,
     cp_totalErrors = 0, cp_leakDetectedCount = 0, cp_closed = False, cp_tasks = [], cp_results = []\<rparr>"

text \<open>What the factory gave for each connection, \<open>None\<close> for an error\<close>

definition initialize :: "conn option list \<Rightarrow> conn_pool \<Rightarrow> conn_pool" where
  "initialize cs s = (let made = List.map_filter id cs; av = cp_available s @ made in
     s\<lparr>cp_available := av, cp_connections := fold (\<lambda>c. jm_set (co_id c) c) made (cp_connections s), cp_totalConnections := int (length av)\<rparr>)"

definition isConnectionHealthy :: "int \<Rightarrow> bool \<Rightarrow> conn \<Rightarrow> conn_pool \<Rightarrow> bool" where
  "isConnectionHealthy now answers c s = (co_healthy c \<and> \<not> cp_maxConnectionAgeMs s < now - co_createdAt c
     \<and> \<not> cp_idleTimeoutMs s < now - co_lastUsedAt c \<and> (co_healthCheck c \<longrightarrow> answers))"

definition await :: "nat \<Rightarrow> pool_task \<Rightarrow> conn_pool \<Rightarrow> conn_pool" where
  "await i t s = s\<lparr>cp_tasks := jm_set i t (cp_tasks s)\<rparr>"

definition settles :: "nat \<Rightarrow> string + conn \<Rightarrow> conn_pool \<Rightarrow> conn_pool" where
  "settles i r s = s\<lparr>cp_results := cp_results s @ [(i, r)]\<rparr>"

definition quote_name :: "conn_pool \<Rightarrow> string" where
  "quote_name s = [CHR 39] @ cp_name s @ [CHR 39]"

section \<open>Acquiring and releasing\<close>

definition drop_connection :: "conn \<Rightarrow> conn_pool \<Rightarrow> conn_pool" where
  "drop_connection c s = s\<lparr>cp_connections := jm_delete (co_id c) (cp_connections s), cp_totalConnections := cp_totalConnections s - 1\<rparr>"

text \<open>The loop over the available connections and what follows it, up to the next \<open>await\<close>.\<close>

definition next_connection :: "nat \<Rightarrow> conn_pool \<Rightarrow> conn_pool" where
  "next_connection i s = (if cp_available s \<noteq> [] then await i (AcquireChecks (last (cp_available s))) (s\<lparr>cp_available := butlast (cp_available s)\<rparr>)
     else if cp_totalConnections s < cp_maxPoolSize s then await i AcquireCreates s
     else settles i (Inl (''Connection pool '' @ quote_name s @ '' exhausted (max: '' @ int_to_string (cp_maxPoolSize s) @ '')'')) s)"

definition grant_connection :: "nat \<Rightarrow> conn \<Rightarrow> conn_pool \<Rightarrow> conn_pool" where
  "grant_connection i c s = (let used = (if co_id c \<in> set (cp_inUse s) then cp_inUse s else cp_inUse s @ [co_id c]) in
     settles i (Inr c) (s\<lparr>cp_inUse := used, cp_activeConnections := length used\<rparr>))"

definition acquire :: "nat \<Rightarrow> conn_pool \<Rightarrow> conn_pool" where
  "acquire i s = (if cp_closed s then settles i (Inl (''Connection pool '' @ quote_name s @ '' is closed'')) s
     else next_connection i (s\<lparr>cp_totalRequests := cp_totalRequests s + 1\<rparr>))"

definition acquire_checked :: "nat \<Rightarrow> bool \<Rightarrow> conn \<Rightarrow> conn_pool \<Rightarrow> conn_pool" where
  "acquire_checked i healthy c s = (if healthy then grant_connection i c s else next_connection i (drop_connection c s))"

definition acquire_created :: "nat \<Rightarrow> string + conn \<Rightarrow> conn_pool \<Rightarrow> conn_pool" where
  "acquire_created i r s = (case r of
     Inr c \<Rightarrow> grant_connection i c (s\<lparr>cp_connections := jm_set (co_id c) c (cp_connections s), cp_totalConnections := cp_totalConnections s + 1\<rparr>)
   | Inl message \<Rightarrow> settles i (Inl (''Failed to acquire connection: '' @ message)) (s\<lparr>cp_totalErrors := cp_totalErrors s + 1\<rparr>))"

definition release :: "nat \<Rightarrow> conn \<Rightarrow> int \<Rightarrow> conn_pool \<Rightarrow> conn_pool" where
  "release i c now s = (if \<not> jm_has (cp_connections s) (co_id c) then s
     else (let s1 = s\<lparr>cp_totalReleases := cp_totalReleases s + 1, cp_inUse := filter (\<lambda>x. x \<noteq> co_id c) (cp_inUse s)\<rparr> in
       await i (if of_int (cp_maxConnectionAgeMs s) * cp_recycleThreshold s < of_int (now - co_createdAt c) then ReleaseCloses c else ReleaseChecks c) s1))"

definition release_checked :: "bool \<Rightarrow> conn \<Rightarrow> conn_pool \<Rightarrow> conn_pool" where
  "release_checked healthy c s = (let s1 = (if healthy then s\<lparr>cp_available := cp_available s @ [c]\<rparr> else drop_connection c s) in
     s1\<lparr>cp_activeConnections := length (cp_inUse s1), cp_idleConnections := length (cp_available s1)\<rparr>)"

section \<open>The timers, and closing\<close>

definition sweep_remove :: "nat \<Rightarrow> conn list \<Rightarrow> conn_pool \<Rightarrow> conn_pool" where
  "sweep_remove i rm s = (case rm of [] \<Rightarrow> s
   | c # cs \<Rightarrow> await i (SweepCloses cs) (drop_connection c (s\<lparr>cp_available := remove1 c (cp_available s)\<rparr>)))"

definition sweep_next :: "nat \<Rightarrow> nat \<Rightarrow> conn list \<Rightarrow> conn_pool \<Rightarrow> conn_pool" where
  "sweep_next i k rm s = (if k < length (cp_available s) then await i (Sweeps k (cp_available s ! k) rm) s else sweep_remove i rm s)"

definition sweep :: "nat \<Rightarrow> conn_pool \<Rightarrow> conn_pool" where
  "sweep i s = (if cp_closed s then s else sweep_next i 0 [] s)"

definition detect_leaks :: "int \<Rightarrow> conn_pool \<Rightarrow> conn_pool" where
  "detect_leaks now s = (if cp_closed s then s else s\<lparr>cp_leakDetectedCount := cp_leakDetectedCount s
     + length (filter (\<lambda>x. case jm_get (cp_connections s) x of Some c \<Rightarrow> cp_leakThresholdMs s < now - co_lastUsedAt c | None \<Rightarrow> False) (cp_inUse s))\<rparr>)"

definition close_pool :: "nat \<Rightarrow> conn_pool \<Rightarrow> conn_pool" where
  "close_pool i s = (if cp_closed s then s else await i Drains (s\<lparr>cp_closed := True\<rparr>))"

definition drained :: "conn_pool \<Rightarrow> conn_pool" where
  "drained s = s\<lparr>cp_connections := [], cp_available := [], cp_inUse := [], cp_totalConnections := 0, cp_activeConnections := 0, cp_idleConnections := 0\<rparr>"

definition poolStats :: "conn_pool \<Rightarrow> nat \<times> nat \<times> nat" where
  "poolStats s = (length (cp_connections s), length (cp_inUse s), length (cp_available s))"

text \<open>The outcome a task waits for: the time, whether a health check succeeded, and what the factory gave.\<close>

definition resume :: "nat \<Rightarrow> int \<Rightarrow> bool \<Rightarrow> string + conn \<Rightarrow> conn_pool \<Rightarrow> conn_pool" where
  "resume i now answers made s = (case jm_get (cp_tasks s) i of None \<Rightarrow> s
   | Some t \<Rightarrow> (let s1 = s\<lparr>cp_tasks := jm_delete i (cp_tasks s)\<rparr> in
       case t of
         AcquireChecks c \<Rightarrow> acquire_checked i (isConnectionHealthy now answers c s) c s1
       | AcquireCreates \<Rightarrow> acquire_created i made s1
       | ReleaseCloses c \<Rightarrow> drop_connection c s1
       | ReleaseChecks c \<Rightarrow> release_checked (isConnectionHealthy now answers c s) c s1
       | Sweeps k c rm \<Rightarrow> sweep_next i (k + 1) (if isConnectionHealthy now answers c s then rm else rm @ [c]) s1
       | SweepCloses rm \<Rightarrow> sweep_remove i rm s1
       | Drains \<Rightarrow> drained s1))"

datatype pool_event =
    Acquires nat
  | Releases nat conn int
  | Resumes nat int bool "string + conn"
  | SweepStarts nat
  | LeakCheck int
  | ClosesPool nat

fun pool_do :: "pool_event \<Rightarrow> conn_pool \<Rightarrow> conn_pool" where
  "pool_do (Acquires i) s = acquire i s"
| "pool_do (Releases i c now) s = release i c now s"
| "pool_do (Resumes i now answers made) s = resume i now answers made s"
| "pool_do (SweepStarts i) s = sweep i s"
| "pool_do (LeakCheck now) s = detect_leaks now s"
| "pool_do (ClosesPool i) s = close_pool i s"

section \<open>No connection is shared\<close>

text \<open>
  The events of a disciplined use: each connection is released once, by whoever holds it, new connections have new ids, and the pool
  is neither swept nor closed.
\<close>

fun disciplined :: "conn_pool \<Rightarrow> pool_event \<Rightarrow> bool" where
  "disciplined s (Acquires i) \<longleftrightarrow> \<not> jm_has (cp_tasks s) i"
| "disciplined s (Releases i c now) \<longleftrightarrow> \<not> jm_has (cp_tasks s) i \<and> co_id c \<in> set (cp_inUse s)"
| "disciplined s (Resumes i now answers made) \<longleftrightarrow> (case made of Inr c \<Rightarrow> \<not> jm_has (cp_connections s) (co_id c) | Inl _ \<Rightarrow> True)"
| "disciplined s (LeakCheck now) \<longleftrightarrow> True"
| "disciplined s e \<longleftrightarrow> False"

definition disciplined_step :: "conn_pool \<Rightarrow> pool_event \<Rightarrow> conn_pool \<Rightarrow> bool" where
  "disciplined_step s e s' \<longleftrightarrow> disciplined s e \<and> s' = pool_do e s"

fun task_ids :: "pool_task \<Rightarrow> string list" where
  "task_ids (AcquireChecks c) = [co_id c]"
| "task_ids (ReleaseCloses c) = [co_id c]"
| "task_ids (ReleaseChecks c) = [co_id c]"
| "task_ids t = []"

fun plain_task :: "pool_task \<Rightarrow> bool" where
  "plain_task (Sweeps _ _ _) = False"
| "plain_task (SweepCloses _) = False"
| "plain_task Drains = False"
| "plain_task t = True"

text \<open>Where the connections are: idle, held, or in the hands of an operation.\<close>

definition pending_ids :: "(nat, pool_task) jsmap \<Rightarrow> string multiset" where
  "pending_ids ts = mset (concat (map (\<lambda>e. task_ids (snd e)) ts))"

text \<open>\<open>xs\<close>: the connections in the hands of the handler that runs.\<close>

definition pool_holds :: "string list \<Rightarrow> conn_pool \<Rightarrow> bool" where
  "pool_holds xs s \<longleftrightarrow> mset (map co_id (cp_available s)) + mset (cp_inUse s) + pending_ids (cp_tasks s) + mset xs = mset (jm_keys (cp_connections s))
     \<and> jm_wf (cp_connections s) \<and> jm_wf (cp_tasks s) \<and> cp_totalConnections s = int (length (cp_connections s))
     \<and> list_all (\<lambda>e. plain_task (snd e)) (cp_tasks s)"

definition pool_ok :: "conn_pool \<Rightarrow> bool" where
  "pool_ok s \<longleftrightarrow> pool_holds [] s"

lemma pending_set: "\<not> jm_has ts i \<Longrightarrow> pending_ids (jm_set i t ts) = pending_ids ts + mset (task_ids t)"
  by (induction i t ts rule: jm_set.induct) (auto simp: pending_ids_def jm_has_def split: if_splits)

lemma pending_delete: "jm_wf ts \<Longrightarrow> jm_get ts i = Some t \<Longrightarrow> pending_ids ts = mset (task_ids t) + pending_ids (jm_delete i ts)"
proof (induction ts)
  case (Cons e ts)
  show ?case
  proof (cases "fst e = i")
    case True
    then have "jm_get ts i = None" using Cons.prems(1) jm_has_iff [of ts i] by (cases e) (auto simp: jm_wf_def jm_has_def jm_keys_def)
    then have "jm_delete i ts = ts" by (rule jm_delete_absent)
    then show ?thesis using True Cons.prems(2) by (cases e) (simp add: pending_ids_def jm_delete_def)
  next
    case False
    then show ?thesis using Cons by (cases e) (simp add: pending_ids_def jm_delete_def jm_wf_def)
  qed
qed simp

lemma plain_set: "list_all (\<lambda>e. plain_task (snd e)) ts \<Longrightarrow> plain_task t \<Longrightarrow> list_all (\<lambda>e. plain_task (snd e)) (jm_set i t ts)"
  by (induction i t ts rule: jm_set.induct) auto

lemma keys_delete: "jm_wf m \<Longrightarrow> jm_has m k \<Longrightarrow> mset (jm_keys m) = add_mset k (mset (jm_keys (jm_delete k m)))"
proof (induction m)
  case (Cons e m)
  show ?case
  proof (cases "fst e = k")
    case True
    then have "jm_get m k = None" using Cons.prems(1) jm_has_iff [of m k] by (cases e) (auto simp: jm_wf_def jm_has_def jm_keys_def)
    then have "jm_delete k m = m" by (rule jm_delete_absent)
    then show ?thesis using True by (cases e) (simp add: jm_delete_def jm_keys_def)
  next
    case False
    then show ?thesis using Cons by (cases e) (simp add: jm_delete_def jm_keys_def jm_wf_def jm_has_def)
  qed
qed (simp add: jm_has_def)

lemma holds_settles [simp]: "pool_holds xs (settles i r s) \<longleftrightarrow> pool_holds xs s"
  by (simp add: pool_holds_def settles_def)

lemma holds_await: "pool_holds (task_ids t @ xs) s \<Longrightarrow> \<not> jm_has (cp_tasks s) i \<Longrightarrow> plain_task t \<Longrightarrow> pool_holds xs (await i t s)"
  by (simp add: pool_holds_def await_def pending_set plain_set ac_simps)

lemma holds_known: "pool_holds (x # xs) s \<Longrightarrow> jm_has (cp_connections s) x"
  by (metis jm_has_iff list.set_intros(1) pool_holds_def set_mset_mset union_iff)

lemma length_delete: "jm_wf m \<Longrightarrow> jm_has m k \<Longrightarrow> int (length (jm_delete k m)) = int (length m) - 1"
proof -
  assume "jm_wf m" "jm_has m k"
  from arg_cong [OF keys_delete [OF this], of size] show ?thesis by (simp add: jm_keys_def)
qed

lemma holds_drop: "pool_holds (co_id c # xs) s \<Longrightarrow> pool_holds xs (drop_connection c s)"
  using holds_known [of "co_id c" xs s] keys_delete [of "cp_connections s" "co_id c"] length_delete [of "cp_connections s" "co_id c"]
  by (simp add: pool_holds_def drop_connection_def)

lemma holds_fresh: "pool_holds (x # xs) s \<Longrightarrow> x \<notin> set (cp_inUse s)"
proof
  assume h: "pool_holds (x # xs) s" "x \<in> set (cp_inUse s)"
  then have "2 \<le> count (mset (map co_id (cp_available s)) + mset (cp_inUse s) + pending_ids (cp_tasks s) + mset (x # xs)) x"
    by (simp add: numeral_2_eq_2) (simp add: Suc_le_eq trans_less_add1 trans_less_add2)
  then have "2 \<le> count (mset (jm_keys (cp_connections s))) x" using h(1) by (simp only: pool_holds_def)
  moreover have "count (mset (jm_keys (cp_connections s))) x \<le> 1"
    using h(1) by (simp add: pool_holds_def jm_wf_keys distinct_count_atmost_1)
  ultimately show False by simp
qed

lemma holds_grant: "pool_holds (co_id c # xs) s \<Longrightarrow> pool_holds xs (grant_connection i c s)"
  using holds_fresh [of "co_id c" xs s] by (simp add: grant_connection_def pool_holds_def settles_def)

lemma holds_next:
  assumes "pool_holds [] s" "\<not> jm_has (cp_tasks s) i"
  shows "pool_holds [] (next_connection i s)"
proof (cases "cp_available s" rule: rev_cases)
  case Nil
  then show ?thesis using assms holds_await [of AcquireCreates "[]" s i] by (simp add: next_connection_def)
next
  case (snoc cs c)
  then have "pool_holds (task_ids (AcquireChecks c) @ []) (s\<lparr>cp_available := cs\<rparr>)" using assms(1) by (simp add: pool_holds_def)
  from holds_await [OF this] assms(2) show ?thesis by (simp add: next_connection_def snoc)
qed

lemma no_task_drop [simp]: "cp_tasks (drop_connection c s) = cp_tasks s"
  by (simp add: drop_connection_def)

lemma mset_filter_out: "distinct xs \<Longrightarrow> x \<in> set xs \<Longrightarrow> mset xs = add_mset x (mset (filter (\<lambda>y. y \<noteq> x) xs))"
proof (induction xs)
  case (Cons y xs)
  show ?case
  proof (cases "y = x")
    case True
    then have "filter (\<lambda>y. y \<noteq> x) xs = xs" using Cons.prems(1) by (auto simp: filter_id_conv)
    then show ?thesis using True by (simp del: mset_filter)
  next
    case False
    then show ?thesis using Cons by (simp del: mset_filter)
  qed
qed simp

lemma holds_release:
  assumes "pool_ok s" "\<not> jm_has (cp_tasks s) i" "co_id c \<in> set (cp_inUse s)"
  shows "pool_ok (release i c now s)"
proof -
  have all: "mset (jm_keys (cp_connections s)) = mset (cp_inUse s @ map co_id (cp_available s) @ concat (map (\<lambda>e. task_ids (snd e)) (cp_tasks s)))"
    using assms(1) by (simp add: pool_ok_def pool_holds_def pending_ids_def ac_simps)
  have "distinct (cp_inUse s)" "jm_has (cp_connections s) (co_id c)"
    using assms mset_eq_imp_distinct_iff [OF all] mset_eq_setD [OF all] by (auto simp: pool_ok_def pool_holds_def jm_wf_keys jm_has_iff)
  moreover define F where "F = mset (filter (\<lambda>x. x \<noteq> co_id c) (cp_inUse s))"
  with mset_filter_out [OF \<open>distinct (cp_inUse s)\<close> assms(3)] have "mset (cp_inUse s) = add_mset (co_id c) F" by simp
  then have "pool_holds [co_id c] (s\<lparr>cp_totalReleases := cp_totalReleases s + 1, cp_inUse := filter (\<lambda>x. x \<noteq> co_id c) (cp_inUse s)\<rparr>)"
    using assms(1) by (simp add: pool_ok_def pool_holds_def F_def [symmetric] del: mset_filter)
  ultimately show ?thesis using assms(2) by (auto simp: release_def pool_ok_def Let_def intro!: holds_await)
qed

lemma holds_taken: "pool_ok s \<Longrightarrow> jm_get (cp_tasks s) i = Some t \<Longrightarrow> pool_holds (task_ids t) (s\<lparr>cp_tasks := jm_delete i (cp_tasks s)\<rparr>)"
  using pending_delete [of "cp_tasks s" i t]
  by (simp add: pool_ok_def pool_holds_def ac_simps) (auto simp: jm_delete_def list_all_iff)

lemma holds_resume:
  assumes "pool_ok s" "case made of Inr c \<Rightarrow> \<not> jm_has (cp_connections s) (co_id c) | Inl _ \<Rightarrow> True"
  shows "pool_ok (resume i now answers made s)"
proof (cases "jm_get (cp_tasks s) i")
  case (Some t)
  let ?s = "s\<lparr>cp_tasks := jm_delete i (cp_tasks s)\<rparr>"
  have t: "plain_task t" using jm_get_in [OF Some] assms(1) by (auto simp: pool_ok_def pool_holds_def list_all_iff)
  have h: "pool_holds (task_ids t) ?s" by (rule holds_taken [OF assms(1) Some])
  have free: "\<not> jm_has (cp_tasks ?s) i" by (simp add: jm_has_def)
  show ?thesis
  proof (cases t)
    case (AcquireChecks c)
    then show ?thesis using h free holds_grant [of c "[]" ?s] holds_next [OF holds_drop [of c "[]" ?s]]
      by (simp add: pool_ok_def resume_def Let_def Some acquire_checked_def)
  next
    case AcquireCreates
    show ?thesis
    proof (cases made)
      case (Inr c)
      then have "pool_holds [co_id c] (?s\<lparr>cp_connections := jm_set (co_id c) c (cp_connections s), cp_totalConnections := cp_totalConnections s + 1\<rparr>)"
        using h assms(2) AcquireCreates by (simp add: pool_holds_def jm_keys_set length_jm_set)
      from holds_grant [OF this] show ?thesis using Inr AcquireCreates by (simp add: pool_ok_def resume_def Let_def Some acquire_created_def)
    qed (use h AcquireCreates in \<open>simp add: pool_ok_def resume_def Let_def Some acquire_created_def pool_holds_def settles_def\<close>)
  next
    case (ReleaseCloses c)
    then show ?thesis using h holds_drop [of c "[]" ?s] by (simp add: pool_ok_def resume_def Let_def Some)
  next
    case (ReleaseChecks c)
    then show ?thesis using h holds_drop [of c "[]" ?s]
      by (simp add: pool_ok_def resume_def Some release_checked_def Let_def) (simp add: pool_holds_def)
  qed (use t in simp_all)
qed (use assms in \<open>simp add: resume_def\<close>)

lemma disciplined_ok: "pool_ok s \<Longrightarrow> disciplined_step s e s' \<Longrightarrow> pool_ok s'"
proof (cases e)
  case (Acquires i)
  assume "pool_ok s" "disciplined_step s e s'"
  then show ?thesis using Acquires holds_next [of "s\<lparr>cp_totalRequests := cp_totalRequests s + 1\<rparr>" i]
    by (simp add: disciplined_step_def acquire_def pool_ok_def) (simp add: pool_holds_def)
next
  case (LeakCheck now)
  assume "pool_ok s" "disciplined_step s e s'"
  then show ?thesis using LeakCheck by (simp add: disciplined_step_def detect_leaks_def pool_ok_def pool_holds_def)
qed (auto simp: disciplined_step_def intro: holds_release holds_resume)

interpretation cpool: machine "\<lambda>s. \<exists>name maxSize idle maxAge recycle leak. s = new_pool name maxSize idle maxAge recycle leak" disciplined_step pool_ok
proof unfold_locales
  show "pool_ok s" if "\<exists>name maxSize idle maxAge recycle leak. s = new_pool name maxSize idle maxAge recycle leak" for s
    using that by (auto simp: new_pool_def pool_ok_def pool_holds_def pending_ids_def jm_keys_def)
qed (rule disciplined_ok)


definition plain_conn :: "string \<Rightarrow> conn" where
  "plain_conn x = \<lparr>co_id = x, co_createdAt = 0, co_lastUsedAt = 0, co_healthy = True, co_healthCheck = False\<rparr>"

definition small_pool :: "int \<Rightarrow> conn_pool" where
  "small_pool n = new_pool ''db'' n 30000 3600000 (3/4) 300000"


section \<open>What goes wrong\<close>

text \<open>
  A connection that is released twice is handed to two users: it goes to the idle connections twice, and the next two acquires both
  get it.
\<close>

theorem double_release_shares_a_connection:
  assumes "pool_ok s" and "co_id c \<in> set (cp_inUse s)" and "\<not> cp_closed s" and "cp_tasks s = []" and "isConnectionHealthy now True c s"
    and "\<not> of_int (cp_maxConnectionAgeMs s) * cp_recycleThreshold s < of_int (now - co_createdAt c)"
  shows "cp_results (fold pool_do [Releases 1 c now, Resumes 1 now True r, Releases 2 c now, Resumes 2 now True r,
      Acquires 3, Resumes 3 now True r, Acquires 4, Resumes 4 now True r] s) = cp_results s @ [(3, Inr c), (4, Inr c)]"
proof -
  have "mset (map co_id (cp_available s)) + mset (cp_inUse s) = mset (jm_keys (cp_connections s))"
    using assms(1,4) by (simp add: pool_ok_def pool_holds_def pending_ids_def)
  then have known: "jm_has (cp_connections s) (co_id c)"
    using assms(2) mset_eq_setD [of "map co_id (cp_available s) @ cp_inUse s" "jm_keys (cp_connections s)"] by (auto simp: jm_has_iff)
  have "butlast (xs @ [c, c]) = xs @ [c]" for xs by (simp add: butlast_append)
  then show ?thesis using assms(3-) known
    by (simp add: release_def Let_def await_def resume_def release_checked_def isConnectionHealthy_def acquire_def next_connection_def
        acquire_checked_def grant_connection_def settles_def jm_delete_def jm_has_def)
qed

lemma jm_set_new: "\<not> jm_has m k \<Longrightarrow> jm_set k v m = m @ [(k, v)]"
  by (induction k v m rule: jm_set.induct) (auto simp: jm_has_def split: if_splits)

definition creating :: "nat list \<Rightarrow> (nat, pool_task) jsmap" where
  "creating is = map (\<lambda>i. (i, AcquireCreates)) is"

lemma creating_has: "jm_has (creating is) i \<longleftrightarrow> i \<in> set is"
  by (simp add: jm_has_iff creating_def jm_keys_def image_iff)

lemma acquires_wait:
  assumes "cp_available s = []" "\<not> cp_closed s" "cp_totalConnections s < cp_maxPoolSize s" "cp_tasks s = []"
  shows "fold pool_do (map Acquires [0..<n]) s = s\<lparr>cp_totalRequests := cp_totalRequests s + n, cp_tasks := creating [0..<n]\<rparr>"
proof (induction n)
  case (Suc n)
  have "jm_set n AcquireCreates (creating [0..<n]) = creating [0..<Suc n]"
    using jm_set_new [of "creating [0..<n]" n AcquireCreates] by (simp add: creating_has) (simp add: creating_def)
  with Suc assms show ?case by (simp add: acquire_def next_connection_def await_def)
qed (use assms(4) in \<open>simp add: creating_def\<close>)

lemma creates_one:
  assumes "cp_tasks s = creating (k # is)" "k \<notin> set is" "\<not> jm_has (cp_connections s) (co_id c)"
  shows "cp_tasks (resume k now b (Inr c) s) = creating is" "jm_keys (cp_connections (resume k now b (Inr c) s)) = jm_keys (cp_connections s) @ [co_id c]"
    "cp_totalConnections (resume k now b (Inr c) s) = cp_totalConnections s + 1"
    "set (cp_inUse (resume k now b (Inr c) s)) = insert (co_id c) (set (cp_inUse s))"
proof -
  have "jm_get (cp_tasks s) k = Some AcquireCreates" "jm_delete k (cp_tasks s) = creating is"
    using assms(1,2) by (auto simp: creating_def jm_delete_def filter_id_conv)
  then show "cp_tasks (resume k now b (Inr c) s) = creating is" "jm_keys (cp_connections (resume k now b (Inr c) s)) = jm_keys (cp_connections s) @ [co_id c]"
    "cp_totalConnections (resume k now b (Inr c) s) = cp_totalConnections s + 1"
    "set (cp_inUse (resume k now b (Inr c) s)) = insert (co_id c) (set (cp_inUse s))"
    using assms(3) by (auto simp: resume_def Let_def acquire_created_def grant_connection_def settles_def jm_keys_set)
qed

lemma creates_all:
  "cp_tasks s = creating [k..<k + length cs] \<Longrightarrow> distinct (map co_id cs) \<Longrightarrow> set (map co_id cs) \<inter> set (jm_keys (cp_connections s)) = {}
   \<Longrightarrow> s' = fold pool_do (map (\<lambda>(k, c). Resumes k now b (Inr c)) (zip [k..<k + length cs] cs)) s
   \<Longrightarrow> jm_keys (cp_connections s') = jm_keys (cp_connections s) @ map co_id cs \<and> cp_totalConnections s' = cp_totalConnections s + int (length cs)
     \<and> set (cp_inUse s') = set (cp_inUse s) \<union> co_id ` set cs"
proof (induction cs arbitrary: k s)
  case (Cons c cs)
  have upt: "[k..<k + length (c # cs)] = k # [Suc k..<Suc k + length cs]" by (simp del: upt_Suc add: upt_conv_Cons)
  note step = creates_one [OF Cons.prems(1) [unfolded upt], of c now b]
  have new: "k \<notin> set [Suc k..<Suc k + length cs]" "\<not> jm_has (cp_connections s) (co_id c)" using Cons.prems(3) by (auto simp: jm_has_iff)
  have "set (map co_id cs) \<inter> set (jm_keys (cp_connections (resume k now b (Inr c) s))) = {}"
    using Cons.prems(2,3) step(2) [OF new] by auto
  from Cons.IH [OF step(1) [OF new] _ this] Cons.prems(2,4) upt
  show ?case using step(2-4) [OF new] by simp
qed simp

text \<open>
  The size of the pool is not bounded: acquires that run at the same time all see room for one more connection, and each opens one.
  For any number of acquires a pool with room for one connection opens as many.
\<close>

theorem concurrent_acquires_exceed_the_pool:
  assumes "0 < maxSize" and "distinct (map co_id cs)"
  shows "set (cp_inUse (fold pool_do (map Acquires [0..<length cs] @ map (\<lambda>(k, c). Resumes k now b (Inr c)) (zip [0..<length cs] cs))
      (new_pool name maxSize idle maxAge recycle leak))) = co_id ` set cs
    \<and> length (cp_connections (fold pool_do (map Acquires [0..<length cs] @ map (\<lambda>(k, c). Resumes k now b (Inr c)) (zip [0..<length cs] cs))
      (new_pool name maxSize idle maxAge recycle leak))) = length cs"
proof -
  let ?s = "fold pool_do (map Acquires [0..<length cs]) (new_pool name maxSize idle maxAge recycle leak)"
  have s: "?s = (new_pool name maxSize idle maxAge recycle leak)\<lparr>cp_totalRequests := length cs, cp_tasks := creating [0..<length cs]\<rparr>"
    using assms(1) by (subst acquires_wait) (simp_all add: new_pool_def)
  then have "cp_tasks ?s = creating [0..<0 + length cs]" "cp_connections ?s = []" "cp_inUse ?s = []" by (simp_all add: new_pool_def)
  from creates_all [OF this(1) assms(2) _ refl, of now b] this(2,3)
  show ?thesis by (simp add: jm_keys_def) (metis length_map)
qed

theorem concurrent_acquires_exceed_the_pool_witness:
  "length (cp_connections (fold pool_do [Acquires 0, Acquires 1, Resumes 0 0 True (Inr (plain_conn ''a'')), Resumes 1 0 True (Inr (plain_conn ''b''))]
    (new_pool ''db'' 1 30000 3600000 (3/4) 300000))) = 2"
  using concurrent_acquires_exceed_the_pool [of 1 "[plain_conn ''a'', plain_conn ''b'']" 0 True "''db''" 30000 3600000 "3/4" 300000]
  by (simp add: plain_conn_def upt_rec numeral_2_eq_2)

text \<open>A sweep may drop a connection that was acquired while it checked it: the release of its holder is then ignored, and it counts as in use for good.\<close>

definition swept :: conn_pool where
  "swept = fold pool_do [Acquires 1, Resumes 1 0 True (Inr (plain_conn ''a'')), Releases 2 (plain_conn ''a'') 0, Resumes 2 0 True (Inl []),
     SweepStarts 3, Acquires 4, Resumes 4 29000 True (Inl []), Resumes 3 31000 True (Inl []), Releases 5 (plain_conn ''a'') 31000] (small_pool 1)"

lemma sweep_drops_a_held_connection:
  "cp_inUse swept = [''a'']" "cp_connections swept = []" "cp_totalConnections swept = 0" "cp_tasks swept = [(3, SweepCloses [])]"
  by code_simp+

end
