(* ===== verification/CredStore.thy ===== *)
theory CredStore
  imports EventLog
begin

text \<open>
  Models the credentials of \<open>server/src/storage.js\<close>: the file of credentials with its cache and its lock, the operations that change
  it, and the lifecycle events they append.

  The file holds the list of credentials, objects as they are in JSON; a missing file is an empty list. Its operations are cut where
  they wait: for the lock, for the file to be read, for it to be replaced. Times and the text of a time are arguments. Whether an event
  is appended is not modelled here but in \<open>EventLog\<close>: a failure is counted and ignored. Writing the temporary file and its recovery,
  the audit log and its clean-up, custom adapters, and the watermark of the expiry scanner are not modelled.
\<close>

section \<open>Operations on the list\<close>

type_synonym creds = "js_object list"

definition same_id :: "js_object \<Rightarrow> jv \<Rightarrow> bool" where
  "same_id c i = (fld c ''id'' = i)"

definition find_credential :: "jv \<Rightarrow> creds \<Rightarrow> js_object option" where
  "find_credential i cs = find (\<lambda>c. same_id c i) cs"

text \<open>\<open>next[index] = { ...next[index], ...credential }\<close> at the first one with the id\<close>

fun upsertCredential :: "creds \<Rightarrow> js_object \<Rightarrow> creds" where
  "upsertCredential [] c = [c]"
| "upsertCredential (x # xs) c = (if same_id x (fld c ''id'') then spread_into (JObj c) x # xs else x # upsertCredential xs c)"

datatype store_error = Duplicate jv | Conflict jv jv jv

definition text_or :: "string option \<Rightarrow> string \<Rightarrow> string" where
  "text_or t e = (case t of Some s \<Rightarrow> if s = [] then e else s | None \<Rightarrow> e)"

text \<open>\<open>createCredential\<close>: \<open>context\<close> is the tenant of the request context.\<close>

definition with_tenant :: "string option \<Rightarrow> js_object \<Rightarrow> js_object" where
  "with_tenant context c = spread_into (JObj c) [(''tenant_id'', js_or (fld c ''tenant_id'') (JStr (text_or context ''default'')))]"

definition createCredential :: "string option \<Rightarrow> creds \<Rightarrow> js_object \<Rightarrow> store_error + creds" where
  "createCredential context cs c = (if find_credential (fld c ''id'') cs \<noteq> None then Inl (Duplicate (fld c ''id''))
     else Inr (cs @ [with_tenant context c]))"

definition update_where :: "jv \<Rightarrow> (js_object \<Rightarrow> js_object) \<Rightarrow> creds \<Rightarrow> creds" where
  "update_where i f cs = map (\<lambda>c. if same_id c i then f c else c) cs"

fun update_first :: "jv \<Rightarrow> (js_object \<Rightarrow> js_object) \<Rightarrow> creds \<Rightarrow> creds" where
  "update_first i f [] = []"
| "update_first i f (c # cs) = (if same_id c i then f c # cs else c # update_first i f cs)"

section \<open>Lifecycle events\<close>

record lifecycle =
  lf_type :: string
  lf_aggregateId :: jv
  lf_tenantId :: jv
  lf_payload :: js_object
  lf_timestamp :: jv

definition project_event :: "js_object option \<Rightarrow> lifecycle \<Rightarrow> js_object option" where
  "project_event state e = (let p = lf_payload e; s = (case state of Some m \<Rightarrow> m | None \<Rightarrow> [(''id'', lf_aggregateId e)]);
       at_or = (\<lambda>k. js_coalesce (fld p k) (lf_timestamp e)) in
     if lf_type e = ''CredentialIssued'' then
       Some (with_fields [(''id'', lf_aggregateId e), (''tenant_id'', js_coalesce (lf_tenantId e) (js_coalesce (fld p ''tenant_id'') (JStr ''default''))),
         (''revoked'', JBool False)] p)
     else if lf_type e = ''CredentialRevoked'' then Some (with_fields [(''revoked'', JBool True), (''revokedAt'', at_or ''revokedAt'')] s)
     else if lf_type e = ''CredentialSuspended'' then Some (with_fields [(''suspended'', JBool True), (''suspendedAt'', at_or ''suspendedAt'')] s)
     else if lf_type e = ''CredentialRenewed'' then Some (with_fields [(''renewedAt'', at_or ''renewedAt'')] (spread_into (JObj p) s))
     else if lf_type e = ''CredentialVerified'' then Some (with_fields [(''lastVerifiedAt'', at_or ''verifiedAt'')] s)
     else state)"

definition rebuildCredentialFromEvents :: "jv \<Rightarrow> lifecycle list \<Rightarrow> js_object option" where
  "rebuildCredentialFromEvents i es = fold (\<lambda>e s. project_event s e) (filter (\<lambda>e. lf_aggregateId e = i) es) None"

section \<open>Operations that persist\<close>

text \<open>An operation with the texts of the times it reads; \<open>updates\<close> is an object.\<close>

datatype cred_op =
    CreateOp "string option" js_object
  | RevokeOp jv string
  | UpdateOp jv js_object "jv" string rat
  | SuspendOp jv string
  | RenewOp jv js_object string

record op_outcome =
  oc_result :: "store_error + jv"
  oc_written :: "creds option"
  oc_events :: "lifecycle list"

definition life :: "string \<Rightarrow> jv \<Rightarrow> jv \<Rightarrow> js_object \<Rightarrow> string \<Rightarrow> lifecycle" where
  "life ty i tenant payload now = \<lparr>lf_type = ty, lf_aggregateId = i, lf_tenantId = tenant, lf_payload = payload, lf_timestamp = JStr now\<rparr>"

definition tenant_of :: "string option \<Rightarrow> js_object \<Rightarrow> jv" where
  "tenant_of config c = js_or (fld c ''tenant_id'') (JStr (text_or config ''default''))"

definition not_found :: op_outcome where
  "not_found = \<lparr>oc_result = Inr JNull, oc_written = None, oc_events = []\<rparr>"

text \<open>The versions of \<open>updateAndPersistCredential\<close>: \<open>Number\<close> of a text, and \<open>Date.now()\<close> where it is not a number.\<close>

definition version_of_credential :: "js_object \<Rightarrow> jv" where
  "version_of_credential c = js_coalesce (fld c ''version'') (js_coalesce (fld c ''updatedAt'') (js_coalesce (fld c ''issuedAt'') (JNum 1)))"

definition next_credential_version :: "rat \<Rightarrow> jv \<Rightarrow> jv" where
  "next_credential_version now v = (case v of JNum q \<Rightarrow> JNum (q + 1)
     | JStr s \<Rightarrow> (case js_number s of Some q \<Rightarrow> JNum (q + 1) | None \<Rightarrow> JNum now)
     | JBool b \<Rightarrow> JNum (if b then 2 else 1) | _ \<Rightarrow> JNum now)"

definition update_events :: "jv \<Rightarrow> jv \<Rightarrow> js_object \<Rightarrow> js_object \<Rightarrow> string \<Rightarrow> lifecycle list" where
  "update_events i tenant existing updates now = (let is_true = (\<lambda>v. v = JBool True) in
     if is_true (fld updates ''suspended'') \<and> \<not> is_true (fld existing ''suspended'') then
       [life ''CredentialSuspended'' i tenant [(''suspendedAt'', JStr now)] now]
     else if fld updates ''suspended'' = JBool False \<and> is_true (fld existing ''suspended'') then
       [life ''CredentialRenewed'' i tenant (spread_into (JObj updates) [(''resumedAt'', JStr now)]) now]
     else if is_true (fld updates ''renewed'') \<or> js_truthy (fld updates ''renewedAt'') then
       [life ''CredentialRenewed'' i tenant (spread_into (JObj updates) [(''renewedAt'', js_coalesce (fld updates ''renewedAt'') (JStr now))]) now]
     else if is_true (fld updates ''verified'') \<or> js_truthy (fld updates ''verifiedAt'') then
       [life ''CredentialVerified'' i tenant [(''verifiedAt'', js_coalesce (fld updates ''verifiedAt'') (JStr now))] now]
     else [])"

definition createAndPersistCredential :: "string option \<Rightarrow> string option \<Rightarrow> js_object \<Rightarrow> creds \<Rightarrow> op_outcome" where
  "createAndPersistCredential config tenant c cs = (case createCredential tenant cs c of
     Inl e \<Rightarrow> \<lparr>oc_result = Inl e, oc_written = None, oc_events = []\<rparr>
   | Inr cs' \<Rightarrow> \<lparr>oc_result = Inr (JArr (map JObj cs')), oc_written = Some cs',
       oc_events = [life ''CredentialIssued'' (fld c ''id'') (tenant_of config (last cs')) c []]\<rparr>)"

definition revokeAndPersistCredential :: "string option \<Rightarrow> jv \<Rightarrow> string \<Rightarrow> creds \<Rightarrow> op_outcome" where
  "revokeAndPersistCredential config i now cs = (case find_credential i cs of None \<Rightarrow> not_found
   | Some c \<Rightarrow> (let f = with_fields [(''revoked'', JBool True), (''revokedAt'', JStr now)] in
       \<lparr>oc_result = Inr (JObj (f c)), oc_written = Some (update_where i f cs),
        oc_events = [life ''CredentialRevoked'' i (tenant_of config (f c)) [(''revokedAt'', JStr now)] now]\<rparr>))"

definition suspendAndPersistCredential :: "string option \<Rightarrow> jv \<Rightarrow> string \<Rightarrow> creds \<Rightarrow> op_outcome" where
  "suspendAndPersistCredential config i now cs = (case find_credential i cs of None \<Rightarrow> not_found
   | Some c \<Rightarrow> (let f = with_fields [(''suspended'', JBool True), (''suspendedAt'', JStr now)] in
       \<lparr>oc_result = Inr (JObj (f c)), oc_written = Some (update_where i f cs),
        oc_events = [life ''CredentialSuspended'' i (tenant_of config (f c)) [(''suspendedAt'', JStr now)] now]\<rparr>))"

definition renewAndPersistCredential :: "string option \<Rightarrow> jv \<Rightarrow> js_object \<Rightarrow> string \<Rightarrow> creds \<Rightarrow> op_outcome" where
  "renewAndPersistCredential config i updates now cs = (case find_credential i cs of None \<Rightarrow> not_found
   | Some c \<Rightarrow> (let f = (\<lambda>c. with_fields [(''renewedAt'', JStr now), (''suspended'', JBool False)] (spread_into (JObj updates) c)) in
       \<lparr>oc_result = Inr (JObj (f c)), oc_written = Some (update_where i f cs),
        oc_events = [life ''CredentialRenewed'' i (tenant_of config (f c)) (spread_into (JObj updates) [(''renewedAt'', JStr now)]) now]\<rparr>))"

definition updateAndPersistCredential :: "string option \<Rightarrow> jv \<Rightarrow> js_object \<Rightarrow> jv \<Rightarrow> string \<Rightarrow> rat \<Rightarrow> creds \<Rightarrow> op_outcome" where
  "updateAndPersistCredential config i updates expected now clock cs = (case find_credential i cs of None \<Rightarrow> not_found
   | Some c \<Rightarrow> (let v = version_of_credential c in
       if \<not> nullish expected \<and> js_string expected \<noteq> js_string v then \<lparr>oc_result = Inl (Conflict i expected v), oc_written = None, oc_events = []\<rparr>
       else (let c' = with_fields [(''id'', fld c ''id''), (''version'', next_credential_version clock v), (''updatedAt'', JStr now)] (spread_into (JObj updates) c) in
         \<lparr>oc_result = Inr (JObj c'), oc_written = Some (update_first i (\<lambda>_. c') cs),
          oc_events = update_events i (tenant_of config c') c updates now\<rparr>)))"

lemmas persist_defs = createAndPersistCredential_def revokeAndPersistCredential_def suspendAndPersistCredential_def
  renewAndPersistCredential_def updateAndPersistCredential_def

fun run_op :: "string option \<Rightarrow> cred_op \<Rightarrow> creds \<Rightarrow> op_outcome" where
  "run_op config (CreateOp tenant c) cs = createAndPersistCredential config tenant c cs"
| "run_op config (RevokeOp i now) cs = revokeAndPersistCredential config i now cs"
| "run_op config (UpdateOp i updates expected now clock) cs = updateAndPersistCredential config i updates expected now clock cs"
| "run_op config (SuspendOp i now) cs = suspendAndPersistCredential config i now cs"
| "run_op config (RenewOp i updates now) cs = renewAndPersistCredential config i updates now cs"

definition recordCredentialVerification :: "string option \<Rightarrow> jv \<Rightarrow> js_object \<Rightarrow> string \<Rightarrow> lifecycle" where
  "recordCredentialVerification config i extra now =
     life ''CredentialVerified'' i (tenant_of config extra) (spread_into (JObj extra) [(''verifiedAt'', JStr now)]) now"

section \<open>The file, its cache and its lock\<close>

text \<open>A read that missed the cache: it waits for the file, or has its contents. It keeps the time it started at.\<close>

datatype reading = Opening int | Loaded int creds

text \<open>
  The operation that holds the lock: it reads, it is about to replace the file, or it has replaced it and has yet to drop the cache,
  append its events and release the lock.
\<close>

datatype holder = Reads nat cred_op reading | Writes nat creds op_outcome | Written nat op_outcome

record cred_store =
  st_config :: "string option"
  st_ttl :: int
  st_file :: creds
  st_cache :: "(creds \<times> int) option"
  st_queue :: "(nat \<times> cred_op) list"
  st_holder :: "holder option"
  st_reads :: "(nat, reading) jsmap"
  st_answers :: "(nat \<times> creds) list"
  st_results :: "(nat \<times> (store_error + jv)) list"
  st_events :: "lifecycle list"
  st_ops :: "cred_op list"

definition new_store :: "string option \<Rightarrow> int \<Rightarrow> creds \<Rightarrow> cred_store" where
  "new_store config ttl cs = \<lparr>st_config = config, st_ttl = ttl, st_file = cs, st_cache = None, st_queue = [], st_holder = None,
     st_reads = [], st_answers = [], st_results = [], st_events = [], st_ops = []\<rparr>"

definition cached :: "int \<Rightarrow> cred_store \<Rightarrow> creds option" where
  "cached now s = (case st_cache s of Some (cs, t) \<Rightarrow> if now - t < st_ttl s then Some cs else None | None \<Rightarrow> None)"

text \<open>\<open>readCredentials\<close>, for the request \<open>r\<close>: from the cache, or from the file in two steps.\<close>

definition read_starts :: "nat \<Rightarrow> int \<Rightarrow> cred_store \<Rightarrow> cred_store" where
  "read_starts r now s = (case cached now s of
     Some cs \<Rightarrow> s\<lparr>st_answers := st_answers s @ [(r, cs)]\<rparr>
   | None \<Rightarrow> s\<lparr>st_reads := jm_set r (Opening now) (st_reads s)\<rparr>)"

definition read_loads :: "nat \<Rightarrow> cred_store \<Rightarrow> cred_store" where
  "read_loads r s = (case jm_get (st_reads s) r of Some (Opening t) \<Rightarrow> s\<lparr>st_reads := jm_set r (Loaded t (st_file s)) (st_reads s)\<rparr> | _ \<Rightarrow> s)"

definition read_ends :: "nat \<Rightarrow> cred_store \<Rightarrow> cred_store" where
  "read_ends r s = (case jm_get (st_reads s) r of
     Some (Loaded t cs) \<Rightarrow> s\<lparr>st_reads := jm_delete r (st_reads s), st_cache := Some (cs, t), st_answers := st_answers s @ [(r, cs)]\<rparr>
   | _ \<Rightarrow> s)"

text \<open>Operations wait for the lock in the order they came. What they read decides what they do.\<close>

definition releases :: "nat \<Rightarrow> op_outcome \<Rightarrow> cred_store \<Rightarrow> cred_store" where
  "releases i oc s = s\<lparr>st_holder := None, st_results := st_results s @ [(i, oc_result oc)]\<rparr>"

definition decides :: "nat \<Rightarrow> cred_op \<Rightarrow> creds \<Rightarrow> cred_store \<Rightarrow> cred_store" where
  "decides i op cs s = (let oc = run_op (st_config s) op cs; s1 = s\<lparr>st_ops := st_ops s @ [op]\<rparr> in
     case oc_written oc of Some cs' \<Rightarrow> s1\<lparr>st_holder := Some (Writes i cs' oc)\<rparr> | None \<Rightarrow> releases i oc s1)"

definition op_starts :: "nat \<Rightarrow> cred_op \<Rightarrow> cred_store \<Rightarrow> cred_store" where
  "op_starts i op s = s\<lparr>st_queue := st_queue s @ [(i, op)]\<rparr>"

definition op_locks :: "int \<Rightarrow> cred_store \<Rightarrow> cred_store" where
  "op_locks now s = (case (st_holder s, st_queue s) of
     (None, (i, op) # rest) \<Rightarrow> (let s1 = s\<lparr>st_queue := rest\<rparr> in
        case cached now s of Some cs \<Rightarrow> decides i op cs s1 | None \<Rightarrow> s1\<lparr>st_holder := Some (Reads i op (Opening now))\<rparr>)
   | _ \<Rightarrow> s)"

definition op_loads :: "cred_store \<Rightarrow> cred_store" where
  "op_loads s = (case st_holder s of Some (Reads i op (Opening t)) \<Rightarrow> s\<lparr>st_holder := Some (Reads i op (Loaded t (st_file s)))\<rparr> | _ \<Rightarrow> s)"

definition op_reads :: "cred_store \<Rightarrow> cred_store" where
  "op_reads s = (case st_holder s of Some (Reads i op (Loaded t cs)) \<Rightarrow> decides i op cs (s\<lparr>st_cache := Some (cs, t)\<rparr>) | _ \<Rightarrow> s)"

definition op_writes :: "cred_store \<Rightarrow> cred_store" where
  "op_writes s = (case st_holder s of Some (Writes i cs oc) \<Rightarrow> s\<lparr>st_file := cs, st_holder := Some (Written i oc)\<rparr> | _ \<Rightarrow> s)"

definition op_ends :: "cred_store \<Rightarrow> cred_store" where
  "op_ends s = (case st_holder s of
     Some (Written i oc) \<Rightarrow> releases i oc (s\<lparr>st_cache := None, st_events := st_events s @ oc_events oc\<rparr>) | _ \<Rightarrow> s)"

datatype store_event = ReadStarts nat int | ReadLoads nat | ReadEnds nat | OpStarts nat cred_op | OpLocks int | OpLoads | OpReads | OpWrites | OpEnds

fun cred_do :: "store_event \<Rightarrow> cred_store \<Rightarrow> cred_store" where
  "cred_do (ReadStarts r now) s = read_starts r now s"
| "cred_do (ReadLoads r) s = read_loads r s"
| "cred_do (ReadEnds r) s = read_ends r s"
| "cred_do (OpStarts i op) s = op_starts i op s"
| "cred_do (OpLocks now) s = op_locks now s"
| "cred_do OpLoads s = op_loads s"
| "cred_do OpReads s = op_reads s"
| "cred_do OpWrites s = op_writes s"
| "cred_do OpEnds s = op_ends s"

section \<open>Operations run one after the other\<close>

text \<open>The specification: each operation works on what the ones before it left.\<close>

definition op_effect :: "string option \<Rightarrow> cred_op \<Rightarrow> creds \<Rightarrow> creds" where
  "op_effect config op cs = (case oc_written (run_op config op cs) of Some cs' \<Rightarrow> cs' | None \<Rightarrow> cs)"

text \<open>Steps in which no plain read ends with contents that are no longer those of the file, and no cache is filled while it is replaced.\<close>

fun fresh_read :: "cred_store \<Rightarrow> store_event \<Rightarrow> bool" where
  "fresh_read s (ReadEnds r) = (case jm_get (st_reads s) r of Some (Loaded t cs) \<Rightarrow> cs = st_file s | _ \<Rightarrow> True)"
| "fresh_read s e = True"

definition fresh_step :: "cred_store \<Rightarrow> store_event \<Rightarrow> cred_store \<Rightarrow> bool" where
  "fresh_step s e s' \<longleftrightarrow> fresh_read s e \<and> s' = cred_do e s"

text \<open>What the file is, or will be once the holder of the lock has replaced it.\<close>

definition decided :: "cred_store \<Rightarrow> creds" where
  "decided s = (case st_holder s of Some (Writes i cs oc) \<Rightarrow> cs | _ \<Rightarrow> st_file s)"

definition coherent :: "string option \<Rightarrow> creds \<Rightarrow> cred_store \<Rightarrow> bool" where
  "coherent config cs0 s \<longleftrightarrow> st_config s = config \<and> decided s = fold (op_effect config) (st_ops s) cs0
     \<and> (case st_holder s of Some (Reads i op (Loaded t cs)) \<Rightarrow> cs = st_file s | _ \<Rightarrow> True)
     \<and> (case st_holder s of Some (Written i oc) \<Rightarrow> True | _ \<Rightarrow> (case st_cache s of Some (cs, t) \<Rightarrow> cs = st_file s | None \<Rightarrow> True))"

lemma coherent_decides:
  assumes "st_config s = config" "st_file s = fold (op_effect config) (st_ops s) cs0" "st_holder s = None \<or> (\<exists>r. st_holder s = Some (Reads i op r))"
    and "case st_cache s of Some (cs, t) \<Rightarrow> cs = st_file s | None \<Rightarrow> True"
  shows "coherent config cs0 (decides i op (st_file s) s)"
  using assms by (auto simp: coherent_def decides_def releases_def decided_def op_effect_def Let_def split: option.splits)

lemma coherent_step: "coherent config cs0 s \<Longrightarrow> fresh_step s e s' \<Longrightarrow> coherent config cs0 s'"
proof (cases e)
  case (OpLocks now)
  assume c: "coherent config cs0 s" and "fresh_step s e s'"
  then have s': "s' = op_locks now s" by (simp add: fresh_step_def OpLocks)
  show ?thesis
  proof (cases "st_holder s = None \<and> st_queue s \<noteq> []")
    case True
    then obtain i op rest where q: "st_queue s = (i, op) # rest" "st_holder s = None" by (cases "st_queue s") auto
    let ?s = "s\<lparr>st_queue := rest\<rparr>"
    show ?thesis
    proof (cases "cached now s")
      case None
      then show ?thesis using c q by (auto simp: s' op_locks_def coherent_def decided_def split: option.splits)
    next
      case (Some cs)
      then have "cs = st_file s" using c q by (auto simp: cached_def coherent_def split: option.splits if_splits)
      moreover have "coherent config cs0 (decides i op (st_file ?s) ?s)"
        by (rule coherent_decides) (use c q in \<open>auto simp: coherent_def decided_def split: option.splits\<close>)
      ultimately show ?thesis using q Some by (simp add: s' op_locks_def Let_def)
    qed
  next
    case False
    then have "s' = s" by (auto simp: s' op_locks_def split: option.splits list.splits)
    then show ?thesis using c by simp
  qed
next
  case OpReads
  assume c: "coherent config cs0 s" and "fresh_step s e s'"
  then have s': "s' = op_reads s" by (simp add: fresh_step_def OpReads)
  show ?thesis
  proof (cases "\<exists>i op t cs. st_holder s = Some (Reads i op (Loaded t cs))")
    case True
    then obtain i op t cs where h: "st_holder s = Some (Reads i op (Loaded t cs))" by blast
    let ?s = "s\<lparr>st_cache := Some (cs, t)\<rparr>"
    have "cs = st_file s" using c h by (simp add: coherent_def)
    moreover have "coherent config cs0 (decides i op (st_file ?s) ?s)"
      by (rule coherent_decides) (use c h \<open>cs = st_file s\<close> in \<open>auto simp: coherent_def decided_def\<close>)
    ultimately show ?thesis using h by (simp add: s' op_reads_def)
  next
    case False
    then have "s' = s" by (auto simp: s' op_reads_def split: option.splits holder.splits reading.splits)
    then show ?thesis using c by simp
  qed
qed (auto simp: fresh_step_def coherent_def decided_def read_starts_def read_loads_def read_ends_def op_starts_def op_loads_def op_writes_def
      op_ends_def releases_def split: option.splits holder.splits reading.splits prod.splits)

interpretation serial: machine "\<lambda>s. s = new_store config ttl cs" fresh_step "coherent config cs"
proof unfold_locales
  show "coherent config cs s" if "s = new_store config ttl cs" for s
    using that by (simp add: new_store_def coherent_def decided_def)
qed (rule coherent_step)

text \<open>
  C38. The operations on the credentials are serialised: in any interleaving of reads and operations in which no plain read puts an
  outdated list into the cache, the file is at any time what the operations give that have decided, one after the other in the order
  they took the lock, the last of them at the latest when it lets the lock go.
\<close>

theorem store_operations_are_serial:
  assumes "exec fresh_step (new_store config ttl cs) es s" and "st_holder s = None"
  shows "st_file s = fold (op_effect config) (st_ops s) cs"
  using serial.reachable_inv [OF refl assms(1)] assms(2) by (simp add: coherent_def decided_def)

section \<open>An outdated read\<close>

definition undone :: "int \<Rightarrow> jv \<Rightarrow> string \<Rightarrow> cred_op \<Rightarrow> store_event list" where
  "undone now i revokedAt op = [ReadStarts 1 now, ReadLoads 1, OpStarts 2 (RevokeOp i revokedAt), OpLocks now, OpLoads, OpReads, OpWrites, OpEnds,
     ReadEnds 1, OpStarts 3 op, OpLocks now, OpWrites, OpEnds]"

text \<open>
  C39. The lock does not protect the credentials from the cache: a plain read that loaded the file before a revocation and ends after it
  puts the old list back into the cache, so the next operation works on it and writes the credential back as it was before the
  revocation, although that was acknowledged.
\<close>

theorem stale_read_undoes_revocation:
  assumes "find_credential i cs = Some c" and "oc_written (run_op config op cs) = Some cs'" and "0 < ttl"
  shows "st_file (fold cred_do (undone now i revokedAt op) (new_store config ttl cs)) = cs'
    \<and> (2, Inr (JObj (with_fields [(''revoked'', JBool True), (''revokedAt'', JStr revokedAt)] c)))
      \<in> set (st_results (fold cred_do (undone now i revokedAt op) (new_store config ttl cs)))"
  using assms
  by (simp add: undone_def new_store_def read_starts_def read_loads_def read_ends_def op_starts_def op_locks_def op_loads_def op_reads_def
      op_writes_def op_ends_def cached_def decides_def releases_def persist_defs Let_def jm_delete_def)

definition issued :: "string \<Rightarrow> js_object" where
  "issued i = [(''id'', JStr i)]"

theorem stale_read_undoes_revocation_witness:
  "st_file (fold cred_do (undone 0 (JStr ''a'') ''t'' (CreateOp None (issued ''b''))) (new_store None 5000 [issued ''a'']))
    = [issued ''a'', with_tenant None (issued ''b'')]"
proof -
  have "find_credential (JStr ''a'') [issued ''a''] = Some (issued ''a'')" by code_simp
  moreover have "oc_written (run_op None (CreateOp None (issued ''b'')) [issued ''a'']) = Some [issued ''a'', with_tenant None (issued ''b'')]"
    by (simp add: persist_defs createCredential_def find_credential_def same_id_def issued_def fld_def)
  ultimately show ?thesis using stale_read_undoes_revocation [of "JStr ''a''" "[issued ''a'']" "issued ''a''" None] by simp
qed

theorem store_operations_are_serial_witness:
  "st_file (fold cred_do [OpStarts 1 (CreateOp None (issued ''a'')), OpLocks 0, OpLoads, OpReads, OpWrites, OpEnds] (new_store None 5000 []))
    = [with_tenant None (issued ''a'')]"
proof -
  let ?s = "fold cred_do [OpStarts 1 (CreateOp None (issued ''a'')), OpLocks 0, OpLoads, OpReads, OpWrites, OpEnds] (new_store None 5000 [])"
  have "exec fresh_step (new_store None 5000 []) [OpStarts 1 (CreateOp None (issued ''a'')), OpLocks 0, OpLoads, OpReads, OpWrites, OpEnds] ?s"
    by (simp add: fresh_step_def)
  moreover have "st_holder ?s = None" "st_ops ?s = [CreateOp None (issued ''a'')]" by code_simp+
  ultimately have "st_file ?s = fold (op_effect None) [CreateOp None (issued ''a'')] []" using store_operations_are_serial by metis
  also have "\<dots> = [with_tenant None (issued ''a'')]" by code_simp
  finally show ?thesis .
qed

section \<open>The events agree with the store\<close>

text \<open>Operations that say nothing of the revocation of a credential in what they write.\<close>

fun silent_on_revocation :: "cred_op \<Rightarrow> bool" where
  "silent_on_revocation (CreateOp context c) \<longleftrightarrow> jm_wf c \<and> \<not> js_truthy (fld c ''revoked'')"
| "silent_on_revocation (UpdateOp i updates expected now clock) \<longleftrightarrow> \<not> jm_has updates ''revoked'' \<and> \<not> jm_has updates ''id''"
| "silent_on_revocation (RenewOp i updates now) \<longleftrightarrow> \<not> jm_has updates ''revoked'' \<and> \<not> jm_has updates ''id''"
| "silent_on_revocation op \<longleftrightarrow> True"

text \<open>A history of operations one after the other, with the events they append.\<close>

primrec history :: "string option \<Rightarrow> cred_op list \<Rightarrow> creds \<times> lifecycle list \<Rightarrow> creds \<times> lifecycle list" where
  "history config [] s = s"
| "history config (op # ops) s = history config ops (op_effect config op (fst s), snd s @ oc_events (run_op config op (fst s)))"

definition revoked_flag :: "js_object option \<Rightarrow> bool option" where
  "revoked_flag c = map_option (\<lambda>c. js_truthy (fld c ''revoked'')) c"

definition agree :: "creds \<times> lifecycle list \<Rightarrow> bool" where
  "agree s \<longleftrightarrow> (\<forall>i. revoked_flag (find_credential i (fst s)) = revoked_flag (rebuildCredentialFromEvents i (snd s)))"

lemma rebuild_append: "rebuildCredentialFromEvents i (es @ [e]) = (if lf_aggregateId e = i then project_event (rebuildCredentialFromEvents i es) e else rebuildCredentialFromEvents i es)"
  by (simp add: rebuildCredentialFromEvents_def)

lemma fld_with: "fld (with_fields kvs m) k = (case map_of (rev kvs) k of Some v \<Rightarrow> v | None \<Rightarrow> fld m k)"
  by (induction kvs arbitrary: m) (auto simp: with_fields_def map_of_append split: option.splits prod.splits)

lemma revoked_with: "revoked_flag (Some (with_fields kvs m)) = Some (js_truthy (case map_of (rev kvs) ''revoked'' of Some v \<Rightarrow> v | None \<Rightarrow> fld m ''revoked''))"
  by (simp add: revoked_flag_def fld_with)

lemma find_update_where:
  assumes "\<And>c. fld (f c) ''id'' = fld c ''id''"
  shows "find_credential j (update_where i f cs) = (if j = i then map_option f (find_credential j cs) else find_credential j cs)"
  using assms by (induction cs) (auto simp: find_credential_def update_where_def same_id_def)

lemma find_update_first:
  assumes "find_credential i cs = Some c" "fld (f c) ''id'' = fld c ''id''"
  shows "find_credential j (update_first i f cs) = (if j = i then Some (f c) else find_credential j cs)"
  using assms by (induction cs) (auto simp: find_credential_def same_id_def split: if_splits)

lemma find_id: "find_credential i cs = Some c \<Longrightarrow> fld c ''id'' = i"
  by (auto simp: find_credential_def same_id_def find_Some_iff)

lemma find_append: "find_credential i (cs @ [c]) = (case find_credential i cs of Some x \<Rightarrow> Some x | None \<Rightarrow> if fld c ''id'' = i then Some c else None)"
  by (induction cs) (auto simp: find_credential_def same_id_def)

lemma fld_spread_obj: "\<not> jm_has updates k \<Longrightarrow> fld (spread_into (JObj updates) m) k = fld m k"
  by (rule fld_spread) (simp add: has_key_def)

lemma get_spread_wf: "jm_wf u \<Longrightarrow> jm_get (spread_into (JObj u) m) k = (case jm_get u k of Some v \<Rightarrow> Some v | None \<Rightarrow> jm_get m k)"
proof -
  have "jm_wf u \<Longrightarrow> jm_get (fold (\<lambda>(k, x). jm_set k x) u m) k = (case jm_get u k of Some v \<Rightarrow> Some v | None \<Rightarrow> jm_get m k)" for m
  proof (induction u arbitrary: m)
    case (Cons e u)
    obtain a b where e: "e = (a, b)" by fastforce
    have "jm_get u a = None" "jm_wf u" using Cons.prems by (auto simp: e jm_wf_def jm_get_def map_of_eq_None_iff)
    then show ?case using Cons.IH [of "jm_set a b m"] by (cases "k = a") (simp_all add: e split: option.split)
  qed simp
  then show "jm_wf u \<Longrightarrow> jm_get (spread_into (JObj u) m) k = (case jm_get u k of Some v \<Rightarrow> Some v | None \<Rightarrow> jm_get m k)"
    by (simp add: spread_into_def)
qed

lemma has_simps: "jm_has (jm_set a b m) k \<longleftrightarrow> a = k \<or> jm_has m k" "jm_has ((a, b) # m) k \<longleftrightarrow> a = k \<or> jm_has m k" "\<not> jm_has [] k"
  by (auto simp: jm_has_def)

lemma has_spread: "jm_has (spread_into (JObj u) m) k \<longleftrightarrow> jm_has u k \<or> jm_has m k"
proof -
  have "jm_has (fold (\<lambda>(k, x). jm_set k x) u m) k \<longleftrightarrow> jm_has u k \<or> jm_has m k" for m
  proof (induction u arbitrary: m)
    case (Cons e u)
    obtain a b where e: "e = (a, b)" by fastforce
    show ?case using Cons.IH [of "jm_set a b m"] by (simp only: e fold_simps o_apply split has_simps) blast
  qed (simp add: has_simps)
  then show ?thesis by (simp add: spread_into_def)
qed

lemma fld_with_tenant: "jm_wf c \<Longrightarrow> k \<noteq> ''tenant_id'' \<Longrightarrow> fld (with_tenant context c) k = fld c k"
  by (simp add: with_tenant_def fld_def get_spread_wf split: option.split)

definition keeps_revocation :: "lifecycle \<Rightarrow> bool" where
  "keeps_revocation e \<longleftrightarrow> lf_type e \<in> {''CredentialSuspended'', ''CredentialRenewed'', ''CredentialVerified''} \<and> \<not> jm_has (lf_payload e) ''revoked''"

lemma project_keeps: "keeps_revocation e \<Longrightarrow> revoked_flag (project_event (Some m) e) = revoked_flag (Some m)"
  by (auto simp: keeps_revocation_def project_event_def Let_def revoked_flag_def fld_with fld_spread_obj)

lemma agree_keeps:
  assumes "agree (cs, es)" and "find_credential i cs = Some c" and "\<And>j. find_credential j cs' = (if j = i then Some c' else find_credential j cs)"
    and "fld c' ''revoked'' = fld c ''revoked''" and "list_all (\<lambda>e. lf_aggregateId e = i \<and> keeps_revocation e) evs"
  shows "agree (cs', es @ evs)"
proof -
  have "revoked_flag (rebuildCredentialFromEvents j (es @ evs)) = revoked_flag (rebuildCredentialFromEvents j es)" for j
    using assms(5)
  proof (induction evs rule: rev_induct)
    case (snoc e evs)
    have "revoked_flag (rebuildCredentialFromEvents j (es @ evs)) = revoked_flag (find_credential j cs)"
      using snoc assms(1) by (simp add: agree_def)
    then have "j = i \<Longrightarrow> \<exists>m. rebuildCredentialFromEvents j (es @ evs) = Some m" using assms(2) by (auto simp: revoked_flag_def)
    then show ?case using snoc project_keeps [of e]
      by (auto simp: rebuild_append simp flip: append_assoc)
  qed simp
  note kept = this
  show ?thesis unfolding agree_def
  proof
    fix j
    have "revoked_flag (find_credential j cs') = revoked_flag (find_credential j cs)" using assms(2-4) by (simp add: revoked_flag_def)
    then show "revoked_flag (find_credential j (fst (cs', es @ evs))) = revoked_flag (rebuildCredentialFromEvents j (snd (cs', es @ evs)))"
      using assms(1) kept [of j] by (simp add: agree_def)
  qed
qed

lemma agree_step:
  assumes "agree (cs, es)" and "silent_on_revocation op"
  shows "agree (op_effect config op cs, es @ oc_events (run_op config op cs))"
proof (cases op)
  case (CreateOp ctx c)
  show ?thesis
  proof (cases "find_credential (fld c ''id'') cs")
    case None
    have "jm_wf c" "\<not> js_truthy (fld c ''revoked'')" using assms(2) CreateOp by simp_all
    note wf = this
    show ?thesis unfolding agree_def
    proof
      fix j
      have "revoked_flag (find_credential j cs) = revoked_flag (rebuildCredentialFromEvents j es)" using assms(1) by (simp add: agree_def)
      then show "revoked_flag (find_credential j (fst (op_effect config op cs, es @ oc_events (run_op config op cs))))
          = revoked_flag (rebuildCredentialFromEvents j (snd (op_effect config op cs, es @ oc_events (run_op config op cs))))"
        using None wf CreateOp
        by (cases "j = fld c ''id''") (simp_all add: op_effect_def persist_defs createCredential_def find_append fld_with_tenant life_def rebuild_append
          project_event_def revoked_flag_def fld_with Let_def split: option.split, (cases "find_credential j cs"; simp))
    qed
  qed (use assms(1) CreateOp in \<open>simp add: op_effect_def persist_defs createCredential_def\<close>)
next
  case (RevokeOp i now)
  show ?thesis
  proof (cases "find_credential i cs")
    case (Some c)
    let ?f = "with_fields [(''revoked'', JBool True), (''revokedAt'', JStr now)]"
    have f: "find_credential j (update_where i ?f cs) = (if j = i then map_option ?f (find_credential j cs) else find_credential j cs)" for j
      by (rule find_update_where) (simp add: fld_with)
    have "revoked_flag (project_event s (life ''CredentialRevoked'' i t [(''revokedAt'', JStr now)] now)) = Some True" for s t
      by (simp add: project_event_def life_def Let_def revoked_flag_def fld_with)
    moreover have "lf_aggregateId (life ''CredentialRevoked'' i t p now) = i" for t p by (simp add: life_def)
    moreover have "revoked_flag (Some (?f c)) = Some True" by (simp add: revoked_flag_def fld_with)
    ultimately show ?thesis using assms(1) Some RevokeOp
      by (auto simp: agree_def op_effect_def persist_defs f rebuild_append Let_def)
  qed (use assms(1) RevokeOp in \<open>simp add: op_effect_def persist_defs not_found_def\<close>)
next
  case (SuspendOp i now)
  show ?thesis
  proof (cases "find_credential i cs")
    case (Some c)
    let ?f = "with_fields [(''suspended'', JBool True), (''suspendedAt'', JStr now)]"
    have f: "find_credential j (update_where i ?f cs) = (if j = i then Some (?f c) else find_credential j cs)" for j
      using find_update_where [of ?f j i cs] Some by (simp add: fld_with)
    show ?thesis using agree_keeps [OF assms(1) Some f, of "[life ''CredentialSuspended'' i (tenant_of config (?f c)) [(''suspendedAt'', JStr now)] now]"] Some SuspendOp
      by (simp add: op_effect_def persist_defs Let_def fld_with life_def keeps_revocation_def jm_has_def)
  qed (use assms(1) SuspendOp in \<open>simp add: op_effect_def persist_defs not_found_def\<close>)
next
  case (RenewOp i updates now)
  show ?thesis
  proof (cases "find_credential i cs")
    case (Some c)
    have no: "\<not> jm_has updates ''revoked''" "\<not> jm_has updates ''id''" using assms(2) RenewOp by simp_all
    let ?f = "\<lambda>c. with_fields [(''renewedAt'', JStr now), (''suspended'', JBool False)] (spread_into (JObj updates) c)"
    have f: "find_credential j (update_where i ?f cs) = (if j = i then Some (?f c) else find_credential j cs)" for j
      using find_update_where [of ?f j i cs] Some by (simp add: fld_with fld_spread_obj no)
    show ?thesis using agree_keeps [OF assms(1) Some f, of "[life ''CredentialRenewed'' i (tenant_of config (?f c)) (spread_into (JObj updates) [(''renewedAt'', JStr now)]) now]"] Some RenewOp no
      by (simp add: op_effect_def persist_defs Let_def fld_with fld_spread_obj life_def keeps_revocation_def has_spread has_simps)
  qed (use assms(1) RenewOp in \<open>simp add: op_effect_def persist_defs not_found_def\<close>)
next
  case (UpdateOp i updates expected now clock)
  show ?thesis
  proof (cases "oc_written (run_op config op cs)")
    case None
    then have "oc_events (run_op config op cs) = []"
      using UpdateOp by (auto simp: persist_defs not_found_def Let_def split: option.splits if_splits)
    then show ?thesis using assms(1) None by (simp add: op_effect_def)
  next
    case (Some cs')
    have no: "\<not> jm_has updates ''revoked''" "\<not> jm_has updates ''id''" using assms(2) UpdateOp by simp_all
    obtain c where c: "find_credential i cs = Some c" using Some UpdateOp by (auto simp: persist_defs not_found_def split: option.splits)
    let ?c = "with_fields [(''id'', fld c ''id''), (''version'', next_credential_version clock (version_of_credential c)), (''updatedAt'', JStr now)] (spread_into (JObj updates) c)"
    have w: "cs' = update_first i (\<lambda>_. ?c) cs" "oc_events (run_op config op cs) = update_events i (tenant_of config ?c) c updates now"
      using Some c UpdateOp by (auto simp: persist_defs Let_def split: if_splits)
    have f: "find_credential j cs' = (if j = i then Some ?c else find_credential j cs)" for j
      unfolding w(1) by (rule find_update_first [OF c]) (simp add: fld_with)
    have evs: "list_all (\<lambda>e. lf_aggregateId e = i \<and> keeps_revocation e) (update_events i t c updates now)" for t
      using no by (simp add: update_events_def Let_def life_def keeps_revocation_def has_spread has_simps)
    have "fld ?c ''revoked'' = fld c ''revoked''" by (simp add: fld_with fld_spread_obj no)
    from agree_keeps [OF assms(1) c f this evs] show ?thesis using Some w(2) by (simp add: op_effect_def)
  qed
qed



text \<open>
  Suspension is another matter: a renewal ends a suspension in the store, but its event does not, so the credential its events
  rebuild stays suspended.
\<close>

theorem renewal_stays_suspended_in_events:
  assumes "find_credential i cs = Some c" and "rebuildCredentialFromEvents i es = Some m" and "fld m ''suspended'' = JBool True"
    and "\<not> jm_has updates ''suspended''" and "\<not> jm_has updates ''id''"
  shows "map_option (\<lambda>c. fld c ''suspended'') (find_credential i (op_effect config (RenewOp i updates now) cs)) = Some (JBool False)
    \<and> map_option (\<lambda>c. fld c ''suspended'') (rebuildCredentialFromEvents i (es @ oc_events (run_op config (RenewOp i updates now) cs))) = Some (JBool True)"
proof -
  let ?f = "\<lambda>c. with_fields [(''renewedAt'', JStr now), (''suspended'', JBool False)] (spread_into (JObj updates) c)"
  have "find_credential i (update_where i ?f cs) = Some (?f c)"
    using find_update_where [of ?f i i cs] assms(1) by (simp add: fld_with fld_spread_obj assms(5))
  moreover have "\<not> jm_has (spread_into (JObj updates) [(''renewedAt'', JStr now)]) ''suspended''" using assms(4) by (simp add: has_spread has_simps)
  ultimately show ?thesis using assms(1-3)
    by (simp add: op_effect_def persist_defs Let_def rebuild_append life_def project_event_def fld_with fld_spread_obj)
qed

theorem renewal_stays_suspended_in_events_witness:
  "map_option (\<lambda>c. fld c ''suspended'') (find_credential (JStr ''a'') (op_effect None (RenewOp (JStr ''a'') [] ''u'') [issued ''a''])) = Some (JBool False)"
  using renewal_stays_suspended_in_events [of "JStr ''a''" "[issued ''a'']" "issued ''a''"
    "[life ''CredentialSuspended'' (JStr ''a'') JNull [] ''t'']"
    "the (rebuildCredentialFromEvents (JStr ''a'') [life ''CredentialSuspended'' (JStr ''a'') JNull [] ''t''])" "[]" None "''u''"]
  by (simp add: find_credential_def same_id_def issued_def fld_def rebuildCredentialFromEvents_def life_def project_event_def with_fields_def jm_has_def)

end
