(* ===== verification/Spec2Isabelle.thy ===== *)
theory Spec2Isabelle
  imports MerkleCred CredentialProps RateLimit ApiKeys CircuitBreaker Presentation Quota Webhooks Events JobQueue EventLog VcPresentation Resp HttpAuth TieredLimiter FeatureFlags DidCache Cron ConnPool CredStore
begin

text \<open>
  A verification development of Soroban-Identity: the TypeScript SDK (\<open>src/sdk/src\<close>) and the JavaScript server
  (\<open>src/server/src\<close>) of a system of decentralised identities, credentials and reputation on Stellar.

  \<^bold>\<open>The program and how its parts interact.\<close> Contracts on the ledger hold DIDs, credentials and reputation. The SDK's clients
  (\<open>identity.ts\<close>, \<open>credentials.ts\<close>, \<open>reputation.ts\<close>) simulate and submit contract calls through a base client with failover,
  a request queue, retries and polling (\<open>base-client.ts\<close>, \<open>request-queue.ts\<close>, \<open>utils.ts\<close>). The SDK also brings Merkle
  batches, presentations, an event reader, and server-side parts: request signing, rate limits, API keys, webhooks. The server stores
  credentials and their lifecycle events, authenticates requests (admin address list, API keys, OAuth, CORS), limits them (quotas,
  tiers, a circuit breaker), caches DID documents in Redis, runs jobs from a queue and on cron schedules, and emits W3C verifiable
  credentials with Data Integrity proofs over canonical JSON.

  \<^bold>\<open>Theories and sources.\<close> Shared: \<open>Prelude\<close> (maps in insertion order, strings, hex), \<open>Machine\<close> (executions of event
  handlers; the locales \<open>machine\<close>, \<open>stable_machine\<close> and \<open>draining_machine\<close> state what an invariant, a lasting property and
  progress to rest need, and every event-driven component interprets the ones it uses), \<open>Regex\<close>, \<open>JsNumber\<close>, \<open>JsValue\<close>,
  \<open>JsObject\<close>, \<open>JsText\<close>, \<open>IsoDate\<close> (the parts of JavaScript the code uses).

  The SDK: \<open>SdkErrors\<close> (\<open>errors.ts\<close>, \<open>error-codes.ts\<close>), \<open>Merkle\<close> (\<open>merkle.ts\<close>) and \<open>MerkleCred\<close> (the second
  implementation, in \<open>credentials.ts\<close>), \<open>Rpc\<close> (the world of a client: nodes, timers, what it sent), \<open>Utils\<close> (\<open>utils.ts\<close>),
  \<open>ContractArgs\<close> (\<open>codec.ts\<close>, \<open>contract-args.ts\<close>), \<open>RequestQueue\<close> (\<open>request-queue.ts\<close>), \<open>Client\<close> and
  \<open>ContractCall\<close> (\<open>base-client.ts\<close>, \<open>transaction.ts\<close> and the shared steps of a call), \<open>Identity\<close>, \<open>TxBuilder\<close>,
  \<open>Reputation\<close>, \<open>CredentialCalls\<close>, \<open>Credentials\<close>, \<open>CredentialQueries\<close>, \<open>CredentialProps\<close> (the clients, one
  definition per method), \<open>Signing\<close> (\<open>server/request-signing.ts\<close>, and the verifier of the server), \<open>RateLimit\<close>,
  \<open>ApiKeys\<close>, \<open>Webhooks\<close> (\<open>sdk/src/server\<close>), \<open>Presentation\<close> (\<open>presentation.ts\<close>), \<open>Events\<close> (\<open>events.ts\<close>).

  The server: \<open>CircuitBreaker\<close>, \<open>Jcs\<close>, \<open>Quota\<close>, \<open>JobQueue\<close>, \<open>EventLog\<close> (\<open>events/\<close>), \<open>Base58\<close>,
  \<open>VcJsonld\<close> and \<open>VcPresentation\<close> (\<open>vc-jsonld.js\<close>), \<open>Resp\<close> (\<open>redis-client.js\<close>), \<open>OAuth\<close>,
  \<open>ServerKeys\<close> (\<open>api-keys.js\<close>), \<open>IpAllow\<close> (\<open>ip-whitelist.js\<close>), \<open>HttpAuth\<close> (\<open>http-utils.js\<close>, which composes
  the three before it), \<open>TieredLimiter\<close> (\<open>rate-limiter.js\<close>), \<open>FeatureFlags\<close>, \<open>DidCache\<close>, \<open>Cron\<close>,
  \<open>ConnPool\<close> (\<open>connection-pool.js\<close>), \<open>CredStore\<close> (\<open>storage.js\<close>). Each opens with what it holds and leaves out.

  \<^bold>\<open>How code is modelled.\<close> Objects are records, or association lists in insertion order where their keys are data; errors are values
  of a sum or option type. An SDK method is a computation over the world of \<open>Rpc\<close>; a component whose handlers interleave is a state
  with one function per handler, an asynchronous method being cut at its \<open>await\<close>s (\<open>RequestQueue\<close>, \<open>JobQueue\<close>,
  \<open>CircuitBreaker\<close>, \<open>ConnPool\<close>, \<open>CredStore\<close>, \<open>Cron\<close>). Bit operations are on words of their width; times are integers.

  \<^bold>\<open>What the groups of lemmas show.\<close> Interleavings: the request queue never exceeds its limit and settles everything; a pool of
  concurrent tasks runs each item once; a queue of jobs with one worker loses none; connections are not shared; operations on the
  credentials are serialised as long as no outdated read fills their cache. Equivalences and refinements: the two Merkle
  implementations agree; token buckets refine a continuous one; the key service accepts the keys its records say; projections
  agree with replay and the store with its events; two address filters agree. Security: Merkle proofs accept exactly members up to
  collisions of the hash; signed requests are not replayed; every authorised request is vouched for; OAuth tokens carry no more than was
  approved; revoked tokens and keys stay dead; a verified document is the signed one. Round trips: RESP, base58, canonical JSON,
  compaction. Errors: what the code does where it does not do what it means to, each as a theorem at a stated configuration.

  \<^bold>\<open>Bounds and fuel.\<close> The parser of \<open>Resp\<close> takes the length of the buffer as its depth, proved to be enough for every reply and to
  give the same result at any greater depth. The scan of \<open>Resp\<close> and the batches of the credential client take fuel; for the latter
  termination is characterised. The search of \<open>Cron\<close> has the 2108160 steps the code gives it, proved enough for schedules that
  restrict the weekday or name a day every year has.

  \<^bold>\<open>Parameters.\<close> SHA-256, HMAC, Ed25519, the RPC nodes, Redis and the store files as far as they answer, \<open>net.isIP\<close>, the
  clock and random bytes are arguments; hypotheses on them are named in the theorems (a hash gives 32 bytes and does not collide on the
  inputs at hand, a signature verifies what it signed, a socket delivers in order).

  \<^bold>\<open>Not modelled.\<close> The contracts (Rust), the frontend, the mobile app, the extension, the command line and the analytics service: views
  of the modelled operations, or other programs. Of the server: the routes of \<open>app.js\<close> beyond their use of the services, the
  configuration, logs, traces, metrics, billing and email, GraphQL, live channels, multi-tenancy, encryption at rest and in responses
  (calls of Node's crypto), the expiry scanner, batches and the other request middleware. Of modelled files, what each theory says.
  Reading and writing files is modelled where an interleaving depends on it (\<open>CredStore\<close>), otherwise as a store that keeps what it
  is given.
\<close>

end
